(* ===== verification/Marvel_Prelude.thy ===== *)
theory Marvel_Prelude
  imports Main "HOL-Library.Word" "HOL-Library.Monad_Syntax"
begin

unbundle bit_operations_syntax

text \<open>
  The prelude of the MarvelOS development: the machine types of \<^verbatim>\<open>types.h\<close>, the raw byte
  memory the kernel's pointers range over, regions of it, bulk reads and writes, and the
  lemmas on lists, options and words that the component theories share.

  Raw memory is a total function from 32-bit addresses to bytes.  Pointer arithmetic is word
  arithmetic, so a pointer that runs past the last address wraps to 0 as it does on the
  machine.  A region is a start address and a length in bytes; membership is decided by the
  distance from the start (\<open>unat (a - p) < n\<close>), which stays correct when the region wraps.
\<close>

named_theorems mem_simps \<open>bulk reads and writes of raw memory\<close>
named_theorems region_simps \<open>regions of raw memory and their separation\<close>

type_synonym byte = "8 word"
type_synonym u16 = "16 word"
type_synonym u32 = "32 word"
type_synonym mem = "u32 \<Rightarrow> byte"

abbreviation (input) ERROR_VAL :: int where "ERROR_VAL \<equiv> - 1"

section \<open>Definitions\<close>

text \<open>The view of memory from a pointer: \<open>view m p i\<close> is the C expression \<^verbatim>\<open>p[i]\<close>.\<close>

definition view :: "mem \<Rightarrow> u32 \<Rightarrow> nat \<Rightarrow> byte" where
  "view m p i = m (p + of_nat i)"

definition rd_bytes :: "mem \<Rightarrow> u32 \<Rightarrow> nat \<Rightarrow> byte list" where
  "rd_bytes m p n = map (view m p) [0..<n]"

definition wr_bytes :: "mem \<Rightarrow> u32 \<Rightarrow> byte list \<Rightarrow> mem" where
  "wr_bytes m p bs = (\<lambda>a. if unat (a - p) < length bs then bs ! unat (a - p) else m a)"

definition in_region :: "u32 \<Rightarrow> nat \<Rightarrow> u32 \<Rightarrow> bool" where
  "in_region p n a \<longleftrightarrow> unat (a - p) < n"

definition disjoint_regions :: "u32 \<Rightarrow> nat \<Rightarrow> u32 \<Rightarrow> nat \<Rightarrow> bool" where
  "disjoint_regions p n q k \<longleftrightarrow> n = 0 \<or> k = 0 \<or> (n \<le> unat (q - p) \<and> k \<le> unat (p - q))"

text \<open>Little-endian 32-bit loads and stores, as the x86 performs them.\<close>

definition ld32 :: "mem \<Rightarrow> u32 \<Rightarrow> u32" where
  "ld32 m p = ucast (m p) OR push_bit 8 (ucast (m (p + 1)))
      OR push_bit 16 (ucast (m (p + 2))) OR push_bit 24 (ucast (m (p + 3)))"

definition st32 :: "mem \<Rightarrow> u32 \<Rightarrow> u32 \<Rightarrow> mem" where
  "st32 m p v = m(p := ucast v, p + 1 := ucast (drop_bit 8 v),
      p + 2 := ucast (drop_bit 16 v), p + 3 := ucast (drop_bit 24 v))"

section \<open>Words\<close>

lemma unat_of_nat_32: "n < 2 ^ 32 \<Longrightarrow> unat (of_nat n :: u32) = n"
  by (simp add: unat_of_nat take_bit_nat_eq_self)

lemma of_nat_inj_32: "i < 2 ^ 32 \<Longrightarrow> k < 2 ^ 32 \<Longrightarrow> (of_nat i :: u32) = of_nat k \<longleftrightarrow> i = k"
  by (metis unat_of_nat_32)

lemma unat_lt_2p32: "unat (w :: u32) < 2 ^ 32"
  using unsigned_less [of w] by simp

lemma unat_dec: "(w :: u32) \<noteq> 0 \<Longrightarrow> unat (w - 1) = unat w - 1"
  by (metis unat_minus_one)

lemma unat_minus_1_32: "unat (- 1 :: u32) = 4294967295"
  by (simp add: unsigned_minus_1_eq_mask mask_eq_exp_minus_1)

lemma sint_small:
  assumes "unat (w :: u32) < 2 ^ 31"
  shows "sint w = int (unat w)"
proof -
  have "uint w < 2 ^ 31" using assms by (metis of_nat_less_iff of_nat_numeral of_nat_power uint_nat)
  moreover have "0 \<le> uint w" by simp
  ultimately have "- (2 ^ 31) \<le> uint w \<and> uint w < 2 ^ 31" by linarith
  then show ?thesis by (simp add: sint_uint signed_take_bit_int_eq_self_iff)
qed

lemma unat_drop_bit_2: "unat (drop_bit 2 (w :: u32)) = unat w div 4"
  by (simp add: drop_bit_eq_div unat_div)

lemma unat_and_3: "unat ((w :: u32) AND 3) = unat w mod 4"
proof -
  have "w AND 3 = take_bit 2 w"
    by (simp add: take_bit_eq_mask mask_eq_exp_minus_1)
  then show ?thesis
    by (simp add: take_bit_eq_mod unat_mod)
qed

lemma word_add_cancel_unat:
  fixes p :: u32
  assumes "i < 2 ^ 32"
  shows "unat (p + of_nat i - p) = i"
  using assms by (simp add: unat_of_nat_32)

lemma offset_eq_iff:
  fixes p a :: u32
  assumes "i < 2 ^ 32"
  shows "a = p + of_nat i \<longleftrightarrow> unat (a - p) = i"
proof
  show "a = p + of_nat i \<Longrightarrow> unat (a - p) = i"
    using assms by (simp add: unat_of_nat_32)
  have "a = p + of_nat (unat (a - p))" by simp
  then show "unat (a - p) = i \<Longrightarrow> a = p + of_nat i" by simp
qed

section \<open>Small bounded quantifiers\<close>

lemma all_less_3: "(\<forall>t < 3. P t) \<longleftrightarrow> P 0 \<and> P 1 \<and> P (2 :: nat)"
  by (simp add: numeral_3_eq_3 numeral_2_eq_2 All_less_Suc2)

lemma all_less_6: "(\<forall>t < 6. P t) \<longleftrightarrow> P 0 \<and> P 1 \<and> P 2 \<and> P 3 \<and> P 4 \<and> P (5 :: nat)"
  by (simp add: eval_nat_numeral All_less_Suc2)

lemma all_less_8:
  "(\<forall>t < 8. P t) \<longleftrightarrow> P 0 \<and> P 1 \<and> P 2 \<and> P 3 \<and> P 4 \<and> P 5 \<and> P 6 \<and> P (7 :: nat)"
  by (simp add: eval_nat_numeral All_less_Suc2)

section \<open>Views and regions\<close>

lemma view_0 [simp]: "view m p 0 = m p"
  by (simp add: view_def)

lemma view_shift: "view m (p + of_nat k) i = view m p (k + i)"
  by (simp add: view_def add.assoc)

lemma length_rd_bytes [simp]: "length (rd_bytes m p n) = n"
  by (simp add: rd_bytes_def)

lemma nth_rd_bytes [simp]: "i < n \<Longrightarrow> rd_bytes m p n ! i = m (p + of_nat i)"
  by (simp add: rd_bytes_def view_def)

lemma rd_bytes_0 [simp]: "rd_bytes m p 0 = []"
  by (simp add: rd_bytes_def)

lemma rd_bytes_Suc: "rd_bytes m p (Suc n) = m p # rd_bytes m (p + 1) n"
  by (rule nth_equalityI) (auto simp: nth_Cons add.assoc split: nat.splits)

lemma rd_bytes_add: "rd_bytes m p (n + k) = rd_bytes m p n @ rd_bytes m (p + of_nat n) k"
  by (rule nth_equalityI)
     (auto simp: nth_append add.assoc simp flip: of_nat_add)

lemma wr_bytes_Nil [simp]: "wr_bytes m p [] = m"
  by (simp add: wr_bytes_def)

lemma wr_bytes_outside [mem_simps]: "\<not> in_region p (length bs) a \<Longrightarrow> wr_bytes m p bs a = m a"
  by (simp add: wr_bytes_def in_region_def)

lemma wr_bytes_at [mem_simps]:
  "i < length bs \<Longrightarrow> length bs \<le> 2 ^ 32 \<Longrightarrow> wr_bytes m p bs (p + of_nat i) = bs ! i"
  by (simp add: wr_bytes_def unat_of_nat_32)

lemma wr_bytes_Cons:
  assumes "Suc (length bs) \<le> 2 ^ 32"
  shows "wr_bytes (m(p := b)) (p + 1) bs = wr_bytes m p (b # bs)"
proof
  fix a
  show "wr_bytes (m(p := b)) (p + 1) bs a = wr_bytes m p (b # bs) a"
  proof (cases "a = p")
    case True
    have "unat (p - (p + 1)) = 2 ^ 32 - 1" by (simp add: unat_minus_1_32)
    with assms True show ?thesis by (simp add: wr_bytes_def)
  next
    case False
    then have "a - p \<noteq> 0" by simp
    then have "unat (a - p) = Suc (unat (a - p - 1))"
      by (metis Suc_pred' unat_dec unat_gt_0 diff_Suc_1')
    then show ?thesis using False by (simp add: wr_bytes_def diff_diff_eq)
  qed
qed

lemma wr_bytes_snoc:
  assumes "Suc (length bs) \<le> 2 ^ 32"
  shows "(wr_bytes m p bs)(p + of_nat (length bs) := b) = wr_bytes m p (bs @ [b])"
proof
  fix a
  have "(a = p + of_nat (length bs)) = (unat (a - p) = length bs)"
    using offset_eq_iff [of "length bs" a p] assms by simp
  then show "((wr_bytes m p bs)(p + of_nat (length bs) := b)) a = wr_bytes m p (bs @ [b]) a"
    by (auto simp: wr_bytes_def nth_append)
qed

lemma wr_bytes_append:
  assumes "length bs + length cs \<le> 2 ^ 32"
  shows "wr_bytes (wr_bytes m p bs) (p + of_nat (length bs)) cs = wr_bytes m p (bs @ cs)"
  using assms
proof (induction cs rule: rev_induct)
  case Nil
  then show ?case by simp
next
  case (snoc c cs)
  let ?q = "p + of_nat (length bs)"
  have "wr_bytes (wr_bytes m p bs) ?q (cs @ [c])
      = (wr_bytes (wr_bytes m p bs) ?q cs)(?q + of_nat (length cs) := c)"
    using snoc.prems by (simp add: wr_bytes_snoc)
  also have "\<dots> = (wr_bytes m p (bs @ cs))(p + of_nat (length (bs @ cs)) := c)"
    using snoc by (simp add: add.assoc)
  also have "\<dots> = wr_bytes m p ((bs @ cs) @ [c])"
    using snoc.prems by (intro wr_bytes_snoc) simp
  finally show ?case by simp
qed

lemma rd_wr_bytes [mem_simps]: "length bs \<le> 2 ^ 32 \<Longrightarrow> rd_bytes (wr_bytes m p bs) p (length bs) = bs"
  by (rule nth_equalityI) (auto simp: wr_bytes_at)

lemma disjoint_regions_sym: "disjoint_regions p n q k \<longleftrightarrow> disjoint_regions q k p n"
  by (auto simp: disjoint_regions_def)

lemma disjoint_regions_neq:
  assumes "disjoint_regions p n q k" "i < n" "j < k" "n \<le> 2 ^ 32" "k \<le> 2 ^ 32"
  shows "p + of_nat i \<noteq> q + of_nat j"
proof
  assume eq: "p + of_nat i = q + of_nat j"
  have d: "n \<le> unat (q - p)" "k \<le> unat (p - q)"
    using assms by (auto simp: disjoint_regions_def)
  show False
  proof (cases "j \<le> i")
    case True
    have "q - p = of_nat (i - j)"
      using eq True by (simp add: of_nat_diff algebra_simps)
    then have "unat (q - p) = i - j"
      using assms by (simp add: unat_of_nat_32)
    with d(1) assms(2) show False by simp
  next
    case False
    have "p - q = of_nat (j - i)"
      using eq False by (simp add: of_nat_diff algebra_simps)
    then have "unat (p - q) = j - i"
      using assms by (simp add: unat_of_nat_32)
    with d(2) assms(3) show False by simp
  qed
qed

lemma disjoint_regions_subset:
  assumes "disjoint_regions p n q k" "n' \<le> n" "k' \<le> k"
  shows "disjoint_regions p n' q k'"
  using assms by (auto simp: disjoint_regions_def)

lemma disjoint_regionsI:
  assumes "\<And>i j. i < n \<Longrightarrow> j < k \<Longrightarrow> p + of_nat i \<noteq> q + of_nat j"
  shows "disjoint_regions p n q k"
proof -
  have "n \<le> unat (q - p)" if "0 < k"
  proof (rule ccontr)
    assume "\<not> n \<le> unat (q - p)"
    with assms [of "unat (q - p)" 0] that show False by simp
  qed
  moreover have "k \<le> unat (p - q)" if "0 < n"
  proof (rule ccontr)
    assume "\<not> k \<le> unat (p - q)"
    with assms [of 0 "unat (p - q)"] that show False by simp
  qed
  ultimately show ?thesis by (auto simp: disjoint_regions_def)
qed

lemma disjoint_regions_part:
  assumes "disjoint_regions p n q k" "a + n' \<le> n" "b + k' \<le> k" "n \<le> 2 ^ 32" "k \<le> 2 ^ 32"
  shows "disjoint_regions (p + of_nat a) n' (q + of_nat b) k'"
proof (rule disjoint_regionsI)
  fix i j assume "i < n'" "j < k'"
  then have "p + of_nat (a + i) \<noteq> q + of_nat (b + j)"
    using assms by (intro disjoint_regions_neq [OF assms(1)]) auto
  then show "p + of_nat a + of_nat i \<noteq> q + of_nat b + of_nat j" by (simp add: add.assoc)
qed

lemma in_region_offset [region_simps]:
  "i < 2 ^ 32 \<Longrightarrow> in_region p n (p + of_nat i) \<longleftrightarrow> i < n"
  by (simp add: in_region_def unat_of_nat_32)

lemma in_regionE:
  assumes "in_region p n a"
  obtains i where "i < n" "a = p + of_nat i"
proof
  show "unat (a - p) < n" using assms by (simp add: in_region_def)
  show "a = p + of_nat (unat (a - p))" by simp
qed

lemma disjoint_not_in_region:
  assumes "disjoint_regions p n q k" "j < k" "n \<le> 2 ^ 32" "k \<le> 2 ^ 32"
  shows "\<not> in_region p n (q + of_nat j)"
  using disjoint_regions_neq [OF assms(1) _ assms(2-4)] by (metis in_regionE)

lemma rd_bytes_cong:
  assumes "\<And>i. i < n \<Longrightarrow> m (p + of_nat i) = m' (p + of_nat i)"
  shows "rd_bytes m p n = rd_bytes m' p n"
  using assms by (auto intro: nth_equalityI)

lemma rd_wr_disjoint [mem_simps]:
  assumes "disjoint_regions p (length bs) q k" "length bs \<le> 2 ^ 32" "k \<le> 2 ^ 32"
  shows "rd_bytes (wr_bytes m p bs) q k = rd_bytes m q k"
  using assms by (intro rd_bytes_cong) (simp add: wr_bytes_outside disjoint_not_in_region)

section \<open>32-bit loads and stores\<close>

lemma ld32_cong:
  assumes "\<And>i. i < 4 \<Longrightarrow> m (p + of_nat i) = m' (p + of_nat i)"
  shows "ld32 m p = ld32 m' p"
  using assms [of 0] assms [of 1] assms [of 2] assms [of 3] by (simp add: ld32_def)

lemma ucast_ld32_bytes:
  "ucast (ld32 m p) = m p" "ucast (drop_bit 8 (ld32 m p)) = m (p + 1)"
  "ucast (drop_bit 16 (ld32 m p)) = m (p + 2)" "ucast (drop_bit 24 (ld32 m p)) = m (p + 3)"
  by (rule bit_word_eqI;
      auto simp: ld32_def bit_ucast_iff bit_or_iff bit_push_bit_iff bit_drop_bit_eq
           dest: bit_imp_le_length)+

lemma st32_ld32_copy: "st32 m q (ld32 m p) = m(q := m p, q + 1 := m (p + 1), q + 2 := m (p + 2), q + 3 := m (p + 3))"
  by (simp add: st32_def ucast_ld32_bytes)

lemma upd4_wr_bytes:
  "m(q := b0, q + 1 := b1, q + 2 := b2, q + 3 := b3) = wr_bytes m q [b0, b1, b2, b3]"
proof -
  have "wr_bytes m q [b0] = m(q := b0)"
    using wr_bytes_snoc [of "[]" m q b0] by simp
  then show ?thesis
    using wr_bytes_snoc [of "[b0]" m q b1] wr_bytes_snoc [of "[b0, b1]" m q b2]
      wr_bytes_snoc [of "[b0, b1, b2]" m q b3] by simp
qed

end
