(* ===== verification/Lib_Memory.thy ===== *)
theory Lib_Memory
  imports Marvel_Prelude
begin

unbundle bit_operations_syntax

text \<open>
  The memory routines of \<^verbatim>\<open>lib.c\<close>: \<open>memset\<close>, \<open>memset_word\<close>, \<open>memset_dword\<close>, \<open>memcpy\<close> and
  \<open>memmove\<close>.  Their bodies are inline assembly; each label of the assembly is one function
  below, the registers ESI, EDI, ECX and EDX are its arguments, and the string instructions
  \<^verbatim>\<open>rep movsl\<close>, \<^verbatim>\<open>rep movsb\<close>, \<^verbatim>\<open>rep stosl\<close> and \<^verbatim>\<open>rep stosw\<close> are loops over the count.  The
  lemmas show that the word-at-a-time code has the effect of the obvious bulk write.
\<close>

section \<open>String instructions\<close>

fun rep_movsl :: "nat \<Rightarrow> mem \<Rightarrow> u32 \<Rightarrow> u32 \<Rightarrow> mem \<times> u32 \<times> u32" where
  "rep_movsl 0 m esi edi = (m, esi, edi)"
| "rep_movsl (Suc n) m esi edi = rep_movsl n (st32 m edi (ld32 m esi)) (esi + 4) (edi + 4)"

fun rep_movsb_up :: "nat \<Rightarrow> mem \<Rightarrow> u32 \<Rightarrow> u32 \<Rightarrow> mem" where
  "rep_movsb_up 0 m esi edi = m"
| "rep_movsb_up (Suc n) m esi edi = rep_movsb_up n (m(edi := m esi)) (esi + 1) (edi + 1)"

fun rep_movsb_down :: "nat \<Rightarrow> mem \<Rightarrow> u32 \<Rightarrow> u32 \<Rightarrow> mem" where
  "rep_movsb_down 0 m esi edi = m"
| "rep_movsb_down (Suc n) m esi edi = rep_movsb_down n (m(edi := m esi)) (esi - 1) (edi - 1)"

fun rep_stosl :: "nat \<Rightarrow> mem \<Rightarrow> u32 \<Rightarrow> u32 \<Rightarrow> mem \<times> u32" where
  "rep_stosl 0 m eax edi = (m, edi)"
| "rep_stosl (Suc n) m eax edi = rep_stosl n (st32 m edi eax) eax (edi + 4)"

fun rep_stosw :: "nat \<Rightarrow> mem \<Rightarrow> u32 \<Rightarrow> u32 \<Rightarrow> mem" where
  "rep_stosw 0 m eax edi = m"
| "rep_stosw (Suc n) m eax edi =
     rep_stosw n (m(edi := ucast eax, edi + 1 := ucast (drop_bit 8 eax))) eax (edi + 2)"

section \<open>memset\<close>

function memset_bottom :: "mem \<Rightarrow> u32 \<Rightarrow> u32 \<Rightarrow> u32 \<Rightarrow> mem" where
  "memset_bottom m eax edi edx =
     (if edx = 0 then m else memset_bottom (m(edi := ucast eax)) eax (edi + 1) (edx - 1))"
  by pat_completeness auto
termination
  by (relation "measure (\<lambda>(m, eax, edi, edx). unat edx)") (auto simp: unat_dec unat_gt_0)

definition memset_aligned :: "mem \<Rightarrow> u32 \<Rightarrow> u32 \<Rightarrow> u32 \<Rightarrow> mem" where
  "memset_aligned m eax edi ecx =
     (let edx = ecx AND 3;
          (m', edi') = rep_stosl (unat (drop_bit 2 ecx)) m eax edi
      in memset_bottom m' eax edi' edx)"

function memset_top :: "mem \<Rightarrow> u32 \<Rightarrow> u32 \<Rightarrow> u32 \<Rightarrow> mem" where
  "memset_top m eax edi ecx =
     (if ecx = 0 then m
      else if edi AND 3 = 0 then memset_aligned m eax edi ecx
      else memset_top (m(edi := ucast eax)) eax (edi + 1) (ecx - 1))"
  by pat_completeness auto
termination
  by (relation "measure (\<lambda>(m, eax, edi, ecx). unat ecx)") (auto simp: unat_dec unat_gt_0)

definition memset_pattern :: "u32 \<Rightarrow> u32" where
  "memset_pattern c = push_bit 24 c OR push_bit 16 c OR push_bit 8 c OR c"

definition memset :: "mem \<Rightarrow> u32 \<Rightarrow> u32 \<Rightarrow> u32 \<Rightarrow> mem" where
  "memset m s c n = (let c' = c AND 0xFF in memset_top m (memset_pattern c') s n)"

definition memset_word :: "mem \<Rightarrow> u32 \<Rightarrow> u32 \<Rightarrow> u32 \<Rightarrow> mem" where
  "memset_word m s c n = rep_stosw (unat n) m c s"

definition memset_dword :: "mem \<Rightarrow> u32 \<Rightarrow> u32 \<Rightarrow> u32 \<Rightarrow> mem" where
  "memset_dword m s c n = fst (rep_stosl (unat n) m c s)"

section \<open>memcpy\<close>

function memcpy_bottom :: "mem \<Rightarrow> u32 \<Rightarrow> u32 \<Rightarrow> u32 \<Rightarrow> mem" where
  "memcpy_bottom m esi edi edx =
     (if edx = 0 then m
      else memcpy_bottom (m(edi := m esi)) (esi + 1) (edi + 1) (edx - 1))"
  by pat_completeness auto
termination
  by (relation "measure (\<lambda>(m, esi, edi, edx). unat edx)") (auto simp: unat_dec unat_gt_0)

definition memcpy_aligned :: "mem \<Rightarrow> u32 \<Rightarrow> u32 \<Rightarrow> u32 \<Rightarrow> mem" where
  "memcpy_aligned m esi edi ecx =
     (let edx = ecx AND 3;
          (m', esi', edi') = rep_movsl (unat (drop_bit 2 ecx)) m esi edi
      in memcpy_bottom m' esi' edi' edx)"

function memcpy_top :: "mem \<Rightarrow> u32 \<Rightarrow> u32 \<Rightarrow> u32 \<Rightarrow> mem" where
  "memcpy_top m esi edi ecx =
     (if ecx = 0 then m
      else if edi AND 3 = 0 then memcpy_aligned m esi edi ecx
      else memcpy_top (m(edi := m esi)) (esi + 1) (edi + 1) (ecx - 1))"
  by pat_completeness auto
termination
  by (relation "measure (\<lambda>(m, esi, edi, ecx). unat ecx)") (auto simp: unat_dec unat_gt_0)

definition memcpy :: "mem \<Rightarrow> u32 \<Rightarrow> u32 \<Rightarrow> u32 \<Rightarrow> mem" where
  "memcpy m dest src n = memcpy_top m src dest n"

section \<open>memmove\<close>

text \<open>
  The direction flag is part of the result: the code clears it first, sets it when the source
  lies below the destination, and never clears it again.
\<close>

definition memmove :: "mem \<Rightarrow> u32 \<Rightarrow> u32 \<Rightarrow> u32 \<Rightarrow> mem \<times> bool" where
  "memmove m dest src n =
     (if dest \<le> src then (rep_movsb_up (unat n) m src dest, False)
      else (rep_movsb_down (unat n) m (src + n - 1) (dest + n - 1), True))"

declare memset_bottom.simps [simp del] memset_top.simps [simp del]
  memcpy_bottom.simps [simp del] memcpy_top.simps [simp del]

section \<open>Reference effect: one bulk copy\<close>

definition copy_bytes :: "mem \<Rightarrow> u32 \<Rightarrow> u32 \<Rightarrow> nat \<Rightarrow> mem" where
  "copy_bytes m dest src n = wr_bytes m dest (rd_bytes m src n)"

lemma copy_bytes_0 [simp]: "copy_bytes m d s 0 = m"
  by (simp add: copy_bytes_def)

lemma copy_bytes_1: "copy_bytes m d s (Suc 0) = m(d := m s)"
  using wr_bytes_snoc [of "[]" m d "m s"] by (simp add: copy_bytes_def rd_bytes_Suc)

lemma copy_bytes_4: "copy_bytes m d s 4 = st32 m d (ld32 m s)"
  by (simp add: copy_bytes_def st32_ld32_copy upd4_wr_bytes numeral_eq_Suc rd_bytes_Suc add.assoc)

lemma copy_bytes_add:
  assumes dis: "disjoint_regions d (n + k) s (n + k)" and len: "n + k \<le> 2 ^ 32"
  shows "copy_bytes (copy_bytes m d s n) (d + of_nat n) (s + of_nat n) k = copy_bytes m d s (n + k)"
proof -
  have "rd_bytes (copy_bytes m d s n) (s + of_nat n) k = rd_bytes m (s + of_nat n) k"
  proof (rule rd_bytes_cong)
    fix i assume "i < k"
    then have "\<not> in_region d n (s + of_nat (n + i))"
      using disjoint_not_in_region [of d n s "n + k" "n + i"]
        disjoint_regions_subset [OF dis, of n "n + k"] len by simp
    then show "copy_bytes m d s n (s + of_nat n + of_nat i) = m (s + of_nat n + of_nat i)"
      by (simp add: copy_bytes_def wr_bytes_outside add.assoc)
  qed
  then show ?thesis
    using len wr_bytes_append [of "rd_bytes m s n" "rd_bytes m (s + of_nat n) k" m d]
    by (simp add: copy_bytes_def rd_bytes_add)
qed

lemma disjoint_regions_advance:
  assumes "disjoint_regions d (n + k) s (n + k)"
  shows "disjoint_regions (d + of_nat n) k (s + of_nat n) k"
  using assms by (auto simp: disjoint_regions_def)

lemma copy_bytes_step:
  assumes "disjoint_regions d (n + k) s (n + k)" "n + k \<le> 2 ^ 32"
    and "\<And>m. f m = copy_bytes m (d + of_nat n) (s + of_nat n) k"
  shows "f (copy_bytes m d s n) = copy_bytes m d s (n + k)"
  using assms by (simp add: copy_bytes_add)

section \<open>memcpy is a bulk copy\<close>

lemma rep_movsl_copy:
  assumes "disjoint_regions d (4 * n) s (4 * n)" "4 * n \<le> 2 ^ 32"
  shows "rep_movsl n m s d =
    (copy_bytes m d s (4 * n), s + of_nat (4 * n), d + of_nat (4 * n))"
  using assms
proof (induction n arbitrary: m s d)
  case 0
  then show ?case by simp
next
  case (Suc n)
  have dis: "disjoint_regions (d + 4) (4 * n) (s + 4) (4 * n)"
    using disjoint_regions_advance [of d 4 "4 * n" s] Suc.prems(1) by simp
  have "copy_bytes (copy_bytes m d s 4) (d + 4) (s + 4) (4 * n) = copy_bytes m d s (4 + 4 * n)"
    using copy_bytes_add [of d 4 "4 * n" s m] Suc.prems by simp
  with Suc.IH [OF dis] Suc.prems(2) show ?case
    by (simp add: copy_bytes_4 algebra_simps)
qed

lemma memcpy_bottom_copy:
  assumes "disjoint_regions d (unat n) s (unat n)"
  shows "memcpy_bottom m s d n = copy_bytes m d s (unat n)"
  using assms
proof (induction m s d n rule: memcpy_bottom.induct)
  case (1 m s d n)
  show ?case
  proof (cases "n = 0")
    case True
    then show ?thesis by (simp add: memcpy_bottom.simps)
  next
    case False
    then have n: "unat n = 1 + unat (n - 1)" by (simp add: unat_dec unat_gt_0)
    have dis: "disjoint_regions (d + 1) (unat (n - 1)) (s + 1) (unat (n - 1))"
      using disjoint_regions_advance [of d 1 "unat (n - 1)" s] 1(2) n by simp
    have "memcpy_bottom m s d n = copy_bytes (copy_bytes m d s 1) (d + 1) (s + 1) (unat (n - 1))"
      using False 1(1) [OF False dis] by (subst memcpy_bottom.simps) (simp add: copy_bytes_1 fun_upd_def)
    also have "\<dots> = copy_bytes m d s (unat n)"
      using copy_bytes_add [of d 1 "unat (n - 1)" s m] 1(2) n unat_lt_2p32 [of n] by simp
    finally show ?thesis .
  qed
qed

lemma memcpy_aligned_copy:
  assumes "disjoint_regions d (unat n) s (unat n)"
  shows "memcpy_aligned m s d n = copy_bytes m d s (unat n)"
proof -
  let ?q = "4 * (unat n div 4)" and ?r = "unat n mod 4"
  have n: "?q + ?r = unat n" by simp
  have le: "?q \<le> unat n" using n by linarith
  have "disjoint_regions d ?q s ?q"
    using assms le by (rule disjoint_regions_subset) (rule le)
  then have "rep_movsl (unat (drop_bit 2 n)) m s d =
      (copy_bytes m d s ?q, s + of_nat ?q, d + of_nat ?q)"
    using le unat_lt_2p32 [of n] by (subst rep_movsl_copy) (simp_all add: unat_drop_bit_2)
  moreover have "memcpy_bottom (copy_bytes m d s ?q) (s + of_nat ?q) (d + of_nat ?q) (n AND 3)
      = copy_bytes m d s (unat n)"
    using assms disjoint_regions_advance [of d ?q ?r s] copy_bytes_add [of d ?q ?r s m] n
      unat_lt_2p32 [of n]
    by (subst memcpy_bottom_copy) (simp_all add: unat_and_3 del: mult_div_mod_eq)
  ultimately show ?thesis by (simp add: memcpy_aligned_def)
qed

lemma memcpy_copy:
  assumes "disjoint_regions dest (unat n) src (unat n)"
  shows "memcpy m dest src n = copy_bytes m dest src (unat n)"
proof -
  have "memcpy_top m src dest n = copy_bytes m dest src (unat n)"
    using assms
  proof (induction m src dest n rule: memcpy_top.induct)
    case (1 m s d n)
    show ?case
    proof (cases "n = 0 \<or> d AND 3 = 0")
      case True
      then show ?thesis
        using memcpy_aligned_copy [OF 1(2)] by (subst memcpy_top.simps) auto
    next
      case False
      then have n: "unat n = 1 + unat (n - 1)" by (simp add: unat_dec unat_gt_0)
      have dis: "disjoint_regions (d + 1) (unat (n - 1)) (s + 1) (unat (n - 1))"
        using disjoint_regions_advance [of d 1 "unat (n - 1)" s] 1(2) n by simp
      have "memcpy_top m s d n = copy_bytes (copy_bytes m d s 1) (d + 1) (s + 1) (unat (n - 1))"
        using False 1(1) [OF _ _ dis] by (subst memcpy_top.simps) (simp add: copy_bytes_1 fun_upd_def)
      also have "\<dots> = copy_bytes m d s (unat n)"
        using copy_bytes_add [of d 1 "unat (n - 1)" s m] 1(2) n unat_lt_2p32 [of n] by simp
      finally show ?thesis .
    qed
  qed
  then show ?thesis by (simp add: memcpy_def)
qed

section \<open>memset fills\<close>

lemma wr_replicate_add:
  assumes "n + k \<le> 2 ^ 32"
  shows "wr_bytes (wr_bytes m p (replicate n c)) (p + of_nat n) (replicate k c)
      = wr_bytes m p (replicate (n + k) c)"
  using assms wr_bytes_append [of "replicate n c" "replicate k c" m p]
  by (simp add: replicate_add)

lemma wr_bytes_single: "wr_bytes m p [c] = m(p := c)"
  using wr_bytes_snoc [of "[]" m p c] by simp

lemma memset_bottom_fill: "memset_bottom m eax d n = wr_bytes m d (replicate (unat n) (ucast eax))"
proof (induction m eax d n rule: memset_bottom.induct)
  case (1 m eax d n)
  show ?case
  proof (cases "n = 0")
    case True
    then show ?thesis by (simp add: memset_bottom.simps)
  next
    case False
    then have n: "unat n = 1 + unat (n - 1)" by (simp add: unat_dec unat_gt_0)
    then show ?thesis
      using False 1 wr_replicate_add [of 1 "unat (n - 1)" m d "ucast eax"] unat_lt_2p32 [of n]
      by (subst memset_bottom.simps) (simp add: wr_bytes_single [unfolded fun_upd_def] fun_upd_def)
  qed
qed

lemma memset_pattern_bytes:
  "(ucast (memset_pattern (c AND 255)) :: byte) = ucast c"
  "(ucast (drop_bit 8 (memset_pattern (c AND 255))) :: byte) = ucast c"
  "(ucast (drop_bit 16 (memset_pattern (c AND 255))) :: byte) = ucast c"
  "(ucast (drop_bit 24 (memset_pattern (c AND 255))) :: byte) = ucast c"
proof -
  have m: "(255 :: u32) = mask 8" by (simp add: mask_eq_exp_minus_1)
  show "(ucast (memset_pattern (c AND 255)) :: byte) = ucast c"
    "(ucast (drop_bit 8 (memset_pattern (c AND 255))) :: byte) = ucast c"
    "(ucast (drop_bit 16 (memset_pattern (c AND 255))) :: byte) = ucast c"
    "(ucast (drop_bit 24 (memset_pattern (c AND 255))) :: byte) = ucast c"
    unfolding m memset_pattern_def
    by (rule bit_word_eqI;
        auto simp: bit_ucast_iff bit_or_iff bit_and_iff bit_mask_iff bit_push_bit_iff bit_drop_bit_eq
             dest: bit_imp_le_length)+
qed

lemma rep_stosl_fill:
  assumes "4 * n \<le> 2 ^ 32"
  shows "rep_stosl n m (memset_pattern (c AND 255)) d =
    (wr_bytes m d (replicate (4 * n) (ucast c)), d + of_nat (4 * n))"
  using assms
proof (induction n arbitrary: m d)
  case 0
  then show ?case by simp
next
  case (Suc n)
  have "replicate 4 (ucast c) = [ucast c, ucast c, ucast c, ucast c :: byte]"
    by (simp add: numeral_eq_Suc)
  then have st: "st32 m d (memset_pattern (c AND 255)) = wr_bytes m d (replicate 4 (ucast c))"
    unfolding st32_def memset_pattern_bytes upd4_wr_bytes by simp
  have "wr_bytes (wr_bytes m d (replicate 4 (ucast c))) (d + of_nat 4) (replicate (4 * n) (ucast c))
      = wr_bytes m d (replicate (4 + 4 * n) (ucast c))"
    using Suc.prems by (intro wr_replicate_add) simp
  then show ?case
    using Suc by (simp add: st algebra_simps)
qed

lemma memset_aligned_fill:
  "memset_aligned m (memset_pattern (c AND 255)) d n = wr_bytes m d (replicate (unat n) (ucast c))"
proof -
  let ?q = "4 * (unat n div 4)" and ?r = "unat n mod 4"
  have n: "?q + ?r = unat n" by simp
  have "?q \<le> 2 ^ 32" using n unat_lt_2p32 [of n] by linarith
  then have "rep_stosl (unat (drop_bit 2 n)) m (memset_pattern (c AND 255)) d =
      (wr_bytes m d (replicate ?q (ucast c)), d + of_nat ?q)"
    by (simp only: unat_drop_bit_2 rep_stosl_fill)
  then show ?thesis
    using wr_replicate_add [of ?q ?r m d "ucast c"] unat_lt_2p32 [of n] n
    by (simp add: memset_aligned_def memset_bottom_fill unat_and_3 memset_pattern_bytes(1)
        del: mult_div_mod_eq)
qed

lemma memset_top_fill:
  "memset_top m (memset_pattern (c AND 255)) d n = wr_bytes m d (replicate (unat n) (ucast c))"
proof (induction m "memset_pattern (c AND 255)" d n rule: memset_top.induct)
  case (1 m d n)
  show ?case
  proof (cases "n = 0 \<or> d AND 3 = 0")
    case True
    then show ?thesis
      using memset_aligned_fill by (subst memset_top.simps) auto
  next
    case False
    then have n: "unat n = 1 + unat (n - 1)" by (simp add: unat_dec unat_gt_0)
    then show ?thesis
      using False 1 wr_replicate_add [of 1 "unat (n - 1)" m d "ucast c"] unat_lt_2p32 [of n]
      by (subst memset_top.simps)
         (simp add: wr_bytes_single [unfolded fun_upd_def] memset_pattern_bytes(1) fun_upd_def)
  qed
qed

section \<open>memmove\<close>

lemma wr_bytes_upd_outside:
  "\<not> in_region p (length bs) x \<Longrightarrow> wr_bytes (m(x := b)) p bs = (wr_bytes m p bs)(x := b)"
  by (auto simp: wr_bytes_def in_region_def fun_eq_iff)

lemma unat_offset:
  fixes p :: u32
  assumes "unat p + n \<le> 2 ^ 32" "i < n"
  shows "unat (p + of_nat i) = unat p + i"
proof -
  have "unat (of_nat i :: u32) = i"
    using assms by (intro unat_of_nat_32) simp
  with assms show ?thesis by (simp add: unat_word_ariths)
qed

lemma rep_movsb_up_copy:
  assumes "unat d \<le> unat s" "unat s + n \<le> 2 ^ 32"
  shows "rep_movsb_up n m s d = copy_bytes m d s n"
  using assms
proof (induction n arbitrary: m s d)
  case 0
  then show ?case by simp
next
  case (Suc n)
  let ?m = "m(d := m s)"
  show ?case
  proof (cases "n = 0")
    case True
    then show ?thesis by (simp add: copy_bytes_1)
  next
    case False
    have s1: "unat (s + 1) = unat s + 1"
      using unat_offset [of s "Suc n" 1] Suc.prems False by simp
    have d1: "unat (d + 1) = unat d + 1"
      using unat_offset [of d "Suc n" 1] Suc.prems False by simp
    have "rd_bytes ?m (s + 1) n = rd_bytes m (s + 1) n"
    proof (rule rd_bytes_cong)
      fix i assume "i < n"
      then have "unat (s + 1 + of_nat i) = unat s + 1 + i"
        using unat_offset [of "s + 1" n i] s1 Suc.prems by simp
      then have "s + 1 + of_nat i \<noteq> d" using Suc.prems by auto
      then show "?m (s + 1 + of_nat i) = m (s + 1 + of_nat i)" by simp
    qed
    moreover have "rep_movsb_up n ?m (s + 1) (d + 1) = copy_bytes ?m (d + 1) (s + 1) n"
      using Suc.prems s1 d1 by (intro Suc.IH) simp_all
    ultimately show ?thesis
      using Suc.prems by (simp add: copy_bytes_def wr_bytes_Cons rd_bytes_Suc)
  qed
qed

lemma rep_movsb_down_copy:
  assumes "unat s \<le> unat d" "unat d + n \<le> 2 ^ 32"
  shows "rep_movsb_down n m (s + of_nat n - 1) (d + of_nat n - 1) = copy_bytes m d s n"
  using assms
proof (induction n arbitrary: m)
  case 0
  then show ?case by simp
next
  case (Suc n)
  let ?m = "m(d + of_nat n := m (s + of_nat n))"
  have dn: "unat (d + of_nat n) = unat d + n"
    using unat_offset [of d "Suc n" n] Suc.prems by simp
  have "rd_bytes ?m s n = rd_bytes m s n"
  proof (rule rd_bytes_cong)
    fix i assume "i < n"
    then have "unat (s + of_nat i) = unat s + i"
      using unat_offset [of s n i] Suc.prems by simp
    then have "s + of_nat i \<noteq> d + of_nat n" using dn Suc.prems \<open>i < n\<close> by auto
    then show "?m (s + of_nat i) = m (s + of_nat i)" by simp
  qed
  moreover have "\<not> in_region d n (d + of_nat n)"
    using Suc.prems by (simp add: in_region_offset)
  moreover have "rd_bytes m s (Suc n) = rd_bytes m s n @ [m (s + of_nat n)]"
    using rd_bytes_add [of m s n 1] by (simp add: rd_bytes_Suc)
  ultimately show ?case
    using Suc wr_bytes_snoc [of "rd_bytes m s n" m d "m (s + of_nat n)"]
    by (simp add: copy_bytes_def wr_bytes_upd_outside algebra_simps)
qed

lemma memmove_copy:
  assumes "unat dest + unat n \<le> 2 ^ 32" "unat src + unat n \<le> 2 ^ 32"
  shows "memmove m dest src n = (wr_bytes m dest (rd_bytes m src (unat n)), src < dest)"
proof (cases "dest \<le> src")
  case True
  then have "rep_movsb_up (unat n) m src dest = copy_bytes m dest src (unat n)"
    using assms by (intro rep_movsb_up_copy) (simp_all add: word_le_nat_alt)
  with True show ?thesis by (auto simp: memmove_def copy_bytes_def)
next
  case False
  then have "rep_movsb_down (unat n) m (src + n - 1) (dest + n - 1) = copy_bytes m dest src (unat n)"
    using assms rep_movsb_down_copy [of src dest "unat n" m] by (simp add: word_le_nat_alt)
  with False show ?thesis by (auto simp: memmove_def copy_bytes_def)
qed

section \<open>Properties\<close>

text \<open>
  C34: \<open>memcpy\<close> copies exactly the \<open>n\<close> bytes at \<open>src\<close> to \<open>dest\<close> and changes nothing else,
  for every length and alignment, when the two regions are disjoint.  The assembly copies
  single bytes up to a 4-byte boundary of the destination, then 32-bit words, then the rest.
\<close>

theorem memcpy_correct:
  assumes "disjoint_regions dest (unat n) src (unat n)"
  shows "memcpy m dest src n = wr_bytes m dest (rd_bytes m src (unat n))"
  using memcpy_copy [OF assms] by (simp add: copy_bytes_def)

theorem memcpy_correct_witness:
  "disjoint_regions 0x1001 (unat (11 :: u32)) 0x2002 (unat (11 :: u32)) \<and>
   memcpy (\<lambda>a. ucast a) 0x1001 0x2002 11 =
     wr_bytes (\<lambda>a. ucast a) 0x1001 [2, 3, 4, 5, 6, 7, 8, 9, 10, 11, 12]"
proof -
  have d: "disjoint_regions 0x1001 (unat (11 :: u32)) 0x2002 (unat (11 :: u32))"
    by (simp add: disjoint_regions_def)
  have "rd_bytes (\<lambda>a. ucast a) 0x2002 (unat (11 :: u32)) = [2, 3, 4, 5, 6, 7, 8, 9, 10, 11, 12]"
    by (simp add: rd_bytes_def view_def upt_rec)
  then show ?thesis using d memcpy_correct [OF d, of "\<lambda>a. ucast a"] by simp
qed

text \<open>
  \<open>memset\<close> stores the low byte of \<open>c\<close> in each of the \<open>n\<close> bytes at \<open>s\<close> and changes
  nothing else, for every length and alignment, although the bulk of it is written as 32-bit
  words of a fourfold pattern.
\<close>

theorem memset_correct: "memset m s c n = wr_bytes m s (replicate (unat n) (ucast c))"
  unfolding memset_def Let_def by (rule memset_top_fill)

text \<open>
  C37: \<open>memmove\<close> moves \<open>n\<close> bytes correctly however the regions overlap, when neither runs past
  the end of the address space: the destination then holds what the source held before.  The
  direction flag is left set exactly when the source lay below the destination.
\<close>

theorem memmove_correct:
  assumes "unat dest + unat n \<le> 2 ^ 32" "unat src + unat n \<le> 2 ^ 32"
  shows "memmove m dest src n = (wr_bytes m dest (rd_bytes m src (unat n)), src < dest)"
  using assms by (rule memmove_copy)

theorem memmove_correct_witness:
  "unat (0x1002 :: u32) + unat (4 :: u32) \<le> 2 ^ 32 \<and>
   memmove (\<lambda>a. ucast a) 0x1002 0x1000 4 = (wr_bytes (\<lambda>a. ucast a) 0x1002 [0, 1, 2, 3], True)"
proof -
  have "rd_bytes (\<lambda>a. ucast a) 0x1000 (unat (4 :: u32)) = [0, 1, 2, 3]"
    by (simp add: rd_bytes_def view_def upt_rec)
  then show ?thesis using memmove_correct [of "0x1002" 4 "0x1000" "\<lambda>a. ucast a"] by simp
qed

end
