(* ===== verification/Lib_Strings.thy ===== *)
theory Lib_Strings
  imports Lib_Memory
begin

unbundle bit_operations_syntax

text \<open>
  The string routines of \<^verbatim>\<open>lib.c\<close> (\<open>strlen\<close>, \<open>strncmp\<close>, \<open>strcpy\<close>, \<open>strncpy\<close>, \<open>strrev\<close>, \<open>itoa\<close>)
  and the two bounded ones of \<^verbatim>\<open>filesystem.c\<close> (\<open>strlenFile\<close>, \<open>strcpyFile\<close>).  A routine that
  only reads takes the views of its string arguments (\<open>s i\<close> is \<^verbatim>\<open>s[i]\<close>), a routine that writes
  takes the memory.  A loop that runs until it meets a terminator need not end, so \<open>strlen\<close>,
  \<open>strcpy\<close>, \<open>strrev\<close> and \<open>itoa\<close> return an option, None when they do not return a value.
\<close>

section \<open>Definitions\<close>

partial_function (option) strlen_loop :: "(nat \<Rightarrow> byte) \<Rightarrow> nat \<Rightarrow> nat option" where
  "strlen_loop s len = (if s len \<noteq> 0 then strlen_loop s (Suc len) else Some len)"

definition strlen :: "(nat \<Rightarrow> byte) \<Rightarrow> nat option" where
  "strlen s = strlen_loop s 0"

text \<open>\<^verbatim>\<open>int8_t\<close> is \<^verbatim>\<open>char\<close>, signed on this target: the difference is taken of signed bytes.\<close>

function strncmp_loop :: "(nat \<Rightarrow> byte) \<Rightarrow> (nat \<Rightarrow> byte) \<Rightarrow> nat \<Rightarrow> nat \<Rightarrow> int" where
  "strncmp_loop s1 s2 i n =
     (if i < n then
        (if s1 i \<noteq> s2 i \<or> s1 i = 0 then sint (s1 i) - sint (s2 i)
         else strncmp_loop s1 s2 (Suc i) n)
      else 0)"
  by pat_completeness auto
termination
  by (relation "measure (\<lambda>(s1, s2, i, n). n - i)") auto

definition strncmp :: "(nat \<Rightarrow> byte) \<Rightarrow> (nat \<Rightarrow> byte) \<Rightarrow> nat \<Rightarrow> int" where
  "strncmp s1 s2 n = strncmp_loop s1 s2 0 n"

partial_function (option) strcpy_loop :: "mem \<Rightarrow> u32 \<Rightarrow> u32 \<Rightarrow> nat \<Rightarrow> mem option" where
  "strcpy_loop m dest src i =
     (if view m src i \<noteq> 0
      then strcpy_loop (m(dest + of_nat i := view m src i)) dest src (Suc i)
      else Some (m(dest + of_nat i := 0)))"

definition strcpy :: "mem \<Rightarrow> u32 \<Rightarrow> u32 \<Rightarrow> mem option" where
  "strcpy m dest src = strcpy_loop m dest src 0"

function strncpy_pad :: "mem \<Rightarrow> u32 \<Rightarrow> nat \<Rightarrow> nat \<Rightarrow> mem" where
  "strncpy_pad m dest i n =
     (if i < n then strncpy_pad (m(dest + of_nat i := 0)) dest (Suc i) n else m)"
  by pat_completeness auto
termination
  by (relation "measure (\<lambda>(m, dest, i, n). n - i)") auto

function strncpy_loop :: "mem \<Rightarrow> u32 \<Rightarrow> u32 \<Rightarrow> nat \<Rightarrow> nat \<Rightarrow> mem" where
  "strncpy_loop m dest src i n =
     (if view m src i \<noteq> 0 \<and> i < n
      then strncpy_loop (m(dest + of_nat i := view m src i)) dest src (Suc i) n
      else strncpy_pad m dest i n)"
  by pat_completeness auto
termination
  by (relation "measure (\<lambda>(m, dest, src, i, n). n - i)") auto

definition strncpy :: "mem \<Rightarrow> u32 \<Rightarrow> u32 \<Rightarrow> nat \<Rightarrow> mem" where
  "strncpy m dest src n = strncpy_loop m dest src 0 n"

function strrev_loop :: "mem \<Rightarrow> u32 \<Rightarrow> int \<Rightarrow> int \<Rightarrow> mem" where
  "strrev_loop m s beg en =
     (if beg < en
      then let tmp = m (s + of_int en);
               m1 = m(s + of_int en := m (s + of_int beg));
               m2 = m1(s + of_int beg := tmp)
           in strrev_loop m2 s (beg + 1) (en - 1)
      else m)"
  by pat_completeness auto
termination
  by (relation "measure (\<lambda>(m, s, beg, en). nat (en - beg))") auto

definition strrev :: "mem \<Rightarrow> u32 \<Rightarrow> mem option" where
  "strrev m s = do { len \<leftarrow> strlen (view m s); Some (strrev_loop m s 0 (int len - 1)) }"

definition itoa_lookup :: "byte list" where
  "itoa_lookup = map (\<lambda>c. of_nat (of_char c)) ''0123456789ABCDEFGHIJKLMNOPQRSTUVWXYZ'' @ [0]"

text \<open>None: the divide error for radix 0, an index beyond the table, or a loop that never ends
  (radix 1).\<close>

partial_function (option) itoa_loop :: "mem \<Rightarrow> u32 \<Rightarrow> u32 \<Rightarrow> u32 \<Rightarrow> (mem \<times> u32) option" where
  "itoa_loop m newbuf newval radix =
     (if 0 < newval then
        (if radix = 0 then None
         else let i = unat (newval mod radix) in
           if i < length itoa_lookup
           then itoa_loop (m(newbuf := itoa_lookup ! i)) (newbuf + 1) (newval div radix) radix
           else None)
      else Some (m, newbuf))"

definition itoa :: "mem \<Rightarrow> u32 \<Rightarrow> u32 \<Rightarrow> u32 \<Rightarrow> mem option" where
  "itoa m val buf radix =
     (if val = 0 then Some (m(buf := 48, buf + 1 := 0))
      else do {
        (m1, newbuf) \<leftarrow> itoa_loop m buf val radix;
        strrev (m1(newbuf := 0)) buf
      })"

function strlenFile_loop :: "(nat \<Rightarrow> byte) \<Rightarrow> nat \<Rightarrow> nat \<Rightarrow> nat" where
  "strlenFile_loop s len maxStrLen =
     (if s len \<noteq> 0 \<and> len < maxStrLen then strlenFile_loop s (Suc len) maxStrLen else len)"
  by pat_completeness auto
termination
  by (relation "measure (\<lambda>(s, len, maxStrLen). maxStrLen - len)") auto

definition strlenFile :: "(nat \<Rightarrow> byte) \<Rightarrow> nat \<Rightarrow> nat" where
  "strlenFile s maxStrLen = strlenFile_loop s 0 maxStrLen"

text \<open>The source of \<open>strcpyFile\<close> is a view: its one caller copies from a local \<^verbatim>\<open>dentry_t\<close>.\<close>

function strcpyFile_loop :: "mem \<Rightarrow> u32 \<Rightarrow> (nat \<Rightarrow> byte) \<Rightarrow> nat \<Rightarrow> nat \<Rightarrow> mem \<times> nat" where
  "strcpyFile_loop m dest src i maxStrLen =
     (if src i \<noteq> 0 \<and> i < maxStrLen
      then strcpyFile_loop (m(dest + of_nat i := src i)) dest src (Suc i) maxStrLen
      else (m, i))"
  by pat_completeness auto
termination
  by (relation "measure (\<lambda>(m, dest, src, i, maxStrLen). maxStrLen - i)") auto

definition strcpyFile :: "mem \<Rightarrow> u32 \<Rightarrow> (nat \<Rightarrow> byte) \<Rightarrow> nat \<Rightarrow> mem \<times> nat" where
  "strcpyFile m dest src maxStrLen = strcpyFile_loop m dest src 0 maxStrLen"

declare strncmp_loop.simps [simp del] strncpy_pad.simps [simp del] strncpy_loop.simps [simp del]
  strrev_loop.simps [simp del] strlenFile_loop.simps [simp del] strcpyFile_loop.simps [simp del]

section \<open>The bounded C string of a view\<close>

text \<open>
  The abstract value of a fixed-size name field: the bytes before the first NUL, at most \<open>n\<close>.
\<close>

definition cstr_n :: "(nat \<Rightarrow> byte) \<Rightarrow> nat \<Rightarrow> byte list" where
  "cstr_n s n = takeWhile (\<lambda>b. b \<noteq> 0) (map s [0..<n])"

lemma cstr_n_0 [simp]: "cstr_n s 0 = []"
  by (simp add: cstr_n_def)

lemma cstr_n_Suc: "cstr_n s (Suc n) = (if s 0 = 0 then [] else s 0 # cstr_n (\<lambda>i. s (Suc i)) n)"
proof -
  have "map s [0..<Suc n] = s 0 # map (\<lambda>i. s (Suc i)) [0..<n]"
    by (simp add: upt_conv_Cons map_Suc_upt [symmetric] comp_def del: upt_Suc)
  then show ?thesis by (simp add: cstr_n_def)
qed

lemma length_cstr_n: "length (cstr_n s n) \<le> n"
  using length_takeWhile_le [of _ "map s [0..<n]"] by (simp add: cstr_n_def)

lemma cstr_n_nonzero: "b \<in> set (cstr_n s n) \<Longrightarrow> b \<noteq> 0"
  by (auto simp: cstr_n_def dest: set_takeWhileD)

lemma cstr_n_cong: "(\<And>i. i < n \<Longrightarrow> s i = t i) \<Longrightarrow> cstr_n s n = cstr_n t n"
  by (auto simp: cstr_n_def intro!: arg_cong [where f = "takeWhile _"])

lemma nth_cstr_n: "i < length (cstr_n s n) \<Longrightarrow> cstr_n s n ! i = s i"
  using length_cstr_n [of s n] unfolding cstr_n_def
  by (subst takeWhile_nth) (auto simp: cstr_n_def)

section \<open>strlen\<close>

lemma strlen_loop_found:
  assumes "s (i + d) = 0" "\<And>j. j < d \<Longrightarrow> s (i + j) \<noteq> 0"
  shows "strlen_loop s i = Some (i + d)"
  using assms
proof (induction d arbitrary: i)
  case 0
  then show ?case by (simp add: strlen_loop.simps)
next
  case (Suc d)
  have "s i \<noteq> 0" using Suc.prems(2) [of 0] by simp
  moreover have "strlen_loop s (Suc i) = Some (Suc i + d)"
    using Suc.prems(1) Suc.prems(2) [of "Suc _"] by (intro Suc.IH) auto
  ultimately show ?case by (simp add: strlen_loop.simps [of s i])
qed

lemma strlenI: "s n = 0 \<Longrightarrow> (\<And>j. j < n \<Longrightarrow> s j \<noteq> 0) \<Longrightarrow> strlen s = Some n"
  using strlen_loop_found [of s 0 n] by (simp add: strlen_def)

lemma strlen_loop_sound:
  assumes "strlen_loop s i = Some n" "\<And>j. j < i \<Longrightarrow> s j \<noteq> 0"
  shows "s n = 0 \<and> (\<forall>j < n. s j \<noteq> 0)"
proof -
  have "(\<forall>j < i. s j \<noteq> 0) \<longrightarrow> s n = 0 \<and> (\<forall>j < n. s j \<noteq> 0)"
  proof (rule strlen_loop.raw_induct [where P = "\<lambda>s i n. (\<forall>j < i. s j \<noteq> 0) \<longrightarrow> s n = 0 \<and> (\<forall>j < n. s j \<noteq> 0)", OF _ assms(1)])
    fix f s len r
    assume IH: "\<And>s len r. f s len = Some r \<Longrightarrow> (\<forall>j < len. s j \<noteq> 0) \<longrightarrow> s r = 0 \<and> (\<forall>j < r. s j \<noteq> 0)"
      and eq: "(if s len \<noteq> 0 then f s (Suc len) else Some len) = Some r"
    show "(\<forall>j < len. s j \<noteq> 0) \<longrightarrow> s r = 0 \<and> (\<forall>j < r. s j \<noteq> 0)"
      using eq IH [of s "Suc len" r] by (auto simp: less_Suc_eq split: if_splits)
  qed
  with assms(2) show ?thesis by blast
qed

lemma strlen_iff: "strlen s = Some n \<longleftrightarrow> s n = 0 \<and> (\<forall>j < n. s j \<noteq> 0)"
proof
  show "strlen s = Some n \<Longrightarrow> s n = 0 \<and> (\<forall>j < n. s j \<noteq> 0)"
    by (rule strlen_loop_sound [of s 0 n]) (simp_all add: strlen_def)
  show "s n = 0 \<and> (\<forall>j < n. s j \<noteq> 0) \<Longrightarrow> strlen s = Some n"
    by (rule strlenI) blast+
qed

section \<open>strncmp\<close>

lemma strncmp_loop_shift:
  "strncmp_loop s1 s2 (Suc i) (Suc n) = strncmp_loop (\<lambda>k. s1 (Suc k)) (\<lambda>k. s2 (Suc k)) i n"
proof (induction "n - i" arbitrary: i)
  case 0
  then show ?case by (simp add: strncmp_loop.simps [of _ _ "Suc i"] strncmp_loop.simps [of _ _ i])
next
  case (Suc d)
  from Suc(2) have "d = n - Suc i" by simp
  from Suc(1) [OF this] show ?case
    by (simp add: strncmp_loop.simps [of _ _ "Suc i"] strncmp_loop.simps [of _ _ i])
qed

lemma strncmp_Suc:
  "strncmp s1 s2 (Suc n) =
     (if s1 0 \<noteq> s2 0 \<or> s1 0 = 0 then sint (s1 0) - sint (s2 0)
      else strncmp (\<lambda>k. s1 (Suc k)) (\<lambda>k. s2 (Suc k)) n)"
  by (simp add: strncmp_def strncmp_loop.simps [of s1 s2 0] strncmp_loop_shift)

lemma strncmp_0 [simp]: "strncmp s1 s2 0 = 0"
  by (simp add: strncmp_def strncmp_loop.simps)

lemma sint_eq_iff_byte: "sint (a :: byte) - sint b = 0 \<longleftrightarrow> a = b"
  by (auto intro: signed_word_eqI)

lemma strncmp_eq_0_iff: "strncmp s1 s2 n = 0 \<longleftrightarrow> cstr_n s1 n = cstr_n s2 n"
proof (induction n arbitrary: s1 s2)
  case 0
  then show ?case by simp
next
  case (Suc n)
  then show ?case
    by (cases "s1 0 = s2 0") (auto simp only: strncmp_Suc cstr_n_Suc sint_eq_iff_byte split: if_splits)
qed

lemma strncmp_cong:
  assumes "\<And>i. i < n \<Longrightarrow> s1 i = t1 i" "\<And>i. i < n \<Longrightarrow> s2 i = t2 i"
  shows "strncmp s1 s2 n = strncmp t1 t2 n"
  using assms
proof (induction n arbitrary: s1 s2 t1 t2)
  case 0
  then show ?case by simp
next
  case (Suc n)
  have "strncmp (\<lambda>k. s1 (Suc k)) (\<lambda>k. s2 (Suc k)) n = strncmp (\<lambda>k. t1 (Suc k)) (\<lambda>k. t2 (Suc k)) n"
    using Suc.prems by (intro Suc.IH) simp_all
  with Suc.prems(1) [of 0] Suc.prems(2) [of 0] show ?case by (simp add: strncmp_Suc)
qed

section \<open>strcpyFile, strlenFile\<close>

lemma cstr_n_continue:
  assumes "i \<le> length (cstr_n s n)"
  shows "s i \<noteq> 0 \<and> i < n \<longleftrightarrow> i < length (cstr_n s n)"
  using assms
proof (induction n arbitrary: s i)
  case 0
  then show ?case by simp
next
  case (Suc n)
  then show ?case by (cases i) (auto simp: cstr_n_Suc split: if_splits)
qed

lemma take_Suc_cstr_n:
  assumes "i < length (cstr_n s n)"
  shows "take (Suc i) (cstr_n s n) = take i (cstr_n s n) @ [s i]"
  using assms by (simp add: take_Suc_conv_app_nth nth_cstr_n)

lemma wr_bytes_take_Suc:
  assumes "i < length (cstr_n s n)" "n \<le> 2 ^ 32"
  shows "(wr_bytes m p (take i (cstr_n s n)))(p + of_nat i := s i)
      = wr_bytes m p (take (Suc i) (cstr_n s n))"
  using wr_bytes_snoc [of "take i (cstr_n s n)" m p "s i"] assms length_cstr_n [of s n]
  by (simp add: take_Suc_cstr_n)

lemma strcpyFile_loop_copies:
  assumes "i \<le> length (cstr_n s n)" "n \<le> 2 ^ 32"
  shows "strcpyFile_loop (wr_bytes m p (take i (cstr_n s n))) p s i n
      = (wr_bytes m p (cstr_n s n), length (cstr_n s n))"
  using assms
proof (induction "length (cstr_n s n) - i" arbitrary: i)
  case 0
  then show ?case using cstr_n_continue [of i s n] by (subst strcpyFile_loop.simps) auto
next
  case (Suc d)
  then have i: "i < length (cstr_n s n)" "d = length (cstr_n s n) - Suc i" by simp_all
  then show ?case
    using cstr_n_continue [of i s n] Suc wr_bytes_take_Suc [of i s n m p]
    by (subst strcpyFile_loop.simps) simp
qed

lemma strcpyFile_eq:
  assumes "n \<le> 2 ^ 32"
  shows "strcpyFile m p s n = (wr_bytes m p (cstr_n s n), length (cstr_n s n))"
  using strcpyFile_loop_copies [of 0 s n m p] assms by (simp add: strcpyFile_def)

lemma strlenFile_loop_eq:
  "i \<le> length (cstr_n s n) \<Longrightarrow> strlenFile_loop s i n = length (cstr_n s n)"
proof (induction "length (cstr_n s n) - i" arbitrary: i)
  case 0
  then show ?case using cstr_n_continue [of i s n] by (subst strlenFile_loop.simps) auto
next
  case (Suc d)
  then have "i < length (cstr_n s n)" "d = length (cstr_n s n) - Suc i" by simp_all
  then show ?case
    using cstr_n_continue [of i s n] Suc by (subst strlenFile_loop.simps) simp
qed

section \<open>strncpy, strcpy\<close>

definition strncpy_spec :: "(nat \<Rightarrow> byte) \<Rightarrow> nat \<Rightarrow> byte list" where
  "strncpy_spec s n = cstr_n s n @ replicate (n - length (cstr_n s n)) 0"

lemma length_strncpy_spec [simp]: "length (strncpy_spec s n) = n"
  using length_cstr_n [of s n] by (simp add: strncpy_spec_def)

lemma strncpy_pad_fills:
  assumes "length bs \<le> n" "n \<le> 2 ^ 32"
  shows "strncpy_pad (wr_bytes m p bs) p (length bs) n = wr_bytes m p (bs @ replicate (n - length bs) 0)"
  using assms
proof (induction "n - length bs" arbitrary: bs)
  case 0
  then show ?case by (subst strncpy_pad.simps) simp
next
  case (Suc d)
  have "strncpy_pad (wr_bytes m p (bs @ [0])) p (length (bs @ [0])) n
      = wr_bytes m p ((bs @ [0]) @ replicate (n - length (bs @ [0])) 0)"
    using Suc by (intro Suc(1)) simp_all
  moreover have lt: "length bs < n" using Suc(2) by simp
  moreover have "n - length bs = Suc (n - length (bs @ [0]))" using lt by simp
  ultimately show ?case
    using Suc(4) wr_bytes_snoc [of bs m p 0] by (subst strncpy_pad.simps) simp
qed

lemma view_wr_disjoint:
  assumes "disjoint_regions p n q n" "i < n" "length bs \<le> n" "n \<le> 2 ^ 32"
  shows "view (wr_bytes m p bs) q i = view m q i"
proof -
  have "disjoint_regions p (length bs) q n"
    using assms(1,3) by (rule disjoint_regions_subset) simp
  then have "\<not> in_region p (length bs) (q + of_nat i)"
    using assms by (intro disjoint_not_in_region) auto
  then show ?thesis by (simp add: view_def wr_bytes_outside)
qed

lemma strncpy_loop_copies:
  assumes "disjoint_regions p n q n" "n \<le> 2 ^ 32" "i \<le> length (cstr_n (view m q) n)"
  shows "strncpy_loop (wr_bytes m p (take i (cstr_n (view m q) n))) p q i n
      = wr_bytes m p (strncpy_spec (view m q) n)"
  using assms(3)
proof (induction "length (cstr_n (view m q) n) - i" arbitrary: i)
  case 0
  let ?t = "cstr_n (view m q) n"
  have i: "i = length ?t" using 0 by simp
  have "view (wr_bytes m p (take i ?t)) q i \<noteq> 0 \<and> i < n \<longleftrightarrow> view m q i \<noteq> 0 \<and> i < n"
    using view_wr_disjoint [OF assms(1), of i "take i ?t" m] assms(2) length_cstr_n [of "view m q" n]
    by (cases "i < n") (simp_all add: min.coboundedI2)
  then show ?case
    using cstr_n_continue [of i "view m q" n] i assms(2) length_cstr_n [of "view m q" n]
      strncpy_pad_fills [of ?t n m p]
    by (subst strncpy_loop.simps) (auto simp: strncpy_spec_def)
next
  case (Suc d)
  let ?t = "cstr_n (view m q) n"
  from Suc have i: "i < length ?t" "d = length ?t - Suc i" by simp_all
  then have "i < n" using length_cstr_n [of "view m q" n] by simp
  then have "view (wr_bytes m p (take i ?t)) q i = view m q i"
    using view_wr_disjoint [OF assms(1), of i "take i ?t" m] assms(2) length_cstr_n [of "view m q" n]
    by simp
  then show ?case
    using cstr_n_continue [of i "view m q" n] Suc i wr_bytes_take_Suc [of i "view m q" n m p] assms(2)
    by (subst strncpy_loop.simps) simp
qed

lemma strncpy_eq:
  assumes "disjoint_regions dest n src n" "n \<le> 2 ^ 32"
  shows "strncpy m dest src n = wr_bytes m dest (strncpy_spec (view m src) n)"
  using strncpy_loop_copies [OF assms, of 0 m] by (simp add: strncpy_def)

section \<open>strrev\<close>

lemma wr_bytes_id: "wr_bytes m p (rd_bytes m p n) = m"
  by (auto simp: wr_bytes_def fun_eq_iff)

lemma strrev_swap:
  assumes "k + 2 \<le> 2 ^ 32" and xs: "length xs = k"
  shows "wr_bytes (m(p + of_nat (k + 1) := x, p := y)) (p + 1) xs = wr_bytes m p (y # xs @ [x])"
proof -
  have neq: "p + of_nat (k + 1) \<noteq> p"
    using assms offset_eq_iff [of "k + 1" p p] by auto
  have out: "\<not> in_region (p + 1) (length xs) (p + of_nat (k + 1))"
    using assms in_region_offset [of k "p + 1" k] by (simp add: add.assoc)
  have "wr_bytes m p (y # xs @ [x]) = wr_bytes (m(p := y)) (p + 1) (xs @ [x])"
    using assms by (intro wr_bytes_Cons [symmetric]) simp
  also have "\<dots> = (wr_bytes (m(p := y)) (p + 1) xs)(p + 1 + of_nat (length xs) := x)"
    using assms by (intro wr_bytes_snoc [symmetric]) simp
  also have "\<dots> = wr_bytes (m(p := y, p + of_nat (k + 1) := x)) (p + 1) xs"
    using wr_bytes_upd_outside [OF out, of "m(p := y)" x] xs by (simp add: ac_simps)
  finally show ?thesis using neq by (simp add: fun_upd_twist)
qed

lemma strrev_loop_reverses:
  assumes "k \<le> 2 ^ 32"
  shows "strrev_loop m s (int b) (int b + int k - 1)
      = wr_bytes m (s + of_nat b) (rev (rd_bytes m (s + of_nat b) k))"
  using assms
proof (induction k arbitrary: m b rule: induct_nat_012)
  case 0
  then show ?case by (subst strrev_loop.simps) simp
next
  case 1
  have "rev (rd_bytes m (s + of_nat b) (Suc 0)) = rd_bytes m (s + of_nat b) (Suc 0)"
    by (simp add: rd_bytes_def)
  then show ?case
    by (subst strrev_loop.simps) (simp add: wr_bytes_id)
next
  case (ge2 k)
  let ?p = "s + of_nat b"
  let ?x = "m ?p" and ?y = "m (?p + of_nat (k + 1))"
  let ?m = "m(?p + of_nat (k + 1) := ?x, ?p := ?y)"
  have mid: "rd_bytes ?m (?p + 1) k = rd_bytes m (?p + 1) k"
  proof (rule rd_bytes_cong)
    fix i assume i: "i < k"
    have "?p + of_nat (i + 1) \<noteq> ?p"
      using offset_eq_iff [of "i + 1" ?p ?p] i ge2(3) by auto
    moreover have "?p + of_nat (i + 1) \<noteq> ?p + of_nat (k + 1)"
      using of_nat_inj_32 [of i k] i ge2(3) by simp
    moreover have "?p + 1 + of_nat i = ?p + of_nat (i + 1)" by simp
    ultimately show "?m (?p + 1 + of_nat i) = m (?p + 1 + of_nat i)" by simp
  qed
  have split: "rd_bytes m ?p (Suc (Suc k)) = ?x # rd_bytes m (?p + 1) k @ [?y]"
    using rd_bytes_add [of m "?p + 1" k 1] by (simp add: rd_bytes_Suc [of m ?p] rd_bytes_Suc [of _ _ 0] algebra_simps)
  have en: "s + of_int (int b + int (Suc (Suc k)) - 1) = ?p + of_nat (k + 1)"
    by (simp add: algebra_simps)
  have "strrev_loop m s (int b) (int b + int (Suc (Suc k)) - 1)
      = strrev_loop ?m s (int (b + 1)) (int (b + 1) + int k - 1)"
    by (subst strrev_loop.simps, subst en) (simp add: Let_def algebra_simps)
  also have "\<dots> = wr_bytes ?m (s + of_nat (b + 1)) (rev (rd_bytes ?m (s + of_nat (b + 1)) k))"
    using ge2(3) by (intro ge2(1)) simp
  also have "\<dots> = wr_bytes ?m (?p + 1) (rev (rd_bytes m (?p + 1) k))"
    using mid by (simp only: of_nat_add of_nat_1 add.assoc [symmetric])
  also have "\<dots> = wr_bytes m ?p (rev (rd_bytes m ?p (Suc (Suc k))))"
    using ge2(3) strrev_swap [of k "rev (rd_bytes m (?p + 1) k)" m ?p ?x ?y] split by simp
  finally show ?case .
qed

lemma strrev_eq:
  assumes "strlen (view m s) = Some n" "n \<le> 2 ^ 32"
  shows "strrev m s = Some (wr_bytes m s (rev (rd_bytes m s n)))"
  using assms strrev_loop_reverses [of n m s 0] by (simp add: strrev_def)

section \<open>strcpy\<close>

text \<open>The loop walks upwards; it needs each byte of the source as it was when it comes to it.\<close>

lemma strcpy_loop_walk:
  assumes same: "\<And>i. i \<le> n \<Longrightarrow> view (wr_bytes m p (rd_bytes m q i)) q i = view m q i"
    and n: "Suc n \<le> 2 ^ 32" and len: "strlen (view m q) = Some n" and i: "i \<le> n"
  shows "strcpy_loop (wr_bytes m p (rd_bytes m q i)) p q i = Some (wr_bytes m p (rd_bytes m q (Suc n)))"
  using i
proof (induction "n - i" arbitrary: i)
  case 0
  moreover have "view m q n = 0" using len by (simp add: strlen_iff)
  moreover have "rd_bytes m q (Suc n) = rd_bytes m q n @ [view m q n]" by (simp add: rd_bytes_def)
  ultimately show ?case
    using same [of i] n wr_bytes_snoc [of "rd_bytes m q n" m p 0] by (subst strcpy_loop.simps) simp
next
  case (Suc d)
  then have lt: "i < n" "d = n - Suc i" by simp_all
  moreover have "view m q i \<noteq> 0" using len lt by (simp add: strlen_iff)
  moreover have "rd_bytes m q (Suc i) = rd_bytes m q i @ [view m q i]" by (simp add: rd_bytes_def)
  ultimately show ?case
    using same [of i] Suc(1) [OF lt(2)] n wr_bytes_snoc [of "rd_bytes m q i" m p "view m q i"]
    by (subst strcpy_loop.simps) simp
qed

lemma strcpy_loop_copies:
  assumes dis: "disjoint_regions p (Suc n) q (Suc n)" and n: "Suc n \<le> 2 ^ 32"
    and len: "strlen (view m q) = Some n" and i: "i \<le> n"
  shows "strcpy_loop (wr_bytes m p (rd_bytes m q i)) p q i
      = Some (wr_bytes m p (rd_bytes m q (Suc n)))"
  using n by (intro strcpy_loop_walk [OF view_wr_disjoint [OF dis] n len i]) simp_all

text \<open>A destination below the source may overlap it.\<close>

lemma strcpy_down:
  assumes "strlen (view m (p + of_nat d)) = Some n" "d + Suc n \<le> 2 ^ 32"
  shows "strcpy m p (p + of_nat d) = Some (wr_bytes m p (rd_bytes m (p + of_nat d) (Suc n)))"
proof -
  have "view (wr_bytes m p (rd_bytes m (p + of_nat d) i)) (p + of_nat d) i = view m (p + of_nat d) i" if "i \<le> n" for i
  proof -
    have "p + of_nat d + of_nat i - p = of_nat (d + i)" by simp
    then have "\<not> in_region p i (p + of_nat d + of_nat i)"
      using that assms(2) by (simp add: in_region_def unat_of_nat_32 del: of_nat_add)
    then show ?thesis by (simp add: view_def wr_bytes_outside)
  qed
  from strcpy_loop_walk [OF this _ assms(1), of 0] show ?thesis using assms(2) by (simp add: strcpy_def)
qed

section \<open>itoa\<close>

text \<open>The digits of a number, least significant first, and the numeral \<open>itoa\<close> should print.\<close>

fun digits_le :: "nat \<Rightarrow> nat \<Rightarrow> nat list" where
  "digits_le r v = (if v = 0 \<or> r < 2 then [] else v mod r # digits_le r (v div r))"

declare digits_le.simps [simp del]

definition itoa_spec :: "nat \<Rightarrow> nat \<Rightarrow> byte list" where
  "itoa_spec r v = (if v = 0 then [48] else map ((!) itoa_lookup) (rev (digits_le r v)))"

text \<open>Reading a numeral back: the value of a digit character, and Horner's rule.\<close>

definition digit_value :: "byte \<Rightarrow> nat" where
  "digit_value b = (if unat b < 58 then unat b - 48 else unat b - 55)"

definition numeral_value :: "nat \<Rightarrow> byte list \<Rightarrow> nat" where
  "numeral_value r bs = foldl (\<lambda>a b. a * r + digit_value b) 0 bs"

lemma digits_le_bound: "2 \<le> r \<Longrightarrow> v < 2 ^ k \<Longrightarrow> length (digits_le r v) \<le> k"
proof (induction r v arbitrary: k rule: digits_le.induct)
  case (1 r v)
  show ?case
  proof (cases "v = 0")
    case True
    then show ?thesis by (simp add: digits_le.simps)
  next
    case False
    then obtain j where k: "k = Suc j" using 1(3) by (cases k) auto
    have "v div r \<le> v div 2" using 1(2) by (intro div_le_mono2) auto
    also have "v div 2 < 2 ^ j" using 1(3) k by auto
    finally have "length (digits_le r (v div r)) \<le> j"
      using 1(1) False 1(2) by simp
    then show ?thesis using False 1(2) k by (subst digits_le.simps) simp
  qed
qed

lemma digits_le_less: "2 \<le> r \<Longrightarrow> d \<in> set (digits_le r v) \<Longrightarrow> d < r"
proof (induction r v rule: digits_le.induct)
  case (1 r v)
  then show ?case by (subst (asm) (2) digits_le.simps) (auto split: if_splits)
qed

lemma digits_le_value: "2 \<le> r \<Longrightarrow> foldr (\<lambda>d a. a * r + d) (digits_le r v) 0 = v"
proof (induction r v rule: digits_le.induct)
  case (1 r v)
  then show ?case by (subst digits_le.simps) auto
qed

lemma itoa_lookup_digit: "\<forall>d < 36. digit_value (itoa_lookup ! d) = d \<and> itoa_lookup ! d \<noteq> 0"
  by code_simp

lemma length_itoa_lookup: "length itoa_lookup = 37"
  by code_simp

lemma itoa_loop_digits:
  assumes "2 \<le> unat radix" "unat radix \<le> 36"
  shows "itoa_loop m p v radix =
    Some (wr_bytes m p (map ((!) itoa_lookup) (digits_le (unat radix) (unat v))),
          p + of_nat (length (digits_le (unat radix) (unat v))))"
proof (induction "unat v" arbitrary: m p v rule: less_induct)
  case less
  let ?r = "unat radix"
  show ?case
  proof (cases "v = 0")
    case True
    then show ?thesis by (simp add: itoa_loop.simps digits_le.simps)
  next
    case False
    have "unat v mod ?r < ?r" using assms by (intro mod_less_divisor) simp
    then have i: "unat v mod ?r < 37" using assms by linarith
    have smaller: "unat (v div radix) < unat v"
      using False assms by (simp add: unat_div unat_gt_0)
    let ?ds = "digits_le ?r (unat v div ?r)" and ?d = "itoa_lookup ! (unat v mod ?r)"
    have ds: "digits_le ?r (unat v) = unat v mod ?r # ?ds"
      using False assms by (subst digits_le.simps) (simp add: unat_eq_0)
    have "length (digits_le ?r (unat v)) \<le> 32"
      using assms(1) unat_lt_2p32 by (rule digits_le_bound)
    then have "wr_bytes (m(p := ?d)) (p + 1) (map ((!) itoa_lookup) ?ds)
        = wr_bytes m p (?d # map ((!) itoa_lookup) ?ds)"
      using ds by (intro wr_bytes_Cons) simp
    moreover have "itoa_loop m p v radix = itoa_loop (m(p := ?d)) (p + 1) (v div radix) radix"
      using False assms i
      by (subst itoa_loop.simps) (auto simp: word_gt_0 Let_def unat_mod length_itoa_lookup)
    ultimately show ?thesis
      using less [OF smaller, of "m(p := ?d)" "p + 1"] ds by (simp add: unat_div algebra_simps)
  qed
qed

lemma wr_bytes_overwrite:
  assumes "length zs = length xs"
  shows "wr_bytes (wr_bytes m p (xs @ ys)) p zs = wr_bytes m p (zs @ ys)"
  using assms by (auto simp: wr_bytes_def fun_eq_iff nth_append)

lemma itoa_eq:
  assumes "2 \<le> unat radix" "unat radix \<le> 36"
  shows "itoa m val buf radix = Some (wr_bytes m buf (itoa_spec (unat radix) (unat val) @ [0]))"
proof (cases "val = 0")
  case True
  then show ?thesis
    using wr_bytes_snoc [of "[]" m buf 48] wr_bytes_snoc [of "[48]" m buf 0]
    by (simp add: itoa_def itoa_spec_def)
next
  case False
  let ?ds = "digits_le (unat radix) (unat val)" and ?cs = "map ((!) itoa_lookup) (digits_le (unat radix) (unat val))"
  let ?m = "wr_bytes m buf (?cs @ [0])"
  have len: "length ?ds \<le> 32"
    using assms(1) unat_lt_2p32 by (rule digits_le_bound)
  have snoc: "(wr_bytes m buf ?cs)(buf + of_nat (length ?ds) := 0) = ?m"
    using wr_bytes_snoc [of ?cs m buf 0] len by simp
  have at: "view ?m buf i = (?cs @ [0]) ! i" if "i \<le> length ?ds" for i
    using wr_bytes_at [of i "?cs @ [0]" m buf] that len by (simp add: view_def)
  have "strlen (view ?m buf) = Some (length ?ds)"
  proof (rule strlenI)
    show "view ?m buf (length ?ds) = 0" by (simp add: at nth_append)
    fix j assume j: "j < length ?ds"
    then have "?ds ! j < 36" using digits_le_less [OF assms(1), of "?ds ! j" "unat val"] assms(2) by simp
    then show "view ?m buf j \<noteq> 0" using j itoa_lookup_digit by (simp add: at nth_append)
  qed
  moreover have "rd_bytes ?m buf (length ?ds) = ?cs"
    using at by (intro nth_equalityI) (simp_all add: view_def nth_append)
  moreover have "length ?ds \<le> 2 ^ 32" using len by (rule le_trans) simp
  ultimately have "strrev ?m buf = Some (wr_bytes ?m buf (rev ?cs))"
    using strrev_eq [of ?m buf "length ?ds"] by presburger
  then show ?thesis
    using False snoc len wr_bytes_overwrite [of "rev ?cs" ?cs m buf "[0]"] itoa_loop_digits [OF assms, of m buf val]
    by (simp add: itoa_def itoa_spec_def rev_map unat_eq_0)
qed

lemma numeral_value_itoa_spec:
  assumes "2 \<le> r" "r \<le> 36"
  shows "numeral_value r (itoa_spec r v) = v"
proof (cases "v = 0")
  case True
  then show ?thesis by (simp add: itoa_spec_def numeral_value_def digit_value_def)
next
  case False
  have "foldr (\<lambda>x y. y * r + digit_value (itoa_lookup ! x)) xs 0 = foldr (\<lambda>d a. a * r + d) xs 0"
    if "\<forall>x \<in> set xs. x < r" for xs
    using that itoa_lookup_digit assms(2) by (induction xs) auto
  then show ?thesis
    using False digits_le_value [OF assms(1), of v] digits_le_less [OF assms(1), of _ v]
    by (simp add: itoa_spec_def numeral_value_def rev_map foldl_map foldl_conv_foldr foldr_map comp_def)
qed

section \<open>Properties\<close>

text \<open>
  \<open>strncmp\<close> returns 0 exactly when the two strings agree up to their first terminator,
  looking at no more than \<open>n\<close> characters of either.
\<close>

theorem strncmp_zero: "strncmp s1 s2 n = 0 \<longleftrightarrow> cstr_n s1 n = cstr_n s2 n"
  by (rule strncmp_eq_0_iff)

text \<open>
  \<open>strncpy\<close> writes exactly \<open>n\<close> bytes when source and destination do not overlap: the source
  string cut at \<open>n\<close> characters, padded with NUL bytes; it changes nothing else.
\<close>

theorem strncpy_correct:
  assumes "disjoint_regions dest n src n" "n \<le> 2 ^ 32"
  shows "strncpy m dest src n = wr_bytes m dest (strncpy_spec (view m src) n)"
  using assms by (rule strncpy_eq)

theorem strncpy_correct_witness:
  "disjoint_regions 64 6 128 6 \<and>
   strncpy (wr_bytes (\<lambda>_. 7) 128 [97, 98, 0]) 64 128 6 =
     wr_bytes (wr_bytes (\<lambda>_. 7) 128 [97, 98, 0]) 64 [97, 98, 0, 0, 0, 0]"
proof -
  have d: "disjoint_regions 64 6 128 6" by (simp add: disjoint_regions_def)
  have "strncpy_spec (view (wr_bytes (\<lambda>_. 7) 128 [97, 98, 0]) 128) 6 = [97, 98, 0, 0, 0, 0]"
    by (simp add: strncpy_spec_def cstr_n_def view_def wr_bytes_def upt_rec) (simp add: numeral_eq_Suc)
  then show ?thesis using d strncpy_correct [OF d, of "wr_bytes (\<lambda>_. 7) 128 [97, 98, 0]"] by simp
qed

text \<open>
  C40: \<open>strcpy\<close> returns and copies the string with its terminator, when the source is
  terminated and the destination does not overlap it.
\<close>

theorem strcpy_correct:
  assumes "strlen (view m src) = Some n" "disjoint_regions dest (Suc n) src (Suc n)" "Suc n \<le> 2 ^ 32"
  shows "strcpy m dest src = Some (wr_bytes m dest (rd_bytes m src (Suc n)))"
  using strcpy_loop_copies [OF assms(2,3,1), of 0] by (simp add: strcpy_def)

theorem strcpy_correct_witness:
  "strlen (view (wr_bytes (\<lambda>_. 7) 128 [97, 98, 0]) 128) = Some 2 \<and>
   strcpy (wr_bytes (\<lambda>_. 7) 128 [97, 98, 0]) 64 128 =
     Some (wr_bytes (wr_bytes (\<lambda>_. 7) 128 [97, 98, 0]) 64 [97, 98, 0])"
proof -
  let ?m = "wr_bytes (\<lambda>_. 7) 128 [97, 98, 0 :: byte]"
  have l: "strlen (view ?m 128) = Some 2"
    by (rule strlenI) (auto simp: view_def wr_bytes_def less_2_cases_iff)
  have d: "disjoint_regions 64 (Suc 2) 128 (Suc 2)" by (simp add: disjoint_regions_def)
  have "rd_bytes ?m 128 (Suc 2) = [97, 98, 0]"
    by (simp add: rd_bytes_def view_def wr_bytes_def upt_rec)
  then show ?thesis using l strcpy_correct [OF l d] by simp
qed

text \<open>
  C38: for every radix from 2 to 36 \<open>itoa\<close> returns, and what it leaves in the buffer is a
  numeral of at most 32 characters with a terminator after it whose value in that radix is
  the number printed.  Nothing else is written.
\<close>

theorem itoa_roundtrip:
  assumes "2 \<le> unat radix" "unat radix \<le> 36"
  shows "\<exists>str. itoa m val buf radix = Some (wr_bytes m buf (str @ [0])) \<and>
    numeral_value (unat radix) str = unat val \<and> 0 < length str \<and> length str \<le> 32"
proof -
  have "length (digits_le (unat radix) (unat val)) \<le> 32"
    using assms(1) unat_lt_2p32 by (rule digits_le_bound)
  moreover have "val \<noteq> 0 \<Longrightarrow> digits_le (unat radix) (unat val) \<noteq> []"
    using assms(1) by (subst digits_le.simps) (simp add: unat_eq_0)
  ultimately have "0 < length (itoa_spec (unat radix) (unat val))"
      "length (itoa_spec (unat radix) (unat val)) \<le> 32"
    by (auto simp: itoa_spec_def unat_eq_0)
  then show ?thesis
    using itoa_eq [OF assms, of m val buf] numeral_value_itoa_spec [OF assms, of "unat val"] by blast
qed

theorem itoa_roundtrip_witness:
  "\<exists>str. itoa (\<lambda>_. 1) 255 64 16 = Some (wr_bytes (\<lambda>_. 1) 64 (str @ [0])) \<and>
     numeral_value 16 str = 255 \<and> 0 < length str \<and> length str \<le> 32"
  using itoa_roundtrip [of 16 "\<lambda>_. 1" 255 64] by simp

text \<open>
  \<open>strrev\<close> returns on every terminated string and reverses exactly its characters in place.
\<close>

theorem strrev_correct:
  assumes "strlen (view m s) = Some n" "n \<le> 2 ^ 32"
  shows "strrev m s = Some (wr_bytes m s (rev (rd_bytes m s n)))"
  using assms by (rule strrev_eq)

theorem strrev_correct_witness:
  "strrev (wr_bytes (\<lambda>_. 7) 128 [97, 98, 99, 0]) 128 =
     Some (wr_bytes (wr_bytes (\<lambda>_. 7) 128 [97, 98, 99, 0]) 128 [99, 98, 97])"
proof -
  let ?m = "wr_bytes (\<lambda>_. 7) 128 [97, 98, 99, 0 :: byte]"
  have j3: "j < 3 \<longleftrightarrow> j = 0 \<or> j = 1 \<or> j = 2" for j :: nat by auto
  have l: "strlen (view ?m 128) = Some 3"
    by (rule strlenI) (auto simp: view_def wr_bytes_def j3)
  have "rd_bytes ?m 128 3 = [97, 98, 99]"
    by (simp add: rd_bytes_def view_def wr_bytes_def upt_rec)
  then show ?thesis using strrev_correct [OF l] by simp
qed

end
