(* ===== verification/Machine.thy ===== *)
theory Machine
  imports Marvel_Prelude
begin

text \<open>
  The machine the kernel runs on, as far as its C code reaches it (\<^verbatim>\<open>lib.h\<close>): raw memory, the
  I/O ports and the interrupt and direction flags of EFLAGS.  Every component of the kernel
  extends the record below with its own global variables, and its operations are polymorphic
  in the extension, so that they apply unchanged to the state of the whole kernel.

  What a device answers to a port read is not determined by the kernel: the answers are an
  infinite sequence (\<open>io_in\<close>) consumed one by one.  Port writes are recorded in order.
\<close>

record machine =
  memory :: mem
  io_out :: "(u16 \<times> byte) list"
  io_in :: "nat \<Rightarrow> byte"
  io_pos :: nat
  if_flag :: bool
  df_flag :: bool

definition outb :: "byte \<Rightarrow> u16 \<Rightarrow> 'a machine_scheme \<Rightarrow> 'a machine_scheme" where
  "outb b port s = s\<lparr>io_out := io_out s @ [(port, b)]\<rparr>"

definition inb :: "u16 \<Rightarrow> 'a machine_scheme \<Rightarrow> byte \<times> 'a machine_scheme" where
  "inb port s = (io_in s (io_pos s), s\<lparr>io_pos := Suc (io_pos s)\<rparr>)"

definition cli :: "'a machine_scheme \<Rightarrow> 'a machine_scheme" where
  "cli s = s\<lparr>if_flag := False\<rparr>"

definition sti :: "'a machine_scheme \<Rightarrow> 'a machine_scheme" where
  "sti s = s\<lparr>if_flag := True\<rparr>"

text \<open>The saved EFLAGS are the two flags the model keeps.\<close>

definition cli_and_save :: "'a machine_scheme \<Rightarrow> (bool \<times> bool) \<times> 'a machine_scheme" where
  "cli_and_save s = ((if_flag s, df_flag s), s\<lparr>if_flag := False\<rparr>)"

definition restore_flags :: "bool \<times> bool \<Rightarrow> 'a machine_scheme \<Rightarrow> 'a machine_scheme" where
  "restore_flags flags s = s\<lparr>if_flag := fst flags, df_flag := snd flags\<rparr>"

text \<open>The last value written to a port, read off the record of writes.\<close>

definition last_out :: "u16 \<Rightarrow> (u16 \<times> byte) list \<Rightarrow> byte option" where
  "last_out port log = map_of (rev log) port"

lemma last_out_snoc: "last_out p (log @ [(q, b)]) = (if p = q then Some b else last_out p log)"
  by (simp add: last_out_def)

lemma outb_frame [simp]:
  "memory (outb b p s) = memory s" "io_in (outb b p s) = io_in s" "io_pos (outb b p s) = io_pos s"
  "if_flag (outb b p s) = if_flag s" "df_flag (outb b p s) = df_flag s"
  "io_out (outb b p s) = io_out s @ [(p, b)]"
  by (simp_all add: outb_def)

lemma outb_more [simp]: "machine.more (outb b p s) = machine.more s"
  by (simp add: outb_def)

end
