(* ===== verification/I8259.thy ===== *)
theory I8259
  imports Machine
begin

unbundle bit_operations_syntax

text \<open>
  The interrupt controller driver, \<^verbatim>\<open>i8259.c\<close>: its two mask bytes, the initialisation
  sequence, masking and unmasking of one line, and the end-of-interrupt command.  The mask
  byte of a line that is disabled has the line's bit set.

  \<open>irq_controller\<close> is the contract the rest of the kernel relies on; it is interpreted on the
  driver's own operations below.
\<close>

section \<open>State and operations\<close>

record pic = machine +
  master_mask :: byte
  slave_mask :: byte

abbreviation (input) MASTER_8259_PORT :: u16 where "MASTER_8259_PORT \<equiv> 0x20"
abbreviation (input) SLAVE_8259_PORT :: u16 where "SLAVE_8259_PORT \<equiv> 0xA0"
abbreviation (input) MASTER_8259_PORT_DATA :: u16 where "MASTER_8259_PORT_DATA \<equiv> 0x21"
abbreviation (input) SLAVE_8259_PORT_DATA :: u16 where "SLAVE_8259_PORT_DATA \<equiv> 0xA1"
abbreviation (input) NUM_IRQS_PER_PIC :: u32 where "NUM_IRQS_PER_PIC \<equiv> 8"
abbreviation (input) IRQ_MAX :: u32 where "IRQ_MAX \<equiv> 15"
abbreviation (input) EOI :: byte where "EOI \<equiv> 0x60"

definition i8259_init :: "'a pic_scheme \<Rightarrow> 'a pic_scheme" where
  "i8259_init s =
    (let s = outb 0x11 MASTER_8259_PORT s;
         s = outb 0x11 SLAVE_8259_PORT s;
         s = outb 0x20 MASTER_8259_PORT_DATA s;
         s = outb 0x28 SLAVE_8259_PORT_DATA s;
         s = outb 0x04 MASTER_8259_PORT_DATA s;
         s = outb 0x02 SLAVE_8259_PORT_DATA s;
         s = outb 0x01 MASTER_8259_PORT_DATA s;
         s = outb 0x01 SLAVE_8259_PORT_DATA s;
         s = s\<lparr>master_mask := 0xFF, slave_mask := 0xFF\<rparr>;
         s = outb 0xFF MASTER_8259_PORT_DATA s
     in outb 0xFF SLAVE_8259_PORT_DATA s)"

definition disable_irq :: "u32 \<Rightarrow> 'a pic_scheme \<Rightarrow> 'a pic_scheme" where
  "disable_irq irq_num s =
    (if IRQ_MAX < irq_num then s
     else if irq_num < NUM_IRQS_PER_PIC then
       let s = s\<lparr>master_mask := master_mask s OR push_bit (unat irq_num) 1\<rparr>
       in outb (master_mask s) MASTER_8259_PORT_DATA s
     else
       let irq_num = irq_num - NUM_IRQS_PER_PIC;
           s = s\<lparr>slave_mask := slave_mask s OR push_bit (unat irq_num) 1\<rparr>
       in outb (slave_mask s) SLAVE_8259_PORT_DATA s)"

definition enable_irq :: "u32 \<Rightarrow> 'a pic_scheme \<Rightarrow> 'a pic_scheme" where
  "enable_irq irq_num s =
    (if IRQ_MAX < irq_num then s
     else if irq_num < NUM_IRQS_PER_PIC then
       let s = s\<lparr>master_mask := master_mask s AND NOT (push_bit (unat irq_num) 1)\<rparr>
       in outb (master_mask s) MASTER_8259_PORT_DATA s
     else
       let irq_num = irq_num - NUM_IRQS_PER_PIC;
           s = s\<lparr>slave_mask := slave_mask s AND NOT (push_bit (unat irq_num) 1)\<rparr>
       in outb (slave_mask s) SLAVE_8259_PORT_DATA s)"

definition send_eoi :: "u32 \<Rightarrow> 'a machine_scheme \<Rightarrow> 'a machine_scheme" where
  "send_eoi irq_num s =
    (if IRQ_MAX < irq_num then s
     else if irq_num < NUM_IRQS_PER_PIC then outb (ucast irq_num OR EOI) MASTER_8259_PORT s
     else
       let s = outb (2 OR EOI) MASTER_8259_PORT s;
           irq_num = irq_num - NUM_IRQS_PER_PIC
       in outb (ucast irq_num OR EOI) SLAVE_8259_PORT s)"

section \<open>The contract of an interrupt controller\<close>

text \<open>\<open>masked s n\<close>: line \<open>n\<close> is disabled.  \<open>synced s\<close>: the chip holds the masks the driver keeps.\<close>

definition irq_masked :: "'a pic_scheme \<Rightarrow> nat \<Rightarrow> bool" where
  "irq_masked s n = (if n < 8 then bit (master_mask s) n else bit (slave_mask s) (n - 8))"

definition pic_synced :: "'a pic_scheme \<Rightarrow> bool" where
  "pic_synced s \<longleftrightarrow> last_out MASTER_8259_PORT_DATA (io_out s) = Some (master_mask s)
     \<and> last_out SLAVE_8259_PORT_DATA (io_out s) = Some (slave_mask s)"

locale irq_controller =
  fixes init :: "'s \<Rightarrow> 's"
    and enable :: "u32 \<Rightarrow> 's \<Rightarrow> 's"
    and disable :: "u32 \<Rightarrow> 's \<Rightarrow> 's"
    and masked :: "'s \<Rightarrow> nat \<Rightarrow> bool"
    and synced :: "'s \<Rightarrow> bool"
  assumes masked_init: "n < 16 \<Longrightarrow> masked (init s) n"
    and synced_init: "synced (init s)"
    and masked_enable: "i \<le> 15 \<Longrightarrow> n < 16 \<Longrightarrow> masked (enable i s) n \<longleftrightarrow> masked s n \<and> n \<noteq> unat i"
    and masked_disable: "i \<le> 15 \<Longrightarrow> n < 16 \<Longrightarrow> masked (disable i s) n \<longleftrightarrow> masked s n \<or> n = unat i"
    and enable_invalid: "15 < i \<Longrightarrow> enable i s = s"
    and disable_invalid: "15 < i \<Longrightarrow> disable i s = s"
    and synced_enable: "synced s \<Longrightarrow> synced (enable i s)"
    and synced_disable: "synced s \<Longrightarrow> synced (disable i s)"
begin

lemma masked_enable_all:
  assumes "\<forall>i \<in> set is. i \<le> 15" "n < 16"
  shows "masked (fold enable is s) n \<longleftrightarrow> masked s n \<and> n \<notin> unat ` set is"
  using assms by (induction "is" arbitrary: s) (auto simp: masked_enable)

lemma synced_enable_all: "synced s \<Longrightarrow> synced (fold enable is s)"
  by (induction "is" arbitrary: s) (auto simp: synced_enable)

lemma enabled_after_init:
  assumes "\<forall>i \<in> set is. i \<le> 15" "n < 16"
  shows "\<not> masked (fold enable is (init s)) n \<longleftrightarrow> n \<in> unat ` set is"
  using assms masked_enable_all [of "is" n "init s"] masked_init by blast

lemma enable_disable:
  assumes "i \<le> 15" "n < 16"
  shows "masked (enable i (disable i s)) n \<longleftrightarrow> masked s n \<and> n \<noteq> unat i"
  using assms by (auto simp: masked_enable masked_disable)

end

section \<open>The driver meets the contract\<close>

lemma unat_le_15: "(i :: u32) \<le> 15 \<Longrightarrow> unat i < 16"
  by (simp add: word_le_nat_alt)

lemma unat_ge_8: "\<not> (i :: u32) < 8 \<Longrightarrow> unat (i - 8) = unat i - 8"
  by (simp add: word_less_nat_alt unat_sub word_le_nat_alt)

lemma bit_single: "bit (2 ^ k :: byte) n \<longleftrightarrow> n = k \<and> n < 8"
  by (auto simp: bit_exp_iff possible_bit_word)

lemma irq_masked_enable:
  assumes "i \<le> 15" "n < 16"
  shows "irq_masked (enable_irq i s) n \<longleftrightarrow> irq_masked s n \<and> n \<noteq> unat i"
  using unat_le_15 [OF assms(1)] assms
  by (auto simp: enable_irq_def irq_masked_def Let_def bit_and_iff bit_not_iff bit_single
      word_less_nat_alt unat_ge_8 outb_def possible_bit_word)

lemma irq_masked_disable:
  assumes "i \<le> 15" "n < 16"
  shows "irq_masked (disable_irq i s) n \<longleftrightarrow> irq_masked s n \<or> n = unat i"
  using unat_le_15 [OF assms(1)] assms
  by (auto simp: disable_irq_def irq_masked_def Let_def bit_or_iff bit_single
      word_less_nat_alt unat_ge_8 outb_def)

lemma i8259_init_masks:
  "master_mask (i8259_init s) = 0xFF" "slave_mask (i8259_init s) = 0xFF"
  by (simp_all add: i8259_init_def Let_def outb_def)

lemma bit_255: "bit (255 :: byte) n \<longleftrightarrow> n < 8"
proof -
  have "(255 :: byte) = mask 8" by (simp add: mask_eq_exp_minus_1)
  then show ?thesis by (simp only: bit_mask_iff) (simp add: possible_bit_word)
qed

interpretation i8259: irq_controller i8259_init enable_irq disable_irq irq_masked pic_synced
proof
  fix s :: "'a pic_scheme" and n :: nat and i :: u32
  show "n < 16 \<Longrightarrow> irq_masked (i8259_init s) n"
    using bit_255 [of n] bit_255 [of "n - 8"] by (auto simp: irq_masked_def i8259_init_masks)
  show "pic_synced (i8259_init s)"
    by (simp add: pic_synced_def i8259_init_def Let_def outb_def last_out_def)
  show "i \<le> 15 \<Longrightarrow> n < 16 \<Longrightarrow> irq_masked (enable_irq i s) n \<longleftrightarrow> irq_masked s n \<and> n \<noteq> unat i"
    by (rule irq_masked_enable)
  show "i \<le> 15 \<Longrightarrow> n < 16 \<Longrightarrow> irq_masked (disable_irq i s) n \<longleftrightarrow> irq_masked s n \<or> n = unat i"
    by (rule irq_masked_disable)
  show "15 < i \<Longrightarrow> enable_irq i s = s" "15 < i \<Longrightarrow> disable_irq i s = s"
    by (simp_all add: enable_irq_def disable_irq_def)
  show "pic_synced s \<Longrightarrow> pic_synced (enable_irq i s)"
    by (simp add: pic_synced_def enable_irq_def Let_def outb_def last_out_snoc)
  show "pic_synced s \<Longrightarrow> pic_synced (disable_irq i s)"
    by (simp add: pic_synced_def disable_irq_def Let_def outb_def last_out_snoc)
qed

section \<open>Properties\<close>

text \<open>
  After initialisation, enabling any list of valid lines unmasks exactly those lines, and
  the masks the driver keeps are the last ones it wrote to the two chips.
\<close>

theorem irqs_enabled_after_init:
  assumes "\<forall>i \<in> set irqs. i \<le> 15" "n < 16"
  shows "(\<not> irq_masked (fold enable_irq irqs (i8259_init s)) n \<longleftrightarrow> n \<in> unat ` set irqs)
    \<and> pic_synced (fold enable_irq irqs (i8259_init s))"
  using i8259.enabled_after_init [OF assms] i8259.synced_enable_all [OF i8259.synced_init] by blast

theorem irqs_enabled_after_init_witness:
  "\<not> irq_masked (fold enable_irq [0, 1, 2, 8]
      (i8259_init \<lparr>memory = (\<lambda>_. 0), io_out = [], io_in = (\<lambda>_. 0), io_pos = 0,
        if_flag = False, df_flag = False, master_mask = 0, slave_mask = 0\<rparr>)) 8"
  using irqs_enabled_after_init [of "[0, 1, 2, 8]" 8 "\<lparr>memory = (\<lambda>_. 0), io_out = [],
      io_in = (\<lambda>_. 0), io_pos = 0, if_flag = False, df_flag = False, master_mask = 0, slave_mask = 0\<rparr>"]
  by simp

text \<open>
  The end of interrupt of a line of the slave chip is sent to the master first (as its
  line 2) and then to the slave; of a line of the master chip to the master only; an invalid
  line sends nothing.
\<close>

theorem send_eoi_writes:
  "io_out (send_eoi irq s) = io_out s @
     (if 15 < irq then []
      else if irq < 8 then [(MASTER_8259_PORT, ucast irq OR EOI)]
      else [(MASTER_8259_PORT, 0x62), (SLAVE_8259_PORT, ucast (irq - 8) OR EOI)])"
  by (simp add: send_eoi_def Let_def)

end
