(* ===== verification/Paging.thy ===== *)
theory Paging
  imports I8259
begin

unbundle bit_operations_syntax

text \<open>
  Page directory and page tables: the bit-field structs of \<^verbatim>\<open>lib.h\<close> and \<^verbatim>\<open>paging.h\<close>, the control
  register accessors of \<^verbatim>\<open>paging_asm.S\<close>, and \<open>init_paging\<close> of \<^verbatim>\<open>paging.c\<close>.

  The processor may keep using a translation it read before an entry was changed, until CR3 is
  reloaded.  The state therefore holds the tables as of the last reload (\<open>tlb_dir\<close> and its
  fellows): \<open>clearTLB\<close> brings them up to date, and \<open>tlb_coherent\<close> says that no change is
  waiting for a flush.  \<open>mmu\<close> is the processor's two-level translation.
\<close>

section \<open>Entries\<close>

record pde_desc_t =
  pde_present :: bool
  pde_read_write_permissions :: bool
  pde_user_supervisor :: bool
  pde_write_through :: bool
  pde_cache_disable :: bool
  pde_accessed :: bool
  pde_reserved_2 :: bool
  pde_page_size :: bool
  pde_reserved_1 :: bool
  pde_open_bits :: "3 word"
  page_table_address :: "20 word"

record pte_desc_t =
  pte_present :: bool
  pte_read_write_permissions :: bool
  pte_user_supervisor :: bool
  pte_write_through :: bool
  pte_cache_disable :: bool
  pte_accessed :: bool
  pte_dirty :: bool
  pte_reserved_1 :: bool
  pte_global :: bool
  pte_open_bits :: "3 word"
  physical_address :: "20 word"

record paging = pic +
  page_directory :: "pde_desc_t list"
  kernel_page_table :: "pte_desc_t list"
  user_page_table :: "pte_desc_t list"
  cr0 :: u32
  cr3 :: u32
  cr4 :: u32
  tlb_dir :: "pde_desc_t list"
  tlb_kernel :: "pte_desc_t list"
  tlb_user :: "pte_desc_t list"

abbreviation (input) NUM_PAGE_TABLES :: nat where "NUM_PAGE_TABLES \<equiv> 1024"
abbreviation (input) NUM_PAGES_IN_TABLE :: nat where "NUM_PAGES_IN_TABLE \<equiv> 1024"
abbreviation (input) KERNEL_PAGE_TABLE_INDEX :: nat where "KERNEL_PAGE_TABLE_INDEX \<equiv> 0"
abbreviation (input) KERNEL_MEM_INDEX :: nat where "KERNEL_MEM_INDEX \<equiv> 1"
abbreviation (input) VIDEO_MEM_INDEX :: nat where "VIDEO_MEM_INDEX \<equiv> 184"
abbreviation (input) USER_PAGE_TABLE_INDEX :: nat where "USER_PAGE_TABLE_INDEX \<equiv> 128"
abbreviation (input) USER_VIDEO_MEM_INDEX :: nat where "USER_VIDEO_MEM_INDEX \<equiv> 0"
abbreviation (input) KERNEL_4KB_ALIGNED_ADDRESS :: u32 where "KERNEL_4KB_ALIGNED_ADDRESS \<equiv> 0x00400000"
abbreviation (input) VIDEO_4KB_ALIGNED_ADDRESS :: u32 where "VIDEO_4KB_ALIGNED_ADDRESS \<equiv> 0xB8000"
abbreviation (input) FOUR_KB :: u32 where "FOUR_KB \<equiv> 0x1000"
abbreviation (input) NUM_TERMINALS :: nat where "NUM_TERMINALS \<equiv> 3"

text \<open>The value a 20-bit address field receives from \<^verbatim>\<open>address >> PDE_PTE_ADDRESS_SHIFT\<close>.\<close>

definition frame_of :: "u32 \<Rightarrow> 20 word" where
  "frame_of a = ucast (drop_bit 12 a)"

section \<open>Control registers\<close>

definition clearTLB :: "'a paging_scheme \<Rightarrow> 'a paging_scheme" where
  "clearTLB s = s\<lparr>tlb_dir := page_directory s, tlb_kernel := kernel_page_table s,
                  tlb_user := user_page_table s\<rparr>"

definition loadPageDirectory :: "u32 \<Rightarrow> 'a paging_scheme \<Rightarrow> 'a paging_scheme" where
  "loadPageDirectory address s = clearTLB (s\<lparr>cr3 := address\<rparr>)"

definition enableMixedSizes :: "'a paging_scheme \<Rightarrow> 'a paging_scheme" where
  "enableMixedSizes s = s\<lparr>cr4 := cr4 s OR 0x00000010\<rparr>"

text \<open>Turning paging on with CR0.PG drops all cached translations.\<close>

definition enablePaging :: "'a paging_scheme \<Rightarrow> 'a paging_scheme" where
  "enablePaging s = clearTLB (s\<lparr>cr0 := cr0 s OR 0x80000000\<rparr>)"

section \<open>init_paging\<close>

text \<open>The eleven assignments that fill one page directory entry.\<close>

definition fill_pde :: "u32 \<Rightarrow> bool \<Rightarrow> bool \<Rightarrow> pde_desc_t" where
  "fill_pde address big user =
    \<lparr>pde_present = True, pde_read_write_permissions = True, pde_user_supervisor = user,
     pde_write_through = False, pde_cache_disable = False, pde_accessed = False,
     pde_reserved_2 = False, pde_page_size = big, pde_reserved_1 = False,
     pde_open_bits = 0, page_table_address = frame_of address\<rparr>"

definition fill_pte :: "u32 \<Rightarrow> bool \<Rightarrow> pte_desc_t" where
  "fill_pte address user =
    \<lparr>pte_present = True, pte_read_write_permissions = True, pte_user_supervisor = user,
     pte_write_through = False, pte_cache_disable = False, pte_accessed = False,
     pte_dirty = False, pte_reserved_1 = False, pte_global = True,
     pte_open_bits = 0, physical_address = frame_of address\<rparr>"

text \<open>The loop over the display page and the terminals' pages (\<^verbatim>\<open>i = 0 .. NUM_TERMINALS\<close>).\<close>

fun fill_kernel_video :: "nat \<Rightarrow> pte_desc_t list \<Rightarrow> pte_desc_t list" where
  "fill_kernel_video 0 tab = tab"
| "fill_kernel_video (Suc i) tab =
     (fill_kernel_video i tab)[VIDEO_MEM_INDEX + i :=
        fill_pte (VIDEO_4KB_ALIGNED_ADDRESS + of_nat i * FOUR_KB) False]"

text \<open>The loop \<^verbatim>\<open>i = 1 .. NUM_TERMINALS - 1\<close> over the other terminals' user pages.\<close>

fun fill_user_video :: "nat \<Rightarrow> pte_desc_t list \<Rightarrow> pte_desc_t list" where
  "fill_user_video 0 tab = tab"
| "fill_user_video (Suc i) tab =
     (fill_user_video i tab)[USER_VIDEO_MEM_INDEX + Suc i :=
        fill_pte (VIDEO_4KB_ALIGNED_ADDRESS + of_nat (Suc i + 1) * FOUR_KB) True]"

text \<open>The arguments are the link addresses of the three tables.\<close>

definition init_paging :: "u32 \<Rightarrow> u32 \<Rightarrow> u32 \<Rightarrow> 'a paging_scheme \<Rightarrow> 'a paging_scheme" where
  "init_paging page_directory_addr kernel_page_table_addr user_page_table_addr s =
    (let s = loadPageDirectory page_directory_addr s;
         s = enableMixedSizes s;
         s = clearTLB s;
         s = s\<lparr>page_directory := map (\<lambda>e. e\<lparr>pde_present := False\<rparr>) (page_directory s)\<rparr>;
         s = s\<lparr>page_directory :=
               (page_directory s)[KERNEL_PAGE_TABLE_INDEX := fill_pde kernel_page_table_addr False False]\<rparr>;
         s = s\<lparr>page_directory :=
               (page_directory s)[KERNEL_MEM_INDEX := fill_pde KERNEL_4KB_ALIGNED_ADDRESS True False]\<rparr>;
         s = s\<lparr>kernel_page_table := map (\<lambda>e. e\<lparr>pte_present := False\<rparr>) (kernel_page_table s)\<rparr>;
         s = s\<lparr>kernel_page_table := fill_kernel_video (NUM_TERMINALS + 1) (kernel_page_table s)\<rparr>;
         s = s\<lparr>page_directory :=
               (page_directory s)[USER_PAGE_TABLE_INDEX := fill_pde user_page_table_addr False True]\<rparr>;
         s = s\<lparr>user_page_table := map (\<lambda>e. e\<lparr>pte_present := False\<rparr>) (user_page_table s)\<rparr>;
         s = s\<lparr>user_page_table :=
               (user_page_table s)[USER_VIDEO_MEM_INDEX := fill_pte VIDEO_4KB_ALIGNED_ADDRESS True]\<rparr>;
         s = s\<lparr>user_page_table := fill_user_video (NUM_TERMINALS - 1) (user_page_table s)\<rparr>
     in enablePaging s)"

section \<open>The processor's translation\<close>

text \<open>
  The tables are found by the addresses stored in the directory.  The result is the physical
  address and whether user mode may use it; None is a page fault.
\<close>

definition mmu :: "u32 \<Rightarrow> u32 \<Rightarrow> pde_desc_t list \<Rightarrow> pte_desc_t list \<Rightarrow> pte_desc_t list
    \<Rightarrow> u32 \<Rightarrow> (u32 \<times> bool) option" where
  "mmu kernel_addr user_addr dir ktab utab v =
    (let d = dir ! unat (drop_bit 22 v);
         base = push_bit 12 (ucast (page_table_address d))
     in if \<not> pde_present d then None
        else if pde_page_size d then
          Some (push_bit 22 (drop_bit 22 base) + take_bit 22 v, pde_user_supervisor d)
        else if base = kernel_addr \<or> base = user_addr then
          let e = (if base = kernel_addr then ktab else utab) ! unat (take_bit 10 (drop_bit 12 v))
          in if pte_present e
             then Some (push_bit 12 (ucast (physical_address e)) + take_bit 12 v,
                        pde_user_supervisor d \<and> pte_user_supervisor e)
             else None
        else None)"

definition tlb_coherent :: "'a paging_scheme \<Rightarrow> bool" where
  "tlb_coherent s \<longleftrightarrow> tlb_dir s = page_directory s \<and> tlb_kernel s = kernel_page_table s
     \<and> tlb_user s = user_page_table s"

definition paging_wf :: "'a paging_scheme \<Rightarrow> bool" where
  "paging_wf s \<longleftrightarrow> length (page_directory s) = NUM_PAGE_TABLES
     \<and> length (kernel_page_table s) = NUM_PAGES_IN_TABLE
     \<and> length (user_page_table s) = NUM_PAGES_IN_TABLE"

text \<open>The address space the kernel starts with, as a specification.\<close>

definition boot_space :: "u32 \<Rightarrow> (u32 \<times> bool) option" where
  "boot_space v =
    (let d = unat (drop_bit 22 v); t = unat (take_bit 10 (drop_bit 12 v)) in
     if d = 1 then Some (0x400000 + take_bit 22 v, False)
     else if d = 0 \<and> 184 \<le> t \<and> t < 188 then Some (0xB8000 + of_nat (t - 184) * 0x1000 + take_bit 12 v, False)
     else if d = 128 \<and> t = 0 then Some (0xB8000 + take_bit 12 v, True)
     else if d = 128 \<and> t \<le> 2 then Some (0xB8000 + of_nat (t + 1) * 0x1000 + take_bit 12 v, True)
     else None)"

section \<open>The union value of an entry\<close>

text \<open>The 32-bit member \<^verbatim>\<open>val\<close> of \<^verbatim>\<open>pde_desc_t\<close>: the bit fields from the least significant bit up.\<close>

definition pde_val :: "pde_desc_t \<Rightarrow> u32" where
  "pde_val d = of_bool (pde_present d) OR push_bit 1 (of_bool (pde_read_write_permissions d))
     OR push_bit 2 (of_bool (pde_user_supervisor d)) OR push_bit 3 (of_bool (pde_write_through d))
     OR push_bit 4 (of_bool (pde_cache_disable d)) OR push_bit 5 (of_bool (pde_accessed d))
     OR push_bit 6 (of_bool (pde_reserved_2 d)) OR push_bit 7 (of_bool (pde_page_size d))
     OR push_bit 8 (of_bool (pde_reserved_1 d)) OR push_bit 9 (ucast (pde_open_bits d))
     OR push_bit 12 (ucast (page_table_address d))"

definition pde_of_val :: "u32 \<Rightarrow> pde_desc_t" where
  "pde_of_val v =
    \<lparr>pde_present = bit v 0, pde_read_write_permissions = bit v 1, pde_user_supervisor = bit v 2,
     pde_write_through = bit v 3, pde_cache_disable = bit v 4, pde_accessed = bit v 5,
     pde_reserved_2 = bit v 6, pde_page_size = bit v 7, pde_reserved_1 = bit v 8,
     pde_open_bits = ucast (drop_bit 9 v), page_table_address = ucast (drop_bit 12 v)\<rparr>"

text \<open>The tables as the loader leaves them: the zeroed .bss.\<close>

definition zero_paging :: paging where
  "zero_paging = \<lparr>memory = (\<lambda>_. 0), io_out = [], io_in = (\<lambda>_. 0), io_pos = 0, if_flag = False,
     df_flag = False, master_mask = 0, slave_mask = 0,
     page_directory = replicate NUM_PAGE_TABLES (pde_of_val 0),
     kernel_page_table = replicate NUM_PAGES_IN_TABLE
       \<lparr>pte_present = False, pte_read_write_permissions = False, pte_user_supervisor = False,
        pte_write_through = False, pte_cache_disable = False, pte_accessed = False,
        pte_dirty = False, pte_reserved_1 = False, pte_global = False, pte_open_bits = 0,
        physical_address = 0\<rparr>,
     user_page_table = replicate NUM_PAGES_IN_TABLE
       \<lparr>pte_present = False, pte_read_write_permissions = False, pte_user_supervisor = False,
        pte_write_through = False, pte_cache_disable = False, pte_accessed = False,
        pte_dirty = False, pte_reserved_1 = False, pte_global = False, pte_open_bits = 0,
        physical_address = 0\<rparr>,
     cr0 = 1, cr3 = 0, cr4 = 0, tlb_dir = [], tlb_kernel = [], tlb_user = []\<rparr>"

section \<open>Lemmas\<close>

lemma push_ucast_frame:
  assumes "take_bit 12 a = 0"
  shows "push_bit 12 (ucast (frame_of a)) = (a :: u32)"
proof -
  have "ucast (frame_of a) = drop_bit 12 a"
    by (rule bit_word_eqI) (auto simp: frame_of_def bit_ucast_iff bit_drop_bit_eq dest: bit_imp_le_length)
  moreover have "push_bit 12 (drop_bit 12 a) + take_bit 12 a = a" by (rule bits_ident)
  ultimately show ?thesis using assms by simp
qed

lemma fill_kernel_video_nth:
  assumes "length tab = 1024" "k < 1024" "n \<le> 4"
  shows "fill_kernel_video n tab ! k =
     (if 184 \<le> k \<and> k < 184 + n then fill_pte (0xB8000 + of_nat (k - 184) * 0x1000) False else tab ! k)
    \<and> length (fill_kernel_video n tab) = 1024"
  using assms by (induction n) (auto simp: nth_list_update less_Suc_eq)

lemma fill_user_video_nth:
  assumes "length tab = 1024" "k < 1024" "n \<le> 2"
  shows "fill_user_video n tab ! k =
     (if 1 \<le> k \<and> k \<le> n then fill_pte (0xB8000 + of_nat (k + 1) * 0x1000) True else tab ! k)
    \<and> length (fill_user_video n tab) = 1024"
  using assms by (induction n) (auto simp: nth_list_update le_Suc_eq)

lemma init_paging_tables:
  fixes pd k u :: u32 and s :: "'a paging_scheme"
  assumes "paging_wf s"
  defines "s' \<equiv> init_paging pd k u s"
  shows "paging_wf s'" "tlb_coherent s'"
    and "\<And>i. i < 1024 \<Longrightarrow> page_directory s' ! i =
      (if i = 0 then fill_pde k False False else if i = 1 then fill_pde 0x400000 True False
       else if i = 128 then fill_pde u False True else (page_directory s ! i)\<lparr>pde_present := False\<rparr>)"
    and "\<And>i. i < 1024 \<Longrightarrow> kernel_page_table s' ! i =
      (if 184 \<le> i \<and> i < 188 then fill_pte (0xB8000 + of_nat (i - 184) * 0x1000) False
       else (kernel_page_table s ! i)\<lparr>pte_present := False\<rparr>)"
    and "\<And>i. i < 1024 \<Longrightarrow> user_page_table s' ! i =
      (if i = 0 then fill_pte 0xB8000 True
       else if i \<le> 2 then fill_pte (0xB8000 + of_nat (i + 1) * 0x1000) True
       else (user_page_table s ! i)\<lparr>pte_present := False\<rparr>)"
proof -
  let ?k = "map (\<lambda>e. e\<lparr>pte_present := False\<rparr>) (kernel_page_table s)"
  let ?u = "(map (\<lambda>e. e\<lparr>pte_present := False\<rparr>) (user_page_table s))[0 := fill_pte 0xB8000 True]"
  have lens: "length (page_directory s) = 1024" "length (kernel_page_table s) = 1024"
      "length (user_page_table s) = 1024"
    using assms(1) by (simp_all add: paging_wf_def)
  have k': "kernel_page_table s' = fill_kernel_video 4 ?k"
    by (simp add: s'_def init_paging_def Let_def enablePaging_def clearTLB_def loadPageDirectory_def
        enableMixedSizes_def)
  have u': "user_page_table s' = fill_user_video 2 ?u"
    by (simp add: s'_def init_paging_def Let_def enablePaging_def clearTLB_def loadPageDirectory_def
        enableMixedSizes_def)
  have d': "page_directory s' = (map (\<lambda>e. e\<lparr>pde_present := False\<rparr>) (page_directory s))
      [0 := fill_pde k False False, 1 := fill_pde 0x400000 True False, 128 := fill_pde u False True]"
    by (simp add: s'_def init_paging_def Let_def enablePaging_def clearTLB_def loadPageDirectory_def
        enableMixedSizes_def)
  show "tlb_coherent s'"
    by (simp add: s'_def init_paging_def Let_def enablePaging_def clearTLB_def tlb_coherent_def)
  show "paging_wf s'"
    using fill_kernel_video_nth [of ?k 0 4] fill_user_video_nth [of ?u 0 2] lens k' u' d'
    by (simp add: paging_wf_def)
  show "page_directory s' ! i =
      (if i = 0 then fill_pde k False False else if i = 1 then fill_pde 0x400000 True False
       else if i = 128 then fill_pde u False True else (page_directory s ! i)\<lparr>pde_present := False\<rparr>)"
    if "i < 1024" for i
    using that lens d' by (auto simp: nth_list_update)
  show "kernel_page_table s' ! i =
      (if 184 \<le> i \<and> i < 188 then fill_pte (0xB8000 + of_nat (i - 184) * 0x1000) False
       else (kernel_page_table s ! i)\<lparr>pte_present := False\<rparr>)" if "i < 1024" for i
    using that lens k' fill_kernel_video_nth [of ?k i 4] by simp
  show "user_page_table s' ! i =
      (if i = 0 then fill_pte 0xB8000 True
       else if i \<le> 2 then fill_pte (0xB8000 + of_nat (i + 1) * 0x1000) True
       else (user_page_table s ! i)\<lparr>pte_present := False\<rparr>)" if "i < 1024" for i
    using that lens u' fill_user_video_nth [of ?u i 2] by (auto simp: nth_list_update)
qed

lemma drop_bit_22_less: "unat (drop_bit 22 (v :: u32)) < 1024"
  using unat_lt_2p32 [of v] by (simp add: drop_bit_eq_div unat_div)

lemma take_bit_10_less: "unat (take_bit 10 (v :: u32)) < 1024"
  using take_bit_nat_less_exp [of 10 "unat v"] by (simp add: unsigned_take_bit_eq)

lemma fill_pde_sel [simp]:
  "pde_present (fill_pde a b u)" "pde_page_size (fill_pde a b u) = b"
  "pde_user_supervisor (fill_pde a b u) = u" "page_table_address (fill_pde a b u) = frame_of a"
  by (simp_all add: fill_pde_def)

lemma fill_pte_sel [simp]:
  "pte_present (fill_pte a u)" "pte_user_supervisor (fill_pte a u) = u"
  "physical_address (fill_pte a u) = frame_of a"
  by (simp_all add: fill_pte_def)

lemma pde_val_bits:
  "bit (pde_val d) 0 = pde_present d" "bit (pde_val d) 1 = pde_read_write_permissions d"
  "bit (pde_val d) 2 = pde_user_supervisor d" "bit (pde_val d) 3 = pde_write_through d"
  "bit (pde_val d) 4 = pde_cache_disable d" "bit (pde_val d) 5 = pde_accessed d"
  "bit (pde_val d) 6 = pde_reserved_2 d" "bit (pde_val d) 7 = pde_page_size d"
  "bit (pde_val d) 8 = pde_reserved_1 d"
  "i < 3 \<Longrightarrow> bit (pde_val d) (9 + i) = bit (pde_open_bits d) i"
  "i < 20 \<Longrightarrow> bit (pde_val d) (12 + i) = bit (page_table_address d) i"
proof -
  have "\<not> bit (pde_open_bits d) (3 + i)" by (auto dest: bit_imp_le_length)
  then show "i < 20 \<Longrightarrow> bit (pde_val d) (12 + i) = bit (page_table_address d) i"
    by (simp add: pde_val_def bit_or_iff bit_push_bit_iff bit_ucast_iff bit_of_bool_iff bit_1_iff bit_2_iff)
qed (simp_all add: pde_val_def bit_or_iff bit_push_bit_iff bit_ucast_iff bit_of_bool_iff bit_1_iff bit_2_iff)

lemma pde_val_fields:
  "ucast (drop_bit 9 (pde_val d)) = pde_open_bits d"
  "ucast (drop_bit 12 (pde_val d)) = page_table_address d"
  by (rule bit_word_eqI; simp add: bit_ucast_iff bit_drop_bit_eq pde_val_bits)+

section \<open>Properties\<close>

lemma init_paging_space:
  fixes pd k u v :: u32 and s :: "'a paging_scheme"
  assumes "paging_wf s" "take_bit 12 k = 0" "take_bit 12 u = 0" "k \<noteq> u"
  defines "s' \<equiv> init_paging pd k u s"
  shows "mmu k u (tlb_dir s') (tlb_kernel s') (tlb_user s') v = boot_space v"
proof -
  let ?d = "unat (drop_bit 22 v)" and ?t = "unat (take_bit 10 (drop_bit 12 v))"
  note tabs = init_paging_tables [OF assms(1), where pd = pd and k = k and u = u, folded s'_def]
  have tlb: "tlb_dir s' = page_directory s'" "tlb_kernel s' = kernel_page_table s'"
      "tlb_user s' = user_page_table s'"
    using tabs(2) by (simp_all add: tlb_coherent_def)
  have shift: "x * 0x1000 = push_bit 12 x" for x :: u32 by (simp add: push_bit_eq_mult)
  have aligned: "take_bit 12 (x * 0x1000) = 0" for x :: u32
    by (simp only: shift take_bit_push_bit) simp
  have aligned': "take_bit 12 (0xB9000 + x * 0x1000) = 0" for x :: u32
    using aligned [of "0xB9 + x"] by (simp add: algebra_simps)
  have "take_bit 12 (0xB8000 :: u32) = 0" "take_bit 12 (0x400000 :: u32) = 0" by code_simp+
  then show ?thesis
    using assms(2-4) drop_bit_22_less [of v] take_bit_10_less [of "drop_bit 12 v"]
    by (simp add: mmu_def boot_space_def Let_def tlb tabs(3-5) push_ucast_frame aligned aligned')
qed

text \<open>
  C36: after \<open>init_paging\<close> with page-aligned, distinct table addresses the address space is
  exactly this: 4MB..8MB is the kernel, mapped to itself for the supervisor only; the four
  video pages at 0xB8000 (the display and the three terminals' backing pages) are mapped to
  themselves for the supervisor only; the three pages at 512MB are open to user mode and lead to
  the display (terminal 0) and to the backing pages of terminals 1 and 2; every other address
  faults.
\<close>

theorem init_paging_map:
  fixes pd k u v :: u32 and s :: "'a paging_scheme"
  assumes "paging_wf s" "take_bit 12 k = 0" "take_bit 12 u = 0" "k \<noteq> u"
  defines "s' \<equiv> init_paging pd k u s"
  shows "mmu k u (tlb_dir s') (tlb_kernel s') (tlb_user s') v = boot_space v"
  unfolding s'_def using assms(1-4) by (rule init_paging_space)

theorem init_paging_map_witness:
  "mmu 0x403000 0x404000 (tlb_dir (init_paging 0x402000 0x403000 0x404000 zero_paging))
     (tlb_kernel (init_paging 0x402000 0x403000 0x404000 zero_paging))
     (tlb_user (init_paging 0x402000 0x403000 0x404000 zero_paging)) 0x20001123 = Some (0xBA123, True)"
proof -
  have "boot_space 0x20001123 = Some (0xBA123, True)" by code_simp
  moreover have "take_bit 12 (0x403000 :: u32) = 0" "take_bit 12 (0x404000 :: u32) = 0" by code_simp+
  moreover have "paging_wf zero_paging" by (simp add: paging_wf_def zero_paging_def)
  ultimately show ?thesis
    using init_paging_map [of zero_paging "0x403000" "0x404000" "0x402000" "0x20001123"] by simp
qed

text \<open>
  the union view of a page directory entry loses nothing: the bit fields of
  \<^verbatim>\<open>pde_desc_t\<close> and its 32-bit member \<^verbatim>\<open>val\<close> determine each other.
\<close>

theorem pde_union_roundtrip: "pde_of_val (pde_val d) = d \<and> pde_val (pde_of_val v) = v"
proof
  show "pde_val (pde_of_val v) = v"
  proof (rule bit_word_eqI)
    fix n assume n: "n < LENGTH(32)"
    then consider "n \<in> {0, 1, 2, 3, 4, 5, 6, 7, 8}" | i where "n = 9 + i" "i < 3" | i where "n = 12 + i" "i < 20"
      by (cases "n < 9"; cases "n < 12") (auto simp: less_Suc_eq numeral_eq_Suc le_iff_add not_less)
    then show "bit (pde_val (pde_of_val v)) n = bit v n"
      by cases (auto simp: pde_val_bits pde_val_bits(2) [unfolded One_nat_def] pde_of_val_def bit_ucast_iff bit_drop_bit_eq)
  qed
next
  show "pde_of_val (pde_val d) = d"
    by (simp add: pde_of_val_def pde_val_bits pde_val_bits(2) [unfolded One_nat_def] pde_val_fields)
qed

end
