(* ===== verification/Process.thy ===== *)
theory Process
  imports Paging
begin

text \<open>
  The process data of \<^verbatim>\<open>lib.h\<close>: file descriptor entries, process control blocks and the global
  variables that say which process, thread and terminal is current.

  A process control block lives at a fixed place for its process number, at the top of the
  process's kernel stack: \<open>PCB_at\<close> is that storage, \<open>PCB_ptrs\<close> the table of pointers to it.  A
  pointer is NULL or leads to one of the six places; clearing a pointer leaves the storage as it
  was.  Following a NULL pointer, or indexing the table outside 0..5, has no value (None).
\<close>

text \<open>The five operation tables a descriptor can point to.\<close>

datatype fops_id = Stdin_fops | Stdout_fops | Regfile_fops | Directory_fops | Rtc_fops

record file_descriptor_entry =
  fops_pointer :: "fops_id option"
  fd_inodeNum :: u32
  file_position :: u32
  fd_flags :: u32

record PCB =
  pid :: int
  parent_pid :: int
  pde :: pde_desc_t
  esp :: u32
  ebp :: u32
  exception_flag :: bool
  parent_terminal :: nat
  arg_ptr :: "byte list"
  process_fdt :: "file_descriptor_entry list"

abbreviation (input) MAX_PROCESSES :: nat where "MAX_PROCESSES \<equiv> 6"
abbreviation (input) MAX_NUM_FDT_ENTRIES :: nat where "MAX_NUM_FDT_ENTRIES \<equiv> 8"
abbreviation (input) ARG_SIZE :: nat where "ARG_SIZE \<equiv> 128"
abbreviation (input) NUM_THREADS :: nat where "NUM_THREADS \<equiv> 3"

record proc = paging +
  PCB_at :: "PCB list"
  PCB_ptrs :: "nat option list"
  cur_pid :: int
  curThread :: nat
  currentTerminal :: nat

text \<open>\<^verbatim>\<open>PCB_ptrs[p]\<close> as a place, and \<^verbatim>\<open>*PCB_ptrs[p]\<close>.\<close>

definition pcb_place :: "int \<Rightarrow> 'a proc_scheme \<Rightarrow> nat option" where
  "pcb_place p s = (if 0 \<le> p \<and> p < int (length (PCB_ptrs s)) then PCB_ptrs s ! nat p else None)"

definition pcb_of :: "int \<Rightarrow> 'a proc_scheme \<Rightarrow> PCB option" where
  "pcb_of p s = map_option (\<lambda>k. PCB_at s ! k) (pcb_place p s)"

text \<open>The terminal of the running process, \<^verbatim>\<open>PCB_ptrs[cur_pid] -> parent_terminal\<close>.\<close>

definition process_terminal :: "'a proc_scheme \<Rightarrow> nat option" where
  "process_terminal s = map_option parent_terminal (pcb_of (cur_pid s) s)"

text \<open>Well-formed process tables: each pointer leads to its own place.\<close>

definition proc_wf :: "'a proc_scheme \<Rightarrow> bool" where
  "proc_wf s \<longleftrightarrow> length (PCB_at s) = MAX_PROCESSES \<and> length (PCB_ptrs s) = MAX_PROCESSES
     \<and> (\<forall>p < MAX_PROCESSES. PCB_ptrs s ! p = None \<or> PCB_ptrs s ! p = Some p)"

lemma pcb_of_cong:
  assumes "PCB_at s' = PCB_at s" "PCB_ptrs s' = PCB_ptrs s"
  shows "pcb_of p s' = pcb_of p s"
  by (simp add: pcb_of_def pcb_place_def assms)

lemma process_terminal_cong:
  assumes "PCB_at s' = PCB_at s" "PCB_ptrs s' = PCB_ptrs s" "cur_pid s' = cur_pid s"
  shows "process_terminal s' = process_terminal s"
  by (simp add: process_terminal_def pcb_of_cong [OF assms(1,2)] assms(3))

lemma pcb_of_Some:
  assumes "proc_wf s" "pcb_of p s = Some b"
  shows "0 \<le> p" "p < 6" "PCB_ptrs s ! nat p = Some (nat p)" "b = PCB_at s ! nat p"
proof -
  obtain z where z: "0 \<le> p" "p < 6" "PCB_ptrs s ! nat p = Some z" "b = PCB_at s ! z"
    using assms by (auto simp: proc_wf_def pcb_of_def pcb_place_def split: if_splits)
  moreover from z have "nat p < 6" by simp
  ultimately have "z = nat p" using assms(1) unfolding proc_wf_def by fastforce
  with z show "0 \<le> p" "p < 6" "PCB_ptrs s ! nat p = Some (nat p)" "b = PCB_at s ! nat p" by simp_all
qed

end
