(* ===== verification/Console.thy ===== *)
theory Console
  imports Lib_Strings Process
begin

unbundle bit_operations_syntax

text \<open>
  The console output of \<^verbatim>\<open>lib.c\<close>: \<open>putc\<close> for the running process's terminal, \<open>KBputc\<close> for the
  displayed one, scrolling, erasing, clearing, \<open>puts\<close> and \<open>printf\<close>.

  Video memory is four pages from 0xB8000: the display, and one backing page for each terminal.
  The three terminals are specified as three independent virtual screens (\<open>vterm\<close>): a grid of
  cells and a position.  A terminal's cells are found on the display while it is the current
  terminal and on its backing page otherwise.  The refinement lemmas show that every output
  routine acts on exactly one of the three virtual screens.
\<close>

record console = proc +
  screen_x :: "int list"
  screen_y :: "int list"

abbreviation (input) VIDEO :: u32 where "VIDEO \<equiv> 0xB8000"
abbreviation (input) NUM_COLS :: int where "NUM_COLS \<equiv> 80"
abbreviation (input) NUM_ROWS :: int where "NUM_ROWS \<equiv> 25"
abbreviation (input) ATTRIB :: byte where "ATTRIB \<equiv> 7"

text \<open>The display is page 0 and terminal \<open>t\<close> has page \<open>t + 1\<close>.\<close>

definition video_page :: "nat \<Rightarrow> u32" where
  "video_page k = VIDEO + of_nat k * FOUR_KB"

text \<open>\<^verbatim>\<open>(NUM_COLS*y + x) << 1\<close>\<close>

definition cell_offset :: "int \<Rightarrow> int \<Rightarrow> u32" where
  "cell_offset x y = of_int ((NUM_COLS * y + x) * 2)"

section \<open>Operations\<close>

definition set_cursor :: "int \<Rightarrow> int \<Rightarrow> 'a machine_scheme \<Rightarrow> 'a machine_scheme" where
  "set_cursor x y s =
    (let pos = (of_int (y * NUM_COLS + x) :: u16);
         s = outb 0x0F 0x3D4 s;
         s = outb (ucast (pos AND 0xFF)) 0x3D5 s;
         s = outb 0x0E 0x3D4 s
     in outb (ucast (drop_bit 8 pos AND 0xFF)) 0x3D5 s)"

text \<open>The loop that clears the bottom row, from column 79 down to 0.\<close>

fun clear_bottom :: "nat \<Rightarrow> nat \<Rightarrow> bool \<Rightarrow> mem \<Rightarrow> mem" where
  "clear_bottom 0 t shown m = m"
| "clear_bottom (Suc i) t shown m =
     (let m = m(video_page (t + 1) + of_nat ((i + 80 * 24) * 2) := 32);
          m = (if shown then m(video_page 0 + of_nat ((i + 80 * 24) * 2) := 32) else m)
      in clear_bottom i t shown m)"

definition text_shift_up :: "nat \<Rightarrow> 'a console_scheme \<Rightarrow> 'a console_scheme" where
  "text_shift_up terminalNum s =
    (let shown = (terminalNum = currentTerminal s);
         p = video_page (terminalNum + 1);
         (m, df) = memmove (memory s) p (p + 160) 3840;
         (m, df) = (if shown then memmove m (video_page 0) (video_page 0 + 160) 3840 else (m, df));
         m = clear_bottom 80 terminalNum shown m
     in s\<lparr>memory := m, df_flag := df\<rparr>)"

text \<open>The pieces \<open>KBputc\<close> and \<open>putc\<close> share: storing a character and its attribute at the
  position of terminal \<open>t\<close> on a page, the two ways the position moves on, and the scroll.\<close>

definition poke_cell :: "nat \<Rightarrow> nat \<Rightarrow> byte \<Rightarrow> 'a console_scheme \<Rightarrow> 'a console_scheme" where
  "poke_cell page t c s =
    (let a = video_page page + cell_offset (screen_x s ! t) (screen_y s ! t)
     in s\<lparr>memory := (memory s)(a := c, a + 1 := ATTRIB)\<rparr>)"

definition new_line :: "nat \<Rightarrow> 'a console_scheme \<Rightarrow> 'a console_scheme" where
  "new_line t s =
    s\<lparr>screen_y := (screen_y s)[t := screen_y s ! t + 1], screen_x := (screen_x s)[t := 0]\<rparr>"

definition advance :: "nat \<Rightarrow> 'a console_scheme \<Rightarrow> 'a console_scheme" where
  "advance t s =
    (let s = s\<lparr>screen_x := (screen_x s)[t := screen_x s ! t + 1]\<rparr>;
         s = s\<lparr>screen_x := (screen_x s)[t := screen_x s ! t mod NUM_COLS]\<rparr>
     in if screen_x s ! t = 0 then s\<lparr>screen_y := (screen_y s)[t := screen_y s ! t + 1]\<rparr> else s)"

definition scroll_check :: "nat \<Rightarrow> 'a console_scheme \<Rightarrow> 'a console_scheme" where
  "scroll_check t s =
    (if screen_y s ! t \<ge> NUM_ROWS then
       let s = text_shift_up t s in s\<lparr>screen_y := (screen_y s)[t := screen_y s ! t - 1]\<rparr>
     else s)"

definition KBputc :: "byte \<Rightarrow> 'a console_scheme \<Rightarrow> 'a console_scheme" where
  "KBputc c s =
    (let t = currentTerminal s;
         s = (if c = 10 \<or> c = 13 then new_line t s else advance t (poke_cell 0 t c s));
         s = scroll_check t s
     in set_cursor (screen_x s ! t) (screen_y s ! t) s)"

text \<open>\<open>putc\<close> for a given process terminal.\<close>

definition putc_on :: "nat \<Rightarrow> byte \<Rightarrow> 'a console_scheme \<Rightarrow> 'a console_scheme" where
  "putc_on t c s =
    (let shown = (t = currentTerminal s);
         s = (if c = 10 \<or> c = 13 then new_line t s
              else
                let s = poke_cell (t + 1) t c s;
                    s = (if shown then poke_cell 0 t c s else s)
                in advance t s);
         s = scroll_check t s
     in if shown then set_cursor (screen_x s ! t) (screen_y s ! t) s else s)"

text \<open>
  \<^verbatim>\<open>PCB_ptrs[cur_pid] -> parent_terminal\<close> as \<open>putc\<close> evaluates it.  Before the first process the pointer is NULL;
  while paging is off that is no fault: the field is the byte at physical address 21, its offset in the
  packed structure.  With paging on the first page is not mapped.
\<close>

definition putc_terminal :: "'a proc_scheme \<Rightarrow> nat option" where
  "putc_terminal s = (case process_terminal s of
     Some t \<Rightarrow> Some t
   | None \<Rightarrow> if 0 \<le> cur_pid s \<and> cur_pid s < int (length (PCB_ptrs s)) \<and> \<not> bit (cr0 s) 31
             then Some (unat (memory s 21)) else None)"

lemma putc_terminal_Some [simp]: "process_terminal s = Some t \<Longrightarrow> putc_terminal s = Some t"
  by (simp add: putc_terminal_def)

definition putc :: "byte \<Rightarrow> 'a console_scheme \<Rightarrow> 'a console_scheme option" where
  "putc c s = do {
     t \<leftarrow> putc_terminal s;
     if t < NUM_TERMINALS then Some (putc_on t c s) else None
   }"

definition back_char :: "'a console_scheme \<Rightarrow> 'a console_scheme" where
  "back_char s =
    (let t = currentTerminal s in
     if screen_x s ! t = 0 then
       if screen_y s ! t = 0 then s
       else s\<lparr>screen_y := (screen_y s)[t := screen_y s ! t - 1], screen_x := (screen_x s)[t := NUM_COLS - 1]\<rparr>
     else
       let s = s\<lparr>screen_x := (screen_x s)[t := screen_x s ! t - 1]\<rparr>
       in set_cursor (screen_x s ! t) (screen_y s ! t) s)"

definition erase_char :: "'a console_scheme \<Rightarrow> 'a console_scheme" where
  "erase_char s = back_char (KBputc 32 (back_char s))"

fun clear_loop :: "nat \<Rightarrow> mem \<Rightarrow> mem" where
  "clear_loop 0 m = m"
| "clear_loop (Suc n) m =
     (clear_loop n m)(video_page 0 + of_nat (n * 2) := 32, video_page 0 + of_nat (n * 2) + 1 := ATTRIB)"

definition clear :: "'a console_scheme \<Rightarrow> 'a console_scheme" where
  "clear s =
    (let t = currentTerminal s;
         s = s\<lparr>screen_y := (screen_y s)[t := 0], screen_x := (screen_x s)[t := 0]\<rparr>;
         s = s\<lparr>memory := clear_loop (25 * 80) (memory s)\<rparr>
     in set_cursor (screen_x s ! t) (screen_y s ! t) s)"

fun test_interrupts_loop :: "nat \<Rightarrow> mem \<Rightarrow> mem" where
  "test_interrupts_loop 0 m = m"
| "test_interrupts_loop (Suc n) m =
     (let m = test_interrupts_loop n m; a = video_page 0 + of_nat (n * 2) in m(a := m a + 1))"

definition test_interrupts :: "'a console_scheme \<Rightarrow> 'a console_scheme" where
  "test_interrupts s = s\<lparr>memory := test_interrupts_loop (25 * 80) (memory s)\<rparr>"

text \<open>\<open>puts\<close> runs until it meets a NUL; it reads the string while it writes video memory.\<close>

partial_function (option) puts_loop ::
    "u32 \<Rightarrow> nat \<Rightarrow> 'a console_scheme \<Rightarrow> (nat \<times> 'a console_scheme) option" where
  "puts_loop p index s =
    (if view (memory s) p index \<noteq> 0
     then do { s' \<leftarrow> putc (view (memory s) p index) s; puts_loop p (Suc index) s' }
     else Some (index, s))"

definition puts :: "u32 \<Rightarrow> 'a console_scheme \<Rightarrow> (nat \<times> 'a console_scheme) option" where
  "puts p s = puts_loop p 0 s"

section \<open>printf\<close>

text \<open>
  The variadic arguments are the 32-bit words above the format pointer on the stack, a list here
  (reading beyond it has no value); \<open>conv_buf\<close> is the address of the local conversion buffer.
\<close>

definition with_memory :: "mem \<Rightarrow> 'a machine_scheme \<Rightarrow> 'a machine_scheme" where
  "with_memory m s = s\<lparr>memory := m\<rparr>"

text \<open>\<^verbatim>\<open>while(i < 8) conv_buf[i++] = '0'\<close>\<close>

function zero_pad :: "mem \<Rightarrow> u32 \<Rightarrow> nat \<Rightarrow> mem" where
  "zero_pad m conv_buf i =
     (if i < 8 then zero_pad (m(conv_buf + of_nat i := 48)) conv_buf (Suc i) else m)"
  by pat_completeness auto
termination
  by (relation "measure (\<lambda>(m, conv_buf, i). 8 - i)") auto

declare zero_pad.simps [simp del]

text \<open>Case x, without and with the alternate form.\<close>

definition printf_x :: "bool \<Rightarrow> u32 \<Rightarrow> u32 \<Rightarrow> 'a console_scheme \<Rightarrow> 'a console_scheme option" where
  "printf_x alternate conv_buf v s =
    (if \<not> alternate then do {
       m \<leftarrow> itoa (memory s) v conv_buf 16;
       (n, s') \<leftarrow> puts conv_buf (with_memory m s);
       Some s'
     } else do {
       m \<leftarrow> itoa (memory s) v (conv_buf + 8) 16;
       starting_index \<leftarrow> strlen (view m (conv_buf + 8));
       (n, s') \<leftarrow> puts (conv_buf + of_nat starting_index) (with_memory (zero_pad m conv_buf starting_index) s);
       Some s'
     })"

definition printf_u :: "u32 \<Rightarrow> u32 \<Rightarrow> 'a console_scheme \<Rightarrow> 'a console_scheme option" where
  "printf_u conv_buf v s = do {
     m \<leftarrow> itoa (memory s) v conv_buf 10;
     (n, s') \<leftarrow> puts conv_buf (with_memory m s);
     Some s'
   }"

definition printf_d :: "u32 \<Rightarrow> u32 \<Rightarrow> 'a console_scheme \<Rightarrow> 'a console_scheme option" where
  "printf_d conv_buf v s = do {
     m \<leftarrow> (if sint v < 0 then itoa ((memory s)(conv_buf := 45)) (- v) (conv_buf + 1) 10
          else itoa (memory s) v conv_buf 10);
     (n, s') \<leftarrow> puts conv_buf (with_memory m s);
     Some s'
   }"

text \<open>
  \<^verbatim>\<open>format_char_switch\<close>: the result is the position of the conversion character, the arguments
  left, and the state.  \<^verbatim>\<open>#\<close> starts the switch again one character on.
\<close>

partial_function (option) printf_conv ::
    "bool \<Rightarrow> u32 \<Rightarrow> u32 \<Rightarrow> nat \<Rightarrow> u32 list \<Rightarrow> 'a console_scheme
      \<Rightarrow> (nat \<times> u32 list \<times> 'a console_scheme) option" where
  "printf_conv alternate conv_buf format i args s =
    (let c = view (memory s) format i in
     if c = 37 then do { s' \<leftarrow> putc 37 s; Some (i, args, s') }
     else if c = 35 then printf_conv True conv_buf format (Suc i) args s
     else if c \<in> {120, 117, 100, 99, 115} then
       (case args of
          [] \<Rightarrow> None
        | v # args' \<Rightarrow> do {
            s' \<leftarrow> (if c = 120 then printf_x alternate conv_buf v s
                  else if c = 117 then printf_u conv_buf v s
                  else if c = 100 then printf_d conv_buf v s
                  else if c = 99 then putc (ucast v) s
                  else do { (n, s1) \<leftarrow> puts v s; Some s1 });
            Some (i, args', s')
          })
     else Some (i, args, s))"

partial_function (option) printf_loop ::
    "u32 \<Rightarrow> u32 \<Rightarrow> nat \<Rightarrow> u32 list \<Rightarrow> 'a console_scheme \<Rightarrow> (nat \<times> 'a console_scheme) option" where
  "printf_loop conv_buf format i args s =
    (let c = view (memory s) format i in
     if c = 0 then Some (i, s)
     else if c = 37 then do {
       (i', args', s') \<leftarrow> printf_conv False conv_buf format (Suc i) args s;
       printf_loop conv_buf format (Suc i') args' s'
     } else do {
       s' \<leftarrow> putc c s;
       printf_loop conv_buf format (Suc i) args s'
     })"

definition printf :: "u32 \<Rightarrow> u32 \<Rightarrow> u32 list \<Rightarrow> 'a console_scheme \<Rightarrow> (nat \<times> 'a console_scheme) option" where
  "printf conv_buf format args s = printf_loop conv_buf format 0 args s"

section \<open>Specification: virtual screens\<close>

record vterm =
  cells :: "byte list"
  vx :: int
  vy :: int

text \<open>Scrolling: every row moves up by one (160 bytes); the bottom row keeps its attributes and
  shows blanks.\<close>

definition vt_scroll :: "byte list \<Rightarrow> byte list" where
  "vt_scroll cs = map (\<lambda>i. if i < 3840 then cs ! (i + 160) else if even i then 32 else cs ! i) [0..<4000]"

definition vt_wrap :: "vterm \<Rightarrow> vterm" where
  "vt_wrap v = (if vy v \<ge> NUM_ROWS then v\<lparr>cells := vt_scroll (cells v), vy := vy v - 1\<rparr> else v)"

definition vt_put :: "byte \<Rightarrow> vterm \<Rightarrow> vterm" where
  "vt_put c v = vt_wrap
    (if c = 10 \<or> c = 13 then v\<lparr>vx := 0, vy := vy v + 1\<rparr>
     else let k = nat ((NUM_COLS * vy v + vx v) * 2) in
       \<lparr>cells = (cells v)[k := c, Suc k := ATTRIB],
        vx = (if vx v = NUM_COLS - 1 then 0 else vx v + 1),
        vy = (if vx v = NUM_COLS - 1 then vy v + 1 else vy v)\<rparr>)"

definition vt_back :: "vterm \<Rightarrow> vterm" where
  "vt_back v =
    (if vx v \<noteq> 0 then v\<lparr>vx := vx v - 1\<rparr>
     else if vy v \<noteq> 0 then v\<lparr>vx := NUM_COLS - 1, vy := vy v - 1\<rparr> else v)"

definition vt_blank :: vterm where
  "vt_blank = \<lparr>cells = concat (replicate 2000 [32, ATTRIB]), vx = 0, vy = 0\<rparr>"

text \<open>Where the code keeps the cells of a terminal, and the virtual screen they form.\<close>

definition page_cells :: "mem \<Rightarrow> nat \<Rightarrow> byte list" where
  "page_cells m k = rd_bytes m (video_page k) 4000"

definition home_page :: "nat \<Rightarrow> 'a proc_scheme \<Rightarrow> nat" where
  "home_page t s = (if t = currentTerminal s then 0 else t + 1)"

definition vterm_of :: "nat \<Rightarrow> 'a console_scheme \<Rightarrow> vterm" where
  "vterm_of t s = \<lparr>cells = page_cells (memory s) (home_page t s), vx = screen_x s ! t, vy = screen_y s ! t\<rparr>"

definition console_wf :: "'a console_scheme \<Rightarrow> bool" where
  "console_wf s \<longleftrightarrow> length (screen_x s) = NUM_TERMINALS \<and> length (screen_y s) = NUM_TERMINALS
     \<and> currentTerminal s < NUM_TERMINALS
     \<and> (\<forall>t < NUM_TERMINALS. 0 \<le> screen_x s ! t \<and> screen_x s ! t < NUM_COLS
           \<and> 0 \<le> screen_y s ! t \<and> screen_y s ! t < NUM_ROWS)"

text \<open>The cursor position in the CRT controller, read off the port writes: 0x3D4 selects a
  register, 0x3D5 sets it; the result is (selected, high byte, low byte).\<close>

fun vga_step :: "byte \<times> byte \<times> byte \<Rightarrow> u16 \<times> byte \<Rightarrow> byte \<times> byte \<times> byte" where
  "vga_step (sel, hi, lo) (port, b) =
    (if port = 0x3D4 then (b, hi, lo)
     else if port = 0x3D5 then
       (sel, if sel = 0x0E then b else hi, if sel = 0x0F then b else lo)
     else (sel, hi, lo))"

definition vga_cursor :: "(u16 \<times> byte) list \<Rightarrow> nat" where
  "vga_cursor log = (case foldl vga_step (0, 0, 0) log of (sel, hi, lo) \<Rightarrow> 256 * unat hi + unat lo)"

text \<open>A small state for concrete evaluations: one process, on terminal 1; terminal 0 displayed.\<close>

definition demo_pcb :: PCB where
  "demo_pcb = \<lparr>pid = 0, parent_pid = -1, pde = pde_of_val 0, esp = 0, ebp = 0, exception_flag = False,
     parent_terminal = 1, arg_ptr = replicate 128 0, process_fdt = []\<rparr>"

definition demo_console :: console where
  "demo_console = proc.extend (paging.extend zero_paging
     (proc.fields (replicate 6 demo_pcb) [Some 0, None, None, None, None, None] 0 0 0))
     (console.fields [0, 0, 0] [0, 0, 0])"

lemmas console_demo_simps = proc.extend_def paging.extend_def proc.fields_def console.fields_def
  zero_paging_def demo_pcb_def

section \<open>Video pages\<close>

lemma video_page_inj:
  assumes "k \<le> 3" "j \<le> 3" "i < 4096" "l < 4096"
  shows "video_page k + of_nat i = video_page j + of_nat l \<longleftrightarrow> k = j \<and> i = l"
proof -
  have addr: "video_page k + of_nat i = of_nat (0xB8000 + k * 4096 + i)" for k i
    by (simp add: video_page_def)
  have "0xB8000 + k * 4096 + i < 2 ^ 32" "0xB8000 + j * 4096 + l < 2 ^ 32" using assms by simp_all
  then have "video_page k + of_nat i = video_page j + of_nat l \<longleftrightarrow>
      0xB8000 + k * 4096 + i = 0xB8000 + j * 4096 + l"
    unfolding addr by (rule of_nat_inj_32)
  then have eq: "video_page k + of_nat i = video_page j + of_nat l \<longleftrightarrow> k * 4096 + i = j * 4096 + l" by simp
  have dm: "(a * 4096 + b) div 4096 = a" "(a * 4096 + b) mod 4096 = b" if "b < 4096" for a b :: nat
    using that by simp_all
  show ?thesis unfolding eq using dm assms(3,4) by metis
qed

lemma length_page_cells [simp]: "length (page_cells m k) = 4000"
  by (simp add: page_cells_def)

lemma page_cells_upd:
  assumes "k \<le> 3" "j \<le> 3" "i < 4096"
  shows "page_cells (m(video_page k + of_nat i := b)) j =
     (if j = k then (page_cells m k)[i := b] else page_cells m j)"
  using assms by (intro nth_equalityI) (auto simp: page_cells_def nth_list_update video_page_inj)

lemma page_cells_wr:
  assumes "k \<le> 3" "j \<le> 3" "length bs \<le> 4000"
  shows "page_cells (wr_bytes m (video_page k) bs) j =
     (if j = k then bs @ drop (length bs) (page_cells m k) else page_cells m j)"
proof (rule nth_equalityI)
  fix i assume "i < length (page_cells (wr_bytes m (video_page k) bs) j)"
  then have i: "i < 4000" by simp
  show "page_cells (wr_bytes m (video_page k) bs) j ! i =
     (if j = k then bs @ drop (length bs) (page_cells m k) else page_cells m j) ! i"
  proof (cases "j = k")
    case True
    then show ?thesis
      using i assms by (auto simp: page_cells_def nth_append wr_bytes_at wr_bytes_outside in_region_offset)
  next
    case False
    have "\<not> in_region (video_page k) (length bs) (video_page j + of_nat i)"
    proof
      assume "in_region (video_page k) (length bs) (video_page j + of_nat i)"
      then obtain l where "l < length bs" "video_page j + of_nat i = video_page k + of_nat l"
        by (rule in_regionE)
      with False i assms show False by (simp add: video_page_inj)
    qed
    with False i show ?thesis by (simp add: page_cells_def wr_bytes_outside)
  qed
qed (use assms in simp)

lemma page_cells_shift:
  assumes "k \<le> 3" "j \<le> 3"
  shows "page_cells (fst (memmove m (video_page k) (video_page k + 160) 3840)) j =
     (if j = k then drop 160 (page_cells m k) @ drop 3840 (page_cells m k) else page_cells m j)"
    and "snd (memmove m (video_page k) (video_page k + 160) 3840) = False"
proof -
  have vp: "video_page k = of_nat (0xB8000 + k * 4096)" by (simp add: video_page_def)
  have "unat (video_page k) = 0xB8000 + k * 4096"
    unfolding vp using assms by (intro unat_of_nat_32) simp
  moreover have "video_page k + 160 = of_nat (0xB8000 + k * 4096 + 160)" by (simp add: vp)
  then have "unat (video_page k + 160) = 0xB8000 + k * 4096 + 160"
    using unat_of_nat_32 [of "0xB8000 + k * 4096 + 160"] assms by simp
  ultimately have mv: "memmove m (video_page k) (video_page k + 160) 3840 =
      (wr_bytes m (video_page k) (rd_bytes m (video_page k + 160) 3840), False)"
    using assms by (subst memmove_copy) (simp_all add: word_less_nat_alt)
  have "rd_bytes m (video_page k + 160) 3840 = drop 160 (page_cells m k)"
    by (rule nth_equalityI) (simp_all add: page_cells_def add.assoc)
  with mv show "page_cells (fst (memmove m (video_page k) (video_page k + 160) 3840)) j =
     (if j = k then drop 160 (page_cells m k) @ drop 3840 (page_cells m k) else page_cells m j)"
    and "snd (memmove m (video_page k) (video_page k + 160) 3840) = False"
    using assms by (simp_all add: page_cells_wr)
qed

text \<open>Clearing the bottom row, on one page.\<close>

fun blank_row :: "nat \<Rightarrow> byte list \<Rightarrow> byte list" where
  "blank_row 0 cs = cs"
| "blank_row (Suc i) cs = blank_row i (cs[(i + 1920) * 2 := 32])"

lemma length_blank_row [simp]: "length (blank_row n cs) = length cs"
  by (induction n cs rule: blank_row.induct) simp_all

lemma nth_blank_row:
  assumes "length cs = 4000" "n \<le> 80" "i < 4000"
  shows "blank_row n cs ! i = (if even i \<and> 3840 \<le> i \<and> i < 3840 + 2 * n then 32 else cs ! i)"
  using assms
proof (induction n cs rule: blank_row.induct)
  case (2 n cs)
  then have "blank_row n (cs[(n + 1920) * 2 := 32]) ! i =
      (if even i \<and> 3840 \<le> i \<and> i < 3840 + 2 * n then 32 else cs[(n + 1920) * 2 := 32] ! i)" by simp
  moreover have "i = (n + 1920) * 2 \<longleftrightarrow> even i \<and> 3840 \<le> i \<and> i < 3840 + 2 * Suc n \<and> \<not> i < 3840 + 2 * n"
    by presburger
  ultimately show ?case using 2 by (auto simp: nth_list_update)
qed auto

lemma page_cells_clear_bottom:
  assumes "t < 3" "j \<le> 3" "n \<le> 80"
  shows "page_cells (clear_bottom n t shown m) j =
     (if j = t + 1 \<or> shown \<and> j = 0 then blank_row n (page_cells m j) else page_cells m j)"
  using assms
proof (induction n arbitrary: m)
  case (Suc n)
  let ?i = "(n + 80 * 24) * 2"
  let ?m = "m(video_page (t + 1) + of_nat ?i := 32)"
  have 1: "page_cells ?m j = (if j = t + 1 then (page_cells m j)[?i := 32] else page_cells m j)"
    using Suc.prems page_cells_upd [of "t + 1" j ?i m 32] by simp
  have 2: "page_cells (?m(video_page 0 + of_nat ?i := 32)) j =
      (if j = t + 1 \<or> j = 0 then (page_cells m j)[?i := 32] else page_cells m j)"
    using Suc.prems 1 page_cells_upd [of 0 j ?i ?m 32] by auto
  have IH: "page_cells (clear_bottom n t shown m') j =
     (if j = t + 1 \<or> shown \<and> j = 0 then blank_row n (page_cells m' j) else page_cells m' j)" for m'
    using Suc by simp
  show ?case
    using 1 2 by (auto simp: Let_def IH simp del: of_nat_add of_nat_mult fun_upd_apply)
qed simp

lemma vt_scroll_eq: "length cs = 4000 \<Longrightarrow> blank_row 80 (drop 160 cs @ drop 3840 cs) = vt_scroll cs"
  by (rule nth_equalityI) (auto simp: vt_scroll_def nth_blank_row nth_append add.commute)

lemma page_cells_text_shift_up:
  assumes "t < 3" "j \<le> 3"
  shows "page_cells (memory (text_shift_up t s)) j =
     (if j = t + 1 \<or> t = currentTerminal s \<and> j = 0 then vt_scroll (page_cells (memory s) j)
      else page_cells (memory s) j)"
proof -
  let ?m1 = "fst (memmove (memory s) (video_page (t + 1)) (video_page (t + 1) + 160) 3840)"
  let ?m2 = "fst (memmove ?m1 (video_page 0) (video_page 0 + 160) 3840)"
  have "memory (text_shift_up t s) =
      clear_bottom 80 t (t = currentTerminal s) (if t = currentTerminal s then ?m2 else ?m1)"
    by (simp add: text_shift_up_def Let_def split: prod.splits)
  then show ?thesis
    using assms page_cells_shift(1) [of "t + 1" j "memory s"] page_cells_shift(1) [of 0 j ?m1]
    by (auto simp: page_cells_clear_bottom vt_scroll_eq)
qed

section \<open>The output routines act on one virtual screen\<close>

lemma set_cursor_frame [simp]:
  "screen_x (set_cursor x y s) = screen_x s" "screen_y (set_cursor x y s) = screen_y s"
  "memory (set_cursor x y s) = memory s" "currentTerminal (set_cursor x y s) = currentTerminal s"
  "PCB_ptrs (set_cursor x y s) = PCB_ptrs s" "PCB_at (set_cursor x y s) = PCB_at s"
  "cur_pid (set_cursor x y s) = cur_pid s" "curThread (set_cursor x y s) = curThread s"
  by (simp_all add: set_cursor_def Let_def outb_def)

lemma text_shift_up_frame [simp]:
  "screen_x (text_shift_up t s) = screen_x s" "screen_y (text_shift_up t s) = screen_y s"
  "currentTerminal (text_shift_up t s) = currentTerminal s" "PCB_ptrs (text_shift_up t s) = PCB_ptrs s"
  "PCB_at (text_shift_up t s) = PCB_at s" "cur_pid (text_shift_up t s) = cur_pid s"
  by (simp_all add: text_shift_up_def Let_def split: prod.splits)

lemma vterm_of_set_cursor [simp]: "vterm_of u (set_cursor x y s) = vterm_of u s"
  by (simp add: vterm_of_def home_page_def)

lemma vterm_of_pos [simp]: "vx (vterm_of t s) = screen_x s ! t" "vy (vterm_of t s) = screen_y s ! t"
  by (simp_all add: vterm_of_def)

lemma console_wf_nth:
  assumes "console_wf s" "t < 3"
  shows "length (screen_x s) = 3" "length (screen_y s) = 3" "currentTerminal s < 3"
    "0 \<le> screen_x s ! t" "screen_x s ! t < 80" "0 \<le> screen_y s ! t" "screen_y s ! t < 25"
  using assms by (simp_all add: console_wf_def)

lemma home_page_le: "currentTerminal s < 3 \<Longrightarrow> t < 3 \<Longrightarrow> home_page t s \<le> 3"
  by (simp add: home_page_def)

lemma home_page_eq: "home_page u s = home_page t s \<longleftrightarrow> u = t"
  by (auto simp: home_page_def)

lemma cell_offset_nat:
  assumes "0 \<le> x" "0 \<le> y"
  shows "cell_offset x y = of_nat (nat ((80 * y + x) * 2))"
  using assms by (simp add: cell_offset_def)

lemma page_cells_poke:
  assumes "console_wf s" "t < 3" "k \<le> 3" "j \<le> 3"
  defines "q \<equiv> nat ((80 * (screen_y s ! t) + screen_x s ! t) * 2)"
  shows "page_cells (memory (poke_cell k t c s)) j =
     (if j = k then (page_cells (memory s) k)[q := c, Suc q := 7] else page_cells (memory s) j)"
proof -
  note w = console_wf_nth [OF assms(1,2)]
  have q: "q < 4095" using w by (simp add: q_def)
  have "cell_offset (screen_x s ! t) (screen_y s ! t) = of_nat q"
    using w by (simp add: cell_offset_nat q_def)
  moreover have "video_page k + of_nat q + 1 = video_page k + of_nat (Suc q)" by (simp add: add.assoc)
  ultimately have "memory (poke_cell k t c s) =
      (memory s)(video_page k + of_nat q := c, video_page k + of_nat (Suc q) := 7)"
    by (simp add: poke_cell_def Let_def add.assoc del: of_nat_Suc)
  then show ?thesis
    using page_cells_upd [OF assms(3,4), of q "memory s" c] q
      page_cells_upd [OF assms(3,4), of "Suc q" "(memory s)(video_page k + of_nat q := c)" 7]
    by (auto simp del: of_nat_Suc)
qed

lemma poke_cell_frame [simp]:
  "screen_x (poke_cell k t c s) = screen_x s" "screen_y (poke_cell k t c s) = screen_y s"
  "currentTerminal (poke_cell k t c s) = currentTerminal s" "PCB_ptrs (poke_cell k t c s) = PCB_ptrs s"
  "PCB_at (poke_cell k t c s) = PCB_at s" "cur_pid (poke_cell k t c s) = cur_pid s"
  by (simp_all add: poke_cell_def Let_def)

lemma console_wf_poke [simp]: "console_wf (poke_cell k t c s) = console_wf s"
  by (simp add: console_wf_def)

lemma new_line_frame [simp]:
  "currentTerminal (new_line t s) = currentTerminal s" "length (screen_y (new_line t s)) = length (screen_y s)"
  "length (screen_x (new_line t s)) = length (screen_x s)" "PCB_ptrs (new_line t s) = PCB_ptrs s"
  "PCB_at (new_line t s) = PCB_at s" "cur_pid (new_line t s) = cur_pid s"
  by (simp_all add: new_line_def)

lemma advance_frame [simp]:
  "currentTerminal (advance t s) = currentTerminal s" "length (screen_y (advance t s)) = length (screen_y s)"
  "length (screen_x (advance t s)) = length (screen_x s)" "PCB_ptrs (advance t s) = PCB_ptrs s"
  "PCB_at (advance t s) = PCB_at s" "cur_pid (advance t s) = cur_pid s"
  by (simp_all add: advance_def Let_def)

lemma scroll_check_frame [simp]:
  "currentTerminal (scroll_check t s) = currentTerminal s" "length (screen_y (scroll_check t s)) = length (screen_y s)"
  "screen_x (scroll_check t s) = screen_x s" "PCB_ptrs (scroll_check t s) = PCB_ptrs s"
  "PCB_at (scroll_check t s) = PCB_at s" "cur_pid (scroll_check t s) = cur_pid s"
  by (simp_all add: scroll_check_def Let_def)

lemma vterm_of_new_line:
  assumes "length (screen_x s) = 3" "length (screen_y s) = 3" "t < 3" "u < 3"
  shows "vterm_of u (new_line t s) =
     (if u = t then (vterm_of t s)\<lparr>vx := 0, vy := vy (vterm_of t s) + 1\<rparr> else vterm_of u s)"
  using assms by (simp add: vterm_of_def new_line_def home_page_def)

lemma vterm_of_advance:
  assumes "console_wf s" "t < 3" "u < 3"
  shows "vterm_of u (advance t s) =
     (if u = t then \<lparr>cells = cells (vterm_of t s),
        vx = (if screen_x s ! t = 79 then 0 else screen_x s ! t + 1),
        vy = (if screen_x s ! t = 79 then screen_y s ! t + 1 else screen_y s ! t)\<rparr>
      else vterm_of u s)"
  using assms console_wf_nth [OF assms(1,2)]
  by (auto simp: vterm_of_def advance_def home_page_def Let_def)

lemma vterm_of_scroll_check:
  assumes "currentTerminal s < 3" "length (screen_y s) = 3" "t < 3" "u < 3"
  shows "vterm_of u (scroll_check t s) = (if u = t then vt_wrap (vterm_of t s) else vterm_of u s)"
  using assms
  by (auto simp: vterm_of_def scroll_check_def vt_wrap_def home_page_def Let_def page_cells_text_shift_up)

lemma vterm_of_poke:
  assumes "console_wf s" "t < 3" "u < 3" "k \<le> 3"
  shows "vterm_of u (poke_cell k t c s) =
     (if home_page u s = k
      then (vterm_of u s)\<lparr>cells := (cells (vterm_of u s))
              [nat ((80 * (screen_y s ! t) + screen_x s ! t) * 2) := c,
               Suc (nat ((80 * (screen_y s ! t) + screen_x s ! t) * 2)) := 7]\<rparr>
      else vterm_of u s)"
proof -
  have "home_page u s \<le> 3" using assms console_wf_nth(3) [OF assms(1,2)] by (simp add: home_page_le)
  moreover have "home_page u (poke_cell k t c s) = home_page u s" by (simp add: home_page_def)
  ultimately show ?thesis
    using page_cells_poke [OF assms(1,2,4), of "home_page u s" c] by (auto simp: vterm_of_def)
qed

lemma vterm_KBputc:
  assumes "console_wf s" "u < 3"
  shows "vterm_of u (KBputc c s) =
     (if u = currentTerminal s then vt_put c (vterm_of u s) else vterm_of u s)"
proof -
  let ?t = "currentTerminal s"
  have t: "?t < 3" using assms(1) by (simp add: console_wf_def)
  note w = console_wf_nth [OF assms(1) t]
  show ?thesis
  proof (cases "c = 10 \<or> c = 13")
    case True
    then show ?thesis
      using w t assms
      by (simp add: KBputc_def Let_def vterm_of_scroll_check vterm_of_new_line vt_put_def)
  next
    case False
    have "currentTerminal (advance ?t (poke_cell 0 ?t c s)) < 3"
        "length (screen_y (advance ?t (poke_cell 0 ?t c s))) = 3"
      using w t by (simp_all add: advance_def Let_def)
    then show ?thesis
      using False w t assms
      by (auto simp: KBputc_def Let_def vterm_of_scroll_check vterm_of_advance vterm_of_poke vt_put_def
          home_page_def)
  qed
qed

lemma vterm_putc_on:
  assumes "console_wf s" "u < 3" "t < 3"
  shows "vterm_of u (putc_on t c s) = (if u = t then vt_put c (vterm_of u s) else vterm_of u s)"
proof -
  note w = console_wf_nth [OF assms(1,3)]
  show ?thesis
  proof (cases "c = 10 \<or> c = 13")
    case True
    then show ?thesis
      using w assms
      by (simp add: putc_on_def Let_def vterm_of_scroll_check vterm_of_new_line vt_put_def)
  next
    case False
    let ?s = "if t = currentTerminal s then poke_cell 0 t c (poke_cell (t + 1) t c s) else poke_cell (t + 1) t c s"
    have "currentTerminal (advance t ?s) < 3" "length (screen_y (advance t ?s)) = 3"
      using w assms by (simp_all add: advance_def Let_def)
    then show ?thesis
      using False w assms
      by (auto simp: putc_on_def Let_def vterm_of_scroll_check vterm_of_advance vterm_of_poke vt_put_def
          home_page_def)
  qed
qed

section \<open>Well-formedness\<close>

definition vt_ok :: "vterm \<Rightarrow> bool" where
  "vt_ok v \<longleftrightarrow> length (cells v) = 4000 \<and> 0 \<le> vx v \<and> vx v < NUM_COLS \<and> 0 \<le> vy v \<and> vy v < NUM_ROWS"

lemma vt_put_ok: "vt_ok v \<Longrightarrow> vt_ok (vt_put c v)"
  by (auto simp: vt_ok_def vt_put_def vt_wrap_def vt_scroll_def Let_def)

lemma vt_back_ok: "vt_ok v \<Longrightarrow> vt_ok (vt_back v)"
  by (auto simp: vt_ok_def vt_back_def)

lemma console_wf_iff:
  "console_wf s \<longleftrightarrow> length (screen_x s) = 3 \<and> length (screen_y s) = 3 \<and> currentTerminal s < 3
     \<and> (\<forall>t < 3. vt_ok (vterm_of t s))"
  by (auto simp: console_wf_def vt_ok_def) (simp_all add: vterm_of_def)

lemma KBputc_frame [simp]:
  "currentTerminal (KBputc c s) = currentTerminal s" "PCB_ptrs (KBputc c s) = PCB_ptrs s"
  "PCB_at (KBputc c s) = PCB_at s" "cur_pid (KBputc c s) = cur_pid s"
  "length (screen_x (KBputc c s)) = length (screen_x s)" "length (screen_y (KBputc c s)) = length (screen_y s)"
  by (simp_all add: KBputc_def Let_def)

lemma putc_on_frame [simp]:
  "currentTerminal (putc_on t c s) = currentTerminal s" "PCB_ptrs (putc_on t c s) = PCB_ptrs s"
  "PCB_at (putc_on t c s) = PCB_at s" "cur_pid (putc_on t c s) = cur_pid s"
  "length (screen_x (putc_on t c s)) = length (screen_x s)" "length (screen_y (putc_on t c s)) = length (screen_y s)"
  by (simp_all add: putc_on_def Let_def)

lemma KBputc_wf: "console_wf s \<Longrightarrow> console_wf (KBputc c s)"
  by (simp add: console_wf_iff [of "KBputc c s"] vterm_KBputc) (simp add: console_wf_iff vt_put_ok)

lemma putc_on_wf: "console_wf s \<Longrightarrow> t < 3 \<Longrightarrow> console_wf (putc_on t c s)"
  by (simp add: console_wf_iff [of "putc_on t c s"] vterm_putc_on) (simp add: console_wf_iff vt_put_ok)

lemma back_char_frame [simp]:
  "currentTerminal (back_char s) = currentTerminal s" "PCB_ptrs (back_char s) = PCB_ptrs s"
  "PCB_at (back_char s) = PCB_at s" "cur_pid (back_char s) = cur_pid s" "memory (back_char s) = memory s"
  "length (screen_x (back_char s)) = length (screen_x s)" "length (screen_y (back_char s)) = length (screen_y s)"
  by (simp_all add: back_char_def Let_def)

lemma vterm_back_char:
  assumes "console_wf s" "u < 3"
  shows "vterm_of u (back_char s) = (if u = currentTerminal s then vt_back (vterm_of u s) else vterm_of u s)"
  using assms
  by (auto simp: console_wf_def vterm_of_def vt_back_def home_page_def) (auto simp: back_char_def Let_def)

lemma back_char_wf: "console_wf s \<Longrightarrow> console_wf (back_char s)"
  by (simp add: console_wf_iff [of "back_char s"] vterm_back_char) (simp add: console_wf_iff vt_back_ok)

lemma erase_char_wf: "console_wf s \<Longrightarrow> console_wf (erase_char s)"
  by (simp add: erase_char_def back_char_wf KBputc_wf)

lemma vterm_erase_char:
  assumes "console_wf s" "u < 3"
  shows "vterm_of u (erase_char s) =
     (if u = currentTerminal s then vt_back (vt_put 32 (vt_back (vterm_of u s))) else vterm_of u s)"
  using assms by (simp add: erase_char_def vterm_back_char vterm_KBputc back_char_wf KBputc_wf)

lemma cell_overwrite: "xs[k := a, Suc k := b, k := c, Suc k := d] = xs[k := c, Suc k := d]"
  by (metis list_update_overwrite list_update_swap n_not_Suc_n)

lemma vt_erase_put:
  assumes "vt_ok v" "c \<noteq> 10" "c \<noteq> 13" "vx v < 79 \<or> vy v < 24"
  defines "k \<equiv> nat ((80 * vy v + vx v) * 2)"
  shows "vt_back (vt_put 32 (vt_back (vt_put c v))) = v\<lparr>cells := (cells v)[k := 32, Suc k := 7]\<rparr>"
proof (cases "vx v = 79")
  case True
  then have p: "vt_put c v = \<lparr>cells = (cells v)[k := c, Suc k := 7], vx = 0, vy = vy v + 1\<rparr>"
    using assms by (simp add: vt_put_def vt_wrap_def Let_def k_def)
  have b: "vt_back (vt_put c v) = \<lparr>cells = (cells v)[k := c, Suc k := 7], vx = vx v, vy = vy v\<rparr>"
    unfolding p using True assms by (simp add: vt_back_def vt_ok_def)
  have "vt_put 32 (vt_back (vt_put c v)) = \<lparr>cells = (cells v)[k := 32, Suc k := 7], vx = 0, vy = vy v + 1\<rparr>"
    unfolding b using True assms(4) by (simp add: vt_put_def vt_wrap_def Let_def k_def cell_overwrite)
  then show ?thesis using True assms(1) by (simp add: vt_back_def vt_ok_def)
next
  case False
  then have p: "vt_put c v = \<lparr>cells = (cells v)[k := c, Suc k := 7], vx = vx v + 1, vy = vy v\<rparr>"
    using assms by (simp add: vt_put_def vt_wrap_def vt_ok_def Let_def k_def)
  have b: "vt_back (vt_put c v) = \<lparr>cells = (cells v)[k := c, Suc k := 7], vx = vx v, vy = vy v\<rparr>"
    unfolding p using assms by (simp add: vt_back_def vt_ok_def)
  have "vt_put 32 (vt_back (vt_put c v)) = \<lparr>cells = (cells v)[k := 32, Suc k := 7], vx = vx v + 1, vy = vy v\<rparr>"
    unfolding b using False assms(1) by (simp add: vt_put_def vt_wrap_def vt_ok_def Let_def k_def cell_overwrite)
  then show ?thesis using assms(1) by (simp add: vt_back_def vt_ok_def)
qed

lemma clear_loop_cells:
  "n \<le> 2000 \<Longrightarrow> j \<le> 3 \<Longrightarrow> page_cells (clear_loop n m) j =
     (if j = 0 then concat (replicate n [32, 7]) @ drop (2 * n) (page_cells m 0) else page_cells m j)"
proof (induction n)
  case (Suc n)
  let ?a = "video_page 0 + of_nat (n * 2)"
  have a1: "?a + 1 = video_page 0 + of_nat (Suc (n * 2))" by (simp add: add.assoc)
  have len: "length (concat (replicate n [32, 7 :: byte])) = 2 * n" by (induction n) simp_all
  have dr: "drop (n * 2) (page_cells m 0) =
      page_cells m 0 ! (n * 2) # page_cells m 0 ! Suc (n * 2) # drop (Suc (Suc (n * 2))) (page_cells m 0)"
    using Suc.prems by (simp add: Cons_nth_drop_Suc)
  have "page_cells (clear_loop (Suc n) m) j =
      (if j = 0 then (page_cells (clear_loop n m) 0)[n * 2 := 32, Suc (n * 2) := 7]
       else page_cells (clear_loop n m) j)"
    using Suc.prems page_cells_upd [of 0 j "n * 2" "clear_loop n m" 32]
      page_cells_upd [of 0 j "Suc (n * 2)" "(clear_loop n m)(?a := 32)" 7]
    by (auto simp: a1 simp del: of_nat_Suc of_nat_mult)
  moreover have "concat (replicate (Suc n) [32, 7 :: byte]) = concat (replicate n [32, 7]) @ [32, 7]"
    by (induction n) simp_all
  ultimately show ?case
    using Suc
    by (cases "j = 0") (simp_all add: dr list_update_append len mult.commute del: clear_loop.simps replicate_Suc)
qed simp

lemma vterm_clear:
  assumes "console_wf s" "u < 3"
  shows "vterm_of u (clear s) = (if u = currentTerminal s then vt_blank else vterm_of u s)"
  using assms clear_loop_cells [of 2000 "home_page u s" "memory s"]
  by (auto simp: console_wf_def vterm_of_def vt_blank_def home_page_def clear_def Let_def)

section \<open>The hardware cursor\<close>

lemma vga_cursor_set:
  assumes "0 \<le> x" "x < 80" "0 \<le> y" "y < 25"
  shows "vga_cursor (io_out (set_cursor x y s)) = nat (80 * y + x)"
proof -
  define n where "n = nat (80 * y + x)"
  have n: "n < 2000" and xy: "y * 80 + x = int n" using assms by (simp_all add: n_def)
  define pos where "pos = (of_int (y * 80 + x) :: u16)"
  have pos: "unat pos = n" using n by (simp add: pos_def xy unat_of_nat take_bit_nat_eq_self)
  have ff: "w AND 0xFF = take_bit 8 w" for w :: u16 by (simp add: take_bit_eq_mask mask_eq_exp_minus_1)
  have lo: "unat (ucast (pos AND 0xFF) :: byte) = n mod 256"
    by (simp add: ff unsigned_ucast_eq take_bit_eq_mod unat_mod pos)
  have "unat (drop_bit 8 pos) = n div 256" by (simp add: drop_bit_eq_div unat_div pos)
  then have hi: "unat (ucast (drop_bit 8 pos AND 0xFF) :: byte) = n div 256"
    using n by (simp add: ff unsigned_ucast_eq take_bit_eq_mod unat_mod)
  obtain sel h l where st: "foldl vga_step (0, 0, 0) (io_out s) = (sel, h, l)" by (metis prod_cases3)
  have "vga_cursor (io_out (set_cursor x y s)) = 256 * (n div 256) + n mod 256"
    using lo hi by (simp add: vga_cursor_def set_cursor_def Let_def st pos_def del: of_int_add of_int_mult)
  then show ?thesis by (simp add: n_def)
qed

lemma cursor_KBputc:
  assumes "console_wf s"
  shows "vga_cursor (io_out (KBputc c s)) =
    nat (80 * screen_y (KBputc c s) ! currentTerminal s + screen_x (KBputc c s) ! currentTerminal s)"
proof -
  let ?t = "currentTerminal s" and ?s = "KBputc c s"
  have pos: "0 \<le> screen_x ?s ! ?t" "screen_x ?s ! ?t < 80" "0 \<le> screen_y ?s ! ?t" "screen_y ?s ! ?t < 25"
    using console_wf_nth [OF KBputc_wf [OF assms(1)], of ?t c] assms(1) by (simp_all add: console_wf_def)
  obtain s1 where s1: "KBputc c s = set_cursor (screen_x s1 ! ?t) (screen_y s1 ! ?t) s1"
    unfolding KBputc_def Let_def by blast
  show ?thesis
    using pos by (simp add: s1 vga_cursor_set)
qed

section \<open>Output writes video memory only\<close>

definition in_video :: "u32 \<Rightarrow> bool" where
  "in_video a \<longleftrightarrow> in_region VIDEO 0x4000 a"

lemma in_video_page: "k \<le> 3 \<Longrightarrow> i < 4096 \<Longrightarrow> in_video (video_page k + of_nat i)"
proof -
  assume k: "k \<le> 3" "i < 4096"
  have eq: "video_page k + of_nat i = 0xB8000 + of_nat (k * 4096 + i)" by (simp add: video_page_def)
  show ?thesis unfolding in_video_def eq using k by (subst in_region_offset) simp_all
qed

lemma shift_outside:
  assumes "k \<le> 3" "\<not> in_video a"
  shows "fst (memmove m (video_page k) (video_page k + 160) 3840) a = m a"
proof -
  have vp: "video_page k = of_nat (0xB8000 + k * 4096)" by (simp add: video_page_def)
  have "unat (video_page k) = 0xB8000 + k * 4096"
    unfolding vp using assms by (intro unat_of_nat_32) simp
  moreover have "video_page k + 160 = of_nat (0xB8000 + k * 4096 + 160)" by (simp add: vp)
  then have "unat (video_page k + 160) = 0xB8000 + k * 4096 + 160"
    using unat_of_nat_32 [of "0xB8000 + k * 4096 + 160"] assms by simp
  moreover have "\<not> in_region (video_page k) 3840 a"
  proof
    assume "in_region (video_page k) 3840 a"
    then obtain i where "i < 3840" "a = video_page k + of_nat i" by (rule in_regionE)
    with assms in_video_page [of k i] show False by simp
  qed
  ultimately show ?thesis using assms(1) by (subst memmove_copy) (simp_all add: wr_bytes_outside)
qed

lemma clear_bottom_outside:
  assumes "t < 3" "n \<le> 80" "\<not> in_video a"
  shows "clear_bottom n t shown m a = m a"
  using assms(2)
proof (induction n arbitrary: m)
  case (Suc n)
  then have "a \<noteq> video_page (t + 1) + of_nat ((n + 80 * 24) * 2)" "a \<noteq> video_page 0 + of_nat ((n + 80 * 24) * 2)"
    using assms in_video_page [of "t + 1" "(n + 80 * 24) * 2"] in_video_page [of 0 "(n + 80 * 24) * 2"] by auto
  with Suc show ?case by (simp add: Let_def del: of_nat_add of_nat_mult)
qed simp

lemma text_shift_up_outside:
  assumes "t < 3" "\<not> in_video a"
  shows "memory (text_shift_up t s) a = memory s a"
  using assms shift_outside [of "t + 1" a "memory s"] shift_outside [of 0 a]
  by (auto simp: text_shift_up_def Let_def clear_bottom_outside split: prod.splits) (metis fst_conv)+

lemma poke_cell_outside:
  assumes "console_wf s" "t < 3" "k \<le> 3" "\<not> in_video a"
  shows "memory (poke_cell k t c s) a = memory s a"
proof -
  let ?q = "nat ((80 * (screen_y s ! t) + screen_x s ! t) * 2)"
  note w = console_wf_nth [OF assms(1,2)]
  have "cell_offset (screen_x s ! t) (screen_y s ! t) = of_nat ?q" using w by (intro cell_offset_nat)
  moreover have "a \<noteq> video_page k + of_nat ?q" "a \<noteq> video_page k + of_nat (Suc ?q)"
    using assms(3,4) in_video_page [of k ?q] in_video_page [of k "Suc ?q"] w by auto
  ultimately show ?thesis by (simp add: poke_cell_def Let_def add.assoc add.commute [of 1])
qed

lemma advance_memory [simp]: "memory (advance t s) = memory s" "memory (new_line t s) = memory s"
  by (simp_all add: advance_def new_line_def Let_def)

lemma scroll_check_outside: "t < 3 \<Longrightarrow> \<not> in_video a \<Longrightarrow> memory (scroll_check t s) a = memory s a"
  by (simp add: scroll_check_def Let_def text_shift_up_outside)

lemma KBputc_outside: "console_wf s \<Longrightarrow> \<not> in_video a \<Longrightarrow> memory (KBputc c s) a = memory s a"
  using console_wf_nth(3) [of s 0] by (simp add: KBputc_def Let_def scroll_check_outside poke_cell_outside)

lemma putc_on_outside: "console_wf s \<Longrightarrow> t < 3 \<Longrightarrow> \<not> in_video a \<Longrightarrow> memory (putc_on t c s) a = memory s a"
  by (simp add: putc_on_def Let_def scroll_check_outside poke_cell_outside)

text \<open>The fields no output routine touches.\<close>

lemma process_terminal_putc_on [simp]: "process_terminal (putc_on t c s) = process_terminal s"
  by (simp add: process_terminal_def pcb_of_def pcb_place_def)

section \<open>Printing a string\<close>

fun putc_list :: "nat \<Rightarrow> byte list \<Rightarrow> 'a console_scheme \<Rightarrow> 'a console_scheme" where
  "putc_list t [] s = s"
| "putc_list t (c # cs) s = putc_list t cs (putc_on t c s)"

lemma putc_list_wf: "console_wf s \<Longrightarrow> t < 3 \<Longrightarrow> console_wf (putc_list t cs s)"
  by (induction t cs s rule: putc_list.induct) (simp_all add: putc_on_wf)

lemma putc_list_vterm:
  "console_wf s \<Longrightarrow> t < 3 \<Longrightarrow> u < 3 \<Longrightarrow>
    vterm_of u (putc_list t cs s) = (if u = t then fold vt_put cs (vterm_of u s) else vterm_of u s)"
  by (induction t cs s rule: putc_list.induct) (simp_all add: putc_on_wf vterm_putc_on)

lemma putc_list_outside:
  "console_wf s \<Longrightarrow> t < 3 \<Longrightarrow> \<not> in_video a \<Longrightarrow> memory (putc_list t cs s) a = memory s a"
  by (induction t cs s rule: putc_list.induct) (simp_all add: putc_on_wf putc_on_outside)

lemma putc_list_frame [simp]:
  "currentTerminal (putc_list t cs s) = currentTerminal s" "process_terminal (putc_list t cs s) = process_terminal s"
  "PCB_ptrs (putc_list t cs s) = PCB_ptrs s" "PCB_at (putc_list t cs s) = PCB_at s" "cur_pid (putc_list t cs s) = cur_pid s"
  by (induction t cs s rule: putc_list.induct) simp_all

lemma puts_loop_prints:
  assumes "console_wf s" "process_terminal s = Some t" "t < 3"
    and "\<And>j. j < length cs \<Longrightarrow> view (memory s) p (i + j) = cs ! j \<and> cs ! j \<noteq> 0 \<and> \<not> in_video (p + of_nat (i + j))"
    and "view (memory s) p (i + length cs) = 0" "\<not> in_video (p + of_nat (i + length cs))"
  shows "puts_loop p i s = Some (i + length cs, putc_list t cs s)"
  using assms
proof (induction cs arbitrary: i s)
  case Nil
  then show ?case by (subst puts_loop.simps) simp
next
  case (Cons c cs)
  have c: "view (memory s) p i = c" "c \<noteq> 0" using Cons.prems(4) [of 0] by simp_all
  have same: "view (memory (putc_on t c s)) p k = view (memory s) p k" if "\<not> in_video (p + of_nat k)" for k
    using that Cons.prems by (simp add: view_def putc_on_outside)
  have "puts_loop p (Suc i) (putc_on t c s) = Some (Suc i + length cs, putc_list t cs (putc_on t c s))"
  proof (rule Cons.IH)
    fix j assume "j < length cs"
    then show "view (memory (putc_on t c s)) p (Suc i + j) = cs ! j \<and> cs ! j \<noteq> 0 \<and> \<not> in_video (p + of_nat (Suc i + j))"
      using Cons.prems(4) [of "Suc j"] same [of "Suc i + j"] by simp
  next
    show "view (memory (putc_on t c s)) p (Suc i + length cs) = 0"
      using Cons.prems(5,6) same [of "Suc i + length cs"] by simp
  qed (use Cons.prems putc_on_wf in auto)
  then show ?case
    using Cons.prems c by (subst puts_loop.simps) (simp add: putc_def)
qed

section \<open>What output leaves alone\<close>

text \<open>Output changes memory, the record of port writes, the direction flag and the positions; every
  other field of the kernel state, also of a later extension of it, is kept.\<close>

definition out_update :: "'a console_scheme \<Rightarrow> 'a console_scheme \<Rightarrow> 'a console_scheme" where
  "out_update s s' = s\<lparr>memory := memory s', io_out := io_out s', df_flag := df_flag s',
     screen_x := screen_x s', screen_y := screen_y s'\<rparr>"

definition out_only :: "'a console_scheme \<Rightarrow> 'a console_scheme \<Rightarrow> bool" where
  "out_only s s' \<longleftrightarrow> s' = out_update s s'"

lemma out_only_refl [simp]: "out_only s s"
  by (simp add: out_only_def out_update_def)

lemma out_only_trans:
  assumes "out_only s1 s2" "out_only s2 s3"
  shows "out_only s1 s3"
proof -
  have "out_update s1 s3 = out_update (out_update s1 s2) s3" by (simp add: out_update_def)
  also have "\<dots> = s3" using assms unfolding out_only_def by metis
  finally show ?thesis by (simp add: out_only_def)
qed

lemma out_only_set_cursor: "out_only s (set_cursor x y s)"
  by (simp add: out_only_def out_update_def set_cursor_def outb_def Let_def)

lemma out_only_text_shift_up: "out_only s (text_shift_up t s)"
  by (simp add: out_only_def out_update_def text_shift_up_def Let_def split: prod.splits)

lemma out_only_new_line: "out_only s (new_line t s)"
  by (simp add: out_only_def out_update_def new_line_def)

lemma out_only_advance: "out_only s (advance t s)"
  by (simp add: out_only_def out_update_def advance_def Let_def)

lemma out_only_poke_cell: "out_only s (poke_cell k t c s)"
  by (simp add: out_only_def out_update_def poke_cell_def Let_def)

lemma out_only_screen_y: "out_only s (s\<lparr>screen_y := y\<rparr>)"
  by (simp add: out_only_def out_update_def)

lemma out_only_scroll_check: "out_only s (scroll_check t s)"
  by (auto simp: scroll_check_def Let_def intro: out_only_trans [OF out_only_text_shift_up out_only_screen_y])

lemma out_only_KBputc: "out_only s (KBputc c s)"
proof -
  let ?t = "currentTerminal s"
  have "out_only s (if c = 10 \<or> c = 13 then new_line ?t s else advance ?t (poke_cell 0 ?t c s))"
    by (simp add: out_only_new_line out_only_trans [OF out_only_poke_cell out_only_advance])
  from out_only_trans [OF out_only_trans [OF this out_only_scroll_check] out_only_set_cursor]
  show ?thesis unfolding KBputc_def Let_def .
qed

lemma out_only_putc_on: "out_only s (putc_on t c s)"
proof -
  let ?p = "if t = currentTerminal s then poke_cell 0 t c (poke_cell (t + 1) t c s) else poke_cell (t + 1) t c s"
  have "out_only s ?p" by (simp add: out_only_poke_cell out_only_trans [OF out_only_poke_cell out_only_poke_cell])
  from out_only_trans [OF this out_only_advance]
  have "out_only s (if c = 10 \<or> c = 13 then new_line t s else advance t ?p)" by (simp add: out_only_new_line)
  from out_only_trans [OF this out_only_scroll_check] show ?thesis
    unfolding putc_on_def Let_def by (auto intro: out_only_trans [OF _ out_only_set_cursor])
qed

lemma out_only_back_char: "out_only s (back_char s)"
proof -
  have "out_only s (s\<lparr>screen_x := x\<rparr>)" "out_only s (s\<lparr>screen_y := y, screen_x := x\<rparr>)" for x y
    by (simp_all add: out_only_def out_update_def)
  then show ?thesis by (auto simp: back_char_def Let_def intro: out_only_trans [OF _ out_only_set_cursor])
qed

lemma out_only_erase_char: "out_only s (erase_char s)"
  unfolding erase_char_def by (blast intro: out_only_trans out_only_back_char out_only_KBputc)

lemma out_only_clear: "out_only s (clear s)"
  by (simp add: out_only_def out_update_def clear_def set_cursor_def outb_def Let_def)

lemma out_only_putc_list: "out_only s (putc_list t cs s)"
  by (induction t cs s rule: putc_list.induct) (auto intro: out_only_trans out_only_putc_on)

lemma out_only_fields:
  assumes "out_only s s'"
  shows "io_in s' = io_in s" "io_pos s' = io_pos s" "if_flag s' = if_flag s" "master_mask s' = master_mask s"
    "slave_mask s' = slave_mask s" "page_directory s' = page_directory s" "kernel_page_table s' = kernel_page_table s"
    "user_page_table s' = user_page_table s" "tlb_dir s' = tlb_dir s" "tlb_kernel s' = tlb_kernel s"
    "tlb_user s' = tlb_user s" "PCB_at s' = PCB_at s" "PCB_ptrs s' = PCB_ptrs s" "cur_pid s' = cur_pid s"
    "curThread s' = curThread s" "currentTerminal s' = currentTerminal s" "process_terminal s' = process_terminal s"
proof -
  obtain m log d x y where "s' = s\<lparr>memory := m, io_out := log, df_flag := d, screen_x := x, screen_y := y\<rparr>"
    using assms unfolding out_only_def out_update_def by blast
  then show "io_in s' = io_in s" "io_pos s' = io_pos s" "if_flag s' = if_flag s" "master_mask s' = master_mask s"
    "slave_mask s' = slave_mask s" "page_directory s' = page_directory s" "kernel_page_table s' = kernel_page_table s"
    "user_page_table s' = user_page_table s" "tlb_dir s' = tlb_dir s" "tlb_kernel s' = tlb_kernel s"
    "tlb_user s' = tlb_user s" "PCB_at s' = PCB_at s" "PCB_ptrs s' = PCB_ptrs s" "cur_pid s' = cur_pid s"
    "curThread s' = curThread s" "currentTerminal s' = currentTerminal s" "process_terminal s' = process_terminal s"
    by (simp_all add: process_terminal_def pcb_of_def pcb_place_def)
qed

lemma out_onlyE:
  assumes "out_only s s'"
  obtains m log d x y where "s' = s\<lparr>memory := m, io_out := log, df_flag := d, screen_x := x, screen_y := y\<rparr>"
  using assms unfolding out_only_def out_update_def by blast

section \<open>Properties\<close>

text \<open>
  C35: \<open>putc\<close> prints on the virtual screen of the running process's terminal and on no other.
  With a running process on terminal \<open>t\<close> it succeeds, terminal \<open>t\<close> changes as the specification
  \<open>vt_put\<close> says (store the cell, advance, wrap at column 80, scroll at row 25, line feed and
  carriage return start a new line), every other terminal is unchanged, and positions stay on
  the screen.  This holds whether or not \<open>t\<close> is the displayed terminal.
\<close>

theorem putc_refines:
  assumes "console_wf s" "process_terminal s = Some t" "t < NUM_TERMINALS" "u < NUM_TERMINALS"
  shows "\<exists>s'. putc c s = Some s' \<and> console_wf s'
     \<and> vterm_of u s' = (if u = t then vt_put c (vterm_of t s) else vterm_of u s)"
  using assms by (auto simp: putc_def putc_on_wf vterm_putc_on)

theorem putc_refines_witness:
  "\<exists>s'. putc 65 demo_console = Some s' \<and> console_wf s'
     \<and> vterm_of 1 s' = vt_put 65 (vterm_of 1 demo_console)"
proof -
  have "console_wf demo_console" "process_terminal demo_console = Some 1"
    by (simp_all add: console_wf_def all_less_3 demo_console_def process_terminal_def pcb_of_def pcb_place_def
        console_demo_simps)
  then show ?thesis using putc_refines [of demo_console 1 1 65] by simp
qed

text \<open>
  \<open>puts\<close> prints the string: for a NUL-terminated string outside video memory it returns, its
  result is the string's length, the running process's virtual screen receives the characters
  one by one and the other terminals are unchanged.
\<close>

theorem puts_prints:
  assumes "console_wf s" "process_terminal s = Some t" "t < NUM_TERMINALS" "u < NUM_TERMINALS"
    and "strlen (view (memory s) p) = Some n" "\<forall>i \<le> n. \<not> in_video (p + of_nat i)"
  shows "\<exists>s'. puts p s = Some (n, s') \<and> console_wf s' \<and>
     vterm_of u s' = (if u = t then fold vt_put (rd_bytes (memory s) p n) (vterm_of u s) else vterm_of u s)"
proof -
  have "puts_loop p 0 s = Some (0 + length (rd_bytes (memory s) p n), putc_list t (rd_bytes (memory s) p n) s)"
    using assms by (intro puts_loop_prints) (auto simp: strlen_iff view_def)
  then show ?thesis using assms by (simp add: puts_def putc_list_wf putc_list_vterm)
qed

theorem puts_prints_witness:
  "\<exists>s'. puts 0x500000 (demo_console\<lparr>memory := (\<lambda>_. 0)(0x500000 := 72, 0x500001 := 105)\<rparr>) = Some (2, s')
     \<and> console_wf s' \<and> vterm_of 2 s' =
       vterm_of 2 (demo_console\<lparr>memory := (\<lambda>_. 0)(0x500000 := 72, 0x500001 := 105)\<rparr>)"
proof -
  let ?s = "demo_console\<lparr>memory := (\<lambda>_. 0)(0x500000 := 72, 0x500001 := 105)\<rparr>"
  have "console_wf ?s" "process_terminal ?s = Some 1"
    by (simp_all add: console_wf_def all_less_3 demo_console_def process_terminal_def pcb_of_def pcb_place_def
        console_demo_simps)
  moreover have "strlen (view (memory ?s) 0x500000) = Some 2"
    by (simp add: strlen_iff view_def less_2_cases_iff)
  moreover have "\<forall>i < 3. \<not> in_video (0x500000 + of_nat i)"
    by (simp add: all_less_3 in_video_def in_region_def)
  ultimately show ?thesis using puts_prints [of ?s 1 2 "0x500000" 2] by simp
qed

text \<open>
  \<open>KBputc\<close>, the keyboard's echo, prints on the virtual screen of the displayed terminal and on
  no other, and leaves the hardware cursor at that screen's position.
\<close>

theorem KBputc_refines:
  assumes "console_wf s" "u < NUM_TERMINALS"
  shows "vterm_of u (KBputc c s) =
       (if u = currentTerminal s then vt_put c (vterm_of u s) else vterm_of u s)
     \<and> console_wf (KBputc c s)
     \<and> vga_cursor (io_out (KBputc c s)) =
         nat (80 * screen_y (KBputc c s) ! currentTerminal s + screen_x (KBputc c s) ! currentTerminal s)"
  using assms cursor_KBputc [of s c] by (simp add: vterm_KBputc KBputc_wf)

theorem KBputc_refines_witness:
  "vterm_of 0 (KBputc 65 demo_console) = vt_put 65 (vterm_of 0 demo_console)
   \<and> console_wf (KBputc 65 demo_console)"
proof -
  have "console_wf demo_console" "currentTerminal demo_console = 0"
    by (simp_all add: console_wf_def all_less_3 demo_console_def console_demo_simps)
  then show ?thesis using KBputc_refines [of demo_console 0 65] by simp
qed

text \<open>
  a backspace undoes a keystroke: \<open>erase_char\<close> after \<open>KBputc\<close> of a printing character gives the
  position back and leaves a blank in the cell, also across a line wrap, unless the character
  was typed in the last cell of the screen and scrolled it.
\<close>

theorem erase_undoes_KBputc:
  assumes "console_wf s" "c \<noteq> 10" "c \<noteq> 13" "t = currentTerminal s"
    and "screen_x s ! t < 79 \<or> screen_y s ! t < 24"
  shows "vterm_of t (erase_char (KBputc c s)) = (vterm_of t s)
      \<lparr>cells := (cells (vterm_of t s))[nat ((80 * screen_y s ! t + screen_x s ! t) * 2) := 32,
                 Suc (nat ((80 * screen_y s ! t + screen_x s ! t) * 2)) := ATTRIB]\<rparr>"
proof -
  have "t < 3" "vt_ok (vterm_of t s)" using assms(1,4) by (simp_all add: console_wf_iff)
  then show ?thesis
    using assms vt_erase_put [of "vterm_of t s" c] by (simp add: vterm_erase_char KBputc_wf vterm_KBputc)
qed

theorem erase_undoes_KBputc_witness:
  "vx (vterm_of 0 (erase_char (KBputc 65 demo_console))) = 0"
proof -
  have "console_wf demo_console" "currentTerminal demo_console = 0"
      "screen_x demo_console = [0, 0, 0]"
    by (simp_all add: console_wf_def all_less_3 demo_console_def console_demo_simps)
  then show ?thesis using erase_undoes_KBputc [of demo_console 65 0] by simp
qed

text \<open>
  \<open>clear\<close> blanks exactly the displayed terminal's virtual screen and puts its position to the
  top left corner.
\<close>

theorem clear_refines:
  assumes "console_wf s" "u < NUM_TERMINALS"
  shows "vterm_of u (clear s) = (if u = currentTerminal s then vt_blank else vterm_of u s)"
  using assms by (rule vterm_clear)

theorem clear_refines_witness:
  "vterm_of 0 (clear demo_console) = vt_blank \<and> vterm_of 2 (clear demo_console) = vterm_of 2 demo_console"
proof -
  have "console_wf demo_console" "currentTerminal demo_console = 0"
    by (simp_all add: console_wf_def all_less_3 demo_console_def console_demo_simps)
  then show ?thesis using clear_refines [of demo_console 0] clear_refines [of demo_console 2] by simp
qed

end
