(* ===== verification/Filesystem.thy ===== *)
theory Filesystem
  imports Console
begin

unbundle bit_operations_syntax

text \<open>
  The read-only file system of \<^verbatim>\<open>filesystem.c\<close>: the image the boot loader leaves in memory (a boot
  block with the directory, one block per inode, the data blocks), directory lookup by name and
  by index, and \<open>read_data\<close>, which copies a slice of a file block by block.

  The image stays in raw memory and the structs are read from it at their offsets.  An
  out-parameter \<^verbatim>\<open>dentry_t*\<close> is an option: None is the null pointer, Some the struct it points to.
  A data block index beyond the inode's 1023 entries reads outside the struct and has no value.
\<close>

abbreviation (input) MAX_FILENAME_LENGTH :: nat where "MAX_FILENAME_LENGTH \<equiv> 32"
abbreviation (input) FILESYSTEM_BLOCKSIZE :: u32 where "FILESYSTEM_BLOCKSIZE \<equiv> 4096"
abbreviation (input) NUM_DATABLOCKS_PER_INODE :: nat where "NUM_DATABLOCKS_PER_INODE \<equiv> 1023"

record dentry =
  fileName :: "byte list"
  fileType :: u32
  inodeNum :: u32
  reserved24 :: "u32 list"

record inode =
  inode_length :: u32
  dataBlocks :: "u32 list"

record fs = console +
  bootMemAddr :: u32

section \<open>Reading the image\<close>

definition numDirectories :: "mem \<Rightarrow> u32 \<Rightarrow> u32" where
  "numDirectories m boot = ld32 m boot"

definition numInodes :: "mem \<Rightarrow> u32 \<Rightarrow> u32" where
  "numInodes m boot = ld32 m (boot + 4)"

definition numDataBlocks :: "mem \<Rightarrow> u32 \<Rightarrow> u32" where
  "numDataBlocks m boot = ld32 m (boot + 8)"

definition dentry_addr :: "u32 \<Rightarrow> u32 \<Rightarrow> u32" where
  "dentry_addr boot i = boot + 64 + 64 * i"

definition ld_dentry :: "mem \<Rightarrow> u32 \<Rightarrow> dentry" where
  "ld_dentry m p =
    \<lparr>fileName = rd_bytes m p MAX_FILENAME_LENGTH, fileType = ld32 m (p + 32), inodeNum = ld32 m (p + 36),
     reserved24 = map (\<lambda>k. ld32 m (p + 40 + of_nat (4 * k))) [0..<6]\<rparr>"

definition ld_inode :: "mem \<Rightarrow> u32 \<Rightarrow> inode" where
  "ld_inode m p =
    \<lparr>inode_length = ld32 m p,
     dataBlocks = map (\<lambda>k. ld32 m (p + 4 + of_nat (4 * k))) [0..<NUM_DATABLOCKS_PER_INODE]\<rparr>"

section \<open>Operations\<close>

function find_dentry :: "(nat \<Rightarrow> byte) \<Rightarrow> mem \<Rightarrow> u32 \<Rightarrow> nat \<Rightarrow> dentry option" where
  "find_dentry fname m boot i =
    (if i < unat (numDirectories m boot) then
       if strncmp fname (view m (dentry_addr boot (of_nat i))) MAX_FILENAME_LENGTH = 0
       then Some (ld_dentry m (dentry_addr boot (of_nat i)))
       else find_dentry fname m boot (Suc i)
     else None)"
  by pat_completeness auto
termination
  by (relation "measure (\<lambda>(fname, m, boot, i). unat (numDirectories m boot) - i)") auto

declare find_dentry.simps [simp del]

definition read_dentry_by_name ::
    "(nat \<Rightarrow> byte) \<Rightarrow> dentry option \<Rightarrow> 'a fs_scheme \<Rightarrow> int \<times> dentry option" where
  "read_dentry_by_name fname dst s =
    (if dst = None then (ERROR_VAL, dst)
     else case find_dentry fname (memory s) (bootMemAddr s) 0 of
       Some d \<Rightarrow> (0, Some d)
     | None \<Rightarrow> (ERROR_VAL, dst))"

definition read_dentry_by_index :: "u32 \<Rightarrow> dentry option \<Rightarrow> 'a fs_scheme \<Rightarrow> int \<times> dentry option" where
  "read_dentry_by_index index dst s =
    (if dst = None then (ERROR_VAL, dst)
     else if index \<ge> numDirectories (memory s) (bootMemAddr s) then (ERROR_VAL, dst)
     else (0, Some (ld_dentry (memory s) (dentry_addr (bootMemAddr s) index))))"

text \<open>The copy loop; \<open>fileInode\<close> is the local copy of the inode made before the loop.\<close>

partial_function (option) read_data_loop ::
    "inode \<Rightarrow> u32 \<Rightarrow> u32 \<Rightarrow> u32 \<Rightarrow> u32 \<Rightarrow> u32 \<Rightarrow> u32 \<Rightarrow> mem \<Rightarrow> (u32 \<times> mem) option" where
  "read_data_loop fileInode boot buf copyLength bytesCopied dataBlockIndex dataBlockOffset m =
    (if bytesCopied < copyLength then
       if unat dataBlockIndex < NUM_DATABLOCKS_PER_INODE then
         let copy_start = boot + FILESYSTEM_BLOCKSIZE * (numInodes m boot + 1 +
               dataBlocks fileInode ! unat dataBlockIndex) + dataBlockOffset;
             copy_len = min (FILESYSTEM_BLOCKSIZE - dataBlockOffset) (copyLength - bytesCopied);
             m = memcpy m (buf + bytesCopied) copy_start copy_len
         in read_data_loop fileInode boot buf copyLength (bytesCopied + copy_len) (dataBlockIndex + 1) 0 m
       else None
     else Some (bytesCopied, m))"

definition read_data :: "u32 \<Rightarrow> u32 \<Rightarrow> u32 \<Rightarrow> u32 \<Rightarrow> 'a fs_scheme \<Rightarrow> (int \<times> 'a fs_scheme) option" where
  "read_data inode offset buf len s =
    (let m = memory s; boot = bootMemAddr s in
     if buf = 0 then Some (ERROR_VAL, s)
     else if inode \<ge> numInodes m boot then Some (ERROR_VAL, s)
     else
       let fileInode = ld_inode m (boot + FILESYSTEM_BLOCKSIZE * (inode + 1)) in
       if offset = inode_length fileInode then Some (0, s)
       else if offset > inode_length fileInode then Some (ERROR_VAL, s)
       else do {
         (bytesCopied, m') \<leftarrow> read_data_loop fileInode boot buf
            (min len (inode_length fileInode - offset)) 0
            (offset div FILESYSTEM_BLOCKSIZE) (offset mod FILESYSTEM_BLOCKSIZE) m;
         Some (sint bytesCopied, with_memory m' s)
       })"

definition fileSysInit :: "u32 \<Rightarrow> 'a fs_scheme \<Rightarrow> 'a fs_scheme" where
  "fileSysInit mod_start s = s\<lparr>bootMemAddr := mod_start\<rparr>"

definition fileOpen :: "'a fs_scheme \<Rightarrow> int \<times> 'a fs_scheme" where
  "fileOpen s = (0, s)"

definition fileWrite :: "'a fs_scheme \<Rightarrow> int \<times> 'a fs_scheme" where
  "fileWrite s = (ERROR_VAL, s)"

definition fileClose :: "'a fs_scheme \<Rightarrow> int \<times> 'a fs_scheme" where
  "fileClose s = (0, s)"

definition directoryOpen :: "'a fs_scheme \<Rightarrow> int \<times> 'a fs_scheme" where
  "directoryOpen s = (0, s)"

definition directoryWrite :: "'a fs_scheme \<Rightarrow> int \<times> 'a fs_scheme" where
  "directoryWrite s = (ERROR_VAL, s)"

definition directoryClose :: "'a fs_scheme \<Rightarrow> int \<times> 'a fs_scheme" where
  "directoryClose s = (0, s)"

text \<open>The local \<^verbatim>\<open>dentry\<close> is uninitialised before the lookup fills it: a parameter.\<close>

definition fileReadIdx ::
    "dentry \<Rightarrow> u32 \<Rightarrow> u32 \<Rightarrow> u32 \<Rightarrow> 'a fs_scheme \<Rightarrow> (int \<times> 'a fs_scheme) option" where
  "fileReadIdx dentry_init index buf nbytes s =
    (case read_dentry_by_index index (Some dentry_init) s of
       (r, d) \<Rightarrow> if r \<noteq> 0 then Some (ERROR_VAL, s) else read_data (inodeNum (the d)) 0 buf nbytes s)"

section \<open>Specification\<close>

text \<open>
  The directory as a list of entries, the name of an entry (its bytes before the first NUL, at
  most 32), and the contents of a file as a list of bytes.
\<close>

definition directory :: "mem \<Rightarrow> u32 \<Rightarrow> dentry list" where
  "directory m boot =
    map (\<lambda>i. ld_dentry m (dentry_addr boot (of_nat i))) [0..<unat (numDirectories m boot)]"

definition name_of :: "dentry \<Rightarrow> byte list" where
  "name_of d = takeWhile (\<lambda>b. b \<noteq> 0) (fileName d)"

definition inode_at :: "mem \<Rightarrow> u32 \<Rightarrow> u32 \<Rightarrow> inode" where
  "inode_at m boot n = ld_inode m (boot + FILESYSTEM_BLOCKSIZE * (n + 1))"

definition file_byte :: "mem \<Rightarrow> u32 \<Rightarrow> inode \<Rightarrow> nat \<Rightarrow> byte" where
  "file_byte m boot nd i =
    m (boot + FILESYSTEM_BLOCKSIZE * (numInodes m boot + 1 + dataBlocks nd ! (i div 4096)) + of_nat (i mod 4096))"

definition file_data :: "mem \<Rightarrow> u32 \<Rightarrow> u32 \<Rightarrow> byte list" where
  "file_data m boot n =
    (let nd = inode_at m boot n in map (file_byte m boot nd) [0..<unat (inode_length nd)])"

text \<open>
  A sound image: it fits below the top of memory, and each file's blocks lie inside the image.
  \<open>image_size\<close> is its size in bytes.
\<close>

definition image_size :: "mem \<Rightarrow> u32 \<Rightarrow> nat" where
  "image_size m boot = 4096 * (1 + unat (numInodes m boot) + unat (numDataBlocks m boot))"

definition inode_ok :: "mem \<Rightarrow> u32 \<Rightarrow> inode \<Rightarrow> bool" where
  "inode_ok m boot nd \<longleftrightarrow> unat (inode_length nd) \<le> 4096 * NUM_DATABLOCKS_PER_INODE
     \<and> (\<forall>k < NUM_DATABLOCKS_PER_INODE. 4096 * k < unat (inode_length nd)
          \<longrightarrow> dataBlocks nd ! k < numDataBlocks m boot)"

definition image_ok :: "mem \<Rightarrow> u32 \<Rightarrow> bool" where
  "image_ok m boot \<longleftrightarrow> unat boot + image_size m boot \<le> 2 ^ 32
     \<and> (\<forall>n < unat (numInodes m boot). inode_ok m boot (inode_at m boot (of_nat n)))"

text \<open>A small image for concrete evaluations: one file, \<open>abc\<close>, holding five bytes.\<close>

definition demo_image :: mem where
  "demo_image = (\<lambda>_. 0)(0x500000 := 1, 0x500004 := 1, 0x500008 := 1,
     0x500040 := 97, 0x500041 := 98, 0x500042 := 99, 0x500060 := 2,
     0x501000 := 5,
     0x502000 := 104, 0x502001 := 101, 0x502002 := 108, 0x502003 := 108, 0x502004 := 111)"

definition demo_fs :: fs where
  "demo_fs = (console.extend demo_console (fs.fields 0x500000))\<lparr>memory := demo_image\<rparr>"

section \<open>read_data copies a slice of the file\<close>

lemma ld32_wr_disjoint:
  assumes "disjoint_regions p (length bs) q n" "d + 4 \<le> n" "length bs \<le> 2 ^ 32" "n \<le> 2 ^ 32"
  shows "ld32 (wr_bytes m p bs) (q + of_nat d) = ld32 m (q + of_nat d)"
proof (rule ld32_cong)
  fix i :: nat assume "i < 4"
  then have "\<not> in_region p (length bs) (q + of_nat (d + i))"
    using assms by (intro disjoint_not_in_region [OF assms(1)]) auto
  then show "wr_bytes m p bs (q + of_nat d + of_nat i) = m (q + of_nat d + of_nat i)"
    by (simp add: wr_bytes_outside add.assoc)
qed

lemma image_header_wr:
  assumes "disjoint_regions p (length bs) boot (image_size m boot)" "length bs \<le> 2 ^ 32"
    and "image_size m boot \<le> 2 ^ 32"
  shows "numInodes (wr_bytes m p bs) boot = numInodes m boot"
  using ld32_wr_disjoint [OF assms(1), of 4 m] assms by (simp add: numInodes_def image_size_def)

text \<open>One block of the loop: the bytes at the source address are the next bytes of the file.\<close>

lemma block_bytes:
  assumes "idx * 4096 + q = k" "q + c \<le> 4096"
  shows "rd_bytes m (boot + 4096 * (numInodes m boot + 1 + dataBlocks nd ! idx) + of_nat q) c =
    map (file_byte m boot nd) [k..<k + c]"
proof (rule nth_equalityI)
  fix i assume "i < length (rd_bytes m (boot + 4096 * (numInodes m boot + 1 + dataBlocks nd ! idx) + of_nat q) c)"
  then have i: "i < c" by simp
  have "(idx * 4096 + r) div 4096 = idx" "(idx * 4096 + r) mod 4096 = r" if "r < 4096" for r
    using that by simp_all
  then have "(k + i) div 4096 = idx" "(k + i) mod 4096 = q + i"
    using i assms by (metis add.assoc add_less_cancel_left less_le_trans)+
  with i show "rd_bytes m (boot + 4096 * (numInodes m boot + 1 + dataBlocks nd ! idx) + of_nat q) c ! i =
      map (file_byte m boot nd) [k..<k + c] ! i"
    by (simp add: file_byte_def add.assoc)
qed simp

lemma block_in_image:
  assumes "inode_ok m boot nd" "4096 * idx < unat (inode_length nd)" "idx < 1023" "q + c \<le> 4096"
  obtains d where "boot + 4096 * (numInodes m boot + 1 + dataBlocks nd ! idx) + of_nat q = boot + of_nat d"
    and "d + c \<le> image_size m boot"
proof
  let ?d = "4096 * (unat (numInodes m boot) + 1 + unat (dataBlocks nd ! idx)) + q"
  have "dataBlocks nd ! idx < numDataBlocks m boot" using assms by (simp add: inode_ok_def)
  then have "unat (dataBlocks nd ! idx) + 1 \<le> unat (numDataBlocks m boot)" by (simp add: word_less_nat_alt)
  then show "?d + c \<le> image_size m boot" using assms(4) by (simp add: image_size_def)
  show "boot + 4096 * (numInodes m boot + 1 + dataBlocks nd ! idx) + of_nat q = boot + of_nat ?d"
    by (simp add: algebra_simps)
qed

lemma read_data_step:
  assumes "image_size m boot \<le> 2 ^ 32" "inode_ok m boot nd"
    and "disjoint_regions buf n boot (image_size m boot)" "n < 2 ^ 32"
    and "o0 + n \<le> unat (inode_length nd)"
    and "idx * 4096 + q = o0 + bc" "q + c \<le> 4096" "bc + c \<le> n" "bc < n"
  defines "D \<equiv> map (file_byte m boot nd) [o0..<o0 + n]"
  shows "memcpy (wr_bytes m buf (take bc D)) (buf + of_nat bc)
      (boot + 4096 * (numInodes m boot + 1 + dataBlocks nd ! idx) + of_nat q) (of_nat c)
    = wr_bytes m buf (take (bc + c) D)"
proof -
  let ?src = "boot + 4096 * (numInodes m boot + 1 + dataBlocks nd ! idx) + of_nat q"
  have len: "unat (inode_length nd) \<le> 4096 * 1023" using assms(2) by (simp add: inode_ok_def)
  have idx: "4096 * idx < unat (inode_length nd)" "idx < 1023" using assms(5,6,9) len by simp_all
  obtain d where d: "?src = boot + of_nat d" "d + c \<le> image_size m boot"
    using block_in_image [OF assms(2) idx assms(7)] .
  have D: "length D = n" by (simp add: D_def)
  have c: "unat (of_nat c :: u32) = c" using assms(7) by (intro unat_of_nat_32) simp
  have "disjoint_regions (buf + of_nat bc) c ?src c"
    unfolding d using assms by (intro disjoint_regions_part [OF assms(3)] d(2)) auto
  then have "memcpy (wr_bytes m buf (take bc D)) (buf + of_nat bc) ?src (of_nat c)
      = wr_bytes (wr_bytes m buf (take bc D)) (buf + of_nat bc) (rd_bytes (wr_bytes m buf (take bc D)) ?src c)"
    by (simp add: memcpy_copy c copy_bytes_def)
  also have "rd_bytes (wr_bytes m buf (take bc D)) ?src c = rd_bytes m ?src c"
  proof (rule rd_wr_disjoint)
    have "disjoint_regions (buf + of_nat 0) (length (take bc D)) (boot + of_nat d) c"
      using assms D d by (intro disjoint_regions_part [OF assms(3)]) auto
    then show "disjoint_regions buf (length (take bc D)) ?src c" unfolding d by simp
  qed (use assms D in auto)
  also have "rd_bytes m ?src c = take c (drop bc D)"
    using block_bytes [OF assms(6,7), of m boot nd] assms(8)
    by (simp add: D_def drop_map take_map add.assoc)
  also have "wr_bytes (wr_bytes m buf (take bc D)) (buf + of_nat bc) (take c (drop bc D))
      = wr_bytes m buf (take (bc + c) D)"
    using wr_bytes_append [of "take bc D" "take c (drop bc D)" m buf] assms D by (simp add: take_add)
  finally show ?thesis .
qed

text \<open>The sizes of the code's machine words in one pass of the loop.\<close>

lemma read_data_words:
  fixes CL :: u32
  assumes "q < 4096" "bc < unat CL"
  shows "min (4096 - of_nat q) (CL - of_nat bc) = of_nat (min (4096 - q) (unat CL - bc))"
proof -
  have q: "unat (4096 - of_nat q :: u32) = 4096 - q"
  proof -
    have "(4096 - of_nat q :: u32) = of_nat (4096 - q)" using assms by (simp add: of_nat_diff)
    then show ?thesis using assms by (simp only:) (rule unat_of_nat_32, simp)
  qed
  have "CL - of_nat bc = of_nat (unat CL - bc)" using assms by (simp add: of_nat_diff)
  then have b: "unat (CL - of_nat bc) = unat CL - bc"
    using assms unat_lt_2p32 [of CL] by (simp only:) (rule unat_of_nat_32, simp)
  have "unat (min (4096 - of_nat q) (CL - of_nat bc)) = min (4096 - q) (unat CL - bc)"
    by (simp add: min_def word_le_nat_alt q b)
  from arg_cong [OF this, of "of_nat :: nat \<Rightarrow> u32"] show ?thesis by simp
qed

lemma read_data_loop_copies:
  fixes CL :: u32
  assumes img: "image_size m boot \<le> 2 ^ 32" "inode_ok m boot nd"
    and dis: "disjoint_regions buf (unat CL) boot (image_size m boot)"
    and rng: "o0 + unat CL \<le> unat (inode_length nd)"
    and pos: "idx * 4096 + q = o0 + bc" "q < 4096" "bc < unat CL"
  defines "D \<equiv> map (file_byte m boot nd) [o0..<o0 + unat CL]"
  shows "read_data_loop nd boot buf CL (of_nat bc) (of_nat idx) (of_nat q) (wr_bytes m buf (take bc D))
     = Some (CL, wr_bytes m buf D)"
  using pos
proof (induction "unat CL - bc" arbitrary: bc idx q rule: less_induct)
  case less
  let ?m = "wr_bytes m buf (take bc D)" and ?c = "min (4096 - q) (unat CL - bc)"
  have CL: "unat CL < 2 ^ 32" by (rule unat_lt_2p32)
  have D: "length D = unat CL" by (simp add: D_def)
  have len: "unat (inode_length nd) \<le> 4096 * 1023" using img(2) by (simp add: inode_ok_def)
  have idx: "idx < 1023" using less.prems rng len by simp
  have uidx: "unat (of_nat idx :: u32) = idx" using idx by (intro unat_of_nat_32) simp
  have lt: "(of_nat bc :: u32) < CL"
    using less.prems CL by (simp add: word_less_nat_alt unat_of_nat_32)
  have ni: "numInodes ?m boot = numInodes m boot"
    using disjoint_regions_subset [OF dis, of bc] less.prems CL img(1) D by (intro image_header_wr) auto
  have step: "memcpy ?m (buf + of_nat bc)
      (boot + 4096 * (numInodes m boot + 1 + dataBlocks nd ! idx) + of_nat q) (of_nat ?c)
    = wr_bytes m buf (take (bc + ?c) D)"
    unfolding D_def using less.prems by (intro read_data_step [OF img dis CL rng]) auto
  have "read_data_loop nd boot buf CL (of_nat bc) (of_nat idx) (of_nat q) ?m =
      read_data_loop nd boot buf CL (of_nat (bc + ?c)) (of_nat (Suc idx)) 0 (wr_bytes m buf (take (bc + ?c) D))"
    using lt idx step read_data_words [OF less.prems(2,3)]
    by (subst read_data_loop.simps) (simp add: Let_def uidx ni add.commute)
  also have "\<dots> = Some (CL, wr_bytes m buf D)"
  proof (cases "unat CL - bc \<le> 4096 - q")
    case True
    then have "bc + ?c = unat CL" using less.prems by simp
    then show ?thesis using D by (subst read_data_loop.simps) simp
  next
    case False
    then have "read_data_loop nd boot buf CL (of_nat (bc + ?c)) (of_nat (Suc idx)) (of_nat 0)
        (wr_bytes m buf (take (bc + ?c) D)) = Some (CL, wr_bytes m buf D)"
      using less.prems by (intro less.hyps) auto
    then show ?thesis by simp
  qed
  finally show ?case .
qed

lemma read_data_slice:
  fixes n offset buf len :: u32 and s :: "'a fs_scheme"
  assumes "image_ok (memory s) (bootMemAddr s)" "n < numInodes (memory s) (bootMemAddr s)" "buf \<noteq> 0"
    and "offset < inode_length (inode_at (memory s) (bootMemAddr s) n)"
    and "disjoint_regions buf (unat len) (bootMemAddr s) (image_size (memory s) (bootMemAddr s))"
  defines "data \<equiv> take (unat len) (drop (unat offset) (file_data (memory s) (bootMemAddr s) n))"
  shows "read_data n offset buf len s = Some (int (length data), with_memory (wr_bytes (memory s) buf data) s)"
proof -
  let ?m = "memory s" and ?b = "bootMemAddr s"
  let ?nd = "inode_at ?m ?b n"
  define CL where "CL = min len (inode_length ?nd - offset)"
  have img: "image_size ?m ?b \<le> 2 ^ 32" using assms(1) by (simp add: image_ok_def)
  have ok: "inode_ok ?m ?b ?nd"
  proof -
    have "inode_ok ?m ?b (inode_at ?m ?b (of_nat (unat n)))"
      using assms(1,2) unfolding image_ok_def word_less_nat_alt by blast
    then show ?thesis by simp
  qed
  have "unat (inode_length ?nd - offset) = unat (inode_length ?nd) - unat offset"
    using assms(4) by (simp add: unat_sub)
  then have CL: "unat CL = min (unat len) (unat (inode_length ?nd) - unat offset)"
    by (simp add: CL_def min_def word_le_nat_alt)
  have small: "unat (inode_length ?nd) \<le> 4096 * 1023" using ok by (simp add: inode_ok_def)
  have off: "unat offset < unat (inode_length ?nd)" using assms(4) by (simp add: word_less_nat_alt)
  have data: "data = map (file_byte ?m ?b ?nd) [unat offset..<unat offset + unat CL]"
    using off by (simp add: data_def file_data_def Let_def drop_map take_map CL min_def)
  have dis: "disjoint_regions buf (unat CL) ?b (image_size ?m ?b)"
    by (rule disjoint_regions_subset [OF assms(5)]) (simp_all add: CL)
  have dm: "(offset div 4096 :: u32) = of_nat (unat offset div 4096)" "(offset mod 4096 :: u32) = of_nat (unat offset mod 4096)"
    using arg_cong [OF unat_div [of offset 4096], of "of_nat :: nat \<Rightarrow> u32"]
      arg_cong [OF unat_mod [of offset 4096], of "of_nat :: nat \<Rightarrow> u32"] by simp_all
  have loop: "read_data_loop ?nd ?b buf CL 0 (offset div 4096) (offset mod 4096) ?m = Some (CL, wr_bytes ?m buf data)"
  proof (cases "unat CL = 0")
    case True
    then show ?thesis by (subst read_data_loop.simps) (simp add: data unat_eq_0)
  next
    case False
    then show ?thesis
      using read_data_loop_copies [OF img ok dis, of "unat offset" "unat offset div 4096" "unat offset mod 4096" 0] off
      by (simp add: data dm CL)
  qed
  have "sint CL = int (unat CL)"
    using small CL by (intro sint_small) simp
  moreover have nd: "ld_inode ?m (?b + 4096 * (n + 1)) = ?nd" by (simp only: inode_at_def)
  moreover have "\<not> numInodes ?m ?b \<le> n" "offset \<noteq> inode_length ?nd" "\<not> inode_length ?nd < offset"
    using assms(2,4) by auto
  ultimately show ?thesis
    using assms(3) loop unfolding read_data_def Let_def nd CL_def by (simp add: data CL_def)
qed

section \<open>Directory lookup\<close>

lemma name_of_ld_dentry: "name_of (ld_dentry m p) = cstr_n (view m p) 32"
  by (simp add: name_of_def ld_dentry_def cstr_n_def rd_bytes_def)

lemma find_dentry_find:
  "find_dentry fname m boot i = find (\<lambda>d. name_of d = cstr_n fname 32) (drop i (directory m boot))"
proof (induction fname m boot i rule: find_dentry.induct)
  case (1 fname m boot i)
  show ?case
  proof (cases "i < unat (numDirectories m boot)")
    case True
    then have "drop i (directory m boot) =
        ld_dentry m (dentry_addr boot (of_nat i)) # drop (Suc i) (directory m boot)"
      by (subst Cons_nth_drop_Suc [symmetric]) (simp_all add: directory_def)
    with True 1 show ?thesis
      by (subst find_dentry.simps) (auto simp: strncmp_eq_0_iff name_of_ld_dentry)
  next
    case False
    then show ?thesis by (subst find_dentry.simps) (simp add: directory_def)
  qed
qed

lemma read_dentry_by_name_find:
  "read_dentry_by_name fname (Some d0) s =
    (case find (\<lambda>d. name_of d = cstr_n fname 32) (directory (memory s) (bootMemAddr s)) of
       Some d \<Rightarrow> (0, Some d) | None \<Rightarrow> (ERROR_VAL, Some d0))"
  by (simp add: read_dentry_by_name_def find_dentry_find)

lemma read_dentry_by_index_nth:
  "read_dentry_by_index i (Some d0) s =
    (if unat i < length (directory (memory s) (bootMemAddr s))
     then (0, Some (directory (memory s) (bootMemAddr s) ! unat i)) else (ERROR_VAL, Some d0))"
  by (auto simp: read_dentry_by_index_def directory_def not_le word_less_nat_alt word_le_nat_alt)

lemma find_distinct:
  assumes "distinct (map f xs)" "i < length xs"
  shows "find (\<lambda>x. f x = f (xs ! i)) xs = Some (xs ! i)"
proof -
  have "\<And>j. j < i \<Longrightarrow> f (xs ! j) \<noteq> f (xs ! i)"
    using assms by (metis distinct_conv_nth length_map less_irrefl less_trans nth_map)
  then show ?thesis using assms(2) by (auto simp: find_Some_iff)
qed

section \<open>The demonstration image\<close>

lemma demo_fs_sel: "memory demo_fs = demo_image" "bootMemAddr demo_fs = 0x500000"
  by (simp_all add: demo_fs_def console.extend_def fs.fields_def)

lemma demo_counts:
  "numDirectories demo_image 0x500000 = 1" "numInodes demo_image 0x500000 = 1"
  "numDataBlocks demo_image 0x500000 = 1"
  by (simp_all add: numDirectories_def numInodes_def numDataBlocks_def ld32_def demo_image_def)

lemma demo_inode: "inode_length (inode_at demo_image 0x500000 0) = 5"
    "dataBlocks (inode_at demo_image 0x500000 0) ! 0 = 0"
  by (simp_all add: inode_at_def ld_inode_def ld32_def demo_image_def)

lemma demo_image_ok: "image_ok demo_image 0x500000"
proof -
  have "dataBlocks (inode_at demo_image 0x500000 0) ! k = 0" if "4096 * k < (5 :: nat)" for k
    using that demo_inode(2) by (cases k) simp_all
  then show ?thesis using demo_inode by (auto simp: image_ok_def image_size_def demo_counts inode_ok_def)
qed

lemma demo_file: "file_data demo_image 0x500000 0 = [104, 101, 108, 108, 111]"
  by (simp add: file_data_def Let_def demo_inode upt_rec file_byte_def demo_counts)
    (simp add: demo_image_def)

lemma read_data_at_end:
  assumes "buf \<noteq> 0" "n < numInodes (memory s) (bootMemAddr s)"
    and "offset = inode_length (inode_at (memory s) (bootMemAddr s) n)"
  shows "read_data n offset buf len s = Some (0, s)"
proof -
  have nd: "ld_inode (memory s) (bootMemAddr s + 4096 * (n + 1)) = inode_at (memory s) (bootMemAddr s) n"
    by (simp only: inode_at_def)
  show ?thesis unfolding read_data_def Let_def nd using assms by auto
qed

section \<open>The image is read only\<close>

text \<open>Two memories with the same image: whatever else changed, the file system is the same.\<close>

definition same_image :: "u32 \<Rightarrow> mem \<Rightarrow> mem \<Rightarrow> bool" where
  "same_image boot m m' \<longleftrightarrow> (\<forall>d < image_size m boot. m' (boot + of_nat d) = m (boot + of_nat d))"

lemma same_image_refl [simp]: "same_image boot m m"
  by (simp add: same_image_def)

lemma same_image_ld32:
  assumes "same_image boot m m'" "d + 4 \<le> image_size m boot"
  shows "ld32 m' (boot + of_nat d) = ld32 m (boot + of_nat d)"
proof (rule ld32_cong)
  fix i :: nat assume "i < 4"
  then have "m' (boot + of_nat (d + i)) = m (boot + of_nat (d + i))"
    using assms by (auto simp: same_image_def simp del: of_nat_add)
  then show "m' (boot + of_nat d + of_nat i) = m (boot + of_nat d + of_nat i)" by (simp add: add.assoc)
qed

lemma same_image_header:
  assumes "same_image boot m m'"
  shows "numDirectories m' boot = numDirectories m boot" "numInodes m' boot = numInodes m boot"
    "numDataBlocks m' boot = numDataBlocks m boot" "image_size m' boot = image_size m boot"
proof -
  have "4 * k + 4 \<le> image_size m boot" if "k < 3" for k using that by (simp add: image_size_def)
  from same_image_ld32 [OF assms this [of 0]] same_image_ld32 [OF assms this [of 1]] same_image_ld32 [OF assms this [of 2]]
  show "numDirectories m' boot = numDirectories m boot" "numInodes m' boot = numInodes m boot"
    "numDataBlocks m' boot = numDataBlocks m boot"
    by (simp_all add: numDirectories_def numInodes_def numDataBlocks_def)
  then show "image_size m' boot = image_size m boot" by (simp add: image_size_def)
qed

lemma same_image_inode:
  assumes "same_image boot m m'" "n < numInodes m boot"
  shows "inode_at m' boot n = inode_at m boot n"
proof -
  have n: "unat n < unat (numInodes m boot)" using assms(2) by (simp add: word_less_nat_alt)
  have addr: "boot + 4096 * (n + 1) + of_nat j = boot + of_nat (4096 * (unat n + 1) + j)" for j
    by (simp add: algebra_simps)
  have ld: "ld32 m' (boot + 4096 * (n + 1) + of_nat j) = ld32 m (boot + 4096 * (n + 1) + of_nat j)" if "j + 4 \<le> 4096" for j
    unfolding addr using that n by (intro same_image_ld32 [OF assms(1)]) (simp add: image_size_def)
  have "ld32 m' (boot + 4096 * (n + 1) + 4 + of_nat (4 * k)) = ld32 m (boot + 4096 * (n + 1) + 4 + of_nat (4 * k))" if "k < 1023" for k
    using ld [of "4 + 4 * k"] that by (simp add: add.assoc)
  with ld [of 0] show ?thesis by (simp add: inode_at_def ld_inode_def)
qed

lemma same_image_file:
  assumes "same_image boot m m'" "image_ok m boot" "n < numInodes m boot"
  shows "file_data m' boot n = file_data m boot n"
proof -
  let ?nd = "inode_at m boot n"
  have "inode_ok m boot (inode_at m boot (of_nat (unat n)))"
    using assms(2,3) unfolding image_ok_def word_less_nat_alt by blast
  then have ok: "inode_ok m boot ?nd" by simp
  have "file_byte m' boot ?nd i = file_byte m boot ?nd i" if "i < unat (inode_length ?nd)" for i
  proof -
    have small: "unat (inode_length ?nd) \<le> 4096 * 1023" using ok by (simp add: inode_ok_def)
    have "i mod 4096 < 4096" by simp
    then have m: "i mod 4096 + 1 \<le> 4096" by linarith
    have idx: "4096 * (i div 4096) < unat (inode_length ?nd)" "i div 4096 < 1023" using that small by auto
    obtain d where d: "boot + 4096 * (numInodes m boot + 1 + dataBlocks ?nd ! (i div 4096)) + of_nat (i mod 4096) = boot + of_nat d"
        "d + 1 \<le> image_size m boot"
      using block_in_image [OF ok idx m] .
    have "m' (boot + of_nat d) = m (boot + of_nat d)" using assms(1) d(2) by (simp add: same_image_def)
    then show ?thesis unfolding file_byte_def same_image_header [OF assms(1)] d(1) .
  qed
  then show ?thesis by (simp add: file_data_def Let_def same_image_inode [OF assms(1,3)])
qed

lemma same_image_ok:
  assumes "same_image boot m m'" "image_ok m boot"
  shows "image_ok m' boot"
proof -
  have "inode_at m' boot (of_nat n) = inode_at m boot (of_nat n)" if "n < unat (numInodes m boot)" for n
    using that unat_lt_2p32 [of "numInodes m boot"]
    by (intro same_image_inode [OF assms(1)]) (simp add: word_less_nat_alt unat_of_nat_32)
  then show ?thesis using assms(2) by (simp add: image_ok_def inode_ok_def same_image_header [OF assms(1)])
qed

lemma same_image_directory:
  assumes "same_image boot m m'" "numDirectories m boot \<le> 63"
  shows "directory m' boot = directory m boot"
proof -
  have "ld_dentry m' (dentry_addr boot (of_nat i)) = ld_dentry m (dentry_addr boot (of_nat i))"
    if i: "i < unat (numDirectories m boot)" for i
  proof -
    have i: "i < 63" using i assms(2) by (simp add: word_le_nat_alt)
    have addr: "dentry_addr boot (of_nat i) + of_nat j = boot + of_nat (64 + 64 * i + j)" for j
      by (simp add: dentry_addr_def algebra_simps)
    have b: "m' (dentry_addr boot (of_nat i) + of_nat j) = m (dentry_addr boot (of_nat i) + of_nat j)" if "j < 64" for j
      unfolding addr using assms(1) that i by (auto simp: same_image_def image_size_def simp del: of_nat_add of_nat_mult)
    have w: "ld32 m' (dentry_addr boot (of_nat i) + of_nat j) = ld32 m (dentry_addr boot (of_nat i) + of_nat j)" if "j + 4 \<le> 64" for j
      unfolding addr using that i by (intro same_image_ld32 [OF assms(1)]) (simp add: image_size_def)
    have "ld32 m' (dentry_addr boot (of_nat i) + 40 + of_nat (4 * k)) = ld32 m (dentry_addr boot (of_nat i) + 40 + of_nat (4 * k))" if "k < 6" for k
      using w [of "40 + 4 * k"] that by (simp add: add.assoc)
    with w [of 32] w [of 36] b show ?thesis by (auto simp: ld_dentry_def intro!: rd_bytes_cong)
  qed
  then show ?thesis by (simp add: directory_def same_image_header [OF assms(1)])
qed

text \<open>
  Where the boot loader puts the image: inside the 4MB page of the kernel, the only place where
  the kernel can reach it.
\<close>

definition image_placed :: "'a fs_scheme \<Rightarrow> bool" where
  "image_placed s \<longleftrightarrow> image_ok (memory s) (bootMemAddr s) \<and> numDirectories (memory s) (bootMemAddr s) \<le> 63
     \<and> 0x400000 \<le> bootMemAddr s \<and> unat (bootMemAddr s) + image_size (memory s) (bootMemAddr s) \<le> 0x800000"

lemma image_disjoint:
  assumes "image_placed s" "0x800000 \<le> unat p" "unat p + n \<le> 2 ^ 32"
  shows "disjoint_regions p n (bootMemAddr s) (image_size (memory s) (bootMemAddr s))"
proof (rule disjoint_regionsI)
  fix i j assume i: "i < n" and j: "j < image_size (memory s) (bootMemAddr s)"
  have "unat (p + of_nat i) = unat p + i"
    using assms(3) i by (subst unat_plus_simple [THEN iffD1]) (auto simp: word_le_nat_alt unat_of_nat_32 unat_word_ariths)
  moreover have "unat (bootMemAddr s + of_nat j) = unat (bootMemAddr s) + j"
    using assms(1) j by (auto simp: image_placed_def unat_word_ariths unat_of_nat_32)
  ultimately show "p + of_nat i \<noteq> bootMemAddr s + of_nat j"
    using assms j by (auto simp: image_placed_def)
qed

lemma same_image_wr:
  assumes "disjoint_regions p (length bs) boot (image_size m boot)" "length bs \<le> 2 ^ 32" "image_size m boot \<le> 2 ^ 32"
  shows "same_image boot m (wr_bytes m p bs)"
  using assms by (simp add: same_image_def wr_bytes_outside disjoint_not_in_region)

section \<open>Properties\<close>

text \<open>
  C17: \<open>read_data\<close> returns, and copies exactly the requested slice of the file.  On a sound image,
  with a valid inode, an offset inside the file and a buffer apart from the image, the loop over
  the data blocks ends, its result is the number of bytes between the offset and the end of the
  file, at most the requested length, and memory changes in those bytes of the buffer only,
  which receive the file's contents from the offset on, across block borders.
\<close>

theorem read_data_correct:
  fixes n offset buf len :: u32 and s :: "'a fs_scheme"
  assumes "image_ok (memory s) (bootMemAddr s)" "n < numInodes (memory s) (bootMemAddr s)" "buf \<noteq> 0"
    and "offset < inode_length (inode_at (memory s) (bootMemAddr s) n)"
    and "disjoint_regions buf (unat len) (bootMemAddr s) (image_size (memory s) (bootMemAddr s))"
    and "data = take (unat len) (drop (unat offset) (file_data (memory s) (bootMemAddr s) n))"
  shows "read_data n offset buf len s = Some (int (length data), with_memory (wr_bytes (memory s) buf data) s)"
  unfolding assms(6) using assms(1-5) by (rule read_data_slice)

theorem read_data_correct_witness:
  "read_data 0 1 0x600000 3 demo_fs =
     Some (3, with_memory (wr_bytes demo_image 0x600000 [101, 108, 108]) demo_fs)"
  using read_data_correct [of demo_fs 0 "0x600000" 1 3 "[101, 108, 108]"]
  by (simp add: demo_fs_sel demo_counts demo_image_ok demo_inode demo_file disjoint_regions_def image_size_def)

text \<open>
  The error and end-of-file answers of \<open>read_data\<close>: a null buffer, an inode number beyond the
  image's or an offset beyond the end is answered -1, an offset at the end 0, and in all these
  cases nothing is written; no other call is answered -1.
\<close>

theorem read_data_errors:
  fixes n offset buf len :: u32 and s :: "'a fs_scheme"
  assumes "image_ok (memory s) (bootMemAddr s)"
    and "disjoint_regions buf (unat len) (bootMemAddr s) (image_size (memory s) (bootMemAddr s))"
    and "fsize = inode_length (inode_at (memory s) (bootMemAddr s) n)"
    and "read_data n offset buf len s = Some (r, s')"
  shows "(r = ERROR_VAL \<longleftrightarrow> buf = 0 \<or> numInodes (memory s) (bootMemAddr s) \<le> n \<or> offset > fsize)
      \<and> (r = ERROR_VAL \<longrightarrow> s' = s) \<and> (r = 0 \<longrightarrow> offset = fsize \<or> len = 0)"
proof (cases "buf \<noteq> 0 \<and> n < numInodes (memory s) (bootMemAddr s) \<and> offset < fsize")
  case True
  then have "unat offset < unat fsize" by (simp add: word_less_nat_alt)
  define data where "data = take (unat len) (drop (unat offset) (file_data (memory s) (bootMemAddr s) n))"
  have "length data = min (unat fsize - unat offset) (unat len)"
    using assms(3) by (simp add: data_def file_data_def Let_def)
  then have pos: "len \<noteq> 0 \<Longrightarrow> 0 < length data" using \<open>unat offset < unat fsize\<close> by (simp add: unat_gt_0)
  have "r = int (length data)"
    using True assms read_data_slice [of s n buf offset len] by (simp add: data_def)
  with True pos show ?thesis by (auto simp: not_le)
next
  case False
  have nd: "ld_inode (memory s) (bootMemAddr s + 4096 * (n + 1)) = inode_at (memory s) (bootMemAddr s) n"
    by (simp only: inode_at_def)
  from False assms(3,4) show ?thesis
    unfolding read_data_def Let_def nd by (auto simp: not_le not_less split: if_splits)
qed

theorem read_data_errors_witness:
  "read_data 0 6 0x600000 3 demo_fs = Some (-1, demo_fs)
   \<and> (5 :: u32) = inode_length (inode_at (memory demo_fs) (bootMemAddr demo_fs) 0)
   \<and> (6 :: u32) > 5"
proof -
  have nd: "ld_inode demo_image (0x500000 + 4096 * (0 + 1)) = inode_at demo_image 0x500000 0"
    by (simp only: inode_at_def)
  obtain r s' where r: "read_data 0 6 0x600000 3 demo_fs = Some (r, s')"
    unfolding read_data_def Let_def demo_fs_sel nd by (simp add: demo_counts demo_inode)
  have "r = -1 \<and> s' = demo_fs"
    using read_data_errors [of demo_fs "0x600000" 3 5 0 6 r s'] r
    by (auto simp: demo_fs_sel demo_counts demo_image_ok demo_inode disjoint_regions_def image_size_def)
  with r show ?thesis by (simp add: demo_fs_sel demo_inode)
qed

text \<open>
  Lookup by name finds the first directory entry with the given name, and only then succeeds;
  names are compared as the bytes before the first NUL, at most 32, so a 32-byte name needs no
  terminator.
\<close>

theorem read_dentry_by_name_correct:
  "read_dentry_by_name fname (Some d0) s =
    (case find (\<lambda>d. name_of d = cstr_n fname 32) (directory (memory s) (bootMemAddr s)) of
       Some d \<Rightarrow> (0, Some d) | None \<Rightarrow> (ERROR_VAL, Some d0))"
  by (rule read_dentry_by_name_find)

text \<open>
  the two lookups agree: when the directory's names are distinct, looking an entry up by index
  and then by the name found there gives the same entry.
\<close>

theorem dentry_index_name_roundtrip:
  assumes "distinct (map name_of (directory (memory s) (bootMemAddr s)))"
    and "read_dentry_by_index i (Some d0) s = (0, Some d)"
    and "cstr_n fname 32 = name_of d"
  shows "read_dentry_by_name fname (Some d1) s = (0, Some d)"
  using assms find_distinct [OF assms(1)]
  by (auto simp: read_dentry_by_name_find read_dentry_by_index_nth split: if_splits)

theorem dentry_index_name_roundtrip_witness:
  "read_dentry_by_name (\<lambda>i. if i < 3 then of_nat (97 + i) else 0)
     (Some (ld_dentry demo_image 0)) demo_fs = (0, Some (ld_dentry demo_image 0x500040))"
proof -
  have d: "directory demo_image 0x500000 = [ld_dentry demo_image 0x500040]"
    by (simp add: directory_def demo_counts dentry_addr_def)
  have "cstr_n (\<lambda>i. if i < 3 then of_nat (97 + i) else 0) 32 = [97, 98, 99 :: byte]"
    by (simp add: cstr_n_def upt_rec)
  moreover have "name_of (ld_dentry demo_image 0x500040) = [97, 98, 99]"
    by (simp add: name_of_ld_dentry cstr_n_def upt_rec view_def demo_image_def)
  ultimately show ?thesis
    using dentry_index_name_roundtrip [of demo_fs 0 "ld_dentry demo_image 0" "ld_dentry demo_image 0x500040"]
    by (simp add: demo_fs_sel d read_dentry_by_index_nth)
qed

end
