(* ===== verification/Terminal.thy ===== *)
theory Terminal
  imports Filesystem
begin

unbundle bit_operations_syntax

text \<open>
  The keyboard and terminal driver of \<^verbatim>\<open>terminal.c\<close>, with \<open>switchTerminal\<close> of \<^verbatim>\<open>systemcall.c\<close>,
  which the keyboard handler calls.

  The three line buffers are one array, \<^verbatim>\<open>KBbuf[NUM_TERMINALS][BUF_SIZE]\<close>, kept here in its memory
  layout: a store beyond the end of a row falls into the next row, a store beyond the array has
  no value.  \<open>terminalRead\<close> waits for the keyboard interrupt with an empty loop; it is modelled as
  a start, the loop's condition, and what follows the loop, so that interrupts can come between.
\<close>

record term_state = fs +
  KBbuf :: "byte list"
  buf_loc :: "nat list"
  capsFlag :: nat
  shiftFlagL :: nat
  shiftFlagR :: nat
  ctrlFlagL :: nat
  ctrlFlagR :: nat
  altFlagL :: nat
  altFlagR :: nat
  readWaiting :: "bool list"
  readReady :: "bool list"

abbreviation (input) BUF_SIZE :: nat where "BUF_SIZE \<equiv> 128"
abbreviation (input) KB_DATA_PORT :: u16 where "KB_DATA_PORT \<equiv> 0x60"

section \<open>The scan code table\<close>

text \<open>Characters as their codes; NUL where a key has no character.\<close>

definition chars :: "string \<Rightarrow> byte list" where
  "chars cs = map (\<lambda>c. of_nat (of_char c)) cs"

text \<open>A line of text, with its newline.\<close>

definition ln :: "string \<Rightarrow> string" where
  "ln f = f @ [CHR 0x0A]"

definition ascii_plain :: "byte list" where
  "ascii_plain = [0, 0] @ chars ''1234567890-='' @ [0, 0] @ chars ''qwertyuiop[]'' @ [10, 0]
     @ chars ''asdfghjkl;'' @ [39, 96, 0, 92] @ chars ''zxcvbnm,./'' @ [0, 0, 0, 32, 0, 0, 0, 0, 0, 0]"

definition ascii_caps :: "byte list" where
  "ascii_caps = [0, 0] @ chars ''1234567890-='' @ [0, 0] @ chars ''QWERTYUIOP[]'' @ [10, 0]
     @ chars ''ASDFGHJKL;'' @ [39, 96, 0, 92] @ chars ''ZXCVBNM,./'' @ [0, 0, 0, 32, 0, 0, 0, 0, 0, 0]"

definition ascii_shift :: "byte list" where
  "ascii_shift = [0, 0, 33, 64, 35, 36, 37, 94, 38, 42, 40, 41, 95, 43] @ [0, 0] @ chars ''QWERTYUIOP{}'' @ [10, 0]
     @ chars ''ASDFGHJKL:'' @ [34, 126, 0, 124] @ chars ''ZXCVBNM<>?'' @ [0, 0, 0, 32, 0, 0, 0, 0, 0, 0]"

definition ascii_shift_caps :: "byte list" where
  "ascii_shift_caps = [0, 0, 33, 64, 35, 36, 37, 94, 38, 42, 40, 41, 95, 43] @ [0, 0] @ chars ''qwertyuiop{}'' @ [10, 0]
     @ chars ''asdfghjkl:'' @ [34, 126, 0, 124] @ chars ''zxcvbnm<>?'' @ [0, 0, 0, 32, 0, 0, 0, 0, 0, 0]"

definition ascii_scan :: "byte list" where
  "ascii_scan = ascii_plain @ ascii_caps @ ascii_shift @ ascii_shift_caps"

section \<open>switchTerminal\<close>

definition switchTerminal :: "nat \<Rightarrow> 'a console_scheme \<Rightarrow> int \<times> 'a console_scheme" where
  "switchTerminal previousTerminal s =
    (if previousTerminal > 2 \<or> currentTerminal s > 2 then (ERROR_VAL, s)
     else
       let (flags, s) = cli_and_save s;
           cur = currentTerminal s;
           s = with_memory (memcpy (memory s) (VIDEO + of_nat (previousTerminal + 1) * FOUR_KB) VIDEO FOUR_KB) s;
           s = with_memory (memcpy (memory s) VIDEO (VIDEO + of_nat (cur + 1) * FOUR_KB) FOUR_KB) s;
           s = set_cursor (screen_x s ! cur) (screen_y s ! cur) s;
           s = s\<lparr>user_page_table := (user_page_table s)[USER_VIDEO_MEM_INDEX + previousTerminal :=
                 (user_page_table s ! (USER_VIDEO_MEM_INDEX + previousTerminal))
                   \<lparr>physical_address := frame_of (VIDEO_4KB_ALIGNED_ADDRESS + of_nat (previousTerminal + 1) * FOUR_KB)\<rparr>]\<rparr>;
           s = s\<lparr>user_page_table := (user_page_table s)[USER_VIDEO_MEM_INDEX + cur :=
                 (user_page_table s ! (USER_VIDEO_MEM_INDEX + cur))
                   \<lparr>physical_address := frame_of VIDEO_4KB_ALIGNED_ADDRESS\<rparr>]\<rparr>;
           s = clearTLB s;
           s = restore_flags flags s
       in (0, s))"

section \<open>The keyboard handler\<close>

text \<open>\<^verbatim>\<open>KBbuf[t][i] = c\<close>\<close>

definition kb_store :: "nat \<Rightarrow> nat \<Rightarrow> byte \<Rightarrow> 'a term_state_scheme \<Rightarrow> 'a term_state_scheme option" where
  "kb_store t i c s =
    (if t * BUF_SIZE + i < length (KBbuf s) then Some (s\<lparr>KBbuf := (KBbuf s)[t * BUF_SIZE + i := c]\<rparr>) else None)"

definition kb_load :: "nat \<Rightarrow> nat \<Rightarrow> 'a term_state_scheme \<Rightarrow> byte option" where
  "kb_load t i s = (if t * BUF_SIZE + i < length (KBbuf s) then Some (KBbuf s ! (t * BUF_SIZE + i)) else None)"

text \<open>Ctrl-L: clear the screen and echo the buffer again.\<close>

fun echo_buffer :: "nat \<Rightarrow> nat \<Rightarrow> 'a term_state_scheme \<Rightarrow> 'a term_state_scheme option" where
  "echo_buffer i 0 s = Some s"
| "echo_buffer i (Suc n) s = do {
     c \<leftarrow> kb_load (currentTerminal s) i s;
     echo_buffer (Suc i) n (KBputc c s)
   }"

text \<open>\<^verbatim>\<open>while(buf_loc > 0) KBbuf[--buf_loc] = 0\<close>\<close>

fun clear_line :: "nat \<Rightarrow> nat \<Rightarrow> 'a term_state_scheme \<Rightarrow> 'a term_state_scheme option" where
  "clear_line t 0 s = Some s"
| "clear_line t (Suc n) s = do {
     s \<leftarrow> kb_store t n 0 (s\<lparr>buf_loc := (buf_loc s)[t := n]\<rparr>);
     clear_line t n s
   }"

definition kb_backspace :: "'a term_state_scheme \<Rightarrow> 'a term_state_scheme option" where
  "kb_backspace s =
    (let t = currentTerminal s in
     if buf_loc s ! t \<noteq> 0 then do {
       let s = s\<lparr>buf_loc := (buf_loc s)[t := buf_loc s ! t - 1]\<rparr>;
       s \<leftarrow> kb_store t (buf_loc s ! t) 0 s;
       Some (erase_char s)
     } else Some s)"

definition kb_char :: "byte \<Rightarrow> 'a term_state_scheme \<Rightarrow> 'a term_state_scheme option" where
  "kb_char scode s =
    (let t = currentTerminal s;
         c = ascii_scan ! (unat scode + capsFlag s * 64 + (shiftFlagL s OR shiftFlagR s) * 128);
         s = KBputc c s
     in if c = 10 then
          if readWaiting s ! t then do {
            s \<leftarrow> kb_store t (buf_loc s ! t) c s;
            Some (s\<lparr>buf_loc := (buf_loc s)[t := buf_loc s ! t + 1], readReady := (readReady s)[t := True]\<rparr>)
          } else clear_line t (buf_loc s ! t) s
        else do {
          s \<leftarrow> kb_store t (buf_loc s ! t) c s;
          Some (s\<lparr>buf_loc := (buf_loc s)[t := buf_loc s ! t + 1]\<rparr>)
        })"

text \<open>Alt-F1, Alt-F2, Alt-F3.\<close>

definition kb_alt :: "byte \<Rightarrow> 'a term_state_scheme \<Rightarrow> 'a term_state_scheme" where
  "kb_alt scode s =
    (let previousTerminal = currentTerminal s;
         (s, validTerminal) =
           (if scode = 0x3B \<and> previousTerminal \<noteq> 0 then (s\<lparr>currentTerminal := 0\<rparr>, True)
            else if scode = 0x3C \<and> previousTerminal \<noteq> 1 then (s\<lparr>currentTerminal := 1\<rparr>, True)
            else if scode = 0x3D \<and> previousTerminal \<noteq> 2 then (s\<lparr>currentTerminal := 2\<rparr>, True)
            else (s, False))
     in if validTerminal then snd (switchTerminal previousTerminal s) else s)"

text \<open>The handler's chain of cases for a scan code (and, after 0xE0, a second one).\<close>

definition kb_dispatch :: "byte \<Rightarrow> 'a term_state_scheme \<Rightarrow> 'a term_state_scheme option" where
  "kb_dispatch scode s =
    (if scode = 0xE0 then
       let (scode, s) = inb KB_DATA_PORT s;
           s = (if scode = 0x1D \<or> scode = 0x9D then s\<lparr>ctrlFlagR := (ctrlFlagR s + 1) mod 2\<rparr> else s);
           s = (if scode = 0x38 \<or> scode = 0xB8 then s\<lparr>altFlagR := (altFlagR s + 1) mod 2\<rparr> else s)
       in Some s
     else if scode = 0x1D \<or> scode = 0x9D then Some (s\<lparr>ctrlFlagL := (ctrlFlagL s + 1) mod 2\<rparr>)
     else if scode = 0x38 \<or> scode = 0xB8 then Some (s\<lparr>altFlagL := (altFlagL s + 1) mod 2\<rparr>)
     else if ctrlFlagL s \<noteq> 0 \<or> ctrlFlagR s \<noteq> 0 then
       if scode = 0x26 then echo_buffer 0 (buf_loc s ! currentTerminal s) (clear s) else Some s
     else if altFlagL s \<noteq> 0 \<or> altFlagR s \<noteq> 0 then Some (kb_alt scode s)
     else if scode = 0x3A then Some (s\<lparr>capsFlag := (capsFlag s + 1) mod 2\<rparr>)
     else if scode = 0x2A \<or> scode = 0xAA then Some (s\<lparr>shiftFlagL := (shiftFlagL s + 1) mod 2\<rparr>)
     else if scode = 0x36 \<or> scode = 0xB6 then Some (s\<lparr>shiftFlagR := (shiftFlagR s + 1) mod 2\<rparr>)
     else if scode = 0x0E then kb_backspace s
     else if scode AND 0x80 = 0 \<and> ascii_scan ! unat scode \<noteq> 0 \<and> scode < 64
         \<and> (buf_loc s ! currentTerminal s < BUF_SIZE - 1 \<or> scode = 0x1C) then kb_char scode s
     else Some s)"

definition KBhandler :: "'a term_state_scheme \<Rightarrow> 'a term_state_scheme option" where
  "KBhandler s = (let (scode, s) = inb KB_DATA_PORT s in do {
     s \<leftarrow> kb_dispatch scode s;
     Some (send_eoi 1 s)
   })"

section \<open>The terminal's file operations\<close>

definition terminalOpen :: "'a term_state_scheme \<Rightarrow> int \<times> 'a term_state_scheme" where
  "terminalOpen s =
    (0, s\<lparr>currentTerminal := 0, capsFlag := 0, shiftFlagL := 0, shiftFlagR := 0, ctrlFlagL := 0,
          ctrlFlagR := 0, altFlagL := 0, altFlagR := 0,
          readWaiting := replicate NUM_TERMINALS False, readReady := replicate NUM_TERMINALS False,
          buf_loc := replicate NUM_TERMINALS 0, KBbuf := replicate (NUM_TERMINALS * BUF_SIZE) 0\<rparr>)"

definition terminalClose :: "'a term_state_scheme \<Rightarrow> int \<times> 'a term_state_scheme" where
  "terminalClose s = (0, s)"

text \<open>
  \<open>terminalRead\<close>, before the waiting loop (\<open>Inl\<close> the answer -1, \<open>Inr\<close> the state that waits), the
  loop's exit condition, and the rest.
\<close>

definition terminalRead_start :: "int \<Rightarrow> 'a term_state_scheme \<Rightarrow> (int + 'a term_state_scheme) option" where
  "terminalRead_start nbytes s =
    (if nbytes < 0 then Some (Inl (-1))
     else do {
       t \<leftarrow> process_terminal s;
       if t < NUM_TERMINALS then Some (Inr (s\<lparr>readWaiting := (readWaiting s)[t := True]\<rparr>)) else None
     })"

definition terminalRead_ready :: "'a term_state_scheme \<Rightarrow> bool option" where
  "terminalRead_ready s = do {
     t \<leftarrow> process_terminal s;
     if t < NUM_TERMINALS then Some (readReady s ! t) else None
   }"

text \<open>The copying loop: \<open>n\<close> bytes are left to copy.\<close>

fun terminalRead_copy :: "nat \<Rightarrow> u32 \<Rightarrow> nat \<Rightarrow> nat \<Rightarrow> 'a term_state_scheme \<Rightarrow> (nat \<times> 'a term_state_scheme) option" where
  "terminalRead_copy t buf bytes 0 s = Some (bytes, s)"
| "terminalRead_copy t buf bytes (Suc n) s = do {
     c \<leftarrow> kb_load t bytes s;
     let s = with_memory ((memory s)(buf + of_nat bytes := c)) s;
     if c = 10 then Some (bytes + 1, s) else terminalRead_copy t buf (Suc bytes) n s
   }"

definition kb_clear_row :: "nat \<Rightarrow> 'a term_state_scheme \<Rightarrow> 'a term_state_scheme" where
  "kb_clear_row t s = s\<lparr>KBbuf := take (t * BUF_SIZE) (KBbuf s) @ replicate BUF_SIZE 0 @ drop ((t + 1) * BUF_SIZE) (KBbuf s)\<rparr>"

definition terminalRead_finish :: "u32 \<Rightarrow> int \<Rightarrow> 'a term_state_scheme \<Rightarrow> (int \<times> 'a term_state_scheme) option" where
  "terminalRead_finish buf nbytes s = do {
     t \<leftarrow> process_terminal s;
     if t < NUM_TERMINALS then do {
       let (flags, s) = cli_and_save s;
       (bytes, s) \<leftarrow> terminalRead_copy t buf 0 (nat nbytes) s;
       let s = kb_clear_row t s;
       let s = s\<lparr>readReady := (readReady s)[t := False], readWaiting := (readWaiting s)[t := False],
                 buf_loc := (buf_loc s)[t := 0]\<rparr>;
       Some (int bytes, restore_flags flags s)
     } else None
   }"

fun terminalWrite_loop :: "u32 \<Rightarrow> nat \<Rightarrow> nat \<Rightarrow> 'a console_scheme \<Rightarrow> 'a console_scheme option" where
  "terminalWrite_loop buf i 0 s = Some s"
| "terminalWrite_loop buf i (Suc n) s = do {
     s \<leftarrow> putc (view (memory s) buf i) s;
     terminalWrite_loop buf (Suc i) n s
   }"

definition terminalWrite :: "u32 \<Rightarrow> int \<Rightarrow> 'a console_scheme \<Rightarrow> (int \<times> 'a console_scheme) option" where
  "terminalWrite buf nbytes s =
    (let (flags, s) = cli_and_save s in do {
       s \<leftarrow> terminalWrite_loop buf 0 (nat nbytes) s;
       Some (nbytes, restore_flags flags s)
     })"

section \<open>Specification\<close>

text \<open>The line being typed on a terminal, and the driver's invariant.\<close>

definition kb_line :: "nat \<Rightarrow> 'a term_state_scheme \<Rightarrow> byte list" where
  "kb_line t s = map (\<lambda>i. KBbuf s ! (t * BUF_SIZE + i)) [0..<buf_loc s ! t]"

definition term_wf :: "'a term_state_scheme \<Rightarrow> bool" where
  "term_wf s \<longleftrightarrow> console_wf s \<and> length (KBbuf s) = NUM_TERMINALS * BUF_SIZE
     \<and> length (buf_loc s) = NUM_TERMINALS \<and> length (readWaiting s) = NUM_TERMINALS
     \<and> length (readReady s) = NUM_TERMINALS \<and> (\<forall>t < NUM_TERMINALS. buf_loc s ! t \<le> BUF_SIZE)
     \<and> capsFlag s \<le> 1 \<and> shiftFlagL s \<le> 1 \<and> shiftFlagR s \<le> 1
     \<and> ctrlFlagL s \<le> 1 \<and> ctrlFlagR s \<le> 1 \<and> altFlagL s \<le> 1 \<and> altFlagR s \<le> 1"

text \<open>The keys that type a character other than Enter, and the character they type.\<close>

definition typing_key :: "byte \<Rightarrow> bool" where
  "typing_key scode \<longleftrightarrow> scode < 64 \<and> ascii_scan ! unat scode \<noteq> 0 \<and> scode \<noteq> 0x1C"

definition typed_char :: "byte \<Rightarrow> 'a term_state_scheme \<Rightarrow> byte" where
  "typed_char scode s = ascii_scan ! (unat scode + capsFlag s * 64 + (shiftFlagL s OR shiftFlagR s) * 128)"

definition no_modifier :: "'a term_state_scheme \<Rightarrow> bool" where
  "no_modifier s \<longleftrightarrow> ctrlFlagL s = 0 \<and> ctrlFlagR s = 0 \<and> altFlagL s = 0 \<and> altFlagR s = 0"

text \<open>Each terminal's user page leads to the page that holds its virtual screen.\<close>

definition vidmap_ok :: "'a proc_scheme \<Rightarrow> bool" where
  "vidmap_ok s \<longleftrightarrow> length (user_page_table s) = 1024 \<and>
     (\<forall>t < NUM_TERMINALS. physical_address (user_page_table s ! t) = frame_of (video_page (home_page t s))
        \<and> pte_present (user_page_table s ! t) \<and> pte_user_supervisor (user_page_table s ! t))"

section \<open>Frames\<close>

lemma out_only_term:
  assumes "out_only s s'"
  shows "KBbuf s' = KBbuf s" "buf_loc s' = buf_loc s" "capsFlag s' = capsFlag s" "shiftFlagL s' = shiftFlagL s"
    "shiftFlagR s' = shiftFlagR s" "ctrlFlagL s' = ctrlFlagL s" "ctrlFlagR s' = ctrlFlagR s"
    "altFlagL s' = altFlagL s" "altFlagR s' = altFlagR s" "readWaiting s' = readWaiting s"
    "readReady s' = readReady s" "bootMemAddr s' = bootMemAddr s"
  using assms by (auto elim!: out_onlyE)

section \<open>Switching terminals\<close>

lemma page_cells_memcpy:
  assumes "k \<le> 3" "l \<le> 3" "j \<le> 3" "k \<noteq> l"
  shows "page_cells (memcpy m (video_page k) (video_page l) 0x1000) j =
     (if j = k then page_cells m l else page_cells m j)"
proof -
  have "disjoint_regions (video_page k) 4096 (video_page l) 4096"
    using assms video_page_inj [of k l] by (intro disjoint_regionsI) simp
  then have cp: "memcpy m (video_page k) (video_page l) 0x1000 =
      wr_bytes m (video_page k) (rd_bytes m (video_page l) 4096)"
    by (simp add: memcpy_copy copy_bytes_def)
  show ?thesis
  proof (rule nth_equalityI)
    fix i assume "i < length (page_cells (memcpy m (video_page k) (video_page l) 0x1000) j)"
    then have i: "i < 4000" by simp
    show "page_cells (memcpy m (video_page k) (video_page l) 0x1000) j ! i =
        (if j = k then page_cells m l else page_cells m j) ! i"
    proof (cases "j = k")
      case True
      then show ?thesis using i by (simp add: cp page_cells_def wr_bytes_at)
    next
      case False
      have "\<not> in_region (video_page k) 4096 (video_page j + of_nat i)"
      proof
        assume "in_region (video_page k) 4096 (video_page j + of_nat i)"
        then obtain l where "l < 4096" "video_page j + of_nat i = video_page k + of_nat l" by (rule in_regionE)
        with False i assms show False by (simp add: video_page_inj)
      qed
      with False i show ?thesis by (simp add: cp page_cells_def wr_bytes_outside)
    qed
  qed simp
qed

text \<open>The state \<open>switchTerminal\<close> computes, field by field.\<close>

lemma switchTerminal_result:
  assumes "p < 3" "currentTerminal s < 3"
  defines "s' \<equiv> snd (switchTerminal p s)"
  shows "memory s' = memcpy (memcpy (memory s) (video_page (p + 1)) (video_page 0) 0x1000)
            (video_page 0) (video_page (currentTerminal s + 1)) 0x1000"
    "user_page_table s' = (user_page_table s)
        [p := (user_page_table s ! p)\<lparr>physical_address := frame_of (video_page (p + 1))\<rparr>,
         currentTerminal s := ((user_page_table s)[p := (user_page_table s ! p)\<lparr>physical_address := frame_of (video_page (p + 1))\<rparr>] ! currentTerminal s)
            \<lparr>physical_address := frame_of (video_page 0)\<rparr>]"
    "tlb_coherent s'" "currentTerminal s' = currentTerminal s" "screen_x s' = screen_x s" "screen_y s' = screen_y s"
    "if_flag s' = if_flag s" "PCB_at s' = PCB_at s" "PCB_ptrs s' = PCB_ptrs s" "cur_pid s' = cur_pid s"
    "page_directory s' = page_directory s"
  using assms
  by (simp_all add: s'_def switchTerminal_def Let_def cli_and_save_def restore_flags_def with_memory_def
      clearTLB_def tlb_coherent_def set_cursor_def outb_def video_page_def add.commute)

lemma switch_vterm:
  fixes s :: "'a console_scheme"
  assumes "console_wf s" "c < 3" "c \<noteq> currentTerminal s" "u < 3"
  shows "vterm_of u (snd (switchTerminal (currentTerminal s) (s\<lparr>currentTerminal := c\<rparr>))) = vterm_of u s"
proof -
  let ?p = "currentTerminal s" and ?s = "s\<lparr>currentTerminal := c\<rparr>"
  have p: "?p < 3" using assms(1) by (simp add: console_wf_def)
  note r = switchTerminal_result [of ?p ?s]
  have "page_cells (memory (snd (switchTerminal ?p ?s))) (home_page u ?s) = page_cells (memory s) (home_page u s)"
    using p assms(2-4) by (auto simp: r page_cells_memcpy home_page_def)
  then show ?thesis using p assms(2) by (simp add: vterm_of_def r home_page_def)
qed

lemma switch_vidmap:
  fixes s :: "'a console_scheme"
  assumes "vidmap_ok s" "currentTerminal s < 3" "c < 3" "c \<noteq> currentTerminal s"
  shows "vidmap_ok (snd (switchTerminal (currentTerminal s) (s\<lparr>currentTerminal := c\<rparr>)))"
proof -
  note r = switchTerminal_result [of "currentTerminal s" "s\<lparr>currentTerminal := c\<rparr>"]
  show ?thesis using assms by (auto simp: vidmap_ok_def r home_page_def nth_list_update)
qed

lemma switch_wf:
  assumes "console_wf s" "c < 3" "c \<noteq> currentTerminal s"
  shows "console_wf (snd (switchTerminal (currentTerminal s) (s\<lparr>currentTerminal := c\<rparr>)))"
  using assms switchTerminal_result(4-6) [of "currentTerminal s" "s\<lparr>currentTerminal := c\<rparr>"]
  by (simp add: console_wf_def)

text \<open>What the Alt key's case does: nothing, or one switch.\<close>

lemma kb_alt_cases:
  obtains "kb_alt scode s = s"
  | c where "c < 3" "c \<noteq> currentTerminal s"
      "kb_alt scode s = snd (switchTerminal (currentTerminal s) (s\<lparr>currentTerminal := c\<rparr>))"
proof -
  let ?S = "\<lambda>c. snd (switchTerminal (currentTerminal s) (s\<lparr>currentTerminal := c\<rparr>))"
  have "kb_alt scode s =
      (if scode = 0x3B \<and> currentTerminal s \<noteq> 0 then ?S 0
       else if scode = 0x3C \<and> currentTerminal s \<noteq> 1 then ?S 1
       else if scode = 0x3D \<and> currentTerminal s \<noteq> 2 then ?S 2 else s)"
    by (simp add: kb_alt_def Let_def)
  then consider "kb_alt scode s = s" | "0 \<noteq> currentTerminal s" "kb_alt scode s = ?S 0"
    | "1 \<noteq> currentTerminal s" "kb_alt scode s = ?S 1" | "2 \<noteq> currentTerminal s" "kb_alt scode s = ?S 2"
    by (metis (full_types))
  then show ?thesis
  proof cases
    case 1
    then show ?thesis by (rule that(1))
  next
    case 2
    then show ?thesis using that(2) [of 0] by simp
  next
    case 3
    then show ?thesis using that(2) [of 1] by simp
  next
    case 4
    then show ?thesis using that(2) [of 2] by simp
  qed
qed

section \<open>Typing\<close>

lemma length_ascii_scan: "length ascii_scan = 256"
  by code_simp

lemma ascii_row_lengths:
  "length ascii_plain = 64" "length ascii_caps = 64" "length ascii_shift = 64" "length ascii_shift_caps = 64"
  by code_simp+

lemma ascii_scan_row:
  assumes "i < 64"
  shows "ascii_scan ! i = ascii_plain ! i" "ascii_scan ! (i + 64) = ascii_caps ! i"
    "ascii_scan ! (i + 128) = ascii_shift ! i" "ascii_scan ! (i + 192) = ascii_shift_caps ! i"
  using assms by (simp_all add: ascii_scan_def nth_append ascii_row_lengths)

lemma ascii_rows_check:
  "list_all (\<lambda>(i, a, b, c, d). a \<noteq> 0 \<and> i \<noteq> 28 \<longrightarrow>
      i \<notin> {14, 29, 42, 54, 56, 58} \<and> a \<notin> {10, 13} \<and> b \<notin> {0, 10, 13} \<and> c \<notin> {0, 10, 13} \<and> d \<notin> {0, 10, 13})
    (zip [0..<64 :: nat] (zip ascii_plain (zip ascii_caps (zip ascii_shift ascii_shift_caps))))"
  by code_simp

lemma ascii_scan_rows:
  assumes "i < 64" "ascii_scan ! i \<noteq> 0" "i \<noteq> 28"
  shows "i \<notin> {14, 29, 42, 54, 56, 58}" "k < 4 \<Longrightarrow> ascii_scan ! (i + k * 64) \<notin> {0, 10, 13}"
proof -
  let ?z = "zip [0..<64] (zip ascii_plain (zip ascii_caps (zip ascii_shift ascii_shift_caps)))"
  have "?z ! i \<in> set ?z" using assms(1) by (intro nth_mem) (simp add: ascii_row_lengths)
  then have "(i, ascii_plain ! i, ascii_caps ! i, ascii_shift ! i, ascii_shift_caps ! i) \<in> set ?z"
    using assms(1) by (simp add: ascii_row_lengths)
  with ascii_rows_check have *: "ascii_plain ! i \<noteq> 0 \<and> i \<noteq> 28 \<longrightarrow> i \<notin> {14, 29, 42, 54, 56, 58}
      \<and> ascii_plain ! i \<notin> {10, 13} \<and> ascii_caps ! i \<notin> {0, 10, 13} \<and> ascii_shift ! i \<notin> {0, 10, 13}
      \<and> ascii_shift_caps ! i \<notin> {0, 10, 13}"
    unfolding list_all_iff by fastforce
  then show "i \<notin> {14, 29, 42, 54, 56, 58}" using assms by (simp add: ascii_scan_row)
  assume "k < 4"
  then have "k = 0 \<or> k = 1 \<or> k = 2 \<or> k = 3" by auto
  then show "ascii_scan ! (i + k * 64) \<notin> {0, 10, 13}"
    using * assms by (elim disjE) (simp_all add: ascii_scan_row)
qed

lemma small_scode: "list_all (\<lambda>i. (of_nat i :: byte) AND 0x80 = 0) [0..<64]"
  by code_simp

lemma typing_key_facts:
  assumes "typing_key scode"
  shows "scode AND 0x80 = 0" "unat scode < 64" "unat scode \<notin> {14, 29, 42, 54, 56, 58}"
    and "k < 4 \<Longrightarrow> ascii_scan ! (unat scode + k * 64) \<notin> {0, 10, 13}"
proof -
  have u: "unat scode < 64" using assms by (simp add: typing_key_def word_less_nat_alt)
  then show "unat scode < 64" .
  have "(of_nat (unat scode) :: byte) AND 0x80 = 0" 
    using small_scode u unfolding list_all_iff by (metis atLeastLessThan_iff set_upt zero_le)
  then show "scode AND 0x80 = 0" by simp
  have "unat scode \<noteq> 28" using assms unsigned_word_eqI [of scode 28] by (auto simp: typing_key_def)
  with u assms show "unat scode \<notin> {14, 29, 42, 54, 56, 58}"
      and "k < 4 \<Longrightarrow> ascii_scan ! (unat scode + k * 64) \<notin> {0, 10, 13}"
    using ascii_scan_rows [of "unat scode"] unfolding typing_key_def by blast+
qed

lemma shift_or_le: "a \<le> 1 \<Longrightarrow> b \<le> 1 \<Longrightarrow> a OR b \<le> (1 :: nat)"
  by (cases a; cases b) (auto simp: le_Suc_eq)

lemma typed_char_facts:
  assumes "typing_key scode" "term_wf s"
  shows "typed_char scode s \<notin> {0, 10, 13}"
proof -
  have "capsFlag s + 2 * (shiftFlagL s OR shiftFlagR s) < 4"
    using assms(2) shift_or_le [of "shiftFlagL s" "shiftFlagR s"] by (simp add: term_wf_def)
  from typing_key_facts(4) [OF assms(1) this] show ?thesis
    by (simp add: typed_char_def algebra_simps)
qed

lemma kb_dispatch_typing:
  assumes "typing_key scode" "no_modifier s" "buf_loc s ! currentTerminal s < 127"
  shows "kb_dispatch scode s = kb_char scode s"
proof -
  have neq: "scode \<noteq> of_nat i" if "i \<in> {14, 29, 42, 54, 56, 58}" for i
    using typing_key_facts(3) [OF assms(1)] that by (auto simp: unat_of_nat)
  have neq2: "scode \<noteq> of_nat i" if "64 \<le> i" "i < 256" for i
    using typing_key_facts(2) [OF assms(1)] that by (auto simp: unat_of_nat take_bit_nat_eq_self)
  show ?thesis
    using assms neq [of 14] neq [of 29] neq [of 42] neq [of 54] neq [of 56] neq [of 58]
      neq2 [of 157] neq2 [of 184] neq2 [of 224] neq2 [of 170] neq2 [of 182] typing_key_facts(1) [OF assms(1)]
    by (simp add: kb_dispatch_def no_modifier_def typing_key_def)
qed

lemma row_index_less: "t < 3 \<Longrightarrow> i < 128 \<Longrightarrow> t * 128 + i < (384 :: nat)"
  by simp

lemma row_index_inj: "i < 128 \<Longrightarrow> k < 128 \<Longrightarrow> t * 128 + i = u * 128 + k \<longleftrightarrow> t = u \<and> i = (k :: nat)"
proof -
  have dm: "(a * 128 + b) div 128 = a" "(a * 128 + b) mod 128 = b" if "b < 128" for a b :: nat
    using that by simp_all
  assume "i < 128" "k < 128"
  then show ?thesis using dm by metis
qed

lemma send_eoi_term [simp]:
  "KBbuf (send_eoi n s) = KBbuf s" "buf_loc (send_eoi n s) = buf_loc s" "capsFlag (send_eoi n s) = capsFlag s"
  "shiftFlagL (send_eoi n s) = shiftFlagL s" "shiftFlagR (send_eoi n s) = shiftFlagR s"
  "ctrlFlagL (send_eoi n s) = ctrlFlagL s" "ctrlFlagR (send_eoi n s) = ctrlFlagR s"
  "altFlagL (send_eoi n s) = altFlagL s" "altFlagR (send_eoi n s) = altFlagR s"
  "readWaiting (send_eoi n s) = readWaiting s" "readReady (send_eoi n s) = readReady s"
  "currentTerminal (send_eoi n s) = currentTerminal s"
  "vterm_of u (send_eoi n s) = vterm_of u s" "console_wf (send_eoi n s) = console_wf s"
  "io_in (send_eoi n s) = io_in s" "io_pos (send_eoi n s) = io_pos s"
  "user_page_table (send_eoi n s) = user_page_table s"
  by (simp_all add: send_eoi_def outb_def Let_def vterm_of_def home_page_def console_wf_def)

lemma process_terminal_irq [simp]:
  "process_terminal (send_eoi n s) = process_terminal s" "process_terminal (snd (inb p s)) = process_terminal s"
  by (rule process_terminal_cong; simp add: send_eoi_def inb_def outb_def Let_def)+

lemma inb_term [simp]:
  "fst (inb p s) = io_in s (io_pos s)"
  "KBbuf (snd (inb p s)) = KBbuf s" "buf_loc (snd (inb p s)) = buf_loc s" "capsFlag (snd (inb p s)) = capsFlag s"
  "shiftFlagL (snd (inb p s)) = shiftFlagL s" "shiftFlagR (snd (inb p s)) = shiftFlagR s"
  "ctrlFlagL (snd (inb p s)) = ctrlFlagL s" "ctrlFlagR (snd (inb p s)) = ctrlFlagR s"
  "altFlagL (snd (inb p s)) = altFlagL s" "altFlagR (snd (inb p s)) = altFlagR s"
  "readWaiting (snd (inb p s)) = readWaiting s" "readReady (snd (inb p s)) = readReady s"
  "currentTerminal (snd (inb p s)) = currentTerminal s"
  "vterm_of u (snd (inb p s)) = vterm_of u s" "console_wf (snd (inb p s)) = console_wf s"
  "io_in (snd (inb p s)) = io_in s" "io_pos (snd (inb p s)) = Suc (io_pos s)"
  "user_page_table (snd (inb p s)) = user_page_table s"
  by (simp_all add: inb_def vterm_of_def home_page_def console_wf_def)

text \<open>One typed character is echoed and appended to the displayed terminal's line.\<close>

lemma kb_char_typing:
  assumes wf: "term_wf s" and key: "typing_key scode" and room: "buf_loc s ! currentTerminal s < 127"
  obtains s' where "kb_char scode s = Some s'" "term_wf s'"
    "kb_line (currentTerminal s) s' = kb_line (currentTerminal s) s @ [typed_char scode s]"
    "s' = (KBputc (typed_char scode s) s)\<lparr>KBbuf := KBbuf s', buf_loc := (buf_loc s)[currentTerminal s := buf_loc s ! currentTerminal s + 1]\<rparr>"
proof -
  let ?t = "currentTerminal s" and ?c = "typed_char scode s"
  let ?k = "KBputc ?c s" and ?n = "buf_loc s ! currentTerminal s"
  let ?s = "?k\<lparr>KBbuf := (KBbuf s)[?t * 128 + ?n := ?c], buf_loc := (buf_loc s)[?t := ?n + 1]\<rparr>"
  note f = out_only_term [OF out_only_KBputc [of s ?c]]
  have t: "?t < 3" and len: "length (KBbuf s) = 384" "length (buf_loc s) = 3"
    using wf by (simp_all add: term_wf_def console_wf_def)
  have c: "?c \<noteq> 10" using typed_char_facts [OF key wf] by simp
  have idx: "?t * 128 + ?n < 384" using t room by simp
  have 1: "kb_char scode s = Some ?s"
    using c idx len by (simp add: kb_char_def typed_char_def [symmetric] Let_def kb_store_def f)
  have 2: "term_wf ?s"
    using wf t room len KBputc_wf [of s ?c] unfolding term_wf_def
    by (auto simp: console_wf_def f nth_list_update)
  have 3: "kb_line ?t ?s = kb_line ?t s @ [?c]"
    using room t len idx by (auto simp: kb_line_def nth_list_update)
  show ?thesis by (rule that [OF 1 2 3]) simp
qed

text \<open>A run of keyboard interrupts.\<close>

fun kb_run :: "nat \<Rightarrow> 'a term_state_scheme \<Rightarrow> 'a term_state_scheme option" where
  "kb_run 0 s = Some s"
| "kb_run (Suc n) s = do { s \<leftarrow> KBhandler s; kb_run n s }"

lemma kb_run_snoc: "kb_run (Suc n) s = kb_run n s \<bind> KBhandler"
proof (induction n arbitrary: s)
  case 0
  then show ?case by (cases "KBhandler s") simp_all
next
  case (Suc n)
  show ?case
  proof (cases "KBhandler s")
    case None
    then show ?thesis by simp
  next
    case (Some s1)
    then have "kb_run (Suc (Suc n)) s = kb_run (Suc n) s1" by simp
    also have "\<dots> = kb_run n s1 \<bind> KBhandler" by (rule Suc.IH)
    finally show ?thesis using Some by simp
  qed
qed

text \<open>The effect of \<open>n\<close> keys that type the characters \<open>cs\<close> on the displayed terminal.\<close>

definition typed_effect :: "byte list \<Rightarrow> 'a term_state_scheme \<Rightarrow> 'a term_state_scheme \<Rightarrow> bool" where
  "typed_effect cs s s' \<longleftrightarrow> term_wf s' \<and> no_modifier s'
     \<and> kb_line (currentTerminal s) s' = kb_line (currentTerminal s) s @ cs
     \<and> vterm_of (currentTerminal s) s' = fold vt_put cs (vterm_of (currentTerminal s) s)
     \<and> currentTerminal s' = currentTerminal s \<and> process_terminal s' = process_terminal s
     \<and> capsFlag s' = capsFlag s \<and> shiftFlagL s' = shiftFlagL s \<and> shiftFlagR s' = shiftFlagR s
     \<and> readWaiting s' = readWaiting s \<and> readReady s' = readReady s
     \<and> io_in s' = io_in s \<and> io_pos s' = io_pos s + length cs
     \<and> (\<forall>a. \<not> in_video a \<longrightarrow> memory s' a = memory s a)"

lemma length_kb_line: "length (kb_line t s) = buf_loc s ! t"
  by (simp add: kb_line_def)

lemma inb_more [simp]: "term_wf (snd (inb p s)) = term_wf s" "no_modifier (snd (inb p s)) = no_modifier s"
  "typed_char k (snd (inb p s)) = typed_char k s" "kb_line t (snd (inb p s)) = kb_line t s"
  "memory (snd (inb p s)) = memory s"
  by (simp_all add: term_wf_def no_modifier_def typed_char_def kb_line_def) (simp add: inb_def)

lemma send_eoi_more [simp]: "term_wf (send_eoi n s) = term_wf s" "no_modifier (send_eoi n s) = no_modifier s"
  "kb_line t (send_eoi n s) = kb_line t s" "memory (send_eoi n s) = memory s"
  by (simp_all add: term_wf_def no_modifier_def kb_line_def) (simp add: send_eoi_def outb_def Let_def)

lemma vterm_of_kb [simp]: "vterm_of u (s\<lparr>KBbuf := b, buf_loc := l\<rparr>) = vterm_of u s"
    "process_terminal (s\<lparr>KBbuf := b, buf_loc := l\<rparr>) = process_terminal s"
  by (simp_all add: vterm_of_def home_page_def process_terminal_def pcb_of_def pcb_place_def)

lemma KBhandler_typing:
  assumes wf: "term_wf s" and mods: "no_modifier s" and key: "typing_key (io_in s (io_pos s))"
    and room: "buf_loc s ! currentTerminal s < 127"
  obtains s' where "KBhandler s = Some s'" "typed_effect [typed_char (io_in s (io_pos s)) s] s s'"
proof -
  let ?s = "snd (inb 0x60 s)" and ?t = "currentTerminal s" and ?sc = "io_in s (io_pos s)"
  let ?c = "typed_char ?sc s"
  have "term_wf ?s" "buf_loc ?s ! currentTerminal ?s < 127" "no_modifier ?s" using wf room mods by simp_all
  from kb_char_typing [OF this(1) key this(2)] kb_dispatch_typing [OF key this(3) this(2)]
  obtain s1 where s1: "kb_dispatch ?sc ?s = Some s1" "term_wf s1" "kb_line ?t s1 = kb_line ?t s @ [?c]"
    "s1 = (KBputc ?c ?s)\<lparr>KBbuf := KBbuf s1, buf_loc := (buf_loc s)[?t := buf_loc s ! ?t + 1]\<rparr>"
    by (simp del: inb_def) metis
  obtain b where b: "s1 = (KBputc ?c ?s)\<lparr>KBbuf := b, buf_loc := (buf_loc s)[?t := buf_loc s ! ?t + 1]\<rparr>"
    using s1(4) by blast
  have "console_wf s" using wf by (simp add: term_wf_def)
  then have cw: "console_wf ?s" "?t < 3" using console_wf_nth(3) [of s 0] by simp_all
  note f = out_only_term [OF out_only_KBputc [of ?s ?c]] out_only_fields [OF out_only_KBputc [of ?s ?c]]
  have "KBhandler s = Some (send_eoi 1 s1)"
    using s1(1) by (simp add: KBhandler_def Let_def split_def)
  moreover have "typed_effect [?c] s (send_eoi 1 s1)"
    unfolding typed_effect_def
  proof (intro conjI allI impI)
    show "vterm_of ?t (send_eoi 1 s1) = fold vt_put [?c] (vterm_of ?t s)"
      using cw by (simp add: b vterm_KBputc)
    show "no_modifier (send_eoi 1 s1)" using mods by (simp add: b no_modifier_def f)
    show "memory (send_eoi 1 s1) a = memory s a" if "\<not> in_video a" for a
      using that cw by (simp add: b KBputc_outside)
  qed (use s1(2,3) in \<open>simp_all add: b f\<close>)
  ultimately show ?thesis by (rule that)
qed

lemma typed_effect_trans:
  "typed_effect cs s1 s2 \<Longrightarrow> typed_effect ds s2 s3 \<Longrightarrow> typed_effect (cs @ ds) s1 s3"
  by (simp add: typed_effect_def)

lemma kb_run_typing:
  assumes "term_wf s" "no_modifier s" "\<forall>i < n. typing_key (io_in s (io_pos s + i))"
    and "buf_loc s ! currentTerminal s + n \<le> 127"
  shows "\<exists>s'. kb_run n s = Some s'
     \<and> typed_effect (map (\<lambda>i. typed_char (io_in s (io_pos s + i)) s) [0..<n]) s s'"
  using assms
proof (induction n arbitrary: s)
  case 0
  then show ?case by (simp add: typed_effect_def)
next
  case (Suc n)
  have "typing_key (io_in s (io_pos s))" "buf_loc s ! currentTerminal s < 127"
    using Suc.prems(3) [rule_format, of 0] Suc.prems(4) by simp_all
  from KBhandler_typing [OF Suc.prems(1,2) this]
  obtain s1 where s1: "KBhandler s = Some s1" "typed_effect [typed_char (io_in s (io_pos s)) s] s s1" .
  then have e: "term_wf s1" "no_modifier s1" "io_in s1 = io_in s" "io_pos s1 = Suc (io_pos s)"
      "currentTerminal s1 = currentTerminal s" "capsFlag s1 = capsFlag s" "shiftFlagL s1 = shiftFlagL s" "shiftFlagR s1 = shiftFlagR s"
    by (simp_all add: typed_effect_def)
  have "buf_loc s1 ! currentTerminal s = buf_loc s ! currentTerminal s + 1"
    using s1(2) by (simp add: typed_effect_def flip: length_kb_line)
  then have "\<exists>s'. kb_run n s1 = Some s' \<and> typed_effect (map (\<lambda>i. typed_char (io_in s1 (io_pos s1 + i)) s1) [0..<n]) s1 s'"
    using Suc.prems(3,4) e by (intro Suc.IH) auto
  then obtain s' where s': "kb_run n s1 = Some s'"
      "typed_effect (map (\<lambda>i. typed_char (io_in s (io_pos s + Suc i)) s) [0..<n]) s1 s'"
    using e by (auto simp: typed_char_def)
  have "map (\<lambda>i. typed_char (io_in s (io_pos s + i)) s) [0..<Suc n] =
      [typed_char (io_in s (io_pos s)) s] @ map (\<lambda>i. typed_char (io_in s (io_pos s + Suc i)) s) [0..<n]"
    by (simp add: upt_conv_Cons map_Suc_upt [symmetric] comp_def del: upt_Suc)
  with s1(1) s'(1) typed_effect_trans [OF s1(2) s'(2)] show ?case by simp
qed

lemma enter_char:
  assumes "capsFlag s \<le> 1" "shiftFlagL s \<le> 1" "shiftFlagR s \<le> 1"
  shows "typed_char 0x1C s = 10"
proof -
  define j where "j = 28 + capsFlag s * 64 + (shiftFlagL s OR shiftFlagR s) * 128"
  then have j: "j \<in> {28, 92, 156, 220}"
    using assms shift_or_le [OF assms(2,3)] by (auto simp: le_Suc_eq)
  have "list_all (\<lambda>i. ascii_scan ! i = 10) [28, 92, 156, 220]" by code_simp
  with j have "ascii_scan ! j = 10" by auto
  then show ?thesis by (simp add: typed_char_def j_def)
qed

text \<open>Enter completes the line of a terminal that is being read.\<close>

lemma KBhandler_enter:
  assumes wf: "term_wf s" and mods: "no_modifier s" and key: "io_in s (io_pos s) = 0x1C"
    and room: "buf_loc s ! currentTerminal s < 128" and wait: "readWaiting s ! currentTerminal s"
  obtains s' where "KBhandler s = Some s'" "term_wf s'" "no_modifier s'"
    "kb_line (currentTerminal s) s' = kb_line (currentTerminal s) s @ [10]"
    "currentTerminal s' = currentTerminal s" "process_terminal s' = process_terminal s"
    "readReady s' = (readReady s)[currentTerminal s := True]"
    "\<And>a. \<not> in_video a \<Longrightarrow> memory s' a = memory s a"
proof -
  let ?s = "snd (inb 0x60 s)" and ?t = "currentTerminal s" and ?n = "buf_loc s ! currentTerminal s"
  let ?k = "KBputc 10 ?s"
  let ?s1 = "?k\<lparr>KBbuf := (KBbuf s)[?t * 128 + ?n := 10], buf_loc := (buf_loc s)[?t := ?n + 1],
               readReady := (readReady s)[?t := True]\<rparr>"
  have "console_wf s" using wf by (simp add: term_wf_def)
  then have cw: "console_wf ?s" "?t < 3" using console_wf_nth(3) [of s 0] by simp_all
  have len: "length (KBbuf s) = 384" "length (buf_loc s) = 3" using wf by (simp_all add: term_wf_def)
  note f = out_only_term [OF out_only_KBputc [of ?s 10]] out_only_fields [OF out_only_KBputc [of ?s 10]]
  have c: "ascii_scan ! (28 + capsFlag s * 64 + (shiftFlagL s OR shiftFlagR s) * 128) = 10"
    using enter_char [of s] wf by (simp add: term_wf_def typed_char_def)
  have "ascii_scan ! 28 \<noteq> 0" by code_simp
  then have "kb_dispatch 0x1C ?s = kb_char 0x1C ?s"
    using mods by (simp add: kb_dispatch_def no_modifier_def)
  also have "kb_char 0x1C ?s = Some ?s1"
    using c wait cw len room by (simp add: kb_char_def Let_def kb_store_def f)
  finally have h: "KBhandler s = Some (send_eoi 1 ?s1)"
    using key by (simp add: KBhandler_def Let_def split_def)
  have "term_wf ?s1"
    using wf cw room len KBputc_wf [OF cw(1), of 10] unfolding term_wf_def
    by (auto simp: console_wf_def f nth_list_update)
  moreover have "kb_line ?t ?s1 = kb_line ?t s @ [10]"
    using room cw len by (auto simp: kb_line_def nth_list_update)
  moreover have "no_modifier ?s1" using mods by (simp add: no_modifier_def f)
  moreover have "process_terminal ?s1 = process_terminal s"
    by (rule process_terminal_cong) (simp_all add: f inb_def)
  ultimately show ?thesis
    using cw by (intro that [OF h]) (simp_all add: f KBputc_outside)
qed

section \<open>Reading the line\<close>

lemma terminalRead_copy_line:
  assumes "length (KBbuf s) = 384" "t < 3" "b \<le> length cs" "length cs < 128" "10 \<notin> set cs"
    and "\<forall>i < length (cs @ [10]). KBbuf s ! (t * 128 + i) = (cs @ [10]) ! i"
  shows "terminalRead_copy t buf b n s = Some (min (b + n) (length cs + 1),
     with_memory (wr_bytes (memory s) (buf + of_nat b) (take n (drop b (cs @ [10])))) s)"
  using assms
proof (induction n arbitrary: b s)
  case 0
  then show ?case by (simp add: with_memory_def)
next
  case (Suc n)
  let ?L = "cs @ [10]"
  let ?c = "?L ! b"
  have ld: "kb_load t b s = Some ?c" using Suc.prems by (simp add: kb_load_def del: nth_append_length)
  show ?case
  proof (cases "b = length cs")
    case True
    then show ?thesis
      using ld by (simp add: with_memory_def wr_bytes_single fun_upd_def)
  next
    case False
    then have b: "b < length cs" using Suc.prems by simp
    then have "cs ! b \<noteq> 10" using Suc.prems(5) by (metis nth_mem)
    then have c: "?c = cs ! b" "?c \<noteq> 10" using b by (simp_all add: nth_append)
    let ?s = "with_memory ((memory s)(buf + of_nat b := ?c)) s"
    have "terminalRead_copy t buf (Suc b) n ?s = Some (min (Suc b + n) (length cs + 1),
        with_memory (wr_bytes (memory ?s) (buf + of_nat (Suc b)) (take n (drop (Suc b) ?L))) ?s)"
      using Suc.prems b by (intro Suc.IH) (simp_all add: with_memory_def)
    moreover have "take (Suc n) (drop b ?L) = ?c # take n (drop (Suc b) ?L)"
      using b by (subst Cons_nth_drop_Suc [symmetric]) simp_all
    moreover have "wr_bytes ((memory s)(buf + of_nat b := ?c)) (buf + of_nat b + 1) (take n (drop (Suc b) ?L))
        = wr_bytes (memory s) (buf + of_nat b) (?c # take n (drop (Suc b) ?L))"
      using Suc.prems by (intro wr_bytes_Cons) simp
    ultimately show ?thesis
      using ld c by (simp add: with_memory_def add.assoc add.commute [of 1])
  qed
qed

lemma kb_line_nth: "i < length (kb_line t s) \<Longrightarrow> KBbuf s ! (t * 128 + i) = kb_line t s ! i"
  by (simp add: kb_line_def)

lemma terminalRead_finish_line:
  assumes wf: "term_wf s" and pt: "process_terminal s = Some t" "t < 3"
    and line: "kb_line t s = cs @ [10]" "10 \<notin> set cs" and n: "0 \<le> nbytes"
  obtains s' where "terminalRead_finish buf nbytes s = Some (int (length (take (nat nbytes) (cs @ [10]))), s')"
    "memory s' = wr_bytes (memory s) buf (take (nat nbytes) (cs @ [10]))"
    "kb_line t s' = []" "\<not> readReady s' ! t" "\<not> readWaiting s' ! t" "if_flag s' = if_flag s"
proof -
  let ?s = "s\<lparr>if_flag := False\<rparr>"
  have len: "length (KBbuf s) = 384" "buf_loc s ! t \<le> 128" "length (buf_loc s) = 3" "length (readReady s) = 3" "length (readWaiting s) = 3"
    using wf pt(2) by (simp_all add: term_wf_def)
  have "length (kb_line t s) = Suc (length cs)" by (simp add: line)
  then have cs: "length cs < 128" using len(2) by (simp add: length_kb_line)
  have "\<forall>i < length (cs @ [10]). KBbuf s ! (t * 128 + i) = (cs @ [10]) ! i"
    using kb_line_nth [of _ t s] by (simp add: line)
  then have cp: "terminalRead_copy t buf 0 (nat nbytes) ?s = Some (min (nat nbytes) (length cs + 1),
      with_memory (wr_bytes (memory s) buf (take (nat nbytes) (cs @ [10]))) ?s)"
    using terminalRead_copy_line [of ?s t 0 cs buf "nat nbytes"] len cs pt(2) line(2) by simp
  let ?s1 = "with_memory (wr_bytes (memory s) buf (take (nat nbytes) (cs @ [10]))) ?s"
  let ?s' = "restore_flags (if_flag s, df_flag s) ((kb_clear_row t ?s1)\<lparr>readReady := (readReady s)[t := False],
      readWaiting := (readWaiting s)[t := False], buf_loc := (buf_loc s)[t := 0]\<rparr>)"
  have "terminalRead_finish buf nbytes s = Some (int (min (nat nbytes) (length cs + 1)), ?s')"
    using pt cp
    by (simp add: terminalRead_finish_def cli_and_save_def with_memory_def kb_clear_row_def)
  then show ?thesis
    using len pt(2) by (intro that [of ?s'])
      (simp_all add: min.commute restore_flags_def kb_clear_row_def with_memory_def kb_line_def)
qed

section \<open>The handler keeps the invariant\<close>

lemma term_wf_out_only: "term_wf s \<Longrightarrow> out_only s s' \<Longrightarrow> console_wf s' \<Longrightarrow> term_wf s'"
  by (simp add: term_wf_def out_only_term)

lemma term_wfD:
  assumes "term_wf s"
  shows "console_wf s" "currentTerminal s < 3" "length (KBbuf s) = 384" "length (buf_loc s) = 3"
    "length (readWaiting s) = 3" "length (readReady s) = 3" "t < 3 \<Longrightarrow> buf_loc s ! t \<le> 128"
  using assms by (simp_all add: term_wf_def console_wf_def)

lemma clear_wf: "console_wf s \<Longrightarrow> console_wf (clear s)"
proof -
  assume wf: "console_wf s"
  have "vt_ok vt_blank" by (simp add: vt_ok_def vt_blank_def length_concat sum_list_replicate)
  with wf show ?thesis
    using out_only_fields(16) [OF out_only_clear [of s]]
    by (simp add: console_wf_iff [of "clear s"] vterm_clear) (simp add: console_wf_iff clear_def Let_def)
qed

lemma echo_buffer_total:
  assumes "term_wf s" "i + n \<le> 128"
  shows "\<exists>s'. echo_buffer i n s = Some s' \<and> term_wf s' \<and> out_only s s'"
  using assms
proof (induction n arbitrary: i s)
  case (Suc n)
  note w = term_wfD [OF Suc.prems(1)]
  obtain c where c: "kb_load (currentTerminal s) i s = Some c"
    using w Suc.prems(2) by (simp add: kb_load_def)
  have "term_wf (KBputc c s)"
    using w Suc.prems(1) by (intro term_wf_out_only [OF _ out_only_KBputc] KBputc_wf)
  then obtain s' where "echo_buffer (Suc i) n (KBputc c s) = Some s'" "term_wf s'" "out_only (KBputc c s) s'"
    using Suc.IH [of "KBputc c s" "Suc i"] Suc.prems(2) by auto
  with c show ?case using out_only_trans [OF out_only_KBputc] by auto
qed simp

lemma clear_line_total:
  assumes "term_wf s" "t < 3" "n \<le> 128"
  shows "\<exists>s'. clear_line t n s = Some s' \<and> term_wf s'"
  using assms
proof (induction n arbitrary: s)
  case (Suc n)
  let ?s = "s\<lparr>buf_loc := (buf_loc s)[t := n], KBbuf := (KBbuf s)[t * 128 + n := 0]\<rparr>"
  have "term_wf ?s"
    using Suc.prems unfolding term_wf_def by (auto simp: console_wf_def nth_list_update)
  with Suc show ?case using term_wfD [OF Suc.prems(1)] by (simp add: kb_store_def)
qed simp

lemma kb_backspace_total:
  assumes "term_wf s"
  shows "\<exists>s'. kb_backspace s = Some s' \<and> term_wf s'"
proof (cases "buf_loc s ! currentTerminal s = 0")
  case True
  then show ?thesis using assms by (simp add: kb_backspace_def)
next
  case False
  note w = term_wfD [OF assms]
  let ?t = "currentTerminal s" and ?n = "buf_loc s ! currentTerminal s - 1"
  let ?s = "s\<lparr>buf_loc := (buf_loc s)[?t := ?n], KBbuf := (KBbuf s)[?t * 128 + ?n := 0]\<rparr>"
  have n: "?n < 128" using w(7) [OF w(2)] False by simp
  have "term_wf ?s"
    using assms n unfolding term_wf_def by (auto simp: console_wf_def nth_list_update)
  then have "term_wf (erase_char ?s)"
    by (intro term_wf_out_only [OF _ out_only_erase_char] erase_char_wf term_wfD(1))
  moreover have "kb_backspace s = Some (erase_char ?s)"
    using False w n by (simp add: kb_backspace_def Let_def kb_store_def)
  ultimately show ?thesis by simp
qed

lemma kb_alt_wf: "term_wf s \<Longrightarrow> term_wf (kb_alt scode s)"
proof -
  assume wf: "term_wf s"
  have frame: "KBbuf s' = KBbuf s \<and> buf_loc s' = buf_loc s \<and> readWaiting s' = readWaiting s \<and> readReady s' = readReady s
      \<and> capsFlag s' = capsFlag s \<and> shiftFlagL s' = shiftFlagL s \<and> shiftFlagR s' = shiftFlagR s
      \<and> ctrlFlagL s' = ctrlFlagL s \<and> ctrlFlagR s' = ctrlFlagR s \<and> altFlagL s' = altFlagL s \<and> altFlagR s' = altFlagR s"
    if "s' = snd (switchTerminal p (s\<lparr>currentTerminal := c\<rparr>))" for p c s'
    using that by (simp add: switchTerminal_def Let_def cli_and_save_def restore_flags_def with_memory_def
      clearTLB_def set_cursor_def outb_def)
  show ?thesis
  proof (cases rule: kb_alt_cases [of scode s])
    case 1
    then show ?thesis using wf by simp
  next
    case (2 c)
    then show ?thesis
      using wf switch_wf [OF term_wfD(1) [OF wf] 2(1,2)] frame [OF refl, of "currentTerminal s" c]
      by (simp add: term_wf_def)
  qed
qed

lemma kb_char_total:
  assumes wf: "term_wf s" and key: "scode < 64" "ascii_scan ! unat scode \<noteq> 0"
    and room: "buf_loc s ! currentTerminal s < 127 \<or> scode = 0x1C"
      "scode = 0x1C \<Longrightarrow> buf_loc s ! currentTerminal s < 128"
  shows "\<exists>s'. kb_char scode s = Some s' \<and> term_wf s'"
proof (cases "scode = 0x1C")
  case False
  then have "typing_key scode" "buf_loc s ! currentTerminal s < 127" using key room by (simp_all add: typing_key_def)
  from kb_char_typing [OF wf this] show ?thesis by metis
next
  case True
  note w = term_wfD [OF wf]
  let ?t = "currentTerminal s" and ?k = "KBputc 10 s"
  have "typed_char scode s = 10" using wf True by (simp add: enter_char term_wf_def)
  then have c: "ascii_scan ! (unat scode + capsFlag s * 64 + (shiftFlagL s OR shiftFlagR s) * 128) = 10"
    by (simp add: typed_char_def)
  note f = out_only_term [OF out_only_KBputc [of s 10]]
  have k: "term_wf ?k" using w wf by (intro term_wf_out_only [OF _ out_only_KBputc] KBputc_wf)
  show ?thesis
  proof (cases "readWaiting s ! ?t")
    case False
    then show ?thesis
      using c clear_line_total [OF k w(2) w(7) [OF w(2)]] by (simp add: kb_char_def Let_def f)
  next
    case wait: True
    let ?s = "?k\<lparr>KBbuf := (KBbuf s)[?t * 128 + buf_loc s ! ?t := 10], buf_loc := (buf_loc s)[?t := buf_loc s ! ?t + 1],
        readReady := (readReady s)[?t := True]\<rparr>"
    have "kb_char scode s = Some ?s"
      using c wait w room(2) [OF True] by (simp add: kb_char_def Let_def f kb_store_def)
    moreover have "term_wf ?s"
      using k room(2) [OF True] w unfolding term_wf_def by (auto simp: console_wf_def f nth_list_update)
    ultimately show ?thesis by blast
  qed
qed

lemma kb_dispatch_total:
  assumes wf: "term_wf s" and room: "buf_loc s ! currentTerminal s < 128 \<or> scode \<noteq> 0x1C"
  shows "\<exists>s'. kb_dispatch scode s = Some s' \<and> term_wf s'"
proof -
  note w = term_wfD [OF wf]
  have flags: "term_wf (s\<lparr>ctrlFlagL := a mod 2\<rparr>)" "term_wf (s\<lparr>altFlagL := a mod 2\<rparr>)" "term_wf (s\<lparr>capsFlag := a mod 2\<rparr>)"
      "term_wf (s\<lparr>shiftFlagL := a mod 2\<rparr>)" "term_wf (s\<lparr>shiftFlagR := a mod 2\<rparr>)" for a
    using wf by (simp_all add: term_wf_def console_wf_def)
  have two: "term_wf (if p then x\<lparr>altFlagR := a mod 2\<rparr> else x)" if "term_wf x" for p a and x :: "'a term_state_scheme"
    using that by (cases p) (simp_all add: term_wf_def console_wf_def)
  have ctrl: "term_wf (if p then snd (inb 96 s)\<lparr>ctrlFlagR := a mod 2\<rparr> else snd (inb 96 s))" for p a
    using wf by (cases p) (simp_all add: term_wf_def console_wf_def, simp_all add: inb_def)
  have clr: "\<exists>s'. echo_buffer 0 (buf_loc s ! currentTerminal s) (clear s) = Some s' \<and> term_wf s'"
  proof -
    have "term_wf (clear s)" using w wf by (intro term_wf_out_only [OF _ out_only_clear] clear_wf)
    then show ?thesis
      using echo_buffer_total [of "clear s" 0] w(7) [OF w(2)] by auto
  qed
  show ?thesis
    using flags two [OF ctrl] clr kb_alt_wf [OF wf, of scode] kb_backspace_total [OF wf] kb_char_total [OF wf] room wf
    unfolding kb_dispatch_def Let_def split_def by (auto split: if_splits)
qed

lemma KBhandler_total:
  assumes "term_wf s" "buf_loc s ! currentTerminal s < BUF_SIZE \<or> io_in s (io_pos s) \<noteq> 0x1C"
  shows "\<exists>s'. KBhandler s = Some s' \<and> term_wf s'"
  using kb_dispatch_total [of "snd (inb 0x60 s)" "io_in s (io_pos s)"] assms
  by (auto simp: KBhandler_def Let_def split_def)

section \<open>Writing\<close>

lemma terminalWrite_loop_prints:
  assumes "console_wf s" "process_terminal s = Some t" "t < 3" "\<forall>j < n. \<not> in_video (buf + of_nat (i + j))"
  shows "terminalWrite_loop buf i n s = Some (putc_list t (rd_bytes (memory s) (buf + of_nat i) n) s)"
  using assms
proof (induction n arbitrary: i s)
  case (Suc n)
  let ?c = "view (memory s) buf i" and ?q = "buf + of_nat (Suc i)"
  have out: "\<not> in_video (?q + of_nat j)" if "j < n" for j
    using Suc.prems(4) [rule_format, of "Suc j"] that by (simp add: ac_simps)
  then have "rd_bytes (memory (putc_on t ?c s)) ?q n = rd_bytes (memory s) ?q n"
    using Suc.prems by (intro rd_bytes_cong putc_on_outside) auto
  moreover have "\<forall>j < n. \<not> in_video (buf + of_nat (Suc i + j))"
    using out by (simp add: ac_simps)
  moreover have "rd_bytes (memory s) (buf + of_nat i) (Suc n) = ?c # rd_bytes (memory s) ?q n"
    by (simp add: rd_bytes_Suc view_def add.assoc add.commute [of 1])
  ultimately show ?case
    using Suc.prems Suc.IH [of "putc_on t ?c s" "Suc i"] by (simp add: putc_def putc_on_wf del: of_nat_Suc)
qed simp

section \<open>A concrete state\<close>

text \<open>The process of the demonstration state runs on terminal 1, which is displayed, and the
  keyboard will send the keys h, i, Enter.\<close>

definition demo_term :: term_state where
  "demo_term = (fs.extend demo_fs (term_state.fields (replicate 384 0) [0, 0, 0] 0 0 0 0 0 0 0
      [False, True, False] [False, False, False]))
     \<lparr>currentTerminal := 1, io_in := (\<lambda>_. 0)(0 := 0x23, 1 := 0x17, 2 := 0x1C)\<rparr>"

text \<open>The same with the user video pages set up, terminal 1 displayed.\<close>

definition demo_video_table :: "pte_desc_t list" where
  "demo_video_table = (replicate 1024 (fill_pte 0 False))[0 := fill_pte (video_page 1) True,
     1 := fill_pte (video_page 0) True, 2 := fill_pte (video_page 3) True]"

definition demo_video :: term_state where
  "demo_video = demo_term\<lparr>user_page_table := demo_video_table, tlb_user := demo_video_table,
     tlb_dir := page_directory demo_term, tlb_kernel := kernel_page_table demo_term\<rparr>"

lemmas demo_term_simps = demo_term_def fs.extend_def term_state.fields_def demo_fs_def console.extend_def
  fs.fields_def demo_console_def console_demo_simps

lemma demo_term_facts:
  "term_wf demo_term" "no_modifier demo_term" "currentTerminal demo_term = 1" "process_terminal demo_term = Some 1"
  "kb_line 1 demo_term = []" "io_pos demo_term = 0" "io_in demo_term = (\<lambda>_. 0)(0 := 0x23, 1 := 0x17, 2 := 0x1C)"
  "capsFlag demo_term = 0" "shiftFlagL demo_term = 0" "shiftFlagR demo_term = 0" "buf_loc demo_term = [0, 0, 0]"
  "readWaiting demo_term = [False, True, False]"
  by (simp_all add: term_wf_def console_wf_def all_less_3 no_modifier_def process_terminal_def pcb_of_def
      pcb_place_def kb_line_def demo_term_simps)

section \<open>Properties\<close>

text \<open>
  C15: switching terminals with Alt-F1, Alt-F2 or Alt-F3 loses nothing: whatever key comes with Alt
  held, the virtual screens of all three terminals (contents and position) are the same before
  and after, although the display and the backing pages are copied; and the user page of each
  terminal still leads to the page that holds its virtual screen, with no stale translation left.
\<close>

theorem switch_keeps_screens:
  assumes "console_wf s" "vidmap_ok s" "tlb_coherent s" "u < NUM_TERMINALS"
  shows "vterm_of u (kb_alt scode s) = vterm_of u s \<and> console_wf (kb_alt scode s)
     \<and> vidmap_ok (kb_alt scode s) \<and> tlb_coherent (kb_alt scode s)"
proof (cases rule: kb_alt_cases [of scode s])
  case 1
  then show ?thesis using assms by simp
next
  case (2 c)
  have "currentTerminal s < 3" using assms(1) by (simp add: console_wf_def)
  then show ?thesis
    using assms 2(1,2) switchTerminal_result(3) [of "currentTerminal s" "s\<lparr>currentTerminal := c\<rparr>"]
    unfolding 2(3) by (simp add: switch_vterm switch_wf switch_vidmap)
qed

theorem switch_keeps_screens_witness:
  "vterm_of 2 (kb_alt 0x3B demo_video) = vterm_of 2 demo_video \<and> vidmap_ok (kb_alt 0x3B demo_video)"
proof -
  have "console_wf demo_video" "vidmap_ok demo_video" "tlb_coherent demo_video"
    by (simp_all add: demo_video_def console_wf_def all_less_3 vidmap_ok_def home_page_def tlb_coherent_def
        demo_video_table_def demo_term_simps)
  then show ?thesis using switch_keeps_screens [of demo_video 2 "0x3B"] by simp
qed

text \<open>
  C16: a line typed on the displayed terminal reaches the process that reads it.  A process on the
  displayed terminal waits in \<open>terminalRead\<close>; the user, with no Ctrl or Alt held and an empty
  line, types fewer than 127 character keys and then Enter.  Then the keyboard interrupts all
  return, the waiting loop's condition becomes true, and the rest of \<open>terminalRead\<close> returns,
  delivering exactly the typed characters and the newline, cut to the size of the buffer.  The
  line buffer is empty again and the interrupt flag is as it was.
\<close>

theorem typed_line_is_read:
  fixes s :: "'a term_state_scheme"
  assumes "term_wf s" "no_modifier s" "process_terminal s = Some (currentTerminal s)"
    and "readWaiting s ! currentTerminal s" "kb_line (currentTerminal s) s = []"
    and "n < 127" "\<forall>i < n. typing_key (io_in s (io_pos s + i))" "io_in s (io_pos s + n) = 0x1C"
    and "line = map (\<lambda>i. typed_char (io_in s (io_pos s + i)) s) [0..<n] @ [10]"
    and "0 \<le> nbytes"
  shows "\<exists>s1 s2. kb_run (n + 1) s = Some s1 \<and> terminalRead_ready s1 = Some True
     \<and> terminalRead_finish buf nbytes s1 = Some (int (length (take (nat nbytes) line)), s2)
     \<and> memory s2 = wr_bytes (memory s1) buf (take (nat nbytes) line)
     \<and> kb_line (currentTerminal s) s2 = [] \<and> if_flag s2 = if_flag s1"
proof -
  let ?t = "currentTerminal s" and ?cs = "map (\<lambda>i. typed_char (io_in s (io_pos s + i)) s) [0..<n]"
  have "buf_loc s ! ?t = 0" using assms(5) length_kb_line [of ?t s] by simp
  then obtain s0 where s0: "kb_run n s = Some s0" "typed_effect ?cs s s0"
    using kb_run_typing [OF assms(1,2,7)] assms(6) by auto
  then have e: "term_wf s0" "no_modifier s0" "kb_line ?t s0 = ?cs" "currentTerminal s0 = ?t"
      "process_terminal s0 = Some ?t" "readWaiting s0 ! ?t" "io_in s0 (io_pos s0) = 0x1C"
    using assms by (simp_all add: typed_effect_def)
  have "buf_loc s0 ! currentTerminal s0 < 128" using length_kb_line [of ?t s0] e(3,4) assms(6) by simp
  moreover have "readWaiting s0 ! currentTerminal s0" using e(4,6) by simp
  ultimately obtain s1 where s1: "KBhandler s0 = Some s1" "term_wf s1" "kb_line ?t s1 = ?cs @ [10]"
      "process_terminal s1 = Some ?t" "readReady s1 = (readReady s0)[?t := True]"
    using KBhandler_enter [OF e(1,2,7)] e by metis
  have run: "kb_run (n + 1) s = Some s1"
    using s0(1) s1(1) by (simp only: kb_run_snoc Suc_eq_plus1 [symmetric]) simp
  have "10 \<notin> set ?cs" using typed_char_facts [OF _ assms(1)] assms(7) by fastforce
  moreover have t: "?t < 3" "length (readReady s0) = 3" using term_wfD assms(1) e(1) by auto
  ultimately show ?thesis
    using terminalRead_finish_line [OF s1(2,4) t(1) s1(3) _ assms(10), of buf] run s1(4,5) assms(9)
    by (auto simp: terminalRead_ready_def)
qed

theorem typed_line_is_read_witness:
  "\<exists>s1 s2. kb_run 3 demo_term = Some s1 \<and> terminalRead_ready s1 = Some True
     \<and> terminalRead_finish 0x700000 128 s1 = Some (3, s2)
     \<and> memory s2 = wr_bytes (memory s1) 0x700000 [104, 105, 10]"
proof -
  have keys: "typing_key 0x23" "typing_key 0x17" "ascii_scan ! 35 = 104" "ascii_scan ! 23 = 105" by code_simp+
  have "typed_char 0x23 demo_term = 104" "typed_char 0x17 demo_term = 105"
    using keys by (simp_all add: typed_char_def demo_term_facts)
  moreover have "\<forall>i < 2. typing_key (io_in demo_term (io_pos demo_term + i))"
    using keys by (auto simp: demo_term_facts less_2_cases_iff)
  ultimately show ?thesis
    using typed_line_is_read [of demo_term 2 "[104, 105, 10]" 128 "0x700000"]
    by (auto simp: demo_term_facts demo_term_facts(5) [unfolded One_nat_def] upt_rec)
qed

text \<open>
  C33: the keyboard handler never stores outside its line buffers and keeps the driver's invariant
  (positions on the screen, lines of at most 128 bytes, all seven key flags 0 or 1), for every scan code,
  except when Enter arrives for a line that is already full.
\<close>

theorem KBhandler_safe:
  assumes "term_wf s"
    and "buf_loc s ! currentTerminal s < BUF_SIZE \<or> io_in s (io_pos s) \<noteq> 0x1C"
  shows "\<exists>s'. KBhandler s = Some s' \<and> term_wf s'"
  using assms by (rule KBhandler_total)

theorem KBhandler_safe_witness: "\<exists>s'. KBhandler demo_term = Some s' \<and> term_wf s'"
  using KBhandler_safe [of demo_term] by (simp add: demo_term_facts)

text \<open>
  The exception is real: when a line of 128 bytes is complete but not yet read, a second Enter
  stores its newline in the first byte of the next terminal's line buffer.
\<close>

theorem enter_on_full_line_spills:
  assumes "term_wf s" "no_modifier s" "readWaiting s ! currentTerminal s"
    and "buf_loc s ! currentTerminal s = BUF_SIZE" "currentTerminal s < 2" "io_in s (io_pos s) = 0x1C"
  shows "\<exists>s'. KBhandler s = Some s' \<and> KBbuf s' ! ((currentTerminal s + 1) * BUF_SIZE) = 10"
proof -
  let ?s = "snd (inb 0x60 s)" and ?t = "currentTerminal s"
  note w = term_wfD [OF assms(1)]
  note f = out_only_term [OF out_only_KBputc [of ?s 10]]
  have "ascii_scan ! (28 + capsFlag s * 64 + (shiftFlagL s OR shiftFlagR s) * 128) = 10"
    using enter_char [of s] assms(1) by (simp add: term_wf_def typed_char_def)
  moreover have "ascii_scan ! 28 \<noteq> 0" by code_simp
  ultimately have "\<exists>s1. kb_dispatch 0x1C ?s = Some s1 \<and> KBbuf s1 = (KBbuf s)[?t * 128 + 128 := 10]"
    using assms w by (simp add: kb_dispatch_def no_modifier_def kb_char_def Let_def kb_store_def f)
  then show ?thesis
    using assms w by (auto simp: KBhandler_def Let_def split_def add.commute)
qed

theorem enter_on_full_line_spills_witness:
  "\<exists>s'. KBhandler (demo_term\<lparr>buf_loc := [0, 128, 0], io_in := (\<lambda>_. 0x1C)\<rparr>) = Some s' \<and> KBbuf s' ! 256 = 10"
proof -
  let ?s = "demo_term\<lparr>buf_loc := [0, 128, 0], io_in := (\<lambda>_. 0x1C)\<rparr>"
  have "term_wf ?s" "no_modifier ?s" "readWaiting ?s ! 1" "currentTerminal ?s = 1"
    by (simp_all add: term_wf_def console_wf_def all_less_3 no_modifier_def demo_term_simps)
  then show ?thesis using enter_on_full_line_spills [of ?s] by simp
qed

text \<open>
  \<open>terminalWrite\<close> prints every byte of the buffer on the virtual screen of the writing
  process's terminal, in order, and on no other; it returns the requested count and gives the
  interrupt flag back.
\<close>

theorem terminalWrite_prints:
  assumes "console_wf s" "process_terminal s = Some t" "t < NUM_TERMINALS" "u < NUM_TERMINALS"
    and "\<forall>i < nat nbytes. \<not> in_video (buf + of_nat i)"
  shows "\<exists>s'. terminalWrite buf nbytes s = Some (nbytes, s') \<and> console_wf s' \<and> if_flag s' = if_flag s
     \<and> vterm_of u s' = (if u = t then fold vt_put (rd_bytes (memory s) buf (nat nbytes)) (vterm_of u s)
                          else vterm_of u s)"
proof -
  let ?c = "s\<lparr>if_flag := False\<rparr>"
  have "process_terminal ?c = process_terminal s" by (rule process_terminal_cong) simp_all
  then have c: "console_wf ?c" "process_terminal ?c = Some t" "vterm_of u ?c = vterm_of u s" for u
    using assms(1,2) by (simp_all add: console_wf_def vterm_of_def home_page_def)
  let ?r = "putc_list t (rd_bytes (memory s) buf (nat nbytes)) ?c"
  have "terminalWrite_loop buf 0 (nat nbytes) ?c = Some ?r"
    using terminalWrite_loop_prints [OF c(1,2) assms(3), of "nat nbytes" buf 0] assms(5) by simp
  then have w: "terminalWrite buf nbytes s = Some (nbytes, ?r\<lparr>if_flag := if_flag s, df_flag := df_flag s\<rparr>)"
    by (simp add: terminalWrite_def cli_and_save_def restore_flags_def)
  have "console_wf ?r" "vterm_of u ?r = (if u = t then fold vt_put (rd_bytes (memory s) buf (nat nbytes)) (vterm_of u s) else vterm_of u s)"
    using putc_list_wf [OF c(1) assms(3)] putc_list_vterm [OF c(1) assms(3,4)] c(3) by simp_all
  then show ?thesis unfolding w by (simp add: console_wf_def vterm_of_def home_page_def)
qed

theorem terminalWrite_prints_witness:
  "\<exists>s'. terminalWrite 0x502000 5 demo_term = Some (5, s')
     \<and> vterm_of 1 s' = fold vt_put (rd_bytes (memory demo_term) 0x502000 5) (vterm_of 1 demo_term)"
proof -
  have "\<not> in_video (0x502000 + of_nat i)" if "i < 5" for i :: nat
  proof -
    have "unat (0x502000 + of_nat i - 0xB8000 :: u32) = 0x44A000 + i"
      using that unat_of_nat_32 [of "0x44A000 + i"] by (simp add: algebra_simps)
    then show ?thesis by (simp add: in_video_def in_region_def)
  qed
  then show ?thesis
    using terminalWrite_prints [of demo_term 1 1 5 "0x502000"] demo_term_facts(1,4) by (auto simp: term_wf_def)
qed

end
