(* ===== verification/RTC.thy ===== *)
theory RTC
  imports Terminal
begin

unbundle bit_operations_syntax

text \<open>
  The real-time clock driver, \<^verbatim>\<open>RTC.c\<close>: setting the interrupt rate, waiting for the next interrupt,
  initialisation and the interrupt handler.  As for the terminal, the empty waiting loop of
  \<open>RTCRead\<close> is split into a start and its exit condition.
\<close>

record rtc = term_state +
  RTC_read_flag :: "bool list"

abbreviation (input) RTC_PORT :: u16 where "RTC_PORT \<equiv> 0x70"
abbreviation (input) RTC_DATA :: u16 where "RTC_DATA \<equiv> 0x71"

section \<open>RTCWrite\<close>

text \<open>\<^verbatim>\<open>for(i = 1; i != 0; i = (i << 1)) if(freq & i) bitFlag++\<close>\<close>

function bit_loop :: "u32 \<Rightarrow> u32 \<Rightarrow> nat \<Rightarrow> nat" where
  "bit_loop freq i bitFlag =
    (if i \<noteq> 0 then bit_loop freq (push_bit 1 i) (if freq AND i \<noteq> 0 then bitFlag + 1 else bitFlag) else bitFlag)"
  by pat_completeness auto
termination
proof (relation "measure (\<lambda>(freq, i, bitFlag). LEAST k. push_bit k i = 0)")
  fix freq i :: u32 and bitFlag :: nat
  assume i: "i \<noteq> 0"
  let ?f = "\<lambda>i :: u32. LEAST k. push_bit k i = 0"
  have "push_bit 32 i = 0" by (rule bit_word_eqI) (simp add: bit_push_bit_iff)
  then have z: "push_bit (?f i) i = 0" by (rule LeastI)
  with i obtain k where k: "?f i = Suc k" by (cases "?f i") auto
  have "push_bit k (push_bit 1 i) = 0" using z k by (simp add: push_bit_push_bit)
  then have "?f (push_bit 1 i) \<le> k" by (rule Least_le)
  with k show "((freq, push_bit 1 i, if freq AND i \<noteq> 0 then bitFlag + 1 else bitFlag), freq, i, bitFlag)
      \<in> measure (\<lambda>(freq, i, bitFlag). ?f i)" by simp
qed simp

text \<open>\<^verbatim>\<open>for(i = BASE_FREQ; i > freq; i = (i >> 1)) rate++\<close>, with a 16-bit counter.\<close>

function rate_loop :: "u32 \<Rightarrow> u16 \<Rightarrow> byte \<Rightarrow> byte" where
  "rate_loop freq i rate = (if ucast i > freq then rate_loop freq (drop_bit 1 i) (rate + 1) else rate)"
  by pat_completeness auto
termination
proof (relation "measure (\<lambda>(freq, i, rate). unat i)")
  fix freq :: u32 and i :: u16 and rate :: byte
  assume "ucast i > freq"
  then have "i \<noteq> 0" by auto
  then have "0 < unat i" by (simp add: unat_gt_0)
  then show "((freq, drop_bit 1 i, rate + 1), freq, i, rate) \<in> measure (\<lambda>(freq, i, rate). unat i)"
    by (simp add: drop_bit_eq_div unat_div)
qed simp

declare bit_loop.simps [simp del] rate_loop.simps [simp del]

text \<open>The body of \<open>RTCWrite\<close> for a frequency already fetched from the caller's buffer.\<close>

definition RTCWrite_freq :: "u32 \<Rightarrow> 'a machine_scheme \<Rightarrow> int \<times> 'a machine_scheme" where
  "RTCWrite_freq freq s =
    (if freq \<ge> 2 \<and> freq \<le> 1024 then
       if bit_loop freq 1 0 = 1 then
         let rate = rate_loop freq 32768 1;
             s = outb 0x8A RTC_PORT s;
             (prev, s) = inb RTC_DATA s;
             s = outb 0x8A RTC_PORT s;
             s = outb ((prev AND 0xF0) OR rate) RTC_DATA s;
             (idx, s) = inb RTC_PORT s;
             s = outb (idx AND NOT 0x80) RTC_PORT s
         in (0, s)
       else (-1, s)
     else (-1, s))"

definition RTCWrite :: "u32 \<Rightarrow> 'a machine_scheme \<Rightarrow> int \<times> 'a machine_scheme" where
  "RTCWrite buf s = RTCWrite_freq (ld32 (memory s) buf) s"

section \<open>The other operations\<close>

definition RTCOpen :: "'a rtc_scheme \<Rightarrow> (int \<times> 'a rtc_scheme) option" where
  "RTCOpen s = do {
     t \<leftarrow> process_terminal s;
     if t < NUM_TERMINALS
     then Some (RTCWrite_freq 2 (s\<lparr>RTC_read_flag := (RTC_read_flag s)[t := False]\<rparr>))
     else None
   }"

definition RTCRead_start :: "'a rtc_scheme \<Rightarrow> 'a rtc_scheme option" where
  "RTCRead_start s = do {
     t \<leftarrow> process_terminal s;
     if t < NUM_TERMINALS then Some (s\<lparr>RTC_read_flag := (RTC_read_flag s)[t := True]\<rparr>) else None
   }"

definition RTCRead_ready :: "'a rtc_scheme \<Rightarrow> bool option" where
  "RTCRead_ready s = do {
     t \<leftarrow> process_terminal s;
     if t < NUM_TERMINALS then Some (\<not> RTC_read_flag s ! t) else None
   }"

definition RTCClose :: "'a rtc_scheme \<Rightarrow> int \<times> 'a rtc_scheme" where
  "RTCClose s = (0, s)"

definition RTC_init :: "'a machine_scheme \<Rightarrow> 'a machine_scheme" where
  "RTC_init s =
    (let s = outb 0x8B RTC_PORT s;
         (prev, s) = inb RTC_DATA s;
         s = outb 0x8B RTC_PORT s;
         s = outb (prev OR 0x40) RTC_DATA s;
         s = outb 0x8A RTC_PORT s;
         (prev, s) = inb RTC_DATA s;
         s = outb 0x8A RTC_PORT s;
         s = outb ((prev AND 0xF0) OR 0x0F) RTC_DATA s;
         (idx, s) = inb RTC_PORT s;
         s = outb (idx AND NOT 0x80) RTC_PORT s;
         s = outb 0x0C RTC_PORT s;
         (c, s) = inb RTC_DATA s
     in s)"

definition RTChandler :: "'a rtc_scheme \<Rightarrow> 'a rtc_scheme" where
  "RTChandler s =
    (let s = outb 0x0C RTC_PORT s;
         (c, s) = inb RTC_DATA s;
         s = s\<lparr>RTC_read_flag := replicate NUM_THREADS False\<rparr>
     in send_eoi 8 s)"

section \<open>The frequency test\<close>

lemma bit_loop_count:
  "k \<le> 32 \<Longrightarrow> bit_loop freq (push_bit k 1) acc = acc + card {j. k \<le> j \<and> j < 32 \<and> bit freq j}"
proof (induction "32 - k" arbitrary: k acc)
  case 0
  then have "k = 32" by simp
  then have "push_bit k (1 :: u32) = 0" by (simp only:) code_simp
  moreover have "{j. k \<le> j \<and> j < 32 \<and> bit freq j} = {}" using 0 by auto
  ultimately show ?case by (simp add: bit_loop.simps)
next
  case (Suc d)
  then have k: "k < 32" by simp
  have set: "{j. k \<le> j \<and> j < 32 \<and> bit freq j} =
      (if bit freq k then insert k {j. Suc k \<le> j \<and> j < 32 \<and> bit freq j} else {j. Suc k \<le> j \<and> j < 32 \<and> bit freq j})"
    using k by (auto simp: Suc_le_eq le_less)
  have "finite {j. Suc k \<le> j \<and> j < 32 \<and> bit freq j}" by simp
  then have card: "card {j. k \<le> j \<and> j < 32 \<and> bit freq j} =
      (if bit freq k then 1 else 0) + card {j. Suc k \<le> j \<and> j < 32 \<and> bit freq j}"
    unfolding set by auto
  have nz: "push_bit k (1 :: u32) \<noteq> 0" using k by (simp add: push_bit_eq_mult)
  have test: "freq AND push_bit k 1 \<noteq> 0 \<longleftrightarrow> bit freq k"
    using and_exp_eq_0_iff_not_bit [of freq k] by (simp add: push_bit_eq_mult)
  have "bit_loop freq (push_bit (Suc k) 1) b = b + card {j. Suc k \<le> j \<and> j < 32 \<and> bit freq j}" for b
    using Suc by (intro Suc.hyps) auto
  then show ?case
    using nz test card by (subst bit_loop.simps) (simp add: push_bit_push_bit mult.commute)
qed

lemma bit_loop_one: "bit_loop freq 1 0 = 1 \<longleftrightarrow> (\<exists>k < 32. freq = 2 ^ k)"
proof -
  have "bit_loop freq (push_bit 0 1) 0 = 0 + card {j. 0 \<le> j \<and> j < 32 \<and> bit freq j}"
    by (rule bit_loop_count) simp
  then have eq: "bit_loop freq 1 0 = card {j. j < 32 \<and> bit freq j}" by simp
  show ?thesis
  proof
    assume "bit_loop freq 1 0 = 1"
    then obtain k where k: "{j. j < 32 \<and> bit freq j} = {k}" by (auto simp: eq card_1_singleton_iff)
    then have "k < 32" by blast
    moreover have "freq = 2 ^ k"
      by (rule bit_word_eqI) (use k in \<open>auto simp: bit_exp_iff\<close>)
    ultimately show "\<exists>k < 32. freq = 2 ^ k" by blast
  next
    assume "\<exists>k < 32. freq = 2 ^ k"
    then obtain k where "k < 32" "freq = 2 ^ k" by blast
    then have "{j. j < 32 \<and> bit freq j} = {k}" by (auto simp: bit_exp_iff)
    then show "bit_loop freq 1 0 = 1" by (simp add: eq)
  qed
qed

lemma rate_values: "list_all (\<lambda>k. rate_loop (2 ^ k) 32768 1 = of_nat (16 - k)) [1..<11]"
  by code_simp

lemma freq_range:
  assumes "k < 32"
  shows "(2 ^ k :: u32) \<ge> 2 \<and> (2 ^ k :: u32) \<le> 1024 \<longleftrightarrow> 1 \<le> k \<and> k \<le> 10"
proof -
  have "list_all (\<lambda>k. ((2 ^ k :: u32) \<ge> 2 \<and> (2 ^ k :: u32) \<le> 1024) = (1 \<le> k \<and> k \<le> 10)) [0..<32]" by code_simp
  then show ?thesis using assms unfolding list_all_iff by (metis atLeastLessThan_iff set_upt zero_le)
qed

lemma RTCWrite_accepted:
  "freq \<ge> 2 \<and> freq \<le> 1024 \<and> bit_loop freq 1 0 = 1 \<longleftrightarrow> (\<exists>k. 1 \<le> k \<and> k \<le> 10 \<and> freq = 2 ^ k)"
proof
  assume a: "freq \<ge> 2 \<and> freq \<le> 1024 \<and> bit_loop freq 1 0 = 1"
  then obtain k where "k < 32" "freq = 2 ^ k" unfolding bit_loop_one by blast
  with a freq_range [of k] show "\<exists>k. 1 \<le> k \<and> k \<le> 10 \<and> freq = 2 ^ k" by auto
next
  assume "\<exists>k. 1 \<le> k \<and> k \<le> 10 \<and> freq = 2 ^ k"
  then obtain k where k: "1 \<le> k" "k \<le> 10" "freq = 2 ^ k" by blast
  then have "\<exists>k < 32. freq = 2 ^ k" by (intro exI [of _ k]) simp
  with k show "freq \<ge> 2 \<and> freq \<le> 1024 \<and> bit_loop freq 1 0 = 1"
    using freq_range [of k] unfolding bit_loop_one by simp
qed

section \<open>Properties\<close>

text \<open>
  C39: \<open>RTCWrite\<close> accepts exactly the powers of two from 2 to 1024: for those it answers 0, for every
  other number -1, and then no port is written.
\<close>

theorem RTCWrite_accepts:
  "fst (RTCWrite_freq freq s) = (if \<exists>k \<in> {1..10}. freq = 2 ^ k then 0 else -1)
   \<and> (fst (RTCWrite_freq freq s) \<noteq> 0 \<longrightarrow> snd (RTCWrite_freq freq s) = s)"
  using RTCWrite_accepted [of freq]
  by (auto simp: RTCWrite_freq_def Let_def split_def)

theorem RTCWrite_accepts_witness:
  "fst (RTCWrite_freq 512 zero_paging) = 0 \<and> snd (RTCWrite_freq 3 zero_paging) = zero_paging"
proof -
  have "(512 :: u32) = 2 ^ 9" by simp
  then have "\<exists>k \<in> {1..10}. (512 :: u32) = 2 ^ k" by (intro bexI [of _ 9]) simp_all
  moreover have "list_all (\<lambda>k. (3 :: u32) \<noteq> 2 ^ k) [1..<11]" by code_simp
  then have "\<not> (\<exists>k \<in> {1..10}. (3 :: u32) = 2 ^ k)" unfolding list_all_iff by auto
  ultimately show ?thesis
    using RTCWrite_accepts [of 512 zero_paging] RTCWrite_accepts [of 3 zero_paging] by simp
qed

text \<open>
  For an accepted frequency of \<open>2 ^ k\<close> hertz \<open>RTCWrite\<close> programs the rate \<open>16 - k\<close>, the value with
  which the chip divides its 32768 hertz base to that frequency, into the low half of
  register A, keeps the high half, and enables non-maskable interrupts again.
\<close>

theorem RTCWrite_rate:
  assumes "1 \<le> k" "k \<le> 10"
  shows "io_out (snd (RTCWrite_freq (2 ^ k) s)) = io_out s @
     [(0x70, 0x8A), (0x70, 0x8A), (0x71, (io_in s (io_pos s) AND 0xF0) OR of_nat (16 - k)),
      (0x70, io_in s (Suc (io_pos s)) AND NOT 0x80)]
   \<and> 32768 = 2 ^ k * (2 :: nat) ^ (16 - k - 1)"
proof
  have "rate_loop (2 ^ k) 32768 1 = of_nat (16 - k)"
    using rate_values assms unfolding list_all_iff by (simp del: of_nat_diff)
  then show "io_out (snd (RTCWrite_freq (2 ^ k) s)) = io_out s @
     [(0x70, 0x8A), (0x70, 0x8A), (0x71, (io_in s (io_pos s) AND 0xF0) OR of_nat (16 - k)),
      (0x70, io_in s (Suc (io_pos s)) AND NOT 0x80)]"
    using RTCWrite_accepted [of "2 ^ k"] assms
    by (auto simp: RTCWrite_freq_def Let_def split_def inb_def)
  have "(2 :: nat) ^ k * 2 ^ (16 - k - 1) = 2 ^ (k + (16 - k - 1))" by (simp only: power_add)
  also have "k + (16 - k - 1) = 15" using assms by simp
  finally show "32768 = 2 ^ k * (2 :: nat) ^ (16 - k - 1)" by simp
qed

theorem RTCWrite_rate_witness:
  "io_out (snd (RTCWrite_freq (2 ^ 3) zero_paging)) =
     [(0x70, 0x8A), (0x70, 0x8A), (0x71, 13), (0x70, 0)]"
  using RTCWrite_rate [of 3 zero_paging] by (simp add: zero_paging_def)

text \<open>
  \<open>RTCRead\<close> waits for an interrupt and no longer: right after its start the waiting loop's
  condition holds it, and after the next run of the interrupt handler the loop ends, for a
  reader on any terminal.
\<close>

theorem RTCRead_until_interrupt:
  assumes "process_terminal s = Some t" "t < NUM_TERMINALS" "length (RTC_read_flag s) = NUM_TERMINALS"
  shows "\<exists>s1. RTCRead_start s = Some s1 \<and> RTCRead_ready s1 = Some False
     \<and> RTCRead_ready (RTChandler s1) = Some True"
proof -
  let ?s1 = "s\<lparr>RTC_read_flag := (RTC_read_flag s)[t := True]\<rparr>"
  have "process_terminal ?s1 = Some t" "process_terminal (RTChandler ?s1) = Some t"
    using assms(1) process_terminal_cong [of ?s1 s] process_terminal_cong [of "RTChandler ?s1" s]
    by (simp_all add: RTChandler_def Let_def inb_def outb_def send_eoi_def)
  moreover have "RTC_read_flag (RTChandler ?s1) = replicate 3 False"
    by (simp add: RTChandler_def Let_def inb_def outb_def send_eoi_def)
  ultimately show ?thesis
    using assms by (simp add: RTCRead_start_def RTCRead_ready_def)
qed

theorem RTCRead_until_interrupt_witness:
  "\<exists>s1. RTCRead_start (term_state.extend demo_term (rtc.fields [False, False, False])) = Some s1
     \<and> RTCRead_ready (RTChandler s1) = Some True"
proof -
  let ?s = "term_state.extend demo_term (rtc.fields [False, False, False])"
  have "process_terminal ?s = Some 1" "length (RTC_read_flag ?s) = 3"
    by (simp_all add: term_state.extend_def rtc.fields_def process_terminal_def pcb_of_def pcb_place_def demo_term_simps)
  then show ?thesis using RTCRead_until_interrupt [of ?s 1] by auto
qed

end
