(* ===== verification/Syscalls.thy ===== *)
theory Syscalls
  imports RTC
begin

unbundle bit_operations_syntax

text \<open>
  System calls and process management, \<^verbatim>\<open>systemcall.c\<close>, with the dispatcher of
  \<^verbatim>\<open>systemcall_asm.S\<close>.

  Function pointers of the operation tables are codes (\<open>kernel_fn\<close>); the calls through a table
  are the \<open>call_\<close> functions.  The global \<^verbatim>\<open>fdt\<close> points into a process control block: it is the
  number of the block, so that it can still be followed after the block's entry in \<open>PCB_ptrs\<close>
  has been cleared.  A pointer a user program passes is translated by the process page the
  processor is using (\<open>user_ptr\<close>); an access outside that page, which the real kernel answers
  with a page fault or, for kernel addresses, with damage to its own data, has no value here.

  A call does not always come back to its caller: \<open>sysret\<close> tells a return from a wait for the
  keyboard or the clock, the jump into a program, the resumption of a parent, and the endless
  loop after the last program of a thread has halted.
\<close>

section \<open>State\<close>

datatype kernel_fn = Fn_none
  | Fn_terminalOpen | Fn_terminalClose | Fn_terminalRead | Fn_terminalWrite
  | Fn_fileOpen | Fn_fileClose | Fn_fileRead | Fn_fileWrite
  | Fn_directoryOpen | Fn_directoryClose | Fn_directoryRead | Fn_directoryWrite
  | Fn_RTCOpen | Fn_RTCClose | Fn_RTCRead | Fn_RTCWrite
  | Fn_dummy_open | Fn_dummy_close | Fn_dummy_read | Fn_dummy_write

record fops_table =
  fn_open :: kernel_fn
  fn_close :: kernel_fn
  fn_read :: kernel_fn
  fn_write :: kernel_fn

record sys = rtc +
  fdt :: "nat option"
  shellStarted :: "bool list"
  eax_val :: u32
  tss_esp0 :: u32
  cpu_esp :: u32
  cpu_ebp :: u32
  stdin_fops :: fops_table
  stdout_fops :: fops_table
  regfile_fops :: fops_table
  directory_fops :: fops_table
  RTC_fops :: fops_table

datatype 's sysret =
    Ret int 's
  | TermWait u32 int 's
  | RtcWait 's
  | EnterUser u32 's
  | HaltSpin 's
  | HaltResume u32 u32 u32 's

abbreviation (input) UNUSED_FLAG :: u32 where "UNUSED_FLAG \<equiv> 0"
abbreviation (input) STDIN_FLAG :: u32 where "STDIN_FLAG \<equiv> 1"
abbreviation (input) STDOUT_FLAG :: u32 where "STDOUT_FLAG \<equiv> 2"
abbreviation (input) RTC_FLAG :: u32 where "RTC_FLAG \<equiv> 3"
abbreviation (input) DIRECTORY_FLAG :: u32 where "DIRECTORY_FLAG \<equiv> 4"
abbreviation (input) REGFILE_FLAG :: u32 where "REGFILE_FLAG \<equiv> 5"
abbreviation (input) PROCESS_PAGING_INDEX :: nat where "PROCESS_PAGING_INDEX \<equiv> 32"
abbreviation (input) EIGHT_MB :: u32 where "EIGHT_MB \<equiv> 0x00800000"
abbreviation (input) FOUR_MB :: u32 where "FOUR_MB \<equiv> 0x00400000"
abbreviation (input) EIGHT_KB :: u32 where "EIGHT_KB \<equiv> 0x00002000"
abbreviation (input) PROGRAM_INIT_VIRTUAL_ADDR :: u32 where "PROGRAM_INIT_VIRTUAL_ADDR \<equiv> 0x08048000"
abbreviation (input) USER_VIDMAP_ADDR :: u32 where "USER_VIDMAP_ADDR \<equiv> 0x20000000"
abbreviation (input) FNAME_SIZE :: nat where "FNAME_SIZE \<equiv> 32"

section \<open>User pointers\<close>

definition user_base :: "'a paging_scheme \<Rightarrow> u32" where
  "user_base s = push_bit 22 (drop_bit 22 (push_bit 12 (ucast (page_table_address (tlb_dir s ! PROCESS_PAGING_INDEX)))))"

definition user_ptr :: "u32 \<Rightarrow> nat \<Rightarrow> 'a paging_scheme \<Rightarrow> u32 option" where
  "user_ptr v n s =
    (let d = tlb_dir s ! PROCESS_PAGING_INDEX in
     if pde_present d \<and> pde_page_size d \<and> pde_user_supervisor d \<and> 0x08000000 \<le> v \<and> unat v + n \<le> 0x08400000
     then Some (user_base s + (v - 0x08000000)) else None)"

text \<open>A string argument: its terminator must lie in the page too.\<close>

definition user_str :: "u32 \<Rightarrow> 'a paging_scheme \<Rightarrow> (nat \<Rightarrow> byte) option" where
  "user_str v s = do {
     p \<leftarrow> user_ptr v 1 s;
     let n = 0x08400000 - unat v;
     if strlenFile (view (memory s) p) n < n then Some (view (memory s) p) else None
   }"

section \<open>File descriptors\<close>

text \<open>\<^verbatim>\<open>fdt[fd]\<close> and assignments to it; beyond the eight entries there is no value.\<close>

definition fdt_get :: "nat \<Rightarrow> nat \<Rightarrow> 'a proc_scheme \<Rightarrow> file_descriptor_entry option" where
  "fdt_get k fd s =
    (if fd < length (process_fdt (PCB_at s ! k)) then Some (process_fdt (PCB_at s ! k) ! fd) else None)"

definition fdt_put :: "nat \<Rightarrow> nat \<Rightarrow> file_descriptor_entry \<Rightarrow> 'a proc_scheme \<Rightarrow> 'a proc_scheme" where
  "fdt_put k fd e s = s\<lparr>PCB_at := (PCB_at s)[k := (PCB_at s ! k)\<lparr>process_fdt := (process_fdt (PCB_at s ! k))[fd := e]\<rparr>]\<rparr>"

definition fileRead :: "int \<Rightarrow> u32 \<Rightarrow> int \<Rightarrow> 'a sys_scheme \<Rightarrow> (int \<times> 'a sys_scheme) option" where
  "fileRead fd buf nbytes s =
    (if fd < 0 \<or> fd > int MAX_NUM_FDT_ENTRIES then Some (ERROR_VAL, s)
     else do {
       k \<leftarrow> fdt s;
       e \<leftarrow> fdt_get k (nat fd) s;
       (bytesRead, s) \<leftarrow> read_data (fd_inodeNum e) (file_position e) buf (of_int nbytes) s;
       if bytesRead = ERROR_VAL then Some (ERROR_VAL, s)
       else Some (bytesRead, fdt_put k (nat fd) (e\<lparr>file_position := file_position e + of_int bytesRead\<rparr>) s)
     })"

text \<open>The local \<^verbatim>\<open>dentry\<close>, uninitialised before the lookup, is a parameter.\<close>

definition directoryRead :: "dentry \<Rightarrow> int \<Rightarrow> u32 \<Rightarrow> int \<Rightarrow> 'a sys_scheme \<Rightarrow> (int \<times> 'a sys_scheme) option" where
  "directoryRead dentry_init fd buf nbytes s =
    (if fd < 0 \<or> fd > int MAX_NUM_FDT_ENTRIES then Some (ERROR_VAL, s)
     else do {
       k \<leftarrow> fdt s;
       e \<leftarrow> fdt_get k (nat fd) s;
       if file_position e = numDirectories (memory s) (bootMemAddr s)
       then Some (0, fdt_put k (nat fd) (e\<lparr>file_position := 0\<rparr>) s)
       else case read_dentry_by_index (file_position e) (Some dentry_init) s of
         (r, d) \<Rightarrow>
           if r \<noteq> 0 then Some (ERROR_VAL, s)
           else
             let (m, bytesCopied) = strcpyFile (memory s) buf (\<lambda>i. if i < 32 then fileName (the d) ! i else ucast (drop_bit (8 * (i - 32)) (fileType (the d)))) MAX_FILENAME_LENGTH;
                 s = with_memory m s
             in Some (int bytesCopied, fdt_put k (nat fd) (e\<lparr>file_position := file_position e + 1\<rparr>) s)
     })"

definition dummy_read :: "'a sys_scheme \<Rightarrow> int \<times> 'a sys_scheme" where
  "dummy_read s = (ERROR_VAL, s)"

definition dummy_write :: "'a sys_scheme \<Rightarrow> int \<times> 'a sys_scheme" where
  "dummy_write s = (ERROR_VAL, s)"

definition dummy_open :: "'a sys_scheme \<Rightarrow> int \<times> 'a sys_scheme" where
  "dummy_open s = (ERROR_VAL, s)"

definition dummy_close :: "'a sys_scheme \<Rightarrow> int \<times> 'a sys_scheme" where
  "dummy_close s = (ERROR_VAL, s)"

section \<open>Initialisation\<close>

definition initialize_fops :: "'a sys_scheme \<Rightarrow> 'a sys_scheme" where
  "initialize_fops s = s
    \<lparr>stdin_fops := \<lparr>fn_open = Fn_terminalOpen, fn_close = Fn_terminalClose, fn_read = Fn_terminalRead, fn_write = Fn_dummy_write\<rparr>,
     stdout_fops := \<lparr>fn_open = Fn_terminalOpen, fn_close = Fn_terminalClose, fn_read = Fn_dummy_read, fn_write = Fn_terminalWrite\<rparr>,
     regfile_fops := \<lparr>fn_open = Fn_fileOpen, fn_close = Fn_fileClose, fn_read = Fn_fileRead, fn_write = Fn_fileWrite\<rparr>,
     directory_fops := \<lparr>fn_open = Fn_directoryOpen, fn_close = Fn_directoryClose, fn_read = Fn_directoryRead, fn_write = Fn_directoryWrite\<rparr>,
     RTC_fops := \<lparr>fn_open = Fn_RTCOpen, fn_close = Fn_RTCClose, fn_read = Fn_RTCRead, fn_write = Fn_RTCWrite\<rparr>,
     cur_pid := -1\<rparr>"

definition initialize_PCB_pointers :: "'a sys_scheme \<Rightarrow> 'a sys_scheme" where
  "initialize_PCB_pointers s = s\<lparr>PCB_ptrs := replicate MAX_PROCESSES None\<rparr>"

definition empty_fd :: file_descriptor_entry where
  "empty_fd = \<lparr>fops_pointer = None, fd_inodeNum = 0, file_position = -1, fd_flags = UNUSED_FLAG\<rparr>"

definition initial_fdt :: "file_descriptor_entry list" where
  "initial_fdt = (replicate MAX_NUM_FDT_ENTRIES empty_fd)
     [0 := empty_fd\<lparr>fops_pointer := Some Stdin_fops, fd_flags := STDIN_FLAG, file_position := 0\<rparr>,
      1 := empty_fd\<lparr>fops_pointer := Some Stdout_fops, fd_flags := STDOUT_FLAG, file_position := 0\<rparr>]"

definition initialize_FDT :: "int \<Rightarrow> 'a sys_scheme \<Rightarrow> 'a sys_scheme option" where
  "initialize_FDT p s = do {
     k \<leftarrow> pcb_place p s;
     Some (s\<lparr>fdt := Some k, PCB_at := (PCB_at s)[k := (PCB_at s ! k)\<lparr>process_fdt := initial_fdt\<rparr>]\<rparr>)
   }"

section \<open>Calls through the operation tables\<close>

definition fops_of :: "fops_id \<Rightarrow> 'a sys_scheme \<Rightarrow> fops_table" where
  "fops_of f s = (case f of Stdin_fops \<Rightarrow> stdin_fops s | Stdout_fops \<Rightarrow> stdout_fops s
     | Regfile_fops \<Rightarrow> regfile_fops s | Directory_fops \<Rightarrow> directory_fops s | Rtc_fops \<Rightarrow> RTC_fops s)"

definition call_open :: "kernel_fn \<Rightarrow> 'a sys_scheme \<Rightarrow> (int \<times> 'a sys_scheme) option" where
  "call_open f s = (case f of
     Fn_terminalOpen \<Rightarrow> Some (terminalOpen s) | Fn_fileOpen \<Rightarrow> Some (fileOpen s)
   | Fn_directoryOpen \<Rightarrow> Some (directoryOpen s) | Fn_RTCOpen \<Rightarrow> RTCOpen s
   | Fn_dummy_open \<Rightarrow> Some (dummy_open s) | _ \<Rightarrow> None)"

definition call_close :: "kernel_fn \<Rightarrow> 'a sys_scheme \<Rightarrow> (int \<times> 'a sys_scheme) option" where
  "call_close f s = (case f of
     Fn_terminalClose \<Rightarrow> Some (terminalClose s) | Fn_fileClose \<Rightarrow> Some (fileClose s)
   | Fn_directoryClose \<Rightarrow> Some (directoryClose s) | Fn_RTCClose \<Rightarrow> Some (RTCClose s)
   | Fn_dummy_close \<Rightarrow> Some (dummy_close s) | _ \<Rightarrow> None)"

text \<open>The user's buffer is translated where the call reaches it.\<close>

definition call_read :: "dentry \<Rightarrow> kernel_fn \<Rightarrow> int \<Rightarrow> u32 \<Rightarrow> int \<Rightarrow> 'a sys_scheme \<Rightarrow> 'a sys_scheme sysret option" where
  "call_read dentry_init f fd buf nbytes s = (case f of
     Fn_terminalRead \<Rightarrow> do {
       r \<leftarrow> terminalRead_start nbytes s;
       (case r of Inl e \<Rightarrow> Some (Ret e s)
        | Inr s \<Rightarrow> do { p \<leftarrow> user_ptr buf (nat nbytes) s; Some (TermWait p nbytes s) })
     }
   | Fn_fileRead \<Rightarrow> do {
       p \<leftarrow> user_ptr buf (nat nbytes) s;
       (r, s) \<leftarrow> fileRead fd p nbytes s;
       Some (Ret r s)
     }
   | Fn_directoryRead \<Rightarrow> do {
       p \<leftarrow> user_ptr buf MAX_FILENAME_LENGTH s;
       (r, s) \<leftarrow> directoryRead dentry_init fd p nbytes s;
       Some (Ret r s)
     }
   | Fn_RTCRead \<Rightarrow> do { s \<leftarrow> RTCRead_start s; Some (RtcWait s) }
   | Fn_dummy_read \<Rightarrow> (case dummy_read s of (r, s) \<Rightarrow> Some (Ret r s))
   | _ \<Rightarrow> None)"

definition call_write :: "kernel_fn \<Rightarrow> u32 \<Rightarrow> int \<Rightarrow> 'a sys_scheme \<Rightarrow> (int \<times> 'a sys_scheme) option" where
  "call_write f buf nbytes s = (case f of
     Fn_terminalWrite \<Rightarrow> do { p \<leftarrow> user_ptr buf (nat nbytes) s; terminalWrite p nbytes s }
   | Fn_fileWrite \<Rightarrow> Some (fileWrite s) | Fn_directoryWrite \<Rightarrow> Some (directoryWrite s)
   | Fn_RTCWrite \<Rightarrow> do { p \<leftarrow> user_ptr buf 4 s; Some (RTCWrite p s) }
   | Fn_dummy_write \<Rightarrow> Some (dummy_write s) | _ \<Rightarrow> None)"

section \<open>read, write, open, close\<close>

definition sys_read :: "dentry \<Rightarrow> int \<Rightarrow> u32 \<Rightarrow> int \<Rightarrow> 'a sys_scheme \<Rightarrow> 'a sys_scheme sysret option" where
  "sys_read dentry_init fd buf nbytes s =
    (if fd = 1 \<or> fd > int MAX_NUM_FDT_ENTRIES \<or> fd < 0 then Some (Ret ERROR_VAL s)
     else if buf = 0 \<or> nbytes < 0 then Some (Ret ERROR_VAL s)
     else do {
       k \<leftarrow> fdt s;
       e \<leftarrow> fdt_get k (nat fd) s;
       if fd_flags e = UNUSED_FLAG then Some (Ret ERROR_VAL s)
       else do {
         f \<leftarrow> fops_pointer e;
         call_read dentry_init (fn_read (fops_of f s)) fd buf nbytes s
       }
     })"

definition sys_write :: "int \<Rightarrow> u32 \<Rightarrow> int \<Rightarrow> 'a sys_scheme \<Rightarrow> (int \<times> 'a sys_scheme) option" where
  "sys_write fd buf nbytes s =
    (if fd \<le> 0 \<or> fd > int MAX_NUM_FDT_ENTRIES then Some (ERROR_VAL, s)
     else if buf = 0 \<or> nbytes < 0 then Some (ERROR_VAL, s)
     else do {
       k \<leftarrow> fdt s;
       e \<leftarrow> fdt_get k (nat fd) s;
       if fd_flags e = UNUSED_FLAG then Some (ERROR_VAL, s)
       else do {
         f \<leftarrow> fops_pointer e;
         call_write (fn_write (fops_of f s)) buf nbytes s
       }
     })"

text \<open>\<^verbatim>\<open>while(index < 8 && fdt[index].flags != UNUSED_FLAG) index++\<close>\<close>

function free_fd :: "file_descriptor_entry list \<Rightarrow> nat \<Rightarrow> nat" where
  "free_fd tab index =
    (if index < MAX_NUM_FDT_ENTRIES \<and> fd_flags (tab ! index) \<noteq> UNUSED_FLAG then free_fd tab (Suc index) else index)"
  by pat_completeness auto
termination
  by (relation "measure (\<lambda>(tab, index). 8 - index)") auto

declare free_fd.simps [simp del]

definition str_view :: "string \<Rightarrow> nat \<Rightarrow> byte" where
  "str_view cs i = (if i < length cs then of_nat (of_char (cs ! i)) else 0)"

definition sys_open :: "dentry \<Rightarrow> (nat \<Rightarrow> byte) option \<Rightarrow> 'a sys_scheme \<Rightarrow> (int \<times> 'a sys_scheme) option" where
  "sys_open dentry_init filename s = do {
     k \<leftarrow> pcb_place (cur_pid s) s;
     let s = s\<lparr>fdt := Some k\<rparr>;
     case filename of
       None \<Rightarrow> Some (ERROR_VAL, s)
     | Some name \<Rightarrow>
         if strncmp name (str_view ''stdin'') 5 = 0 then Some (0, s)
         else if strncmp name (str_view ''stdout'') 6 = 0 then Some (1, s)
         else
           let index = free_fd (process_fdt (PCB_at s ! k)) 2 in
           if index = MAX_NUM_FDT_ENTRIES then Some (ERROR_VAL, s)
           else case read_dentry_by_name name (Some dentry_init) s of
             (r, d) \<Rightarrow>
               if r = -1 then Some (ERROR_VAL, s)
               else do {
                 let filetype = fileType (the d);
                 e \<leftarrow> fdt_get k index s;
                 let e = e\<lparr>fd_inodeNum := (if filetype = 2 then inodeNum (the d) else 0), file_position := 0\<rparr>;
                 if filetype = 0 then do {
                   let s = fdt_put k index (e\<lparr>fops_pointer := Some Rtc_fops, fd_flags := RTC_FLAG\<rparr>) s;
                   (r, s) \<leftarrow> call_open (fn_open (RTC_fops s)) s;
                   Some (int index, s)
                 } else if filetype = 1 then do {
                   let s = fdt_put k index (e\<lparr>fops_pointer := Some Directory_fops, fd_flags := DIRECTORY_FLAG\<rparr>) s;
                   (r, s) \<leftarrow> call_open (fn_open (directory_fops s)) s;
                   Some (int index, s)
                 } else if filetype = 2 then do {
                   let s = fdt_put k index (e\<lparr>fops_pointer := Some Regfile_fops, fd_flags := REGFILE_FLAG\<rparr>) s;
                   (r, s) \<leftarrow> call_open (fn_open (regfile_fops s)) s;
                   Some (int index, s)
                 } else Some (ERROR_VAL, fdt_put k index e s)
               }
   }"

definition sys_close :: "int \<Rightarrow> 'a sys_scheme \<Rightarrow> (int \<times> 'a sys_scheme) option" where
  "sys_close fd s = do {
     k \<leftarrow> pcb_place (cur_pid s) s;
     if fd < 2 \<or> fd > int MAX_NUM_FDT_ENTRIES then Some (ERROR_VAL, s)
     else do {
       e \<leftarrow> fdt_get k (nat fd) s;
       if fd_flags e = UNUSED_FLAG then Some (ERROR_VAL, s)
       else do {
         f \<leftarrow> fops_pointer e;
         (r, s) \<leftarrow> call_close (fn_close (fops_of f s)) s;
         e \<leftarrow> fdt_get k (nat fd) s;
         Some (0, fdt_put k (nat fd) (e\<lparr>fd_flags := UNUSED_FLAG\<rparr>) s)
       }
     }
   }"

section \<open>Invariant\<close>

definition fd_ok :: "nat \<Rightarrow> file_descriptor_entry \<Rightarrow> bool" where
  "fd_ok i e \<longleftrightarrow>
    (if i = 0 then fd_flags e = STDIN_FLAG \<and> fops_pointer e = Some Stdin_fops
     else if i = 1 then fd_flags e = STDOUT_FLAG \<and> fops_pointer e = Some Stdout_fops
     else fd_flags e = UNUSED_FLAG \<or> (fd_flags e, fops_pointer e) \<in>
       {(RTC_FLAG, Some Rtc_fops), (DIRECTORY_FLAG, Some Directory_fops), (REGFILE_FLAG, Some Regfile_fops)})"

definition fdt_wf :: "file_descriptor_entry list \<Rightarrow> bool" where
  "fdt_wf tab \<longleftrightarrow> length tab = MAX_NUM_FDT_ENTRIES \<and> (\<forall>i < MAX_NUM_FDT_ENTRIES. fd_ok i (tab ! i))"

definition fops_ready :: "'a sys_scheme \<Rightarrow> bool" where
  "fops_ready s \<longleftrightarrow>
     stdin_fops s = \<lparr>fn_open = Fn_terminalOpen, fn_close = Fn_terminalClose, fn_read = Fn_terminalRead, fn_write = Fn_dummy_write\<rparr>
   \<and> stdout_fops s = \<lparr>fn_open = Fn_terminalOpen, fn_close = Fn_terminalClose, fn_read = Fn_dummy_read, fn_write = Fn_terminalWrite\<rparr>
   \<and> regfile_fops s = \<lparr>fn_open = Fn_fileOpen, fn_close = Fn_fileClose, fn_read = Fn_fileRead, fn_write = Fn_fileWrite\<rparr>
   \<and> directory_fops s = \<lparr>fn_open = Fn_directoryOpen, fn_close = Fn_directoryClose, fn_read = Fn_directoryRead, fn_write = Fn_directoryWrite\<rparr>
   \<and> RTC_fops s = \<lparr>fn_open = Fn_RTCOpen, fn_close = Fn_RTCClose, fn_read = Fn_RTCRead, fn_write = Fn_RTCWrite\<rparr>"

text \<open>The page directory entry and the kernel stack of a process.\<close>

definition process_page :: "nat \<Rightarrow> pde_desc_t" where
  "process_page p = fill_pde (EIGHT_MB + of_nat p * FOUR_MB) True True"

definition kernel_stack :: "nat \<Rightarrow> u32" where
  "kernel_stack p = (EIGHT_MB - of_nat p * EIGHT_KB) - 4"

text \<open>
  The process tables.  A process in the table has its own block, page and terminal, a sound
  descriptor table, and a parent that is in the table too and on the same terminal, or none;
  no two processes share a parent.
\<close>

definition pcb_ok :: "nat \<Rightarrow> 'a proc_scheme \<Rightarrow> bool" where
  "pcb_ok p s \<longleftrightarrow> (let b = PCB_at s ! p; q = parent_pid b in
     pid b = int p \<and> pde b = process_page p \<and> parent_terminal b < NUM_TERMINALS \<and> fdt_wf (process_fdt b)
     \<and> (q = -1 \<or> 0 \<le> q \<and> q < 6 \<and> PCB_ptrs s ! nat q \<noteq> None \<and> parent_terminal (PCB_at s ! nat q) = parent_terminal b))"

definition is_parent :: "nat \<Rightarrow> 'a proc_scheme \<Rightarrow> bool" where
  "is_parent q s \<longleftrightarrow> (\<exists>p < MAX_PROCESSES. PCB_ptrs s ! p \<noteq> None \<and> parent_pid (PCB_at s ! p) = int q)"

definition proc_inv :: "'a sys_scheme \<Rightarrow> bool" where
  "proc_inv s \<longleftrightarrow> proc_wf s \<and> fops_ready s \<and> length (page_directory s) = NUM_PAGE_TABLES
     \<and> (\<forall>p < MAX_PROCESSES. PCB_ptrs s ! p \<noteq> None \<longrightarrow> pcb_ok p s)
     \<and> (\<forall>p < MAX_PROCESSES. \<forall>q < MAX_PROCESSES. PCB_ptrs s ! p \<noteq> None \<and> PCB_ptrs s ! q \<noteq> None \<and> p \<noteq> q
          \<and> parent_pid (PCB_at s ! p) \<noteq> -1 \<longrightarrow> parent_pid (PCB_at s ! p) \<noteq> parent_pid (PCB_at s ! q))"

text \<open>
  The running process: it is in the table, has no child, and the descriptor table, the process
  page (also as the processor has cached it) and the kernel stack in use are its own.
\<close>

definition running :: "'a sys_scheme \<Rightarrow> bool" where
  "running s \<longleftrightarrow> 0 \<le> cur_pid s \<and> cur_pid s < 6 \<and> PCB_ptrs s ! nat (cur_pid s) \<noteq> None
     \<and> \<not> is_parent (nat (cur_pid s)) s \<and> fdt s = Some (nat (cur_pid s))
     \<and> page_directory s ! PROCESS_PAGING_INDEX = process_page (nat (cur_pid s))
     \<and> tlb_dir s ! PROCESS_PAGING_INDEX = process_page (nat (cur_pid s))
     \<and> tss_esp0 s = kernel_stack (nat (cur_pid s))"

definition sys_ok :: "'a sys_scheme \<Rightarrow> bool" where
  "sys_ok s \<longleftrightarrow> proc_inv s \<and> running s"

lemma fops_ready_init [simp]: "fops_ready (initialize_fops s)"
  by (simp add: fops_ready_def initialize_fops_def)

lemma fdt_wf_initial: "fdt_wf initial_fdt"
  by code_simp

lemma fdt_wf_update:
  assumes "fdt_wf tab" "fd_ok i e"
  shows "fdt_wf (tab[i := e])"
  using assms by (cases "i < length tab") (auto simp: fdt_wf_def nth_list_update list_update_beyond)

lemma fd_ok_position [simp]: "fd_ok i (e\<lparr>file_position := v\<rparr>) = fd_ok i e"
  by (simp add: fd_ok_def)

lemma sys_okD:
  assumes "sys_ok s"
  obtains k b where "k < 6" "cur_pid s = int k" "fdt s = Some k" "pcb_place (cur_pid s) s = Some k"
    "PCB_at s ! k = b" "fdt_wf (process_fdt b)" "process_terminal s = Some (parent_terminal b)" "parent_terminal b < 3"
proof -
  define k where "k = nat (cur_pid s)"
  have "k < 6" using assms by (auto simp: sys_ok_def running_def k_def)
  then have "PCB_ptrs s ! k = None \<or> PCB_ptrs s ! k = Some k" using assms by (simp add: sys_ok_def proc_inv_def proc_wf_def)
  with assms have k: "k < 6" "cur_pid s = int k" "fdt s = Some k" "PCB_ptrs s ! k = Some k"
    by (auto simp: sys_ok_def running_def k_def)
  then show thesis
    using assms that [of k "PCB_at s ! k"]
    by (auto simp: sys_ok_def proc_inv_def proc_wf_def pcb_ok_def Let_def pcb_place_def process_terminal_def pcb_of_def)
qed

section \<open>What the device operations leave alone\<close>

definition proc_same :: "'a sys_scheme \<Rightarrow> 'a sys_scheme \<Rightarrow> bool" where
  "proc_same s s' \<longleftrightarrow> PCB_at s' = PCB_at s \<and> PCB_ptrs s' = PCB_ptrs s \<and> cur_pid s' = cur_pid s
     \<and> curThread s' = curThread s \<and> fdt s' = fdt s \<and> shellStarted s' = shellStarted s \<and> tss_esp0 s' = tss_esp0 s
     \<and> page_directory s' = page_directory s \<and> tlb_dir s' = tlb_dir s \<and> bootMemAddr s' = bootMemAddr s
     \<and> user_page_table s' = user_page_table s \<and> tlb_user s' = tlb_user s
     \<and> kernel_page_table s' = kernel_page_table s \<and> tlb_kernel s' = tlb_kernel s
     \<and> stdin_fops s' = stdin_fops s \<and> stdout_fops s' = stdout_fops s \<and> regfile_fops s' = regfile_fops s
     \<and> directory_fops s' = directory_fops s \<and> RTC_fops s' = RTC_fops s"

lemma proc_same_refl [simp]: "proc_same s s"
  by (simp add: proc_same_def)

lemma proc_same_trans: "proc_same s s' \<Longrightarrow> proc_same s' s'' \<Longrightarrow> proc_same s s''"
  by (simp add: proc_same_def)

lemma proc_same_inv: "proc_same s s' \<Longrightarrow> proc_inv s' = proc_inv s"
  by (simp add: proc_same_def proc_inv_def proc_wf_def fops_ready_def pcb_ok_def)

lemma proc_same_running: "proc_same s s' \<Longrightarrow> running s' = running s"
  by (simp add: proc_same_def running_def is_parent_def)

lemma proc_same_ok: "proc_same s s' \<Longrightarrow> sys_ok s' = sys_ok s"
  by (simp add: sys_ok_def proc_same_inv proc_same_running)

lemma proc_same_with_memory [simp]: "proc_same s (with_memory m s)"
  by (simp add: proc_same_def with_memory_def)

lemma proc_same_RTCWrite_freq: "proc_same s (snd (RTCWrite_freq f s))"
  by (simp add: RTCWrite_freq_def proc_same_def outb_def inb_def Let_def)

lemma proc_same_RTCWrite: "RTCWrite p s = (r, s') \<Longrightarrow> proc_same s s'"
  using proc_same_RTCWrite_freq [of s "ld32 (memory s) p"] by (simp add: RTCWrite_def)

lemma proc_same_RTCOpen: "RTCOpen s = Some (r, s') \<Longrightarrow> proc_same s s'"
proof -
  assume "RTCOpen s = Some (r, s')"
  then obtain x where x: "s' = snd (RTCWrite_freq 2 (s\<lparr>RTC_read_flag := x\<rparr>))"
    by (auto simp: RTCOpen_def Option.bind_eq_Some_conv split: if_splits) (metis snd_conv)
  have "proc_same s (s\<lparr>RTC_read_flag := x\<rparr>)" by (simp add: proc_same_def)
  then show "proc_same s s'" unfolding x by (rule proc_same_trans) (rule proc_same_RTCWrite_freq)
qed

lemma proc_same_out_only:
  fixes s s' :: "'a sys_scheme"
  assumes "out_only s s'"
  shows "proc_same s s'"
  using assms by (auto elim!: out_onlyE simp: proc_same_def)

lemma terminalWrite_loop_out_only: "terminalWrite_loop buf i n s = Some s' \<Longrightarrow> out_only s s'"
  by (induction buf i n s rule: terminalWrite_loop.induct)
     (auto simp: Option.bind_eq_Some_conv putc_def split: if_splits intro: out_only_trans out_only_putc_on)

lemma proc_same_terminalWrite:
  fixes s s' :: "'a sys_scheme"
  assumes "terminalWrite buf n s = Some (r, s')"
  shows "proc_same s s'"
proof -
  obtain s1 where s1: "terminalWrite_loop buf 0 (nat n) (s\<lparr>if_flag := False\<rparr>) = Some s1"
      "s' = restore_flags (if_flag s, df_flag s) s1"
    using assms by (auto simp: terminalWrite_def cli_and_save_def Let_def Option.bind_eq_Some_conv)
  have "proc_same (s\<lparr>if_flag := False\<rparr>) s1"
    using s1(1) by (intro proc_same_out_only terminalWrite_loop_out_only)
  then show ?thesis by (simp add: proc_same_def s1(2) restore_flags_def)
qed

lemma read_data_same: "read_data n off buf len s = Some (r, s') \<Longrightarrow> \<exists>m. s' = with_memory m s \<or> s' = s"
  by (auto simp: read_data_def Let_def Option.bind_eq_Some_conv split: if_splits)


lemma call_open_same: "call_open f s = Some (r, s') \<Longrightarrow> f \<noteq> Fn_terminalOpen \<Longrightarrow> proc_same s s'"
  by (auto simp: call_open_def fileOpen_def directoryOpen_def dummy_open_def proc_same_RTCOpen split: kernel_fn.splits)

lemma call_close_same: "call_close f s = Some (r, s') \<Longrightarrow> s' = s"
  by (auto simp: call_close_def terminalClose_def fileClose_def directoryClose_def RTCClose_def dummy_close_def
      split: kernel_fn.splits)

lemma call_write_same: "call_write f buf n s = Some (r, s') \<Longrightarrow> proc_same s s'"
  by (auto simp: call_write_def fileWrite_def directoryWrite_def dummy_write_def Option.bind_eq_Some_conv
      split: kernel_fn.splits intro: proc_same_terminalWrite proc_same_RTCWrite)

section \<open>Descriptor updates\<close>

lemma fdt_put_proc [simp]:
  "PCB_ptrs (fdt_put k i e s) = PCB_ptrs s" "cur_pid (fdt_put k i e s) = cur_pid s" "memory (fdt_put k i e s) = memory s"
  "length (PCB_at (fdt_put k i e s)) = length (PCB_at s)" "curThread (fdt_put k i e s) = curThread s"
  "tlb_dir (fdt_put k i e s) = tlb_dir s" "page_directory (fdt_put k i e s) = page_directory s"
  by (simp_all add: fdt_put_def)

lemma fdt_put_sys [simp]:
  "fdt (fdt_put k i e s) = fdt s" "bootMemAddr (fdt_put k i e s) = bootMemAddr s"
  "stdin_fops (fdt_put k i e s) = stdin_fops s" "stdout_fops (fdt_put k i e s) = stdout_fops s"
  "regfile_fops (fdt_put k i e s) = regfile_fops s" "directory_fops (fdt_put k i e s) = directory_fops s"
  "RTC_fops (fdt_put k i e s) = RTC_fops s" "shellStarted (fdt_put k i e s) = shellStarted s" "tss_esp0 (fdt_put k i e s) = tss_esp0 s"
  by (simp_all add: fdt_put_def)

lemma fdt_put_PCB_at:
  "k < length (PCB_at s) \<Longrightarrow> PCB_at (fdt_put k i e s) ! p =
     (if p = k then (PCB_at s ! k)\<lparr>process_fdt := (process_fdt (PCB_at s ! k))[i := e]\<rparr> else PCB_at s ! p)"
  by (simp add: fdt_put_def nth_list_update)

lemma fdt_put_fields [simp]:
  assumes "k < length (PCB_at s)"
  shows "parent_pid (PCB_at (fdt_put k i e s) ! p) = parent_pid (PCB_at s ! p)"
    "parent_terminal (PCB_at (fdt_put k i e s) ! p) = parent_terminal (PCB_at s ! p)"
    "pid (PCB_at (fdt_put k i e s) ! p) = pid (PCB_at s ! p)"
    "pde (PCB_at (fdt_put k i e s) ! p) = pde (PCB_at s ! p)"
  using assms by (simp_all add: fdt_put_PCB_at)

lemma proc_inv_fdt_put:
  assumes "proc_inv s" "k < 6" "fd_ok i e"
  shows "proc_inv (fdt_put k i e s)"
proof -
  have k: "k < length (PCB_at s)" using assms(1,2) by (simp add: proc_inv_def proc_wf_def)
  have "pcb_ok p (fdt_put k i e s)" if "pcb_ok p s" for p
    using that k assms(3) fdt_wf_update [of "process_fdt (PCB_at s ! k)" i e]
    by (auto simp: pcb_ok_def Let_def fdt_put_PCB_at [of k s i e p])
  then show ?thesis using assms(1) k by (auto simp: proc_inv_def proc_wf_def fops_ready_def)
qed

lemma running_fdt_put: "proc_wf s \<Longrightarrow> k < 6 \<Longrightarrow> running (fdt_put k i e s) = running s"
  by (simp add: running_def is_parent_def proc_wf_def)

lemma sys_ok_fdt_put: "sys_ok s \<Longrightarrow> k < 6 \<Longrightarrow> fd_ok i e \<Longrightarrow> sys_ok (fdt_put k i e s)"
  using proc_inv_fdt_put [of s k i e] running_fdt_put [of s k i e] by (simp add: sys_ok_def proc_inv_def)

lemma fdt_get_wf: "fdt_wf (process_fdt (PCB_at s ! k)) \<Longrightarrow> fdt_get k i s = (if i < 8 then Some (process_fdt (PCB_at s ! k) ! i) else None)"
  by (simp add: fdt_get_def fdt_wf_def)

lemma fdt_get_ok: "fdt_wf (process_fdt (PCB_at s ! k)) \<Longrightarrow> fdt_get k i s = Some e \<Longrightarrow> fd_ok i e \<and> i < 8"
  by (auto simp: fdt_get_def fdt_wf_def split: if_splits)

lemma free_fd_spec:
  "i \<le> 8 \<Longrightarrow> i \<le> free_fd tab i \<and> free_fd tab i \<le> 8 \<and> (\<forall>j. i \<le> j \<and> j < free_fd tab i \<longrightarrow> fd_flags (tab ! j) \<noteq> UNUSED_FLAG)
     \<and> (free_fd tab i < 8 \<longrightarrow> fd_flags (tab ! free_fd tab i) = UNUSED_FLAG)"
proof (induction tab i rule: free_fd.induct)
  case (1 tab index)
  then show ?case
    by (subst (1 2 3 4 5) free_fd.simps) (auto simp: not_less_eq_eq le_Suc_eq Suc_le_eq dest: le_neq_implies_less)
qed


section \<open>The calls keep the invariant\<close>

lemma fileRead_inv:
  assumes "sys_ok s" "fileRead fd buf n s = Some (r, s')"
  shows "sys_ok s'"
proof (cases "s' = s")
  case False
  obtain k b where k: "k < 6" "fdt s = Some k" "PCB_at s ! k = b" "fdt_wf (process_fdt b)"
    using sys_okD [OF assms(1)] by metis
  obtain e r1 s1 where e: "fdt_get k (nat fd) s = Some e" "read_data (fd_inodeNum e) (file_position e) buf (of_int n) s = Some (r1, s1)"
      "s' = s1 \<or> s' = fdt_put k (nat fd) (e\<lparr>file_position := file_position e + of_int r1\<rparr>) s1"
    using assms(2) False k by (auto simp: fileRead_def Option.bind_eq_Some_conv split: if_splits)
  have s1: "proc_same s s1" using read_data_same [OF e(2)] by auto
  have "fd_ok (nat fd) e" using fdt_get_ok e(1) k by metis
  then show ?thesis
    using e(3) assms(1) k(1) s1 by (auto simp: proc_same_ok intro!: sys_ok_fdt_put)
qed (use assms in simp)

lemma directoryRead_inv:
  assumes "sys_ok s" "directoryRead d0 fd buf n s = Some (r, s')"
  shows "sys_ok s'"
proof (cases "s' = s")
  case False
  obtain k b where k: "k < 6" "fdt s = Some k" "PCB_at s ! k = b" "fdt_wf (process_fdt b)"
    using sys_okD [OF assms(1)] by metis
  obtain e p m where e: "fdt_get k (nat fd) s = Some e"
      "s' = fdt_put k (nat fd) (e\<lparr>file_position := p\<rparr>) s \<or> s' = fdt_put k (nat fd) (e\<lparr>file_position := p\<rparr>) (with_memory m s)"
    using assms(2) False k by (auto simp: directoryRead_def Option.bind_eq_Some_conv Let_def split: if_splits prod.splits)
  have "fd_ok (nat fd) e" using fdt_get_ok e(1) k by metis
  then show ?thesis
    using e(2) assms(1) k(1) by (auto simp: proc_same_ok [OF proc_same_with_memory] intro!: sys_ok_fdt_put)
qed (use assms in simp)

fun sysret_state :: "'s sysret \<Rightarrow> 's" where
  "sysret_state (Ret r s) = s"
| "sysret_state (TermWait p n s) = s"
| "sysret_state (RtcWait s) = s"
| "sysret_state (EnterUser eip s) = s"
| "sysret_state (HaltSpin s) = s"
| "sysret_state (HaltResume a b c s) = s"

lemma sys_read_inv:
  assumes "sys_ok s" "sys_read d0 fd buf n s = Some r"
  shows "sys_ok (sysret_state r)"
proof -
  have w: "sys_ok (s\<lparr>readWaiting := x\<rparr>)" "sys_ok (s\<lparr>RTC_read_flag := y\<rparr>)" for x y
    using assms(1) proc_same_ok [of s "s\<lparr>readWaiting := x\<rparr>"] proc_same_ok [of s "s\<lparr>RTC_read_flag := y\<rparr>"]
    by (simp_all add: proc_same_def)
  have "r = Ret ERROR_VAL s \<or> (\<exists>f. call_read d0 f fd buf n s = Some r)"
    using assms(2) by (auto simp: sys_read_def Option.bind_eq_Some_conv split: if_splits)
  then show ?thesis
  proof (elim disjE exE)
    fix f assume "call_read d0 f fd buf n s = Some r"
    then show ?thesis
      using assms(1) fileRead_inv [OF assms(1)] directoryRead_inv [OF assms(1)] w
      by (cases f) (auto simp: call_read_def terminalRead_start_def RTCRead_start_def dummy_read_def
          Option.bind_eq_Some_conv split: if_splits)
  qed (use assms in simp)
qed

lemma sys_write_inv:
  assumes "sys_ok s" "sys_write fd buf n s = Some (r, s')"
  shows "sys_ok s'"
proof -
  have "s' = s \<or> (\<exists>f. call_write f buf n s = Some (r, s'))"
    using assms(2) by (auto simp: sys_write_def Option.bind_eq_Some_conv split: if_splits)
  then have "proc_same s s'" using call_write_same by auto
  then show ?thesis using assms by (simp add: proc_same_ok)
qed

lemma sys_close_result:
  assumes "sys_ok s" "cur_pid s = int k"
  shows "sys_close fd s =
    (if fd = 8 then None
     else if fd < 2 \<or> fd > 8 \<or> fd_flags (process_fdt (PCB_at s ! k) ! nat fd) = UNUSED_FLAG then Some (ERROR_VAL, s)
     else Some (0, fdt_put k (nat fd) ((process_fdt (PCB_at s ! k) ! nat fd)\<lparr>fd_flags := UNUSED_FLAG\<rparr>) s))"
proof -
  obtain b where k: "k < 6" "pcb_place (cur_pid s) s = Some k" "PCB_at s ! k = b" "fdt_wf (process_fdt b)"
    using sys_okD [OF assms(1)] assms(2) by (metis of_nat_eq_iff)
  show ?thesis
  proof (cases "2 \<le> fd \<and> fd < 8")
    case True
    then have i: "nat fd < 8" "nat fd \<noteq> 0" "nat fd \<noteq> 1" by auto
    then have "fd_ok (nat fd) (process_fdt b ! nat fd)" using k(4) by (simp add: fdt_wf_def)
    with i True k assms(1) show ?thesis
      by (auto simp: sys_close_def fdt_get_wf fd_ok_def fops_of_def sys_ok_def proc_inv_def fops_ready_def call_close_def
          RTCClose_def directoryClose_def fileClose_def)
  next
    case False
    with k show ?thesis by (auto simp: sys_close_def fdt_get_wf)
  qed
qed


text \<open>The descriptor a successful open leaves behind.\<close>

definition opened_fd :: "dentry \<Rightarrow> file_descriptor_entry" where
  "opened_fd d =
    (if fileType d = 0 then \<lparr>fops_pointer = Some Rtc_fops, fd_inodeNum = 0, file_position = 0, fd_flags = RTC_FLAG\<rparr>
     else if fileType d = 1 then \<lparr>fops_pointer = Some Directory_fops, fd_inodeNum = 0, file_position = 0, fd_flags = DIRECTORY_FLAG\<rparr>
     else \<lparr>fops_pointer = Some Regfile_fops, fd_inodeNum = inodeNum d, file_position = 0, fd_flags = REGFILE_FLAG\<rparr>)"

definition special_name :: "(nat \<Rightarrow> byte) \<Rightarrow> bool" where
  "special_name name \<longleftrightarrow> strncmp name (str_view ''stdin'') 5 = 0 \<or> strncmp name (str_view ''stdout'') 6 = 0"

definition lookup :: "(nat \<Rightarrow> byte) \<Rightarrow> 'a fs_scheme \<Rightarrow> dentry option" where
  "lookup name s = find (\<lambda>d. name_of d = cstr_n name 32) (directory (memory s) (bootMemAddr s))"

lemma opened_fd_ok: "2 \<le> i \<Longrightarrow> fd_ok i (opened_fd d)"
  by (simp add: opened_fd_def fd_ok_def)

lemma RTCOpen_total:
  assumes "process_terminal s = Some t" "t < 3"
  shows "\<exists>r s'. RTCOpen s = Some (r, s')"
  using assms by (simp add: RTCOpen_def)

lemma process_terminal_fdt_put [simp]:
  "k < length (PCB_at s) \<Longrightarrow> process_terminal (fdt_put k i e s) = process_terminal s"
  by (auto simp: process_terminal_def pcb_of_def pcb_place_def fdt_put_PCB_at option.map_comp o_def
      intro!: option.map_cong)

lemma word_le_2: "(w :: u32) \<le> 2 \<Longrightarrow> w = 0 \<or> w = 1 \<or> w = 2"
proof -
  assume "w \<le> 2"
  then have "unat w = unat (0 :: u32) \<or> unat w = unat (1 :: u32) \<or> unat w = unat (2 :: u32)"
    by (auto simp: word_le_nat_alt)
  then show ?thesis by (simp add: word_unat_eq_iff)
qed

lemma fd_fill:
  "(e :: file_descriptor_entry)\<lparr>fd_inodeNum := a, file_position := b, fops_pointer := c, fd_flags := d\<rparr>
     = \<lparr>fops_pointer = c, fd_inodeNum = a, file_position = b, fd_flags = d\<rparr>"
  by simp

lemma sys_open_cases:
  assumes "sys_ok s" "cur_pid s = int k"
  defines "i \<equiv> free_fd (process_fdt (PCB_at s ! k)) 2"
  shows "sys_open dinit None s = Some (ERROR_VAL, s)"
    "strncmp name (str_view ''stdin'') 5 = 0 \<Longrightarrow> sys_open dinit (Some name) s = Some (0, s)"
    "strncmp name (str_view ''stdin'') 5 \<noteq> 0 \<Longrightarrow> strncmp name (str_view ''stdout'') 6 = 0 \<Longrightarrow> sys_open dinit (Some name) s = Some (1, s)"
    "\<not> special_name name \<Longrightarrow> i = 8 \<or> lookup name s = None \<Longrightarrow> sys_open dinit (Some name) s = Some (ERROR_VAL, s)"
    "\<not> special_name name \<Longrightarrow> i < 8 \<Longrightarrow> lookup name s = Some d \<Longrightarrow> fileType d \<le> 2 \<Longrightarrow>
       \<exists>s'. sys_open dinit (Some name) s = Some (int i, s') \<and> proc_same (fdt_put k i (opened_fd d) s) s' \<and> memory s' = memory s
          \<and> (fileType d \<noteq> 0 \<longrightarrow> s' = fdt_put k i (opened_fd d) s)"
    "\<not> special_name name \<Longrightarrow> i < 8 \<Longrightarrow> lookup name s = Some d \<Longrightarrow> 2 < fileType d \<Longrightarrow>
       sys_open dinit (Some name) s = Some (ERROR_VAL, fdt_put k i ((process_fdt (PCB_at s ! k) ! i)\<lparr>fd_inodeNum := 0, file_position := 0\<rparr>) s)"
proof -
  obtain b where k: "k < 6" "fdt s = Some k" "pcb_place (cur_pid s) s = Some k" "PCB_at s ! k = b" "fdt_wf (process_fdt b)"
      "process_terminal s = Some (parent_terminal b)" "parent_terminal b < 3"
    using sys_okD [OF assms(1)] assms(2) by (metis of_nat_eq_iff)
  have len: "length (PCB_at s) = 6" using assms(1) by (simp add: sys_ok_def proc_inv_def proc_wf_def)
  have same: "s\<lparr>fdt := Some k\<rparr> = s" using k(2) by simp
  have ready: "fops_ready s" using assms(1) by (simp add: sys_ok_def proc_inv_def)
  note unfold = sys_open_def k(3) same read_dentry_by_name_find special_name_def lookup_def Let_def
  show "sys_open dinit None s = Some (ERROR_VAL, s)"
    "strncmp name (str_view ''stdin'') 5 = 0 \<Longrightarrow> sys_open dinit (Some name) s = Some (0, s)"
    "strncmp name (str_view ''stdin'') 5 \<noteq> 0 \<Longrightarrow> strncmp name (str_view ''stdout'') 6 = 0 \<Longrightarrow> sys_open dinit (Some name) s = Some (1, s)"
    by (simp_all add: unfold)
  show "\<not> special_name name \<Longrightarrow> i = 8 \<or> lookup name s = None \<Longrightarrow> sys_open dinit (Some name) s = Some (ERROR_VAL, s)"
    by (auto simp: unfold i_def)
  show "sys_open dinit (Some name) s = Some (ERROR_VAL, fdt_put k i ((process_fdt (PCB_at s ! k) ! i)\<lparr>fd_inodeNum := 0, file_position := 0\<rparr>) s)"
    if "\<not> special_name name" "i < 8" "lookup name s = Some d" "2 < fileType d"
    using that k(5) by (auto simp: unfold i_def fdt_get_def fdt_wf_def k(4) Let_def)
  show "\<exists>s'. sys_open dinit (Some name) s = Some (int i, s') \<and> proc_same (fdt_put k i (opened_fd d) s) s' \<and> memory s' = memory s
       \<and> (fileType d \<noteq> 0 \<longrightarrow> s' = fdt_put k i (opened_fd d) s)"
    if *: "\<not> special_name name" "i < 8" "lookup name s = Some d" "fileType d \<le> 2"
  proof (cases "fileType d = 0")
    case True
    let ?s1 = "fdt_put k i (opened_fd d) s"
    obtain r s' where r: "RTCOpen ?s1 = Some (r, s')"
      using RTCOpen_total [of ?s1 "parent_terminal b"] k(1,6,7) len by auto
    have "memory s' = memory s"
      using r by (auto simp: RTCOpen_def RTCWrite_freq_def Option.bind_eq_Some_conv Let_def inb_def split: if_splits prod.splits)
    moreover have "sys_open dinit (Some name) s = Some (int i, s')"
      using * k(5) ready True r
      by (auto simp: unfold i_def fdt_get_def fdt_wf_def k(4) Let_def opened_fd_def call_open_def fops_ready_def fd_fill)
    ultimately show ?thesis using proc_same_RTCOpen [OF r] True by simp
  next
    case False
    then have "fileType d = 1 \<or> fileType d = 2" using word_le_2 [OF *(4)] by simp
    then show ?thesis
      using * k(5) ready by (auto simp: unfold i_def fdt_get_def fdt_wf_def k(4) Let_def opened_fd_def call_open_def fops_ready_def fd_fill
         directoryOpen_def fileOpen_def)
  qed
qed


lemma sys_open_inv:
  assumes "sys_ok s" "sys_open d0 name s = Some (r, s')"
  shows "sys_ok s'"
proof -
  obtain k where k: "k < 6" "cur_pid s = int k" "fdt_wf (process_fdt (PCB_at s ! k))" using sys_okD [OF assms(1)] by metis
  let ?i = "free_fd (process_fdt (PCB_at s ! k)) 2"
  have i: "2 \<le> ?i" "?i \<le> 8" "?i < 8 \<Longrightarrow> fd_flags (process_fdt (PCB_at s ! k) ! ?i) = 0"
    using free_fd_spec [of 2 "process_fdt (PCB_at s ! k)"] by auto
  note c = sys_open_cases [OF assms(1) k(2), where dinit = d0]
  show ?thesis
  proof (cases name)
    case None
    with c(1) assms show ?thesis by simp
  next
    case (Some nm)
    show ?thesis
    proof (cases "special_name nm \<or> ?i = 8 \<or> lookup nm s = None")
      case True
      then have "s' = s" using c(2,3,4) [where name = nm] assms(2) Some
        by (cases "strncmp nm (str_view ''stdin'') 5 = 0"; cases "strncmp nm (str_view ''stdout'') 6 = 0")
           (auto simp: special_name_def)
      with assms(1) show ?thesis by simp
    next
      case False
      then obtain d where d: "\<not> special_name nm" "?i < 8" "lookup nm s = Some d" using i(2) by fastforce
      show ?thesis
      proof (cases "fileType d \<le> 2")
        case True
        then have "proc_same (fdt_put k ?i (opened_fd d) s) s'" using c(5) [OF d] assms(2) Some by auto
        then show ?thesis using assms(1) k(1) i(1) by (simp add: proc_same_ok sys_ok_fdt_put opened_fd_ok)
      next
        case False
        have "fd_ok ?i ((process_fdt (PCB_at s ! k) ! ?i)\<lparr>fd_inodeNum := 0, file_position := 0\<rparr>)"
          using i d(2) by (simp add: fd_ok_def)
        then show ?thesis using c(6) [OF d] False assms Some k(1) by (auto intro!: sys_ok_fdt_put)
      qed
    qed
  qed
qed

lemma sys_close_inv:
  assumes "sys_ok s" "sys_close fd s = Some (r, s')"
  shows "sys_ok s'"
proof -
  obtain k where k: "k < 6" "cur_pid s = int k" using sys_okD [OF assms(1)] by metis
  have "fd_ok i (e\<lparr>fd_flags := UNUSED_FLAG\<rparr>)" if "2 \<le> i" for i e using that by (simp add: fd_ok_def)
  then show ?thesis
    using assms k(1) by (auto simp: sys_close_result [OF assms(1) k(2)] split: if_splits intro!: sys_ok_fdt_put)
qed

end
