(* ===== verification/Reader.thy ===== *)
theory Reader
  imports "HOL-Library.Monad_Syntax"
begin

text \<open>
  The interface between a program that reads an object to its end and the operation it reads
  with.  A step delivers the next piece of the object, empty exactly at the end; \<open>rest\<close> is what has
  not been delivered yet.  A program that also writes each piece somewhere adds \<open>out\<close> and the
  contents of that place, \<open>sink\<close>.

  \<open>drain\<close> and \<open>pump\<close> are the loops \<^verbatim>\<open>while (0 != (cnt = read (fd, buf, n)))\<close> of the user
  programs, the second one with a write in its body; the number bounds the calls of the step.
\<close>

fun drain :: "('s \<Rightarrow> ('a list \<times> 's) option) \<Rightarrow> nat \<Rightarrow> 's \<Rightarrow> ('a list list \<times> 's) option" where
  "drain step 0 s = None"
| "drain step (Suc n) s = do {
     (d, s) \<leftarrow> step s;
     if d = [] then Some ([], s)
     else do { (ds, s) \<leftarrow> drain step n s; Some (d # ds, s) }
   }"

fun pump :: "('s \<Rightarrow> ('a list \<times> 's) option) \<Rightarrow> ('a list \<Rightarrow> 's \<Rightarrow> 's option) \<Rightarrow> nat \<Rightarrow> 's \<Rightarrow> 's option" where
  "pump step out 0 s = None"
| "pump step out (Suc n) s = do {
     (d, s) \<leftarrow> step s;
     if d = [] then Some s
     else do { s \<leftarrow> out d s; pump step out n s }
   }"

locale reader =
  fixes step :: "'s \<Rightarrow> ('a list \<times> 's) option"
    and rest :: "'s \<Rightarrow> 'a list"
    and good :: "'s \<Rightarrow> bool"
  assumes step_delivers:
      "good s \<Longrightarrow> rest s \<noteq> [] \<Longrightarrow> \<exists>d s'. step s = Some (d, s') \<and> d \<noteq> [] \<and> rest s = d @ rest s' \<and> good s'"
    and step_ends: "good s \<Longrightarrow> rest s = [] \<Longrightarrow> \<exists>s'. step s = Some ([], s') \<and> good s'"
begin

lemma drain_delivers_all:
  "good s \<Longrightarrow> length (rest s) < n \<Longrightarrow>
     \<exists>ds s0 s'. drain step n s = Some (ds, s') \<and> concat ds = rest s \<and> [] \<notin> set ds \<and> good s'
       \<and> good s0 \<and> rest s0 = [] \<and> step s0 = Some ([], s')"
proof (induction n arbitrary: s)
  case (Suc n)
  show ?case
  proof (cases "rest s = []")
    case True
    then show ?thesis using step_ends [OF Suc.prems(1)] Suc.prems(1) by fastforce
  next
    case False
    then obtain d s1 where d: "step s = Some (d, s1)" "d \<noteq> []" "rest s = d @ rest s1" "good s1"
      using step_delivers [OF Suc.prems(1)] by blast
    then have "length (rest s1) < n" using Suc.prems(2) by (cases d) auto
    then obtain ds s0 s2 where r: "drain step n s1 = Some (ds, s2)" "concat ds = rest s1" "[] \<notin> set ds" "good s2"
        "good s0" "rest s0 = []" "step s0 = Some ([], s2)"
      using Suc.IH [OF d(4)] by blast
    have "drain step (Suc n) s = Some (d # ds, s2)" "concat (d # ds) = rest s" "[] \<notin> set (d # ds)"
      using d r by auto
    with r(4-7) show ?thesis by blast
  qed
qed simp

end

locale copier = reader +
  fixes out :: "'a list \<Rightarrow> 's \<Rightarrow> 's option"
    and sink :: "'s \<Rightarrow> 'b"
    and put :: "'a \<Rightarrow> 'b \<Rightarrow> 'b"
  assumes step_sink: "good s \<Longrightarrow> step s = Some (d, s') \<Longrightarrow> sink s' = sink s"
    and out_puts:
      "good s \<Longrightarrow> step s0 = Some (d, s) \<Longrightarrow> good s0 \<Longrightarrow> d \<noteq> [] \<Longrightarrow>
         \<exists>s'. out d s = Some s' \<and> rest s' = rest s \<and> sink s' = fold put d (sink s) \<and> good s'"
begin

lemma pump_copies_all:
  "good s \<Longrightarrow> length (rest s) < n \<Longrightarrow> \<exists>s'. pump step out n s = Some s' \<and> sink s' = fold put (rest s) (sink s) \<and> good s'"
proof (induction n arbitrary: s)
  case (Suc n)
  show ?case
  proof (cases "rest s = []")
    case True
    then obtain s' where "step s = Some ([], s')" "good s'" using step_ends [OF Suc.prems(1)] by blast
    with True show ?thesis using step_sink [OF Suc.prems(1)] by auto
  next
    case False
    then obtain d s1 where d: "step s = Some (d, s1)" "d \<noteq> []" "rest s = d @ rest s1" "good s1"
      using step_delivers [OF Suc.prems(1)] by blast
    then obtain s2 where o: "out d s1 = Some s2" "rest s2 = rest s1" "sink s2 = fold put d (sink s1)" "good s2"
      using out_puts [OF d(4,1) Suc.prems(1) d(2)] by blast
    have "length (rest s2) < n" using Suc.prems(2) d(2,3) o(2) by (cases d) auto
    then obtain s3 where "pump step out n s2 = Some s3" "sink s3 = fold put (rest s2) (sink s2)" "good s3"
      using Suc.IH [OF o(4)] by blast
    with d o step_sink [OF Suc.prems(1) d(1)] show ?thesis by auto
  qed
qed simp

end

end
