(* ===== verification/File_Access.thy ===== *)
theory File_Access
  imports Syscalls Reader
begin

unbundle bit_operations_syntax

text \<open>
  Reading files and the directory through the system calls: where a user pointer of the running
  process leads, what one read leaves in the process's buffer, and the two kinds of descriptor as
  providers of the \<open>reader\<close> interface, so that reading to the end delivers everything.
\<close>

section \<open>User pointers of the running process\<close>

lemma user_base_process:
  assumes "tlb_dir s ! PROCESS_PAGING_INDEX = process_page k" "k < 6"
  shows "user_base s = 0x800000 + of_nat k * 0x400000"
proof -
  have "k = 0 \<or> k = 1 \<or> k = 2 \<or> k = 3 \<or> k = 4 \<or> k = 5" using assms(2) by linarith
  then show ?thesis unfolding user_base_def assms(1)
    by (elim disjE) (simp_all add: process_page_def frame_of_def)
qed

definition user_frame :: "'a proc_scheme \<Rightarrow> u32" where
  "user_frame s = 0x800000 + of_nat (nat (cur_pid s)) * 0x400000"

lemma user_ptr_ok:
  assumes "sys_ok s"
  shows "user_ptr v n s = (if 0x08000000 \<le> v \<and> unat v + n \<le> 0x08400000 then Some (user_frame s + (v - 0x08000000)) else None)"
proof -
  have c: "tlb_dir s ! PROCESS_PAGING_INDEX = process_page (nat (cur_pid s))" "nat (cur_pid s) < 6"
    using assms by (auto simp: sys_ok_def running_def)
  show ?thesis using user_base_process [OF c]
    by (simp add: user_ptr_def c(1) user_frame_def) (simp add: process_page_def)
qed

lemma user_addr_range:
  assumes "sys_ok s" "0x08000000 \<le> v" "unat v + n \<le> 0x08400000"
  shows "0x800000 \<le> unat (user_frame s + (v - 0x08000000))" "unat (user_frame s + (v - 0x08000000)) + n \<le> 0x2000000"
proof -
  define k where "k = nat (cur_pid s)"
  have k: "k < 6" using assms(1) by (auto simp: sys_ok_def running_def k_def)
  have v: "0x08000000 \<le> unat v" using assms(2) by (simp add: word_le_nat_alt)
  have d: "unat (v - 0x08000000) = unat v - 0x08000000" using assms(2) by (simp add: unat_sub)
  have f: "user_frame s = of_nat (0x800000 + k * 0x400000)" by (simp add: user_frame_def k_def)
  have uf: "unat (user_frame s) = 0x800000 + k * 0x400000"
    unfolding f using k by (intro unat_of_nat_32) simp
  have "unat (user_frame s + (v - 0x08000000)) = 0x800000 + k * 0x400000 + (unat v - 0x08000000)"
    using k assms(3) d uf by (subst unat_word_ariths) simp
  then show "0x800000 \<le> unat (user_frame s + (v - 0x08000000))" "unat (user_frame s + (v - 0x08000000)) + n \<le> 0x2000000"
    using k v assms(3) by auto
qed


section \<open>Reading a file to its end\<close>

definition fd_entry :: "nat \<Rightarrow> 'a proc_scheme \<Rightarrow> file_descriptor_entry" where
  "fd_entry fd s = process_fdt (PCB_at s ! nat (cur_pid s)) ! fd"

text \<open>What a program finds in its buffer after a read.\<close>

definition read_step :: "dentry \<Rightarrow> nat \<Rightarrow> u32 \<Rightarrow> nat \<Rightarrow> 'a sys_scheme \<Rightarrow> (byte list \<times> 'a sys_scheme) option" where
  "read_step d0 fd buf n s = (case sys_read d0 (int fd) buf (int n) s of
     Some (Ret r s') \<Rightarrow>
       if 0 \<le> r then map_option (\<lambda>p. (rd_bytes (memory s') p (nat r), s')) (user_ptr buf (nat r) s') else None
   | _ \<Rightarrow> None)"

definition user_buffer :: "u32 \<Rightarrow> nat \<Rightarrow> bool" where
  "user_buffer buf n \<longleftrightarrow> 0x08000000 \<le> buf \<and> unat buf + n \<le> 0x08400000"

definition file_rest :: "nat \<Rightarrow> 'a sys_scheme \<Rightarrow> byte list" where
  "file_rest fd s = drop (unat (file_position (fd_entry fd s)))
     (file_data (memory s) (bootMemAddr s) (fd_inodeNum (fd_entry fd s)))"

definition file_reading :: "nat \<Rightarrow> u32 \<Rightarrow> nat \<Rightarrow> 'a sys_scheme \<Rightarrow> bool" where
  "file_reading fd buf n s \<longleftrightarrow> sys_ok s \<and> image_placed s \<and> user_buffer buf n \<and> 0 < n
     \<and> 2 \<le> fd \<and> fd < 8 \<and> fd_flags (fd_entry fd s) = REGFILE_FLAG
     \<and> fd_inodeNum (fd_entry fd s) < numInodes (memory s) (bootMemAddr s)
     \<and> unat (file_position (fd_entry fd s)) \<le> length (file_data (memory s) (bootMemAddr s) (fd_inodeNum (fd_entry fd s)))"

lemma length_file_data: "length (file_data m boot n) = unat (inode_length (inode_at m boot n))"
  by (simp add: file_data_def Let_def)

lemma sys_read_file:
  assumes "sys_ok s" "2 \<le> fd" "fd < 8" "fd_flags (fd_entry fd s) = REGFILE_FLAG" "user_buffer buf n"
  shows "sys_read d0 (int fd) buf (int n) s = do {
     (r, s') \<leftarrow> read_data (fd_inodeNum (fd_entry fd s)) (file_position (fd_entry fd s)) (user_frame s + (buf - 0x08000000)) (of_nat n) s;
     Some (Ret r (if r = ERROR_VAL then s'
       else fdt_put (nat (cur_pid s)) fd ((fd_entry fd s)\<lparr>file_position := file_position (fd_entry fd s) + of_int r\<rparr>) s')) }"
proof -
  obtain k where k: "k < 6" "cur_pid s = int k" "fdt s = Some k" "fdt_wf (process_fdt (PCB_at s ! k))"
    using sys_okD [OF assms(1)] by metis
  have e: "fdt_get k fd s = Some (fd_entry fd s)" using k assms(3) by (simp add: fdt_get_wf fd_entry_def)
  have "fd_ok fd (fd_entry fd s)" using fdt_get_ok [OF k(4) e] by simp
  then have f: "fops_pointer (fd_entry fd s) = Some Regfile_fops" using assms(2,4) by (auto simp: fd_ok_def)
  have r: "fn_read (regfile_fops s) = Fn_fileRead" using assms(1) by (simp add: sys_ok_def proc_inv_def fops_ready_def)
  have b: "buf \<noteq> 0" "user_ptr buf n s = Some (user_frame s + (buf - 0x08000000))"
    using assms(5) by (auto simp: user_buffer_def user_ptr_ok [OF assms(1)])
  show ?thesis using assms(2-4) k e f b
    by (simp add: sys_read_def fops_of_def r call_read_def fileRead_def split: bind_splits prod.splits)
qed


text \<open>The effect of a completed read: new bytes in the buffer, a new position in the descriptor.\<close>

definition after_read :: "nat \<Rightarrow> u32 \<Rightarrow> byte list \<Rightarrow> u32 \<Rightarrow> 'a sys_scheme \<Rightarrow> 'a sys_scheme" where
  "after_read fd p data pos s = fdt_put (nat (cur_pid s)) fd ((fd_entry fd s)\<lparr>file_position := pos\<rparr>) (with_memory (wr_bytes (memory s) p data) s)"

lemma with_memory_sel [simp]:
  "memory (with_memory m s) = m" "cur_pid (with_memory m s) = cur_pid s" "PCB_at (with_memory m s) = PCB_at s"
  "bootMemAddr (with_memory m s) = bootMemAddr s"
  by (simp_all add: with_memory_def)

lemma with_memory_same [simp]: "with_memory (memory s) s = s"
  by (simp add: with_memory_def)

lemma after_read_facts:
  fixes s :: "'a sys_scheme" and pos buf :: u32
  assumes "sys_ok s" "image_placed s" "fd < 8" "user_buffer buf (length data)"
  defines "s' \<equiv> after_read fd (user_frame s + (buf - 0x08000000)) data pos s"
  shows "sys_ok s'" "image_placed s'" "same_image (bootMemAddr s) (memory s) (memory s')"
    "memory s' = wr_bytes (memory s) (user_frame s + (buf - 0x08000000)) data" "bootMemAddr s' = bootMemAddr s"
    "fd_entry fd s' = (fd_entry fd s)\<lparr>file_position := pos\<rparr>" "user_frame s' = user_frame s"
    "rd_bytes (memory s') (user_frame s + (buf - 0x08000000)) (length data) = data"
proof -
  let ?p = "user_frame s + (buf - 0x08000000)"
  obtain k where k: "k < 6" "cur_pid s = int k" "fdt_wf (process_fdt (PCB_at s ! k))" "length (PCB_at s) = 6"
    using sys_okD [OF assms(1)] assms(1) unfolding sys_ok_def proc_inv_def proc_wf_def by metis
  have r: "0x800000 \<le> unat ?p" "unat ?p + length data \<le> 0x2000000"
    using user_addr_range [OF assms(1)] assms(4) by (auto simp: user_buffer_def)
  have len: "length data \<le> 2 ^ 32" using r by simp
  have img: "image_size (memory s) (bootMemAddr s) \<le> 2 ^ 32" using assms(2) by (simp add: image_placed_def)
  show m: "memory s' = wr_bytes (memory s) ?p data" and b: "bootMemAddr s' = bootMemAddr s"
    by (simp_all add: s'_def after_read_def)
  show si: "same_image (bootMemAddr s) (memory s) (memory s')"
    unfolding m using image_disjoint [OF assms(2)] r len img by (intro same_image_wr) auto
  show "image_placed s'"
    using assms(2) same_image_ok [OF si] same_image_header [OF si] by (simp add: image_placed_def b)
  have "fd_ok fd (fd_entry fd s)" using k assms(3) by (simp add: fd_entry_def fdt_wf_def)
  then show "sys_ok s'" using assms(1) k(1,2) unfolding s'_def after_read_def
    by (intro sys_ok_fdt_put) (simp_all add: proc_same_ok [OF proc_same_with_memory])
  show "fd_entry fd s' = (fd_entry fd s)\<lparr>file_position := pos\<rparr>"
    using k assms(3) by (simp add: s'_def after_read_def fd_entry_def fdt_put_PCB_at fdt_wf_def)
  show "user_frame s' = user_frame s" by (simp add: s'_def after_read_def user_frame_def)
  show "rd_bytes (memory s') ?p (length data) = data" unfolding m using len by (rule rd_wr_bytes)
qed

lemma read_step_file:
  assumes "file_reading fd buf n s"
  defines "data \<equiv> take n (file_rest fd s)"
  defines "s' \<equiv> after_read fd (user_frame s + (buf - 0x08000000)) data (file_position (fd_entry fd s) + of_nat (length data)) s"
  shows "read_step d0 fd buf n s = Some (data, s')" "file_rest fd s = data @ file_rest fd s'" "file_reading fd buf n s'"
proof -
  let ?e = "fd_entry fd s" and ?m = "memory s" and ?b = "bootMemAddr s" and ?p = "user_frame s + (buf - 0x08000000)"
  have a: "sys_ok s" "image_placed s" "user_buffer buf n" "0 < n" "2 \<le> fd" "fd < 8" "fd_flags ?e = REGFILE_FLAG"
      "fd_inodeNum ?e < numInodes ?m ?b" "unat (file_position ?e) \<le> length (file_data ?m ?b (fd_inodeNum ?e))"
    using assms(1) by (auto simp: file_reading_def)
  have n: "n \<le> 0x400000" using a(3) by (auto simp: user_buffer_def word_le_nat_alt)
  have r: "0x800000 \<le> unat ?p" "unat ?p + n \<le> 0x2000000"
    using user_addr_range [OF a(1)] a(3) by (auto simp: user_buffer_def)
  have ub: "user_buffer buf (length data)" using a(3) by (auto simp: user_buffer_def data_def min_def)
  note f = after_read_facts [OF a(1,2,6) ub, of "file_position ?e + of_nat (length data)", folded s'_def]
  have rd: "read_data (fd_inodeNum ?e) (file_position ?e) ?p (of_nat n) s = Some (int (length data), with_memory (wr_bytes ?m ?p data) s)"
  proof (cases "unat (file_position ?e) = length (file_data ?m ?b (fd_inodeNum ?e))")
    case True
    then have "file_position ?e = inode_length (inode_at ?m ?b (fd_inodeNum ?e))"
      by (simp add: length_file_data word_unat_eq_iff)
    moreover have "?p \<noteq> 0" using r by auto
    moreover have "data = []" using True by (simp add: data_def file_rest_def)
    ultimately show ?thesis using a(8) by (simp add: read_data_at_end)
  next
    case False
    then have "file_position ?e < inode_length (inode_at ?m ?b (fd_inodeNum ?e))"
      using a(9) by (simp add: length_file_data word_less_nat_alt)
    moreover have "?p \<noteq> 0" using r by auto
    moreover have "unat (of_nat n :: u32) = n" using n by (simp add: unat_of_nat_32)
    ultimately show ?thesis
      using read_data_slice [of s "fd_inodeNum ?e" ?p "file_position ?e" "of_nat n"] a(2,8) image_disjoint [OF a(2), of ?p n] r
      by (simp add: image_placed_def data_def file_rest_def)
  qed
  have read: "sys_read d0 (int fd) buf (int n) s = Some (Ret (int (length data)) s')"
    using sys_read_file [OF a(1,5,6,7,3), of d0] by (simp add: rd s'_def after_read_def)
  show "read_step d0 fd buf n s = Some (data, s')"
    using ub f by (simp add: read_step_def read user_ptr_ok user_buffer_def)
  have pos: "unat (file_position ?e + of_nat (length data)) = unat (file_position ?e) + length data"
  proof -
    have "unat (file_position ?e) + length data \<le> length (file_data ?m ?b (fd_inodeNum ?e))"
      using a(9) by (auto simp: data_def file_rest_def)
    then have "unat (file_position ?e) + length data < 2 ^ 32"
      using unat_lt_2p32 [of "inode_length (inode_at ?m ?b (fd_inodeNum ?e))"] by (simp add: length_file_data)
    then show ?thesis by (simp add: unat_word_ariths unat_of_nat_32)
  qed
  have fdata: "file_data (memory s') ?b (fd_inodeNum ?e) = file_data ?m ?b (fd_inodeNum ?e)"
    using a(2,8) by (intro same_image_file [OF f(3)]) (simp_all add: image_placed_def)
  have "file_rest fd s' = drop (length data) (file_rest fd s)"
    by (simp add: file_rest_def f(5,6) fdata pos) (simp add: add.commute)
  moreover have "drop (length data) (file_rest fd s) = drop n (file_rest fd s)" by (simp add: data_def min_def)
  ultimately show "file_rest fd s = data @ file_rest fd s'" by (simp add: data_def)
  show "file_reading fd buf n s'"
    unfolding file_reading_def using a f same_image_header [OF f(3)] fdata pos by (auto simp: data_def file_rest_def)
qed

interpretation file_reader: reader "read_step d0 fd buf n" "file_rest fd" "file_reading fd buf n" for d0 fd buf n
proof
  fix s :: "'a sys_scheme" assume g: "file_reading fd buf n s"
  note r = read_step_file(1) [OF g, of d0] read_step_file(2,3) [OF g]
  {
    assume "file_rest fd s \<noteq> []"
    moreover have "0 < n" using g by (simp add: file_reading_def)
    ultimately have "take n (file_rest fd s) \<noteq> []" by simp
    with r show "\<exists>d s'. read_step d0 fd buf n s = Some (d, s') \<and> d \<noteq> [] \<and> file_rest fd s = d @ file_rest fd s' \<and> file_reading fd buf n s'"
      by blast
  }
  {
    assume "file_rest fd s = []"
    with r show "\<exists>s'. read_step d0 fd buf n s = Some ([], s') \<and> file_reading fd buf n s'" by auto
  }
qed

section \<open>Reading the directory to its end\<close>

text \<open>Each read of the directory delivers one name; the objects delivered are names.\<close>

definition dir_step :: "dentry \<Rightarrow> nat \<Rightarrow> u32 \<Rightarrow> nat \<Rightarrow> 'a sys_scheme \<Rightarrow> (byte list list \<times> 'a sys_scheme) option" where
  "dir_step d0 fd buf n s = map_option (\<lambda>(d, s'). (if d = [] then [] else [d], s')) (read_step d0 fd buf n s)"

definition dir_rest :: "nat \<Rightarrow> 'a sys_scheme \<Rightarrow> byte list list" where
  "dir_rest fd s = drop (unat (file_position (fd_entry fd s))) (map name_of (directory (memory s) (bootMemAddr s)))"

definition dir_reading :: "nat \<Rightarrow> u32 \<Rightarrow> nat \<Rightarrow> 'a sys_scheme \<Rightarrow> bool" where
  "dir_reading fd buf n s \<longleftrightarrow> sys_ok s \<and> image_placed s \<and> user_buffer buf MAX_FILENAME_LENGTH
     \<and> 2 \<le> fd \<and> fd < 8 \<and> fd_flags (fd_entry fd s) = DIRECTORY_FLAG
     \<and> unat (file_position (fd_entry fd s)) \<le> length (directory (memory s) (bootMemAddr s))
     \<and> [] \<notin> name_of ` set (directory (memory s) (bootMemAddr s))"

lemma sys_read_directory:
  assumes "sys_ok s" "2 \<le> fd" "fd < 8" "fd_flags (fd_entry fd s) = DIRECTORY_FLAG" "user_buffer buf MAX_FILENAME_LENGTH"
  shows "sys_read d0 (int fd) buf (int n) s = map_option (\<lambda>(r, s). Ret r s) (directoryRead d0 (int fd) (user_frame s + (buf - 0x08000000)) (int n) s)"
proof -
  obtain k where k: "k < 6" "cur_pid s = int k" "fdt s = Some k" "fdt_wf (process_fdt (PCB_at s ! k))"
    using sys_okD [OF assms(1)] by metis
  have e: "fdt_get k fd s = Some (fd_entry fd s)" using k assms(3) by (simp add: fdt_get_wf fd_entry_def)
  have "fd_ok fd (fd_entry fd s)" using fdt_get_ok [OF k(4) e] by simp
  then have f: "fops_pointer (fd_entry fd s) = Some Directory_fops" using assms(2,4) by (auto simp: fd_ok_def)
  have r: "fn_read (directory_fops s) = Fn_directoryRead" using assms(1) by (simp add: sys_ok_def proc_inv_def fops_ready_def)
  have b: "buf \<noteq> 0" "user_ptr buf 32 s = Some (user_frame s + (buf - 0x08000000))"
    using assms(5) by (auto simp: user_buffer_def user_ptr_ok [OF assms(1)])
  show ?thesis using assms(2-4) k e f b
    by (simp add: sys_read_def fops_of_def r call_read_def split: bind_splits prod.splits)
qed

lemma read_step_dir:
  assumes "dir_reading fd buf n s"
  defines "i \<equiv> unat (file_position (fd_entry fd s))" and "p \<equiv> user_frame s + (buf - 0x08000000)"
    and "dir \<equiv> directory (memory s) (bootMemAddr s)"
  defines "s' \<equiv> (if i < length dir then after_read fd p (name_of (dir ! i)) (file_position (fd_entry fd s) + 1) s
                  else after_read fd p [] 0 s)"
  shows "read_step d0 fd buf n s = Some (if i < length dir then name_of (dir ! i) else [], s')"
    "dir_reading fd buf n s'" "i < length dir \<Longrightarrow> dir_rest fd s = name_of (dir ! i) # dir_rest fd s'"
    "i = length dir \<Longrightarrow> file_position (fd_entry fd s') = 0"
proof -
  let ?e = "fd_entry fd s" and ?m = "memory s" and ?b = "bootMemAddr s"
  have a: "sys_ok s" "image_placed s" "user_buffer buf 32" "2 \<le> fd" "fd < 8" "fd_flags ?e = DIRECTORY_FLAG"
      "i \<le> length dir" "[] \<notin> name_of ` set dir"
    using assms(1) by (auto simp: dir_reading_def i_def dir_def)
  have len: "length dir = unat (numDirectories ?m ?b)" by (simp add: dir_def directory_def)
  have end_iff: "file_position ?e = numDirectories ?m ?b \<longleftrightarrow> i = length dir"
    unfolding len i_def by (simp add: word_unat_eq_iff)
  obtain k where k: "k < 6" "cur_pid s = int k" "fdt s = Some k" "fdt_wf (process_fdt (PCB_at s ! k))"
    using sys_okD [OF a(1)] by metis
  have e: "fdt_get k fd s = Some ?e" using k a(5) by (simp add: fdt_get_wf fd_entry_def)
  have nlen: "length (name_of d) \<le> 32" if "d \<in> set dir" for d
    using that by (auto simp: dir_def directory_def name_of_ld_dentry length_cstr_n)
  define nm where "nm = (if i < length dir then name_of (dir ! i) else [])"
  define pos where "pos = (if i < length dir then file_position ?e + 1 else 0)"
  have s': "s' = after_read fd p nm pos s" by (simp add: s'_def nm_def pos_def)
  have ub: "user_buffer buf (length nm)"
    using a(3) nlen [of "dir ! i"] by (auto simp: user_buffer_def nm_def)
  note f = after_read_facts [OF a(1,2,5) ub, of pos, folded p_def s']
  have dr: "directoryRead d0 (int fd) p (int n) s = Some (int (length nm), s')"
  proof (cases "i < length dir")
    case True
    then have idx: "file_position ?e < numDirectories ?m ?b" by (simp add: i_def len word_less_nat_alt)
    have d: "dir ! i = ld_dentry ?m (dentry_addr ?b (file_position ?e))"
      using True by (simp add: dir_def directory_def i_def)
    let ?v = "\<lambda>j. if j < 32 then fileName (dir ! i) ! j else ucast (drop_bit (8 * (j - 32)) (fileType (dir ! i))) :: byte"
    have "cstr_n ?v 32 = cstr_n (view ?m (dentry_addr ?b (file_position ?e))) 32"
      by (rule cstr_n_cong) (simp add: d ld_dentry_def view_def)
    also have "\<dots> = nm" using True by (simp add: nm_def d name_of_ld_dentry)
    finally have c: "cstr_n (\<lambda>j. if j < 32 then fileName (the (Some (dir ! i))) ! j
        else ucast (drop_bit (8 * (j - 32)) (fileType (the (Some (dir ! i)))))) 32 = nm"
      unfolding option.sel .
    from True idx k e a(4,5) show ?thesis
      by (simp add: directoryRead_def end_iff read_dentry_by_index_def d [symmetric] strcpyFile_eq c s' after_read_def pos_def not_le)
  next
    case False
    then have "i = length dir" using a(7) by simp
    with k e a(4,5) show ?thesis
      by (simp add: directoryRead_def end_iff s' after_read_def nm_def pos_def)
  qed
  have read: "sys_read d0 (int fd) buf (int n) s = Some (Ret (int (length nm)) s')"
    using sys_read_directory [OF a(1,4,5,6,3), of d0 n, folded p_def] dr by simp
  show "read_step d0 fd buf n s = Some (if i < length dir then name_of (dir ! i) else [], s')"
    using ub f read unfolding nm_def [symmetric] by (simp add: read_step_def user_ptr_ok user_buffer_def p_def)
  have dir': "directory (memory s') ?b = dir"
    unfolding dir_def using a(2) by (intro same_image_directory [OF f(3)]) (simp add: image_placed_def)
  have pos: "unat pos = (if i < length dir then Suc i else 0)"
  proof -
    have "Suc i < 2 ^ 32" if "i < length dir" using that unat_lt_2p32 [of "numDirectories ?m ?b"] by (simp add: len)
    then show ?thesis by (auto simp: pos_def i_def unat_word_ariths)
  qed
  show "dir_reading fd buf n s'"
    unfolding dir_reading_def using a f dir' pos by auto
  show "dir_rest fd s = name_of (dir ! i) # dir_rest fd s'" if "i < length dir"
    using that f(5,6) dir' pos unfolding dir_rest_def dir_def [symmetric] i_def [symmetric]
    by (simp add: Cons_nth_drop_Suc [symmetric])
  show "i = length dir \<Longrightarrow> file_position (fd_entry fd s') = 0" using f(6) by (simp add: pos_def)
qed

lemma dir_step_end:
  assumes "dir_reading fd buf n s" "dir_rest fd s = []" "dir_step d0 fd buf n s = Some (d, s')"
  shows "file_position (fd_entry fd s') = 0"
proof -
  have "unat (file_position (fd_entry fd s)) = length (directory (memory s) (bootMemAddr s))"
    using assms(1,2) by (simp add: dir_rest_def dir_reading_def)
  then show ?thesis
    using read_step_dir(1) [OF assms(1), of d0] read_step_dir(4) [OF assms(1)] assms(3) by (auto simp: dir_step_def)
qed

interpretation dir_reader: reader "dir_step d0 fd buf n" "dir_rest fd" "dir_reading fd buf n" for d0 fd buf n
proof
  fix s :: "'a sys_scheme" assume g: "dir_reading fd buf n s"
  note r = read_step_dir(1) [OF g, of d0] read_step_dir(2,3) [OF g]
  let ?dir = "directory (memory s) (bootMemAddr s)" and ?i = "unat (file_position (fd_entry fd s))"
  have l: "dir_rest fd s = [] \<longleftrightarrow> \<not> ?i < length ?dir" by (auto simp: dir_rest_def)
  have ne: "?i < length ?dir \<Longrightarrow> name_of (?dir ! ?i) \<noteq> []"
    using g unfolding dir_reading_def by (metis imageI nth_mem)
  {
    assume "dir_rest fd s \<noteq> []"
    with l ne r show "\<exists>d s'. dir_step d0 fd buf n s = Some (d, s') \<and> d \<noteq> [] \<and> dir_rest fd s = d @ dir_rest fd s' \<and> dir_reading fd buf n s'"
      by (simp add: dir_step_def)
  }
  {
    assume "dir_rest fd s = []"
    with l r show "\<exists>s'. dir_step d0 fd buf n s = Some ([], s') \<and> dir_reading fd buf n s'" by (simp add: dir_step_def)
  }
qed

section \<open>A state for concrete evaluations\<close>

text \<open>Process 0 runs on terminal 1 with descriptor 2 open on the file of the demonstration image
  and descriptor 3 on the directory.\<close>

definition demo_fd :: "fops_id \<Rightarrow> u32 \<Rightarrow> file_descriptor_entry" where
  "demo_fd f flag = \<lparr>fops_pointer = Some f, fd_inodeNum = 0, file_position = 0, fd_flags = flag\<rparr>"

definition demo_proc :: PCB where
  "demo_proc = demo_pcb\<lparr>pde := process_page 0,
     process_fdt := initial_fdt[2 := demo_fd Regfile_fops REGFILE_FLAG, 3 := demo_fd Directory_fops DIRECTORY_FLAG]\<rparr>"

definition demo_sys :: sys where
  "demo_sys = (let f = \<lparr>fn_open = Fn_none, fn_close = Fn_none, fn_read = Fn_none, fn_write = Fn_none\<rparr> in
     (initialize_fops (rtc.extend (term_state.extend demo_term (rtc.fields [False, False, False]))
       (sys.fields (Some 0) [True, True, True] 0 (kernel_stack 0) 0x7FFF00 0x7FFF80 f f f f f)))
     \<lparr>cur_pid := 0, PCB_at := replicate 6 demo_proc,
      page_directory := (replicate 1024 (pde_of_val 0))[32 := process_page 0],
      tlb_dir := (replicate 1024 (pde_of_val 0))[32 := process_page 0]\<rparr>)"

lemmas demo_sys_simps = demo_sys_def Let_def initialize_fops_def rtc.extend_def term_state.extend_def rtc.fields_def
  sys.fields_def demo_term_simps

lemma demo_proc_sel [simp]:
  "pid demo_proc = 0" "parent_pid demo_proc = -1" "pde demo_proc = process_page 0" "parent_terminal demo_proc = 1"
  by (simp_all add: demo_proc_def demo_pcb_def)

lemma demo_fdt_wf: "fdt_wf (process_fdt demo_proc)"
  unfolding demo_proc_def by (simp add: fdt_wf_update fdt_wf_initial fd_ok_def demo_fd_def)

lemma demo_sys_sel:
  "memory demo_sys = demo_image" "bootMemAddr demo_sys = 0x500000" "cur_pid demo_sys = 0"
  "PCB_at demo_sys = replicate 6 demo_proc" "PCB_ptrs demo_sys = [Some 0, None, None, None, None, None]"
  "currentTerminal demo_sys = 1" "screen_x demo_sys = [0, 0, 0]" "screen_y demo_sys = [0, 0, 0]"
  "fdt demo_sys = Some 0" "tss_esp0 demo_sys = kernel_stack 0" "cpu_esp demo_sys = 0x7FFF00" "cpu_ebp demo_sys = 0x7FFF80"
  by (simp_all add: demo_sys_simps)

lemma demo_sys_ok: "sys_ok demo_sys"
proof -
  have ptr: "PCB_ptrs demo_sys ! p = (if p = 0 then Some 0 else None)" if "p < 6" for p
    using that by (simp add: demo_sys_sel nth_Cons' numeral_eq_Suc)
  have "proc_wf demo_sys" using ptr by (auto simp: proc_wf_def demo_sys_sel(4,5))
  moreover have "pcb_ok 0 demo_sys" by (simp add: pcb_ok_def Let_def demo_sys_sel(4) demo_fdt_wf)
  moreover have "\<not> is_parent 0 demo_sys" by (auto simp: is_parent_def demo_sys_sel(4) split: if_splits)
  moreover have "fops_ready demo_sys" "length (page_directory demo_sys) = 1024"
    "page_directory demo_sys ! 32 = process_page 0" "tlb_dir demo_sys ! 32 = process_page 0"
    by (simp_all add: fops_ready_def demo_sys_simps)
  ultimately show ?thesis
    using ptr by (auto simp: sys_ok_def proc_inv_def running_def demo_sys_sel(3,9,10))
qed

lemma demo_sys_image: "image_placed demo_sys"
  by (simp add: image_placed_def demo_sys_sel demo_image_ok demo_counts image_size_def)

lemma demo_fds: "fd_entry 2 demo_sys = demo_fd Regfile_fops REGFILE_FLAG" "fd_entry 3 demo_sys = demo_fd Directory_fops DIRECTORY_FLAG"
  by (simp_all add: fd_entry_def demo_sys_sel demo_proc_def initial_fdt_def)

lemma demo_names: "map name_of (directory demo_image 0x500000) = [[97, 98, 99]]"
proof -
  have "name_of (ld_dentry demo_image 0x500040) = [97, 98, 99]"
    by (simp add: name_of_ld_dentry cstr_n_def upt_rec view_def demo_image_def)
  then show ?thesis by (simp add: directory_def demo_counts dentry_addr_def)
qed

section \<open>Properties\<close>

text \<open>
  C14: reading a file to its end through the read system call delivers the file.  A process that has
  a file open and reads it in pieces of at most \<open>n\<close> bytes, \<open>n > 0\<close>, into a buffer of its own page
  gets an answer of 0 after finitely many reads; the non-empty pieces it found in its buffer
  before, put together, are the file's contents from the descriptor's position on.
\<close>

theorem file_read_to_end:
  assumes "file_reading fd buf n s" "length (file_rest fd s) < fuel"
  shows "\<exists>pieces s'. drain (read_step d0 fd buf n) fuel s = Some (pieces, s')
     \<and> concat pieces = file_rest fd s \<and> [] \<notin> set pieces \<and> file_reading fd buf n s'"
  using file_reader.drain_delivers_all [OF assms, of d0] by fastforce

theorem file_read_to_end_witness:
  "\<exists>pieces s'. drain (read_step (ld_dentry demo_image 0) 2 0x08100000 2) 6 demo_sys = Some (pieces, s')
     \<and> concat pieces = [104, 101, 108, 108, 111]"
proof -
  have "file_reading 2 0x08100000 2 demo_sys"
    unfolding file_reading_def
    by (simp add: demo_sys_ok demo_sys_image user_buffer_def demo_fds demo_fd_def demo_sys_sel demo_counts)
  moreover have "file_rest 2 demo_sys = [104, 101, 108, 108, 111]"
    by (simp add: file_rest_def demo_fds demo_fd_def demo_sys_sel demo_file)
  ultimately show ?thesis
    using file_read_to_end [of 2 "0x08100000" 2 demo_sys 6 "ld_dentry demo_image 0"] by auto
qed

text \<open>
  C27: reading the directory to its end lists it.  Each read of a directory descriptor, with a buffer of
  32 bytes in the program's page, delivers one name; the reads before the first answer of 0 deliver the
  names of the directory in its order, from the descriptor's position on, and that answer rewinds the
  descriptor, so that the next read starts again with the first entry.  The directory has no entry
  with an empty name, since a read would answer 0 for it before the end.
\<close>

theorem directory_read_to_end:
  assumes "dir_reading fd buf n s" "length (directory (memory s) (bootMemAddr s)) < fuel"
  shows "\<exists>names s'. drain (dir_step d0 fd buf n) fuel s = Some (names, s')
     \<and> concat names = map name_of (drop (unat (file_position (fd_entry fd s))) (directory (memory s) (bootMemAddr s))) \<and> dir_reading fd buf n s'
     \<and> file_position (fd_entry fd s') = 0"
proof -
  have "dir_rest fd s = map name_of (drop (unat (file_position (fd_entry fd s))) (directory (memory s) (bootMemAddr s)))"
    by (simp add: dir_rest_def drop_map)
  moreover from this assms(2) have "length (dir_rest fd s) < fuel" by simp
  ultimately obtain names s0 s' where r: "drain (dir_step d0 fd buf n) fuel s = Some (names, s')"
      "concat names = map name_of (drop (unat (file_position (fd_entry fd s))) (directory (memory s) (bootMemAddr s)))" "dir_reading fd buf n s'"
      "dir_reading fd buf n s0" "dir_rest fd s0 = []" "dir_step d0 fd buf n s0 = Some ([], s')"
    using dir_reader.drain_delivers_all [OF assms(1), of fuel d0] by metis
  have "file_position (fd_entry fd s') = 0" using dir_step_end [OF r(4-6)] .
  with r show ?thesis by blast
qed

theorem directory_read_to_end_witness:
  "\<exists>names s'. drain (dir_step (ld_dentry demo_image 0) 3 0x08100000 32) 2 demo_sys = Some (names, s')
     \<and> concat names = [[97, 98, 99]]"
proof -
  have "length (directory demo_image 0x500000) = 1" "[] \<notin> name_of ` set (directory demo_image 0x500000)"
    using arg_cong [OF demo_names, of length] arg_cong [OF demo_names, of set] by auto
  then have "dir_reading 3 0x08100000 32 demo_sys"
    unfolding dir_reading_def
    by (simp add: demo_sys_ok demo_sys_image user_buffer_def demo_fds demo_fd_def demo_sys_sel demo_counts)
  with \<open>length (directory demo_image 0x500000) = 1\<close> show ?thesis
    using directory_read_to_end [of 3 "0x08100000" 32 demo_sys 2 "ld_dentry demo_image 0"]
    by (auto simp: demo_names demo_sys_sel demo_fds demo_fd_def)
qed

end
