(* ===== verification/Process_Control.thy ===== *)
theory Process_Control
  imports File_Access
begin

unbundle bit_operations_syntax

text \<open>
  Starting and ending programs: \<open>sys_execute\<close> with its command line, checks, paging, process control
  block and loading; \<open>sys_halt\<close>; the remaining system calls; and the dispatcher.

  Local variables that a path of \<open>sys_execute\<close> can use before they are written are parameters
  (\<open>exec_locals\<close>): the argument buffer, the two kernel stack places read from the file, and the
  directory entry.
\<close>

record exec_locals =
  args_init :: "byte list"
  testBuffer_at :: u32
  program_eip_at :: u32
  dentry_init :: dentry

section \<open>The command line\<close>

function parse_fname :: "(nat \<Rightarrow> byte) \<Rightarrow> nat \<Rightarrow> byte list \<Rightarrow> nat \<times> byte list" where
  "parse_fname command i fname =
    (if command i \<noteq> 0 \<and> command i \<noteq> 32 \<and> i < FNAME_SIZE
     then parse_fname command (Suc i) (fname[i := command i]) else (i, fname))"
  by pat_completeness auto
termination
  by (relation "measure (\<lambda>(command, i, fname). 32 - i)") auto

declare parse_fname.simps [simp del]

partial_function (option) skip_spaces :: "(nat \<Rightarrow> byte) \<Rightarrow> nat \<Rightarrow> nat option" where
  "skip_spaces command i = (if command i = 32 then skip_spaces command (Suc i) else Some i)"

section \<open>Processes\<close>

text \<open>\<^verbatim>\<open>while(pid < MAX_PROCESSES && PCB_ptrs[pid] != NULL) pid++\<close>\<close>

function free_pid :: "nat option list \<Rightarrow> nat \<Rightarrow> nat" where
  "free_pid ptrs p = (if p < MAX_PROCESSES \<and> ptrs ! p \<noteq> None then free_pid ptrs (Suc p) else p)"
  by pat_completeness auto
termination
  by (relation "measure (\<lambda>(ptrs, p). 6 - p)") auto

declare free_pid.simps [simp del]

definition init_process_paging :: "nat \<Rightarrow> 'a sys_scheme \<Rightarrow> 'a sys_scheme" where
  "init_process_paging p s =
    clearTLB (s\<lparr>page_directory := (page_directory s)[PROCESS_PAGING_INDEX :=
      fill_pde (EIGHT_MB + of_nat p * FOUR_MB) True True]\<rparr>)"

definition upd_pcb :: "nat \<Rightarrow> (PCB \<Rightarrow> PCB) \<Rightarrow> 'a proc_scheme \<Rightarrow> 'a proc_scheme" where
  "upd_pcb k f s = s\<lparr>PCB_at := (PCB_at s)[k := f (PCB_at s ! k)]\<rparr>"

text \<open>Filling in the new process control block, up to the file descriptors.\<close>

definition exec_pcb :: "nat \<Rightarrow> byte list \<Rightarrow> 'a sys_scheme \<Rightarrow> 'a sys_scheme option" where
  "exec_pcb p args s = do {
     let s = s\<lparr>PCB_ptrs := (PCB_ptrs s)[p := Some p]\<rparr>;
     let s = upd_pcb p (\<lambda>b. b\<lparr>pid := int p, parent_pid := cur_pid s\<rparr>) s;
     t \<leftarrow> (if cur_pid s = -1 then Some (curThread s) else map_option parent_terminal (pcb_of (cur_pid s) s));
     let s = upd_pcb p (\<lambda>b. b\<lparr>parent_terminal := t\<rparr>) s;
     let s = s\<lparr>cur_pid := int p\<rparr>;
     let s = upd_pcb p (\<lambda>b. b\<lparr>exception_flag := False, pde := page_directory s ! PROCESS_PAGING_INDEX,
                               arg_ptr := strncpy_spec ((!) args) ARG_SIZE\<rparr>) s;
     initialize_FDT (int p) s
   }"

text \<open>Loading the program and entering it; \<open>switch_to_user_mode\<close> turns interrupts on.\<close>

definition exec_load :: "exec_locals \<Rightarrow> nat \<Rightarrow> u32 \<Rightarrow> 'a sys_scheme \<Rightarrow> 'a sys_scheme sysret option" where
  "exec_load loc p inode s = do {
     q \<leftarrow> user_ptr PROGRAM_INIT_VIRTUAL_ADDR
        (unat (min FOUR_MB (inode_length (inode_at (memory s) (bootMemAddr s) inode)))) s;
     (r, s) \<leftarrow> read_data inode 0 q FOUR_MB s;
     if r = -1 then Some (Ret ERROR_VAL s)
     else
       let s = s\<lparr>tss_esp0 := (EIGHT_MB - of_nat p * EIGHT_KB) - 4\<rparr>;
           s = upd_pcb p (\<lambda>b. b\<lparr>esp := cpu_esp s, ebp := cpu_ebp s\<rparr>) s
       in Some (EnterUser (ld32 (memory s) (program_eip_at loc)) (s\<lparr>if_flag := True\<rparr>))
   }"

definition is_elf :: "mem \<Rightarrow> u32 \<Rightarrow> bool" where
  "is_elf m p \<longleftrightarrow> view m p 0 = 0x7F \<and> view m p 1 = 0x45 \<and> view m p 2 = 0x4C \<and> view m p 3 = 0x46"

text \<open>From the check for an executable on, with the process number, the arguments and the file's inode.\<close>

definition exec_checked :: "exec_locals \<Rightarrow> nat \<Rightarrow> byte list \<Rightarrow> u32 \<Rightarrow> 'a sys_scheme \<Rightarrow> 'a sys_scheme sysret option" where
  "exec_checked loc p args inode s = do {
     (r, s) \<leftarrow> read_data inode 0 (testBuffer_at loc) 4 s;
     if r = -1 then Some (Ret ERROR_VAL s)
     else if \<not> is_elf (memory s) (testBuffer_at loc) then Some (Ret ERROR_VAL s)
     else do {
       (r, s) \<leftarrow> read_data inode 24 (program_eip_at loc) 4 s;
       if r = -1 then Some (Ret ERROR_VAL s)
       else do {
         s \<leftarrow> exec_pcb p args (init_process_paging p s);
         exec_load loc p inode s
       }
     }
   }"

definition sys_execute :: "exec_locals \<Rightarrow> (nat \<Rightarrow> byte) option \<Rightarrow> 'a sys_scheme \<Rightarrow> 'a sys_scheme sysret option" where
  "sys_execute loc command s = (case command of
     None \<Rightarrow> Some (Ret ERROR_VAL s)
   | Some cmd \<Rightarrow>
      let p = free_pid (PCB_ptrs s) 0 in
      if p = MAX_PROCESSES then Some (Ret ERROR_VAL s)
      else do {
        let (i, fname) = parse_fname cmd 0 (replicate FNAME_SIZE 0);
        i \<leftarrow> skip_spaces cmd i;
        let args = (if cmd i \<noteq> 0 then strncpy_spec (\<lambda>k. cmd (i + k)) 127 @ [0] else args_init loc);
        let (r, d) = read_dentry_by_name ((!) fname) (Some (dentry_init loc)) s;
        if r = -1 then Some (Ret ERROR_VAL s)
        else exec_checked loc p args (inodeNum (the d)) s
      })"

section \<open>Halting\<close>

text \<open>The loop that closes every descriptor in use, from \<open>index\<close> on.\<close>

function close_fds :: "nat \<Rightarrow> nat \<Rightarrow> 'a sys_scheme \<Rightarrow> 'a sys_scheme option" where
  "close_fds k index s =
    (if index < MAX_NUM_FDT_ENTRIES then do {
       e \<leftarrow> fdt_get k index s;
       s \<leftarrow> (if fd_flags e \<noteq> UNUSED_FLAG then do {
              f \<leftarrow> fops_pointer e;
              (r, s) \<leftarrow> call_close (fn_close (fops_of f s)) s;
              Some s
            } else Some s);
       close_fds k (Suc index) s
     } else Some s)"
  by pat_completeness auto
termination
  by (relation "measure (\<lambda>(k, index, s). 8 - index)") auto

declare close_fds.simps [simp del]

definition sys_halt :: "byte \<Rightarrow> 'a sys_scheme \<Rightarrow> 'a sys_scheme sysret option" where
  "sys_halt status s = do {
     k \<leftarrow> pcb_place (cur_pid s) s;
     let current = nat (cur_pid s);
     let s = s\<lparr>eax_val := ucast status + of_bool (exception_flag (PCB_at s ! k)), fdt := Some k\<rparr>;
     let parents_pid = parent_pid (PCB_at s ! k);
     s \<leftarrow> close_fds k 0 s;
     if parents_pid = -1 then
       Some (HaltSpin (s\<lparr>PCB_ptrs := (PCB_ptrs s)[current := None],
                         shellStarted := (shellStarted s)[curThread s := False]\<rparr>))
     else do {
       let register_val_esp = esp (PCB_at s ! k);
       let register_val_ebp = ebp (PCB_at s ! k);
       q \<leftarrow> pcb_place parents_pid s;
       let s = clearTLB (s\<lparr>page_directory := (page_directory s)[PROCESS_PAGING_INDEX := pde (PCB_at s ! q)]\<rparr>);
       let s = s\<lparr>fdt := Some q, PCB_ptrs := (PCB_ptrs s)[current := None], cur_pid := parents_pid,
                 tss_esp0 := (EIGHT_MB - of_int parents_pid * EIGHT_KB) - 4\<rparr>;
       Some (HaltResume (eax_val s) register_val_esp register_val_ebp s)
     }
   }"

section \<open>The other system calls\<close>

text \<open>The argument buffer is always filled with 128 bytes, whatever \<^verbatim>\<open>nbytes\<close> is.\<close>

definition sys_getargs :: "u32 \<Rightarrow> int \<Rightarrow> 'a sys_scheme \<Rightarrow> (int \<times> 'a sys_scheme) option" where
  "sys_getargs buf nbytes s =
    (if buf = 0 \<or> nbytes < 0 then Some (ERROR_VAL, s)
     else do {
       b \<leftarrow> pcb_of (cur_pid s) s;
       p \<leftarrow> user_ptr buf ARG_SIZE s;
       let s = with_memory (wr_bytes (memory s) p (strncpy_spec ((!) (arg_ptr b)) ARG_SIZE)) s;
       if view (memory s) p 127 \<noteq> 0 then Some (ERROR_VAL, s) else Some (0, s)
     })"

definition sys_vidmap :: "u32 \<Rightarrow> 'a sys_scheme \<Rightarrow> (int \<times> 'a sys_scheme) option" where
  "sys_vidmap screen_start s =
    (if screen_start = 0 then Some (ERROR_VAL, s)
     else if screen_start < EIGHT_MB then Some (ERROR_VAL, s)
     else if screen_start < 0x08000000 \<or> screen_start \<ge> 0x08400000 then Some (ERROR_VAL, s)
     else do {
       b \<leftarrow> pcb_of (cur_pid s) s;
       p \<leftarrow> user_ptr screen_start 4 s;
       let new_address = USER_VIDMAP_ADDR + of_nat (parent_terminal b) * FOUR_KB;
       Some (0, with_memory (st32 (memory s) p new_address) s)
     })"

definition sys_sethandler :: "'a sys_scheme \<Rightarrow> int \<times> 'a sys_scheme" where
  "sys_sethandler s = (ERROR_VAL, s)"

definition sys_sigreturn :: "'a sys_scheme \<Rightarrow> int \<times> 'a sys_scheme" where
  "sys_sigreturn s = (ERROR_VAL, s)"

section \<open>The dispatcher\<close>

definition ret_of :: "(int \<times> 's) option \<Rightarrow> 's sysret option" where
  "ret_of r = map_option (\<lambda>(v, s). Ret v s) r"

definition str_arg :: "u32 \<Rightarrow> 'a paging_scheme \<Rightarrow> (nat \<Rightarrow> byte) option option" where
  "str_arg v s = (if v = 0 then Some None else map_option Some (user_str v s))"

definition syscall :: "exec_locals \<Rightarrow> u32 \<Rightarrow> u32 \<Rightarrow> u32 \<Rightarrow> u32 \<Rightarrow> 'a sys_scheme \<Rightarrow> 'a sys_scheme sysret option" where
  "syscall loc eax ebx ecx edx s =
    (if eax > 10 \<or> eax = 0 then Some (Ret ERROR_VAL s)
     else if eax = 1 then sys_halt (ucast ebx) s
     else if eax = 2 then do { c \<leftarrow> str_arg ebx s; sys_execute loc c s }
     else if eax = 3 then sys_read (dentry_init loc) (sint ebx) ecx (sint edx) s
     else if eax = 4 then ret_of (sys_write (sint ebx) ecx (sint edx) s)
     else if eax = 5 then do { c \<leftarrow> str_arg ebx s; ret_of (sys_open (dentry_init loc) c s) }
     else if eax = 6 then ret_of (sys_close (sint ebx) s)
     else if eax = 7 then ret_of (sys_getargs ebx (sint ecx) s)
     else if eax = 8 then ret_of (sys_vidmap ebx s)
     else if eax = 9 then ret_of (Some (sys_sethandler s))
     else ret_of (Some (sys_sigreturn s)))"

section \<open>Halting keeps the tables sound\<close>

lemma close_fds_nothing:
  assumes "fops_ready s" "fdt_wf (process_fdt (PCB_at s ! k))"
  shows "close_fds k i s = Some s"
proof (induction "8 - i" arbitrary: i)
  case 0
  then show ?case by (subst close_fds.simps) simp
next
  case (Suc d)
  then have i: "i < 8" "close_fds k (Suc i) s = Some s" by auto
  have e: "fdt_get k i s = Some (process_fdt (PCB_at s ! k) ! i)" "fd_ok i (process_fdt (PCB_at s ! k) ! i)"
    using assms i(1) by (auto simp: fdt_get_wf fdt_wf_def)
  have c: "call_close (fn_close (fops_of f s)) s = Some (0, s)" for f
    using assms(1) by (cases f) (auto simp: fops_ready_def fops_of_def call_close_def terminalClose_def
        fileClose_def directoryClose_def RTCClose_def)
  have "\<exists>f. fops_pointer (process_fdt (PCB_at s ! k) ! i) = Some f" if "fd_flags (process_fdt (PCB_at s ! k) ! i) \<noteq> 0"
    using e(2) that by (auto simp: fd_ok_def split: if_splits)
  with i e show ?case by (subst close_fds.simps) (auto simp: c)
qed

lemma halt_chain:
  assumes "sys_ok s" "cur_pid s = int k" "parent_pid (PCB_at s ! k) = int q"
  shows "q < 6" "q \<noteq> k" "PCB_ptrs s ! q = Some q" "pde (PCB_at s ! q) = process_page q"
    "parent_terminal (PCB_at s ! q) = parent_terminal (PCB_at s ! k)"
proof -
  have k: "k < 6" "PCB_ptrs s ! k \<noteq> None" "\<not> is_parent k s" using assms(1,2) by (auto simp: sys_ok_def running_def)
  then have "pcb_ok k s" using assms(1) by (simp add: sys_ok_def proc_inv_def)
  then have q: "q < 6" "PCB_ptrs s ! q \<noteq> None" "parent_terminal (PCB_at s ! q) = parent_terminal (PCB_at s ! k)"
    using assms(3) by (auto simp: pcb_ok_def Let_def)
  then show "q < 6" "PCB_ptrs s ! q = Some q" "parent_terminal (PCB_at s ! q) = parent_terminal (PCB_at s ! k)"
    using assms(1) by (auto simp: sys_ok_def proc_inv_def proc_wf_def)
  show "pde (PCB_at s ! q) = process_page q" using q assms(1) by (simp add: sys_ok_def proc_inv_def pcb_ok_def Let_def)
  show "q \<noteq> k" using k assms(3) by (auto simp: is_parent_def)
qed

definition halted :: "byte \<Rightarrow> nat \<Rightarrow> 'a sys_scheme \<Rightarrow> 'a sys_scheme" where
  "halted status k s = s\<lparr>eax_val := ucast status + of_bool (exception_flag (PCB_at s ! k)), PCB_ptrs := (PCB_ptrs s)[k := None]\<rparr>"

lemma sys_halt_base:
  assumes "sys_ok s" "cur_pid s = int k" "parent_pid (PCB_at s ! k) = -1"
  shows "sys_halt status s = Some (HaltSpin ((halted status k s)\<lparr>shellStarted := (shellStarted s)[curThread s := False]\<rparr>))"
proof -
  obtain b where k: "k < 6" "fdt s = Some k" "pcb_place (int k) s = Some k" "fdt_wf (process_fdt (PCB_at s ! k))"
    using sys_okD [OF assms(1)] assms(2) by (metis of_nat_eq_iff)
  have "fops_ready s" using assms(1) by (simp add: sys_ok_def proc_inv_def)
  then have "close_fds k 0 (s\<lparr>eax_val := x, fdt := Some k\<rparr>) = Some (s\<lparr>eax_val := x, fdt := Some k\<rparr>)" for x
    using k(4) by (intro close_fds_nothing) (auto simp: fops_ready_def)
  with k assms(3) show ?thesis by (simp add: sys_halt_def assms(2) halted_def)
qed

lemma sys_halt_child:
  assumes "sys_ok s" "cur_pid s = int k" "parent_pid (PCB_at s ! k) = int q"
  shows "sys_halt status s = Some (HaltResume (ucast status + of_bool (exception_flag (PCB_at s ! k))) (esp (PCB_at s ! k)) (ebp (PCB_at s ! k))
     (clearTLB ((halted status k s)\<lparr>page_directory := (page_directory s)[PROCESS_PAGING_INDEX := process_page q],
        fdt := Some q, cur_pid := int q, tss_esp0 := kernel_stack q\<rparr>)))"
proof -
  obtain b where k: "k < 6" "fdt s = Some k" "pcb_place (int k) s = Some k" "fdt_wf (process_fdt (PCB_at s ! k))"
    using sys_okD [OF assms(1)] assms(2) by (metis of_nat_eq_iff)
  note q = halt_chain [OF assms]
  have "length (PCB_ptrs s) = 6" "fops_ready s" using assms(1) by (simp_all add: sys_ok_def proc_inv_def proc_wf_def)
  then have p: "pcb_place (int q) (s\<lparr>eax_val := x, fdt := Some k\<rparr>) = Some q"
    "close_fds k 0 (s\<lparr>eax_val := x, fdt := Some k\<rparr>) = Some (s\<lparr>eax_val := x, fdt := Some k\<rparr>)" for x
    using q k(4) by (auto simp: pcb_place_def fops_ready_def intro!: close_fds_nothing)
  show ?thesis using q by (simp add: sys_halt_def assms(2,3) k(3) p halted_def kernel_stack_def clearTLB_def)
qed

lemma halted_inv:
  assumes "sys_ok s" "cur_pid s = int k"
  shows "proc_inv (halted status k s)"
proof -
  have k: "k < 6" "PCB_ptrs s ! k \<noteq> None" "\<not> is_parent k s" using assms(1,2) by (auto simp: sys_ok_def running_def)
  have inv: "proc_inv s" using assms(1) by (simp add: sys_ok_def)
  have "pcb_ok p (halted status k s)" if "p < 6" "p \<noteq> k" "PCB_ptrs s ! p \<noteq> None" for p
  proof -
    have "pcb_ok p s" using that inv by (simp add: proc_inv_def)
    moreover have "parent_pid (PCB_at s ! p) \<noteq> int k" using k(3) that by (auto simp: is_parent_def)
    ultimately show ?thesis by (auto simp: pcb_ok_def Let_def halted_def nth_list_update)
  qed
  then show ?thesis using inv k(1)
    by (auto simp: proc_inv_def proc_wf_def fops_ready_def halted_def nth_list_update)
qed

lemma sys_halt_child_inv:
  assumes "sys_ok s" "cur_pid s = int k" "parent_pid (PCB_at s ! k) = int q"
  shows "sys_ok (clearTLB ((halted status k s)\<lparr>page_directory := (page_directory s)[PROCESS_PAGING_INDEX := process_page q],
        fdt := Some q, cur_pid := int q, tss_esp0 := kernel_stack q\<rparr>))" (is "sys_ok ?s'")
proof -
  note q = halt_chain [OF assms]
  have k: "k < 6" "PCB_ptrs s ! k \<noteq> None" using assms(1,2) by (auto simp: sys_ok_def running_def)
  have inv: "proc_inv s" using assms(1) by (simp add: sys_ok_def)
  have "proc_inv ?s'" using halted_inv [OF assms(1,2), of status]
    by (simp add: proc_inv_def proc_wf_def fops_ready_def pcb_ok_def Let_def clearTLB_def halted_def)
  moreover have "\<not> is_parent q ?s'"
  proof
    assume "is_parent q ?s'"
    then obtain p where p: "p < 6" "(PCB_ptrs s)[k := None] ! p \<noteq> None" "parent_pid (PCB_at s ! p) = int q"
      by (auto simp: is_parent_def clearTLB_def halted_def)
    have "length (PCB_ptrs s) = 6" using inv by (simp add: proc_inv_def proc_wf_def)
    with p k have "p \<noteq> k" "PCB_ptrs s ! p \<noteq> None" by (auto simp: nth_list_update split: if_splits)
    with p(1,3) k inv assms(3) show False unfolding proc_inv_def by fastforce
  qed
  moreover have "length (page_directory s) = 1024" using inv by (simp add: proc_inv_def)
  ultimately show ?thesis using q by (simp add: sys_ok_def running_def clearTLB_def halted_def)
qed

section \<open>The command line\<close>

text \<open>The program name of a command line: its first word, at most 32 characters.\<close>

definition command_name :: "(nat \<Rightarrow> byte) \<Rightarrow> byte list" where
  "command_name cmd = takeWhile (\<lambda>b. b \<noteq> 0 \<and> b \<noteq> 32) (map cmd [0..<FNAME_SIZE])"

lemma command_name_facts:
  "length (command_name cmd) \<le> 32" "i < length (command_name cmd) \<Longrightarrow> command_name cmd ! i = cmd i"
  "i < length (command_name cmd) \<Longrightarrow> cmd i \<noteq> 0 \<and> cmd i \<noteq> 32"
  "length (command_name cmd) < 32 \<Longrightarrow> cmd (length (command_name cmd)) = 0 \<or> cmd (length (command_name cmd)) = 32"
proof -
  let ?P = "\<lambda>b :: byte. b \<noteq> 0 \<and> b \<noteq> 32"
  show l: "length (command_name cmd) \<le> 32"
    using length_takeWhile_le [of ?P "map cmd [0..<32]"] by (simp add: command_name_def)
  show n: "command_name cmd ! i = cmd i" if "i < length (command_name cmd)" for i
    using that takeWhile_nth [of i ?P "map cmd [0..<32]"] l by (simp add: command_name_def)
  show "cmd i \<noteq> 0 \<and> cmd i \<noteq> 32" if "i < length (command_name cmd)"
    using n [OF that] nth_mem [OF that] by (auto simp: command_name_def dest: set_takeWhileD)
  show "cmd (length (command_name cmd)) = 0 \<or> cmd (length (command_name cmd)) = 32" if "length (command_name cmd) < 32"
    using nth_length_takeWhile [of ?P "map cmd [0..<32]"] that by (auto simp: command_name_def)
qed

lemma parse_fname_loop:
  assumes "i \<le> length (command_name cmd)"
  shows "parse_fname cmd i (take i (command_name cmd) @ replicate (32 - i) 0)
     = (length (command_name cmd), command_name cmd @ replicate (32 - length (command_name cmd)) 0)"
  using assms
proof (induction "length (command_name cmd) - i" arbitrary: i)
  case 0
  then have i: "i = length (command_name cmd)" by simp
  have "\<not> (cmd i \<noteq> 0 \<and> cmd i \<noteq> 32 \<and> i < 32)" using command_name_facts(4) [of cmd] i by auto
  then show ?case using i by (subst parse_fname.simps) auto
next
  case (Suc d)
  then have i: "i < length (command_name cmd)" by simp
  note f = command_name_facts(1) [of cmd] command_name_facts(2,3) [OF i]
  have "replicate (32 - i) (0 :: byte) = 0 # replicate (32 - Suc i) 0"
    using i f(1) by (simp flip: replicate_Suc add: Suc_diff_Suc)
  then have "(take i (command_name cmd) @ replicate (32 - i) 0)[i := cmd i] = take (Suc i) (command_name cmd) @ replicate (32 - Suc i) 0"
    using i f by (simp add: list_update_append take_Suc_conv_app_nth)
  moreover have "i < 32" using i f(1) by simp
  moreover have "parse_fname cmd (Suc i) (take (Suc i) (command_name cmd) @ replicate (32 - Suc i) 0)
      = (length (command_name cmd), command_name cmd @ replicate (32 - length (command_name cmd)) 0)"
    using Suc.hyps(2) i by (intro Suc.hyps(1)) auto
  ultimately show ?case using f(3) by (subst parse_fname.simps) simp
qed

lemma parse_fname_eq:
  "parse_fname cmd 0 (replicate 32 0) = (length (command_name cmd), command_name cmd @ replicate (32 - length (command_name cmd)) 0)"
  using parse_fname_loop [of 0 cmd] by simp

lemma parsed_name: "cstr_n ((!) (command_name cmd @ replicate (32 - length (command_name cmd)) 0)) 32 = command_name cmd"
proof -
  have "map ((!) (command_name cmd @ replicate (32 - length (command_name cmd)) 0)) [0..<32]
      = command_name cmd @ replicate (32 - length (command_name cmd)) 0"
    by (rule nth_equalityI) (use command_name_facts(1) [of cmd] in auto)
  then show ?thesis using command_name_facts(2,3) [of _ cmd]
    by (auto simp: cstr_n_def takeWhile_append in_set_conv_nth takeWhile_eq_Nil_iff)
qed

text \<open>The place where the arguments start.\<close>

lemma skip_spaces_found:
  assumes "strlen cmd = Some n" "i \<le> n"
  shows "\<exists>j. skip_spaces cmd i = Some j \<and> i \<le> j \<and> j \<le> n \<and> cmd j \<noteq> 32 \<and> (\<forall>k. i \<le> k \<and> k < j \<longrightarrow> cmd k = 32)"
  using assms(2)
proof (induction "n - i" arbitrary: i)
  case 0
  then have "cmd i = 0" using assms(1) by (simp add: strlen_iff)
  then show ?case using 0 by (subst skip_spaces.simps) auto
next
  case (Suc d)
  show ?case
  proof (cases "cmd i = 32")
    case True
    have "d = n - Suc i" "Suc i \<le> n" using Suc.hyps(2) by auto
    then obtain j where j: "skip_spaces cmd (Suc i) = Some j" "Suc i \<le> j" "j \<le> n" "cmd j \<noteq> 32"
        "\<forall>k. Suc i \<le> k \<and> k < j \<longrightarrow> cmd k = 32"
      using Suc.hyps(1) by blast
    have "cmd k = 32" if "i \<le> k" "k < j" for k using that j(5) True by (cases "k = i") auto
    with True j show ?thesis by (subst skip_spaces.simps) auto
  qed (use Suc.prems in \<open>subst skip_spaces.simps, auto\<close>)
qed

lemma free_pid_spec:
  "p \<le> 6 \<Longrightarrow> p \<le> free_pid ptrs p \<and> free_pid ptrs p \<le> 6 \<and> (\<forall>j. p \<le> j \<and> j < free_pid ptrs p \<longrightarrow> ptrs ! j \<noteq> None)
     \<and> (free_pid ptrs p < 6 \<longrightarrow> ptrs ! free_pid ptrs p = None)"
proof (induction ptrs p rule: free_pid.induct)
  case (1 ptrs p)
  then show ?case
    by (subst (1 2 3 4 5) free_pid.simps) (auto simp: not_less_eq_eq le_Suc_eq Suc_le_eq dest: le_neq_implies_less)
qed

section \<open>Starting a process\<close>

text \<open>Who may start a process: a running process, or the scheduler for a thread without one.\<close>

definition can_start :: "'a sys_scheme \<Rightarrow> bool" where
  "can_start s \<longleftrightarrow> proc_inv s \<and> (running s \<or> cur_pid s = -1 \<and> curThread s < NUM_TERMINALS)"

definition start_terminal :: "'a sys_scheme \<Rightarrow> nat" where
  "start_terminal s = (if cur_pid s = -1 then curThread s else parent_terminal (PCB_at s ! nat (cur_pid s)))"

definition new_pcb :: "nat \<Rightarrow> byte list \<Rightarrow> 'a sys_scheme \<Rightarrow> PCB" where
  "new_pcb p args s = (PCB_at s ! p)\<lparr>pid := int p, parent_pid := cur_pid s, parent_terminal := start_terminal s,
     exception_flag := False, pde := process_page p, arg_ptr := strncpy_spec ((!) args) ARG_SIZE, process_fdt := initial_fdt\<rparr>"

text \<open>The state with the new process entered in all tables, its page mapped, before its program is loaded.\<close>

definition entered :: "nat \<Rightarrow> PCB \<Rightarrow> 'a sys_scheme \<Rightarrow> 'a sys_scheme" where
  "entered p b s = clearTLB (s\<lparr>page_directory := (page_directory s)[PROCESS_PAGING_INDEX := process_page p]\<rparr>)
     \<lparr>PCB_ptrs := (PCB_ptrs s)[p := Some p], PCB_at := (PCB_at s)[p := b], cur_pid := int p, fdt := Some p\<rparr>"

lemma exec_pcb_eq:
  assumes "can_start s" "p < 6" "PCB_ptrs s ! p = None"
  shows "exec_pcb p args (init_process_paging p s) = Some (entered p (new_pcb p args s) s)"
proof -
  have inv: "proc_inv s" using assms(1) by (simp add: can_start_def)
  then have len: "length (PCB_at s) = 6" "length (PCB_ptrs s) = 6" "length (page_directory s) = 1024"
    by (simp_all add: proc_inv_def proc_wf_def)
  have t: "map_option parent_terminal (pcb_of (cur_pid s) s') = Some (start_terminal s)"
    if "cur_pid s \<noteq> -1" and s': "PCB_ptrs s' = (PCB_ptrs s)[p := Some p]" "PCB_at s' = (PCB_at s)[p := c]"
    for s' :: "'a sys_scheme" and c
  proof -
    define q where "q = nat (cur_pid s)"
    have q: "cur_pid s = int q" "q < 6" "PCB_ptrs s ! q \<noteq> None"
      using that(1) assms(1) by (auto simp: can_start_def running_def q_def)
    moreover from this have "PCB_ptrs s ! q = Some q" using inv by (auto simp: proc_inv_def proc_wf_def)
    moreover have "p \<noteq> q" using q assms(3) by auto
    ultimately show ?thesis using len by (simp add: start_terminal_def pcb_of_def pcb_place_def s')
  qed
  have u: "init_process_paging p s = clearTLB (s\<lparr>page_directory := (page_directory s)[PROCESS_PAGING_INDEX := process_page p]\<rparr>)"
    by (simp add: init_process_paging_def process_page_def)
  show ?thesis
  proof (cases "cur_pid s = -1")
    case True
    then show ?thesis unfolding u exec_pcb_def upd_pcb_def initialize_FDT_def Let_def
      by (simp add: clearTLB_def len assms(2) pcb_place_def entered_def new_pcb_def start_terminal_def)
  next
    case False
    then show ?thesis unfolding u exec_pcb_def upd_pcb_def initialize_FDT_def Let_def
      by (simp add: clearTLB_def t len assms(2)) (simp add: pcb_place_def len assms(2) entered_def new_pcb_def clearTLB_def)
  qed
qed

lemma entered_ok:
  assumes "can_start s" "p < 6" "PCB_ptrs s ! p = None"
    and "pid b = int p" "pde b = process_page p" "parent_pid b = cur_pid s" "parent_terminal b = start_terminal s"
    and "fdt_wf (process_fdt b)"
  shows "sys_ok ((entered p b s)\<lparr>tss_esp0 := kernel_stack p\<rparr>)" (is "sys_ok ?s'")
proof -
  have inv: "proc_inv s" using assms(1) by (simp add: can_start_def)
  then have len: "length (PCB_at s) = 6" "length (PCB_ptrs s) = 6" "length (page_directory s) = 1024"
    by (simp_all add: proc_inv_def proc_wf_def)
  have sel: "PCB_ptrs ?s' = (PCB_ptrs s)[p := Some p]" "PCB_at ?s' = (PCB_at s)[p := b]"
    by (simp_all add: entered_def)
  have old: "parent_pid (PCB_at s ! r) \<noteq> int p \<and> (0 \<le> parent_pid (PCB_at s ! r) \<longrightarrow> nat (parent_pid (PCB_at s ! r)) \<noteq> p)"
    if "r < 6" "PCB_ptrs s ! r \<noteq> None" for r
    using inv that assms(3) by (auto simp: proc_inv_def pcb_ok_def Let_def)
  have cur: "cur_pid s = -1 \<or> 0 \<le> cur_pid s \<and> cur_pid s < 6 \<and> nat (cur_pid s) \<noteq> p \<and> PCB_ptrs s ! nat (cur_pid s) \<noteq> None
      \<and> \<not> is_parent (nat (cur_pid s)) s"
    using assms(1,3) by (auto simp: can_start_def running_def)
  have tm: "start_terminal s < 3"
    using assms(1) inv by (auto simp: can_start_def start_terminal_def running_def proc_inv_def pcb_ok_def Let_def)
  have "pcb_ok r ?s'" if "r < 6" "(PCB_ptrs s)[p := Some p] ! r \<noteq> None" for r
  proof (cases "r = p")
    case True
    then show ?thesis using cur tm assms(2,4-8) len
      by (auto simp: pcb_ok_def Let_def sel start_terminal_def)
  next
    case False
    then have "pcb_ok r s" "parent_pid (PCB_at s ! r) \<noteq> int p" "0 \<le> parent_pid (PCB_at s ! r) \<longrightarrow> nat (parent_pid (PCB_at s ! r)) \<noteq> p"
      using that old inv by (auto simp: proc_inv_def)
    then show ?thesis using False by (auto simp: pcb_ok_def Let_def sel)
  qed
  moreover have "parent_pid ((PCB_at s)[p := b] ! r) \<noteq> parent_pid ((PCB_at s)[p := b] ! r')"
    if "r < 6" "r' < 6" "(PCB_ptrs s)[p := Some p] ! r \<noteq> None" "(PCB_ptrs s)[p := Some p] ! r' \<noteq> None" "r \<noteq> r'"
      "parent_pid ((PCB_at s)[p := b] ! r) \<noteq> -1" for r r'
    using that cur assms(2,6) len inv by (auto simp: nth_list_update is_parent_def proc_inv_def split: if_splits)
  moreover have "\<not> is_parent p ?s'"
    using old cur assms(2,6) len by (auto simp: is_parent_def sel nth_list_update split: if_splits)
  ultimately show ?thesis
    using inv len assms(2) by (auto simp: sys_ok_def proc_inv_def proc_wf_def fops_ready_def running_def sel)
      (auto simp: entered_def clearTLB_def nth_list_update)
qed

section \<open>Loading a program\<close>

lemma user_ptr_process:
  assumes "tlb_dir s ! PROCESS_PAGING_INDEX = process_page k" "k < 6"
  shows "user_ptr v n s = (if 0x08000000 \<le> v \<and> unat v + n \<le> 0x08400000
     then Some (0x800000 + of_nat k * 0x400000 + (v - 0x08000000)) else None)"
  using user_base_process [OF assms] by (simp add: user_ptr_def assms(1)) (simp add: process_page_def)

text \<open>A local variable of the kernel: in the kernel's page, apart from the image.\<close>

definition kernel_local :: "u32 \<Rightarrow> nat \<Rightarrow> 'a fs_scheme \<Rightarrow> bool" where
  "kernel_local a n s \<longleftrightarrow> 0x400000 \<le> a \<and> unat a + n \<le> 0x800000
     \<and> disjoint_regions a n (bootMemAddr s) (image_size (memory s) (bootMemAddr s))"

definition load_address :: "nat \<Rightarrow> u32" where
  "load_address p = 0x800000 + of_nat p * 0x400000 + 0x48000"

lemma unat_load_address: "p < 6 \<Longrightarrow> unat (load_address p) = 0x848000 + p * 0x400000"
proof -
  assume p: "p < 6"
  have "load_address p = of_nat (0x848000 + p * 0x400000)" by (simp add: load_address_def)
  then show ?thesis using p by (simp only:) (rule unat_of_nat_32, simp)
qed

text \<open>A program file that can be executed: valid, with an ELF header, and small enough for the process page.\<close>

definition executable :: "byte list \<Rightarrow> bool" where
  "executable prog \<longleftrightarrow> take 4 prog = [0x7F, 0x45, 0x4C, 0x46] \<and> 28 \<le> length prog \<and> length prog \<le> 0x3B8000"

lemma image_placed_wr:
  assumes "image_placed s" "disjoint_regions p (length bs) (bootMemAddr s) (image_size (memory s) (bootMemAddr s))" "length bs \<le> 2 ^ 32"
  shows "image_placed (with_memory (wr_bytes (memory s) p bs) s)"
    "same_image (bootMemAddr s) (memory s) (wr_bytes (memory s) p bs)"
proof -
  have "image_size (memory s) (bootMemAddr s) \<le> 2 ^ 32" using assms(1) by (simp add: image_placed_def)
  then show si: "same_image (bootMemAddr s) (memory s) (wr_bytes (memory s) p bs)" using assms by (intro same_image_wr) auto
  show "image_placed (with_memory (wr_bytes (memory s) p bs) s)"
    using assms(1) same_image_ok [OF si] same_image_header [OF si] by (simp add: image_placed_def with_memory_def)
qed

lemma read_program:
  assumes "image_placed s" "n < numInodes (memory s) (bootMemAddr s)" "file_data (memory s) (bootMemAddr s) n = prog"
    and "buf \<noteq> 0" "unat off < length prog" "unat off + k \<le> length prog"
    and "disjoint_regions buf (unat len) (bootMemAddr s) (image_size (memory s) (bootMemAddr s))"
    and "take (unat len) (drop (unat off) prog) = take k (drop (unat off) prog)"
  shows "read_data n off buf len s = Some (int k, with_memory (wr_bytes (memory s) buf (take k (drop (unat off) prog))) s)"
proof -
  have "off < inode_length (inode_at (memory s) (bootMemAddr s) n)"
    using assms(3,5) length_file_data [of "memory s" "bootMemAddr s" n] by (simp add: word_less_nat_alt)
  moreover have "length (take k (drop (unat off) prog)) = k" using assms(6) by simp
  ultimately show ?thesis using read_data_slice [of s n buf off len] assms by (simp add: image_placed_def)
qed

lemma ld32_wr: "length bs = 4 \<Longrightarrow> ld32 (wr_bytes m p bs) p = ld32 (\<lambda>a. bs ! unat a) 0"
  by (simp add: ld32_def wr_bytes_def)

lemma exec_load_ok:
  assumes "image_placed s" "n < numInodes (memory s) (bootMemAddr s)" "file_data (memory s) (bootMemAddr s) n = prog"
    and "executable prog" "tlb_dir s ! PROCESS_PAGING_INDEX = process_page p" "p < 6" "kernel_local (program_eip_at loc) 4 s"
  defines "s' \<equiv> with_memory (wr_bytes (memory s) (load_address p) prog) s"
  shows "exec_load loc p n s = Some (EnterUser (ld32 (memory s) (program_eip_at loc))
     ((upd_pcb p (\<lambda>b. b\<lparr>esp := cpu_esp s, ebp := cpu_ebp s\<rparr>) (s'\<lparr>tss_esp0 := kernel_stack p\<rparr>))\<lparr>if_flag := True\<rparr>))"
    "same_image (bootMemAddr s) (memory s) (wr_bytes (memory s) (load_address p) prog)"
proof -
  let ?q = "load_address p"
  have len: "length prog = unat (inode_length (inode_at (memory s) (bootMemAddr s) n))"
    using assms(3) by (auto simp: length_file_data)
  have prog: "28 \<le> length prog" "length prog \<le> 0x3B8000" using assms(4) by (simp_all add: executable_def)
  have m: "min 0x400000 (inode_length (inode_at (memory s) (bootMemAddr s) n)) = inode_length (inode_at (memory s) (bootMemAddr s) n)"
    using prog len by (simp add: min_def word_le_nat_alt)
  have q: "user_ptr PROGRAM_INIT_VIRTUAL_ADDR (length prog) s = Some ?q"
    using prog by (simp add: user_ptr_process [OF assms(5,6)] load_address_def)
  have u: "unat ?q = 0x848000 + p * 0x400000" using assms(6) by (rule unat_load_address)
  have dis: "disjoint_regions ?q k (bootMemAddr s) (image_size (memory s) (bootMemAddr s))" if "k \<le> 0x400000" for k
    using that assms(6) u by (intro image_disjoint [OF assms(1)]) auto
  have "?q \<noteq> 0" "prog \<noteq> []" using u prog by auto
  then have rd: "read_data n 0 ?q 0x400000 s = Some (int (length prog), s')"
    using read_program [OF assms(1,2,3), of ?q 0 "length prog" "0x400000"] prog u dis by (auto simp: s'_def)
  show "same_image (bootMemAddr s) (memory s) (wr_bytes (memory s) ?q prog)"
    using prog dis by (intro image_placed_wr(2) [OF assms(1)]) auto
  have "ld32 (wr_bytes (memory s) ?q prog) (program_eip_at loc) = ld32 (memory s) (program_eip_at loc)"
  proof (rule ld32_wr_disjoint [of ?q prog "program_eip_at loc" 4 0 "memory s", simplified])
    show "disjoint_regions ?q (length prog) (program_eip_at loc) 4"
    proof (rule disjoint_regionsI)
      fix i j :: nat assume ij: "i < length prog" "j < 4"
      have "unat (?q + of_nat i) = unat ?q + i" using ij prog u assms(6) by (simp add: unat_word_ariths unat_of_nat_32)
      moreover have "unat (program_eip_at loc + of_nat j) = unat (program_eip_at loc) + j"
        using ij assms(7) by (simp add: unat_word_ariths unat_of_nat_32 kernel_local_def)
      ultimately show "?q + of_nat i \<noteq> program_eip_at loc + of_nat j"
        using ij assms(7) u by (auto simp: kernel_local_def)
    qed
    show "length prog \<le> 4294967296" using prog by simp
  qed
  then show "exec_load loc p n s = Some (EnterUser (ld32 (memory s) (program_eip_at loc))
     ((upd_pcb p (\<lambda>b. b\<lparr>esp := cpu_esp s, ebp := cpu_ebp s\<rparr>) (s'\<lparr>tss_esp0 := kernel_stack p\<rparr>))\<lparr>if_flag := True\<rparr>))"
    unfolding exec_load_def m using q rd prog
    by (simp add: len [symmetric] Let_def kernel_stack_def upd_pcb_def) (simp add: s'_def with_memory_def)
qed

text \<open>The arguments of a command line, and whether there are any.\<close>

definition command_args :: "(nat \<Rightarrow> byte) \<Rightarrow> nat \<Rightarrow> byte list" where
  "command_args cmd j = strncpy_spec (\<lambda>k. cmd (j + k)) 127 @ [0]"

text \<open>What the caller of \<open>sys_execute\<close> must provide for the call to succeed.\<close>

definition exec_ready :: "exec_locals \<Rightarrow> (nat \<Rightarrow> byte) \<Rightarrow> byte list \<Rightarrow> 'a sys_scheme \<Rightarrow> bool" where
  "exec_ready loc cmd prog s \<longleftrightarrow> can_start s \<and> image_placed s \<and> free_pid (PCB_ptrs s) 0 < MAX_PROCESSES
     \<and> strlen cmd \<noteq> None
     \<and> kernel_local (testBuffer_at loc) 4 s \<and> kernel_local (program_eip_at loc) 4 s
     \<and> (case find (\<lambda>d. name_of d = command_name cmd) (directory (memory s) (bootMemAddr s)) of
          None \<Rightarrow> False
        | Some d \<Rightarrow> inodeNum d < numInodes (memory s) (bootMemAddr s)
            \<and> file_data (memory s) (bootMemAddr s) (inodeNum d) = prog \<and> executable prog)"

lemma kernel_local_same:
  assumes "kernel_local a n s" "same_image (bootMemAddr s) (memory s) m" "bootMemAddr s' = bootMemAddr s" "memory s' = m"
  shows "kernel_local a n s'"
  using assms same_image_header [OF assms(2)] by (simp add: kernel_local_def)

lemma same_image_trans:
  "same_image b m m' \<Longrightarrow> same_image b m' m'' \<Longrightarrow> same_image b m m''"
  using same_image_header(4) [of b m m'] by (simp add: same_image_def)

lemma same_image_program:
  assumes "same_image b m m'" "image_ok m b" "n < numInodes m b" "file_data m b n = prog"
  shows "n < numInodes m' b" "file_data m' b n = prog"
  using assms same_image_header [OF assms(1)] same_image_file [OF assms(1-3)] by auto

text \<open>One of the two reads of the program's header into a local variable.\<close>

lemma read_header:
  assumes "image_placed s" "n < numInodes (memory s) (bootMemAddr s)" "file_data (memory s) (bootMemAddr s) n = prog"
    and "kernel_local v 4 s" "28 \<le> length prog" "unat off \<le> 24"
  defines "s' \<equiv> with_memory (wr_bytes (memory s) v (take 4 (drop (unat off) prog))) s"
  shows "read_data n off v 4 s = Some (4, s')" "image_placed s'" "same_image (bootMemAddr s) (memory s) (memory s')"
    "kernel_local w k s \<Longrightarrow> kernel_local w k s'"
proof -
  have "v \<noteq> 0" using assms(4) by (auto simp: kernel_local_def)
  then show "read_data n off v 4 s = Some (4, s')"
    using read_program [OF assms(1-3), of v off 4 4] assms(4-6) by (simp add: s'_def kernel_local_def)
  show "image_placed s'" and si: "same_image (bootMemAddr s) (memory s) (memory s')"
    using image_placed_wr [OF assms(1), of v "take 4 (drop (unat off) prog)"] assms(4-6) by (simp_all add: s'_def kernel_local_def)
  show "kernel_local w k s'" if "kernel_local w k s"
    by (rule kernel_local_same [OF that si]) (simp_all add: s'_def)
qed

lemma exec_header:
  assumes "image_placed s" "n < numInodes (memory s) (bootMemAddr s)" "file_data (memory s) (bootMemAddr s) n = prog"
    and "executable prog" "kernel_local (testBuffer_at loc) 4 s" "kernel_local (program_eip_at loc) 4 s"
  shows "\<exists>s1 m. read_data n 0 (testBuffer_at loc) 4 s = Some (4, s1) \<and> is_elf (memory s1) (testBuffer_at loc)
     \<and> read_data n 24 (program_eip_at loc) 4 s1 = Some (4, with_memory m s)
     \<and> image_placed (with_memory m s) \<and> kernel_local (program_eip_at loc) 4 (with_memory m s)
     \<and> same_image (bootMemAddr s) (memory s) m \<and> ld32 m (program_eip_at loc) = ld32 (\<lambda>a. prog ! unat a) 24"
proof -
  let ?ep = "program_eip_at loc"
  have prog: "take 4 prog = [0x7F, 0x45, 0x4C, 0x46]" "28 \<le> length prog" using assms(4) by (simp_all add: executable_def)
  define s1 where "s1 = with_memory (wr_bytes (memory s) (testBuffer_at loc) (take 4 prog)) s"
  note h1 = read_header [OF assms(1-3,5) prog(2), of 0, unfolded unat_0 drop_0, folded s1_def, OF le0]
  have s1: "bootMemAddr s1 = bootMemAddr s" "is_elf (memory s1) (testBuffer_at loc)"
    by (simp_all add: s1_def is_elf_def prog(1) view_def wr_bytes_def)
  have d1: "n < numInodes (memory s1) (bootMemAddr s1)" "file_data (memory s1) (bootMemAddr s1) n = prog"
    using same_image_program [OF h1(3)] assms(1-3) by (simp_all add: s1(1) image_placed_def)
  let ?e = "take 4 (drop 24 prog)"
  define s2 where "s2 = with_memory (wr_bytes (memory s1) ?ep ?e) s1"
  have u24: "unat (24 :: u32) = 24" by simp
  note h2 = read_header [OF h1(2) d1 h1(4) [OF assms(6)] prog(2), of 24, unfolded u24, folded s2_def, OF order_refl]
  have "length ?e = 4" using prog(2) by simp
  from ld32_wr [OF this] have eip: "ld32 (memory s2) ?ep = ld32 (\<lambda>a. prog ! unat a) 24"
    using prog(2) by (simp add: s2_def ld32_def)
  have s2: "s2 = with_memory (memory s2) s" by (simp add: s2_def s1_def with_memory_def)
  have "same_image (bootMemAddr s) (memory s) (memory s2)"
    using same_image_trans [OF h1(3)] h2(3) s1(1) by simp
  with h1(1) s1(2) h2(1,2) h2(4) [OF h1(4) [OF assms(6)]] eip s2 show ?thesis by metis
qed

lemma exec_args_start:
  assumes "strlen cmd \<noteq> None"
  obtains j where "skip_spaces cmd (length (command_name cmd)) = Some j"
proof -
  obtain n where n: "strlen cmd = Some n" using assms by auto
  have "length (command_name cmd) \<le> n"
  proof (rule ccontr)
    assume "\<not> length (command_name cmd) \<le> n"
    then have "cmd n \<noteq> 0" using command_name_facts(3) [of n cmd] by simp
    then show False using n by (simp add: strlen_iff)
  qed
  then show thesis using skip_spaces_found [OF n] that by blast
qed

text \<open>The state in which the program starts.\<close>

definition launched :: "nat \<Rightarrow> byte list \<Rightarrow> mem \<Rightarrow> 'a sys_scheme \<Rightarrow> 'a sys_scheme" where
  "launched p args m s = (entered p ((new_pcb p args s)\<lparr>esp := cpu_esp s, ebp := cpu_ebp s\<rparr>) s)
     \<lparr>tss_esp0 := kernel_stack p, memory := m, if_flag := True\<rparr>"

lemma launched_ok:
  assumes "can_start s" "p < 6" "PCB_ptrs s ! p = None"
  shows "sys_ok (launched p args m s)"
proof -
  let ?b = "(new_pcb p args s)\<lparr>esp := cpu_esp s, ebp := cpu_ebp s\<rparr>"
  have "sys_ok ((entered p ?b s)\<lparr>tss_esp0 := kernel_stack p\<rparr>)"
    by (rule entered_ok [OF assms]) (simp_all add: new_pcb_def fdt_wf_initial)
  moreover have "proc_same ((entered p ?b s)\<lparr>tss_esp0 := kernel_stack p\<rparr>) (launched p args m s)"
    by (simp add: proc_same_def launched_def)
  ultimately show ?thesis by (simp add: proc_same_ok)
qed

lemma sys_execute_ok:
  assumes "exec_ready loc cmd prog s"
  defines "p \<equiv> free_pid (PCB_ptrs s) 0"
  shows "\<exists>j m. skip_spaces cmd (length (command_name cmd)) = Some j
     \<and> sys_execute loc (Some cmd) s = Some (EnterUser (ld32 (\<lambda>a. prog ! unat a) 24)
         (launched p (if cmd j \<noteq> 0 then command_args cmd j else args_init loc) m s))
     \<and> p < 6 \<and> PCB_ptrs s ! p = None \<and> same_image (bootMemAddr s) (memory s) m
     \<and> rd_bytes m (load_address p) (length prog) = prog"
proof -
  let ?b = "bootMemAddr s"
  obtain d where d: "find (\<lambda>d. name_of d = command_name cmd) (directory (memory s) ?b) = Some d"
      "inodeNum d < numInodes (memory s) ?b" "file_data (memory s) ?b (inodeNum d) = prog" "executable prog"
    using assms(1) by (auto simp: exec_ready_def split: option.splits)
  have a: "can_start s" "image_placed s" "p < 6" "kernel_local (testBuffer_at loc) 4 s" "kernel_local (program_eip_at loc) 4 s"
    using assms(1) by (auto simp: exec_ready_def p_def)
  have free: "PCB_ptrs s ! p = None" using free_pid_spec [of 0 "PCB_ptrs s"] a(3) by (simp add: p_def)
  obtain j where j: "skip_spaces cmd (length (command_name cmd)) = Some j"
    using exec_args_start assms(1) by (auto simp: exec_ready_def)
  define args where "args = (if cmd j \<noteq> 0 then command_args cmd j else args_init loc)"
  obtain s1 m where h: "read_data (inodeNum d) 0 (testBuffer_at loc) 4 s = Some (4, s1)" "is_elf (memory s1) (testBuffer_at loc)"
      "read_data (inodeNum d) 24 (program_eip_at loc) 4 s1 = Some (4, with_memory m s)"
      "image_placed (with_memory m s)" "kernel_local (program_eip_at loc) 4 (with_memory m s)"
      "same_image ?b (memory s) m" "ld32 m (program_eip_at loc) = ld32 (\<lambda>a. prog ! unat a) 24"
    using exec_header [OF a(2) d(2-4) a(4,5)] by blast
  have cs: "can_start (with_memory m s)"
    using a(1) proc_same_inv [OF proc_same_with_memory, of m s] proc_same_running [OF proc_same_with_memory, of m s]
    by (simp add: can_start_def) (simp add: with_memory_def)
  define s3 where "s3 = entered p (new_pcb p args (with_memory m s)) (with_memory m s)"
  have s3: "exec_pcb p args (init_process_paging p (with_memory m s)) = Some s3"
    unfolding s3_def using cs a(3) free by (intro exec_pcb_eq) (simp_all add: with_memory_def)
  have f3: "memory s3 = m" "bootMemAddr s3 = ?b" "tlb_dir s3 ! 32 = process_page p"
    using a(1) by (simp_all add: s3_def entered_def clearTLB_def can_start_def proc_inv_def with_memory_def)
  have i3: "image_placed s3" "kernel_local (program_eip_at loc) 4 s3"
      "inodeNum d < numInodes (memory s3) (bootMemAddr s3)" "file_data (memory s3) (bootMemAddr s3) (inodeNum d) = prog"
    using h(4,5) f3 same_image_program [OF h(6)] d(2,3) a(2) by (simp_all add: image_placed_def kernel_local_def)
  let ?m' = "wr_bytes m (load_address p) prog"
  have load: "exec_load loc p (inodeNum d) s3 = Some (EnterUser (ld32 (\<lambda>a. prog ! unat a) 24) (launched p args ?m' s))"
    using exec_load_ok(1) [OF i3(1,3,4) d(4) f3(3) a(3) i3(2)] f3(1) h(7) a(1,3)
    by (simp add: launched_def s3_def entered_def upd_pcb_def with_memory_def new_pcb_def start_terminal_def
        clearTLB_def can_start_def proc_inv_def proc_wf_def)
  have exec: "sys_execute loc (Some cmd) s = Some (EnterUser (ld32 (\<lambda>a. prog ! unat a) 24) (launched p args ?m' s))"
    using a(3) j h(1-3) s3 load d(1) unfolding sys_execute_def
    by (cases "cmd j = 0") (simp_all add: p_def [symmetric] parse_fname_eq args_def command_args_def [symmetric]
        exec_checked_def
        read_dentry_by_name_find parsed_name)
  have len: "length prog \<le> 2 ^ 32" using d(4) by (simp add: executable_def)
  have "same_image ?b m (wr_bytes m (load_address p) prog)"
    using exec_load_ok(2) [OF i3(1,3,4) d(4) f3(3) a(3) i3(2)] f3(1,2) by simp
  then have "same_image ?b (memory s) ?m'" using same_image_trans [OF h(6)] by simp
  with j exec a(3) free rd_wr_bytes [OF len] show ?thesis unfolding args_def by blast
qed

section \<open>Arguments\<close>

lemma strncpy_spec_nth: "i < n \<Longrightarrow> strncpy_spec f n ! i = (if i < length (cstr_n f n) then f i else 0)"
  using length_cstr_n [of f n] by (auto simp: strncpy_spec_def nth_append nth_cstr_n)

lemma strncpy_spec_list:
  assumes "length xs = n" "\<And>i. i < n \<Longrightarrow> xs ! i = 0 \<Longrightarrow> (\<forall>j. i \<le> j \<and> j < n \<longrightarrow> xs ! j = 0)"
  shows "strncpy_spec ((!) xs) n = xs"
proof (rule nth_equalityI)
  fix i assume "i < length (strncpy_spec ((!) xs) n)"
  then have i: "i < n" by simp
  show "strncpy_spec ((!) xs) n ! i = xs ! i"
  proof (cases "i < length (cstr_n ((!) xs) n)")
    case False
    let ?l = "length (cstr_n ((!) xs) n)"
    have "?l < n" using False i by simp
    then have "xs ! ?l = 0"
      using nth_length_takeWhile [of "\<lambda>b. b \<noteq> 0" "map ((!) xs) [0..<n]"] by (simp add: cstr_n_def)
    with False i assms(2) [of ?l] \<open>?l < n\<close> show ?thesis by (simp add: strncpy_spec_nth)
  qed (use i in \<open>simp add: strncpy_spec_nth\<close>)
qed (simp add: assms(1))

lemma command_args_nth:
  "i < 128 \<Longrightarrow> command_args cmd j ! i = (if i < length (cstr_n (\<lambda>k. cmd (j + k)) 127) then cmd (j + i) else 0)"
  using length_cstr_n [of "\<lambda>k. cmd (j + k)" 127] by (auto simp: command_args_def nth_append strncpy_spec_nth)

lemma length_command_args [simp]: "length (command_args cmd j) = 128"
  by (simp add: command_args_def)

lemma command_args_copy: "strncpy_spec ((!) (command_args cmd j)) 128 = command_args cmd j"
proof (rule strncpy_spec_list)
  fix i assume i: "i < 128" "command_args cmd j ! i = 0"
  show "\<forall>k. i \<le> k \<and> k < 128 \<longrightarrow> command_args cmd j ! k = 0"
  proof -
    have "\<not> i < length (cstr_n (\<lambda>k. cmd (j + k)) 127)"
      using i nth_cstr_n [of i "\<lambda>k. cmd (j + k)" 127] nth_mem [of i "cstr_n (\<lambda>k. cmd (j + k)) 127"] cstr_n_nonzero
      by (force simp: command_args_nth)
    then show ?thesis by (simp add: command_args_nth)
  qed
qed simp

lemma sys_getargs_ok:
  assumes "sys_ok s" "user_buffer buf ARG_SIZE" "0 \<le> nbytes" "arg_ptr (PCB_at s ! nat (cur_pid s)) = command_args cmd j"
  shows "sys_getargs buf nbytes s = Some (0, with_memory (wr_bytes (memory s) (user_frame s + (buf - 0x08000000)) (command_args cmd j)) s)"
proof -
  obtain k where k: "cur_pid s = int k" "pcb_place (cur_pid s) s = Some k" using sys_okD [OF assms(1)] by metis
  have b: "buf \<noteq> 0" "user_ptr buf 128 s = Some (user_frame s + (buf - 0x08000000))"
    using assms(2) by (auto simp: user_buffer_def user_ptr_ok [OF assms(1)])
  have a: "strncpy_spec ((!) (arg_ptr (PCB_at s ! k))) 128 = command_args cmd j"
    using assms(4) k(1) command_args_copy by simp
  have "command_args cmd j ! 127 = 0" by (simp add: command_args_def nth_append)
  then have l: "view (wr_bytes (memory s) p (command_args cmd j)) p 127 = 0" for p
    using wr_bytes_at [of 127 "command_args cmd j" "memory s" p] by (simp add: view_def)
  show ?thesis using b k assms(3) l
    by (simp add: sys_getargs_def pcb_of_def a)
qed

section \<open>Video memory for user programs\<close>

lemma sys_vidmap_ok:
  assumes "sys_ok s" "user_buffer v 4" "process_terminal s = Some t"
  shows "sys_vidmap v s = Some (0, with_memory (st32 (memory s) (user_frame s + (v - 0x08000000)) (USER_VIDMAP_ADDR + of_nat t * FOUR_KB)) s)"
proof -
  obtain k where k: "cur_pid s = int k" "pcb_place (cur_pid s) s = Some k" using sys_okD [OF assms(1)] by metis
  have v: "0x08000000 \<le> unat v" "unat v + 4 \<le> 0x08400000" using assms(2) by (auto simp: user_buffer_def word_le_nat_alt)
  have b: "v \<noteq> 0" "\<not> v < 0x800000" "\<not> v < 0x08000000" "\<not> 0x08400000 \<le> v"
    using v by (auto simp: word_less_nat_alt word_le_nat_alt)
  have "user_ptr v 4 s = Some (user_frame s + (v - 0x08000000))"
    using assms(2) by (auto simp: user_buffer_def user_ptr_ok [OF assms(1)])
  moreover have "parent_terminal (PCB_at s ! k) = t" using assms(3) k by (simp add: process_terminal_def pcb_of_def)
  ultimately show ?thesis using b k by (simp add: sys_vidmap_def pcb_of_def)
qed

lemma vidmap_translation:
  assumes "t < 3" "i < 4096" "user_page_table s ! t = e" "pte_present e" "pte_user_supervisor e" "physical_address e = frame_of (video_page h)"
    and "take_bit 12 u = 0" "k \<noteq> u" "h \<le> 3"
    and "dir ! 128 = fill_pde u False True"
  shows "mmu k u dir ktab (user_page_table s) (USER_VIDMAP_ADDR + of_nat t * FOUR_KB + of_nat i) = Some (video_page h + of_nat i, True)"
proof -
  let ?v = "USER_VIDMAP_ADDR + of_nat t * FOUR_KB + of_nat i :: u32"
  have nv: "unat ?v = 0x20000000 + t * 0x1000 + i"
  proof -
    have "?v = of_nat (0x20000000 + t * 0x1000 + i)" by simp
    then show ?thesis using assms(1,2) by (simp only:) (rule unat_of_nat_32, simp)
  qed
  have e: "0x20000000 + t * 0x1000 + i = i + (0x20000 + t) * 4096" by simp
  have dm: "(i + x * 4096) div 4096 = x" "(i + x * 4096) mod 4096 = i" for x using assms(2) by simp_all
  have "t = 0 \<or> t = 1 \<or> t = 2" using assms(1) by linarith
  then have "(0x20000 + t) mod 1024 = t" by auto
  then have n: "(0x20000000 + t * 0x1000 + i) div 4194304 = 128" "(0x20000000 + t * 0x1000 + i) div 4096 mod 1024 = t"
      "(0x20000000 + t * 0x1000 + i) mod 4096 = i"
    using assms(1,2) by (simp, unfold e dm, simp_all)
  have "unat (drop_bit 22 ?v) = drop_bit 22 (unat ?v)" "unat (take_bit 10 (drop_bit 12 ?v)) = take_bit 10 (drop_bit 12 (unat ?v))"
      "unat (take_bit 12 ?v) = take_bit 12 (unat ?v)"
    by (simp_all only: unat_drop_bit_eq unsigned_take_bit_eq)
  then have "unat (drop_bit 22 ?v) = 128" "unat (take_bit 10 (drop_bit 12 ?v)) = t" "unat (take_bit 12 ?v) = i"
    using n by (simp_all only: nv drop_bit_eq_div take_bit_eq_mod) simp_all
  moreover from this(3) have "take_bit 12 ?v = of_nat i" using word_unat_eq_iff [of "take_bit 12 ?v" "of_nat i"] assms(2) by (simp add: unat_of_nat_32)
  moreover have "push_bit 12 (ucast (frame_of (video_page h))) = video_page h"
  proof (rule push_ucast_frame)
    have "h = 0 \<or> h = 1 \<or> h = 2 \<or> h = 3" using assms(9) by linarith
    then show "take_bit 12 (video_page h) = 0" by (elim disjE) (simp_all add: video_page_def take_bit_eq_mod)
  qed
  ultimately show ?thesis using assms by (simp add: mmu_def push_ucast_frame)
qed

end
