(* ===== verification/Process_Properties.thy ===== *)
theory Process_Properties
  imports Process_Control
begin

unbundle bit_operations_syntax

text \<open>
  What the process calls guarantee: starting a program, returning from it, its arguments, its screen,
  its address space, and the invariant of the tables under every system call.
\<close>

section \<open>A program to run\<close>

text \<open>The demonstration file as a program of 28 bytes: an ELF signature and the entry point 0x08048010.\<close>

definition demo_program :: "byte list" where
  "demo_program = [0x7F, 0x45, 0x4C, 0x46] @ replicate 20 0 @ [0x10, 0x80, 0x04, 0x08]"

definition exec_image :: mem where
  "exec_image = (wr_bytes demo_image 0x502000 demo_program)(0x501000 := 28)"

definition exec_demo :: sys where
  "exec_demo = demo_sys\<lparr>memory := exec_image\<rparr>"

definition demo_locals :: exec_locals where
  "demo_locals = \<lparr>args_init = replicate 128 0, testBuffer_at = 0x7F0000, program_eip_at = 0x7F0010, dentry_init = ld_dentry demo_image 0\<rparr>"

text \<open>The command line \<^verbatim>\<open>abc 1\<close>.\<close>

definition demo_command :: "nat \<Rightarrow> byte" where
  "demo_command = str_view ''abc 1''"

lemma exec_image_byte:
  "unat (a - 0x502000) \<ge> 28 \<Longrightarrow> a \<noteq> 0x501000 \<Longrightarrow> exec_image a = demo_image a"
  by (simp add: exec_image_def wr_bytes_def demo_program_def)

lemma exec_header_words:
  "numDirectories exec_image 0x500000 = 1" "numInodes exec_image 0x500000 = 1" "numDataBlocks exec_image 0x500000 = 1"
  by (simp_all add: numDirectories_def numInodes_def numDataBlocks_def ld32_def exec_image_byte demo_image_def)

lemma exec_inode: "inode_length (inode_at exec_image 0x500000 0) = 28" "dataBlocks (inode_at exec_image 0x500000 0) ! 0 = 0"
  by (simp_all add: inode_at_def ld_inode_def ld32_def exec_image_byte demo_image_def) (simp_all add: exec_image_def)

lemma exec_image_ok: "image_ok exec_image 0x500000"
proof -
  have "dataBlocks (inode_at exec_image 0x500000 0) ! k = 0" if "4096 * k < (28 :: nat)" for k
    using that exec_inode(2) by (cases k) simp_all
  then show ?thesis using exec_inode by (auto simp: image_ok_def image_size_def exec_header_words inode_ok_def)
qed

lemma exec_file: "file_data exec_image 0x500000 0 = demo_program"
proof (rule nth_equalityI)
  show len: "length (file_data exec_image 0x500000 0) = length demo_program"
    by (simp add: length_file_data exec_inode demo_program_def)
  fix i assume "i < length (file_data exec_image 0x500000 0)"
  then have i: "i < 28" by (simp add: length_file_data exec_inode)
  then have "file_data exec_image 0x500000 0 ! i = exec_image (0x502000 + of_nat i)"
    by (simp add: file_data_def Let_def exec_inode file_byte_def exec_header_words)
  also have "\<dots> = demo_program ! i"
  proof -
    have "unat (0x502000 + of_nat i :: u32) = 0x502000 + i" using i by (simp add: unat_word_ariths unat_of_nat_32)
    then have "unat (0x502000 + of_nat i :: u32) \<noteq> unat (0x501000 :: u32)" by simp
    then have "(0x502000 :: u32) + of_nat i \<noteq> 0x501000" by metis
    then have "exec_image (0x502000 + of_nat i) = wr_bytes demo_image 0x502000 demo_program (0x502000 + of_nat i)"
      by (simp add: exec_image_def)
    also have "\<dots> = demo_program ! i" using i by (intro wr_bytes_at) (simp_all add: demo_program_def)
    finally show ?thesis .
  qed
  finally show "file_data exec_image 0x500000 0 ! i = demo_program ! i" .
qed

lemma demo_command_parsed:
  "command_name demo_command = [97, 98, 99]" "strlen demo_command = Some 5" "skip_spaces demo_command 3 = Some 4"
proof -
  show "command_name demo_command = [97, 98, 99]"
    by (simp add: command_name_def demo_command_def str_view_def upt_rec)
  have "(\<forall>j < 5. demo_command j \<noteq> 0) \<longleftrightarrow> (\<forall>j \<in> {0, 1, 2, 3, 4}. demo_command j \<noteq> 0)"
    by (auto simp: numeral_eq_Suc less_Suc_eq)
  then show "strlen demo_command = Some 5" by (simp add: strlen_iff demo_command_def str_view_def)
  show "skip_spaces demo_command 3 = Some 4"
    by (subst skip_spaces.simps, subst skip_spaces.simps) (simp add: demo_command_def str_view_def)
qed

lemma exec_demo_sel:
  "memory exec_demo = exec_image" "bootMemAddr exec_demo = 0x500000" "PCB_ptrs exec_demo = [Some 0, None, None, None, None, None]"
  "cur_pid exec_demo = 0" "PCB_at exec_demo = replicate 6 demo_proc" "cpu_esp exec_demo = 0x7FFF00" "cpu_ebp exec_demo = 0x7FFF80"
  by (simp_all add: exec_demo_def demo_sys_sel)

lemma exec_demo_ok: "sys_ok exec_demo"
  using demo_sys_ok proc_same_ok [of demo_sys exec_demo] by (simp add: exec_demo_def proc_same_def)

lemma exec_demo_dir: "directory exec_image 0x500000 = [ld_dentry exec_image 0x500040]"
    "name_of (ld_dentry exec_image 0x500040) = [97, 98, 99]" "inodeNum (ld_dentry exec_image 0x500040) = 0"
proof -
  show "directory exec_image 0x500000 = [ld_dentry exec_image 0x500040]"
    by (simp add: directory_def exec_header_words dentry_addr_def)
  show "name_of (ld_dentry exec_image 0x500040) = [97, 98, 99]"
    by (simp add: name_of_ld_dentry cstr_n_def upt_rec view_def exec_image_byte demo_image_def)
  show "inodeNum (ld_dentry exec_image 0x500040) = 0"
    by (simp add: ld_dentry_def ld32_def exec_image_byte demo_image_def)
qed

lemma exec_demo_pid: "free_pid (PCB_ptrs exec_demo) 0 = 1"
  by (subst free_pid.simps, subst free_pid.simps) (simp add: exec_demo_sel)

lemma exec_demo_ready: "exec_ready demo_locals demo_command demo_program exec_demo"
  unfolding exec_ready_def exec_demo_pid
  by (simp add: exec_demo_sel exec_demo_ok [unfolded sys_ok_def] can_start_def image_placed_def exec_image_ok exec_header_words image_size_def
      demo_command_parsed kernel_local_def demo_locals_def disjoint_regions_def exec_demo_dir exec_file)
     (simp add: executable_def demo_program_def)


definition vidmap_demo :: sys where
  "vidmap_demo = (let d = (page_directory demo_sys)[128 := fill_pde 0x404000 False True] in
     demo_sys\<lparr>page_directory := d, tlb_dir := d, user_page_table := demo_video_table,
       tlb_user := demo_video_table, tlb_kernel := kernel_page_table demo_sys\<rparr>)"

lemma ld32_st32: "ld32 (st32 m p a) p = a"
proof (rule bit_word_eqI)
  fix n assume "n < LENGTH(32)"
  then have n: "n < 32" by simp
  consider "n < 8" | "8 \<le> n" "n < 16" | "16 \<le> n" "n < 24" | "24 \<le> n" by linarith
  then show "bit (ld32 (st32 m p a) p) n = bit a n"
    using n by cases (auto simp: ld32_def st32_def bit_or_iff bit_push_bit_iff bit_ucast_iff bit_drop_bit_eq)
qed

section \<open>Properties\<close>

text \<open>
  C8: starting a program.  When there is a free process number, the command line is terminated and its
  first word names a file that is an executable of at most 4MB - 0x48000 bytes, \<open>sys_execute\<close>
  enters the program at the entry point of its header, and in the state it starts in:
  the process has the lowest free number; its 4MB page is mapped at 128MB and holds the file at
  0x08048000; its parent is the caller and its terminal the caller's (or the thread's, when the
  scheduler starts it); the caller's stack pointers are saved; the arguments are stored; the file
  system is untouched; and the invariant of the process tables holds.
\<close>

theorem execute_starts_program:
  assumes "exec_ready loc cmd prog s" "p = free_pid (PCB_ptrs s) 0"
  shows "\<exists>j s'. skip_spaces cmd (length (command_name cmd)) = Some j
     \<and> sys_execute loc (Some cmd) s = Some (EnterUser (ld32 (\<lambda>a. prog ! unat a) 24) s')
     \<and> sys_ok s' \<and> cur_pid s' = int p \<and> PCB_ptrs s ! p = None \<and> (\<forall>q < p. PCB_ptrs s ! q \<noteq> None)
     \<and> user_ptr PROGRAM_INIT_VIRTUAL_ADDR (length prog) s' = Some (load_address p)
     \<and> rd_bytes (memory s') (load_address p) (length prog) = prog
     \<and> parent_pid (PCB_at s' ! p) = cur_pid s \<and> parent_terminal (PCB_at s' ! p) = start_terminal s
     \<and> esp (PCB_at s' ! p) = cpu_esp s \<and> ebp (PCB_at s' ! p) = cpu_ebp s
     \<and> (cmd j \<noteq> 0 \<longrightarrow> arg_ptr (PCB_at s' ! p) = command_args cmd j)
     \<and> same_image (bootMemAddr s) (memory s) (memory s') \<and> process_fdt (PCB_at s' ! p) = initial_fdt"
proof -
  obtain j m where e: "skip_spaces cmd (length (command_name cmd)) = Some j"
      "sys_execute loc (Some cmd) s = Some (EnterUser (ld32 (\<lambda>a. prog ! unat a) 24)
         (launched p (if cmd j \<noteq> 0 then command_args cmd j else args_init loc) m s))"
      "p < 6" "PCB_ptrs s ! p = None" "same_image (bootMemAddr s) (memory s) m"
      "rd_bytes m (load_address p) (length prog) = prog"
    using sys_execute_ok [OF assms(1)] assms(2) by blast
  have cs: "can_start s" "length prog \<le> 0x3B8000" "length (PCB_at s) = 6"
    using assms(1) by (auto simp: exec_ready_def executable_def can_start_def proc_inv_def proc_wf_def split: option.splits)
  define s' where "s' = launched p (if cmd j \<noteq> 0 then command_args cmd j else args_init loc) m s"
  have ok: "sys_ok s'" unfolding s'_def by (rule launched_ok [OF cs(1) e(3,4)])
  have sel: "cur_pid s' = int p" "memory s' = m" by (simp_all add: s'_def launched_def entered_def)
  have b: "PCB_at s' ! p = (new_pcb p (if cmd j \<noteq> 0 then command_args cmd j else args_init loc) s)\<lparr>esp := cpu_esp s, ebp := cpu_ebp s\<rparr>"
    using e(3) cs(3) by (simp add: s'_def launched_def entered_def)
  have "user_ptr PROGRAM_INIT_VIRTUAL_ADDR (length prog) s' = Some (load_address p)"
    using cs(2) by (simp add: user_ptr_ok [OF ok] user_frame_def sel load_address_def)
  moreover have "\<forall>q < p. PCB_ptrs s ! q \<noteq> None" using free_pid_spec [of 0 "PCB_ptrs s"] assms(2) by simp
  ultimately show ?thesis
    using e ok sel b by (auto simp: s'_def [symmetric] new_pcb_def command_args_copy)
qed

theorem execute_starts_program_witness:
  "\<exists>s'. sys_execute demo_locals (Some demo_command) exec_demo = Some (EnterUser 0x08048010 s')
     \<and> cur_pid s' = 1 \<and> rd_bytes (memory s') 0xC48000 28 = demo_program \<and> parent_pid (PCB_at s' ! 1) = 0"
proof -
  have "ld32 (\<lambda>a. demo_program ! unat a) 24 = 0x08048010"
    by (simp add: ld32_def demo_program_def nth_append)
  moreover have "load_address 1 = 0xC48000" "length demo_program = 28"
    by (simp_all add: load_address_def demo_program_def)
  ultimately show ?thesis
    using execute_starts_program [OF exec_demo_ready exec_demo_pid [symmetric]] exec_demo_sel(4) by auto
qed


text \<open>
  C9: a program that halts returns to the program that started it.  From any state that satisfies the
  invariant, with a running process that has a parent, \<open>sys_halt\<close> resumes the parent at the saved
  stack pointers with the status as result, 256 when an exception ended the process with status
  255; the parent's descriptor table, process page (also in the processor's cache) and kernel
  stack are in use again, the child's number is free, every other entry of the process table is
  as before, and the invariant holds.
\<close>

theorem halt_resumes_parent:
  assumes "sys_ok s" "cur_pid s = int k" "parent_pid (PCB_at s ! k) = int q"
  shows "\<exists>s'. sys_halt status s = Some (HaltResume (ucast status + of_bool (exception_flag (PCB_at s ! k)))
         (esp (PCB_at s ! k)) (ebp (PCB_at s ! k)) s')
     \<and> sys_ok s' \<and> cur_pid s' = int q \<and> fdt s' = Some q \<and> PCB_ptrs s' = (PCB_ptrs s)[k := None]
     \<and> PCB_at s' = PCB_at s \<and> tlb_dir s' ! PROCESS_PAGING_INDEX = process_page q \<and> tss_esp0 s' = kernel_stack q
     \<and> memory s' = memory s \<and> shellStarted s' = shellStarted s"
proof -
  let ?s' = "clearTLB ((halted status k s)\<lparr>page_directory := (page_directory s)[PROCESS_PAGING_INDEX := process_page q],
        fdt := Some q, cur_pid := int q, tss_esp0 := kernel_stack q\<rparr>)"
  have "length (page_directory s) = 1024" using assms(1) by (simp add: sys_ok_def proc_inv_def)
  then have "cur_pid ?s' = int q" "fdt ?s' = Some q" "PCB_ptrs ?s' = (PCB_ptrs s)[k := None]" "PCB_at ?s' = PCB_at s"
      "tlb_dir ?s' ! PROCESS_PAGING_INDEX = process_page q" "tss_esp0 ?s' = kernel_stack q" "memory ?s' = memory s"
      "shellStarted ?s' = shellStarted s"
    by (simp_all add: clearTLB_def halted_def)
  then show ?thesis using sys_halt_child [OF assms] sys_halt_child_inv [OF assms] by blast
qed

theorem halt_resumes_parent_witness:
  "\<exists>s'. sys_halt 7 (launched 1 [] exec_image exec_demo) = Some (HaltResume 7 0x7FFF00 0x7FFF80 s')
     \<and> cur_pid s' = 0 \<and> PCB_ptrs s' = [Some 0, None, None, None, None, None]"
proof -
  let ?s = "launched 1 [] exec_image exec_demo"
  have ok: "sys_ok ?s"
    using exec_demo_ok by (intro launched_ok) (simp_all add: can_start_def sys_ok_def exec_demo_sel)
  have sel: "cur_pid ?s = int 1" "PCB_ptrs ?s = [Some 0, Some 1, None, None, None, None]"
    "PCB_at ?s ! 1 = (new_pcb 1 [] exec_demo)\<lparr>esp := 0x7FFF00, ebp := 0x7FFF80\<rparr>"
    by (simp_all add: launched_def entered_def exec_demo_sel)
  have "parent_pid (PCB_at ?s ! 1) = int 0" unfolding sel by (simp add: new_pcb_def exec_demo_sel)
  from halt_resumes_parent [OF ok sel(1) this, of 7] show ?thesis
    unfolding sel by (auto simp: new_pcb_def)
qed

text \<open>
  C10: execute and halt are inverse to each other.  When a running process executes a program and that
  program halts at once, the process continues with the program's status, the stack pointers it
  had, its own number, descriptor table, page and kernel stack, and a process table with the same
  processes in it.
\<close>

theorem execute_halt_roundtrip:
  assumes "exec_ready loc cmd prog s" "running s"
  shows "\<exists>eip s1 s2. sys_execute loc (Some cmd) s = Some (EnterUser eip s1)
     \<and> sys_halt status s1 = Some (HaltResume (ucast status) (cpu_esp s) (cpu_ebp s) s2)
     \<and> cur_pid s2 = cur_pid s \<and> PCB_ptrs s2 = PCB_ptrs s \<and> fdt s2 = fdt s \<and> tss_esp0 s2 = tss_esp0 s
     \<and> page_directory s2 = page_directory s \<and> tlb_dir s2 ! PROCESS_PAGING_INDEX = tlb_dir s ! PROCESS_PAGING_INDEX
     \<and> PCB_at s2 ! nat (cur_pid s) = PCB_at s ! nat (cur_pid s) \<and> sys_ok s2"
proof -
  let ?p = "free_pid (PCB_ptrs s) 0"
  obtain j m where e: "sys_execute loc (Some cmd) s = Some (EnterUser (ld32 (\<lambda>a. prog ! unat a) 24)
         (launched ?p (if cmd j \<noteq> 0 then command_args cmd j else args_init loc) m s))" "?p < 6" "PCB_ptrs s ! ?p = None"
    using sys_execute_ok [OF assms(1)] by blast
  define args where "args = (if cmd j \<noteq> 0 then command_args cmd j else args_init loc)"
  define s1 where "s1 = launched ?p args m s"
  define q where "q = nat (cur_pid s)"
  have inv: "proc_inv s" and cs: "can_start s" using assms(1) by (auto simp: exec_ready_def can_start_def)
  have len: "length (PCB_at s) = 6" "length (PCB_ptrs s) = 6" "length (page_directory s) = 1024"
    using inv by (simp_all add: proc_inv_def proc_wf_def)
  have q: "cur_pid s = int q" "fdt s = Some q" "tss_esp0 s = kernel_stack q" "page_directory s ! 32 = process_page q"
      "tlb_dir s ! 32 = process_page q" "?p \<noteq> q"
    using assms(2) e(3) by (auto simp: running_def q_def)
  have s1: "sys_ok s1" "cur_pid s1 = int ?p" "parent_pid (PCB_at s1 ! ?p) = int q"
    using launched_ok [OF cs e(2,3)] e(2) len q(1)
    by (simp_all add: s1_def) (simp_all add: launched_def entered_def new_pcb_def)
  have pcb: "esp (PCB_at s1 ! ?p) = cpu_esp s" "ebp (PCB_at s1 ! ?p) = cpu_ebp s" "\<not> exception_flag (PCB_at s1 ! ?p)"
    using e(2) len by (simp_all add: s1_def launched_def entered_def new_pcb_def)
  have dir: "page_directory s1 = (page_directory s)[32 := process_page ?p]" "PCB_ptrs s1 = (PCB_ptrs s)[?p := Some ?p]"
      "PCB_at s1 ! q = PCB_at s ! q"
    using q(6) by (simp_all add: s1_def launched_def entered_def clearTLB_def)
  let ?s2 = "clearTLB ((halted status ?p s1)\<lparr>page_directory := (page_directory s1)[PROCESS_PAGING_INDEX := process_page q],
        fdt := Some q, cur_pid := int q, tss_esp0 := kernel_stack q\<rparr>)"
  have "page_directory s = (page_directory s)[32 := process_page q]" using q(4) by (metis list_update_id)
  moreover have "PCB_ptrs s = (PCB_ptrs s)[?p := None]" using e(3) by (metis list_update_id)
  ultimately have "page_directory ?s2 = page_directory s" "PCB_ptrs ?s2 = PCB_ptrs s" "PCB_at ?s2 ! q = PCB_at s ! q"
      "tlb_dir ?s2 ! 32 = tlb_dir s ! 32"
    using dir q(4,5) len by (simp_all add: clearTLB_def halted_def)
  moreover have "cur_pid ?s2 = cur_pid s" "fdt ?s2 = fdt s" "tss_esp0 ?s2 = tss_esp0 s"
    using q by (simp_all add: clearTLB_def)
  ultimately show ?thesis
    using e(1) sys_halt_child [OF s1, of status] sys_halt_child_inv [OF s1, of status] pcb
    unfolding args_def [symmetric] s1_def [symmetric] q_def [symmetric] by auto
qed


theorem execute_halt_roundtrip_witness:
  "\<exists>eip s1 s2. sys_execute demo_locals (Some demo_command) exec_demo = Some (EnterUser eip s1)
     \<and> sys_halt 7 s1 = Some (HaltResume 7 0x7FFF00 0x7FFF80 s2) \<and> cur_pid s2 = 0"
proof -
  have "running exec_demo" using exec_demo_ok by (simp add: sys_ok_def)
  from execute_halt_roundtrip [OF exec_demo_ready this, of 7] show ?thesis
    unfolding exec_demo_sel by auto
qed

text \<open>
  C29: the arguments of the command line reach the program.  In a process started with a command line
  that has arguments, \<open>sys_getargs\<close> with a buffer of 128 bytes in the process's page, of which \<open>nbytes\<close>
  are offered and are enough for the arguments and their terminator, answers 0 and leaves in the buffer
  the text after the program name and the spaces that follow it, cut at 127 characters and filled up
  with NUL bytes to 128 (the code writes all 128 bytes also when \<open>nbytes\<close> is less).
\<close>

theorem getargs_returns_arguments:
  assumes "exec_ready loc cmd prog s" "skip_spaces cmd (length (command_name cmd)) = Some j" "cmd j \<noteq> 0"
    and "user_buffer buf ARG_SIZE" "int (length (cstr_n (\<lambda>k. cmd (j + k)) 127)) < nbytes"
  shows "\<exists>eip s1 s2. sys_execute loc (Some cmd) s = Some (EnterUser eip s1) \<and> sys_getargs buf nbytes s1 = Some (0, s2)
     \<and> rd_bytes (memory s2) (user_frame s1 + (buf - 0x08000000)) ARG_SIZE = strncpy_spec (\<lambda>k. cmd (j + k)) 127 @ [0]"
proof -
  let ?p = "free_pid (PCB_ptrs s) 0"
  obtain m where e: "sys_execute loc (Some cmd) s = Some (EnterUser (ld32 (\<lambda>a. prog ! unat a) 24)
         (launched ?p (command_args cmd j) m s))" "?p < 6" "PCB_ptrs s ! ?p = None"
    using sys_execute_ok [OF assms(1)] assms(2,3) by auto
  have cs: "can_start s" "length (PCB_at s) = 6" using assms(1) by (auto simp: exec_ready_def can_start_def proc_inv_def proc_wf_def)
  let ?s1 = "launched ?p (command_args cmd j) m s"
  have ok: "sys_ok ?s1" by (rule launched_ok [OF cs(1) e(2,3)])
  have "arg_ptr (PCB_at ?s1 ! nat (cur_pid ?s1)) = command_args cmd j"
    using e(2) cs(2) by (simp add: launched_def entered_def new_pcb_def command_args_copy)
  moreover have "0 \<le> nbytes" using assms(5) by linarith
  ultimately have g: "sys_getargs buf nbytes ?s1 = Some (0, with_memory (wr_bytes (memory ?s1) (user_frame ?s1 + (buf - 0x08000000)) (command_args cmd j)) ?s1)"
    using sys_getargs_ok [OF ok assms(4)] by blast
  have "rd_bytes (wr_bytes (memory ?s1) (user_frame ?s1 + (buf - 0x08000000)) (command_args cmd j)) (user_frame ?s1 + (buf - 0x08000000)) 128
      = command_args cmd j"
    using rd_wr_bytes [of "command_args cmd j"] by simp
  then show ?thesis using e(1) g by (auto simp: command_args_def)
qed

theorem getargs_returns_arguments_witness:
  "\<exists>eip s1 s2. sys_execute demo_locals (Some demo_command) exec_demo = Some (EnterUser eip s1)
     \<and> sys_getargs 0x08100000 128 s1 = Some (0, s2)
     \<and> rd_bytes (memory s2) (user_frame s1 + 0x100000) 128 = 49 # replicate 127 0"
proof -
  have "cstr_n (\<lambda>k. demo_command (4 + k)) 127 = [49]"
  proof -
    have "cstr_n (\<lambda>k. demo_command (4 + k)) (Suc (Suc 125)) = [49]"
      by (simp only: cstr_n_Suc) (simp add: demo_command_def str_view_def)
    then show ?thesis by simp
  qed
  then have a: "strncpy_spec (\<lambda>k. demo_command (4 + k)) 127 @ [0] = 49 # replicate 127 0"
    using replicate_append_same [of 126 "0 :: byte"] replicate_Suc [of 126 "0 :: byte"] by (simp add: strncpy_spec_def)
  have j: "skip_spaces demo_command (length (command_name demo_command)) = Some 4"
    using demo_command_parsed(3) unfolding demo_command_parsed(1) by (simp add: numeral_3_eq_3)
  have c: "demo_command 4 \<noteq> 0" by (simp add: demo_command_def str_view_def)
  have "length (cstr_n (\<lambda>k. demo_command (4 + k)) 127) \<le> 127" by (rule length_cstr_n)
  with getargs_returns_arguments [OF exec_demo_ready j c, of "0x08100000" 128] a
  show ?thesis by (simp add: user_buffer_def)
qed


text \<open>
  C30: \<open>sys_vidmap\<close> gives a program its own screen.  With the user pages of the terminals set up as the
  kernel keeps them and no stale translation, the call answers 0 and the address it stores leads,
  for each of the 4096 bytes from there and with user access, to the page that holds the virtual
  screen of the process's terminal: the display when that terminal is shown, its backing page
  otherwise.
\<close>

theorem vidmap_shows_own_screen:
  assumes "sys_ok s" "user_buffer v 4" "process_terminal s = Some t" "currentTerminal s < NUM_TERMINALS"
    and "vidmap_ok s" "tlb_coherent s" "tlb_dir s ! USER_PAGE_TABLE_INDEX = fill_pde u False True"
    and "take_bit 12 u = 0" "k \<noteq> u" "i < 4096"
  shows "\<exists>s' a. sys_vidmap v s = Some (0, s') \<and> ld32 (memory s') (user_frame s + (v - 0x08000000)) = a
     \<and> mmu k u (tlb_dir s') (tlb_kernel s') (tlb_user s') (a + of_nat i) = Some (video_page (home_page t s) + of_nat i, True)"
proof -
  let ?p = "user_frame s + (v - 0x08000000)" and ?a = "USER_VIDMAP_ADDR + of_nat t * FOUR_KB"
  have t: "t < 3" using sys_okD [OF assms(1)] assms(3) by (metis option.inject)
  note e = sys_vidmap_ok [OF assms(1-3)]
  have "home_page t s \<le> 3" using home_page_le assms(4) t by blast
  moreover have "physical_address (user_page_table s ! t) = frame_of (video_page (home_page t s))"
      "pte_present (user_page_table s ! t)" "pte_user_supervisor (user_page_table s ! t)"
    using assms(5) t by (simp_all add: vidmap_ok_def)
  ultimately have "mmu k u (tlb_dir s) (tlb_kernel s) (user_page_table s) (?a + of_nat i) = Some (video_page (home_page t s) + of_nat i, True)"
    using t assms(7-10) by (intro vidmap_translation) auto
  moreover have "tlb_user s = user_page_table s" using assms(6) by (simp add: tlb_coherent_def)
  moreover have "ld32 (st32 (memory s) ?p ?a) ?p = ?a" by (rule ld32_st32)
  ultimately show ?thesis using e by (simp add: with_memory_def)
qed

theorem vidmap_shows_own_screen_witness:
  "\<exists>s' a. sys_vidmap 0x08100000 vidmap_demo = Some (0, s') \<and> ld32 (memory s') 0x900000 = a
     \<and> mmu 0x403000 0x404000 (tlb_dir s') (tlb_kernel s') (tlb_user s') (a + of_nat 5) = Some (0xB8000 + of_nat 5, True)"
proof -
  have "proc_inv vidmap_demo \<and> running vidmap_demo"
    using demo_sys_ok unfolding sys_ok_def proc_inv_def running_def proc_wf_def fops_ready_def pcb_ok_def is_parent_def
    by (simp add: vidmap_demo_def Let_def demo_sys_sel(3))
  then have ok: "sys_ok vidmap_demo" by (simp add: sys_ok_def)
  have t: "process_terminal vidmap_demo = Some 1"
    by (simp add: vidmap_demo_def Let_def process_terminal_def pcb_of_def pcb_place_def demo_sys_sel)
  have f: "currentTerminal vidmap_demo = 1" "user_frame vidmap_demo = 0x800000"
      "tlb_dir vidmap_demo ! 128 = fill_pde 0x404000 False True" "tlb_coherent vidmap_demo" "vidmap_ok vidmap_demo"
    using demo_sys_ok by (simp_all add: vidmap_demo_def Let_def demo_sys_sel sys_ok_def proc_inv_def user_frame_def tlb_coherent_def vidmap_ok_def all_less_3 demo_video_table_def home_page_def)
  have "take_bit 12 (0x404000 :: u32) = 0" by code_simp
  from vidmap_shows_own_screen [OF ok _ t _ f(5,4,3) this, of "0x08100000" "0x403000" 5] f(1,2) show ?thesis
    by (auto simp: user_buffer_def home_page_def video_page_def)
qed


text \<open>
  C25: the address space of a process.  After the kernel's tables have been set up and the page of process
  \<open>p\<close> mapped, the 4MB from 128MB on lead to the 4MB of physical memory that belong to \<open>p\<close> alone, with
  user access; every other address translates, or faults, as before, so that nothing of another
  process is reachable.
\<close>

theorem process_address_space:
  fixes pd k u v :: u32 and s :: "'a sys_scheme"
  assumes "paging_wf s" "take_bit 12 k = 0" "take_bit 12 u = 0" "k \<noteq> u" "p < MAX_PROCESSES"
  defines "s' \<equiv> init_process_paging p (init_paging pd k u s)"
  shows "mmu k u (tlb_dir s') (tlb_kernel s') (tlb_user s') v =
    (if 0x08000000 \<le> v \<and> v < 0x08400000 then Some (0x800000 + of_nat p * 0x400000 + (v - 0x08000000), True) else boot_space v)"
proof -
  let ?i = "init_paging pd k u s"
  have co: "tlb_coherent ?i" "length (page_directory ?i) = 1024"
    using init_paging_tables [OF assms(1), where pd = pd and k = k and u = u] by (simp_all add: paging_wf_def)
  have t: "tlb_dir s' = (tlb_dir ?i)[32 := process_page p]" "tlb_kernel s' = tlb_kernel ?i" "tlb_user s' = tlb_user ?i"
    using co(1) by (simp_all add: s'_def init_process_paging_def process_page_def clearTLB_def tlb_coherent_def)
  have l: "length (tlb_dir ?i) = 1024" using co by (simp add: tlb_coherent_def)
  have range: "unat (drop_bit 22 v) = 32 \<longleftrightarrow> 0x08000000 \<le> v \<and> v < 0x08400000"
  proof -
    have "unat (drop_bit 22 v) = drop_bit 22 (unat v)" by (rule unat_drop_bit_eq)
    also have "\<dots> = unat v div 0x400000" by (simp add: drop_bit_eq_div)
    finally show ?thesis by (auto simp: word_le_nat_alt word_less_nat_alt)
  qed
  show ?thesis
  proof (cases "unat (drop_bit 22 v) = 32")
    case True
    then have r: "0x08000000 \<le> v" "v < 0x08400000" using range by blast+
    have "take_bit 22 v = v - 0x08000000"
    proof -
      define x where "x = unat v - 0x08000000"
      have x: "unat v = x + 32 * 0x400000" "x < 0x400000" using r by (auto simp: x_def word_le_nat_alt word_less_nat_alt)
      have "unat (take_bit 22 v) = take_bit 22 (unat v)" by (simp only: unsigned_take_bit_eq)
      also have "\<dots> = (x + 32 * 0x400000) mod 0x400000" by (simp only: take_bit_eq_mod x(1)) simp
      also have "\<dots> = x" using x(2) by (simp only: mod_mult_self1) simp
      also have "\<dots> = unat (v - 0x08000000)" using r(1) by (simp add: x_def unat_sub)
      finally show ?thesis by (rule word_unat_eq_iff [THEN iffD2])
    qed
    moreover have "user_base s' = 0x800000 + of_nat p * 0x400000"
      using l assms(5) by (intro user_base_process) (simp_all add: t)
    ultimately show ?thesis using r l True by (simp add: mmu_def t Let_def user_base_def process_page_def)
  next
    case False
    then have "mmu k u (tlb_dir s') (tlb_kernel s') (tlb_user s') v = mmu k u (tlb_dir ?i) (tlb_kernel ?i) (tlb_user ?i) v"
      by (simp add: mmu_def t)
    then show ?thesis using False range init_paging_space [OF assms(1-4), of pd v] by auto
  qed
qed


theorem process_address_space_witness:
  "mmu 0x403000 0x404000 (tlb_dir (init_process_paging 2 (init_paging 0x402000 0x403000 0x404000 demo_sys)))
     (tlb_kernel (init_process_paging 2 (init_paging 0x402000 0x403000 0x404000 demo_sys)))
     (tlb_user (init_process_paging 2 (init_paging 0x402000 0x403000 0x404000 demo_sys))) 0x08048010 = Some (0x1048010, True)"
proof -
  have "paging_wf demo_sys" by (simp add: paging_wf_def demo_sys_simps)
  moreover have "take_bit 12 (0x403000 :: u32) = 0" "take_bit 12 (0x404000 :: u32) = 0" by code_simp+
  ultimately show ?thesis
    using process_address_space [of demo_sys "0x403000" "0x404000" 2 "0x402000" "0x08048010"] by simp
qed

section \<open>Every path of sys_execute\<close>

lemma read_data_frame:
  assumes "image_placed s" "disjoint_regions buf (unat len) (bootMemAddr s) (image_size (memory s) (bootMemAddr s))"
    and "read_data n off buf len s = Some (r, s')"
  shows "\<exists>m. s' = with_memory m s \<and> same_image (bootMemAddr s) (memory s) m \<and> image_placed s'
     \<and> (r = ERROR_VAL \<longleftrightarrow> buf = 0 \<or> numInodes (memory s) (bootMemAddr s) \<le> n \<or> inode_length (inode_at (memory s) (bootMemAddr s) n) < off)"
proof (cases "buf \<noteq> 0 \<and> n < numInodes (memory s) (bootMemAddr s) \<and> off < inode_length (inode_at (memory s) (bootMemAddr s) n)")
  case True
  define data where "data = take (unat len) (drop (unat off) (file_data (memory s) (bootMemAddr s) n))"
  have r: "r = int (length data)" "s' = with_memory (wr_bytes (memory s) buf data) s"
    using read_data_slice [of s n buf off len] True assms by (simp_all add: data_def image_placed_def)
  have "length data \<le> unat len" by (simp add: data_def)
  then have "disjoint_regions buf (length data) (bootMemAddr s) (image_size (memory s) (bootMemAddr s))"
    by (intro disjoint_regions_subset [OF assms(2)]) auto
  moreover have "length data \<le> 2 ^ 32" using \<open>length data \<le> unat len\<close> unat_lt_2p32 [of len] by linarith
  ultimately show ?thesis using image_placed_wr [OF assms(1)] r True by (auto simp: not_le)
next
  case False
  have nd: "ld_inode (memory s) (bootMemAddr s + 4096 * (n + 1)) = inode_at (memory s) (bootMemAddr s) n"
    by (simp only: inode_at_def)
  from False assms(3) have "s' = s \<and> (r = ERROR_VAL \<longleftrightarrow> buf = 0 \<or> numInodes (memory s) (bootMemAddr s) \<le> n \<or> inode_length (inode_at (memory s) (bootMemAddr s) n) < off)"
    unfolding read_data_def Let_def nd by (auto simp: not_le not_less split: if_splits)
  then show ?thesis using assms(1) by (intro exI [of _ "memory s"]) simp
qed

lemma exec_load_inv:
  assumes "can_start s" "p < 6" "PCB_ptrs s ! p = None" "image_placed s" "n < numInodes (memory s) (bootMemAddr s)"
    and "exec_load loc p n (entered p (new_pcb p args s) s) = Some r"
  shows "\<exists>eip m. r = EnterUser eip (launched p args m s) \<and> same_image (bootMemAddr s) (memory s) m"
proof -
  let ?s = "entered p (new_pcb p args s) s"
  have len: "length (PCB_at s) = 6" "length (page_directory s) = 1024" using assms(1) by (simp_all add: can_start_def proc_inv_def proc_wf_def)
  have t: "tlb_dir ?s ! 32 = process_page p" "memory ?s = memory s" "bootMemAddr ?s = bootMemAddr s"
    using len by (simp_all add: entered_def clearTLB_def)
  have ip: "image_placed ?s" using assms(4) t by (simp add: image_placed_def)
  obtain q r1 s1 where q: "user_ptr PROGRAM_INIT_VIRTUAL_ADDR
        (unat (min FOUR_MB (inode_length (inode_at (memory s) (bootMemAddr s) n)))) ?s = Some q"
      "read_data n 0 q FOUR_MB ?s = Some (r1, s1)"
      and r: "r = (if r1 = -1 then Ret ERROR_VAL s1
        else EnterUser (ld32 (memory s1) (program_eip_at loc))
          ((upd_pcb p (\<lambda>b. b\<lparr>esp := cpu_esp s1, ebp := cpu_ebp s1\<rparr>) (s1\<lparr>tss_esp0 := kernel_stack p\<rparr>))\<lparr>if_flag := True\<rparr>))"
    using assms(6) t by (auto simp: exec_load_def Option.bind_eq_Some_conv Let_def kernel_stack_def upd_pcb_def split: if_splits)
  have q': "q = load_address p" using q(1) by (simp add: user_ptr_process [OF t(1) assms(2)] load_address_def split: if_splits)
  have u: "unat q = 0x848000 + p * 0x400000" unfolding q' using assms(2) by (rule unat_load_address)
  have dis: "disjoint_regions q (unat FOUR_MB) (bootMemAddr ?s) (image_size (memory ?s) (bootMemAddr ?s))"
    using u assms(2) by (intro image_disjoint [OF ip]) auto
  obtain m where m: "s1 = with_memory m ?s" "same_image (bootMemAddr s) (memory s) m" "r1 \<noteq> -1"
    using read_data_frame [OF ip dis q(2)] u assms(5) t by auto
  have "(upd_pcb p (\<lambda>b. b\<lparr>esp := cpu_esp s1, ebp := cpu_ebp s1\<rparr>) (s1\<lparr>tss_esp0 := kernel_stack p\<rparr>))\<lparr>if_flag := True\<rparr> = launched p args m s"
    using len assms(2) by (simp add: m(1) launched_def entered_def upd_pcb_def with_memory_def clearTLB_def)
  then show ?thesis using r m(2,3) by (intro exI [of _ "ld32 (memory s1) (program_eip_at loc)"] exI [of _ m]) simp
qed

lemma sys_execute_paths:
  assumes "sys_execute loc cmd s = Some r"
  shows "r = Ret ERROR_VAL s \<or> (\<exists>args n. free_pid (PCB_ptrs s) 0 < 6 \<and> exec_checked loc (free_pid (PCB_ptrs s) 0) args n s = Some r)"
proof (cases cmd)
  case (Some c)
  have p: "free_pid (PCB_ptrs s) 0 \<noteq> 6 \<Longrightarrow> free_pid (PCB_ptrs s) 0 < 6" using free_pid_spec [of 0 "PCB_ptrs s"] by simp
  obtain v d where "read_dentry_by_name ((!) (command_name c @ replicate (32 - length (command_name c)) 0)) (Some (dentry_init loc)) s = (v, d)"
    by fastforce
  then show ?thesis
    using assms p by (auto simp: sys_execute_def Some parse_fname_eq Let_def Option.bind_eq_Some_conv split: if_splits)
qed (use assms in \<open>simp add: sys_execute_def\<close>)

lemma sys_execute_inv:
  assumes "can_start s" "image_placed s" "kernel_local (testBuffer_at loc) 4 s" "kernel_local (program_eip_at loc) 4 s"
    and "sys_execute loc cmd s = Some r"
  shows "(\<exists>m. r = Ret ERROR_VAL (with_memory m s) \<and> same_image (bootMemAddr s) (memory s) m)
     \<or> (\<exists>eip p args m. r = EnterUser eip (launched p args m s) \<and> p < 6 \<and> PCB_ptrs s ! p = None \<and> same_image (bootMemAddr s) (memory s) m)"
proof (cases "r = Ret ERROR_VAL s")
  case True
  then show ?thesis by (metis with_memory_same same_image_refl)
next
  case False
  define p where "p = free_pid (PCB_ptrs s) 0"
  obtain args n where x: "p < 6" "exec_checked loc p args n s = Some r"
    using sys_execute_paths [OF assms(5)] False by (auto simp: p_def)
  then obtain r1 s1 where e: "p < 6" "read_data n 0 (testBuffer_at loc) 4 s = Some (r1, s1)"
      "(if r1 = -1 then Some (Ret ERROR_VAL s1) else if \<not> is_elf (memory s1) (testBuffer_at loc) then Some (Ret ERROR_VAL s1)
        else do {
          (r, s) \<leftarrow> read_data n 24 (program_eip_at loc) 4 s1;
          if r = -1 then Some (Ret ERROR_VAL s)
          else do { s \<leftarrow> exec_pcb p args (init_process_paging p s); exec_load loc p n s } }) = Some r"
    unfolding exec_checked_def Option.bind_eq_Some_conv by auto
  have free: "PCB_ptrs s ! p = None" using free_pid_spec [of 0 "PCB_ptrs s"] e(1) by (simp add: p_def)
  obtain m1 where m1: "s1 = with_memory m1 s" "same_image (bootMemAddr s) (memory s) m1" "image_placed s1"
      "r1 = -1 \<longleftrightarrow> testBuffer_at loc = 0 \<or> numInodes (memory s) (bootMemAddr s) \<le> n"
    using read_data_frame [OF assms(2) _ e(2)] assms(3) by (auto simp: kernel_local_def)
  show ?thesis
  proof (cases "r1 = -1 \<or> \<not> is_elf (memory s1) (testBuffer_at loc)")
    case True
    then show ?thesis using e(3) m1 by auto
  next
    case False
    then obtain r2 s2 where e2: "read_data n 24 (program_eip_at loc) 4 s1 = Some (r2, s2)"
        "(if r2 = -1 then Some (Ret ERROR_VAL s2)
          else do { s \<leftarrow> exec_pcb p args (init_process_paging p s2); exec_load loc p n s }) = Some r"
      using e(3) by (auto simp: Option.bind_eq_Some_conv)
    have "kernel_local (program_eip_at loc) 4 s1" by (rule kernel_local_same [OF assms(4) m1(2)]) (simp_all add: m1(1))
    then obtain m2 where m2: "s2 = with_memory m2 s1" "same_image (bootMemAddr s1) (memory s1) m2" "image_placed s2"
      using read_data_frame [OF m1(3) _ e2(1)] by (auto simp: kernel_local_def)
    have s2: "s2 = with_memory m2 s" by (simp add: m2(1) m1(1) with_memory_def)
    have cs: "can_start s2"
      using assms(1) proc_same_inv [OF proc_same_with_memory, of m2 s] proc_same_running [OF proc_same_with_memory, of m2 s]
      by (simp add: can_start_def s2) (simp add: with_memory_def)
    have f2: "PCB_ptrs s2 ! p = None" using free by (simp add: s2 with_memory_def)
    have si: "same_image (bootMemAddr s) (memory s) m2" using same_image_trans [OF m1(2)] m2(2) by (simp add: m1(1))
    have "n < numInodes (memory s2) (bootMemAddr s2)"
      using m1 False m2(2) same_image_header(2) [OF m1(2)] same_image_header(2) [OF m2(2)] by (auto simp: s2 not_le)
    moreover have "launched p args m s2 = launched p args m s" for m
      by (simp add: s2 launched_def entered_def new_pcb_def start_terminal_def with_memory_def clearTLB_def)
    ultimately have load: "(\<exists>eip m. r = EnterUser eip (launched p args m s) \<and> same_image (bootMemAddr s) m2 m)" if "r2 \<noteq> -1"
      using that e2(2) exec_pcb_eq [OF cs e(1) f2] exec_load_inv [OF cs e(1) f2 m2(3), of n loc args r] by (simp add: s2)
    show ?thesis
    proof (cases "r2 = -1")
      case True
      then show ?thesis using e2(2) s2 si by auto
    next
      case False
      then obtain eip m where "r = EnterUser eip (launched p args m s)" "same_image (bootMemAddr s) m2 m"
        using load by blast
      with e(1) free same_image_trans [OF si] show ?thesis by blast
    qed
  qed
qed

section \<open>The dispatcher\<close>

lemma ret_of_Some: "ret_of x = Some r \<longleftrightarrow> (\<exists>v s. x = Some (v, s) \<and> r = Ret v s)"
  by (auto simp: ret_of_def)

lemma sys_halt_inv:
  assumes "sys_ok s" "sys_halt status s = Some r"
  shows "(\<exists>s'. r = HaltSpin s' \<and> proc_inv s') \<or> (\<exists>a b c s'. r = HaltResume a b c s' \<and> sys_ok s')"
proof -
  obtain k where k: "cur_pid s = int k" "k < 6" using sys_okD [OF assms(1)] by metis
  have "pcb_ok k s" using assms(1) k by (auto simp: sys_ok_def running_def proc_inv_def)
  then consider "parent_pid (PCB_at s ! k) = -1" | q where "parent_pid (PCB_at s ! k) = int q"
    unfolding pcb_ok_def Let_def by (metis zero_le_imp_eq_int)
  then show ?thesis
  proof cases
    case 1
    have "proc_inv ((halted status k s)\<lparr>shellStarted := x\<rparr>)" for x
      using halted_inv [OF assms(1) k(1), of status] by (simp add: proc_inv_def proc_wf_def fops_ready_def pcb_ok_def)
    then show ?thesis using assms(2) sys_halt_base [OF assms(1) k(1) 1] by auto
  next
    case 2
    then show ?thesis using assms(2) sys_halt_child [OF assms(1) k(1) 2] sys_halt_child_inv [OF assms(1) k(1) 2] by auto
  qed
qed

lemma proc_inv_of_ok: "sys_ok s \<Longrightarrow> proc_inv s"
  by (simp add: sys_ok_def)

text \<open>A call that has an outcome keeps the tables sound.\<close>

lemma syscall_inv:
  assumes "sys_ok s" "image_placed s" "kernel_local (testBuffer_at loc) 4 s" "kernel_local (program_eip_at loc) 4 s"
    and "syscall loc eax ebx ecx edx s = Some r"
  shows "case r of HaltSpin s' \<Rightarrow> proc_inv s' | _ \<Rightarrow> sys_ok (sysret_state r)"
proof -
  have cs: "can_start s" using assms(1) by (simp add: can_start_def sys_ok_def)
  have m: "sys_ok (with_memory m s)" for m using proc_same_ok [OF proc_same_with_memory, of m s] assms(1) by simp
  have g: "sys_ok s'" if "sys_getargs buf n s = Some (v, s')" for buf n v s'
    using that m assms(1) by (auto simp: sys_getargs_def Option.bind_eq_Some_conv Let_def split: if_splits)
  have vm: "sys_ok s'" if "sys_vidmap a s = Some (v, s')" for a v s'
    using that m assms(1) by (auto simp: sys_vidmap_def Option.bind_eq_Some_conv Let_def split: if_splits)
  have ex: "sys_ok (sysret_state r)" if "sys_execute loc c s = Some r" for c
    using sys_execute_inv [OF cs assms(2-4) that] m launched_ok [OF cs] by auto
  have rd: "sys_ok (sysret_state r)" if "sys_read d fd buf n s = Some r" for d fd buf n
    using sys_read_inv [OF assms(1) that] .
  have ret: "sys_ok (sysret_state r)" if "ret_of x = Some r" "\<And>v s'. x = Some (v, s') \<Longrightarrow> sys_ok s'" for x
    using that by (auto simp: ret_of_Some)
  note calls = sys_write_inv [OF assms(1)] sys_open_inv [OF assms(1)] sys_close_inv [OF assms(1)] g vm
  have "(\<exists>st. sys_halt st s = Some r) \<or> sys_ok (sysret_state r)"
    using assms(5) assms(1) unfolding syscall_def
    by (auto split: if_splits simp: Option.bind_eq_Some_conv sys_sethandler_def sys_sigreturn_def
        intro: ex rd ret calls)
  then show ?thesis
    using sys_halt_inv [OF assms(1)] proc_inv_of_ok by (auto split: sysret.splits)
qed

lemma fd_entry_same: "proc_same s s' \<Longrightarrow> fd_entry j s' = fd_entry j s"
  by (simp add: proc_same_def fd_entry_def)

lemma fd_entry_put:
  assumes "sys_ok s" "cur_pid s = int k" "i < 8"
  shows "fd_entry j (fdt_put k i e s) = (if j = i then e else fd_entry j s)"
proof -
  have "k < 6" "fdt_wf (process_fdt (PCB_at s ! k))" "length (PCB_at s) = 6"
    using sys_okD [OF assms(1)] assms(1,2) unfolding sys_ok_def proc_inv_def proc_wf_def by (metis of_nat_eq_iff)+
  then show ?thesis using assms(2,3) by (simp add: fd_entry_def fdt_put_PCB_at fdt_wf_def nth_list_update)
qed

text \<open>
  C28: opening and closing a file.  When the name (other than a word starting with stdin or stdout) is in
  the directory with one of the three file types and a descriptor is free, \<open>sys_open\<close> answers the
  lowest free one from 2 on; it then refers to the entry found, at position 0, with the operations
  and flag of its type, and all other descriptors are unchanged.  Closing it answers 0, and the
  descriptors in use are the same as before the open.
\<close>

theorem open_close_roundtrip:
  assumes "sys_ok s" "\<not> special_name name" "lookup name s = Some d" "fileType d \<le> 2"
    and "\<exists>i \<in> {2..<8}. fd_flags (fd_entry i s) = UNUSED_FLAG"
  shows "\<exists>i s1 s2. sys_open d0 (Some name) s = Some (int i, s1) \<and> 2 \<le> i \<and> i < 8
     \<and> fd_flags (fd_entry i s) = UNUSED_FLAG \<and> (\<forall>j \<in> {2..<i}. fd_flags (fd_entry j s) \<noteq> UNUSED_FLAG)
     \<and> fd_entry i s1 = opened_fd d \<and> (\<forall>j. j \<noteq> i \<longrightarrow> fd_entry j s1 = fd_entry j s)
     \<and> sys_close (int i) s1 = Some (0, s2) \<and> (\<forall>j. fd_flags (fd_entry j s2) = fd_flags (fd_entry j s))"
proof -
  obtain k where k: "cur_pid s = int k" using sys_okD [OF assms(1)] by metis
  define i where "i = free_fd (process_fdt (PCB_at s ! k)) 2"
  have e: "fd_entry j s = process_fdt (PCB_at s ! k) ! j" for j by (simp add: fd_entry_def k)
  have i: "2 \<le> i" "i \<le> 8" "\<forall>j \<in> {2..<i}. fd_flags (fd_entry j s) \<noteq> UNUSED_FLAG" "i < 8 \<Longrightarrow> fd_flags (fd_entry i s) = UNUSED_FLAG"
    using free_fd_spec [of 2 "process_fdt (PCB_at s ! k)"] by (auto simp: i_def e)
  obtain j where "j \<in> {2..<8}" "fd_flags (fd_entry j s) = UNUSED_FLAG" using assms(5) ..
  with i(2,3) have i8: "i < 8" by (cases "i = 8") auto
  obtain s1 where s1: "sys_open d0 (Some name) s = Some (int i, s1)" "proc_same (fdt_put k i (opened_fd d) s) s1"
    using sys_open_cases(5) [OF assms(1) k assms(2) i8 [unfolded i_def] assms(3,4)] unfolding i_def by blast
  have ok1: "sys_ok s1" by (rule sys_open_inv [OF assms(1) s1(1)])
  have k1: "cur_pid s1 = int k" using s1(2) k by (simp add: proc_same_def)
  have f1: "fd_entry j s1 = (if j = i then opened_fd d else fd_entry j s)" for j
    using fd_entry_same [OF s1(2)] fd_entry_put [OF assms(1) k i8] by simp
  let ?e = "(opened_fd d)\<lparr>fd_flags := UNUSED_FLAG\<rparr>"
  have "process_fdt (PCB_at s1 ! k) ! i = opened_fd d" using f1 [of i] k1 by (simp add: fd_entry_def)
  moreover have "fd_flags (opened_fd d) \<noteq> UNUSED_FLAG" by (simp add: opened_fd_def)
  ultimately have c: "sys_close (int i) s1 = Some (0, fdt_put k i ?e s1)"
    using i(1) i8 by (simp add: sys_close_result [OF ok1 k1])
  have "fd_flags (fd_entry j (fdt_put k i ?e s1)) = fd_flags (fd_entry j s)" for j
    using fd_entry_put [OF ok1 k1 i8] f1 i(4) [OF i8] by simp
  with s1 c i i8 f1 show ?thesis by auto
qed

theorem open_close_roundtrip_witness:
  "\<exists>i s1 s2. sys_open (ld_dentry demo_image 0) (Some (str_view ''abc'')) demo_sys = Some (int i, s1)
     \<and> fd_flags (fd_entry i demo_sys) = UNUSED_FLAG \<and> sys_close (int i) s1 = Some (0, s2)"
proof -
  have n: "cstr_n (str_view ''abc'') 32 = [97, 98, 99]"
    by (simp add: cstr_n_def upt_rec str_view_def)
  have "name_of (ld_dentry demo_image 0x500040) = [97, 98, 99]"
    by (simp add: name_of_ld_dentry cstr_n_def upt_rec view_def demo_image_def)
  then have l: "lookup (str_view ''abc'') demo_sys = Some (ld_dentry demo_image 0x500040)"
    by (simp add: lookup_def n demo_sys_sel directory_def demo_counts dentry_addr_def)
  have t: "fileType (ld_dentry demo_image 0x500040) \<le> 2" by (simp add: ld_dentry_def ld32_def demo_image_def)
  have "\<not> special_name (str_view ''abc'')"
    by (simp add: special_name_def strncmp_eq_0_iff cstr_n_def upt_rec str_view_def)
  moreover have "\<exists>i \<in> {2..<8}. fd_flags (fd_entry i demo_sys) = UNUSED_FLAG"
    by (rule bexI [of _ 4]) (simp_all add: fd_entry_def demo_sys_sel demo_proc_def initial_fdt_def empty_fd_def)
  ultimately show ?thesis using open_close_roundtrip [OF demo_sys_ok _ l t, of "ld_dentry demo_image 0"] by blast
qed

text \<open>
  The descriptor checks let 8 pass, one past the table: for a running process \<open>sys_read\<close>, \<open>sys_write\<close>
  and \<open>sys_close\<close> of descriptor 8 read beyond the eight entries instead of answering -1, whatever
  the arguments are, as long as they pass the other checks.
\<close>

theorem descriptor_eight_out_of_range:
  assumes "sys_ok s" "buf \<noteq> 0" "0 \<le> n"
  shows "sys_read d0 8 buf n s = None \<and> sys_write 8 buf n s = None \<and> sys_close 8 s = None"
proof -
  obtain k where k: "fdt s = Some k" "cur_pid s = int k" "fdt_wf (process_fdt (PCB_at s ! k))"
    using sys_okD [OF assms(1)] by metis
  then show ?thesis using assms
    by (simp add: sys_read_def sys_write_def sys_close_result [OF assms(1) k(2)] fdt_get_wf)
qed

theorem descriptor_eight_out_of_range_witness: "sys_read (ld_dentry demo_image 0) 8 0x08100000 4 demo_sys = None"
  using descriptor_eight_out_of_range [OF demo_sys_ok, of "0x08100000" 4] by simp

end
