(* ===== verification/Scheduler.thy ===== *)
theory Scheduler
  imports Process_Properties
begin

unbundle bit_operations_syntax

text \<open>
  The scheduler, \<^verbatim>\<open>pit.c\<close>: a timer interrupt starts the shell of a thread that has none, or
  switches to the next thread.

  The three arrays of \<^verbatim>\<open>pit.h\<close> are used by the scheduler alone; they stand beside the state the
  system calls work on (\<open>kern\<close>).  A context switch replaces the stack pointer registers; the
  stacks they point to are not modelled.  The handler runs as one step, like the system calls.
\<close>

section \<open>The timer handler\<close>

record sched =
  kern :: sys
  ESPstore :: "u32 list"
  EBPstore :: "u32 list"
  PIDstore :: "u32 list"

abbreviation (input) PIT_IRQ :: u32 where "PIT_IRQ \<equiv> 0"
abbreviation (input) PIT_MODE_REG :: u16 where "PIT_MODE_REG \<equiv> 0x43"
abbreviation (input) PIT_DATA_REG :: u16 where "PIT_DATA_REG \<equiv> 0x40"

text \<open>How the handler ends: it enters a new shell, or returns into the context whose stack is current.\<close>

datatype pit_result = Pit_enter u32 sched | Pit_return sched

fun pit_state :: "pit_result \<Rightarrow> sched" where
  "pit_state (Pit_enter eip s) = s"
| "pit_state (Pit_return s) = s"

text \<open>Starting the shell of the current thread, the same lines at both places of the handler.\<close>

definition start_shell :: "exec_locals \<Rightarrow> sched \<Rightarrow> pit_result option" where
  "start_shell loc s = do {
     let k = (kern s)\<lparr>cur_pid := -1\<rparr>;
     let k = k\<lparr>shellStarted := (shellStarted k)[curThread k := True]\<rparr>;
     let k = send_eoi PIT_IRQ k;
     r \<leftarrow> sys_execute loc (Some (str_view ''shell'')) k;
     (case r of
        EnterUser eip k \<Rightarrow> Some (Pit_enter eip (s\<lparr>kern := k\<rparr>))
      | Ret v k \<Rightarrow> Some (Pit_return (s\<lparr>kern := k\<rparr>))
      | _ \<Rightarrow> None)
   }"

text \<open>Making the stored process of the current thread the running one.\<close>

definition switch_process :: "u32 \<Rightarrow> sys \<Rightarrow> sys option" where
  "switch_process stored k = do {
     let k = k\<lparr>cur_pid := sint stored\<rparr>;
     place \<leftarrow> pcb_place (cur_pid k) k;
     let k = k\<lparr>fdt := Some place\<rparr>;
     let k = k\<lparr>page_directory := (page_directory k)[PROCESS_PAGING_INDEX :=
               (page_directory k ! PROCESS_PAGING_INDEX)
                 \<lparr>page_table_address := frame_of (EIGHT_MB + of_int (cur_pid k) * FOUR_MB)\<rparr>]\<rparr>;
     let k = clearTLB k;
     let k = k\<lparr>tss_esp0 := (EIGHT_MB - of_int (cur_pid k) * EIGHT_KB) - 4\<rparr>;
     Some (send_eoi PIT_IRQ k)
   }"

definition PIThandler :: "exec_locals \<Rightarrow> sched \<Rightarrow> pit_result option" where
  "PIThandler loc s =
    (if \<not> shellStarted (kern s) ! curThread (kern s) then start_shell loc s
     else do {
       let t = curThread (kern s);
       let s = s\<lparr>ESPstore := (ESPstore s)[t := cpu_esp (kern s)], EBPstore := (EBPstore s)[t := cpu_ebp (kern s)],
                 PIDstore := (PIDstore s)[t := of_int (cur_pid (kern s))]\<rparr>;
       let t = (t + 1) mod NUM_THREADS;
       let s = s\<lparr>kern := (kern s)\<lparr>curThread := t\<rparr>\<rparr>;
       if \<not> shellStarted (kern s) ! t then start_shell loc s
       else do {
         k \<leftarrow> switch_process (PIDstore s ! t) (kern s);
         Some (Pit_return (s\<lparr>kern := k\<lparr>cpu_esp := ESPstore s ! t, cpu_ebp := EBPstore s ! t\<rparr>\<rparr>))
       }
     })"

definition PITinit :: "'a sys_scheme \<Rightarrow> 'a sys_scheme" where
  "PITinit s =
    (let s = s\<lparr>shellStarted := replicate NUM_THREADS False, curThread := 0\<rparr>;
         s = outb 0x34 PIT_MODE_REG s;
         pit_val = 1193182 div 35 :: u32;
         s = outb (ucast (pit_val AND 0xFF)) PIT_DATA_REG s
     in outb (ucast (drop_bit 8 pit_val)) PIT_DATA_REG s)"

section \<open>Threads\<close>

text \<open>
  A thread that is not current is parked: its stored number is that of a process in the table, on
  the thread's terminal and without a child.
\<close>

definition parked :: "sys \<Rightarrow> nat \<Rightarrow> u32 \<Rightarrow> bool" where
  "parked k t p \<longleftrightarrow> unat p < MAX_PROCESSES \<and> PCB_ptrs k ! unat p \<noteq> None \<and> \<not> is_parent (unat p) k
     \<and> parent_terminal (PCB_at k ! unat p) = t"

text \<open>
  The current thread runs a process of its own terminal, or has lost its last process, in which case
  there is a free process number for its new shell.
\<close>

definition current_ok :: "sys \<Rightarrow> bool" where
  "current_ok k \<longleftrightarrow>
    (if shellStarted k ! curThread k then running k \<and> parent_terminal (PCB_at k ! nat (cur_pid k)) = curThread k
     else free_pid (PCB_ptrs k) 0 < MAX_PROCESSES)"

definition threads_ok :: "sched \<Rightarrow> bool" where
  "threads_ok s \<longleftrightarrow> length (shellStarted (kern s)) = NUM_THREADS \<and> length (ESPstore s) = NUM_THREADS
     \<and> length (EBPstore s) = NUM_THREADS \<and> length (PIDstore s) = NUM_THREADS \<and> curThread (kern s) < NUM_THREADS
     \<and> current_ok (kern s)
     \<and> (\<forall>t < NUM_THREADS. t \<noteq> curThread (kern s) \<longrightarrow> shellStarted (kern s) ! t \<and> parked (kern s) t (PIDstore s ! t))"

text \<open>The file system holds the program \<open>prog\<close> under the name shell.\<close>

definition has_program :: "byte list \<Rightarrow> byte list \<Rightarrow> mem \<Rightarrow> u32 \<Rightarrow> bool" where
  "has_program name prog m boot \<longleftrightarrow> (case find (\<lambda>d. name_of d = name) (directory m boot) of
     None \<Rightarrow> False
   | Some d \<Rightarrow> inodeNum d < numInodes m boot \<and> file_data m boot (inodeNum d) = prog \<and> executable prog)"

abbreviation (input) shell_name :: "byte list" where "shell_name \<equiv> [115, 104, 101, 108, 108]"

definition system_ready :: "exec_locals \<Rightarrow> byte list \<Rightarrow> sys \<Rightarrow> bool" where
  "system_ready loc prog k \<longleftrightarrow> proc_inv k \<and> term_wf k \<and> image_placed k \<and> kernel_local (testBuffer_at loc) 4 k
     \<and> kernel_local (program_eip_at loc) 4 k \<and> has_program shell_name prog (memory k) (bootMemAddr k)"

definition kernel_ok :: "exec_locals \<Rightarrow> byte list \<Rightarrow> sched \<Rightarrow> bool" where
  "kernel_ok loc prog s \<longleftrightarrow> system_ready loc prog (kern s) \<and> threads_ok s"

lemma shell_command: "command_name (str_view ''shell'') = shell_name" "strlen (str_view ''shell'') = Some 5"
  "skip_spaces (str_view ''shell'') (length shell_name) = Some 5" "str_view ''shell'' 5 = 0"
proof -
  show "command_name (str_view ''shell'') = shell_name" by (simp add: command_name_def str_view_def upt_rec)
  have "(\<forall>j < 5. str_view ''shell'' j \<noteq> 0) \<longleftrightarrow> (\<forall>j \<in> {0, 1, 2, 3, 4}. str_view ''shell'' j \<noteq> 0)"
    by (auto simp: numeral_eq_Suc less_Suc_eq)
  then show "strlen (str_view ''shell'') = Some 5" by (simp add: strlen_iff str_view_def)
  show "skip_spaces (str_view ''shell'') (length shell_name) = Some 5" by (subst skip_spaces.simps) (simp add: str_view_def)
  show "str_view ''shell'' 5 = 0" by (simp add: str_view_def)
qed

lemma has_program_same:
  assumes "has_program name prog m boot" "same_image boot m m'" "image_ok m boot" "numDirectories m boot \<le> 63"
  shows "has_program name prog m' boot"
  using assms(1) same_image_directory [OF assms(2,4)] same_image_header(2) [OF assms(2)] same_image_file [OF assms(2,3)]
  by (auto simp: has_program_def split: option.splits)

lemma parked_launched:
  assumes "parked k t q" "proc_inv k" "p < 6" "PCB_ptrs k ! p = None" "cur_pid k \<noteq> int (unat q)"
  shows "parked (launched p args m k) t q"
proof -
  have len: "length (PCB_at k) = 6" "length (PCB_ptrs k) = 6" using assms(2) by (simp_all add: proc_inv_def proc_wf_def)
  have "unat q \<noteq> p" using assms(1,4) by (auto simp: parked_def)
  moreover have "\<not> is_parent (unat q) (launched p args m k)"
  proof
    assume "is_parent (unat q) (launched p args m k)"
    then obtain r where r: "r < 6" "PCB_ptrs (launched p args m k) ! r \<noteq> None"
        "parent_pid (PCB_at (launched p args m k) ! r) = int (unat q)"
      unfolding is_parent_def by blast
    show False
    proof (cases "r = p")
      case True
      then show False using r(1,3) len assms(5) by (simp add: launched_def entered_def new_pcb_def)
    next
      case False
      then show False using r assms(1) by (auto simp: launched_def entered_def parked_def is_parent_def)
    qed
  qed
  ultimately show ?thesis using assms(1) by (simp add: parked_def launched_def entered_def)
qed

lemma launched_facts:
  assumes "proc_inv k" "p < 6"
  shows "cur_pid (launched p args m k) = int p" "curThread (launched p args m k) = curThread k"
    "shellStarted (launched p args m k) = shellStarted k" "memory (launched p args m k) = m"
    "bootMemAddr (launched p args m k) = bootMemAddr k"
    "parent_terminal (PCB_at (launched p args m k) ! p) = start_terminal k"
    "parent_pid (PCB_at (launched p args m k) ! p) = cur_pid k"
    "screen_x (launched p args m k) = screen_x k" "screen_y (launched p args m k) = screen_y k"
    "currentTerminal (launched p args m k) = currentTerminal k"
    "PCB_ptrs (launched p args m k) = (PCB_ptrs k)[p := Some p]"
    "q \<noteq> p \<Longrightarrow> PCB_at (launched p args m k) ! q = PCB_at k ! q"
  using assms by (simp_all add: launched_def entered_def clearTLB_def proc_inv_def proc_wf_def new_pcb_def)

lemma term_wf_launched: "term_wf (launched p args m k) = term_wf k"
  by (simp add: term_wf_def console_wf_def launched_def entered_def clearTLB_def)

lemma system_ready_same:
  assumes "system_ready loc prog k" "same_image (bootMemAddr k) (memory k) (memory k')" "bootMemAddr k' = bootMemAddr k"
    and "proc_inv k'" "term_wf k'"
  shows "system_ready loc prog k'"
proof -
  have k: "image_placed k" "kernel_local (testBuffer_at loc) 4 k" "kernel_local (program_eip_at loc) 4 k"
      "has_program shell_name prog (memory k) (bootMemAddr k)"
    using assms(1) by (simp_all add: system_ready_def)
  have "image_placed k'" using k(1) same_image_ok [OF assms(2)] same_image_header [OF assms(2)] assms(3) by (simp add: image_placed_def)
  moreover have "has_program shell_name prog (memory k') (bootMemAddr k')"
    using has_program_same [OF k(4) assms(2)] k(1) assms(3) by (simp add: image_placed_def)
  ultimately show ?thesis
    using kernel_local_same [OF k(2) assms(2,3) refl] kernel_local_same [OF k(3) assms(2,3) refl] assms(4,5) by (simp add: system_ready_def)
qed

lemma send_eoi_0: "send_eoi 0 s = s\<lparr>io_out := io_out s @ [(0x20, 0x60)]\<rparr>"
  by (simp add: send_eoi_def outb_def)

lemma shell_starts:
  assumes "system_ready loc prog (kern s)" "curThread (kern s) < 3" "free_pid (PCB_ptrs (kern s)) 0 < 6"
  defines "k \<equiv> send_eoi 0 ((kern s)\<lparr>cur_pid := -1, shellStarted := (shellStarted (kern s))[curThread (kern s) := True]\<rparr>)"
    and "p \<equiv> free_pid (PCB_ptrs (kern s)) 0"
  shows "\<exists>m. start_shell loc s = Some (Pit_enter (ld32 (\<lambda>a. prog ! unat a) 24) (s\<lparr>kern := launched p (args_init loc) m k\<rparr>))
     \<and> p < 6 \<and> PCB_ptrs (kern s) ! p = None \<and> same_image (bootMemAddr (kern s)) (memory (kern s)) m
     \<and> rd_bytes m (load_address p) (length prog) = prog \<and> can_start k"
proof -
  have k: "PCB_ptrs k = PCB_ptrs (kern s)" "memory k = memory (kern s)" "bootMemAddr k = bootMemAddr (kern s)" "cur_pid k = -1"
    by (simp_all add: k_def send_eoi_0)
  have "proc_inv k"
    using assms(1) by (simp add: system_ready_def k_def send_eoi_0 proc_inv_def proc_wf_def fops_ready_def pcb_ok_def)
  then have cs: "can_start k" using assms(2) by (simp add: can_start_def k(4)) (simp add: k_def send_eoi_0)
  have "exec_ready loc (str_view ''shell'') prog k"
    using assms(1,3) cs by (simp add: exec_ready_def shell_command k p_def system_ready_def image_placed_def kernel_local_def has_program_def split: option.splits)
  from sys_execute_ok [OF this] obtain m where
    "sys_execute loc (Some (str_view ''shell'')) k = Some (EnterUser (ld32 (\<lambda>a. prog ! unat a) 24) (launched p (args_init loc) m k))"
    "p < 6" "PCB_ptrs (kern s) ! p = None" "same_image (bootMemAddr (kern s)) (memory (kern s)) m"
    "rd_bytes m (load_address p) (length prog) = prog"
    unfolding k shell_command p_def by (auto simp: shell_command(4))
  then show ?thesis using cs by (auto simp: start_shell_def Let_def k_def)
qed

section \<open>Switching\<close>

lemma small_sint: "unat (p :: u32) < 6 \<Longrightarrow> sint p = int (unat p)"
proof -
  assume a: "unat p < 6"
  then have "int (unat p) < 6" by linarith
  then have "uint p < 6" by simp
  then have "signed_take_bit 31 (uint p) = uint p" using order_trans [OF _ uint_ge_0 [of p]] by (intro signed_take_bit_int_eq_self) simp_all
  then show ?thesis by (simp add: sint_uint)
qed

definition switched :: "nat \<Rightarrow> sys \<Rightarrow> sys" where
  "switched q k = clearTLB (k\<lparr>page_directory := (page_directory k)[PROCESS_PAGING_INDEX := process_page q]\<rparr>)
     \<lparr>cur_pid := int q, fdt := Some q, tss_esp0 := kernel_stack q, io_out := io_out k @ [(0x20, 0x60)]\<rparr>"

lemma process_page_address:
  "(process_page q)\<lparr>page_table_address := frame_of (EIGHT_MB + of_nat p * FOUR_MB)\<rparr> = process_page p"
  by (simp add: process_page_def fill_pde_def)

lemma switch_process_eq:
  assumes "proc_inv k" "parked k t p" "page_directory k ! PROCESS_PAGING_INDEX = process_page q"
  shows "switch_process p k = Some (switched (unat p) k)"
proof -
  have p: "unat p < 6" "PCB_ptrs k ! unat p = Some (unat p)" "length (PCB_ptrs k) = 6"
    using assms(1,2) by (auto simp: parked_def proc_inv_def proc_wf_def)
  have "pcb_place (int (unat p)) (k\<lparr>cur_pid := int (unat p)\<rparr>) = Some (unat p)"
    using p by (simp add: pcb_place_def del: int_nat_eq of_nat_unat)
  then show ?thesis
    using p(1) by (simp add: switch_process_def small_sint assms(3) process_page_address switched_def kernel_stack_def send_eoi_0
        clearTLB_def del: of_nat_unat)
qed

lemma switched_ok:
  assumes "proc_inv k" "parked k t p"
  shows "proc_inv (switched (unat p) k)" "running (switched (unat p) k)"
proof -
  have len: "length (page_directory k) = 1024" using assms(1) by (simp add: proc_inv_def)
  show "proc_inv (switched (unat p) k)"
    using assms(1) by (simp add: switched_def clearTLB_def proc_inv_def proc_wf_def fops_ready_def pcb_ok_def)
  show "running (switched (unat p) k)"
    using assms(2) len by (simp add: switched_def clearTLB_def running_def parked_def is_parent_def del: of_nat_unat)
qed

lemma parked_cong:
  assumes "PCB_ptrs k' = PCB_ptrs k" "\<And>p. parent_pid (PCB_at k' ! p) = parent_pid (PCB_at k ! p)"
    "\<And>p. parent_terminal (PCB_at k' ! p) = parent_terminal (PCB_at k ! p)"
  shows "parked k' t q = parked k t q"
  by (simp add: parked_def is_parent_def assms)

text \<open>The state after a tick that switches threads.\<close>

definition saved :: "sched \<Rightarrow> sched" where
  "saved s = (let t = curThread (kern s) in
     s\<lparr>ESPstore := (ESPstore s)[t := cpu_esp (kern s)], EBPstore := (EBPstore s)[t := cpu_ebp (kern s)],
       PIDstore := (PIDstore s)[t := of_int (cur_pid (kern s))], kern := (kern s)\<lparr>curThread := (t + 1) mod NUM_THREADS\<rparr>\<rparr>)"

definition tick_switched :: "sched \<Rightarrow> sched" where
  "tick_switched s = (let s' = saved s; t = curThread (kern s') in
     s'\<lparr>kern := (switched (unat (PIDstore s' ! t)) (kern s'))\<lparr>cpu_esp := ESPstore s' ! t, cpu_ebp := EBPstore s' ! t\<rparr>\<rparr>)"

lemma next_thread: "t < 3 \<Longrightarrow> (t + 1) mod 3 < (3 :: nat) \<and> (t + 1) mod 3 \<noteq> t"
  by presburger

lemma running_parked:
  assumes "running k" "parent_terminal (PCB_at k ! nat (cur_pid k)) = t"
  shows "parked k t (of_int (cur_pid k))" "unat (of_int (cur_pid k) :: u32) = nat (cur_pid k)"
proof -
  define q where "q = nat (cur_pid k)"
  then have q: "cur_pid k = int q" "q < 6" using assms(1) by (auto simp: running_def)
  then show u: "unat (of_int (cur_pid k) :: u32) = nat (cur_pid k)" by (simp add: unat_of_nat_32)
  show "parked k t (of_int (cur_pid k))" unfolding parked_def u using assms q by (simp add: running_def)
qed

lemma tick_switches:
  assumes "kernel_ok loc prog s" "shellStarted (kern s) ! curThread (kern s)"
  shows "PIThandler loc s = Some (Pit_return (tick_switched s))" "kernel_ok loc prog (tick_switched s)"
    "shellStarted (kern (tick_switched s)) ! curThread (kern (tick_switched s))"
proof -
  define t where "t = curThread (kern s)"
  define n where "n = Suc t mod 3"
  define k where "k = (kern s)\<lparr>curThread := n\<rparr>"
  have th: "threads_ok s" and rdy: "system_ready loc prog (kern s)" using assms(1) by (simp_all add: kernel_ok_def)
  have t: "t < 3" "n < 3" "n \<noteq> t" using th next_thread [of t] by (auto simp: threads_ok_def t_def n_def)
  have len: "length (ESPstore s) = 3" "length (EBPstore s) = 3" "length (PIDstore s) = 3" "length (shellStarted (kern s)) = 3"
    using th by (simp_all add: threads_ok_def)
  have run: "running (kern s)" "parent_terminal (PCB_at (kern s) ! nat (cur_pid (kern s))) = t"
    using th assms(2) by (simp_all add: threads_ok_def current_ok_def t_def)
  have park: "parked k u q = parked (kern s) u q" for u q by (rule parked_cong) (simp_all add: k_def)
  have pn: "shellStarted (kern s) ! n" "parked k n (PIDstore s ! n)" using th t by (auto simp: park threads_ok_def t_def)
  let ?q = "unat (PIDstore s ! n)"
  have inv: "proc_inv k" using rdy by (simp add: system_ready_def k_def proc_inv_def proc_wf_def fops_ready_def pcb_ok_def)
  have pd: "page_directory k ! 32 = process_page (nat (cur_pid (kern s)))" using run(1) by (simp add: running_def k_def)
  have sw: "switch_process (PIDstore s ! n) k = Some (switched ?q k)" by (rule switch_process_eq [OF inv pn(2) pd])
  have ts: "tick_switched s = s\<lparr>ESPstore := (ESPstore s)[t := cpu_esp (kern s)], EBPstore := (EBPstore s)[t := cpu_ebp (kern s)],
      PIDstore := (PIDstore s)[t := of_int (cur_pid (kern s))],
      kern := (switched ?q k)\<lparr>cpu_esp := ESPstore s ! n, cpu_ebp := EBPstore s ! n\<rparr>\<rparr>"
    using t by (simp add: tick_switched_def saved_def Let_def t_def [symmetric] n_def [symmetric] k_def)
  show "PIThandler loc s = Some (Pit_return (tick_switched s))"
    using assms(2) pn(1) sw t unfolding ts by (simp add: PIThandler_def Let_def t_def [symmetric] n_def [symmetric] k_def)
  let ?k = "(switched ?q k)\<lparr>cpu_esp := ESPstore s ! n, cpu_ebp := EBPstore s ! n\<rparr>"
  have same: "PCB_ptrs ?k = PCB_ptrs k" "PCB_at ?k = PCB_at k" "curThread ?k = n" "shellStarted ?k = shellStarted (kern s)"
      "cur_pid ?k = int ?q" "memory ?k = memory (kern s)" "bootMemAddr ?k = bootMemAddr (kern s)"
    by (simp_all add: switched_def clearTLB_def k_def)
  have "proc_same (switched ?q k) ?k" by (simp add: proc_same_def)
  then have ok: "proc_inv ?k" "running ?k" using switched_ok [OF inv pn(2)] proc_same_inv proc_same_running by blast+
  have "term_wf ?k" using rdy by (simp add: system_ready_def term_wf_def console_wf_def switched_def clearTLB_def k_def)
  then have rdy': "system_ready loc prog ?k" using ok(1) rdy by (intro system_ready_same [OF rdy]) (simp_all add: same)
  have "parked ?k u ((PIDstore s)[t := of_int (cur_pid (kern s))] ! u)" if "u < 3" "u \<noteq> n" for u
    using that th running_parked(1) [OF run] len parked_cong [of ?k k u] park same(1,2)
    by (cases "u = t") (auto simp: threads_ok_def t_def)
  moreover have "shellStarted (kern s) ! u" if "u < 3" for u using that th assms(2) by (cases "u = t") (auto simp: threads_ok_def t_def)
  moreover have "current_ok ?k" using ok(2) pn by (simp add: current_ok_def same parked_def)
  ultimately have "threads_ok (tick_switched s)"
    using t len unfolding ts threads_ok_def by (simp add: same)
  with rdy' show "kernel_ok loc prog (tick_switched s)" unfolding ts by (simp add: kernel_ok_def)
  show "shellStarted (kern (tick_switched s)) ! curThread (kern (tick_switched s))" using pn(1) by (simp add: ts same)
qed

section \<open>Starting the shells\<close>

definition shell_entered :: "sched \<Rightarrow> sched \<Rightarrow> nat \<Rightarrow> bool" where
  "shell_entered s s' p \<longleftrightarrow> (\<exists>k. s' = s\<lparr>kern := k\<rparr> \<and> cur_pid k = int p \<and> curThread k = curThread (kern s)
     \<and> shellStarted k = (shellStarted (kern s))[curThread (kern s) := True] \<and> PCB_ptrs k = (PCB_ptrs (kern s))[p := Some p]
     \<and> parent_pid (PCB_at k ! p) = -1 \<and> parent_terminal (PCB_at k ! p) = curThread (kern s)
     \<and> (\<forall>q. q \<noteq> p \<longrightarrow> PCB_at k ! q = PCB_at (kern s) ! q)
     \<and> bootMemAddr k = bootMemAddr (kern s) \<and> same_image (bootMemAddr (kern s)) (memory (kern s)) (memory k)
     \<and> (\<forall>t q. parked (kern s) t q \<longrightarrow> parked k t q))"

lemma start_shell_ok:
  assumes "system_ready loc prog (kern s)" "curThread (kern s) < 3" "free_pid (PCB_ptrs (kern s)) 0 < 6"
  shows "\<exists>s'. start_shell loc s = Some (Pit_enter (ld32 (\<lambda>a. prog ! unat a) 24) s')
     \<and> shell_entered s s' (free_pid (PCB_ptrs (kern s)) 0) \<and> system_ready loc prog (kern s') \<and> running (kern s')
     \<and> rd_bytes (memory (kern s')) (load_address (free_pid (PCB_ptrs (kern s)) 0)) (length prog) = prog"
proof -
  define p where "p = free_pid (PCB_ptrs (kern s)) 0"
  define k where "k = send_eoi 0 ((kern s)\<lparr>cur_pid := -1, shellStarted := (shellStarted (kern s))[curThread (kern s) := True]\<rparr>)"
  obtain m where m: "start_shell loc s = Some (Pit_enter (ld32 (\<lambda>a. prog ! unat a) 24) (s\<lparr>kern := launched p (args_init loc) m k\<rparr>))"
      "p < 6" "PCB_ptrs (kern s) ! p = None" "same_image (bootMemAddr (kern s)) (memory (kern s)) m"
      "rd_bytes m (load_address p) (length prog) = prog" "can_start k"
    using shell_starts [OF assms] unfolding p_def k_def by blast
  have k: "PCB_ptrs k = PCB_ptrs (kern s)" "PCB_at k = PCB_at (kern s)" "cur_pid k = -1" "curThread k = curThread (kern s)"
      "bootMemAddr k = bootMemAddr (kern s)" "shellStarted k = (shellStarted (kern s))[curThread (kern s) := True]"
    by (simp_all add: k_def send_eoi_0)
  let ?k = "launched p (args_init loc) m k"
  have inv: "proc_inv k" using m(6) by (simp add: can_start_def)
  have f: "PCB_ptrs k ! p = None" using m(3) by (simp add: k)
  have ok: "sys_ok ?k" by (rule launched_ok [OF m(6,2) f])
  note l = launched_facts [OF inv m(2), where args = "args_init loc" and m = m]
  have "term_wf ?k" using assms(1) unfolding term_wf_launched by (simp add: system_ready_def term_wf_def console_wf_def k_def send_eoi_0)
  then have "system_ready loc prog ?k" using ok m(4) by (intro system_ready_same [OF assms(1)]) (simp_all add: l k sys_ok_def)
  moreover have ne: "cur_pid k \<noteq> int (unat q)" for q :: u32 unfolding k(3) by linarith
  have "parked ?k t q" if "parked (kern s) t q" for t q
    using that parked_cong [of k "kern s" t q] k(1,2) by (intro parked_launched [OF _ inv m(2) f ne]) simp
  then have "shell_entered s (s\<lparr>kern := ?k\<rparr>) p"
    unfolding shell_entered_def by (intro exI [of _ ?k]) (simp add: l k start_terminal_def m(4))
  ultimately show ?thesis using m(1,5) ok l(4) unfolding p_def [symmetric] by (intro exI [of _ "s\<lparr>kern := ?k\<rparr>"]) (simp add: sys_ok_def)
qed

lemma tick_restarts:
  assumes "kernel_ok loc prog s" "\<not> shellStarted (kern s) ! curThread (kern s)"
  shows "\<exists>s'. PIThandler loc s = Some (Pit_enter (ld32 (\<lambda>a. prog ! unat a) 24) s') \<and> kernel_ok loc prog s'
     \<and> shell_entered s s' (free_pid (PCB_ptrs (kern s)) 0) \<and> running (kern s')"
proof -
  have th: "threads_ok s" and rdy: "system_ready loc prog (kern s)" using assms(1) by (simp_all add: kernel_ok_def)
  have c: "curThread (kern s) < 3" "free_pid (PCB_ptrs (kern s)) 0 < 6"
    using th assms(2) by (auto simp: threads_ok_def current_ok_def)
  obtain s' where s': "start_shell loc s = Some (Pit_enter (ld32 (\<lambda>a. prog ! unat a) 24) s')"
      "shell_entered s s' (free_pid (PCB_ptrs (kern s)) 0)" "system_ready loc prog (kern s')" "running (kern s')"
    using start_shell_ok [OF rdy c] by blast
  then have "threads_ok s'" using th c(1)
    by (auto simp: threads_ok_def shell_entered_def current_ok_def nth_list_update)
  with s' assms(2) show ?thesis by (auto simp: PIThandler_def kernel_ok_def)
qed

lemma tick_ok:
  assumes "kernel_ok loc prog s"
  shows "\<exists>r. PIThandler loc s = Some r \<and> kernel_ok loc prog (pit_state r)"
  using tick_restarts [OF assms] tick_switches(1,2) [OF assms] by (metis pit_state.simps)

end
