(* ===== verification/Scheduler_Properties.thy ===== *)
theory Scheduler_Properties
  imports Scheduler
begin

unbundle bit_operations_syntax

section \<open>From boot to three shells\<close>

text \<open>After boot: no process, no thread started.\<close>

definition fresh :: "exec_locals \<Rightarrow> byte list \<Rightarrow> sched \<Rightarrow> bool" where
  "fresh loc prog s \<longleftrightarrow> system_ready loc prog (kern s) \<and> curThread (kern s) = 0
     \<and> shellStarted (kern s) = replicate NUM_THREADS False \<and> PCB_ptrs (kern s) = replicate MAX_PROCESSES None
     \<and> length (ESPstore s) = NUM_THREADS \<and> length (EBPstore s) = NUM_THREADS \<and> length (PIDstore s) = NUM_THREADS"

lemma system_ready_saved: "system_ready loc prog (kern (saved s)) = system_ready loc prog (kern s)"
  by (simp add: saved_def Let_def system_ready_def proc_inv_def proc_wf_def fops_ready_def pcb_ok_def term_wf_def console_wf_def
      image_placed_def kernel_local_def)

lemma tick_first_shell:
  assumes "system_ready loc prog (kern s)" "curThread (kern s) < 3" "shellStarted (kern s) ! curThread (kern s)"
    and "\<not> shellStarted (kern s) ! (Suc (curThread (kern s)) mod 3)" "free_pid (PCB_ptrs (kern s)) 0 < 6"
  shows "\<exists>s'. PIThandler loc s = Some (Pit_enter (ld32 (\<lambda>a. prog ! unat a) 24) s')
     \<and> shell_entered (saved s) s' (free_pid (PCB_ptrs (kern s)) 0) \<and> system_ready loc prog (kern s') \<and> running (kern s')"
proof -
  have s: "PIThandler loc s = start_shell loc (saved s)"
    using assms(3,4) by (simp add: PIThandler_def saved_def Let_def)
  have t: "curThread (kern (saved s)) < 3" "PCB_ptrs (kern (saved s)) = PCB_ptrs (kern s)" by (simp_all add: saved_def Let_def)
  show ?thesis unfolding s
    using start_shell_ok [of loc prog "saved s"] assms(1,5) t by (auto simp: system_ready_saved)
qed

lemma entered_parked:
  assumes "shell_entered s s' p" "running (kern s')" "p < 6"
  shows "parked (kern s') (curThread (kern s)) (of_nat p)"
  using running_parked(1) [OF assms(2)] assms(1) by (auto simp: shell_entered_def)

lemma parked_saved: "parked (kern (saved s)) t q = parked (kern s) t q"
  by (rule parked_cong) (simp_all add: saved_def Let_def)

lemma free_pid_boot:
  "free_pid (replicate 6 None) 0 = 0" "free_pid ((replicate 6 None)[0 := Some 0]) 0 = 1"
  "free_pid ((replicate 6 None)[0 := Some 0, 1 := Some 1]) 0 = 2"
  by (simp_all add: free_pid.simps numeral_eq_Suc)

lemma boot_table:
  "(replicate 6 None)[0 := Some 0, Suc 0 := Some (Suc 0), 2 := Some 2] = [Some 0, Some 1, Some 2, None, None, None :: nat option]"
  "[True, True, False][2 := True] = [True, True, True]"
  by (simp_all add: numeral_eq_Suc)

lemma boot_ticks:
  assumes "fresh loc prog s"
  shows "\<exists>s1 s2 s3. PIThandler loc s = Some (Pit_enter (ld32 (\<lambda>a. prog ! unat a) 24) s1)
     \<and> PIThandler loc s1 = Some (Pit_enter (ld32 (\<lambda>a. prog ! unat a) 24) s2)
     \<and> PIThandler loc s2 = Some (Pit_enter (ld32 (\<lambda>a. prog ! unat a) 24) s3)
     \<and> kernel_ok loc prog s3 \<and> curThread (kern s3) = 2 \<and> PCB_ptrs (kern s3) = [Some 0, Some 1, Some 2, None, None, None]
     \<and> shellStarted (kern s3) = replicate 3 True \<and> PIDstore s3 ! 0 = 0 \<and> PIDstore s3 ! 1 = 1 \<and> cur_pid (kern s3) = 2
     \<and> (\<forall>p < 3. parent_pid (PCB_at (kern s3) ! p) = -1 \<and> parent_terminal (PCB_at (kern s3) ! p) = p)"
proof -
  have f: "system_ready loc prog (kern s)" "curThread (kern s) = 0" "shellStarted (kern s) = replicate 3 False"
      "PCB_ptrs (kern s) = replicate 6 None" "length (ESPstore s) = 3" "length (EBPstore s) = 3" "length (PIDstore s) = 3"
    using assms by (simp_all add: fresh_def)
  obtain s1 where s1: "PIThandler loc s = Some (Pit_enter (ld32 (\<lambda>a. prog ! unat a) 24) s1)"
      "shell_entered s s1 0" "system_ready loc prog (kern s1)" "running (kern s1)"
    using start_shell_ok [of loc prog s] f by (auto simp: PIThandler_def free_pid_boot)
  have e1: "curThread (kern s1) = 0" "shellStarted (kern s1) = [True, False, False]" "PCB_ptrs (kern s1) = (replicate 6 None)[0 := Some 0]"
      "length (ESPstore s1) = 3" "length (EBPstore s1) = 3" "length (PIDstore s1) = 3" "cur_pid (kern s1) = 0"
    using s1(2) f by (auto simp: shell_entered_def numeral_eq_Suc)
  obtain s2 where s2: "PIThandler loc s1 = Some (Pit_enter (ld32 (\<lambda>a. prog ! unat a) 24) s2)"
      "shell_entered (saved s1) s2 1" "system_ready loc prog (kern s2)" "running (kern s2)"
    using tick_first_shell [OF s1(3)] e1 by (auto simp: free_pid_boot)
  have e2: "curThread (kern s2) = 1" "shellStarted (kern s2) = [True, True, False]" "PCB_ptrs (kern s2) = (replicate 6 None)[0 := Some 0, 1 := Some 1]"
      "length (ESPstore s2) = 3" "length (EBPstore s2) = 3" "length (PIDstore s2) = 3" "cur_pid (kern s2) = 1" "PIDstore s2 ! 0 = 0"
    using s2(2) e1 by (auto simp: shell_entered_def saved_def Let_def)
  obtain s3 where s3: "PIThandler loc s2 = Some (Pit_enter (ld32 (\<lambda>a. prog ! unat a) 24) s3)"
      "shell_entered (saved s2) s3 2" "system_ready loc prog (kern s3)" "running (kern s3)"
    using tick_first_shell [OF s2(3)] e2 by (auto simp: free_pid_boot [unfolded One_nat_def])
  have e3: "curThread (kern s3) = 2" "shellStarted (kern s3) = [True, True, True]" "PCB_ptrs (kern s3) = [Some 0, Some 1, Some 2, None, None, None]"
      "length (ESPstore s3) = 3" "length (EBPstore s3) = 3" "length (PIDstore s3) = 3" "cur_pid (kern s3) = 2" "PIDstore s3 ! 0 = 0" "PIDstore s3 ! 1 = 1"
    using s3(2) e2 boot_table by (auto simp: shell_entered_def saved_def Let_def)
  have "parked (kern s1) 0 0" using entered_parked [OF s1(2,4)] f(2) by simp
  then have "parked (kern s2) 0 0" using s2(2) parked_saved by (auto simp: shell_entered_def)
  then have p0: "parked (kern s3) 0 0" using s3(2) parked_saved by (auto simp: shell_entered_def)
  have "parked (kern s2) 1 1" using entered_parked [OF s2(2,4)] e1(1) by (simp add: saved_def Let_def)
  then have p1: "parked (kern s3) 1 1" using s3(2) parked_saved by (auto simp: shell_entered_def)
  have ps: "parent_pid (PCB_at (kern s3) ! p) = -1 \<and> parent_terminal (PCB_at (kern s3) ! p) = p" if "p < 3" for p
  proof -
    have "p = 0 \<or> p = 1 \<or> p = 2" using that by linarith
    then show ?thesis using s1(2) s2(2) s3(2) e1(1) e2(1) f(2) by (auto simp: shell_entered_def saved_def Let_def)
  qed
  have "shellStarted (kern s3) ! t \<and> parked (kern s3) t (PIDstore s3 ! t)" if "t < 3" "t \<noteq> 2" for t
  proof -
    have "t = 0 \<or> t = 1" using that by linarith
    then show ?thesis using e3 p0 p1 by auto
  qed
  then have "threads_ok s3" using e3 s3(4) ps [of 2] by (auto simp: threads_ok_def current_ok_def)
  then have "kernel_ok loc prog s3" using s3(3) by (simp add: kernel_ok_def)
  moreover have "shellStarted (kern s3) = replicate 3 True" using e3(2) by (simp add: numeral_eq_Suc)
  ultimately show ?thesis using s1(1) s2(1) s3(1) e3 ps by blast
qed

section \<open>A system to boot\<close>

text \<open>The demonstration program, as the file \<^verbatim>\<open>shell\<close>.\<close>

definition shell_image :: mem where
  "shell_image = exec_image(0x500040 := 115, 0x500041 := 104, 0x500042 := 101, 0x500043 := 108, 0x500044 := 108)"

definition boot_demo :: sched where
  "boot_demo = \<lparr>kern = demo_sys\<lparr>memory := shell_image, PCB_ptrs := replicate 6 None, curThread := 0, shellStarted := replicate 3 False\<rparr>,
     ESPstore = replicate 3 0, EBPstore = replicate 3 0, PIDstore = replicate 3 0\<rparr>"

lemma shell_image_byte: "a \<notin> {0x500040, 0x500041, 0x500042, 0x500043, 0x500044} \<Longrightarrow> shell_image a = exec_image a"
  by (simp add: shell_image_def)

lemma shell_header:
  "numDirectories shell_image 0x500000 = 1" "numInodes shell_image 0x500000 = 1" "numDataBlocks shell_image 0x500000 = 1"
  using exec_header_words by (simp_all add: numDirectories_def numInodes_def numDataBlocks_def ld32_def shell_image_byte)

lemma shell_image_high:
  assumes "0x501000 \<le> a"
  shows "shell_image a = exec_image a"
  using assms by (intro shell_image_byte) auto

lemma shell_inode: "inode_at shell_image 0x500000 0 = inode_at exec_image 0x500000 0"
proof -
  have "ld32 shell_image (0x501000 + of_nat j) = ld32 exec_image (0x501000 + of_nat j)" if "j < 4096" for j
  proof (rule ld32_cong)
    fix i :: nat assume "i < 4"
    then have "unat (0x501000 + of_nat (j + i) :: u32) = 0x501000 + (j + i)" using that by (simp add: unat_word_ariths unat_of_nat_32)
    then have "(0x501000 :: u32) \<le> 0x501000 + of_nat (j + i)" by (simp add: word_le_nat_alt)
    from shell_image_high [OF this] show "shell_image (0x501000 + of_nat j + of_nat i) = exec_image (0x501000 + of_nat j + of_nat i)"
      by (simp add: add.assoc)
  qed
  from this [of 0] this [of "4 + 4 * k" for k] show ?thesis by (simp add: inode_at_def ld_inode_def add.assoc)
qed

lemma shell_file: "file_data shell_image 0x500000 0 = demo_program"
proof -
  have "file_byte shell_image 0x500000 (inode_at exec_image 0x500000 0) i = file_byte exec_image 0x500000 (inode_at exec_image 0x500000 0) i" if "i < 28" for i
  proof -
    have "unat (0x502000 + of_nat i :: u32) = 0x502000 + i" using that by (simp add: unat_word_ariths unat_of_nat_32)
    then have "(0x501000 :: u32) \<le> 0x502000 + of_nat i" by (simp add: word_le_nat_alt)
    from shell_image_high [OF this] show ?thesis using that by (simp add: file_byte_def shell_header exec_header_words exec_inode)
  qed
  then have "file_data shell_image 0x500000 0 = file_data exec_image 0x500000 0" by (simp add: file_data_def Let_def shell_inode exec_inode)
  then show ?thesis using exec_file by simp
qed

lemma shell_found: "has_program shell_name demo_program shell_image 0x500000"
proof -
  have "directory shell_image 0x500000 = [ld_dentry shell_image 0x500040]" by (simp add: directory_def shell_header dentry_addr_def)
  moreover have "name_of (ld_dentry shell_image 0x500040) = shell_name"
    by (simp add: name_of_ld_dentry cstr_n_def upt_rec view_def shell_image_def exec_image_byte demo_image_def)
  moreover have "inodeNum (ld_dentry shell_image 0x500040) = 0"
    by (simp add: ld_dentry_def ld32_def shell_image_byte exec_image_byte demo_image_def)
  moreover have "executable demo_program" by (simp add: executable_def demo_program_def)
  ultimately show ?thesis by (simp add: has_program_def shell_header shell_file)
qed

lemma shell_image_ok: "image_ok shell_image 0x500000"
  using exec_image_ok by (simp add: image_ok_def image_size_def shell_header exec_header_words inode_ok_def shell_inode)

lemma boot_demo_fresh: "fresh demo_locals demo_program boot_demo"
proof -
  have "proc_inv demo_sys" using demo_sys_ok by (simp add: sys_ok_def)
  then have "proc_inv (kern boot_demo)" by (simp add: boot_demo_def proc_inv_def proc_wf_def fops_ready_def)
  moreover have "term_wf (kern boot_demo)" by (simp add: boot_demo_def term_wf_def console_wf_def all_less_3 demo_sys_simps)
  ultimately show ?thesis
    by (simp add: fresh_def system_ready_def boot_demo_def demo_sys_sel image_placed_def shell_image_ok shell_header shell_found
      kernel_local_def demo_locals_def disjoint_regions_def image_size_def)
qed

section \<open>Properties\<close>

text \<open>
  C6: the scheduler brings the system up.  From the state after boot, with no process and a file system
  that holds a shell, three timer interrupts enter the shell three times, at the entry point of its
  header; then processes 0, 1 and 2 are the base shells of threads 0, 1 and 2, each on the terminal
  of its thread, thread 2 is running, and the invariant of the kernel holds.
\<close>

theorem boot_starts_shells:
  assumes "fresh loc prog s"
  shows "\<exists>s1 s2 s3. PIThandler loc s = Some (Pit_enter (ld32 (\<lambda>a. prog ! unat a) 24) s1)
     \<and> PIThandler loc s1 = Some (Pit_enter (ld32 (\<lambda>a. prog ! unat a) 24) s2)
     \<and> PIThandler loc s2 = Some (Pit_enter (ld32 (\<lambda>a. prog ! unat a) 24) s3)
     \<and> kernel_ok loc prog s3 \<and> curThread (kern s3) = 2 \<and> PCB_ptrs (kern s3) = [Some 0, Some 1, Some 2, None, None, None]
     \<and> shellStarted (kern s3) = replicate 3 True
     \<and> (\<forall>p < 3. parent_pid (PCB_at (kern s3) ! p) = -1 \<and> parent_terminal (PCB_at (kern s3) ! p) = p)"
  using boot_ticks [OF assms] by blast

theorem boot_starts_shells_witness:
  "\<exists>s1 s2 s3. PIThandler demo_locals boot_demo = Some (Pit_enter 0x08048010 s1)
     \<and> PIThandler demo_locals s1 = Some (Pit_enter 0x08048010 s2) \<and> PIThandler demo_locals s2 = Some (Pit_enter 0x08048010 s3)
     \<and> PCB_ptrs (kern s3) = [Some 0, Some 1, Some 2, None, None, None]"
proof -
  have "ld32 (\<lambda>a. demo_program ! unat a) 24 = 0x08048010" by (simp add: ld32_def demo_program_def nth_append)
  then show ?thesis using boot_starts_shells [OF boot_demo_fresh] by auto
qed

lemma tick_switched_sel:
  assumes "curThread (kern s) = t" "t < 3"
  defines "n \<equiv> (t + 1) mod 3"
  shows "curThread (kern (tick_switched s)) = n" "cur_pid (kern (tick_switched s)) = int (unat (PIDstore s ! n))"
    "fdt (kern (tick_switched s)) = Some (unat (PIDstore s ! n))" "cpu_esp (kern (tick_switched s)) = ESPstore s ! n"
    "cpu_ebp (kern (tick_switched s)) = EBPstore s ! n" "tss_esp0 (kern (tick_switched s)) = kernel_stack (unat (PIDstore s ! n))"
    "page_directory (kern (tick_switched s)) = (page_directory (kern s))[32 := process_page (unat (PIDstore s ! n))]"
    "tlb_dir (kern (tick_switched s)) = (page_directory (kern s))[32 := process_page (unat (PIDstore s ! n))]"
    "PCB_ptrs (kern (tick_switched s)) = PCB_ptrs (kern s)" "PCB_at (kern (tick_switched s)) = PCB_at (kern s)"
    "memory (kern (tick_switched s)) = memory (kern s)"
    "ESPstore (tick_switched s) = (ESPstore s)[t := cpu_esp (kern s)]" "EBPstore (tick_switched s) = (EBPstore s)[t := cpu_ebp (kern s)]"
    "PIDstore (tick_switched s) = (PIDstore s)[t := of_int (cur_pid (kern s))]"
proof -
  have n: "n \<noteq> t" "Suc t mod 3 = n" using next_thread [OF assms(2)] by (simp_all add: n_def)
  show "curThread (kern (tick_switched s)) = n" "cur_pid (kern (tick_switched s)) = int (unat (PIDstore s ! n))"
    "fdt (kern (tick_switched s)) = Some (unat (PIDstore s ! n))" "cpu_esp (kern (tick_switched s)) = ESPstore s ! n"
    "cpu_ebp (kern (tick_switched s)) = EBPstore s ! n" "tss_esp0 (kern (tick_switched s)) = kernel_stack (unat (PIDstore s ! n))"
    "page_directory (kern (tick_switched s)) = (page_directory (kern s))[32 := process_page (unat (PIDstore s ! n))]"
    "tlb_dir (kern (tick_switched s)) = (page_directory (kern s))[32 := process_page (unat (PIDstore s ! n))]"
    "PCB_ptrs (kern (tick_switched s)) = PCB_ptrs (kern s)" "PCB_at (kern (tick_switched s)) = PCB_at (kern s)"
    "memory (kern (tick_switched s)) = memory (kern s)"
    "ESPstore (tick_switched s) = (ESPstore s)[t := cpu_esp (kern s)]" "EBPstore (tick_switched s) = (EBPstore s)[t := cpu_ebp (kern s)]"
    "PIDstore (tick_switched s) = (PIDstore s)[t := of_int (cur_pid (kern s))]"
    using n(1) unfolding tick_switched_def saved_def Let_def assms(1)
    by (simp_all add: n(2) switched_def clearTLB_def)
qed

text \<open>What three switches in a row do.\<close>

lemma tick_switched_thrice:
  assumes "threads_ok s" "shellStarted (kern s) ! curThread (kern s)" "proc_inv (kern s)" "t = curThread (kern s)"
  defines "s1 \<equiv> tick_switched s"
  defines "s2 \<equiv> tick_switched s1"
  defines "s3 \<equiv> tick_switched s2"
  shows "curThread (kern s1) = (t + 1) mod 3" "cur_pid (kern s1) = int (unat (PIDstore s ! ((t + 1) mod 3)))"
    "curThread (kern s2) = (t + 2) mod 3" "cur_pid (kern s2) = int (unat (PIDstore s ! ((t + 2) mod 3)))"
    "curThread (kern s3) = t" "cur_pid (kern s3) = cur_pid (kern s)" "fdt (kern s3) = fdt (kern s)"
    "cpu_esp (kern s3) = cpu_esp (kern s)" "cpu_ebp (kern s3) = cpu_ebp (kern s)" "page_directory (kern s3) = page_directory (kern s)"
    "tlb_dir (kern s3) ! PROCESS_PAGING_INDEX = tlb_dir (kern s) ! PROCESS_PAGING_INDEX"
    "tss_esp0 (kern s3) = tss_esp0 (kern s)" "PCB_ptrs (kern s3) = PCB_ptrs (kern s)" "PCB_at (kern s3) = PCB_at (kern s)"
    "memory (kern s3) = memory (kern s)"
proof -
  have len: "length (ESPstore s) = 3" "length (EBPstore s) = 3" "length (PIDstore s) = 3" "t < 3"
    using assms(1,4) by (simp_all add: threads_ok_def)
  have run: "running (kern s)" "parent_terminal (PCB_at (kern s) ! nat (cur_pid (kern s))) = t" "length (page_directory (kern s)) = 1024"
    using assms(1-4) by (simp_all add: threads_ok_def current_ok_def proc_inv_def)
  define q where "q = nat (cur_pid (kern s))"
  have q: "cur_pid (kern s) = int q" "fdt (kern s) = Some q" "tss_esp0 (kern s) = kernel_stack q" "tlb_dir (kern s) ! 32 = process_page q"
      "page_directory (kern s) ! 32 = process_page q" "unat (of_int (cur_pid (kern s)) :: u32) = q"
    using run(1) running_parked(2) [OF run(1,2)] by (simp_all add: running_def q_def)
  have pd: "(page_directory (kern s))[32 := process_page q] = page_directory (kern s)" using q(5) by (metis list_update_id)
  have t: "(t + 1) mod 3 < 3" "(t + 1) mod 3 \<noteq> t" "(t + 2) mod 3 < 3" "(t + 2) mod 3 \<noteq> t" "(t + 2) mod 3 \<noteq> (t + 1) mod 3"
      "((t + 1) mod 3 + 1) mod 3 = (t + 2) mod 3" "((t + 2) mod 3 + 1) mod 3 = t"
    using len(4) by presburger+
  note f1 = tick_switched_sel [OF assms(4) [symmetric] len(4), folded s1_def]
  note f2 = tick_switched_sel [OF f1(1) t(1), unfolded t(6), folded s2_def]
  note f3 = tick_switched_sel [OF f2(1) t(3), unfolded t(7), folded s3_def]
  have st: "PIDstore s2 ! t = of_int (cur_pid (kern s))" "PIDstore s1 ! ((t + 2) mod 3) = PIDstore s ! ((t + 2) mod 3)"
      "ESPstore s2 ! t = cpu_esp (kern s)" "EBPstore s2 ! t = cpu_ebp (kern s)"
    by (simp_all only: f1 f2 nth_list_update t(1-5) t(2,4,5) [symmetric] len length_list_update if_True if_False refl)
  show "curThread (kern s1) = (t + 1) mod 3" "cur_pid (kern s1) = int (unat (PIDstore s ! ((t + 1) mod 3)))"
    "curThread (kern s2) = (t + 2) mod 3" "cur_pid (kern s2) = int (unat (PIDstore s ! ((t + 2) mod 3)))" "curThread (kern s3) = t"
    by (simp_all only: f1(1,2) f2(1,2) f3(1) st)
  show "cur_pid (kern s3) = cur_pid (kern s)" "fdt (kern s3) = fdt (kern s)"
    "cpu_esp (kern s3) = cpu_esp (kern s)" "cpu_ebp (kern s3) = cpu_ebp (kern s)" "page_directory (kern s3) = page_directory (kern s)"
    "tlb_dir (kern s3) ! PROCESS_PAGING_INDEX = tlb_dir (kern s) ! PROCESS_PAGING_INDEX"
    "tss_esp0 (kern s3) = tss_esp0 (kern s)" "PCB_ptrs (kern s3) = PCB_ptrs (kern s)" "PCB_at (kern s3) = PCB_at (kern s)"
    "memory (kern s3) = memory (kern s)"
    unfolding f3 st f2(1-11) f1(1-11) q(6) using q(1-5) pd run(3) by simp_all
qed

text \<open>
  C7: the scheduler is round robin and its context switch is exact.  In any state that satisfies the
  invariant, with the current thread started, three timer interrupts in a row do not fail; they run
  the threads \<open>t + 1\<close>, \<open>t + 2\<close> and \<open>t\<close> modulo 3, the process of each being the one it had stored, and
  the third one restores the first context: process number, both stack pointers, descriptor table,
  process page (also in the processor's cache), kernel stack, process table and memory.
\<close>

theorem ticks_round_robin:
  assumes "kernel_ok loc prog s" "shellStarted (kern s) ! curThread (kern s)" "t = curThread (kern s)"
  shows "\<exists>s1 s2 s3. PIThandler loc s = Some (Pit_return s1) \<and> PIThandler loc s1 = Some (Pit_return s2) \<and> PIThandler loc s2 = Some (Pit_return s3)
     \<and> curThread (kern s1) = (t + 1) mod 3 \<and> cur_pid (kern s1) = int (unat (PIDstore s ! ((t + 1) mod 3)))
     \<and> curThread (kern s2) = (t + 2) mod 3 \<and> cur_pid (kern s2) = int (unat (PIDstore s ! ((t + 2) mod 3)))
     \<and> curThread (kern s3) = t \<and> cur_pid (kern s3) = cur_pid (kern s) \<and> fdt (kern s3) = fdt (kern s)
     \<and> cpu_esp (kern s3) = cpu_esp (kern s) \<and> cpu_ebp (kern s3) = cpu_ebp (kern s)
     \<and> page_directory (kern s3) = page_directory (kern s)
     \<and> tlb_dir (kern s3) ! PROCESS_PAGING_INDEX = tlb_dir (kern s) ! PROCESS_PAGING_INDEX
     \<and> tss_esp0 (kern s3) = tss_esp0 (kern s) \<and> PCB_ptrs (kern s3) = PCB_ptrs (kern s) \<and> PCB_at (kern s3) = PCB_at (kern s)
     \<and> memory (kern s3) = memory (kern s)"
proof -
  note s1 = tick_switches [OF assms(1,2)]
  note s2 = tick_switches [OF s1(2,3)]
  note s3 = tick_switches [OF s2(2,3)]
  have "threads_ok s" "proc_inv (kern s)" using assms(1) by (simp_all add: kernel_ok_def system_ready_def)
  note f = tick_switched_thrice [OF this(1) assms(2) this(2) assms(3)]
  show ?thesis using s1(1) s2(1) s3(1) f by blast
qed

theorem ticks_round_robin_witness:
  "\<exists>s0 s1 s2 s3. PCB_ptrs (kern s0) = [Some 0, Some 1, Some 2, None, None, None] \<and> curThread (kern s0) = 2
     \<and> PIThandler demo_locals s0 = Some (Pit_return s1) \<and> PIThandler demo_locals s1 = Some (Pit_return s2)
     \<and> PIThandler demo_locals s2 = Some (Pit_return s3)
     \<and> cur_pid (kern s1) = 0 \<and> cur_pid (kern s2) = 1 \<and> cur_pid (kern s3) = 2"
proof -
  obtain s where s: "kernel_ok demo_locals demo_program s" "curThread (kern s) = 2" "PCB_ptrs (kern s) = [Some 0, Some 1, Some 2, None, None, None]"
      "shellStarted (kern s) = replicate 3 True" "PIDstore s ! 0 = 0" "PIDstore s ! 1 = 1" "cur_pid (kern s) = 2"
    using boot_ticks [OF boot_demo_fresh] by blast
  have n: "(2 + 1) mod 3 = (0 :: nat)" "(2 + 2) mod 3 = (1 :: nat)" by simp_all
  have "shellStarted (kern s) ! curThread (kern s)" by (simp add: s)
  from ticks_round_robin [OF s(1) this s(2) [symmetric], unfolded n s(5-7)]
  obtain s1 s2 s3 where "PIThandler demo_locals s = Some (Pit_return s1)" "PIThandler demo_locals s1 = Some (Pit_return s2)"
     "PIThandler demo_locals s2 = Some (Pit_return s3)" "cur_pid (kern s1) = int (unat (0 :: u32))" "cur_pid (kern s2) = int (unat (1 :: u32))"
     "cur_pid (kern s3) = 2"
    by blast
  with s(2,3) show ?thesis by (intro exI [of _ s] exI [of _ s1] exI [of _ s2] exI [of _ s3]) simp
qed

lemma free_pid_less: "q < 6 \<Longrightarrow> ptrs ! q = None \<Longrightarrow> free_pid ptrs 0 < 6"
  using free_pid_spec [of 0 ptrs] by (metis le0 le_neq_implies_less)

lemma parked_halted:
  assumes "parked k t r" "unat r \<noteq> q" "length (PCB_ptrs k) = 6"
  shows "parked (halted status q k) t r"
proof -
  have "is_parent (unat r) k" if h: "is_parent (unat r) (halted status q k)"
  proof -
    obtain p where p: "p < 6" "(PCB_ptrs k)[q := None] ! p \<noteq> None" "parent_pid (PCB_at k ! p) = int (unat r)"
      using h unfolding is_parent_def halted_def by auto
    then have "PCB_ptrs k ! p \<noteq> None" using assms(3) by (cases "p = q") auto
    with p show ?thesis unfolding is_parent_def by blast
  qed
  then show ?thesis using assms by (auto simp: parked_def halted_def)
qed

lemma system_ready_halted:
  assumes "system_ready loc prog k" "running k" "cur_pid k = int q"
  shows "system_ready loc prog ((halted status q k)\<lparr>shellStarted := x\<rparr>)"
proof -
  have "proc_inv (halted status q k)" using assms by (intro halted_inv) (simp_all add: sys_ok_def system_ready_def)
  then have "proc_inv ((halted status q k)\<lparr>shellStarted := x\<rparr>)" by (simp add: proc_inv_def proc_wf_def fops_ready_def pcb_ok_def)
  moreover have "term_wf ((halted status q k)\<lparr>shellStarted := x\<rparr>)"
    using assms(1) by (simp add: system_ready_def term_wf_def console_wf_def halted_def)
  ultimately show ?thesis by (intro system_ready_same [OF assms(1)]) (simp_all add: halted_def)
qed

lemma kernel_ok_halted:
  fixes status :: byte
  assumes "kernel_ok loc prog s" "shellStarted (kern s) ! curThread (kern s)" "cur_pid (kern s) = int q"
  defines "k \<equiv> (halted status q (kern s))\<lparr>shellStarted := (shellStarted (kern s))[curThread (kern s) := False]\<rparr>"
  shows "kernel_ok loc prog (s\<lparr>kern := k\<rparr>)"
proof -
  have th: "threads_ok s" and rdy: "system_ready loc prog (kern s)" using assms(1) by (simp_all add: kernel_ok_def)
  have run: "running (kern s)" "parent_terminal (PCB_at (kern s) ! q) = curThread (kern s)"
    using th assms(2,3) by (simp_all add: threads_ok_def current_ok_def)
  then have q: "q < 6" "length (PCB_ptrs (kern s)) = 6"
    using rdy assms(3) by (simp_all add: running_def system_ready_def proc_inv_def proc_wf_def)
  have k: "curThread k = curThread (kern s)" "shellStarted k = (shellStarted (kern s))[curThread (kern s) := False]"
      "PCB_ptrs k = (PCB_ptrs (kern s))[q := None]" by (simp_all add: k_def halted_def)
  have "system_ready loc prog k" unfolding k_def by (rule system_ready_halted [OF rdy run(1) assms(3)])
  moreover have "parked k t (PIDstore s ! t)" if "t < 3" "t \<noteq> curThread (kern s)" for t
  proof -
    have p: "parked (kern s) t (PIDstore s ! t)" using th that by (simp add: threads_ok_def)
    then have "unat (PIDstore s ! t) \<noteq> q" using run(2) that(2) by (auto simp: parked_def)
    from parked_halted [OF p this q(2)] show ?thesis
      using parked_cong [of k "halted status q (kern s)" t] by (simp add: k_def)
  qed
  moreover have "current_ok k" using th q free_pid_less [of q "(PCB_ptrs (kern s))[q := None]"]
    by (simp add: current_ok_def k threads_ok_def)
  ultimately show ?thesis using th by (auto simp: kernel_ok_def threads_ok_def k)
qed

text \<open>
  A base shell that ends comes back.  In any state that satisfies the invariant of the kernel, when the
  running process has no parent, \<open>sys_halt\<close> ends in its endless loop with the thread marked as not
  started, and the next timer interrupt enters a new shell, which runs without a parent on the same
  thread and terminal; the other threads keep their processes and the invariant holds again.
\<close>

theorem base_shell_restarts:
  assumes "kernel_ok loc prog s" "shellStarted (kern s) ! curThread (kern s)" "parent_pid (PCB_at (kern s) ! nat (cur_pid (kern s))) = -1"
  shows "\<exists>k s'. sys_halt status (kern s) = Some (HaltSpin k)
     \<and> PIThandler loc (s\<lparr>kern := k\<rparr>) = Some (Pit_enter (ld32 (\<lambda>a. prog ! unat a) 24) s') \<and> kernel_ok loc prog s'
     \<and> curThread (kern s') = curThread (kern s) \<and> PIDstore s' = PIDstore s
     \<and> running (kern s') \<and> parent_pid (PCB_at (kern s') ! nat (cur_pid (kern s'))) = -1
     \<and> parent_terminal (PCB_at (kern s') ! nat (cur_pid (kern s'))) = curThread (kern s)"
proof -
  have run: "running (kern s)" "proc_inv (kern s)" "curThread (kern s) < 3" "length (shellStarted (kern s)) = 3"
    using assms(1,2) by (simp_all add: kernel_ok_def threads_ok_def current_ok_def system_ready_def)
  define q where "q = nat (cur_pid (kern s))"
  have q: "cur_pid (kern s) = int q" using run(1) by (simp add: running_def q_def)
  let ?k = "(halted status q (kern s))\<lparr>shellStarted := (shellStarted (kern s))[curThread (kern s) := False]\<rparr>"
  have h: "sys_halt status (kern s) = Some (HaltSpin ?k)"
    using run(1,2) q assms(3) by (intro sys_halt_base) (simp_all add: sys_ok_def)
  have "kernel_ok loc prog (s\<lparr>kern := ?k\<rparr>)" by (rule kernel_ok_halted [OF assms(1,2) q])
  moreover have "\<not> shellStarted ?k ! curThread ?k" using run(3,4) by (simp add: halted_def)
  ultimately obtain s' where s': "PIThandler loc (s\<lparr>kern := ?k\<rparr>) = Some (Pit_enter (ld32 (\<lambda>a. prog ! unat a) 24) s')" "kernel_ok loc prog s'"
      "shell_entered (s\<lparr>kern := ?k\<rparr>) s' (free_pid (PCB_ptrs ?k) 0)" "running (kern s')"
    using tick_restarts [of loc prog "s\<lparr>kern := ?k\<rparr>"] by auto
  then show ?thesis using h by (intro exI [of _ ?k] exI [of _ s']) (auto simp: shell_entered_def halted_def)
qed

theorem base_shell_restarts_witness:
  "\<exists>s k s'. curThread (kern s) = 2 \<and> sys_halt 0 (kern s) = Some (HaltSpin k)
     \<and> PIThandler demo_locals (s\<lparr>kern := k\<rparr>) = Some (Pit_enter 0x08048010 s') \<and> curThread (kern s') = 2"
proof -
  obtain s where s: "kernel_ok demo_locals demo_program s" "curThread (kern s) = 2" "shellStarted (kern s) = replicate 3 True"
      "cur_pid (kern s) = 2" "\<forall>p < 3. parent_pid (PCB_at (kern s) ! p) = -1"
    using boot_ticks [OF boot_demo_fresh] by blast
  have "ld32 (\<lambda>a. demo_program ! unat a) 24 = 0x08048010" by (simp add: ld32_def demo_program_def nth_append)
  then show ?thesis
    using base_shell_restarts [OF s(1), of 0] s(2-5) by (intro exI [of _ s]) auto
qed

end
