(* ===== verification/IDT.thy ===== *)
theory IDT
  imports Process_Properties
begin

unbundle bit_operations_syntax

text \<open>
  The interrupt descriptor table and the exception handlers, \<^verbatim>\<open>idt_init.c\<close>, with the descriptor
  type of \<^verbatim>\<open>x86_desc.h\<close>.

  The addresses of the handlers are chosen by the linker: they are a parameter (\<open>addr\<close>), as is
  the place of a handler's message.  The processor enters a handler through the gate's type: an
  interrupt gate clears the interrupt flag, a trap gate leaves it.
\<close>

section \<open>Descriptors\<close>

record idt_desc_t =
  offset_15_00 :: u16
  seg_selector :: u16
  reserved4 :: byte
  reserved3 :: bool
  reserved2 :: bool
  reserved1 :: bool
  gate_size :: bool
  reserved0 :: bool
  dpl :: "2 word"
  present :: bool
  offset_31_16 :: u16

datatype handler = Eh nat | H_PITwrapper | H_KBhandler | H_RTChandler | H_syscall

abbreviation (input) NUM_VEC :: nat where "NUM_VEC \<equiv> 256"
abbreviation (input) NUM_EXCEPTIONS :: nat where "NUM_EXCEPTIONS \<equiv> 32"
abbreviation (input) NUM_INTERRUPTS :: nat where "NUM_INTERRUPTS \<equiv> 16"
abbreviation (input) SCALL_LOC :: nat where "SCALL_LOC \<equiv> 0x80"
abbreviation (input) KERNEL_CS :: u16 where "KERNEL_CS \<equiv> 0x10"

text \<open>The table, and the register that the processor finds it with (limit and base).\<close>

record idt_state =
  idt :: "idt_desc_t list"
  idtr :: "u16 \<times> u32"

definition SET_IDT_ENTRY :: "u32 \<Rightarrow> idt_desc_t \<Rightarrow> idt_desc_t" where
  "SET_IDT_ENTRY h e = e\<lparr>offset_31_16 := ucast (drop_bit 16 (h AND 0xFFFF0000)), offset_15_00 := ucast (h AND 0xFFFF)\<rparr>"

definition set_entry :: "nat \<Rightarrow> (idt_desc_t \<Rightarrow> idt_desc_t) \<Rightarrow> idt_desc_t list \<Rightarrow> idt_desc_t list" where
  "set_entry i f tab = tab[i := f (tab ! i)]"

section \<open>Filling the table\<close>

definition exception_gate :: "nat \<Rightarrow> idt_desc_t \<Rightarrow> idt_desc_t" where
  "exception_gate i e =
    (if i \<noteq> 1 \<and> i < 20 \<and> i \<noteq> 15
     then e\<lparr>seg_selector := KERNEL_CS, reserved4 := 0, reserved3 := False, reserved2 := True, reserved1 := True,
            gate_size := True, reserved0 := False, dpl := 0, present := True\<rparr>
     else e\<lparr>seg_selector := KERNEL_CS, reserved4 := 0, reserved3 := False, reserved2 := True, reserved1 := True,
            gate_size := True, reserved0 := True, dpl := 0, present := False\<rparr>)"

definition interrupt_gate :: "idt_desc_t \<Rightarrow> idt_desc_t" where
  "interrupt_gate e = e\<lparr>seg_selector := KERNEL_CS, reserved4 := 0, reserved3 := True, reserved2 := True, reserved1 := True,
     gate_size := True, reserved0 := False, dpl := 0, present := False\<rparr>"

definition init_exceptions :: "(handler \<Rightarrow> u32) \<Rightarrow> idt_desc_t list \<Rightarrow> idt_desc_t list" where
  "init_exceptions addr tab =
    (let tab = fold (\<lambda>i. set_entry i (exception_gate i)) [0..<NUM_EXCEPTIONS] tab
     in fold (\<lambda>i. set_entry i (SET_IDT_ENTRY (addr (Eh i))))
          [0, 2, 3, 4, 5, 6, 7, 8, 9, 10, 11, 12, 13, 14, 16, 17, 18, 19] tab)"

definition init_interrupts :: "(handler \<Rightarrow> u32) \<Rightarrow> idt_desc_t list \<Rightarrow> idt_desc_t list" where
  "init_interrupts addr tab =
    (let tab = fold (\<lambda>i. set_entry i interrupt_gate) [NUM_EXCEPTIONS..<NUM_INTERRUPTS + NUM_EXCEPTIONS] tab;
         tab = set_entry (0 + NUM_EXCEPTIONS) (SET_IDT_ENTRY (addr H_PITwrapper)) tab;
         tab = set_entry (0 + NUM_EXCEPTIONS) (\<lambda>e. e\<lparr>present := True\<rparr>) tab;
         tab = set_entry (1 + NUM_EXCEPTIONS) (SET_IDT_ENTRY (addr H_KBhandler)) tab;
         tab = set_entry (1 + NUM_EXCEPTIONS) (\<lambda>e. e\<lparr>present := True\<rparr>) tab;
         tab = set_entry (8 + NUM_EXCEPTIONS) (SET_IDT_ENTRY (addr H_RTChandler)) tab
     in set_entry (8 + NUM_EXCEPTIONS) (\<lambda>e. e\<lparr>present := True\<rparr>) tab)"

definition init_syscall :: "(handler \<Rightarrow> u32) \<Rightarrow> idt_desc_t list \<Rightarrow> idt_desc_t list" where
  "init_syscall addr tab =
    (let tab = set_entry SCALL_LOC (\<lambda>e. e\<lparr>seg_selector := KERNEL_CS, reserved4 := 0, reserved3 := True, reserved2 := True,
           reserved1 := True, gate_size := True, reserved0 := False, dpl := 3, present := True\<rparr>) tab
     in set_entry SCALL_LOC (SET_IDT_ENTRY (addr H_syscall)) tab)"

text \<open>The operand of \<^verbatim>\<open>lidt\<close> is the table's limit and address, laid out in \<^verbatim>\<open>x86_desc.S\<close>.\<close>

definition init_idt :: "(handler \<Rightarrow> u32) \<Rightarrow> u32 \<Rightarrow> idt_state \<Rightarrow> idt_state" where
  "init_idt addr table_at s =
    (let tab = init_syscall addr (init_interrupts addr (init_exceptions addr (idt s)))
     in s\<lparr>idt := tab, idtr := (8 * 256 - 1, table_at)\<rparr>)"

section \<open>Exceptions\<close>

text \<open>The messages of the handlers \<^verbatim>\<open>eh0\<close> to \<^verbatim>\<open>eh19\<close>.\<close>

definition exception_message :: "nat \<Rightarrow> byte list" where
  "exception_message n = chars (
     if n = 0 then ''EXCEPTION: DIVIDE ERROR''
     else if n = 2 then ''EXCEPTION: NMI INTERRUPT''
     else if n = 3 then ''EXCEPTION: BREAKPOINT''
     else if n = 4 then ''EXCEPTION: OVERFLOW''
     else if n = 5 then ''EXCEPTION: BOUND RANGE EXCEEDED''
     else if n = 6 then ''EXCEPTION: INVALID OR UNDEFINED OPCODE''
     else if n = 7 then ''EXCEPTION: DEVICE NOT AVAILABLE''
     else if n = 8 then ''EXCEPTION: DOUBLE FAULT''
     else if n = 9 then ''EXCEPTION: COPROCESSOR SEGMENT OVERRUN''
     else if n = 10 then ''EXCEPTION: INVALID TSS''
     else if n = 11 then ''EXCEPTION: SEGMENT NOT PRESENT''
     else if n = 12 then ''EXCEPTION: STACK SEGMENT FAULT''
     else if n = 13 then ''EXCEPTION: GENERAL PROTECTION''
     else if n = 14 then ''EXCEPTION: PAGE FAULT''
     else if n = 16 then ''EXCEPTION: X87 FPU FLOATING POINT ERROR''
     else if n = 17 then ''EXCEPTION: ALIGNMENT CHECK''
     else if n = 18 then ''EXCEPTION: MACHINE CHECK''
     else ''EXCEPTION: SIMD FLOATING POINT EXCEPTION'') @ [10]"

text \<open>A handler, entered through its interrupt gate: the message, the flag, the halt.\<close>

definition exception_handler :: "u32 \<Rightarrow> u32 \<Rightarrow> 'a sys_scheme \<Rightarrow> 'a sys_scheme sysret option" where
  "exception_handler conv_buf message s = do {
     (n, s) \<leftarrow> printf conv_buf message [] (s\<lparr>if_flag := False\<rparr>);
     k \<leftarrow> pcb_place (cur_pid s) s;
     sys_halt 255 (upd_pcb k (\<lambda>b. b\<lparr>exception_flag := True\<rparr>) s)
   }"

section \<open>Reading the table\<close>

text \<open>The address a gate leads to, and the vectors with a handler.\<close>

definition gate_offset :: "idt_desc_t \<Rightarrow> u32" where
  "gate_offset e = push_bit 16 (ucast (offset_31_16 e)) OR ucast (offset_15_00 e)"

definition vector_handler :: "nat \<Rightarrow> handler option" where
  "vector_handler v =
    (if v \<noteq> 1 \<and> v < 20 \<and> v \<noteq> 15 then Some (Eh v)
     else if v = 32 then Some H_PITwrapper else if v = 33 then Some H_KBhandler else if v = 40 then Some H_RTChandler
     else if v = 128 then Some H_syscall else None)"

lemma gate_offset_SET: "gate_offset (SET_IDT_ENTRY h e) = h"
proof (rule bit_word_eqI)
  fix n assume "n < LENGTH(32)"
  then have n: "n < 32" by simp
  have m: "bit (0xFFFF0000 :: u32) k \<longleftrightarrow> 16 \<le> k \<and> k < 32" "bit (0xFFFF :: u32) k \<longleftrightarrow> k < 16"
    "bit (0xFFFF :: u16) k \<longleftrightarrow> k < 16" "bit (0xFFFF :: int) k \<longleftrightarrow> k < 16" for k
  proof -
    have a: "(0xFFFF :: u32) = mask 16" "(0xFFFF :: u16) = mask 16" "(0xFFFF :: int) = mask 16" and b: "(0xFFFF0000 :: u32) = push_bit 16 (mask 16)" by (simp_all add: mask_eq_exp_minus_1)
    show "bit (0xFFFF0000 :: u32) k \<longleftrightarrow> 16 \<le> k \<and> k < 32" "bit (0xFFFF :: u32) k \<longleftrightarrow> k < 16"
        "bit (0xFFFF :: u16) k \<longleftrightarrow> k < 16" "bit (0xFFFF :: int) k \<longleftrightarrow> k < 16"
      unfolding a b by (auto simp: bit_mask_iff bit_push_bit_iff)
  qed
  show "bit (gate_offset (SET_IDT_ENTRY h e)) n = bit h n"
    using n by (auto simp: gate_offset_def SET_IDT_ENTRY_def bit_or_iff bit_push_bit_iff bit_ucast_iff bit_drop_bit_eq bit_and_iff m)
qed

lemma SET_IDT_ENTRY_sel [simp]:
  "seg_selector (SET_IDT_ENTRY h e) = seg_selector e" "reserved3 (SET_IDT_ENTRY h e) = reserved3 e"
  "reserved2 (SET_IDT_ENTRY h e) = reserved2 e" "reserved1 (SET_IDT_ENTRY h e) = reserved1 e" "gate_size (SET_IDT_ENTRY h e) = gate_size e"
  "reserved0 (SET_IDT_ENTRY h e) = reserved0 e" "dpl (SET_IDT_ENTRY h e) = dpl e" "present (SET_IDT_ENTRY h e) = present e"
  by (simp_all add: SET_IDT_ENTRY_def)

lemma length_set_entry [simp]: "length (set_entry i f tab) = length tab"
  by (simp add: set_entry_def)

lemma nth_set_entry: "v < length tab \<Longrightarrow> set_entry i f tab ! v = (if v = i then f (tab ! v) else tab ! v)"
  by (simp add: set_entry_def nth_list_update)

lemma fold_set_entry:
  assumes "distinct is" "v < length tab"
  shows "length (fold (\<lambda>i. set_entry i (f i)) is tab) = length tab"
    "fold (\<lambda>i. set_entry i (f i)) is tab ! v = (if v \<in> set is then f v (tab ! v) else tab ! v)"
  using assms by (induction "is" arbitrary: tab) (auto simp: nth_set_entry)

text \<open>What each part of the initialisation does to one entry.\<close>

lemma init_exceptions_nth:
  assumes "length tab = 256" "v < 256"
  shows "length (init_exceptions addr tab) = 256"
    "init_exceptions addr tab ! v =
      (if 32 \<le> v then tab ! v
       else if v \<noteq> 1 \<and> v < 20 \<and> v \<noteq> 15 then SET_IDT_ENTRY (addr (Eh v)) (exception_gate v (tab ! v)) else exception_gate v (tab ! v))"
proof -
  let ?f = "fold (\<lambda>i. set_entry i (exception_gate i)) [0..<32] tab"
  have f: "length ?f = 256" "?f ! v = (if v < 32 then exception_gate v (tab ! v) else tab ! v)"
    using fold_set_entry [of "[0..<32]" v tab exception_gate] assms by auto
  let ?is = "[0, 2, 3, 4, 5, 6, 7, 8, 9, 10, 11, 12, 13, 14, 16, 17, 18, 19] :: nat list"
  have d: "distinct ?is" by simp
  have s: "v \<in> set ?is \<longleftrightarrow> v \<noteq> 1 \<and> v < 20 \<and> v \<noteq> 15" unfolding set_simps insert_iff empty_iff by presburger
  show "length (init_exceptions addr tab) = 256"
    "init_exceptions addr tab ! v =
      (if 32 \<le> v then tab ! v
       else if v \<noteq> 1 \<and> v < 20 \<and> v \<noteq> 15 then SET_IDT_ENTRY (addr (Eh v)) (exception_gate v (tab ! v)) else exception_gate v (tab ! v))"
    using fold_set_entry [OF d, of v ?f "\<lambda>i. SET_IDT_ENTRY (addr (Eh i))"] f assms(2) s
    unfolding init_exceptions_def Let_def by auto
qed

lemma init_interrupts_nth:
  assumes "length tab = 256" "v < 256"
  shows "length (init_interrupts addr tab) = 256"
    "init_interrupts addr tab ! v =
      (if v < 32 \<or> 48 \<le> v then tab ! v
       else if v = 32 then (SET_IDT_ENTRY (addr H_PITwrapper) (interrupt_gate (tab ! v)))\<lparr>present := True\<rparr>
       else if v = 33 then (SET_IDT_ENTRY (addr H_KBhandler) (interrupt_gate (tab ! v)))\<lparr>present := True\<rparr>
       else if v = 40 then (SET_IDT_ENTRY (addr H_RTChandler) (interrupt_gate (tab ! v)))\<lparr>present := True\<rparr>
       else interrupt_gate (tab ! v))"
proof -
  let ?f = "fold (\<lambda>i. set_entry i interrupt_gate) [32..<16 + 32] tab"
  have f: "length ?f = 256" "?f ! v = (if 32 \<le> v \<and> v < 48 then interrupt_gate (tab ! v) else tab ! v)"
    using fold_set_entry [OF distinct_upt, of v tab "\<lambda>i. interrupt_gate" 32 "16 + 32"] assms
    unfolding set_upt by (simp_all del: upt_rec_numeral fold_simps)
  show "length (init_interrupts addr tab) = 256"
    "init_interrupts addr tab ! v =
      (if v < 32 \<or> 48 \<le> v then tab ! v
       else if v = 32 then (SET_IDT_ENTRY (addr H_PITwrapper) (interrupt_gate (tab ! v)))\<lparr>present := True\<rparr>
       else if v = 33 then (SET_IDT_ENTRY (addr H_KBhandler) (interrupt_gate (tab ! v)))\<lparr>present := True\<rparr>
       else if v = 40 then (SET_IDT_ENTRY (addr H_RTChandler) (interrupt_gate (tab ! v)))\<lparr>present := True\<rparr>
       else interrupt_gate (tab ! v))"
    using f assms(2) unfolding init_interrupts_def Let_def by (auto simp: nth_set_entry)
qed

section \<open>Printing a plain string\<close>

lemma not_in_video_high: "0x400000 \<le> unat a \<Longrightarrow> \<not> in_video a"
proof -
  assume "0x400000 \<le> unat a"
  then have "0xB8000 \<le> a" by (simp add: word_le_nat_alt)
  from unat_sub [OF this] have "unat (a - 0xB8000) = unat a - 0xB8000" by simp
  with \<open>0x400000 \<le> unat a\<close> show ?thesis by (simp add: in_video_def in_region_def)
qed

lemma printf_loop_plain:
  assumes "console_wf s" "process_terminal s = Some t" "t < 3"
    and "\<And>j. j < length cs \<Longrightarrow> view (memory s) p (i + j) = cs ! j \<and> cs ! j \<noteq> 0 \<and> cs ! j \<noteq> 37 \<and> \<not> in_video (p + of_nat (i + j))"
    and "view (memory s) p (i + length cs) = 0" "\<not> in_video (p + of_nat (i + length cs))"
  shows "printf_loop conv_buf p i args s = Some (i + length cs, putc_list t cs s)"
  using assms
proof (induction cs arbitrary: i s)
  case Nil
  then show ?case by (subst printf_loop.simps) simp
next
  case (Cons c cs)
  have c: "view (memory s) p i = c" "c \<noteq> 0" "c \<noteq> 37" using Cons.prems(4) [of 0] by simp_all
  have same: "view (memory (putc_on t c s)) p k = view (memory s) p k" if "\<not> in_video (p + of_nat k)" for k
    using that Cons.prems by (simp add: view_def putc_on_outside)
  have "printf_loop conv_buf p (Suc i) args (putc_on t c s) = Some (Suc i + length cs, putc_list t cs (putc_on t c s))"
  proof (rule Cons.IH)
    fix j assume "j < length cs"
    then show "view (memory (putc_on t c s)) p (Suc i + j) = cs ! j \<and> cs ! j \<noteq> 0 \<and> cs ! j \<noteq> 37 \<and> \<not> in_video (p + of_nat (Suc i + j))"
      using Cons.prems(4) [of "Suc j"] same [of "Suc i + j"] by simp
  next
    show "view (memory (putc_on t c s)) p (Suc i + length cs) = 0"
      using Cons.prems(5,6) same [of "Suc i + length cs"] by simp
  qed (use Cons.prems putc_on_wf in auto)
  then show ?case using Cons.prems c by (subst printf_loop.simps) (simp add: putc_def Let_def)
qed

text \<open>A string of the kernel, outside video memory.\<close>

definition string_at :: "mem \<Rightarrow> u32 \<Rightarrow> byte list \<Rightarrow> bool" where
  "string_at m p cs \<longleftrightarrow> rd_bytes m p (length cs + 1) = cs @ [0] \<and> (\<forall>i \<le> length cs. \<not> in_video (p + of_nat i))"

lemma exception_message_plain: "\<forall>c \<in> set (exception_message n). c \<noteq> 0 \<and> c \<noteq> 37"
  by (simp add: exception_message_def chars_def)

lemma printf_exception:
  assumes "console_wf s" "process_terminal s = Some t" "t < 3" "string_at (memory s) p (exception_message n)"
  shows "printf conv_buf p [] s = Some (length (exception_message n), putc_list t (exception_message n) s)"
proof -
  let ?cs = "exception_message n"
  have r: "rd_bytes (memory s) p (length ?cs + 1) = ?cs @ [0]" and v: "\<And>i. i \<le> length ?cs \<Longrightarrow> \<not> in_video (p + of_nat i)"
    using assms(4) by (auto simp: string_at_def)
  have b: "view (memory s) p j = (?cs @ [0]) ! j" if "j \<le> length ?cs" for j
    unfolding r [symmetric] using that by (simp add: view_def)
  have "printf_loop conv_buf p 0 [] s = Some (0 + length ?cs, putc_list t ?cs s)"
  proof (rule printf_loop_plain [OF assms(1-3)])
    fix j assume "j < length ?cs"
    then show "view (memory s) p (0 + j) = ?cs ! j \<and> ?cs ! j \<noteq> 0 \<and> ?cs ! j \<noteq> 37 \<and> \<not> in_video (p + of_nat (0 + j))"
      using b [of j] v [of j] exception_message_plain [of n] nth_mem [of j ?cs] by (auto simp: nth_append)
  qed (use b [of "length ?cs"] v [of "length ?cs"] in simp_all)
  then show ?thesis by (simp add: printf_def)
qed

lemma sys_ok_flag:
  assumes "sys_ok s" "k < 6"
  shows "sys_ok (upd_pcb k (\<lambda>b. b\<lparr>exception_flag := x\<rparr>) s)"
proof -
  have len: "k < length (PCB_at s)" using assms by (simp add: sys_ok_def proc_inv_def proc_wf_def)
  let ?s = "upd_pcb k (\<lambda>b. b\<lparr>exception_flag := x\<rparr>) s"
  have at: "PCB_at ?s ! p = (if p = k then (PCB_at s ! k)\<lparr>exception_flag := x\<rparr> else PCB_at s ! p)" for p
    using len by (simp add: upd_pcb_def nth_list_update)
  have f: "pid (PCB_at ?s ! p) = pid (PCB_at s ! p)" "parent_pid (PCB_at ?s ! p) = parent_pid (PCB_at s ! p)"
      "pde (PCB_at ?s ! p) = pde (PCB_at s ! p)" "parent_terminal (PCB_at ?s ! p) = parent_terminal (PCB_at s ! p)"
      "process_fdt (PCB_at ?s ! p) = process_fdt (PCB_at s ! p)" for p
    by (simp_all add: at)
  have g: "PCB_ptrs ?s = PCB_ptrs s" "cur_pid ?s = cur_pid s" "length (PCB_at ?s) = length (PCB_at s)" "page_directory ?s = page_directory s"
      "tlb_dir ?s = tlb_dir s" "fdt ?s = fdt s" "tss_esp0 ?s = tss_esp0 s" "fops_ready ?s = fops_ready s"
    by (simp_all add: upd_pcb_def fops_ready_def)
  show ?thesis using assms(1) unfolding sys_ok_def proc_inv_def proc_wf_def running_def is_parent_def pcb_ok_def Let_def f g .
qed

lemma exception_halts:
  assumes "sys_ok s" "console_wf s" "cur_pid s = int k" "string_at (memory s) p (exception_message n)"
  defines "t \<equiv> parent_terminal (PCB_at s ! k)"
  defines "s1 \<equiv> upd_pcb k (\<lambda>b. b\<lparr>exception_flag := True\<rparr>) (putc_list t (exception_message n) (s\<lparr>if_flag := False\<rparr>))"
  shows "exception_handler conv_buf p s = sys_halt 255 s1" "sys_ok s1" "cur_pid s1 = int k"
    "PCB_at s1 ! k = (PCB_at s ! k)\<lparr>exception_flag := True\<rparr>" "PCB_ptrs s1 = PCB_ptrs s" "if_flag s1 = False"
    "u < 3 \<Longrightarrow> vterm_of u s1 = (if u = t then fold vt_put (exception_message n) (vterm_of u s) else vterm_of u s)"
proof -
  let ?s = "s\<lparr>if_flag := False\<rparr>"
  let ?r = "putc_list t (exception_message n) ?s"
  have t: "process_terminal s = Some t" "t < 3" "k < 6" "pcb_place (cur_pid s) s = Some k"
    using sys_okD [OF assms(1)] assms(3) unfolding t_def by (metis of_nat_eq_iff)+
  have "proc_same s ?s" by (simp add: proc_same_def)
  then have ok: "sys_ok ?s" using assms(1) by (simp add: proc_same_ok)
  have "process_terminal ?s = process_terminal s" by (rule process_terminal_cong) simp_all
  then have w: "console_wf ?s" "process_terminal ?s = Some t" "vterm_of u ?s = vterm_of u s" for u
    using assms(2) t(1) by (simp_all add: console_wf_def vterm_of_def home_page_def)
  have pr: "printf conv_buf p [] ?s = Some (length (exception_message n), ?r)"
    using assms(4) by (intro printf_exception [OF w(1,2) t(2)]) simp
  have oo: "out_only ?s ?r" by (rule out_only_putc_list)
  have "proc_same ?s ?r" by (rule proc_same_out_only [OF oo])
  then have rok: "sys_ok ?r" using ok by (simp add: proc_same_ok)
  have len: "length (PCB_at s) = 6" using assms(1) by (simp add: sys_ok_def proc_inv_def proc_wf_def)
  show "sys_ok s1" unfolding s1_def by (rule sys_ok_flag [OF rok t(3)])
  have "pcb_place (cur_pid ?r) ?r = pcb_place (cur_pid s) s" by (simp add: pcb_place_def)
  then have "pcb_place (cur_pid ?r) ?r = Some k" using t(4) by simp
  then show "exception_handler conv_buf p s = sys_halt 255 s1" by (simp add: exception_handler_def pr s1_def)
  show "cur_pid s1 = int k" "PCB_at s1 ! k = (PCB_at s ! k)\<lparr>exception_flag := True\<rparr>" "PCB_ptrs s1 = PCB_ptrs s"
    using assms(3) t(3) len by (simp_all add: s1_def upd_pcb_def)
  show "if_flag s1 = False" using out_only_fields(3) [OF oo] by (simp add: s1_def upd_pcb_def)
  show "vterm_of u s1 = (if u = t then fold vt_put (exception_message n) (vterm_of u s) else vterm_of u s)" if "u < 3"
    using putc_list_vterm [OF w(1) t(2) that] w(3) by (simp add: s1_def upd_pcb_def vterm_of_def home_page_def)
qed

section \<open>Properties\<close>

text \<open>
  C32: the interrupt descriptor table.  Starting from 256 zeroed entries, \<open>init_idt\<close> makes exactly these
  vectors present: the exceptions 0, 2 to 14 and 16 to 19, the timer, keyboard and clock lines 0x20,
  0x21 and 0x28, and the system call 0x80.  The gate of each leads to the address of its own handler
  in the kernel code segment, is a 32-bit interrupt gate for an exception and a trap gate otherwise,
  and only the system call can be reached from user mode; the processor is given the whole table.
\<close>

theorem idt_gates:
  assumes "idt s = replicate NUM_VEC z" "\<not> present z" "v < NUM_VEC" "e = idt (init_idt addr table_at s) ! v"
  shows "(present e \<longleftrightarrow> vector_handler v \<noteq> None)
     \<and> (\<forall>h. vector_handler v = Some h \<longrightarrow> gate_offset e = addr h \<and> seg_selector e = KERNEL_CS
          \<and> gate_size e \<and> reserved1 e \<and> reserved2 e \<and> \<not> reserved0 e \<and> (reserved3 e \<longleftrightarrow> 32 \<le> v)
          \<and> dpl e = (if v = SCALL_LOC then 3 else 0))
     \<and> length (idt (init_idt addr table_at s)) = NUM_VEC \<and> idtr (init_idt addr table_at s) = (2047, table_at)"
proof -
  have l: "length (idt s) = 256" "idt s ! v = z" using assms(1,3) by simp_all
  note x = init_exceptions_nth [OF l(1) assms(3), of addr]
  note i = init_interrupts_nth [OF x(1) assms(3), of addr]
  have e: "e = (if v = 128 then SET_IDT_ENTRY (addr H_syscall) ((init_interrupts addr (init_exceptions addr (idt s)) ! v)
        \<lparr>seg_selector := KERNEL_CS, reserved4 := 0, reserved3 := True, reserved2 := True,
           reserved1 := True, gate_size := True, reserved0 := False, dpl := 3, present := True\<rparr>)
      else init_interrupts addr (init_exceptions addr (idt s)) ! v)"
    using i(1) assms(3) by (simp add: assms(4) init_idt_def init_syscall_def Let_def nth_set_entry)
  have t: "length (idt (init_idt addr table_at s)) = 256" "idtr (init_idt addr table_at s) = (2047, table_at)"
    using i(1) by (simp_all add: init_idt_def init_syscall_def Let_def)
  have o: "gate_offset (SET_IDT_ENTRY h y\<lparr>present := b\<rparr>) = h" for h y b using gate_offset_SET [of h y] by (simp add: gate_offset_def)
  consider "v < 32" "v \<noteq> 1 \<and> v < 20 \<and> v \<noteq> 15" | "v < 32" "\<not> (v \<noteq> 1 \<and> v < 20 \<and> v \<noteq> 15)" | "32 \<le> v" "v < 48" | "v = 128"
    | "48 \<le> v" "v \<noteq> 128" by linarith
  then show ?thesis
  proof cases
    case 1
    then have "e = SET_IDT_ENTRY (addr (Eh v)) (exception_gate v z)" "vector_handler v = Some (Eh v)"
      unfolding e i(2) x(2) l(2) vector_handler_def by simp_all
    then show ?thesis using 1 t by (simp add: exception_gate_def gate_offset_SET)
  next
    case 2
    then have "e = exception_gate v z" "vector_handler v = None"
      unfolding e i(2) x(2) l(2) vector_handler_def by auto
    then show ?thesis using 2 t by (simp add: exception_gate_def)
  next
    case 3
    then show ?thesis using t unfolding e i(2) x(2) l(2) vector_handler_def by (simp add: interrupt_gate_def o)
  next
    case 4
    then show ?thesis using t unfolding e vector_handler_def by (simp add: gate_offset_SET)
  next
    case 5
    then show ?thesis using t assms(2) unfolding e i(2) x(2) l(2) vector_handler_def by simp
  qed
qed

definition zero_gate :: idt_desc_t where
  "zero_gate = \<lparr>offset_15_00 = 0, seg_selector = 0, reserved4 = 0, reserved3 = False, reserved2 = False, reserved1 = False,
     gate_size = False, reserved0 = False, dpl = 0, present = False, offset_31_16 = 0\<rparr>"

definition zero_idt :: idt_state where
  "zero_idt = \<lparr>idt = replicate NUM_VEC zero_gate, idtr = (0, 0)\<rparr>"

theorem idt_gates_witness:
  "present (idt (init_idt (\<lambda>h. 0x400000) 0x402000 zero_idt) ! 0x21) \<and> gate_offset (idt (init_idt (\<lambda>h. 0x400000) 0x402000 zero_idt) ! 0x21) = 0x400000"
proof -
  have z: "idt zero_idt = replicate NUM_VEC zero_gate" "\<not> present zero_gate" unfolding zero_idt_def zero_gate_def by simp_all
  have v: "(33 :: nat) < 256" "vector_handler 33 = Some H_KBhandler" by (simp_all add: vector_handler_def)
  show ?thesis using idt_gates [OF z v(1) refl, of "\<lambda>h. 0x400000" "0x402000"] v(2) by simp
qed

text \<open>
  C31: an exception ends the program that caused it, not the system.  When the running process has a parent,
  the handler prints its message on the process's terminal and on no other, and resumes the parent
  with the status 256, which no program can return by itself; the process's number is free again and
  the invariant of the process tables holds.
\<close>

theorem exception_ends_program:
  assumes "sys_ok s" "console_wf s" "cur_pid s = int k" "parent_pid (PCB_at s ! k) = int q"
    and "string_at (memory s) p (exception_message n)" "u < NUM_TERMINALS"
  shows "\<exists>s'. exception_handler conv_buf p s = Some (HaltResume 256 (esp (PCB_at s ! k)) (ebp (PCB_at s ! k)) s')
     \<and> sys_ok s' \<and> cur_pid s' = int q \<and> PCB_ptrs s' = (PCB_ptrs s)[k := None]
     \<and> vterm_of u s' = (if u = parent_terminal (PCB_at s ! k) then fold vt_put (exception_message n) (vterm_of u s) else vterm_of u s)"
proof -
  define s1 where "s1 = upd_pcb k (\<lambda>b. b\<lparr>exception_flag := True\<rparr>)
    (putc_list (parent_terminal (PCB_at s ! k)) (exception_message n) (s\<lparr>if_flag := False\<rparr>))"
  note x = exception_halts [OF assms(1-3,5), folded s1_def]
  have q: "parent_pid (PCB_at s1 ! k) = int q" using assms(4) x(4) by simp
  have "(255 :: u32) + 1 = 256" by simp
  then show ?thesis
    using sys_halt_child [OF x(2,3) q, of 255] sys_halt_child_inv [OF x(2,3) q, of 255] x(1,4,5) x(7) [OF assms(6)]
    by (auto simp: halted_def clearTLB_def vterm_of_def home_page_def)
qed

text \<open>A page fault in the program the demonstration shell has started.\<close>

definition fault_memory :: mem where
  "fault_memory = wr_bytes exec_image 0x7E0000 (exception_message 14 @ [0])"

lemma fault_message: "string_at fault_memory 0x7E0000 (exception_message 14)"
proof -
  have len: "length (exception_message 14) = 22" by (simp add: exception_message_def chars_def)
  have "\<not> in_video (0x7E0000 + of_nat i)" if "i \<le> 22" for i
    using that by (intro not_in_video_high) (simp add: unat_word_ariths unat_of_nat_32)
  then show ?thesis using rd_wr_bytes [of "exception_message 14 @ [0]" exec_image "0x7E0000"] len
    by (simp add: string_at_def fault_memory_def)
qed

lemma fault_child: "sys_ok (launched 1 [] fault_memory exec_demo)" "console_wf (launched 1 [] fault_memory exec_demo)"
  "cur_pid (launched 1 [] fault_memory exec_demo) = int 1" "parent_pid (PCB_at (launched 1 [] fault_memory exec_demo) ! 1) = int 0"
proof -
  show "sys_ok (launched 1 [] fault_memory exec_demo)"
    using exec_demo_ok by (intro launched_ok) (simp_all add: can_start_def sys_ok_def exec_demo_sel)
  show "console_wf (launched 1 [] fault_memory exec_demo)"
    by (simp add: launched_def entered_def clearTLB_def console_wf_def exec_demo_def demo_sys_sel all_less_3)
  show "cur_pid (launched 1 [] fault_memory exec_demo) = int 1" "parent_pid (PCB_at (launched 1 [] fault_memory exec_demo) ! 1) = int 0"
    by (simp_all add: launched_def entered_def new_pcb_def exec_demo_sel)
qed

theorem exception_ends_program_witness:
  "\<exists>s' a b. exception_handler 0x7D0000 0x7E0000 (launched 1 [] fault_memory exec_demo) = Some (HaltResume 256 a b s') \<and> cur_pid s' = 0"
proof -
  have "string_at (memory (launched 1 [] fault_memory exec_demo)) 0x7E0000 (exception_message 14)"
    using fault_message by (simp add: launched_def)
  from exception_ends_program [OF fault_child this, of 0 "0x7D0000"] show ?thesis by auto
qed

text \<open>
  An exception in a base shell stops the machine.  The handler is entered through an interrupt gate,
  and when the process has no parent it ends in the endless loop of \<open>sys_halt\<close> with the interrupt flag
  still clear: the timer interrupt that the loop waits for cannot arrive.
\<close>

theorem exception_in_base_shell_hangs:
  assumes "sys_ok s" "console_wf s" "cur_pid s = int k" "parent_pid (PCB_at s ! k) = -1"
    and "string_at (memory s) p (exception_message n)"
  shows "\<exists>s'. exception_handler conv_buf p s = Some (HaltSpin s') \<and> \<not> if_flag s'"
proof -
  define s1 where "s1 = upd_pcb k (\<lambda>b. b\<lparr>exception_flag := True\<rparr>)
    (putc_list (parent_terminal (PCB_at s ! k)) (exception_message n) (s\<lparr>if_flag := False\<rparr>))"
  note x = exception_halts [OF assms(1-3,5), folded s1_def]
  have "parent_pid (PCB_at s1 ! k) = -1" using assms(4) x(4) by simp
  from sys_halt_base [OF x(2,3) this, of 255] x(1,6) show ?thesis by (simp add: halted_def)
qed

theorem exception_in_base_shell_hangs_witness:
  "\<exists>s'. exception_handler 0x7D0000 0x7E0000 (exec_demo\<lparr>memory := fault_memory\<rparr>) = Some (HaltSpin s') \<and> \<not> if_flag s'"
proof -
  let ?s = "exec_demo\<lparr>memory := fault_memory\<rparr>"
  have "proc_same exec_demo ?s" by (simp add: proc_same_def)
  then have "sys_ok ?s" using exec_demo_ok by (simp add: proc_same_ok)
  moreover have "console_wf ?s" "cur_pid ?s = int 0" "parent_pid (PCB_at ?s ! 0) = -1"
    by (simp_all add: console_wf_def exec_demo_def demo_sys_sel all_less_3 demo_proc_def demo_pcb_def)
  moreover have "string_at (memory ?s) 0x7E0000 (exception_message 14)" using fault_message by simp
  ultimately show ?thesis by (rule exception_in_base_shell_hangs)
qed

end
