(* ===== verification/Kernel_Frames.thy ===== *)
theory Kernel_Frames
  imports Scheduler_Properties IDT
begin

unbundle bit_operations_syntax

text \<open>
  What system calls and interrupt handlers leave alone: the frame lemmas that the invariant of the
  whole kernel rests on.
\<close>

section \<open>Calls that leave the process table alone\<close>

text \<open>
  \<open>quiet\<close>: the processes, their parents and terminals, the running process and thread and the file
  system image are the same as before, and the terminal driver's data are sound.
\<close>

definition quiet :: "'a sys_scheme \<Rightarrow> 'a sys_scheme \<Rightarrow> bool" where
  "quiet s s' \<longleftrightarrow> PCB_ptrs s' = PCB_ptrs s \<and> (\<forall>p. parent_pid (PCB_at s' ! p) = parent_pid (PCB_at s ! p))
     \<and> (\<forall>p. parent_terminal (PCB_at s' ! p) = parent_terminal (PCB_at s ! p)) \<and> cur_pid s' = cur_pid s \<and> curThread s' = curThread s
     \<and> shellStarted s' = shellStarted s \<and> bootMemAddr s' = bootMemAddr s
     \<and> same_image (bootMemAddr s) (memory s) (memory s') \<and> term_wf s'"

lemma quiet_refl: "term_wf s \<Longrightarrow> quiet s s"
  by (simp add: quiet_def)

lemma quiet_trans: "quiet s s' \<Longrightarrow> quiet s' s'' \<Longrightarrow> quiet s s''"
  by (auto simp: quiet_def intro: same_image_trans)

lemma same_image_high:
  assumes "image_placed s" "\<And>a. 0x400000 \<le> unat a \<Longrightarrow> unat a < 0x800000 \<Longrightarrow> m a = memory s a"
  shows "same_image (bootMemAddr s) (memory s) m"
  unfolding same_image_def
proof (intro allI impI)
  fix d assume d: "d < image_size (memory s) (bootMemAddr s)"
  have "unat (bootMemAddr s + of_nat d) = unat (bootMemAddr s) + d"
    using assms(1) d by (auto simp: image_placed_def unat_word_ariths unat_of_nat_32)
  then show "m (bootMemAddr s + of_nat d) = memory s (bootMemAddr s + of_nat d)"
    using assms(1) d by (intro assms(2)) (auto simp: image_placed_def word_le_nat_alt)
qed

lemma same_image_video:
  assumes "image_placed s" "\<And>a. \<not> in_video a \<Longrightarrow> m a = memory s a"
  shows "same_image (bootMemAddr s) (memory s) m"
  by (rule same_image_high [OF assms(1)]) (simp add: assms(2) not_in_video_high)

lemma same_image_user:
  assumes "sys_ok s" "image_placed s" "user_ptr v n s = Some p" "length bs \<le> n"
  shows "same_image (bootMemAddr s) (memory s) (wr_bytes (memory s) p bs)"
proof -
  have v: "0x08000000 \<le> v" "unat v + n \<le> 0x08400000" "p = user_frame s + (v - 0x08000000)"
    using assms(3) by (auto simp: user_ptr_ok [OF assms(1)] split: if_splits)
  have r: "0x800000 \<le> unat p" "unat p + n \<le> 0x2000000" using user_addr_range [OF assms(1) v(1,2)] v(3) by simp_all
  show ?thesis
    using image_disjoint [OF assms(2) r(1), of "length bs"] r assms(2,4) by (intro same_image_wr) (auto simp: image_placed_def)
qed

lemma quiet_with_memory: "term_wf s \<Longrightarrow> same_image (bootMemAddr s) (memory s) m \<Longrightarrow> quiet s (with_memory m s)"
  by (simp add: quiet_def) (simp add: with_memory_def term_wf_def console_wf_def)

lemma term_wf_fdt_put [simp]: "term_wf (fdt_put k i e s) = term_wf s"
  by (simp add: fdt_put_def term_wf_def console_wf_def)

lemma quiet_fdt_put: "term_wf s \<Longrightarrow> k < length (PCB_at s) \<Longrightarrow> quiet s (fdt_put k i e s)"
  by (simp add: quiet_def)

subsection \<open>write\<close>

lemma terminalWrite_loop_frame:
  assumes "term_wf s" "process_terminal s = Some t" "t < 3" "terminalWrite_loop buf i n s = Some s'"
  shows "term_wf s' \<and> (\<forall>a. \<not> in_video a \<longrightarrow> memory s' a = memory s a)"
  using assms
proof (induction n arbitrary: i s)
  case (Suc n)
  let ?s = "putc_on t (view (memory s) buf i) s"
  have w: "console_wf s" using Suc.prems(1) by (simp add: term_wf_def)
  have "term_wf ?s" by (rule term_wf_out_only [OF Suc.prems(1) out_only_putc_on putc_on_wf [OF w Suc.prems(3)]])
  moreover have "terminalWrite_loop buf (Suc i) n ?s = Some s'" using Suc.prems(2-4) by (simp add: putc_def)
  ultimately show ?case
    using Suc.IH [of ?s "Suc i"] Suc.prems(2,3) putc_on_outside [OF w Suc.prems(3)] by simp
qed simp

lemma quiet_terminalWrite:
  fixes s s' :: "'a sys_scheme"
  assumes "sys_ok s" "term_wf s" "image_placed s" "terminalWrite p n s = Some (r, s')"
  shows "quiet s s'"
proof -
  let ?c = "s\<lparr>if_flag := False\<rparr>"
  obtain s1 where s1: "terminalWrite_loop p 0 (nat n) ?c = Some s1" "s' = restore_flags (if_flag s, df_flag s) s1"
    using assms(4) by (auto simp: terminalWrite_def cli_and_save_def Let_def Option.bind_eq_Some_conv)
  obtain t where t: "process_terminal s = Some t" "t < 3" using sys_okD [OF assms(1)] by metis
  have "process_terminal ?c = process_terminal s" by (rule process_terminal_cong) simp_all
  then have f: "term_wf s1 \<and> (\<forall>a. \<not> in_video a \<longrightarrow> memory s1 a = memory s a)"
    using terminalWrite_loop_frame [of ?c t p 0 "nat n" s1] assms(2) t s1(1) by (simp add: term_wf_def console_wf_def)
  have "memory s' = memory s1" "term_wf s' = term_wf s1" by (simp_all add: s1(2) restore_flags_def term_wf_def console_wf_def)
  moreover have "same_image (bootMemAddr s) (memory s) (memory s1)" by (rule same_image_video [OF assms(3)]) (simp add: f)
  ultimately show ?thesis using proc_same_terminalWrite [OF assms(4)] f by (simp add: quiet_def proc_same_def)
qed

lemma quiet_port:
  assumes "term_wf s" "s' = s\<lparr>io_pos := b, io_out := a\<rparr>"
  shows "quiet s s'"
  using assms by (simp add: quiet_def term_wf_def console_wf_def)

lemma RTCWrite_freq_port: "\<exists>a b. snd (RTCWrite_freq f s) = s\<lparr>io_pos := b, io_out := a\<rparr>"
proof (cases "snd (RTCWrite_freq f s) = s")
  case True
  then show ?thesis by (intro exI [of _ "io_out s"] exI [of _ "io_pos s"]) simp
next
  case False
  then show ?thesis by (auto simp: RTCWrite_freq_def outb_def inb_def Let_def split: if_splits)
qed

lemma sys_write_quiet:
  assumes "sys_ok s" "term_wf s" "image_placed s" "sys_write fd buf n s = Some (r, s')"
  shows "quiet s s'"
proof -
  have "s' = s \<or> (\<exists>f. call_write f buf n s = Some (r, s'))"
    using assms(4) by (auto simp: sys_write_def Option.bind_eq_Some_conv split: if_splits)
  then show ?thesis
  proof (elim disjE exE)
    fix f assume "call_write f buf n s = Some (r, s')"
    then have "s' = s \<or> (\<exists>p. terminalWrite p n s = Some (r, s')) \<or> (\<exists>p. RTCWrite p s = (r, s'))"
      by (auto simp: call_write_def fileWrite_def directoryWrite_def dummy_write_def Option.bind_eq_Some_conv split: kernel_fn.splits)
    then show ?thesis
    proof (elim disjE exE)
      fix p assume "RTCWrite p s = (r, s')"
      then have "s' = snd (RTCWrite_freq (ld32 (memory s) p) s)" by (simp add: RTCWrite_def)
      then show ?thesis using RTCWrite_freq_port [of "ld32 (memory s) p" s] quiet_port [OF assms(2)] by blast
    qed (use assms(2) quiet_refl quiet_terminalWrite [OF assms(1-3)] in auto)
  qed (use assms(2) quiet_refl in simp)
qed

subsection \<open>read\<close>

lemma quiet_flags:
  assumes "term_wf s" "length x = 3"
  shows "quiet s (s\<lparr>readWaiting := x\<rparr>)" "quiet s (s\<lparr>RTC_read_flag := y\<rparr>)"
  using assms by (simp_all add: quiet_def term_wf_def console_wf_def)

lemma quiet_fileRead:
  assumes "sys_ok s" "term_wf s" "image_placed s" "user_ptr buf (nat n) s = Some p" "0 \<le> n" "n < 2 ^ 31" "fileRead fd p n s = Some (r, s')"
  shows "quiet s s'"
proof (cases "s' = s")
  case False
  obtain k where k: "k < 6" "fdt s = Some k" using sys_okD [OF assms(1)] by metis
  obtain e r1 s1 where e: "read_data (fd_inodeNum e) (file_position e) p (of_int n) s = Some (r1, s1)"
      "s' = s1 \<or> s' = fdt_put k (nat fd) (e\<lparr>file_position := file_position e + of_int r1\<rparr>) s1"
    using assms(7) False k by (auto simp: fileRead_def Option.bind_eq_Some_conv split: if_splits)
  have u: "unat (of_int n :: u32) = nat n" using assms(5,6) by (simp add: unat_of_nat_32 flip: of_nat_nat)
  have v: "0x08000000 \<le> buf" "unat buf + nat n \<le> 0x08400000" "p = user_frame s + (buf - 0x08000000)"
    using assms(4) by (auto simp: user_ptr_ok [OF assms(1)] split: if_splits)
  note a = user_addr_range [OF assms(1) v(1,2)]
  have "disjoint_regions p (unat (of_int n :: u32)) (bootMemAddr s) (image_size (memory s) (bootMemAddr s))"
    unfolding u using a v(3) by (intro image_disjoint [OF assms(3)]) simp_all
  then obtain m where m: "s1 = with_memory m s" "same_image (bootMemAddr s) (memory s) m"
    using read_data_frame [OF assms(3) _ e(1)] by blast
  have q: "quiet s s1" unfolding m(1) by (rule quiet_with_memory [OF assms(2) m(2)])
  have "term_wf s1" "k < length (PCB_at s1)"
    using q k(1) assms(1) by (auto simp: quiet_def m(1) sys_ok_def proc_inv_def proc_wf_def)
  then have "quiet s (fdt_put k i x s1)" for i x using quiet_trans [OF q quiet_fdt_put] by blast
  with e(2) q show ?thesis by auto
qed (use assms quiet_refl in simp)

lemma quiet_directoryRead:
  assumes "sys_ok s" "term_wf s" "image_placed s" "user_ptr buf 32 s = Some p" "directoryRead d0 fd p n s = Some (r, s')"
  shows "quiet s s'"
proof (cases "s' = s")
  case False
  obtain k where k: "k < 6" "fdt s = Some k" using sys_okD [OF assms(1)] by metis
  have len: "k < length (PCB_at s)" using k(1) assms(1) by (simp add: sys_ok_def proc_inv_def proc_wf_def)
  obtain e x f where e: "s' = fdt_put k (nat fd) (e\<lparr>file_position := x\<rparr>) s
      \<or> s' = fdt_put k (nat fd) (e\<lparr>file_position := x\<rparr>) (with_memory (wr_bytes (memory s) p (cstr_n f 32)) s)"
    using assms(5) False k(2) unfolding directoryRead_def Option.bind_eq_Some_conv Let_def
    by (auto simp: strcpyFile_eq Option.bind_eq_Some_conv split: if_splits prod.splits)
  have q: "quiet s (with_memory (wr_bytes (memory s) p (cstr_n f 32)) s)"
    using length_cstr_n [of f 32] by (intro quiet_with_memory [OF assms(2)] same_image_user [OF assms(1,3,4)])
  have "quiet s (fdt_put k i y (with_memory (wr_bytes (memory s) p (cstr_n f 32)) s))" for i y
    using q len by (intro quiet_trans [OF q quiet_fdt_put]) (simp_all add: quiet_def)
  with e quiet_fdt_put [OF assms(2) len] show ?thesis by auto
qed (use assms quiet_refl in simp)

lemma sys_read_quiet:
  assumes "sys_ok s" "term_wf s" "image_placed s" "sys_read d0 fd buf n s = Some r" "n < 2 ^ 31"
  shows "quiet s (sysret_state r)"
proof -
  have "r = Ret ERROR_VAL s \<or> (0 \<le> n \<and> (\<exists>f. call_read d0 f fd buf n s = Some r))"
    using assms(4) by (auto simp: sys_read_def Option.bind_eq_Some_conv split: if_splits)
  then show ?thesis
  proof (elim disjE exE conjE)
    fix f assume "0 \<le> n" "call_read d0 f fd buf n s = Some r"
    then show ?thesis
      using assms(5) quiet_refl [OF assms(2)] quiet_flags [OF assms(2)] term_wfD(5) [OF assms(2)]
        quiet_fileRead [OF assms(1-3)] quiet_directoryRead [OF assms(1-3)]
      by (cases f) (auto simp: call_read_def terminalRead_start_def RTCRead_start_def dummy_read_def
          Option.bind_eq_Some_conv split: if_splits)
  qed (use assms(2) quiet_refl in simp)
qed

subsection \<open>open, close, getargs, vidmap\<close>

lemma quiet_RTCOpen:
  assumes "term_wf s" "RTCOpen s = Some (r, s')"
  shows "quiet s s'"
proof -
  obtain x where x: "s' = snd (RTCWrite_freq 2 (s\<lparr>RTC_read_flag := x\<rparr>))"
    using assms(2) by (auto simp: RTCOpen_def Option.bind_eq_Some_conv split: if_splits) (metis snd_conv)
  let ?s = "s\<lparr>RTC_read_flag := x\<rparr>"
  have "quiet s ?s" using quiet_flags(2) [OF assms(1) term_wfD(5) [OF assms(1)]] by simp
  moreover from this have "term_wf ?s" by (simp add: quiet_def)
  then have "quiet ?s s'" unfolding x using RTCWrite_freq_port [of 2 ?s] quiet_port by metis
  ultimately show ?thesis by (rule quiet_trans)
qed

lemma sys_open_shape:
  assumes "sys_open d0 name s = Some (r, s')" "fops_ready s" "pcb_place (cur_pid s) s = Some k" "fdt s = Some k"
  shows "s' = s \<or> (\<exists>i e. s' = fdt_put k i e s \<or> (\<exists>v. RTCOpen (fdt_put k i e s) = Some (v, s')))"
proof -
  have same: "s\<lparr>fdt := Some k\<rparr> = s" using assms(4) by simp
  show ?thesis
    using assms(1,2) unfolding sys_open_def assms(3) Let_def Option.bind.bind_lunit same
    by (auto simp: Option.bind_eq_Some_conv Let_def call_open_def fops_ready_def fileOpen_def directoryOpen_def
        split: option.splits if_splits prod.splits)
qed

lemma sys_open_quiet:
  assumes "sys_ok s" "term_wf s" "sys_open d0 name s = Some (r, s')"
  shows "quiet s s'"
proof -
  obtain k where k: "k < 6" "fdt s = Some k" "pcb_place (cur_pid s) s = Some k" using sys_okD [OF assms(1)] by metis
  have r: "fops_ready s" "k < length (PCB_at s)" using assms(1) k(1) by (simp_all add: sys_ok_def proc_inv_def proc_wf_def)
  have q: "quiet s (fdt_put k i e s)" for i e using quiet_fdt_put [OF assms(2) r(2)] .
  show ?thesis
    using sys_open_shape [OF assms(3) r(1) k(3,2)] quiet_refl [OF assms(2)] q
      quiet_trans [OF q quiet_RTCOpen] assms(2) by fastforce
qed

lemma sys_close_quiet:
  assumes "sys_ok s" "term_wf s" "sys_close fd s = Some (r, s')"
  shows "quiet s s'"
proof -
  obtain k where k: "k < 6" "cur_pid s = int k" using sys_okD [OF assms(1)] by metis
  then have "k < length (PCB_at s)" using assms(1) by (simp add: sys_ok_def proc_inv_def proc_wf_def)
  then show ?thesis using assms(3) quiet_refl [OF assms(2)] quiet_fdt_put [OF assms(2)]
    by (auto simp: sys_close_result [OF assms(1) k(2)] split: if_splits)
qed

lemma sys_getargs_quiet:
  assumes "sys_ok s" "term_wf s" "image_placed s" "sys_getargs buf n s = Some (r, s')"
  shows "quiet s s'"
proof -
  have "s' = s \<or> (\<exists>f p. user_ptr buf 128 s = Some p \<and> s' = with_memory (wr_bytes (memory s) p (strncpy_spec f 128)) s)"
    using assms(4) by (auto simp: sys_getargs_def Option.bind_eq_Some_conv Let_def split: if_splits; blast)
  then show ?thesis
    using quiet_refl [OF assms(2)] quiet_with_memory [OF assms(2)] same_image_user [OF assms(1,3)] by auto
qed

lemma st32_bytes: "st32 m p v = wr_bytes m p [ucast v, ucast (drop_bit 8 v), ucast (drop_bit 16 v), ucast (drop_bit 24 v)]"
  by (simp add: st32_def upd4_wr_bytes)

lemma sys_vidmap_quiet:
  assumes "sys_ok s" "term_wf s" "image_placed s" "sys_vidmap a s = Some (r, s')"
  shows "quiet s s'"
proof -
  have "s' = s \<or> (\<exists>v p. user_ptr a 4 s = Some p \<and> s' = with_memory (st32 (memory s) p v) s)"
    using assms(4) by (auto simp: sys_vidmap_def Option.bind_eq_Some_conv Let_def split: if_splits)
  then show ?thesis
    using quiet_refl [OF assms(2)] quiet_with_memory [OF assms(2)] same_image_user [OF assms(1,3)] by (auto simp: st32_bytes)
qed

section \<open>What the keyboard handler leaves alone\<close>

text \<open>The keyboard handler changes devices, video memory, the user video pages and the terminal driver's data only.\<close>

definition kb_update :: "'a term_state_scheme \<Rightarrow> 'a term_state_scheme \<Rightarrow> 'a term_state_scheme" where
  "kb_update s s' = s\<lparr>memory := memory s', io_out := io_out s', io_pos := io_pos s', df_flag := df_flag s',
     user_page_table := user_page_table s', tlb_dir := tlb_dir s', tlb_kernel := tlb_kernel s', tlb_user := tlb_user s',
     currentTerminal := currentTerminal s', screen_x := screen_x s', screen_y := screen_y s',
     KBbuf := KBbuf s', buf_loc := buf_loc s', capsFlag := capsFlag s', shiftFlagL := shiftFlagL s', shiftFlagR := shiftFlagR s',
     ctrlFlagL := ctrlFlagL s', ctrlFlagR := ctrlFlagR s', altFlagL := altFlagL s', altFlagR := altFlagR s', readReady := readReady s'\<rparr>"

definition kb_safe :: "'a term_state_scheme \<Rightarrow> 'a term_state_scheme \<Rightarrow> bool" where
  "kb_safe s s' \<longleftrightarrow> s' = kb_update s s' \<and> (\<forall>a. \<not> in_video a \<longrightarrow> memory s' a = memory s a)
     \<and> (tlb_dir s' = tlb_dir s \<or> tlb_dir s' = page_directory s)"

lemma kb_safe_refl [simp]: "kb_safe s s"
  by (simp add: kb_safe_def kb_update_def)

lemma kb_safe_trans:
  assumes "kb_safe s1 s2" "kb_safe s2 s3"
  shows "kb_safe s1 s3"
proof -
  have e: "s2 = kb_update s1 s2" "s3 = kb_update s2 s3" using assms by (simp_all add: kb_safe_def)
  have "kb_update s1 s3 = kb_update (kb_update s1 s2) s3" by (simp add: kb_update_def)
  also have "\<dots> = s3" using e by metis
  finally have "s3 = kb_update s1 s3" by simp
  moreover have "page_directory (kb_update s1 s2) = page_directory s1" by (simp add: kb_update_def)
  then have "page_directory s2 = page_directory s1" using e(1) by metis
  ultimately show ?thesis using assms by (auto simp: kb_safe_def)
qed

lemma kb_safe_out:
  assumes "out_only s s'" "\<And>a. \<not> in_video a \<Longrightarrow> memory s' a = memory s a"
  shows "kb_safe s s'"
  using assms by (auto elim!: out_onlyE simp: kb_safe_def kb_update_def)

lemma kb_safe_KBputc: "console_wf s \<Longrightarrow> kb_safe s (KBputc c s)"
  by (intro kb_safe_out out_only_KBputc KBputc_outside)

lemma back_char_memory [simp]: "memory (back_char s) = memory s"
  by (simp add: back_char_def Let_def)

lemma kb_safe_erase_char: "console_wf s \<Longrightarrow> kb_safe s (erase_char s)"
  by (intro kb_safe_out out_only_erase_char) (simp add: erase_char_def KBputc_outside back_char_wf)

lemma clear_loop_outside: "n \<le> 2000 \<Longrightarrow> \<not> in_video a \<Longrightarrow> clear_loop n m a = m a"
proof (induction n)
  case (Suc n)
  have "in_video (video_page 0 + of_nat (n * 2))" "in_video (video_page 0 + of_nat (n * 2) + 1)"
    using Suc.prems in_video_page [of 0 "n * 2"] in_video_page [of 0 "n * 2 + 1"] by (simp_all add: ac_simps)
  then have "a \<noteq> video_page 0 + of_nat (n * 2)" "a \<noteq> video_page 0 + of_nat (n * 2) + 1" using Suc.prems(2) by auto
  then show ?case using Suc by (simp del: of_nat_mult)
qed simp

lemma kb_safe_clear: "kb_safe s (clear s)"
  by (intro kb_safe_out out_only_clear) (simp add: clear_def Let_def clear_loop_outside del: clear_loop.simps)

lemma memcpy_page_outside:
  assumes "k \<le> 3" "l \<le> 3" "k \<noteq> l" "\<not> in_video a"
  shows "memcpy m (video_page k) (video_page l) 0x1000 a = m a"
proof -
  have "disjoint_regions (video_page k) 4096 (video_page l) 4096"
    using assms video_page_inj [of k l] by (intro disjoint_regionsI) simp
  then have cp: "memcpy m (video_page k) (video_page l) 0x1000 = wr_bytes m (video_page k) (rd_bytes m (video_page l) 4096)"
    by (simp add: memcpy_copy copy_bytes_def)
  have "\<not> in_region (video_page k) 4096 a" using in_video_page [OF assms(1)] assms(4) by (auto elim!: in_regionE)
  then show ?thesis by (simp add: cp wr_bytes_outside)
qed

lemma kb_safe_switch:
  assumes "currentTerminal s < 3" "c < 3" "c \<noteq> currentTerminal s"
  shows "kb_safe s (snd (switchTerminal (currentTerminal s) (s\<lparr>currentTerminal := c\<rparr>)))"
proof -
  let ?s = "s\<lparr>currentTerminal := c\<rparr>"
  let ?s' = "snd (switchTerminal (currentTerminal s) ?s)"
  have c: "currentTerminal ?s < 3" using assms(2) by simp
  note r = switchTerminal_result [OF assms(1) c]
  have "memory ?s' a = memory s a" if "\<not> in_video a" for a
    using that assms(1,2) by (simp add: r(1) memcpy_page_outside)
  moreover have "?s' = kb_update s ?s'"
    using assms by (simp add: switchTerminal_def kb_update_def Let_def cli_and_save_def restore_flags_def with_memory_def clearTLB_def
        set_cursor_def outb_def)
  moreover have "tlb_dir ?s' = page_directory s" using r(3,11) by (simp add: tlb_coherent_def)
  ultimately show ?thesis by (simp add: kb_safe_def)
qed

lemma kb_safe_echo: "term_wf s \<Longrightarrow> i + n \<le> 128 \<Longrightarrow> echo_buffer i n s = Some s' \<Longrightarrow> kb_safe s s'"
proof (induction i n s rule: echo_buffer.induct)
  case (2 i n s)
  then obtain c where c: "kb_load (currentTerminal s) i s = Some c" "echo_buffer (Suc i) n (KBputc c s) = Some s'"
    by (auto simp: Option.bind_eq_Some_conv)
  have w: "console_wf s" using 2(2) by (simp add: term_wf_def)
  have "term_wf (KBputc c s)" by (rule term_wf_out_only [OF 2(2) out_only_KBputc KBputc_wf [OF w]])
  then have "kb_safe (KBputc c s) s'" using 2(1) [OF c(1)] 2(3) c(2) by simp
  then show ?case by (rule kb_safe_trans [OF kb_safe_KBputc [OF w]])
qed simp

lemma kb_safe_data: "kb_safe s (s\<lparr>KBbuf := a, buf_loc := b, readReady := c\<rparr>)"
  by (simp add: kb_safe_def kb_update_def)

lemma kb_safe_line: "clear_line t n s = Some s' \<Longrightarrow> kb_safe s s'"
proof (induction t n s rule: clear_line.induct)
  case (2 t n s)
  let ?s = "s\<lparr>buf_loc := (buf_loc s)[t := n], KBbuf := (KBbuf s)[t * 128 + n := 0]\<rparr>"
  have c: "kb_store t n 0 (s\<lparr>buf_loc := (buf_loc s)[t := n]\<rparr>) = Some ?s" "clear_line t n ?s = Some s'"
    using 2(2) by (auto simp: kb_store_def Option.bind_eq_Some_conv split: if_splits)
  have "kb_safe s ?s" by (simp add: kb_safe_def kb_update_def)
  then show ?case using 2(1) [OF c] by (rule kb_safe_trans)
qed simp

lemma kb_safe_flags:
  "kb_safe s (s\<lparr>ctrlFlagL := a\<rparr>)" "kb_safe s (s\<lparr>altFlagL := a\<rparr>)" "kb_safe s (s\<lparr>capsFlag := a\<rparr>)" "kb_safe s (s\<lparr>shiftFlagL := a\<rparr>)"
  "kb_safe s (s\<lparr>shiftFlagR := a\<rparr>)" "kb_safe s (s\<lparr>io_pos := p, ctrlFlagR := a, altFlagR := b\<rparr>)" "kb_safe s (s\<lparr>io_pos := p\<rparr>)"
  "kb_safe s (s\<lparr>io_out := out\<rparr>)" "kb_safe s (s\<lparr>KBbuf := x, buf_loc := y\<rparr>)" "kb_safe s (s\<lparr>KBbuf := x, buf_loc := y, readReady := z\<rparr>)"
  "kb_safe s (s\<lparr>buf_loc := y, KBbuf := x\<rparr>)"
  by (simp_all add: kb_safe_def kb_update_def)

lemma kb_safe_char:
  assumes "term_wf s" "kb_char scode s = Some s'"
  shows "kb_safe s s'"
proof -
  define c where "c = ascii_scan ! (unat scode + capsFlag s * 64 + (shiftFlagL s OR shiftFlagR s) * 128)"
  have k: "kb_safe s (KBputc c s)" using assms(1) by (intro kb_safe_KBputc) (simp add: term_wf_def)
  have "kb_safe (KBputc c s) s'"
    using assms(2) kb_safe_line kb_safe_flags(9,10)
    by (auto simp: kb_char_def Let_def c_def [symmetric] kb_store_def Option.bind_eq_Some_conv split: if_splits)
  with k show ?thesis by (rule kb_safe_trans)
qed

lemma kb_safe_backspace:
  assumes "term_wf s" "kb_backspace s = Some s'"
  shows "kb_safe s s'"
proof (cases "buf_loc s ! currentTerminal s = 0")
  case False
  let ?t = "currentTerminal s" and ?n = "buf_loc s ! currentTerminal s - 1"
  let ?s = "s\<lparr>buf_loc := (buf_loc s)[?t := ?n], KBbuf := (KBbuf s)[?t * 128 + ?n := 0]\<rparr>"
  have "s' = erase_char ?s" using False assms term_wfD [OF assms(1)]
    by (auto simp: kb_backspace_def Let_def kb_store_def split: if_splits)
  moreover have "console_wf ?s" using assms(1) by (simp add: term_wf_def console_wf_def)
  ultimately show ?thesis using kb_safe_trans [OF kb_safe_flags(11) kb_safe_erase_char] by metis
qed (use assms in \<open>simp add: kb_backspace_def\<close>)

lemma kb_safe_alt: "term_wf s \<Longrightarrow> kb_safe s (kb_alt scode s)"
  by (cases rule: kb_alt_cases [of scode s]) (auto intro: kb_safe_switch dest: term_wfD(2))

lemma kb_safe_dispatch:
  assumes "term_wf s" "kb_dispatch scode s = Some s'"
  shows "kb_safe s s'"
proof -
  have cl: "kb_safe s s'" if "echo_buffer 0 (buf_loc s ! currentTerminal s) (clear s) = Some s'"
  proof -
    have "term_wf (clear s)" using assms(1) by (intro term_wf_out_only [OF _ out_only_clear] clear_wf) (simp_all add: term_wf_def)
    moreover have "buf_loc s ! currentTerminal s \<le> 128" using term_wfD [OF assms(1)] by simp
    ultimately have "kb_safe (clear s) s'" using kb_safe_echo [OF _ _ that] by simp
    then show ?thesis by (rule kb_safe_trans [OF kb_safe_clear])
  qed
  show ?thesis
  proof (cases "scode = 0xE0")
    case True
    let ?c = "io_in s (io_pos s)"
    let ?A = "?c = 0x1D \<or> ?c = 0x9D" and ?B = "?c = 0x38 \<or> ?c = 0xB8"
    have "kb_dispatch 0xE0 s = Some (s\<lparr>io_pos := Suc (io_pos s), ctrlFlagR := (if ?A then (ctrlFlagR s + 1) mod 2 else ctrlFlagR s),
        altFlagR := (if ?B then (altFlagR s + 1) mod 2 else altFlagR s)\<rparr>)"
      by (cases ?A; cases ?B) (simp_all add: kb_dispatch_def inb_def Let_def del: disj_not1)
    then have "s' = s\<lparr>io_pos := Suc (io_pos s), ctrlFlagR := (if ?A then (ctrlFlagR s + 1) mod 2 else ctrlFlagR s),
        altFlagR := (if ?B then (altFlagR s + 1) mod 2 else altFlagR s)\<rparr>" using assms(2) True by simp
    then show ?thesis using kb_safe_flags(6) by metis
  next
    case False
    then show ?thesis
      using assms cl kb_safe_flags kb_safe_alt kb_safe_backspace kb_safe_char
      unfolding kb_dispatch_def by (auto split: if_splits)
  qed
qed

lemma KBhandler_safe_frame:
  assumes "term_wf s" "KBhandler s = Some s'"
  shows "kb_safe s s'"
proof -
  let ?s = "s\<lparr>io_pos := Suc (io_pos s)\<rparr>"
  obtain s1 where s1: "kb_dispatch (io_in s (io_pos s)) ?s = Some s1" "s' = send_eoi 1 s1"
    using assms(2) by (auto simp: KBhandler_def inb_def Option.bind_eq_Some_conv)
  have "term_wf ?s" using assms(1) by (simp add: term_wf_def console_wf_def)
  then have "kb_safe s s1" using kb_safe_trans [OF kb_safe_flags(7) kb_safe_dispatch [OF _ s1(1)]] by simp
  then show ?thesis unfolding s1(2) send_eoi_def outb_def by (simp add: kb_safe_trans [OF _ kb_safe_flags(8)])
qed

lemma kb_safe_sys:
  fixes s s' :: "'a sys_scheme"
  assumes "kb_safe s s'" "term_wf s'" "image_placed s"
  shows "quiet s s'" "proc_inv s' = proc_inv s" "running s \<Longrightarrow> running s'"
proof -
  have e: "s' = kb_update s s'" using assms(1) by (simp add: kb_safe_def)
  have f: "PCB_at s' = PCB_at s" "PCB_ptrs s' = PCB_ptrs s" "cur_pid s' = cur_pid s" "curThread s' = curThread s"
      "shellStarted s' = shellStarted s" "bootMemAddr s' = bootMemAddr s" "fdt s' = fdt s" "tss_esp0 s' = tss_esp0 s"
      "page_directory s' = page_directory s" "fops_ready s' = fops_ready s"
    by (subst e, simp add: kb_update_def fops_ready_def)+
  have "same_image (bootMemAddr s) (memory s) (memory s')" using assms(1) by (intro same_image_video [OF assms(3)]) (simp add: kb_safe_def)
  then show "quiet s s'" using assms(2) by (simp add: quiet_def f)
  show "proc_inv s' = proc_inv s" by (simp add: proc_inv_def proc_wf_def pcb_ok_def f)
  show "running s'" if "running s" using that assms(1) by (auto simp: running_def is_parent_def f kb_safe_def)
qed

section \<open>Reading a line\<close>

lemma terminalRead_copy_frame:
  "terminalRead_copy t buf bytes n s = Some (b, s') \<Longrightarrow>
     \<exists>m. s' = with_memory m s \<and> (\<forall>a. (\<forall>i < n. a \<noteq> buf + of_nat (bytes + i)) \<longrightarrow> m a = memory s a)"
proof (induction n arbitrary: bytes s)
  case 0
  then show ?case by (metis option.inject prod.inject terminalRead_copy.simps(1) with_memory_same)
next
  case (Suc n)
  obtain c where c: "kb_load t bytes s = Some c" using Suc.prems by (auto simp: Option.bind_eq_Some_conv)
  let ?m = "(memory s)(buf + of_nat bytes := c)"
  let ?s = "with_memory ?m s"
  have first: "?m a = memory s a" if "\<forall>i < Suc n. a \<noteq> buf + of_nat (bytes + i)" for a using that by (auto dest: spec [of _ 0])
  show ?case
  proof (cases "c = 10")
    case True
    then have "s' = with_memory ?m s" using Suc.prems c by simp
    then show ?thesis using first by (intro exI [of _ ?m]) (simp del: fun_upd_apply)
  next
    case False
    then have "terminalRead_copy t buf (Suc bytes) n ?s = Some (b, s')" using Suc.prems c by simp
    from Suc.IH [OF this] obtain m where m: "s' = with_memory m ?s" "\<And>a. \<forall>i < n. a \<noteq> buf + of_nat (Suc bytes + i) \<Longrightarrow> m a = ?m a"
      by auto
    have "m a = memory s a" if h: "\<forall>i < Suc n. a \<noteq> buf + of_nat (bytes + i)" for a
    proof -
      have "\<forall>i < n. a \<noteq> buf + of_nat (Suc bytes + i)"
      proof (intro allI impI)
        fix i assume "i < n"
        then show "a \<noteq> buf + of_nat (Suc bytes + i)" using h [rule_format, of "Suc i"] by simp
      qed
      from m(2) [OF this] first [OF h] show ?thesis by simp
    qed
    then show ?thesis using m(1) by (intro exI [of _ m]) (simp add: with_memory_def)
  qed
qed

lemma terminalRead_finish_quiet:
  assumes "sys_ok s" "term_wf s" "image_placed s" "user_ptr buf (nat n) s = Some p" "terminalRead_finish p n s = Some (r, s')"
  shows "quiet s s'" "proc_same s s'"
proof -
  obtain t where t: "process_terminal s = Some t" "t < 3" using sys_okD [OF assms(1)] by metis
  obtain b s1 where c: "terminalRead_copy t p 0 (nat n) (s\<lparr>if_flag := False\<rparr>) = Some (b, s1)"
      and s': "s' = (kb_clear_row t s1)\<lparr>readReady := (readReady s1)[t := False], readWaiting := (readWaiting s1)[t := False],
         buf_loc := (buf_loc s1)[t := 0], if_flag := if_flag s, df_flag := df_flag s\<rparr>"
    using assms(5) t
    by (auto simp: terminalRead_finish_def cli_and_save_def restore_flags_def kb_clear_row_def Option.bind_eq_Some_conv Let_def)
  obtain m where m: "s1 = with_memory m (s\<lparr>if_flag := False\<rparr>)" "\<And>a. \<forall>i < nat n. a \<noteq> p + of_nat i \<Longrightarrow> m a = memory s a"
    using terminalRead_copy_frame [OF c] by auto
  have v: "0x08000000 \<le> buf" "unat buf + nat n \<le> 0x08400000" "p = user_frame s + (buf - 0x08000000)"
    using assms(4) by (auto simp: user_ptr_ok [OF assms(1)] split: if_splits)
  note a = user_addr_range [OF assms(1) v(1,2), folded v(3)]
  have "same_image (bootMemAddr s) (memory s) m"
  proof (rule same_image_high [OF assms(3)], rule m(2), intro allI impI notI)
    fix x i assume x: "unat x < 0x800000" "i < nat n" "x = p + of_nat i"
    have "unat (p + of_nat i) = unat p + i" using a x(2) by (simp add: unat_word_ariths unat_of_nat_32)
    with x a show False by simp
  qed
  moreover have "term_wf s'"
    using assms(2) t(2) by (auto simp: s' m(1) kb_clear_row_def with_memory_def term_wf_def console_wf_def nth_list_update)
  ultimately show "quiet s s'" by (simp add: quiet_def s' m(1) kb_clear_row_def with_memory_def)
  show "proc_same s s'" by (simp add: proc_same_def s' m(1) kb_clear_row_def with_memory_def)
qed

lemma RTChandler_quiet: "term_wf s \<Longrightarrow> quiet s (RTChandler s)" "proc_same s (RTChandler s)"
  by (simp_all add: RTChandler_def quiet_def proc_same_def outb_def inb_def send_eoi_def Let_def term_wf_def console_wf_def)

text \<open>
  The end of a read from a terminal returns when at most a row was asked for, or a newline stops it in
  time.
\<close>

lemma terminalRead_copy_total:
  assumes "length (KBbuf s) = 384" "t < 3" "bytes + n \<le> 128 \<or> (\<exists>j. bytes \<le> j \<and> j < 128 \<and> KBbuf s ! (t * 128 + j) = 10)"
  shows "\<exists>r. terminalRead_copy t buf bytes n s = Some r"
  using assms(1,3)
proof (induction n arbitrary: bytes s)
  case (Suc n)
  let ?c = "KBbuf s ! (t * 128 + bytes)" and ?s = "with_memory ((memory s)(buf + of_nat bytes := KBbuf s ! (t * 128 + bytes))) s"
  have b: "bytes < 128" using Suc.prems(2) by auto
  then have l: "kb_load t bytes s = Some ?c" using Suc.prems(1) row_index_less [OF assms(2)] by (simp add: kb_load_def)
  have k: "KBbuf ?s = KBbuf s" by (simp add: with_memory_def)
  show ?case
  proof (cases "?c = 10")
    case False
    then have "Suc bytes + n \<le> 128 \<or> (\<exists>j. Suc bytes \<le> j \<and> j < 128 \<and> KBbuf ?s ! (t * 128 + j) = 10)"
      using Suc.prems(2) unfolding k by (metis Suc_leI add_Suc_shift le_neq_implies_less)
    with Suc.IH [of ?s "Suc bytes"] Suc.prems(1) l False show ?thesis by (simp add: k)
  qed (simp add: l)
qed simp

lemma terminalRead_finish_total:
  assumes "process_terminal s = Some t" "t < 3" "length (KBbuf s) = 384" "buf_loc s ! t \<le> 128"
    and "n \<le> 128 \<or> 10 \<in> set (kb_line t s)"
  shows "\<exists>v s'. terminalRead_finish p n s = Some (v, s')"
proof -
  let ?s = "s\<lparr>if_flag := False\<rparr>"
  have "nat n \<le> 128 \<or> (\<exists>j < 128. KBbuf s ! (t * 128 + j) = 10)"
    using assms(4,5) by (auto simp: kb_line_def)
  then have "0 + nat n \<le> 128 \<or> (\<exists>j. 0 \<le> j \<and> j < 128 \<and> KBbuf ?s ! (t * 128 + j) = 10)" by auto
  moreover have "length (KBbuf ?s) = 384" using assms(3) by simp
  ultimately obtain b s1 where "terminalRead_copy t p 0 (nat n) ?s = Some (b, s1)"
    using terminalRead_copy_total [of ?s t 0 "nat n" p] assms(2) by auto
  then show ?thesis using assms(1,2) by (simp add: terminalRead_finish_def cli_and_save_def Let_def)
qed

end
