(* ===== verification/Proper_Calls.thy ===== *)
theory Proper_Calls
  imports Process_Properties
begin

unbundle bit_operations_syntax

text \<open>
  System calls that the kernel can serve.  The kernel does not check the addresses a program passes
  beyond NULL: it reads and writes through them with its own rights, so that an address outside the
  program's page damages the kernel's data or faults inside the kernel, and descriptor 8 leads
  behind the table.  \<open>proper_call\<close> is what the calls rely on.  A proper call always has an outcome,
  and the outcome keeps the invariant.
\<close>

section \<open>Proper calls\<close>

text \<open>A string that ends inside the program's page.\<close>

definition proper_string :: "u32 \<Rightarrow> 'a sys_scheme \<Rightarrow> bool" where
  "proper_string v s \<longleftrightarrow> 0x08000000 \<le> v
     \<and> (\<exists>i < 0x08400000 - unat v. memory s (user_frame s + (v - 0x08000000) + of_nat i) = 0)"

text \<open>Every file could be loaded into a program's page, from the load address to its end.\<close>

definition programs_fit :: "'a fs_scheme \<Rightarrow> bool" where
  "programs_fit s \<longleftrightarrow> (\<forall>n < numInodes (memory s) (bootMemAddr s). inode_length (inode_at (memory s) (bootMemAddr s) n) \<le> 0x3B8000)"

definition proper_read :: "int \<Rightarrow> u32 \<Rightarrow> int \<Rightarrow> 'a sys_scheme \<Rightarrow> bool" where
  "proper_read fd buf n s \<longleftrightarrow> fd \<noteq> 8 \<and> (0 \<le> fd \<and> fd < 8 \<and> buf \<noteq> 0 \<and> 0 \<le> n \<longrightarrow>
     user_buffer buf (nat n) \<and> (fd_flags (fd_entry (nat fd) s) = DIRECTORY_FLAG \<longrightarrow> user_buffer buf MAX_FILENAME_LENGTH))"

definition proper_write :: "int \<Rightarrow> u32 \<Rightarrow> int \<Rightarrow> 'a sys_scheme \<Rightarrow> bool" where
  "proper_write fd buf n s \<longleftrightarrow> fd \<noteq> 8 \<and> (0 < fd \<and> fd < 8 \<and> buf \<noteq> 0 \<and> 0 \<le> n \<longrightarrow>
     user_buffer buf (nat n) \<and> (fd_flags (fd_entry (nat fd) s) = RTC_FLAG \<longrightarrow> user_buffer buf 4))"

definition proper_call :: "u32 \<Rightarrow> u32 \<Rightarrow> u32 \<Rightarrow> u32 \<Rightarrow> 'a sys_scheme \<Rightarrow> bool" where
  "proper_call eax ebx ecx edx s \<longleftrightarrow>
     (eax = 2 \<longrightarrow> (ebx = 0 \<or> proper_string ebx s) \<and> programs_fit s)
   \<and> (eax = 3 \<longrightarrow> proper_read (sint ebx) ecx (sint edx) s)
   \<and> (eax = 4 \<longrightarrow> proper_write (sint ebx) ecx (sint edx) s)
   \<and> (eax = 5 \<longrightarrow> ebx = 0 \<or> proper_string ebx s)
   \<and> (eax = 6 \<longrightarrow> sint ebx \<noteq> 8)
   \<and> (eax = 7 \<longrightarrow> ebx = 0 \<or> sint ecx < 0 \<or> user_buffer ebx ARG_SIZE)
   \<and> (eax = 8 \<longrightarrow> 0x08000000 \<le> ebx \<and> ebx < 0x08400000 \<longrightarrow> user_buffer ebx 4)"

section \<open>Proper calls have an outcome\<close>

lemma user_buffer_ptr: "sys_ok s \<Longrightarrow> user_buffer v n \<Longrightarrow> user_ptr v n s = Some (user_frame s + (v - 0x08000000))"
  by (simp add: user_ptr_ok user_buffer_def)

lemma read_data_total:
  assumes "image_placed s" "disjoint_regions buf (unat len) (bootMemAddr s) (image_size (memory s) (bootMemAddr s))"
  shows "\<exists>r s'. read_data n off buf len s = Some (r, s')"
proof (cases "buf \<noteq> 0 \<and> n < numInodes (memory s) (bootMemAddr s) \<and> off < inode_length (inode_at (memory s) (bootMemAddr s) n)")
  case True
  then show ?thesis using read_data_slice [of s n buf off len] assms by (simp add: image_placed_def)
next
  case False
  have nd: "ld_inode (memory s) (bootMemAddr s + 4096 * (n + 1)) = inode_at (memory s) (bootMemAddr s) n"
    by (simp only: inode_at_def)
  from False show ?thesis unfolding read_data_def Let_def nd by (auto simp: not_le not_less)
qed

lemma user_disjoint_image:
  assumes "sys_ok s" "image_placed s" "user_buffer v n"
  shows "disjoint_regions (user_frame s + (v - 0x08000000)) n (bootMemAddr s) (image_size (memory s) (bootMemAddr s))"
proof -
  have v: "0x08000000 \<le> v" "unat v + n \<le> 0x08400000" using assms(3) by (simp_all add: user_buffer_def)
  show ?thesis using user_addr_range [OF assms(1) v] by (intro image_disjoint [OF assms(2)]) simp_all
qed

lemma cstr_n_short: "i < n \<Longrightarrow> f i = 0 \<Longrightarrow> length (cstr_n f n) \<le> i"
  using nth_cstr_n [of i f n] cstr_n_nonzero [of "cstr_n f n ! i" f n] by (metis not_le nth_mem)

lemma user_str_total:
  assumes "sys_ok s" "proper_string v s"
  shows "\<exists>f. user_str v s = Some f \<and> strlen f \<noteq> None"
proof -
  let ?p = "user_frame s + (v - 0x08000000)"
  define n where "n = 0x08400000 - unat v"
  obtain i where i: "i < n" "view (memory s) ?p i = 0" and v: "0x08000000 \<le> v"
    using assms(2) by (auto simp: proper_string_def view_def n_def)
  have "strlenFile (view (memory s) ?p) n < n"
    using cstr_n_short [of i n "view (memory s) ?p"] i by (simp add: strlenFile_def strlenFile_loop_eq)
  moreover have "user_ptr v 1 s = Some ?p" using i(1) v by (simp add: user_ptr_ok [OF assms(1)] n_def)
  moreover have "\<exists>j. strlen (view (memory s) ?p) = Some j"
    using LeastI [of "\<lambda>i. view (memory s) ?p i = 0", OF i(2)] not_less_Least [of _ "\<lambda>i. view (memory s) ?p i = 0"] strlenI by blast
  ultimately show ?thesis by (auto simp: user_str_def n_def [symmetric] Let_def)
qed

lemma str_arg_total:
  assumes "sys_ok s" "v = 0 \<or> proper_string v s"
  shows "\<exists>c. str_arg v s = Some c \<and> (\<forall>f. c = Some f \<longrightarrow> strlen f \<noteq> None)"
proof (cases "v = 0")
  case False
  then obtain f where "user_str v s = Some f" "strlen f \<noteq> None" using user_str_total assms by blast
  then show ?thesis using False by (simp add: str_arg_def)
qed (simp add: str_arg_def)

lemma sys_halt_total: "sys_ok s \<Longrightarrow> \<exists>r. sys_halt status s = Some r"
proof -
  assume ok: "sys_ok s"
  obtain k where k: "cur_pid s = int k" "k < 6" using sys_okD [OF ok] by metis
  have "pcb_ok k s" using ok k by (auto simp: sys_ok_def running_def proc_inv_def)
  then consider "parent_pid (PCB_at s ! k) = -1" | q where "parent_pid (PCB_at s ! k) = int q"
    unfolding pcb_ok_def Let_def by (metis zero_le_imp_eq_int)
  then show ?thesis by cases (use sys_halt_base [OF ok k(1)] sys_halt_child [OF ok k(1)] in auto)
qed

lemma sys_open_total: "sys_ok s \<Longrightarrow> \<exists>r s'. sys_open d0 name s = Some (r, s')"
proof -
  assume ok: "sys_ok s"
  obtain k where k: "cur_pid s = int k" "k < 6" using sys_okD [OF ok] by metis
  note c = sys_open_cases [OF ok k(1), where dinit = d0]
  let ?i = "free_fd (process_fdt (PCB_at s ! k)) 2"
  have i: "?i = 8 \<or> ?i < 8" using free_fd_spec [of 2 "process_fdt (PCB_at s ! k)"] by auto
  show ?thesis
  proof (cases name)
    case None
    then show ?thesis using c(1) by simp
  next
    case (Some nm)
    show ?thesis
    proof (cases "special_name nm")
      case True
      then show ?thesis using c(2,3) [where name = nm] Some by (cases "strncmp nm (str_view ''stdin'') 5 = 0") (auto simp: special_name_def)
    next
      case False
      show ?thesis
      proof (cases "lookup nm s")
        case None
        then show ?thesis using c(4) [OF False] Some by blast
      next
        case look: (Some d)
        then show ?thesis using i c(4,5,6) [OF False] Some by (cases "fileType d \<le> 2") (fastforce simp: not_le)+
      qed
    qed
  qed
qed

lemma sys_close_total: "sys_ok s \<Longrightarrow> fd \<noteq> 8 \<Longrightarrow> \<exists>r s'. sys_close fd s = Some (r, s')"
proof -
  assume ok: "sys_ok s" and fd: "fd \<noteq> 8"
  obtain k where "cur_pid s = int k" using sys_okD [OF ok] by metis
  from sys_close_result [OF ok this, of fd] fd show ?thesis by auto
qed

lemma sys_getargs_total:
  assumes "sys_ok s" "buf = 0 \<or> n < 0 \<or> user_buffer buf ARG_SIZE"
  shows "\<exists>r s'. sys_getargs buf n s = Some (r, s')"
proof -
  obtain k where "pcb_place (cur_pid s) s = Some k" using sys_okD [OF assms(1)] by metis
  then show ?thesis using assms user_buffer_ptr [OF assms(1), of buf 128] by (auto simp: sys_getargs_def pcb_of_def Let_def)
qed

lemma sys_vidmap_total:
  assumes "sys_ok s" "0x08000000 \<le> v \<and> v < 0x08400000 \<longrightarrow> user_buffer v 4"
  shows "\<exists>r s'. sys_vidmap v s = Some (r, s')"
proof -
  obtain k where "pcb_place (cur_pid s) s = Some k" using sys_okD [OF assms(1)] by metis
  then show ?thesis using assms user_buffer_ptr [OF assms(1), of v 4] by (auto simp: sys_vidmap_def pcb_of_def not_le not_less)
qed

text \<open>The entry of a descriptor and what can be in it.\<close>

lemma descriptor:
  assumes "sys_ok s" "0 \<le> fd" "fd < 8"
  obtains k where "fdt s = Some k" "fdt_get k (nat fd) s = Some (fd_entry (nat fd) s)" "fd_ok (nat fd) (fd_entry (nat fd) s)"
proof -
  obtain k where k: "cur_pid s = int k" "fdt s = Some k" "fdt_wf (process_fdt (PCB_at s ! k))" using sys_okD [OF assms(1)] by metis
  have "fdt_get k (nat fd) s = Some (fd_entry (nat fd) s)" using k assms by (simp add: fdt_get_wf fd_entry_def)
  with k fdt_get_ok [OF k(3)] that show thesis by blast
qed

lemma sys_read_total:
  assumes "sys_ok s" "image_placed s" "proper_read fd buf n s" "n < 2 ^ 31"
  shows "\<exists>r. sys_read d0 fd buf n s = Some r"
proof (cases "fd = 1 \<or> fd > 8 \<or> fd < 0 \<or> buf = 0 \<or> n < 0")
  case True
  then show ?thesis by (auto simp: sys_read_def)
next
  case False
  have fd: "0 \<le> fd" "fd < 8" "fd \<noteq> 1" using False assms(3) by (auto simp: proper_read_def)
  have buf: "user_buffer buf (nat n)" "fd_flags (fd_entry (nat fd) s) = DIRECTORY_FLAG \<Longrightarrow> user_buffer buf 32"
    using False fd assms(3) by (auto simp: proper_read_def)
  let ?e = "fd_entry (nat fd) s" and ?p = "user_frame s + (buf - 0x08000000)"
  obtain k where k: "fdt s = Some k" "fdt_get k (nat fd) s = Some ?e" "fd_ok (nat fd) ?e" using descriptor [OF assms(1) fd(1,2)] .
  obtain t where t: "process_terminal s = Some t" "t < 3" using sys_okD [OF assms(1)] by metis
  have p: "user_ptr buf (nat n) s = Some ?p" using user_buffer_ptr [OF assms(1) buf(1)] .
  have sn: "unat (of_int n :: u32) = nat n" using False assms(4) unat_of_nat_32 [of "nat n"] by simp
  have fil: "\<exists>r. call_read d0 Fn_fileRead fd buf n s = Some r"
  proof -
    have "disjoint_regions ?p (unat (of_int n :: u32)) (bootMemAddr s) (image_size (memory s) (bootMemAddr s))"
      unfolding sn by (rule user_disjoint_image [OF assms(1,2) buf(1)])
    from read_data_total [OF assms(2) this, of "fd_inodeNum ?e" "file_position ?e"]
    obtain r s' where "read_data (fd_inodeNum ?e) (file_position ?e) ?p (of_int n) s = Some (r, s')" by blast
    then show ?thesis using fd k p by (simp add: call_read_def fileRead_def)
  qed
  have dir: "\<exists>r. call_read d0 Fn_directoryRead fd buf n s = Some r" if "fd_flags ?e = DIRECTORY_FLAG"
  proof -
    have "user_ptr buf 32 s = Some ?p" using user_buffer_ptr [OF assms(1) buf(2) [OF that]] .
    then show ?thesis using fd k by (simp add: call_read_def directoryRead_def Let_def split: prod.splits)
  qed
  have "user_ptr buf (nat n) (s\<lparr>readWaiting := x\<rparr>) = Some ?p" for x
  proof -
    have "sys_ok (s\<lparr>readWaiting := x\<rparr>)" using assms(1) proc_same_ok [of s "s\<lparr>readWaiting := x\<rparr>"] by (simp add: proc_same_def)
    from user_buffer_ptr [OF this buf(1)] show ?thesis by (simp add: user_frame_def)
  qed
  then have trm: "\<exists>r. call_read d0 Fn_terminalRead fd buf n s = Some r" using False t by (simp add: call_read_def terminalRead_start_def)
  have rtc: "\<exists>r. call_read d0 Fn_RTCRead fd buf n s = Some r" using t by (simp add: call_read_def RTCRead_start_def)
  have "fops_ready s" using assms(1) by (simp add: sys_ok_def proc_inv_def)
  then have f: "fn_read (stdin_fops s) = Fn_terminalRead" "fn_read (regfile_fops s) = Fn_fileRead"
      "fn_read (directory_fops s) = Fn_directoryRead" "fn_read (RTC_fops s) = Fn_RTCRead" by (simp_all add: fops_ready_def)
  have i: "nat fd = 0 \<longleftrightarrow> fd = 0" "nat fd \<noteq> 1" using fd by auto
  have g: "sys_read d0 fd buf n s = (if fd_flags ?e = 0 then Some (Ret (-1) s)
      else fops_pointer ?e \<bind> (\<lambda>f. call_read d0 (fn_read (fops_of f s)) fd buf n s))"
    using False fd k(1,2) by (simp add: sys_read_def)
  show ?thesis unfolding g
    using k(3) i fil dir trm rtc by (auto simp: fd_ok_def fops_of_def f split: if_splits)
qed

lemma terminalWrite_loop_total:
  "process_terminal s = Some t \<Longrightarrow> t < 3 \<Longrightarrow> \<exists>s'. terminalWrite_loop buf i n s = Some s'"
  by (induction n arbitrary: i s) (simp_all add: putc_def)

lemma sys_write_total:
  assumes "sys_ok s" "proper_write fd buf n s"
  shows "\<exists>r s'. sys_write fd buf n s = Some (r, s')"
proof (cases "fd \<le> 0 \<or> fd > 8 \<or> buf = 0 \<or> n < 0")
  case True
  then show ?thesis by (auto simp: sys_write_def)
next
  case False
  have fd: "0 \<le> fd" "fd < 8" "fd \<noteq> 0" using False assms(2) by (auto simp: proper_write_def)
  have buf: "user_buffer buf (nat n)" "fd_flags (fd_entry (nat fd) s) = RTC_FLAG \<Longrightarrow> user_buffer buf 4"
    using False fd assms(2) by (auto simp: proper_write_def)
  let ?e = "fd_entry (nat fd) s" and ?p = "user_frame s + (buf - 0x08000000)"
  obtain k where k: "fdt s = Some k" "fdt_get k (nat fd) s = Some ?e" "fd_ok (nat fd) ?e" using descriptor [OF assms(1) fd(1,2)] .
  obtain t where t: "process_terminal s = Some t" "t < 3" using sys_okD [OF assms(1)] by metis
  have "process_terminal (s\<lparr>if_flag := False\<rparr>) = Some t" using t(1) process_terminal_cong [of "s\<lparr>if_flag := False\<rparr>" s] by simp
  then have "\<exists>s'. terminalWrite ?p n s = Some (n, s')"
    using terminalWrite_loop_total [of "s\<lparr>if_flag := False\<rparr>" t ?p 0 "nat n"] t(2) by (auto simp: terminalWrite_def cli_and_save_def)
  then have trm: "\<exists>r s'. call_write Fn_terminalWrite buf n s = Some (r, s')"
    using user_buffer_ptr [OF assms(1) buf(1)] by (auto simp: call_write_def)
  have rtc: "\<exists>r s'. call_write Fn_RTCWrite buf n s = Some (r, s')" if "fd_flags ?e = RTC_FLAG"
    using user_buffer_ptr [OF assms(1) buf(2) [OF that]] by (cases "RTCWrite ?p s") (simp add: call_write_def)
  have fil: "\<exists>r s'. call_write Fn_fileWrite buf n s = Some (r, s')" "\<exists>r s'. call_write Fn_directoryWrite buf n s = Some (r, s')"
    by (simp_all add: call_write_def fileWrite_def directoryWrite_def)
  have "fops_ready s" using assms(1) by (simp add: sys_ok_def proc_inv_def)
  then have f: "fn_write (stdout_fops s) = Fn_terminalWrite" "fn_write (regfile_fops s) = Fn_fileWrite"
      "fn_write (directory_fops s) = Fn_directoryWrite" "fn_write (RTC_fops s) = Fn_RTCWrite" by (simp_all add: fops_ready_def)
  have i: "nat fd \<noteq> 0" "nat fd = 1 \<longleftrightarrow> fd = 1" using fd by auto
  have g: "sys_write fd buf n s = (if fd_flags ?e = 0 then Some (-1, s) else fops_pointer ?e \<bind> (\<lambda>f. call_write (fn_write (fops_of f s)) buf n s))"
    using False fd k(1,2) by (simp add: sys_write_def)
  show ?thesis unfolding g
    using k(3) i trm rtc fil by (auto simp: fd_ok_def fops_of_def f split: if_splits)
qed

text \<open>Loading never fails once the header has been read.\<close>

lemma exec_load_total:
  assumes "can_start s" "p < 6" "PCB_ptrs s ! p = None" "image_placed s"
    and "inode_length (inode_at (memory s) (bootMemAddr s) n) \<le> 0x3B8000"
  shows "\<exists>r. exec_load loc p n (entered p (new_pcb p args s) s) = Some r"
proof -
  let ?s = "entered p (new_pcb p args s) s" and ?l = "inode_length (inode_at (memory s) (bootMemAddr s) n)"
  have "length (page_directory s) = 1024" using assms(1) by (simp add: can_start_def proc_inv_def)
  then have t: "tlb_dir ?s ! 32 = process_page p" "memory ?s = memory s" "bootMemAddr ?s = bootMemAddr s"
    by (simp_all add: entered_def clearTLB_def)
  have ip: "image_placed ?s" using assms(4) t by (simp add: image_placed_def)
  have "unat (min FOUR_MB ?l) \<le> 0x3B8000" using assms(5) by (simp add: min_def word_le_nat_alt)
  then have q: "user_ptr PROGRAM_INIT_VIRTUAL_ADDR (unat (min FOUR_MB ?l)) ?s = Some (load_address p)"
    by (simp add: user_ptr_process [OF t(1) assms(2)] load_address_def)
  have "disjoint_regions (load_address p) (unat FOUR_MB) (bootMemAddr ?s) (image_size (memory ?s) (bootMemAddr ?s))"
    using unat_load_address [OF assms(2)] assms(2) by (intro image_disjoint [OF ip]) auto
  from read_data_total [OF ip this, of n 0] q t show ?thesis by (auto simp: exec_load_def Let_def)
qed

lemma exec_checked_total:
  assumes "can_start s" "image_placed s" "kernel_local (testBuffer_at loc) 4 s" "kernel_local (program_eip_at loc) 4 s" "programs_fit s"
    and "p < 6" "PCB_ptrs s ! p = None"
  shows "\<exists>r. exec_checked loc p args n s = Some r"
proof -
  have d: "disjoint_regions (testBuffer_at loc) (unat (4 :: u32)) (bootMemAddr s) (image_size (memory s) (bootMemAddr s))"
    using assms(3) by (simp add: kernel_local_def)
  obtain r1 s1 where r1: "read_data n 0 (testBuffer_at loc) 4 s = Some (r1, s1)" using read_data_total [OF assms(2) d] by blast
  obtain m1 where m1: "s1 = with_memory m1 s" "same_image (bootMemAddr s) (memory s) m1" "image_placed s1"
      "r1 = -1 \<longleftrightarrow> testBuffer_at loc = 0 \<or> numInodes (memory s) (bootMemAddr s) \<le> n"
    using read_data_frame [OF assms(2) d r1] by auto
  show ?thesis
  proof (cases "r1 = -1 \<or> \<not> is_elf (memory s1) (testBuffer_at loc)")
    case True
    then show ?thesis using r1 by (auto simp: exec_checked_def)
  next
    case False
    have "kernel_local (program_eip_at loc) 4 s1" by (rule kernel_local_same [OF assms(4) m1(2)]) (simp_all add: m1(1))
    then have d1: "disjoint_regions (program_eip_at loc) (unat (4 :: u32)) (bootMemAddr s1) (image_size (memory s1) (bootMemAddr s1))"
      by (simp add: kernel_local_def)
    obtain r2 s2 where r2: "read_data n 24 (program_eip_at loc) 4 s1 = Some (r2, s2)" using read_data_total [OF m1(3) d1] by blast
    obtain m2 where m2: "s2 = with_memory m2 s1" "same_image (bootMemAddr s1) (memory s1) m2" "image_placed s2"
      using read_data_frame [OF m1(3) d1 r2] by auto
    have s2: "s2 = with_memory m2 s" by (simp add: m2(1) m1(1) with_memory_def)
    have cs: "can_start s2"
      using assms(1) proc_same_inv [OF proc_same_with_memory, of m2 s] proc_same_running [OF proc_same_with_memory, of m2 s]
      by (simp add: can_start_def s2) (simp add: with_memory_def)
    have f2: "PCB_ptrs s2 ! p = None" using assms(7) by (simp add: s2 with_memory_def)
    have si: "same_image (bootMemAddr s) (memory s) m2" using same_image_trans [OF m1(2)] m2(2) by (simp add: m1(1))
    have n: "n < numInodes (memory s) (bootMemAddr s)" using m1(4) False by (simp add: not_le)
    then have "inode_length (inode_at (memory s2) (bootMemAddr s2) n) \<le> 0x3B8000"
      using assms(5) same_image_inode [OF si n] by (simp add: programs_fit_def s2)
    from exec_load_total [OF cs assms(6) f2 m2(3) this, of loc args] exec_pcb_eq [OF cs assms(6) f2] False r1 r2
    show ?thesis by (cases "r2 = -1") (simp_all add: exec_checked_def)
  qed
qed

lemma sys_execute_total:
  assumes "can_start s" "image_placed s" "kernel_local (testBuffer_at loc) 4 s" "kernel_local (program_eip_at loc) 4 s" "programs_fit s"
    and "\<forall>f. c = Some f \<longrightarrow> strlen f \<noteq> None"
  shows "\<exists>r. sys_execute loc c s = Some r"
proof (cases c)
  case (Some f)
  let ?p = "free_pid (PCB_ptrs s) 0"
  have p: "?p = 6 \<or> ?p < 6 \<and> PCB_ptrs s ! ?p = None" using free_pid_spec [of 0 "PCB_ptrs s"] by auto
  obtain n where n: "strlen f = Some n" using assms(6) Some by auto
  have "length (command_name f) \<le> n"
    using n command_name_facts(3) [of n f] by (metis not_le strlen_iff)
  from skip_spaces_found [OF n this] obtain j where j: "skip_spaces f (length (command_name f)) = Some j" by blast
  have x: "\<exists>r. exec_checked loc ?p args k s = Some r" if "?p \<noteq> 6" for args k
    using exec_checked_total [OF assms(1-5)] p that by blast
  show ?thesis
    using p j x by (auto simp: sys_execute_def Some parse_fname_eq Let_def split: prod.splits)
qed (simp add: sys_execute_def)

lemma proper_call_total:
  assumes "sys_ok s" "image_placed s" "kernel_local (testBuffer_at loc) 4 s" "kernel_local (program_eip_at loc) 4 s"
    and "proper_call eax ebx ecx edx s"
  shows "\<exists>r. syscall loc eax ebx ecx edx s = Some r"
proof -
  have cs: "can_start s" using assms(1) by (simp add: can_start_def sys_ok_def)
  have ret: "\<exists>r. ret_of x = Some r" if "\<exists>v k. x = Some (v, k)" for x :: "(int \<times> 'a sys_scheme) option" using that by (auto simp: ret_of_def)
  have sm: "sint edx < 2 ^ 31" using sint_lt [of edx] by simp
  note p = assms(5) [unfolded proper_call_def]
  have ex: "\<exists>r. (do { c \<leftarrow> str_arg ebx s; sys_execute loc c s }) = Some r" if e: "eax = 2"
  proof -
    obtain c where c: "str_arg ebx s = Some c" "\<forall>f. c = Some f \<longrightarrow> strlen f \<noteq> None"
      using str_arg_total [OF assms(1), of ebx] p e by blast
    have "programs_fit s" using p e by blast
    from sys_execute_total [OF cs assms(2-4) this c(2)] c(1) show ?thesis by simp
  qed
  have op: "\<exists>r. (do { c \<leftarrow> str_arg ebx s; ret_of (sys_open (dentry_init loc) c s) }) = Some r" if e: "eax = 5"
  proof -
    obtain c where c: "str_arg ebx s = Some c" using str_arg_total [OF assms(1), of ebx] p e by blast
    from ret [OF sys_open_total [OF assms(1), of "dentry_init loc" c]] c show ?thesis by simp
  qed
  have rd: "\<exists>r. sys_read (dentry_init loc) (sint ebx) ecx (sint edx) s = Some r" if "eax = 3"
    using p that sys_read_total [OF assms(1,2) _ sm] by blast
  have wr: "\<exists>r. ret_of (sys_write (sint ebx) ecx (sint edx) s) = Some r" if "eax = 4"
    using p that ret [OF sys_write_total [OF assms(1)]] by blast
  have cl: "\<exists>r. ret_of (sys_close (sint ebx) s) = Some r" if "eax = 6"
    using p that ret [OF sys_close_total [OF assms(1)]] by blast
  have ga: "\<exists>r. ret_of (sys_getargs ebx (sint ecx) s) = Some r" if "eax = 7"
    using p that ret [OF sys_getargs_total [OF assms(1)]] by blast
  have vm: "\<exists>r. ret_of (sys_vidmap ebx s) = Some r" if "eax = 8"
    using p that ret [OF sys_vidmap_total [OF assms(1)]] by blast
  have no: "\<exists>r. ret_of (Some (sys_sethandler s)) = Some r" "\<exists>r. ret_of (Some (sys_sigreturn s)) = Some r"
    by (simp_all add: ret_of_def)
  show ?thesis unfolding syscall_def using sys_halt_total [OF assms(1)] ex op rd wr cl ga vm no by (simp split: if_splits)
qed

section \<open>Property\<close>

text \<open>
  C26: every proper system call is answered, and the invariant of the process and descriptor tables is
  kept.  A call is proper when what the kernel uses without checking is right: buffers and strings lie
  in the calling program's page (as many bytes as the call can touch), the descriptor is not 8, one
  past the table, and, for execute, no program file is longer than the page.  Such a call of a running
  process has an outcome: it returns, waits for a device, enters a program or resumes a parent, and
  then the process tables are sound and the process running has its own descriptor table, page and
  kernel stack; or the last program of a thread has halted, the tables are sound and no process
  runs.  All numbers and all other argument values are covered.  The call runs without interruption.
\<close>

theorem syscall_keeps_invariant:
  assumes "sys_ok s" "image_placed s" "kernel_local (testBuffer_at loc) 4 s" "kernel_local (program_eip_at loc) 4 s"
    and "proper_call eax ebx ecx edx s"
  shows "\<exists>r. syscall loc eax ebx ecx edx s = Some r \<and> (case r of HaltSpin s' \<Rightarrow> proc_inv s' | _ \<Rightarrow> sys_ok (sysret_state r))"
  using proper_call_total [OF assms] syscall_inv [OF assms(1-4)] by blast

theorem syscall_keeps_invariant_witness:
  "\<exists>r. syscall demo_locals 3 2 0x08100000 32 demo_sys = Some r \<and> (case r of HaltSpin s' \<Rightarrow> proc_inv s' | _ \<Rightarrow> sys_ok (sysret_state r))"
proof -
  have "kernel_local (testBuffer_at demo_locals) 4 demo_sys" "kernel_local (program_eip_at demo_locals) 4 demo_sys"
    by (simp_all add: kernel_local_def demo_locals_def demo_sys_sel image_size_def demo_counts disjoint_regions_def)
  moreover have "proper_call 3 2 0x08100000 32 demo_sys" by (simp add: proper_call_def proper_read_def user_buffer_def)
  ultimately show ?thesis by (rule syscall_keeps_invariant [OF demo_sys_ok demo_sys_image])
qed

end
