(* ===== verification/Kernel.thy ===== *)
theory Kernel
  imports Kernel_Frames Proper_Calls
begin

unbundle bit_operations_syntax

text \<open>
  The kernel as a whole: system calls, exceptions, the three interrupt handlers and the code of user
  programs as events on the scheduler's state, sequences of them, and the invariant that the kernel keeps
  as long as the events meet the conditions its code relies on.
\<close>

section \<open>Events\<close>

definition same_files :: "sys \<Rightarrow> sys \<Rightarrow> bool" where
  "same_files k k' \<longleftrightarrow> bootMemAddr k' = bootMemAddr k \<and> same_image (bootMemAddr k) (memory k) (memory k')"

lemma same_files_refl [simp]: "same_files k k"
  by (simp add: same_files_def)

lemma same_files_trans: "same_files a b \<Longrightarrow> same_files b c \<Longrightarrow> same_files a c"
  by (auto simp: same_files_def intro: same_image_trans)

lemma quiet_files: "quiet k k' \<Longrightarrow> same_files k k'"
  by (simp add: quiet_def same_files_def)

definition thread_runs :: "sched \<Rightarrow> bool" where
  "thread_runs s \<longleftrightarrow> shellStarted (kern s) ! curThread (kern s)"

text \<open>
  What can happen to the machine: a timer, keyboard or clock interrupt; a system call of the running
  program with its four registers; the end of the wait for a line, for the buffer and size of that
  read; exception \<open>n\<close> of the running program, with the addresses of its message and of the buffer
  of \<^verbatim>\<open>printf\<close>; or instructions of the program, after which the memory is \<open>m\<close> and the stack registers are as
  given.
\<close>

datatype event = Tick | Key | Clock | Call u32 u32 u32 u32 | Line u32 int | Trap nat u32 u32 | Run mem u32 u32

text \<open>The outcome of an event; None when the kernel faults, or reads or writes what the model does not hold.\<close>

fun deliver :: "exec_locals \<Rightarrow> event \<Rightarrow> sched \<Rightarrow> sched option" where
  "deliver loc Tick s = map_option pit_state (PIThandler loc s)"
| "deliver loc Key s = map_option (\<lambda>k. s\<lparr>kern := k\<rparr>) (KBhandler (kern s))"
| "deliver loc Clock s = Some (s\<lparr>kern := RTChandler (kern s)\<rparr>)"
| "deliver loc (Call eax ebx ecx edx) s = map_option (\<lambda>r. s\<lparr>kern := sysret_state r\<rparr>) (syscall loc eax ebx ecx edx (kern s))"
| "deliver loc (Line buf n) s = do {
     p \<leftarrow> user_ptr buf (nat n) (kern s);
     (v, k) \<leftarrow> terminalRead_finish p n (kern s);
     Some (s\<lparr>kern := k\<rparr>)
   }"
| "deliver loc (Trap n message conv_buf) s =
     map_option (\<lambda>r. s\<lparr>kern := sysret_state r\<rparr>) (exception_handler conv_buf message (kern s))"
| "deliver loc (Run m a b) s = Some (s\<lparr>kern := (kern s)\<lparr>memory := m, cpu_esp := a, cpu_ebp := b\<rparr>\<rparr>)"

text \<open>
  The events the kernel is written for.  It does not check these conditions itself: Enter does not
  arrive for a line that is full; calls are proper; a read asked for at most a row of the line buffer,
  or the line still has its newline (Backspace can take it away again); exceptions come from programs that have a parent
  (after one in a base shell the machine stops).  That the program's own instructions write only its
  page and video memory is what the page tables enforce.
\<close>

fun allowed :: "event \<Rightarrow> sched \<Rightarrow> bool" where
  "allowed Tick s = True"
| "allowed Key s = (buf_loc (kern s) ! currentTerminal (kern s) < BUF_SIZE \<or> io_in (kern s) (io_pos (kern s)) \<noteq> 0x1C)"
| "allowed Clock s = True"
| "allowed (Call eax ebx ecx edx) s = (thread_runs s \<and> proper_call eax ebx ecx edx (kern s))"
| "allowed (Line buf n) s = (thread_runs s \<and> terminalRead_ready (kern s) = Some True \<and> user_buffer buf (nat n)
     \<and> (n \<le> int BUF_SIZE \<or> 10 \<in> set (kb_line (curThread (kern s)) (kern s))))"
| "allowed (Trap n message conv_buf) s = (thread_runs s \<and> parent_pid (PCB_at (kern s) ! nat (cur_pid (kern s))) \<noteq> -1
     \<and> string_at (memory (kern s)) message (exception_message n))"
| "allowed (Run m a b) s = (thread_runs s
     \<and> (\<forall>x. \<not> in_region (user_frame (kern s)) 0x400000 x \<and> \<not> in_video x \<longrightarrow> m x = memory (kern s) x))"

text \<open>A sequence of events, and when each of them is allowed in the state it meets.\<close>

fun run :: "exec_locals \<Rightarrow> event list \<Rightarrow> sched \<Rightarrow> sched option" where
  "run loc [] s = Some s"
| "run loc (e # es) s = deliver loc e s \<bind> run loc es"

fun behaved :: "exec_locals \<Rightarrow> event list \<Rightarrow> sched \<Rightarrow> bool" where
  "behaved loc [] s = True"
| "behaved loc (e # es) s = (allowed e s \<and> (case deliver loc e s of None \<Rightarrow> True | Some s' \<Rightarrow> behaved loc es s'))"

lemma kernel_ok_quiet:
  assumes "kernel_ok loc prog s" "quiet (kern s) k" "proc_inv k" "thread_runs s \<Longrightarrow> running k"
  shows "kernel_ok loc prog (s\<lparr>kern := k\<rparr>)"
proof -
  have q: "PCB_ptrs k = PCB_ptrs (kern s)" "\<And>p. parent_pid (PCB_at k ! p) = parent_pid (PCB_at (kern s) ! p)"
      "\<And>p. parent_terminal (PCB_at k ! p) = parent_terminal (PCB_at (kern s) ! p)" "cur_pid k = cur_pid (kern s)"
      "curThread k = curThread (kern s)" "shellStarted k = shellStarted (kern s)" "bootMemAddr k = bootMemAddr (kern s)"
      "same_image (bootMemAddr (kern s)) (memory (kern s)) (memory k)" "term_wf k"
    using assms(2) by (simp_all add: quiet_def)
  have r: "system_ready loc prog (kern s)" using assms(1) by (simp add: kernel_ok_def)
  have "system_ready loc prog k" by (rule system_ready_same [OF r q(8,7) assms(3) q(9)])
  moreover have "parked k t x = parked (kern s) t x" for t x by (rule parked_cong [OF q(1-3)])
  moreover have "current_ok (kern s)" using assms(1) by (simp add: kernel_ok_def threads_ok_def)
  then have "current_ok k" using assms(4) unfolding current_ok_def thread_runs_def q by auto
  ultimately show ?thesis using assms(1) by (simp add: kernel_ok_def threads_ok_def q)
qed

lemma kernel_ok_runs:
  assumes "kernel_ok loc prog s" "thread_runs s"
  shows "sys_ok (kern s)" "term_wf (kern s)" "image_placed (kern s)" "kernel_local (testBuffer_at loc) 4 (kern s)"
    "kernel_local (program_eip_at loc) 4 (kern s)" "parent_terminal (PCB_at (kern s) ! nat (cur_pid (kern s))) = curThread (kern s)"
  using assms by (simp_all add: kernel_ok_def system_ready_def threads_ok_def current_ok_def thread_runs_def sys_ok_def)

lemma not_parked_current:
  assumes "kernel_ok loc prog s" "thread_runs s" "t < 3" "t \<noteq> curThread (kern s)"
  shows "cur_pid (kern s) \<noteq> int (unat (PIDstore s ! t))" "parked (kern s) t (PIDstore s ! t)"
proof -
  show p: "parked (kern s) t (PIDstore s ! t)" using assms by (simp add: kernel_ok_def threads_ok_def)
  then show "cur_pid (kern s) \<noteq> int (unat (PIDstore s ! t))" using kernel_ok_runs(6) [OF assms(1,2)] assms(4) by (auto simp: parked_def)
qed

lemma execute_kernel_ok:
  assumes "kernel_ok loc prog s" "thread_runs s" "sys_execute loc c (kern s) = Some r"
  shows "kernel_ok loc prog (s\<lparr>kern := sysret_state r\<rparr>) \<and> same_files (kern s) (sysret_state r)"
proof -
  note k = kernel_ok_runs [OF assms(1,2)]
  have cs: "can_start (kern s)" "proc_inv (kern s)" using k(1) by (simp_all add: can_start_def sys_ok_def)
  consider m where "r = Ret ERROR_VAL (with_memory m (kern s))" "same_image (bootMemAddr (kern s)) (memory (kern s)) m"
    | eip p args m where "r = EnterUser eip (launched p args m (kern s))" "p < 6" "PCB_ptrs (kern s) ! p = None"
        "same_image (bootMemAddr (kern s)) (memory (kern s)) m"
    using sys_execute_inv [OF cs(1) k(3-5) assms(3)] by blast
  then show ?thesis
  proof cases
    case 1
    then show ?thesis
      using kernel_ok_quiet [OF assms(1) quiet_with_memory [OF k(2) 1(2)]] k(1)
        proc_same_ok [OF proc_same_with_memory, of m "kern s"] by (simp add: sys_ok_def same_files_def)
  next
    case 2
    let ?k = "launched p args m (kern s)"
    have ok: "sys_ok ?k" by (rule launched_ok [OF cs(1) 2(2,3)])
    note l = launched_facts [OF cs(2) 2(2), where args = args and m = m]
    have r: "system_ready loc prog (kern s)" using assms(1) by (simp add: kernel_ok_def)
    have f: "same_image (bootMemAddr (kern s)) (memory (kern s)) (memory ?k)" "proc_inv ?k" "term_wf ?k"
      using 2(4) ok k(2) by (simp_all add: l(4) sys_ok_def term_wf_launched)
    have rdy: "system_ready loc prog ?k" by (rule system_ready_same [OF r f(1) l(5) f(2,3)])
    have "parked ?k t (PIDstore s ! t)" if "t < 3" "t \<noteq> curThread (kern s)" for t
      using not_parked_current [OF assms(1,2) that] by (intro parked_launched [OF _ cs(2) 2(2,3)])
    moreover have "cur_pid (kern s) \<noteq> -1" using k(1) by (simp add: sys_ok_def running_def)
    then have "current_ok ?k" using ok k(6) assms(2) by (simp add: current_ok_def l sys_ok_def start_terminal_def thread_runs_def)
    moreover have "threads_ok s" using assms(1) by (simp add: kernel_ok_def)
    ultimately have "threads_ok (s\<lparr>kern := ?k\<rparr>)" unfolding threads_ok_def by (simp add: l)
    with rdy show ?thesis unfolding 2(1) using 2(4) by (simp add: kernel_ok_def same_files_def l)
  qed
qed

lemma halt_kernel_ok:
  assumes "kernel_ok loc prog s" "thread_runs s" "sys_halt status (kern s) = Some r"
  shows "kernel_ok loc prog (s\<lparr>kern := sysret_state r\<rparr>) \<and> same_files (kern s) (sysret_state r)"
proof -
  note k = kernel_ok_runs [OF assms(1,2)]
  obtain p where p: "cur_pid (kern s) = int p" "p < 6" using sys_okD [OF k(1)] by metis
  have "pcb_ok p (kern s)" using k(1) p by (auto simp: sys_ok_def running_def proc_inv_def)
  then consider "parent_pid (PCB_at (kern s) ! p) = -1" | q where "parent_pid (PCB_at (kern s) ! p) = int q"
    unfolding pcb_ok_def Let_def by (metis zero_le_imp_eq_int)
  then show ?thesis
  proof cases
    case 1
    let ?k = "(halted status p (kern s))\<lparr>shellStarted := (shellStarted (kern s))[curThread (kern s) := False]\<rparr>"
    have "sysret_state r = ?k" using assms(3) sys_halt_base [OF k(1) p(1) 1, of status] by auto
    moreover have "same_files (kern s) ?k" by (simp add: same_files_def halted_def)
    ultimately show ?thesis
      using kernel_ok_halted [OF assms(1) _ p(1), of status] assms(2) by (simp add: thread_runs_def)
  next
    case 2
    let ?k = "clearTLB ((halted status p (kern s))\<lparr>page_directory := (page_directory (kern s))[PROCESS_PAGING_INDEX := process_page q],
        fdt := Some q, cur_pid := int q, tss_esp0 := kernel_stack q\<rparr>)"
    have r: "sysret_state r = ?k" using assms(3) sys_halt_child [OF k(1) p(1) 2, of status] by auto
    have ok: "sys_ok ?k" by (rule sys_halt_child_inv [OF k(1) p(1) 2])
    have f: "PCB_at ?k = PCB_at (kern s)" "PCB_ptrs ?k = (PCB_ptrs (kern s))[p := None]" "curThread ?k = curThread (kern s)"
        "shellStarted ?k = shellStarted (kern s)" "memory ?k = memory (kern s)" "bootMemAddr ?k = bootMemAddr (kern s)" "cur_pid ?k = int q"
      by (simp_all add: clearTLB_def halted_def)
    have w: "term_wf ?k" using k(2) by (simp add: term_wf_def console_wf_def clearTLB_def halted_def)
    have th: "threads_ok s" "length (PCB_ptrs (kern s)) = 6"
      using assms(1) by (simp_all add: kernel_ok_def system_ready_def proc_inv_def proc_wf_def)
    have rdy: "system_ready loc prog (kern s)" "proc_inv ?k" using assms(1) ok by (simp_all add: kernel_ok_def sys_ok_def)
    have si: "same_image (bootMemAddr (kern s)) (memory (kern s)) (memory ?k)" by (simp add: f)
    have park: "parked ?k t (PIDstore s ! t)" if "t < 3" "t \<noteq> curThread (kern s)" for t
    proof -
      note n = not_parked_current [OF assms(1,2) that]
      have "parked (halted status p (kern s)) t (PIDstore s ! t)" using n p(1) by (intro parked_halted [OF n(2) _ th(2)]) auto
      then show ?thesis using parked_cong [of ?k "halted status p (kern s)" t] by (simp add: f) (simp add: halted_def)
    qed
    have "current_ok ?k"
      using ok halt_chain(5) [OF k(1) p(1) 2] k(6) p(1) assms(2) by (simp add: current_ok_def f sys_ok_def thread_runs_def)
    with th(1) park have "threads_ok (s\<lparr>kern := ?k\<rparr>)" by (simp add: threads_ok_def f)
    moreover have "system_ready loc prog ?k" by (rule system_ready_same [OF rdy(1) si f(6) rdy(2) w])
    ultimately show ?thesis unfolding r by (simp add: kernel_ok_def same_files_def f)
  qed
qed

lemma exception_quiet:
  fixes s :: sys
  assumes "sys_ok s" "term_wf s" "image_placed s" "cur_pid s = int k" "t < 3"
  shows "quiet s (upd_pcb k (\<lambda>b. b\<lparr>exception_flag := True\<rparr>) (putc_list t cs (s\<lparr>if_flag := False\<rparr>)))" (is "quiet s (upd_pcb k ?f ?r)")
proof -
  let ?s = "s\<lparr>if_flag := False\<rparr>"
  have w: "term_wf ?s" using assms(2) by (simp add: term_wf_def console_wf_def)
  have o: "out_only ?s ?r" by (rule out_only_putc_list)
  have r: "term_wf ?r" using w assms(5) by (intro term_wf_out_only [OF w o] putc_list_wf) (simp_all add: term_wf_def)
  have k: "k < length (PCB_at s)" using sys_okD [OF assms(1)] assms(1,4) unfolding sys_ok_def proc_inv_def proc_wf_def by (metis of_nat_eq_iff)
  have "proc_same ?s ?r" by (rule proc_same_out_only [OF o])
  moreover have "same_image (bootMemAddr s) (memory s) (memory ?r)"
    using w assms(5) putc_list_outside [of ?s t _ cs] by (intro same_image_video [OF assms(3)]) (simp add: term_wf_def)
  moreover have "term_wf (upd_pcb k ?f ?r)" using r by (simp add: upd_pcb_def term_wf_def console_wf_def)
  ultimately show ?thesis using k by (simp add: quiet_def proc_same_def upd_pcb_def nth_list_update)
qed

lemma trap_kernel_ok:
  assumes "kernel_ok loc prog s" "thread_runs s" "string_at (memory (kern s)) message (exception_message n)"
    and "exception_handler conv_buf message (kern s) = Some r"
  shows "kernel_ok loc prog (s\<lparr>kern := sysret_state r\<rparr>) \<and> same_files (kern s) (sysret_state r)"
proof -
  note k = kernel_ok_runs [OF assms(1,2)]
  obtain p where p: "cur_pid (kern s) = int p" using sys_okD [OF k(1)] by metis
  have w: "console_wf (kern s)" using k(2) by (simp add: term_wf_def)
  have t: "curThread (kern s) < 3" "parent_terminal (PCB_at (kern s) ! p) = curThread (kern s)"
    using assms(1) k(6) p by (simp_all add: kernel_ok_def threads_ok_def)
  define k1 where "k1 = upd_pcb p (\<lambda>b. b\<lparr>exception_flag := True\<rparr>) (putc_list (curThread (kern s)) (exception_message n) ((kern s)\<lparr>if_flag := False\<rparr>))"
  note x = exception_halts [OF k(1) w p assms(3), unfolded t(2), folded k1_def]
  have q: "quiet (kern s) k1" unfolding k1_def by (rule exception_quiet [OF k(1-3) p t(1)])
  have ok1: "kernel_ok loc prog (s\<lparr>kern := k1\<rparr>)" using x(2) by (intro kernel_ok_quiet [OF assms(1) q]) (simp_all add: sys_ok_def)
  have "thread_runs (s\<lparr>kern := k1\<rparr>)" using assms(2) q by (simp add: thread_runs_def quiet_def)
  from halt_kernel_ok [OF ok1 this, of 255 r] x(1) assms(4) show ?thesis
    using same_files_trans [OF quiet_files [OF q]] by simp
qed

lemma if_eqE: "(if b then x else y) = z \<Longrightarrow> (x = z \<Longrightarrow> P) \<Longrightarrow> (y = z \<Longrightarrow> P) \<Longrightarrow> P"
  by (auto split: if_splits)

lemma bind_SomeE: "Option.bind x f = Some r \<Longrightarrow> (\<And>c. f c = Some r \<Longrightarrow> P) \<Longrightarrow> P"
  by (auto simp: Option.bind_eq_Some_conv)

lemma ret_of_error:
  "ret_of (Some (sys_sethandler s)) = Some r \<Longrightarrow> r = Ret ERROR_VAL s" "ret_of (Some (sys_sigreturn s)) = Some r \<Longrightarrow> r = Ret ERROR_VAL s"
  "Some (Ret ERROR_VAL s) = Some r \<Longrightarrow> r = Ret ERROR_VAL s"
  by (auto simp: ret_of_def sys_sethandler_def sys_sigreturn_def)

lemma syscall_cases:
  assumes "syscall loc eax ebx ecx edx s = Some r"
  shows "r = Ret ERROR_VAL s \<or> (\<exists>st. sys_halt st s = Some r) \<or> (\<exists>c. sys_execute loc c s = Some r)
     \<or> sys_read (dentry_init loc) (sint ebx) ecx (sint edx) s = Some r
     \<or> (\<exists>x. ret_of x = Some r \<and> ((\<exists>a b c. x = sys_write a b c s) \<or> (\<exists>d n. x = sys_open d n s) \<or> (\<exists>a. x = sys_close a s)
          \<or> (\<exists>b c. x = sys_getargs b c s) \<or> (\<exists>b. x = sys_vidmap b s)))"
  using assms unfolding syscall_def
proof (elim if_eqE bind_SomeE)
qed (use ret_of_error in blast)+

lemma syscall_kernel_ok:
  assumes "kernel_ok loc prog s" "thread_runs s" "syscall loc eax ebx ecx edx (kern s) = Some r"
  shows "kernel_ok loc prog (s\<lparr>kern := sysret_state r\<rparr>) \<and> same_files (kern s) (sysret_state r)"
proof -
  note k = kernel_ok_runs [OF assms(1,2)]
  let ?ok = "\<lambda>k'. kernel_ok loc prog (s\<lparr>kern := k'\<rparr>) \<and> same_files (kern s) k'"
  have q: "?ok k'" if "quiet (kern s) k'" "sys_ok k'" for k'
    using that kernel_ok_quiet [OF assms(1) that(1)] quiet_files [OF that(1)] by (simp add: sys_ok_def)
  have q0: "?ok (kern s)" by (rule q [OF quiet_refl [OF k(2)] k(1)])
  have sm: "sint edx < 2 ^ 31" using sint_lt [of edx] by simp
  have rd: "?ok (sysret_state r)" if "sys_read d (sint ebx) ecx (sint edx) (kern s) = Some r" for d
    by (rule q [OF sys_read_quiet [OF k(1-3) that sm] sys_read_inv [OF k(1) that]])
  have ret: "?ok (sysret_state r)" if "ret_of x = Some r" "\<And>v k'. x = Some (v, k') \<Longrightarrow> ?ok k'" for x
    using that by (auto simp: ret_of_Some)
  have mem: "sys_ok k'" if "sys_getargs a n (kern s) = Some (v, k') \<or> sys_vidmap a (kern s) = Some (v, k')" for a n v k'
    using that k(1) proc_same_ok [OF proc_same_with_memory, of _ "kern s"]
    by (auto simp: sys_getargs_def sys_vidmap_def Option.bind_eq_Some_conv Let_def split: if_splits)
  have cw: "?ok k'" if "sys_write a b c (kern s) = Some (v, k')" for a b c v k'
    by (rule q [OF sys_write_quiet [OF k(1-3) that] sys_write_inv [OF k(1) that]])
  have co: "?ok k'" if "sys_open d nm (kern s) = Some (v, k')" for d nm v k'
    by (rule q [OF sys_open_quiet [OF k(1,2) that] sys_open_inv [OF k(1) that]])
  have cc: "?ok k'" if "sys_close a (kern s) = Some (v, k')" for a v k'
    by (rule q [OF sys_close_quiet [OF k(1,2) that] sys_close_inv [OF k(1) that]])
  have cg: "?ok k'" if "sys_getargs b c (kern s) = Some (v, k')" for b c v k'
    by (rule q [OF sys_getargs_quiet [OF k(1-3) that]]) (rule mem, rule disjI1, rule that)
  have cv: "?ok k'" if "sys_vidmap b (kern s) = Some (v, k')" for b v k'
    by (rule q [OF sys_vidmap_quiet [OF k(1-3) that]]) (rule mem, rule disjI2, rule that)
  note ex = execute_kernel_ok [OF assms(1,2)] and ha = halt_kernel_ok [OF assms(1,2)]
  show ?thesis
    using syscall_cases [OF assms(3)]
  proof (elim disjE exE conjE)
    show ?thesis if "r = Ret ERROR_VAL (kern s)" using that q0 by simp
    show ?thesis if "sys_halt st (kern s) = Some r" for st by (rule ha [OF that])
    show ?thesis if "sys_execute loc c (kern s) = Some r" for c by (rule ex [OF that])
    show ?thesis if "sys_read (dentry_init loc) (sint ebx) ecx (sint edx) (kern s) = Some r" by (rule rd [OF that])
    show ?thesis if "ret_of x = Some r" "x = sys_write a b c (kern s)" for x a b c using ret [OF that(1)] that(2) cw by simp
    show ?thesis if "ret_of x = Some r" "x = sys_open d nm (kern s)" for x d nm using ret [OF that(1)] that(2) co by simp
    show ?thesis if "ret_of x = Some r" "x = sys_close a (kern s)" for x a using ret [OF that(1)] that(2) cc by simp
    show ?thesis if "ret_of x = Some r" "x = sys_getargs b c (kern s)" for x b c using ret [OF that(1)] that(2) cg by simp
    show ?thesis if "ret_of x = Some r" "x = sys_vidmap b (kern s)" for x b using ret [OF that(1)] that(2) cv by simp
  qed
qed

lemma tick_kernel_ok:
  assumes "kernel_ok loc prog s" "PIThandler loc s = Some r"
  shows "kernel_ok loc prog (pit_state r) \<and> same_files (kern s) (kern (pit_state r))"
proof (cases "thread_runs s")
  case True
  then have t: "shellStarted (kern s) ! curThread (kern s)" by (simp add: thread_runs_def)
  have "curThread (kern s) < 3" using assms(1) by (simp add: kernel_ok_def threads_ok_def)
  note m = tick_switched_sel(11) [OF refl this]
  have "bootMemAddr (kern (tick_switched s)) = bootMemAddr (kern s)"
    by (simp add: tick_switched_def saved_def switched_def clearTLB_def Let_def)
  then show ?thesis using tick_switches(1,2) [OF assms(1) t] assms(2) m by (auto simp: same_files_def)
next
  case False
  then obtain s' where "PIThandler loc s = Some (Pit_enter (ld32 (\<lambda>a. prog ! unat a) 24) s')" "kernel_ok loc prog s'"
      "shell_entered s s' (free_pid (PCB_ptrs (kern s)) 0)"
    using tick_restarts [OF assms(1)] by (auto simp: thread_runs_def)
  then show ?thesis using assms(2) by (auto simp: shell_entered_def same_files_def)
qed

lemma user_kernel_ok:
  assumes "kernel_ok loc prog s" "thread_runs s"
    and "\<And>a. \<not> in_region (user_frame (kern s)) 0x400000 a \<Longrightarrow> \<not> in_video a \<Longrightarrow> m a = memory (kern s) a"
  shows "kernel_ok loc prog (s\<lparr>kern := (kern s)\<lparr>memory := m, cpu_esp := e, cpu_ebp := b\<rparr>\<rparr>)
     \<and> same_files (kern s) ((kern s)\<lparr>memory := m, cpu_esp := e, cpu_ebp := b\<rparr>)"
proof -
  let ?k = "(kern s)\<lparr>memory := m, cpu_esp := e, cpu_ebp := b\<rparr>"
  note k = kernel_ok_runs [OF assms(1,2)]
  have "same_image (bootMemAddr (kern s)) (memory (kern s)) m"
  proof (rule same_image_high [OF k(3)], rule assms(3))
    fix a :: u32 assume a: "0x400000 \<le> unat a" "unat a < 0x800000"
    show "\<not> in_video a" by (rule not_in_video_high [OF a(1)])
    show "\<not> in_region (user_frame (kern s)) 0x400000 a"
    proof
      assume "in_region (user_frame (kern s)) 0x400000 a"
      then obtain i where i: "i < 0x400000" "a = user_frame (kern s) + of_nat i" by (rule in_regionE)
      have v: "0x08000000 \<le> (0x08000000 + of_nat i :: u32)" "unat (0x08000000 + of_nat i :: u32) + 1 \<le> 0x08400000"
        using i(1) by (simp_all add: word_le_nat_alt unat_word_ariths unat_of_nat_32)
      from user_addr_range(1) [OF k(1) v] i(2) a(2) show False by simp
    qed
  qed
  then have q: "quiet (kern s) ?k" using k(2) by (simp add: quiet_def term_wf_def console_wf_def)
  have "proc_same (kern s) ?k" by (simp add: proc_same_def)
  then have "sys_ok ?k" using k(1) by (simp add: proc_same_ok)
  with kernel_ok_quiet [OF assms(1) q] quiet_files [OF q] show ?thesis by (simp add: sys_ok_def)
qed

lemma quiet_same_kernel_ok:
  assumes "kernel_ok loc prog s" "quiet (kern s) k" "proc_same (kern s) k"
  shows "kernel_ok loc prog (s\<lparr>kern := k\<rparr>) \<and> same_files (kern s) k"
proof -
  have "proc_inv k" using assms(1,3) proc_same_inv by (auto simp: kernel_ok_def system_ready_def)
  moreover have "running k" if "thread_runs s"
    using kernel_ok_runs(1) [OF assms(1) that] proc_same_running [OF assms(3)] by (simp add: sys_ok_def)
  ultimately show ?thesis using kernel_ok_quiet [OF assms(1,2)] quiet_files [OF assms(2)] by simp
qed

lemma key_kernel_ok:
  assumes "kernel_ok loc prog s" "KBhandler (kern s) = Some k"
    and "buf_loc (kern s) ! currentTerminal (kern s) < BUF_SIZE \<or> io_in (kern s) (io_pos (kern s)) \<noteq> 0x1C"
  shows "kernel_ok loc prog (s\<lparr>kern := k\<rparr>) \<and> same_files (kern s) k"
proof -
  have w: "term_wf (kern s)" "image_placed (kern s)" "proc_inv (kern s)" using assms(1) by (simp_all add: kernel_ok_def system_ready_def)
  have wk: "term_wf k" using KBhandler_total [OF w(1) assms(3)] assms(2) by simp
  note f = kb_safe_sys [OF KBhandler_safe_frame [OF w(1) assms(2)] wk w(2)]
  have "running k" if "thread_runs s" using kernel_ok_runs(1) [OF assms(1) that] f(3) by (simp add: sys_ok_def)
  then show ?thesis using kernel_ok_quiet [OF assms(1) f(1)] quiet_files [OF f(1)] f(2) w(3) by simp
qed

text \<open>Progress and preservation: an allowed event has an outcome, which keeps the invariant and the files.\<close>

lemma line_delivered:
  assumes "kernel_ok loc prog s" "allowed (Line buf n) s"
  shows "\<exists>s'. deliver loc (Line buf n) s = Some s' \<and> kernel_ok loc prog s' \<and> same_files (kern s) (kern s')"
proof -
  have a: "thread_runs s" "user_buffer buf (nat n)" "n \<le> 128 \<or> 10 \<in> set (kb_line (curThread (kern s)) (kern s))" using assms(2) by auto
  note k = kernel_ok_runs [OF assms(1) a(1)]
  obtain p where p: "process_terminal (kern s) = Some (parent_terminal (PCB_at (kern s) ! p))" "cur_pid (kern s) = int p"
    using sys_okD [OF k(1)] by metis
  then have t: "process_terminal (kern s) = Some (curThread (kern s))" using k(6) by simp
  have c: "curThread (kern s) < 3" using assms(1) by (simp add: kernel_ok_def threads_ok_def)
  note w = term_wfD [OF k(2)]
  note u = user_buffer_ptr [OF k(1) a(2)]
  obtain v k' where f: "terminalRead_finish (user_frame (kern s) + (buf - 0x08000000)) n (kern s) = Some (v, k')"
    using terminalRead_finish_total [OF t c w(3) w(7) [OF c] a(3)] by blast
  from quiet_same_kernel_ok [OF assms(1) terminalRead_finish_quiet [OF k(1-3) u f]] u f show ?thesis by simp
qed

lemma trap_delivered:
  assumes "kernel_ok loc prog s" "allowed (Trap n message conv_buf) s"
  shows "\<exists>s'. deliver loc (Trap n message conv_buf) s = Some s' \<and> kernel_ok loc prog s' \<and> same_files (kern s) (kern s')"
proof -
  have a: "thread_runs s" "string_at (memory (kern s)) message (exception_message n)" using assms(2) by auto
  note k = kernel_ok_runs [OF assms(1) a(1)]
  obtain p where p: "cur_pid (kern s) = int p" using sys_okD [OF k(1)] by metis
  have "console_wf (kern s)" using k(2) by (simp add: term_wf_def)
  note x = exception_halts [OF k(1) this p a(2)]
  obtain r where r: "exception_handler conv_buf message (kern s) = Some r" using sys_halt_total [OF x(2)] x(1) by metis
  from trap_kernel_ok [OF assms(1) a r] r show ?thesis by simp
qed

lemma event_delivered:
  assumes "kernel_ok loc prog s" "allowed e s"
  shows "\<exists>s'. deliver loc e s = Some s' \<and> kernel_ok loc prog s' \<and> same_files (kern s) (kern s')"
proof (cases e)
  case Tick
  obtain r where "PIThandler loc s = Some r" using tick_ok [OF assms(1)] by blast
  with tick_kernel_ok [OF assms(1) this] Tick show ?thesis by simp
next
  case Key
  have "term_wf (kern s)" using assms(1) by (simp add: kernel_ok_def system_ready_def)
  then obtain k where "KBhandler (kern s) = Some k" using KBhandler_total assms(2) Key by fastforce
  with key_kernel_ok [OF assms(1) this] assms(2) Key show ?thesis by simp
next
  case Clock
  have "term_wf (kern s)" using assms(1) by (simp add: kernel_ok_def system_ready_def)
  from quiet_same_kernel_ok [OF assms(1) RTChandler_quiet(1) [OF this] RTChandler_quiet(2)] Clock show ?thesis by simp
next
  case (Call eax ebx ecx edx)
  then have a: "thread_runs s" "proper_call eax ebx ecx edx (kern s)" using assms(2) by auto
  note k = kernel_ok_runs [OF assms(1) a(1)]
  obtain r where "syscall loc eax ebx ecx edx (kern s) = Some r" using proper_call_total [OF k(1,3-5) a(2)] by blast
  with syscall_kernel_ok [OF assms(1) a(1) this] Call show ?thesis by simp
next
  case (Run m a b)
  then show ?thesis using user_kernel_ok [OF assms(1), where m = m and e = a and b = b] assms(2) by auto
qed (use line_delivered [OF assms(1)] trap_delivered [OF assms(1)] assms(2) in blast)+

lemma run_ok:
  assumes "kernel_ok loc prog s" "behaved loc es s"
  shows "\<exists>s'. run loc es s = Some s' \<and> kernel_ok loc prog s' \<and> same_files (kern s) (kern s')"
  using assms
proof (induction es arbitrary: s)
  case (Cons e es)
  then obtain s1 where s1: "deliver loc e s = Some s1" "kernel_ok loc prog s1" "same_files (kern s) (kern s1)"
    using event_delivered [of loc prog s e] by auto
  with Cons.prems(2) have "behaved loc es s1" by simp
  from Cons.IH [OF s1(2) this] s1(1) same_files_trans [OF s1(3)] show ?case by auto
qed simp

section \<open>Properties\<close>

text \<open>The process a thread is running, or was running when it was switched away.\<close>

definition thread_pid :: "sched \<Rightarrow> nat \<Rightarrow> nat" where
  "thread_pid s t = (if t = curThread (kern s) then nat (cur_pid (kern s)) else unat (PIDstore s ! t))"

definition process_frame :: "nat \<Rightarrow> u32" where
  "process_frame p = 0x800000 + of_nat p * 0x400000"

lemma process_frames_disjoint:
  assumes "p < 6" "q < 6" "p \<noteq> q"
  shows "disjoint_regions (process_frame p) 0x400000 (process_frame q) 0x400000"
proof (rule disjoint_regionsI)
  fix i j :: nat assume i: "i < 0x400000" and j: "j < 0x400000"
  have f: "process_frame r + of_nat k = of_nat (0x800000 + r * 0x400000 + k)" for r k by (simp add: process_frame_def)
  have u: "unat (process_frame r + of_nat k) = 0x800000 + r * 0x400000 + k" if "r < 6" "k < 0x400000" for r k
    unfolding f using that by (intro unat_of_nat_32) simp
  have "p * 0x400000 + i \<noteq> q * 0x400000 + j"
  proof
    assume e: "p * 0x400000 + i = q * 0x400000 + j"
    have "(p * 0x400000 + i) div 0x400000 = p" "(q * 0x400000 + j) div 0x400000 = q" using i j by simp_all
    with e assms(3) show False by simp
  qed
  then have "unat (process_frame p + of_nat i) \<noteq> unat (process_frame q + of_nat j)"
    unfolding u [OF assms(1) i] u [OF assms(2) j] by linarith
  then show "process_frame p + of_nat i \<noteq> process_frame q + of_nat j" by (rule contrapos_nn) (rule arg_cong)
qed

lemma thread_pid_facts:
  assumes "kernel_ok loc prog s" "thread_runs s" "t < 3"
  shows "thread_pid s t < 6" "PCB_ptrs (kern s) ! thread_pid s t \<noteq> None" "parent_terminal (PCB_at (kern s) ! thread_pid s t) = t"
    "\<not> is_parent (thread_pid s t) (kern s)"
proof -
  note k = kernel_ok_runs [OF assms(1,2)]
  have "running (kern s)" using k(1) by (simp add: sys_ok_def)
  moreover have "t \<noteq> curThread (kern s) \<Longrightarrow> parked (kern s) t (PIDstore s ! t)"
    using not_parked_current(2) [OF assms] .
  ultimately show "thread_pid s t < 6" "PCB_ptrs (kern s) ! thread_pid s t \<noteq> None"
    "parent_terminal (PCB_at (kern s) ! thread_pid s t) = t" "\<not> is_parent (thread_pid s t) (kern s)"
    using k(6) by (auto simp: thread_pid_def running_def parked_def)
qed

lemma isolated_now:
  assumes "kernel_ok loc prog s" "thread_runs s" "t < 3" "u < 3" "t \<noteq> u"
  shows "PCB_ptrs (kern s) ! thread_pid s t \<noteq> None \<and> parent_terminal (PCB_at (kern s) ! thread_pid s t) = t
     \<and> thread_pid s t \<noteq> thread_pid s u
     \<and> disjoint_regions (process_frame (thread_pid s t)) 0x400000 (process_frame (thread_pid s u)) 0x400000
     \<and> (\<forall>v n p. user_ptr v n (kern s) = Some p \<longrightarrow>
          p = process_frame (thread_pid s (curThread (kern s))) + (v - 0x08000000) \<and> unat (v - 0x08000000) + n \<le> 0x400000)"
proof -
  note a = thread_pid_facts [OF assms(1-3)] and b = thread_pid_facts [OF assms(1,2,4)]
  have ne: "thread_pid s t \<noteq> thread_pid s u" using a(3) b(3) assms(5) by auto
  have uf: "user_frame (kern s) = process_frame (thread_pid s (curThread (kern s)))"
    by (simp add: user_frame_def process_frame_def thread_pid_def)
  have "p = process_frame (thread_pid s (curThread (kern s))) + (v - 0x08000000) \<and> unat (v - 0x08000000) + n \<le> 0x400000"
    if "user_ptr v n (kern s) = Some p" for v n p
  proof -
    have v: "0x08000000 \<le> v" "unat v + n \<le> 0x08400000" "p = user_frame (kern s) + (v - 0x08000000)"
      using that by (auto simp: user_ptr_ok [OF kernel_ok_runs(1) [OF assms(1,2)]] split: if_splits)
    moreover have "unat (v - 0x08000000) = unat v - 0x08000000" using v(1) by (simp add: unat_sub)
    moreover have "0x08000000 \<le> unat v" using v(1) by (simp add: word_le_nat_alt)
    ultimately show ?thesis by (simp add: uf)
  qed
  then show ?thesis using a(2,3) ne process_frames_disjoint [OF a(1) b(1) ne] by simp
qed

text \<open>
  C1: well-behaved programs and keys never bring the kernel down.  From a state that satisfies the
  kernel's invariant (three ticks after boot give one), take any sequence of system calls,
  exceptions, timer, keyboard and clock interrupts and user instructions, each of which meets the
  conditions the code relies on without checking them (\<open>allowed\<close>: buffers and strings of a call lie in
  the program's page, the descriptor is not 8, execute finds no file too long for a page; no Enter on
  a full line; a terminal read of more than 128 bytes ends with a line that still has its newline; no
  exception in a base shell; programs write only their page and video memory) and runs to its end before the next one starts.  Then the kernel gets through
  the whole sequence without a fault or an access outside its data, and the invariant holds at the end: the process tables are
  sound, the terminal driver's data are in bounds, the running process has its own page, descriptor
  table and kernel stack, every parked thread has a live process on its own terminal, a thread that
  lost its last process has a free number for its new shell, and the shell is still in the file
  system; the next timer interrupt is answered and keeps it.
\<close>

theorem kernel_invariant:
  assumes "kernel_ok loc prog s" "behaved loc es s"
  shows "\<exists>s'. run loc es s = Some s' \<and> kernel_ok loc prog s' \<and> (\<exists>r. PIThandler loc s' = Some r \<and> kernel_ok loc prog (pit_state r))"
  using run_ok [OF assms] tick_ok by blast

text \<open>
  C3: the files are left alone by everything that keeps the rules.  After any sequence of events as in the kernel's
  invariant (interrupts, exceptions, user instructions, and system calls whose buffers lie in the
  caller's page, one after the other), the kernel is still running and the directory, the inodes and
  the contents of every file are those of the start.
\<close>

theorem files_never_change:
  assumes "kernel_ok loc prog s" "behaved loc es s" "n < numInodes (memory (kern s)) (bootMemAddr (kern s))"
  shows "\<exists>s'. run loc es s = Some s' \<and> bootMemAddr (kern s') = bootMemAddr (kern s)
     \<and> directory (memory (kern s')) (bootMemAddr (kern s)) = directory (memory (kern s)) (bootMemAddr (kern s))
     \<and> inode_at (memory (kern s')) (bootMemAddr (kern s)) n = inode_at (memory (kern s)) (bootMemAddr (kern s)) n
     \<and> file_data (memory (kern s')) (bootMemAddr (kern s)) n = file_data (memory (kern s)) (bootMemAddr (kern s)) n"
proof -
  obtain s' where r: "run loc es s = Some s'" and f: "bootMemAddr (kern s') = bootMemAddr (kern s)"
      "same_image (bootMemAddr (kern s)) (memory (kern s)) (memory (kern s'))"
    using run_ok [OF assms(1,2)] by (auto simp: same_files_def)
  have p: "image_ok (memory (kern s)) (bootMemAddr (kern s))" "numDirectories (memory (kern s)) (bootMemAddr (kern s)) \<le> 63"
    using assms(1) by (simp_all add: kernel_ok_def system_ready_def image_placed_def)
  show ?thesis
    using r f same_image_directory [OF f(2) p(2)] same_image_inode [OF f(2) assms(3)] same_image_file [OF f(2) p(1) assms(3)] by simp
qed

text \<open>
  C2: threads are isolated.  After any sequence of events as in the kernel's invariant (each meets the conditions
  of \<open>allowed\<close>, among them that system calls get buffers in the caller's page, and is run to its end
  before the next), the kernel is still running, and when the current thread runs a
  process, each of the three threads has a process of its own terminal, no two of them the same, and
  the 4MB of memory behind their program pages do not overlap; the addresses of the program page lead
  exactly to the page of the running one.
\<close>

theorem threads_isolated:
  assumes "kernel_ok loc prog s" "behaved loc es s" "t < NUM_THREADS" "u < NUM_THREADS" "t \<noteq> u"
  shows "\<exists>s'. run loc es s = Some s' \<and> (thread_runs s' \<longrightarrow>
       PCB_ptrs (kern s') ! thread_pid s' t \<noteq> None \<and> parent_terminal (PCB_at (kern s') ! thread_pid s' t) = t
     \<and> thread_pid s' t \<noteq> thread_pid s' u
     \<and> disjoint_regions (process_frame (thread_pid s' t)) 0x400000 (process_frame (thread_pid s' u)) 0x400000
     \<and> (\<forall>v n p. user_ptr v n (kern s') = Some p \<longrightarrow>
          p = process_frame (thread_pid s' (curThread (kern s'))) + (v - 0x08000000) \<and> unat (v - 0x08000000) + n \<le> 0x400000))"
proof -
  obtain s' where s': "run loc es s = Some s'" "kernel_ok loc prog s'" using run_ok [OF assms(1,2)] by blast
  then show ?thesis using isolated_now [OF s'(2) _ assms(3-5)] by blast
qed

lemma booted: obtains s where "kernel_ok demo_locals demo_program s" "thread_runs s" "curThread (kern s) = 2"
    "cur_pid (kern s) = 2" "PIDstore s ! 0 = 0"
  using boot_ticks [OF boot_demo_fresh] by (auto simp: thread_runs_def)

text \<open>A clock interrupt, then a call for a descriptor that is not open, then a timer tick.\<close>

definition demo_events :: "event list" where
  "demo_events = [Clock, Call 6 5 0 0, Tick]"

lemma demo_behaved:
  assumes "kernel_ok demo_locals demo_program s" "thread_runs s"
  shows "behaved demo_locals demo_events s"
proof -
  have "thread_runs (s\<lparr>kern := RTChandler (kern s)\<rparr>)" using assms(2) RTChandler_quiet(2) [of "kern s"] by (simp add: thread_runs_def proc_same_def)
  then show ?thesis by (simp add: demo_events_def proper_call_def split: option.splits)
qed

theorem kernel_invariant_witness:
  "\<exists>s s'. thread_runs s \<and> run demo_locals demo_events s = Some s' \<and> kernel_ok demo_locals demo_program s' \<and> (\<exists>r. PIThandler demo_locals s' = Some r)"
proof -
  obtain s where s: "kernel_ok demo_locals demo_program s" "thread_runs s" by (rule booted)
  from kernel_invariant [OF s(1) demo_behaved [OF s]] s(2) show ?thesis by blast
qed

theorem files_never_change_witness:
  "\<exists>s s'. run demo_locals demo_events s = Some s' \<and> directory (memory (kern s')) (bootMemAddr (kern s)) = directory (memory (kern s)) (bootMemAddr (kern s))"
proof -
  obtain s where s: "kernel_ok demo_locals demo_program s" "thread_runs s" by (rule booted)
  have "\<exists>n. n < numInodes (memory (kern s)) (bootMemAddr (kern s))"
    using s(1) by (auto simp: kernel_ok_def system_ready_def has_program_def split: option.splits)
  with files_never_change [OF s(1) demo_behaved [OF s]] show ?thesis by blast
qed

theorem threads_isolated_witness:
  "\<exists>s. thread_runs s \<and> thread_pid s 2 = 2 \<and> thread_pid s 0 = 0
     \<and> disjoint_regions (process_frame (thread_pid s 2)) 0x400000 (process_frame (thread_pid s 0)) 0x400000"
proof -
  obtain s where s: "kernel_ok demo_locals demo_program s" "thread_runs s" "curThread (kern s) = 2" "cur_pid (kern s) = 2" "PIDstore s ! 0 = 0"
    by (rule booted)
  have "thread_pid s 2 = 2" "thread_pid s 0 = 0" using s(3-5) by (simp_all add: thread_pid_def)
  then show ?thesis using threads_isolated [OF s(1), of "[]" 2 0] s(2) by (intro exI [of _ s]) simp
qed

end
