(* ===== verification/Printf_Output.thy ===== *)
theory Printf_Output
  imports Console
begin

text \<open>
  \<open>printf\<close> as the boot code uses it: with a format whose conversions all have an argument it returns, and
  it changes nothing but video memory, the screen positions and its own conversion buffer.
\<close>

section \<open>What printing may change\<close>

text \<open>The bytes \<open>printf\<close> may overwrite: video memory and the 64 bytes of its local \<^verbatim>\<open>conv_buf\<close>.\<close>

definition overwritten :: "u32 \<Rightarrow> u32 \<Rightarrow> bool" where
  "overwritten conv a \<longleftrightarrow> in_video a \<or> in_region conv 64 a"

definition only_output :: "u32 \<Rightarrow> 'a console_scheme \<Rightarrow> 'a console_scheme \<Rightarrow> bool" where
  "only_output conv s s' \<longleftrightarrow> out_only s s' \<and> (\<forall>a. \<not> overwritten conv a \<longrightarrow> memory s' a = memory s a)
     \<and> (console_wf s \<longrightarrow> console_wf s')"

text \<open>
  Characters can be printed: \<^verbatim>\<open>putc\<close> finds a terminal, and what it looks at before the first process, the byte
  at address 21, is not overwritten; \<^verbatim>\<open>conv_buf\<close> is not in video memory.
\<close>

definition can_print :: "u32 \<Rightarrow> 'a console_scheme \<Rightarrow> bool" where
  "can_print conv s \<longleftrightarrow> console_wf s \<and> (\<exists>t < NUM_TERMINALS. putc_terminal s = Some t)
     \<and> \<not> overwritten conv 21 \<and> (\<forall>j < 64. \<not> in_video (conv + of_nat j))"

lemma only_output_refl [simp]: "only_output conv s s"
  by (simp add: only_output_def)

lemma only_output_trans [trans]: "only_output conv a b \<Longrightarrow> only_output conv b c \<Longrightarrow> only_output conv a c"
  by (auto simp: only_output_def intro: out_only_trans)

lemma only_output_memory: "only_output conv s s' \<Longrightarrow> \<not> overwritten conv a \<Longrightarrow> memory s' a = memory s a"
  by (simp add: only_output_def)

lemma out_only_putc_terminal:
  assumes "out_only s s'" "memory s' 21 = memory s 21"
  shows "putc_terminal s' = putc_terminal s"
proof -
  obtain m log d x y where s': "s' = s\<lparr>memory := m, io_out := log, df_flag := d, screen_x := x, screen_y := y\<rparr>"
    using assms(1) by (rule out_onlyE)
  then have "cr0 s' = cr0 s" by simp
  then show ?thesis using assms(2) out_only_fields [OF assms(1)] by (simp add: putc_terminal_def split: option.split)
qed

lemma can_print_output:
  assumes "can_print conv s" "only_output conv s s'"
  shows "can_print conv s'"
proof -
  have "putc_terminal s' = putc_terminal s"
    using assms by (intro out_only_putc_terminal) (simp_all add: can_print_def only_output_def)
  then show ?thesis using assms by (simp add: can_print_def only_output_def)
qed

lemma putc_total:
  assumes "can_print conv s"
  shows "\<exists>s'. putc c s = Some s' \<and> only_output conv s s' \<and> (\<forall>a. \<not> in_video a \<longrightarrow> memory s' a = memory s a)"
  using assms
  by (auto simp: can_print_def putc_def only_output_def overwritten_def out_only_putc_on putc_on_outside putc_on_wf)

text \<open>A string that ends after \<open>n\<close> characters, none of them in video memory.\<close>

lemma puts_loop_total:
  assumes "can_print conv s" "view (memory s) p (i + n) = 0" "\<And>j. i \<le> j \<Longrightarrow> j \<le> i + n \<Longrightarrow> \<not> in_video (p + of_nat j)"
  shows "\<exists>k s'. puts_loop p i s = Some (k, s') \<and> only_output conv s s'"
  using assms
proof (induction n arbitrary: i s)
  case 0
  then show ?case by (subst puts_loop.simps) simp
next
  case (Suc n)
  show ?case
  proof (cases "view (memory s) p i = 0")
    case True
    then show ?thesis by (subst puts_loop.simps) simp
  next
    case False
    obtain s1 where s1: "putc (view (memory s) p i) s = Some s1" "only_output conv s s1"
        "\<And>a. \<not> in_video a \<Longrightarrow> memory s1 a = memory s a"
      using putc_total [OF Suc.prems(1)] by blast
    have "view (memory s1) p (Suc i + n) = 0"
      using Suc.prems(2) Suc.prems(3) [of "i + Suc n"] s1(3) by (simp add: view_def)
    with Suc.IH [OF can_print_output [OF Suc.prems(1) s1(2)], of "Suc i"] Suc.prems(3)
    obtain k s' where "puts_loop p (Suc i) s1 = Some (k, s')" "only_output conv s1 s'" by auto
    then show ?thesis using s1(1) False only_output_trans [OF s1(2)] by (subst puts_loop.simps) simp
  qed
qed

lemma puts_total:
  assumes "can_print conv s" "view (memory s) p n = 0" "\<And>j. j \<le> n \<Longrightarrow> \<not> in_video (p + of_nat j)"
  shows "\<exists>k s'. puts p s = Some (k, s') \<and> only_output conv s s'"
  using puts_loop_total [of conv s p 0 n] assms by (simp add: puts_def)

section \<open>Conversions\<close>

text \<open>Writes to the conversion buffer.\<close>

lemma only_output_buffer:
  assumes "can_print conv s" "\<And>a. \<not> in_region conv 64 a \<Longrightarrow> m a = memory s a"
  shows "only_output conv s (with_memory m s)" "can_print conv (with_memory m s)"
proof -
  show o: "only_output conv s (with_memory m s)"
    using assms by (auto simp: only_output_def with_memory_def out_only_def out_update_def overwritten_def console_wf_def)
  show "can_print conv (with_memory m s)" using assms(1) o by (rule can_print_output)
qed

lemma in_region_part:
  assumes "in_region (p + of_nat k) n a" "k + n \<le> 64"
  shows "in_region p 64 a"
proof -
  have "a = p + of_nat (k + unat (a - (p + of_nat k)))" by simp
  moreover have "k + unat (a - (p + of_nat k)) < 64" using assms by (simp add: in_region_def)
  moreover have "k + unat (a - (p + of_nat k)) < 2 ^ 32" using assms by (simp add: in_region_def)
  ultimately show ?thesis unfolding in_region_def using offset_eq_iff by metis
qed

lemma buffer_string:
  assumes "k + length str < 64"
  shows "\<not> in_region conv 64 a \<Longrightarrow> wr_bytes m (conv + of_nat k) (str @ [0]) a = m a"
    "view (wr_bytes m (conv + of_nat k) (str @ [0])) conv (k + length str) = 0"
proof -
  show "wr_bytes m (conv + of_nat k) (str @ [0]) a = m a" if "\<not> in_region conv 64 a"
    using that assms in_region_part [of conv k "Suc (length str)" a] by (auto intro!: wr_bytes_outside)
  have "wr_bytes m (conv + of_nat k) (str @ [0]) ((conv + of_nat k) + of_nat (length str)) = (str @ [0]) ! length str"
    using assms by (intro wr_bytes_at) simp_all
  then show "view (wr_bytes m (conv + of_nat k) (str @ [0])) conv (k + length str) = 0" by (simp add: view_def algebra_simps)
qed

lemma itoa_spec_length:
  assumes "2 \<le> r"
  shows "length (itoa_spec r (unat (v :: u32))) \<le> 32"
  using digits_le_bound [OF assms unat_lt_2p32, of v] by (simp add: itoa_spec_def)

lemma itoa_spec_nonzero:
  assumes "2 \<le> r" "r \<le> 36" "c \<in> set (itoa_spec r v)"
  shows "c \<noteq> 0"
  using assms itoa_lookup_digit digits_le_less [OF assms(1), of _ v] by (fastforce simp: itoa_spec_def split: if_splits)

lemma zero_pad_at: "\<not> in_region conv 8 a \<Longrightarrow> zero_pad m conv i a = m a"
proof (induction m conv i rule: zero_pad.induct)
  case (1 m conv i)
  show ?case
  proof (cases "i < 8")
    case True
    then have "a \<noteq> conv + of_nat i" using 1(2) by (auto simp: in_region_def unat_of_nat_32)
    then have "zero_pad (m(conv + of_nat i := 48)) conv (Suc i) a = m a" using 1(1) [OF True 1(2)] by (metis fun_upd_other)
    then show ?thesis using True by (subst zero_pad.simps) (simp del: fun_upd_apply)
  qed (subst zero_pad.simps, simp)
qed

text \<open>Printing the buffer, whatever has been stored in it, up to a NUL in it.\<close>

lemma print_buffer:
  assumes "can_print conv s" "\<And>a. \<not> in_region conv 64 a \<Longrightarrow> m a = memory s a" "view m conv n = 0" "n < 64" "k \<le> n"
  shows "\<exists>l s'. puts (conv + of_nat k) (with_memory m s) = Some (l, s') \<and> only_output conv s s'"
proof -
  note b = only_output_buffer [OF assms(1,2)]
  have "\<exists>l s'. puts (conv + of_nat k) (with_memory m s) = Some (l, s') \<and> only_output conv (with_memory m s) s'"
  proof (rule puts_total [OF b(2)])
    show "view (memory (with_memory m s)) (conv + of_nat k) (n - k) = 0"
      using assms(3,5) by (simp add: view_def with_memory_def of_nat_diff algebra_simps)
    show "\<not> in_video (conv + of_nat k + of_nat j)" if "j \<le> n - k" for j
    proof -
      have "k + j < 64" using that assms(4,5) by simp
      then show ?thesis using assms(1) unfolding can_print_def by (metis add.assoc of_nat_add)
    qed
  qed
  then show ?thesis using only_output_trans [OF b(1)] by blast
qed

lemma printf_x_total:
  assumes "can_print conv s"
  shows "\<exists>s'. printf_x alternate conv v s = Some s' \<and> only_output conv s s'"
proof -
  let ?str = "itoa_spec 16 (unat v)"
  have l: "length ?str \<le> 32" by (rule itoa_spec_length) simp
  note b = buffer_string [where k = 0 and str = ?str and conv = conv] buffer_string [where k = 8 and str = ?str and conv = conv]
  show ?thesis
  proof (cases alternate)
    case False
    then show ?thesis using print_buffer [OF assms b(1,2), where k = 0] l itoa_eq [of 16 "memory s" v conv]
      by (auto simp: printf_x_def)
  next
    case True
    let ?m = "wr_bytes (memory s) (conv + 8) (?str @ [0])"
    let ?z = "zero_pad ?m conv (length ?str)"
    have at: "view ?m (conv + 8) j = (?str @ [0]) ! j" if "j \<le> length ?str" for j
      using wr_bytes_at [of j "?str @ [0]" "memory s" "conv + 8"] that l by (simp add: view_def)
    have "strlen (view ?m (conv + 8)) = Some (length ?str)"
      using at itoa_spec_nonzero [of 16 _ "unat v"] by (intro strlenI) (auto simp: nth_append)
    moreover have "\<exists>n s'. puts (conv + of_nat (length ?str)) (with_memory ?z s) = Some (n, s') \<and> only_output conv s s'"
    proof (rule print_buffer [OF assms])
      show "?z a = memory s a" if "\<not> in_region conv 64 a" for a
        using b(3) [OF _ that, of "memory s"] l that zero_pad_at [of conv a ?m] by (auto simp: in_region_def)
      have "\<not> in_region conv 8 (conv + of_nat (8 + length ?str))"
        using l by (simp add: in_region_def unat_of_nat_32 del: of_nat_add)
      then show "view ?z conv (8 + length ?str) = 0"
        using zero_pad_at b(4) [of "memory s"] l by (simp add: view_def del: of_nat_add)
    qed (use l in simp_all)
    ultimately show ?thesis using True itoa_eq [of 16 "memory s" v "conv + 8"] by (auto simp: printf_x_def)
  qed
qed

lemma printf_u_total:
  assumes "can_print conv s"
  shows "\<exists>s'. printf_u conv v s = Some s' \<and> only_output conv s s'"
proof -
  let ?str = "itoa_spec 10 (unat v)"
  have l: "length ?str \<le> 32" by (rule itoa_spec_length) simp
  note b = buffer_string [where k = 0 and str = ?str and conv = conv]
  show ?thesis using print_buffer [OF assms b, where k = 0] l itoa_eq [of 10 "memory s" v conv]
    by (auto simp: printf_u_def)
qed

lemma printf_d_total:
  assumes "can_print conv s"
  shows "\<exists>s'. printf_d conv v s = Some s' \<and> only_output conv s s'"
proof (cases "sint v < 0")
  case False
  then have "printf_d conv v s = printf_u conv v s" by (simp add: printf_d_def printf_u_def)
  then show ?thesis using printf_u_total [OF assms] by simp
next
  case True
  let ?str = "itoa_spec 10 (unat (- v))" and ?m = "(memory s)(conv := 45)"
  let ?m' = "wr_bytes ?m (conv + 1) (?str @ [0])"
  have l: "length ?str \<le> 32" by (rule itoa_spec_length) simp
  note b = buffer_string [where k = 1 and str = ?str and conv = conv]
  have "\<exists>n s'. puts (conv + of_nat 0) (with_memory ?m' s) = Some (n, s') \<and> only_output conv s s'"
  proof (rule print_buffer [OF assms])
    show "?m' a = memory s a" if "\<not> in_region conv 64 a" for a
      using b(1) [OF _ that, of ?m] l that by (auto simp: in_region_def)
    show "view ?m' conv (1 + length ?str) = 0" using b(2) [of ?m] l by simp
  qed (use l in simp_all)
  then show ?thesis using True itoa_eq [of 10 ?m "- v" "conv + 1"] by (auto simp: printf_d_def)
qed

section \<open>Formats\<close>

text \<open>
  A format that has an argument for every conversion and does not end in the middle of one; the arguments
  of \<^verbatim>\<open>%s\<close> are among the addresses \<open>S\<close>.  The flag says that a \<^verbatim>\<open>%\<close> has been read.
\<close>

fun fmt_ok :: "u32 set \<Rightarrow> bool \<Rightarrow> byte list \<Rightarrow> u32 list \<Rightarrow> bool" where
  "fmt_ok S in_conv [] args \<longleftrightarrow> \<not> in_conv"
| "fmt_ok S False (c # cs) args \<longleftrightarrow> fmt_ok S (c = 37) cs args"
| "fmt_ok S True (c # cs) args \<longleftrightarrow>
     (if c = 35 then fmt_ok S True cs args
      else if c \<in> {120, 117, 100, 99, 115}
      then args \<noteq> [] \<and> (c = 115 \<longrightarrow> hd args \<in> S) \<and> fmt_ok S False cs (tl args)
      else fmt_ok S False cs args)"

text \<open>A string that printing does not overwrite.\<close>

definition readable :: "u32 \<Rightarrow> u32 \<Rightarrow> 'a console_scheme \<Rightarrow> bool" where
  "readable conv p s \<longleftrightarrow> (\<exists>n. view (memory s) p n = 0 \<and> (\<forall>j \<le> n. \<not> overwritten conv (p + of_nat j)))"

lemma readable_output: "only_output conv s s' \<Longrightarrow> readable conv p s \<Longrightarrow> readable conv p s'"
proof -
  assume o: "only_output conv s s'" and "readable conv p s"
  then obtain n where n: "view (memory s) p n = 0" "\<forall>j \<le> n. \<not> overwritten conv (p + of_nat j)" by (auto simp: readable_def)
  then have "view (memory s') p n = 0" using only_output_memory [OF o] by (simp add: view_def)
  then show "readable conv p s'" using n(2) by (auto simp: readable_def)
qed

definition placed :: "u32 \<Rightarrow> byte list \<Rightarrow> u32 \<Rightarrow> 'a console_scheme \<Rightarrow> bool" where
  "placed conv cs p s \<longleftrightarrow> (\<forall>j \<le> length cs. view (memory s) p j = (cs @ [0]) ! j \<and> \<not> overwritten conv (p + of_nat j))"

lemma placed_output: "only_output conv s s' \<Longrightarrow> placed conv cs p s \<Longrightarrow> placed conv cs p s'"
  by (simp add: placed_def view_def only_output_memory)

lemma placed_tl: "placed conv (c # cs) (p + of_nat i) s \<Longrightarrow> placed conv cs (p + of_nat (Suc i)) s"
  unfolding placed_def view_def by (force simp: algebra_simps dest: spec [of _ "Suc _"])

lemma placed_hd: "placed conv (c # cs) (p + of_nat i) s \<Longrightarrow> view (memory s) p i = c"
  by (auto simp: placed_def view_def dest: spec [of _ 0])

text \<open>One conversion.\<close>

lemma conversion_total:
  assumes "can_print conv s" "c = 115 \<Longrightarrow> readable conv v s"
  shows "\<exists>s'. (if c = 120 then printf_x alternate conv v s else if c = 117 then printf_u conv v s
      else if c = 100 then printf_d conv v s else if c = 99 then putc (ucast v) s
      else if c = (115 :: byte) then do { (n, s1) \<leftarrow> puts v s; Some s1 } else Some s) = Some s' \<and> only_output conv s s'"
proof -
  consider "c = 120" | "c = 117" | "c = 100" | "c = 99" | "c = 115" | "c \<notin> {120, 117, 100, 99, 115}" by blast
  then show ?thesis
  proof cases
    case 4
    then show ?thesis using putc_total [OF assms(1)] by auto
  next
    case 5
    with assms(2) obtain n where "view (memory s) v n = 0" "\<And>j. j \<le> n \<Longrightarrow> \<not> in_video (v + of_nat j)"
      unfolding readable_def overwritten_def by blast
    from puts_total [OF assms(1) this] show ?thesis using 5 by auto
  qed (use printf_x_total printf_u_total printf_d_total assms(1) in auto)
qed

lemma printf_total:
  assumes "fmt_ok S in_conv cs args" "can_print conv s" "placed conv cs (p + of_nat i) s" "0 \<notin> set cs" "\<forall>v \<in> S. readable conv v s"
  shows "\<exists>n s'. (if in_conv then do { (i', args', s1) \<leftarrow> printf_conv alternate conv p i args s; printf_loop conv p (Suc i') args' s1 }
      else printf_loop conv p i args s) = Some (n, s') \<and> only_output conv s s'"
  using assms
proof (induction S in_conv cs args arbitrary: alternate i s rule: fmt_ok.induct)
  case (1 S in_conv args)
  have "view (memory s) p i = 0" using 1(3) by (simp add: placed_def view_def)
  then show ?case using 1(1) by (simp add: printf_loop.simps)
next
  case (2 S c cs args)
  note c = placed_hd [OF 2(4)]
  show ?case
  proof (cases "c = 37")
    case True
    then have e: "printf_loop conv p i args s = do { (i', args', s1) \<leftarrow> printf_conv False conv p (Suc i) args s; printf_loop conv p (Suc i') args' s1 }"
      using c by (subst printf_loop.simps) simp
    show ?thesis using 2(1) [of s "Suc i" False] 2(2-) placed_tl [OF 2(4)] True by (simp add: e)
  next
    case False
    obtain s1 where s1: "putc c s = Some s1" "only_output conv s s1" using putc_total [OF 2(3)] by blast
    have e: "printf_loop conv p i args s = printf_loop conv p (Suc i) args s1"
      using c False s1(1) 2(5) by (subst printf_loop.simps) (auto simp: Let_def)
    have "\<exists>n s'. printf_loop conv p (Suc i) args s1 = Some (n, s') \<and> only_output conv s1 s'"
      using 2(1) [of s1 "Suc i" False] 2(2,5,6) False can_print_output [OF 2(3) s1(2)] placed_output [OF s1(2) placed_tl [OF 2(4)]] readable_output [OF s1(2)]
      by simp
    then show ?thesis using only_output_trans [OF s1(2)] by (auto simp: e)
  qed
next
  case (3 S c cs args)
  note c = placed_hd [OF 3(6)]
  show ?case
  proof (cases "c = 35")
    case True
    then have "printf_conv alternate conv p i args s = printf_conv True conv p (Suc i) args s"
      using c by (subst printf_conv.simps) simp
    then show ?thesis using 3(1) [of s "Suc i" True] 3(4-) placed_tl [OF 3(6)] True by simp
  next
    case F: False
    have go: "\<exists>n s'. printf_loop conv p (Suc i) args' s1 = Some (n, s') \<and> only_output conv s1 s'"
      if "only_output conv s s1" "fmt_ok S False cs args'" "args' = (if c \<in> {120, 117, 100, 99, 115} then tl args else args)" for s1 args'
      using that 3(2,3) [of s1 "Suc i" False] F 3(7,8) can_print_output [OF 3(5) that(1)] placed_output [OF that(1) placed_tl [OF 3(6)]] readable_output [OF that(1)]
      by (auto split: if_splits)
    show ?thesis
    proof (cases "c \<in> {120, 117, 100, 99, 115}")
      case True
      then obtain v args' where a: "args = v # args'" "c = 115 \<Longrightarrow> v \<in> S" "fmt_ok S False cs args'" using 3(4) F by (cases args) auto
      obtain s1 where s1: "(if c = 120 then printf_x alternate conv v s else if c = 117 then printf_u conv v s
          else if c = 100 then printf_d conv v s else if c = 99 then putc (ucast v) s
          else if c = (115 :: byte) then do { (n, s1) \<leftarrow> puts v s; Some s1 } else Some s) = Some s1" "only_output conv s s1"
        using conversion_total [OF 3(5), of c v alternate] a(2) 3(8) by blast
      have "printf_conv alternate conv p i args s = Some (i, args', s1)"
        using True s1(1) c a(1) by (subst printf_conv.simps) (auto simp: Let_def Option.bind_eq_Some_conv)
      then show ?thesis using go [OF s1(2) a(3)] True a(1) only_output_trans [OF s1(2)] by auto
    next
      case False
      obtain s1 where s1: "printf_conv alternate conv p i args s = Some (i, args, s1)" "only_output conv s s1"
      proof (cases "c = 37")
        case True
        obtain s1 where "putc 37 s = Some s1" "only_output conv s s1" using putc_total [OF 3(5)] by blast
        then show thesis using True c by (intro that [of s1]) (subst printf_conv.simps, simp)
      next
        case n: False
        then show thesis using False F c by (intro that [of s]) (subst printf_conv.simps, simp_all add: Let_def)
      qed
      then show ?thesis using go [OF s1(2), of args] False F 3(4) only_output_trans [OF s1(2)] by auto
    qed
  qed
qed

lemma printf_output:
  assumes "can_print conv s" "placed conv cs p s" "0 \<notin> set cs" "fmt_ok S False cs args" "\<forall>v \<in> S. readable conv v s"
  shows "\<exists>n s'. printf conv p args s = Some (n, s') \<and> only_output conv s s'"
  using printf_total [OF assms(4,1), of p 0 False] assms(2,3,5) by (simp add: printf_def)

end
