(* ===== verification/Boot.thy ===== *)
theory Boot
  imports Kernel Printf_Output
begin

unbundle bit_operations_syntax

text \<open>
  The kernel's entry point, \<^verbatim>\<open>entry\<close> of \<^verbatim>\<open>kernel.c\<close>, with the segment descriptors of
  \<^verbatim>\<open>x86_desc.h\<close> and the information a Multiboot loader leaves in memory, \<^verbatim>\<open>multiboot.h\<close>.

  The boot messages are printed by the model's \<open>printf\<close> on the format strings in memory.  Until the first
  process runs, \<^verbatim>\<open>putc\<close> takes the terminal from a null process control block, which is the byte at
  physical address 21 (\<open>putc_terminal\<close>): the messages appear, and the boot goes on, when that byte is
  the number of a terminal; otherwise \<^verbatim>\<open>putc\<close> indexes its tables out of bounds and \<open>entry\<close> has no value.

  The addresses the linker and the compiler choose, also those of the string literals and of \<^verbatim>\<open>printf\<close>'s
  local buffer, are a parameter (\<open>link_map\<close>).

  \<^verbatim>\<open>entry\<close> is taken as one step: the interrupts that \<^verbatim>\<open>sti\<close> turns on shortly before its end are served once it
  has reached its idle loop.
\<close>

section \<open>Segment descriptors\<close>

record seg_desc_t =
  seg_lim_15_00 :: u16
  base_15_00 :: u16
  base_23_16 :: byte
  seg_type :: "4 word"
  seg_sys :: bool
  seg_dpl :: "2 word"
  seg_present :: bool
  seg_lim_19_16 :: "4 word"
  seg_avail :: bool
  seg_reserved :: bool
  seg_opsize :: bool
  seg_granularity :: bool
  base_31_24 :: byte

text \<open>The two macros have the same body.\<close>

definition SET_LDT_PARAMS :: "u32 \<Rightarrow> u32 \<Rightarrow> seg_desc_t \<Rightarrow> seg_desc_t" where
  "SET_LDT_PARAMS addr lim d = d
    \<lparr>base_31_24 := ucast (drop_bit 24 (addr AND 0xFF000000)), base_23_16 := ucast (drop_bit 16 (addr AND 0x00FF0000)),
     base_15_00 := ucast (addr AND 0x0000FFFF), seg_lim_19_16 := ucast (drop_bit 16 (lim AND 0x000F0000)),
     seg_lim_15_00 := ucast (lim AND 0x0000FFFF)\<rparr>"

definition SET_TSS_PARAMS :: "u32 \<Rightarrow> u32 \<Rightarrow> seg_desc_t \<Rightarrow> seg_desc_t" where
  "SET_TSS_PARAMS addr lim d = d
    \<lparr>base_31_24 := ucast (drop_bit 24 (addr AND 0xFF000000)), base_23_16 := ucast (drop_bit 16 (addr AND 0x00FF0000)),
     base_15_00 := ucast (addr AND 0x0000FFFF), seg_lim_19_16 := ucast (drop_bit 16 (lim AND 0x000F0000)),
     seg_lim_15_00 := ucast (lim AND 0x0000FFFF)\<rparr>"

abbreviation (input) KERNEL_DS :: u16 where "KERNEL_DS \<equiv> 0x18"
abbreviation (input) KERNEL_TSS :: u16 where "KERNEL_TSS \<equiv> 0x30"
abbreviation (input) KERNEL_LDT :: u16 where "KERNEL_LDT \<equiv> 0x38"
abbreviation (input) TSS_SIZE :: u32 where "TSS_SIZE \<equiv> 104"

section \<open>State\<close>

record boot_state =
  tables :: idt_state
  ldt_desc_ptr :: seg_desc_t
  tss_desc_ptr :: seg_desc_t
  tss_ldt_segment_selector :: u16
  tss_ss0 :: u16
  ldtr :: u16
  task_register :: u16
  threads :: sched

text \<open>Where the linker and the compiler put things: a string literal by its text.\<close>

record link_map =
  handler_at :: "handler \<Rightarrow> u32"
  idt_at :: u32
  ldt_at :: u32
  tss_at :: u32
  page_directory_at :: u32
  kernel_page_table_at :: u32
  user_page_table_at :: u32
  literal_at :: "string \<Rightarrow> u32"
  conv_buf_at :: u32

text \<open>Local descriptor variables start with whatever the stack holds; every field of them is set.\<close>

definition the_ldt_desc :: "u32 \<Rightarrow> seg_desc_t \<Rightarrow> seg_desc_t" where
  "the_ldt_desc at d = SET_LDT_PARAMS at 31 (d\<lparr>seg_granularity := False, seg_opsize := True, seg_reserved := False,
     seg_avail := False, seg_present := True, seg_dpl := 0, seg_sys := False, seg_type := 2\<rparr>)"

definition the_tss_desc :: "u32 \<Rightarrow> seg_desc_t \<Rightarrow> seg_desc_t" where
  "the_tss_desc at d = SET_TSS_PARAMS at 103 (d\<lparr>seg_granularity := False, seg_opsize := False, seg_reserved := False,
     seg_avail := False, seg_lim_19_16 := ucast (TSS_SIZE AND 0x000F0000), seg_present := True, seg_dpl := 0,
     seg_sys := False, seg_type := 9, seg_lim_15_00 := ucast (TSS_SIZE AND 0x0000FFFF)\<rparr>)"

definition init_segments :: "link_map \<Rightarrow> seg_desc_t \<Rightarrow> boot_state \<Rightarrow> boot_state" where
  "init_segments lm d b =
    (let b = b\<lparr>ldt_desc_ptr := the_ldt_desc (ldt_at lm) d\<rparr>;
         b = b\<lparr>ldtr := KERNEL_LDT\<rparr>;
         b = b\<lparr>tss_desc_ptr := the_tss_desc (tss_at lm) d\<rparr>;
         b = b\<lparr>tss_ldt_segment_selector := KERNEL_LDT, tss_ss0 := KERNEL_DS,
               threads := (threads b)\<lparr>kern := (kern (threads b))\<lparr>tss_esp0 := 0x800000\<rparr>\<rparr>\<rparr>
     in b\<lparr>task_register := KERNEL_TSS\<rparr>)"

section \<open>The loader's information\<close>

definition CHECK_FLAG :: "u32 \<Rightarrow> nat \<Rightarrow> bool" where
  "CHECK_FLAG flags b \<longleftrightarrow> flags AND push_bit b 1 \<noteq> 0"

text \<open>A field of a structure in memory, by its offset.\<close>

definition field :: "u32 \<Rightarrow> nat \<Rightarrow> 'a machine_scheme \<Rightarrow> u32" where
  "field p off s = ld32 (memory s) (p + of_nat off)"

abbreviation (input) mbi_flags :: nat where "mbi_flags \<equiv> 0"
abbreviation (input) mbi_mods_count :: nat where "mbi_mods_count \<equiv> 20"
abbreviation (input) mbi_mods_addr :: nat where "mbi_mods_addr \<equiv> 24"
abbreviation (input) mbi_mmap_length :: nat where "mbi_mmap_length \<equiv> 44"
abbreviation (input) mbi_mmap_addr :: nat where "mbi_mmap_addr \<equiv> 48"
abbreviation (input) FILE_SYSTEM_STRING :: u32 where "FILE_SYSTEM_STRING \<equiv> 8201"
abbreviation (input) MULTIBOOT_BOOTLOADER_MAGIC :: u32 where "MULTIBOOT_BOOTLOADER_MAGIC \<equiv> 0x2BADB002"

text \<open>\<^verbatim>\<open>printf\<close> with a literal as its format.\<close>

definition boot_print :: "link_map \<Rightarrow> string \<Rightarrow> u32 list \<Rightarrow> sys \<Rightarrow> sys option" where
  "boot_print lm f args s = map_option snd (printf (conv_buf_at lm) (literal_at lm f) args s)"

text \<open>The body of the loop over the modules.\<close>

definition boot_module :: "link_map \<Rightarrow> u32 \<Rightarrow> u32 \<Rightarrow> sys \<Rightarrow> sys option" where
  "boot_module lm mod_count md s = do {
     s \<leftarrow> boot_print lm (ln ''Module %d loaded at address: 0x%#x'') [mod_count, field md 0 s] s;
     s \<leftarrow> boot_print lm (ln ''Module %d ends at address: 0x%#x'') [mod_count, field md 4 s] s;
     s \<leftarrow> boot_print lm (ln ''First few bytes of module:'') [] s;
     s \<leftarrow> fold (\<lambda>i r. do { s \<leftarrow> r; boot_print lm ''0x%x '' [scast (memory s (field md 0 s + of_nat i))] s }) [0..<16] (Some s);
     s \<leftarrow> boot_print lm (ln '''') [] s;
     Some (if field md 8 s = FILE_SYSTEM_STRING then fileSysInit (field md 0 s) s else s)
   }"

partial_function (option) boot_modules :: "link_map \<Rightarrow> u32 \<Rightarrow> u32 \<Rightarrow> u32 \<Rightarrow> sys \<Rightarrow> sys option" where
  "boot_modules lm mbi mod_count md s =
    (if mod_count < field mbi mbi_mods_count s
     then do { s \<leftarrow> boot_module lm mod_count md s; boot_modules lm mbi (mod_count + 1) (md + 16) s }
     else Some s)"

partial_function (option) boot_mmap :: "link_map \<Rightarrow> u32 \<Rightarrow> u32 \<Rightarrow> sys \<Rightarrow> sys option" where
  "boot_mmap lm mbi mmap s =
    (if mmap < field mbi mbi_mmap_addr s + field mbi mbi_mmap_length s
     then do {
       s \<leftarrow> boot_print lm (ln '' size = 0x%x,     base_addr = 0x%#x%#x'' @ ln ''     type = 0x%x,  length    = 0x%#x%#x'')
              [field mmap 0 s, field mmap 8 s, field mmap 4 s, field mmap 20 s, field mmap 16 s, field mmap 12 s] s;
       boot_mmap lm mbi (mmap + field mmap 0 s + 4) s
     } else Some s)"

text \<open>The ELF section table and the memory map.\<close>

definition boot_maps :: "link_map \<Rightarrow> u32 \<Rightarrow> sys \<Rightarrow> sys option" where
  "boot_maps lm mbi s = do {
     s \<leftarrow> (if CHECK_FLAG (field mbi mbi_flags s) 5
           then boot_print lm (ln ''elf_sec: num = %u, size = 0x%#x, addr = 0x%#x, shndx = 0x%#x'')
             [field mbi 28 s, field mbi 32 s, field mbi 36 s, field mbi 40 s] s else Some s);
     if CHECK_FLAG (field mbi mbi_flags s) 6 then do {
       s \<leftarrow> boot_print lm (ln ''mmap_addr = 0x%#x, mmap_length = 0x%x'') [field mbi mbi_mmap_addr s, field mbi mbi_mmap_length s] s;
       boot_mmap lm mbi (field mbi mbi_mmap_addr s) s
     } else Some s
   }"

text \<open>The report on the loader's information; \<open>Inl\<close> is the early return on flags 4 and 5.\<close>

definition boot_report :: "link_map \<Rightarrow> u32 \<Rightarrow> sys \<Rightarrow> (sys + sys) option" where
  "boot_report lm mbi s = do {
     s \<leftarrow> boot_print lm (ln ''flags = 0x%#x'') [field mbi mbi_flags s] s;
     s \<leftarrow> (if CHECK_FLAG (field mbi mbi_flags s) 0
           then boot_print lm (ln ''mem_lower = %uKB, mem_upper = %uKB'') [field mbi 4 s, field mbi 8 s] s else Some s);
     s \<leftarrow> (if CHECK_FLAG (field mbi mbi_flags s) 1 then boot_print lm (ln ''boot_device = 0x%#x'') [field mbi 12 s] s else Some s);
     s \<leftarrow> (if CHECK_FLAG (field mbi mbi_flags s) 2 then boot_print lm (ln ''cmdline = %s'') [field mbi 16 s] s else Some s);
     s \<leftarrow> (if CHECK_FLAG (field mbi mbi_flags s) 3 then boot_modules lm mbi 0 (field mbi mbi_mods_addr s) s else Some s);
     if CHECK_FLAG (field mbi mbi_flags s) 4 \<and> CHECK_FLAG (field mbi mbi_flags s) 5
     then map_option Inl (boot_print lm (ln ''Both bits 4 and 5 are set.'') [] s)
     else map_option Inr (boot_maps lm mbi s)
   }"

section \<open>Starting the kernel\<close>

definition init_kernel :: "link_map \<Rightarrow> sys \<Rightarrow> sys" where
  "init_kernel lm s =
    (let s = clear s;
         s = i8259_init s;
         s = RTC_init s;
         s = PITinit s;
         s = enable_irq 0 s;
         s = enable_irq 1 s;
         s = enable_irq 2 s;
         s = enable_irq 8 s;
         s = init_paging (page_directory_at lm) (kernel_page_table_at lm) (user_page_table_at lm) s;
         s = sti s;
         s = initialize_fops s;
         s = initialize_PCB_pointers s
     in snd (terminalOpen s))"

text \<open>How \<^verbatim>\<open>entry\<close> ends: in its idle loop, or by a return to \<^verbatim>\<open>boot.S\<close>, which halts the processor.\<close>

datatype boot_result = Idle boot_state | Halted boot_state

definition on_kern :: "(sys \<Rightarrow> sys) \<Rightarrow> boot_state \<Rightarrow> boot_state" where
  "on_kern f b = b\<lparr>threads := (threads b)\<lparr>kern := f (kern (threads b))\<rparr>\<rparr>"

definition entry :: "link_map \<Rightarrow> seg_desc_t \<Rightarrow> u32 \<Rightarrow> u32 \<Rightarrow> boot_state \<Rightarrow> boot_result option" where
  "entry lm d magic addr b = do {
     let b = on_kern clear b;
     let b = b\<lparr>tables := init_idt (handler_at lm) (idt_at lm) (tables b)\<rparr>;
     if magic \<noteq> MULTIBOOT_BOOTLOADER_MAGIC
     then do {
       s \<leftarrow> boot_print lm (ln ''Invalid magic number: 0x%#x'') [magic] (kern (threads b));
       Some (Halted (on_kern (\<lambda>_. s) b))
     } else do {
       r \<leftarrow> boot_report lm addr (kern (threads b));
       case r of
         Inl s \<Rightarrow> Some (Halted (on_kern (\<lambda>_. s) b))
       | Inr s \<Rightarrow> Some (Idle (on_kern (init_kernel lm) (init_segments lm d (on_kern (\<lambda>_. s) b))))
     }
   }"

section \<open>Boot messages\<close>

definition boot_literals :: "string list" where
  "boot_literals = [ln ''Invalid magic number: 0x%#x'', ln ''flags = 0x%#x'', ln ''mem_lower = %uKB, mem_upper = %uKB'',
     ln ''boot_device = 0x%#x'', ln ''cmdline = %s'', ln ''Module %d loaded at address: 0x%#x'',
     ln ''Module %d ends at address: 0x%#x'', ln ''First few bytes of module:'', ''0x%x '', ln '''',
     ln ''Both bits 4 and 5 are set.'', ln ''elf_sec: num = %u, size = 0x%#x, addr = 0x%#x, shndx = 0x%#x'',
     ln ''mmap_addr = 0x%#x, mmap_length = 0x%x'',
     ln '' size = 0x%x,     base_addr = 0x%#x%#x'' @ ln ''     type = 0x%x,  length    = 0x%#x%#x'']"

text \<open>Messages can be printed: \<^verbatim>\<open>putc\<close> has a terminal, and the literals are in memory, out of the way of the output.\<close>

definition can_report :: "link_map \<Rightarrow> sys \<Rightarrow> bool" where
  "can_report lm s \<longleftrightarrow> can_print (conv_buf_at lm) s
     \<and> (\<forall>f \<in> set boot_literals. placed (conv_buf_at lm) (chars f) (literal_at lm f) s)"

definition outside :: "link_map \<Rightarrow> u32 \<Rightarrow> nat \<Rightarrow> bool" where
  "outside lm p n \<longleftrightarrow> (\<forall>i < n. \<not> overwritten (conv_buf_at lm) (p + of_nat i))"

text \<open>Output, but the file system may have been found.\<close>

definition reported :: "link_map \<Rightarrow> sys \<Rightarrow> sys \<Rightarrow> bool" where
  "reported lm s s' \<longleftrightarrow> only_output (conv_buf_at lm) (s\<lparr>bootMemAddr := bootMemAddr s'\<rparr>) s'"

lemma only_output_boot: "only_output conv s s' \<Longrightarrow> bootMemAddr s' = bootMemAddr s"
  by (auto simp: only_output_def elim!: out_onlyE)

lemma only_output_bootMemAddr: "only_output conv s s' \<Longrightarrow> only_output conv (s\<lparr>bootMemAddr := b\<rparr>) (s'\<lparr>bootMemAddr := b\<rparr>)"
proof -
  assume o: "only_output conv s s'"
  then obtain m log d x y where s': "s' = s\<lparr>memory := m, io_out := log, df_flag := d, screen_x := x, screen_y := y\<rparr>"
    unfolding only_output_def by (blast elim: out_onlyE)
  show ?thesis using o unfolding only_output_def s' by (simp add: console_wf_def out_only_def out_update_def)
qed

lemma reported_output: "only_output (conv_buf_at lm) s s' \<Longrightarrow> reported lm s s'"
  using only_output_boot [of _ s s'] by (simp add: reported_def)

lemma reported_refl [simp]: "reported lm s s"
  by (simp add: reported_def)

lemma reported_trans:
  assumes "reported lm a b" "reported lm b c"
  shows "reported lm a c"
proof -
  have "only_output (conv_buf_at lm) (a\<lparr>bootMemAddr := bootMemAddr c\<rparr>) (b\<lparr>bootMemAddr := bootMemAddr c\<rparr>)"
    using only_output_bootMemAddr [OF assms(1) [unfolded reported_def], of "bootMemAddr c"] by simp
  then show ?thesis using assms(2) only_output_trans unfolding reported_def by blast
qed

lemma reported_fileSysInit: "reported lm s (fileSysInit b s)"
  by (simp add: reported_def fileSysInit_def)

lemma reported_memory: "reported lm s s' \<Longrightarrow> \<not> overwritten (conv_buf_at lm) a \<Longrightarrow> memory s' a = memory s a"
  by (simp add: reported_def only_output_def)

lemma reported_field:
  assumes "reported lm s s'" "outside lm p n" "off + 4 \<le> n"
  shows "field p off s' = field p off s"
  unfolding field_def
proof (rule ld32_cong)
  fix i :: nat assume "i < 4"
  then have "off + i < n" using assms(3) by simp
  with assms(2) have "\<not> overwritten (conv_buf_at lm) (p + of_nat (off + i))" unfolding outside_def by blast
  then show "memory s' (p + of_nat off + of_nat i) = memory s (p + of_nat off + of_nat i)"
    using reported_memory [OF assms(1)] by (simp add: add.assoc)
qed

lemma can_report_output:
  assumes "can_report lm s" "only_output (conv_buf_at lm) s s'"
  shows "can_report lm s'"
  using assms can_print_output placed_output unfolding can_report_def by blast

lemma can_report_reported:
  assumes "can_report lm s" "reported lm s s'"
  shows "can_report lm s'"
proof (rule can_report_output)
  show "only_output (conv_buf_at lm) (s\<lparr>bootMemAddr := bootMemAddr s'\<rparr>) s'" using assms(2) by (simp add: reported_def)
  have "putc_terminal (s\<lparr>bootMemAddr := bootMemAddr s'\<rparr>) = putc_terminal s"
    by (simp add: putc_terminal_def process_terminal_def pcb_of_def pcb_place_def split: option.split)
  then show "can_report lm (s\<lparr>bootMemAddr := bootMemAddr s'\<rparr>)"
    using assms(1) by (simp add: can_report_def can_print_def console_wf_def placed_def)
qed

section \<open>The report leaves the rest alone\<close>

text \<open>A computation that returns, with a state in the given set: the rules below walk through a sequence of prints.\<close>

definition runs :: "'a option \<Rightarrow> ('a \<Rightarrow> bool) \<Rightarrow> bool" where
  "runs r Q \<longleftrightarrow> (\<exists>x. r = Some x \<and> Q x)"

lemma runs_Some [simp]: "runs (Some x) Q \<longleftrightarrow> Q x"
  by (simp add: runs_def)

lemma runs_bind: "runs r Q \<Longrightarrow> (\<And>x. Q x \<Longrightarrow> runs (f x) R) \<Longrightarrow> runs (r \<bind> f) R"
  by (auto simp: runs_def)

lemma runs_if: "(c \<Longrightarrow> runs r Q) \<Longrightarrow> (\<not> c \<Longrightarrow> runs r' Q) \<Longrightarrow> runs (if c then r else r') Q"
  by simp

lemma runs_fold:
  assumes "Q s" "\<And>i s. Q s \<Longrightarrow> runs (f i s) Q"
  shows "runs (fold (\<lambda>i r. r \<bind> f i) is (Some s)) Q"
  using assms(1)
proof (induction "is" arbitrary: s)
  case (Cons i "is")
  obtain s1 where "f i s = Some s1" "Q s1" using assms(2) [OF Cons.prems] by (auto simp: runs_def)
  then show ?case using Cons.IH by simp
qed simp

lemma boot_literals_bytes: "\<forall>f \<in> set boot_literals. 0 \<notin> set (chars f)"
  by code_simp

lemma boot_print_runs:
  assumes "can_report lm a" "only_output (conv_buf_at lm) a s" "f \<in> set boot_literals" "fmt_ok S False (chars f) args"
    and "\<forall>v \<in> S. readable (conv_buf_at lm) v a"
  shows "runs (boot_print lm f args s) (only_output (conv_buf_at lm) a)"
proof -
  let ?c = "conv_buf_at lm"
  have "can_print ?c s" "placed ?c (chars f) (literal_at lm f) s"
    using can_report_output [OF assms(1,2)] assms(3) by (auto simp: can_report_def)
  moreover have "\<forall>v \<in> S. readable ?c v s" using readable_output [OF assms(2)] assms(5) by blast
  ultimately obtain n s' where "printf ?c (literal_at lm f) args s = Some (n, s')" "only_output ?c s s'"
    using printf_output [of ?c s "chars f"] boot_literals_bytes assms(3,4) by blast
  then show ?thesis using only_output_trans [OF assms(2)] by (simp add: runs_def boot_print_def)
qed

text \<open>Every message has an argument for each of its conversions.\<close>

lemma boot_formats:
  "fmt_ok S False (chars (ln ''flags = 0x%#x'')) [a]" "fmt_ok S False (chars (ln ''mem_lower = %uKB, mem_upper = %uKB'')) [a, b]"
  "fmt_ok S False (chars (ln ''boot_device = 0x%#x'')) [a]" "fmt_ok {p} False (chars (ln ''cmdline = %s'')) [p]"
  "fmt_ok S False (chars (ln ''Module %d loaded at address: 0x%#x'')) [a, b]" "fmt_ok S False (chars (ln ''Module %d ends at address: 0x%#x'')) [a, b]"
  "fmt_ok S False (chars (ln ''First few bytes of module:'')) []" "fmt_ok S False (chars ''0x%x '') [a]" "fmt_ok S False (chars (ln '''')) []"
  "fmt_ok S False (chars (ln ''elf_sec: num = %u, size = 0x%#x, addr = 0x%#x, shndx = 0x%#x'')) [a, b, c, d]"
  "fmt_ok S False (chars (ln ''mmap_addr = 0x%#x, mmap_length = 0x%x'')) [a, b]"
  "fmt_ok S False (chars (ln '' size = 0x%x,     base_addr = 0x%#x%#x'' @ ln ''     type = 0x%x,  length    = 0x%#x%#x'')) [a, b, c, d, e, f]"
  by (simp_all add: chars_def ln_def)

lemma boot_message:
  assumes "can_report lm a" "only_output (conv_buf_at lm) a s" "fmt_ok {} False (chars f) args" "f \<in> set boot_literals"
  shows "runs (boot_print lm f args s) (only_output (conv_buf_at lm) a)"
  using boot_print_runs [OF assms(1,2,4,3)] by simp

lemma boot_module_reported:
  assumes "can_report lm s" "outside lm md 16"
  shows "runs (boot_module lm n md s) (\<lambda>s'. reported lm s s'
    \<and> bootMemAddr s' = (if field md 8 s = FILE_SYSTEM_STRING then field md 0 s else bootMemAddr s))"
proof -
  let ?o = "only_output (conv_buf_at lm) s"
  have last: "reported lm s (if field md 8 s' = FILE_SYSTEM_STRING then fileSysInit (field md 0 s') s' else s')
      \<and> bootMemAddr (if field md 8 s' = FILE_SYSTEM_STRING then fileSysInit (field md 0 s') s' else s')
        = (if field md 8 s = FILE_SYSTEM_STRING then field md 0 s else bootMemAddr s)" if o: "?o s'" for s'
  proof -
    have "field md 0 s' = field md 0 s" "field md 8 s' = field md 8 s"
      using reported_field [OF reported_output [OF o] assms(2)] by simp_all
    then show ?thesis
      using reported_output [OF o] reported_trans [OF reported_output [OF o] reported_fileSysInit] only_output_boot [OF o]
      by (simp add: fileSysInit_def)
  qed
  note p = boot_message [OF assms(1)]
  show ?thesis unfolding boot_module_def
    by (rule runs_bind [where Q = ?o] runs_fold p boot_formats only_output_refl | assumption | simp add: boot_literals_def last)+
qed

text \<open>Where the file system starts: at the last module with the file system's mark.\<close>

definition module_at :: "u32 \<Rightarrow> nat \<Rightarrow> u32" where
  "module_at mods j = mods + of_nat (16 * j)"

definition fs_start :: "u32 \<Rightarrow> nat \<Rightarrow> nat \<Rightarrow> sys \<Rightarrow> u32" where
  "fs_start mods k n s = fold (\<lambda>j b. if field (module_at mods j) 8 s = FILE_SYSTEM_STRING
     then field (module_at mods j) 0 s else b) [k..<n] (bootMemAddr s)"

lemma boot_modules_done:
  assumes "outside lm mbi 52" "can_report lm s" "unat (field mbi mbi_mods_count s) = n"
    and "\<And>j. j < n \<Longrightarrow> outside lm (module_at mods j) 16" "k \<le> n"
  shows "runs (boot_modules lm mbi (of_nat k) (module_at mods k) s) (\<lambda>s'. reported lm s s' \<and> bootMemAddr s' = fs_start mods k n s)"
  using assms(2,3,5)
proof (induction "n - k" arbitrary: k s)
  case 0
  then have "\<not> of_nat k < field mbi mbi_mods_count s" by (auto simp: word_less_nat_alt unat_of_nat_32 less_imp_le)
  then show ?case using 0 by (subst boot_modules.simps) (simp add: fs_start_def)
next
  case (Suc d)
  then have k: "k < n" "d = n - Suc k" "Suc k \<le> n" by auto
  have n: "n < 2 ^ 32" using Suc.prems(2) unat_lt_2p32 by blast
  let ?md = "module_at mods k"
  obtain s1 where m: "boot_module lm (of_nat k) ?md s = Some s1" "reported lm s s1"
      "bootMemAddr s1 = (if field ?md 8 s = FILE_SYSTEM_STRING then field ?md 0 s else bootMemAddr s)"
    using boot_module_reported [OF Suc.prems(1) assms(4) [OF k(1)]] by (auto simp: runs_def)
  have c: "unat (field mbi mbi_mods_count s1) = n" using reported_field [OF m(2) assms(1)] Suc.prems(2) by simp
  have f: "field (module_at mods j) 8 s1 = field (module_at mods j) 8 s"
      "field (module_at mods j) 0 s1 = field (module_at mods j) 0 s" if "j < n" for j
    using reported_field [OF m(2) assms(4) [OF that]] by simp_all
  have ih: "runs (boot_modules lm mbi (of_nat (Suc k)) (module_at mods (Suc k)) s1)
      (\<lambda>s'. reported lm s1 s' \<and> bootMemAddr s' = fs_start mods (Suc k) n s1)"
    by (rule Suc.hyps(1) [OF k(2) can_report_reported [OF Suc.prems(1) m(2)] c k(3)])
  have "of_nat k < field mbi mbi_mods_count s" using k n Suc.prems(2) by (simp add: word_less_nat_alt unat_of_nat_32)
  then have "boot_modules lm mbi (of_nat k) ?md s = boot_modules lm mbi (of_nat (Suc k)) (module_at mods (Suc k)) s1"
    using m(1) by (subst boot_modules.simps) (simp add: module_at_def algebra_simps)
  moreover have "fs_start mods (Suc k) n s1 = fs_start mods k n s"
  proof -
    have "fs_start mods (Suc k) n s1 = fold (\<lambda>j b. if field (module_at mods j) 8 s = FILE_SYSTEM_STRING
        then field (module_at mods j) 0 s else b) [Suc k..<n] (bootMemAddr s1)"
      unfolding fs_start_def by (rule List.fold_cong) (auto simp: f)
    then show ?thesis by (simp add: fs_start_def upt_conv_Cons [OF k(1)] m(3))
  qed
  ultimately show ?case using ih reported_trans [OF m(2)] by (auto simp: runs_def)
qed

text \<open>A memory map of the loader: a chain of entries that ends after \<open>n\<close> of them.\<close>

fun mmap_chain :: "link_map \<Rightarrow> nat \<Rightarrow> u32 \<Rightarrow> u32 \<Rightarrow> sys \<Rightarrow> bool" where
  "mmap_chain lm 0 p e s \<longleftrightarrow> \<not> p < e"
| "mmap_chain lm (Suc n) p e s \<longleftrightarrow> p < e \<and> outside lm p 24 \<and> mmap_chain lm n (p + field p 0 s + 4) e s"

lemma mmap_chain_reported: "reported lm s s' \<Longrightarrow> mmap_chain lm n p e s \<Longrightarrow> mmap_chain lm n p e s'"
  by (induction n arbitrary: p) (auto simp: reported_field)

lemma boot_mmap_done:
  assumes "outside lm mbi 52"
  shows "can_report lm s \<Longrightarrow> mmap_chain lm n p (field mbi mbi_mmap_addr s + field mbi mbi_mmap_length s) s \<Longrightarrow>
    runs (boot_mmap lm mbi p s) (only_output (conv_buf_at lm) s)"
proof (induction n arbitrary: p s)
  case 0
  then show ?case by (subst boot_mmap.simps) simp
next
  case (Suc n)
  let ?e = "\<lambda>s. field mbi mbi_mmap_addr s + field mbi mbi_mmap_length s"
  have next_entry: "runs (boot_mmap lm mbi (p + field p 0 s1 + 4) s1) (only_output (conv_buf_at lm) s)"
    if o: "only_output (conv_buf_at lm) s s1" for s1
  proof -
    note r = reported_output [OF o]
    have e: "?e s1 = ?e s" "field p 0 s1 = field p 0 s"
      using reported_field [OF r assms] reported_field [OF r, of p 24 0] Suc.prems(2) by simp_all
    have "mmap_chain lm n (p + field p 0 s + 4) (?e s) s1" using mmap_chain_reported [OF r] Suc.prems(2) by simp
    then show ?thesis
      using Suc.IH [OF can_report_output [OF Suc.prems(1) o]] e only_output_trans [OF o] by (auto simp: runs_def)
  qed
  have "p < ?e s" using Suc.prems(2) by simp
  then show ?case
    by (subst boot_mmap.simps)
       (simp only: if_True, rule runs_bind [OF boot_message [OF Suc.prems(1) only_output_refl boot_formats(12)]],
        simp add: boot_literals_def, rule next_entry)
qed

section \<open>The report\<close>

text \<open>
  Information of the loader that \<^verbatim>\<open>entry\<close> can use: it is not overwritten by the messages, lists modules, does not
  set both flags 4 and 5, its command line is a string and a memory map, if there is one, ends.
\<close>

definition info_ok :: "link_map \<Rightarrow> u32 \<Rightarrow> sys \<Rightarrow> bool" where
  "info_ok lm mbi s \<longleftrightarrow> outside lm mbi 52 \<and> CHECK_FLAG (field mbi mbi_flags s) 3
     \<and> \<not> (CHECK_FLAG (field mbi mbi_flags s) 4 \<and> CHECK_FLAG (field mbi mbi_flags s) 5)
     \<and> (CHECK_FLAG (field mbi mbi_flags s) 2 \<longrightarrow> readable (conv_buf_at lm) (field mbi 16 s) s)
     \<and> (\<forall>j < unat (field mbi mbi_mods_count s). outside lm (module_at (field mbi mbi_mods_addr s) j) 16)
     \<and> (CHECK_FLAG (field mbi mbi_flags s) 6 \<longrightarrow>
          (\<exists>n. mmap_chain lm n (field mbi mbi_mmap_addr s) (field mbi mbi_mmap_addr s + field mbi mbi_mmap_length s) s))"

definition found_fs :: "u32 \<Rightarrow> sys \<Rightarrow> u32" where
  "found_fs mbi s = fs_start (field mbi mbi_mods_addr s) 0 (unat (field mbi mbi_mods_count s)) s"

lemma fs_start_output:
  assumes "only_output (conv_buf_at lm) s s'" "\<And>j. j < n \<Longrightarrow> outside lm (module_at mods j) 16"
  shows "fs_start mods 0 n s' = fs_start mods 0 n s"
proof -
  have "field (module_at mods j) 8 s' = field (module_at mods j) 8 s"
      "field (module_at mods j) 0 s' = field (module_at mods j) 0 s" if "j < n" for j
    using reported_field [OF reported_output [OF assms(1)] assms(2) [OF that]] by simp_all
  then show ?thesis unfolding fs_start_def only_output_boot [OF assms(1)]
    by (intro List.fold_cong refl) auto
qed

lemma info_ok_output:
  assumes "only_output (conv_buf_at lm) s s'" "info_ok lm mbi s"
  shows "info_ok lm mbi s' \<and> found_fs mbi s' = found_fs mbi s"
proof -
  note r = reported_output [OF assms(1)]
  have v: "outside lm mbi 52" using assms(2) by (simp add: info_ok_def)
  note f = reported_field [OF r v]
  have m: "\<exists>n. mmap_chain lm n p e s'" if "\<exists>n. mmap_chain lm n p e s" for p e
    using that mmap_chain_reported [OF r] by blast
  show ?thesis using assms(2) f m fs_start_output [OF assms(1)] readable_output [OF assms(1)]
    unfolding info_ok_def found_fs_def by auto
qed

lemma boot_maps_done:
  assumes "can_report lm s" "outside lm mbi 52" "CHECK_FLAG (field mbi mbi_flags s) 6 \<Longrightarrow>
      \<exists>n. mmap_chain lm n (field mbi mbi_mmap_addr s) (field mbi mbi_mmap_addr s + field mbi mbi_mmap_length s) s"
  shows "runs (boot_maps lm mbi s) (only_output (conv_buf_at lm) s)"
proof -
  let ?o = "only_output (conv_buf_at lm) s"
  have map: "runs (boot_mmap lm mbi (field mbi mbi_mmap_addr s2) s2) ?o" if o: "?o s2" and c: "CHECK_FLAG (field mbi mbi_flags s) 6" for s2
  proof -
    note r = reported_output [OF o]
    obtain n where "mmap_chain lm n (field mbi mbi_mmap_addr s2) (field mbi mbi_mmap_addr s2 + field mbi mbi_mmap_length s2) s2"
      using assms(3) [OF c] mmap_chain_reported [OF r] reported_field [OF r assms(2)] by auto
    from boot_mmap_done [OF assms(2) can_report_output [OF assms(1) o] this] show ?thesis
      using only_output_trans [OF o] by (auto simp: runs_def)
  qed
  note p = boot_message [OF assms(1)]
  have flags: "field mbi mbi_flags s1 = field mbi mbi_flags s" if "?o s1" for s1
    using reported_field [OF reported_output [OF that] assms(2)] by simp
  show ?thesis unfolding boot_maps_def
  proof (rule runs_bind [where Q = ?o])
    show "runs (if CHECK_FLAG (field mbi mbi_flags s) 5
           then boot_print lm (ln ''elf_sec: num = %u, size = 0x%#x, addr = 0x%#x, shndx = 0x%#x'')
             [field mbi 28 s, field mbi 32 s, field mbi 36 s, field mbi 40 s] s else Some s) ?o"
      using p [OF only_output_refl boot_formats(10)] by (simp add: boot_literals_def)
    fix s1 assume o: "?o s1"
    show "runs (if CHECK_FLAG (field mbi mbi_flags s1) 6 then do {
       s \<leftarrow> boot_print lm (ln ''mmap_addr = 0x%#x, mmap_length = 0x%x'') [field mbi mbi_mmap_addr s1, field mbi mbi_mmap_length s1] s1;
       boot_mmap lm mbi (field mbi mbi_mmap_addr s) s } else Some s1) ?o"
    proof (rule runs_if)
      assume "CHECK_FLAG (field mbi mbi_flags s1) 6"
      then have c: "CHECK_FLAG (field mbi mbi_flags s) 6" by (simp add: flags [OF o])
      show "runs (do { s \<leftarrow> boot_print lm (ln ''mmap_addr = 0x%#x, mmap_length = 0x%x'') [field mbi mbi_mmap_addr s1, field mbi mbi_mmap_length s1] s1;
         boot_mmap lm mbi (field mbi mbi_mmap_addr s) s }) ?o"
        by (rule runs_bind [OF p [OF o boot_formats(11)]]) (simp_all add: boot_literals_def map c)
    qed (use o in simp)
  qed
qed

lemma boot_report_done:
  assumes "can_report lm s" "info_ok lm mbi s"
  shows "runs (boot_report lm mbi s) (\<lambda>r. \<exists>s'. r = Inr s' \<and> reported lm s s' \<and> bootMemAddr s' = found_fs mbi s)"
proof -
  let ?f = "field mbi mbi_flags" and ?o = "only_output (conv_buf_at lm) s"
  let ?m = "\<lambda>s'. reported lm s s' \<and> bootMemAddr s' = found_fs mbi s"
  note i = assms(2) [unfolded info_ok_def]
  have v: "outside lm mbi 52" using i by blast
  note p = boot_message [OF assms(1)]
  have modules: "runs (if CHECK_FLAG (?f s1) 3 then boot_modules lm mbi 0 (field mbi mbi_mods_addr s1) s1 else Some s1) ?m" if o: "?o s1" for s1
  proof -
    have j: "info_ok lm mbi s1" "found_fs mbi s1 = found_fs mbi s" using info_ok_output [OF o assms(2)] by simp_all
    have "runs (boot_modules lm mbi 0 (field mbi mbi_mods_addr s1) s1) (\<lambda>s'. reported lm s1 s' \<and> bootMemAddr s' = found_fs mbi s1)"
      using boot_modules_done [OF v can_report_output [OF assms(1) o] refl, of "field mbi mbi_mods_addr s1" 0] j(1)
      by (simp add: info_ok_def module_at_def found_fs_def)
    then show ?thesis using j reported_trans [OF reported_output [OF o]] by (auto simp: runs_def info_ok_def)
  qed
  have maps: "runs (if CHECK_FLAG (?f s5) 4 \<and> CHECK_FLAG (?f s5) 5 then map_option Inl (boot_print lm (ln ''Both bits 4 and 5 are set.'') [] s5)
      else map_option Inr (boot_maps lm mbi s5)) (\<lambda>r. \<exists>s'. r = Inr s' \<and> ?m s')" if r: "?m s5" for s5
  proof -
    note f = reported_field [OF conjunct1 [OF r] v]
    have "\<exists>n. mmap_chain lm n (field mbi mbi_mmap_addr s5) (field mbi mbi_mmap_addr s5 + field mbi mbi_mmap_length s5) s5" if "CHECK_FLAG (?f s5) 6"
      using that i f mmap_chain_reported [OF conjunct1 [OF r]] by fastforce
    from boot_maps_done [OF can_report_reported [OF assms(1) conjunct1 [OF r]] v this]
    obtain s6 where s6: "boot_maps lm mbi s5 = Some s6" "only_output (conv_buf_at lm) s5 s6" by (auto simp: runs_def)
    moreover have "?m s6" using r reported_trans [OF conjunct1 [OF r] reported_output [OF s6(2)]] only_output_boot [OF s6(2)] by simp
    ultimately show ?thesis using i f [of 0] by (intro runs_if) auto
  qed
  have cmdline: "runs (if CHECK_FLAG (?f s3) 2 then boot_print lm (ln ''cmdline = %s'') [field mbi 16 s3] s3 else Some s3) ?o" if o: "?o s3" for s3
  proof -
    note f = reported_field [OF reported_output [OF o] v]
    show ?thesis using boot_print_runs [OF assms(1) o _ boot_formats(4), of "field mbi 16 s"] i o f by (simp add: boot_literals_def)
  qed
  show ?thesis unfolding boot_report_def
    apply (rule runs_bind [OF p [OF only_output_refl boot_formats(1)]], simp add: boot_literals_def)
    apply (rule runs_bind [where Q = ?o], simp add: p boot_formats boot_literals_def)
    apply (rule runs_bind [where Q = ?o], simp add: p boot_formats boot_literals_def)
    apply (rule runs_bind [OF cmdline], assumption)
    apply (rule runs_bind [OF modules], assumption)
    apply (erule maps)
    done
qed

section \<open>The start of the kernel\<close>

text \<open>The global variables before anything has run: no process, paging off.\<close>

definition cold :: "boot_state \<Rightarrow> bool" where
  "cold b \<longleftrightarrow> (let s = threads b; k = kern s in console_wf k \<and> paging_wf k \<and> length (PCB_at k) = MAX_PROCESSES
     \<and> cur_pid k = 0 \<and> PCB_ptrs k = replicate MAX_PROCESSES None \<and> \<not> bit (cr0 k) 31
     \<and> length (ESPstore s) = NUM_THREADS \<and> length (EBPstore s) = NUM_THREADS \<and> length (PIDstore s) = NUM_THREADS)"

lemma irq_masked_cong: "master_mask s' = master_mask s \<Longrightarrow> slave_mask s' = slave_mask s \<Longrightarrow> irq_masked s' n = irq_masked s n"
  by (simp add: irq_masked_def)

text \<open>The devices: interrupt controller, clock and timer.\<close>

definition devices_started :: "sys \<Rightarrow> sys" where
  "devices_started s = enable_irq 8 (enable_irq 2 (enable_irq 1 (enable_irq 0 (PITinit (RTC_init (i8259_init (clear s)))))))"

lemma init_kernel_devices:
  "init_kernel lm s = snd (terminalOpen (initialize_PCB_pointers (initialize_fops (sti
     (init_paging (page_directory_at lm) (kernel_page_table_at lm) (user_page_table_at lm) (devices_started s))))))"
  by (simp add: init_kernel_def devices_started_def Let_def)

lemma devices_started_sel:
  "memory (devices_started s) = memory (clear s)" "bootMemAddr (devices_started s) = bootMemAddr (clear s)"
  "PCB_at (devices_started s) = PCB_at (clear s)" "curThread (devices_started s) = 0"
  "shellStarted (devices_started s) = replicate NUM_THREADS False" "page_directory (devices_started s) = page_directory (clear s)"
  "kernel_page_table (devices_started s) = kernel_page_table (clear s)" "user_page_table (devices_started s) = user_page_table (clear s)"
  "screen_x (devices_started s) = screen_x (clear s)" "screen_y (devices_started s) = screen_y (clear s)"
  by (simp_all add: devices_started_def enable_irq_def PITinit_def RTC_init_def i8259_init_def outb_def inb_def Let_def split_def)

lemma devices_started_irqs:
  assumes "n < 16"
  shows "\<not> irq_masked (devices_started s) n \<longleftrightarrow> n \<in> {0, 1, 2, 8}"
proof -
  let ?s = "PITinit (RTC_init (i8259_init (clear s)))"
  have "master_mask ?s = 0xFF" "slave_mask ?s = 0xFF"
    by (simp_all add: PITinit_def RTC_init_def outb_def inb_def Let_def split_def i8259_init_masks)
  then have "irq_masked ?s n" using assms bit_255 [of n] bit_255 [of "n - 8"] by (auto simp: irq_masked_def)
  then show ?thesis using assms by (simp add: devices_started_def irq_masked_enable)
qed

lemma init_paging_sel:
  fixes s :: sys
  shows "memory (init_paging pd kp up s) = memory s" "bootMemAddr (init_paging pd kp up s) = bootMemAddr s"
    "PCB_at (init_paging pd kp up s) = PCB_at s" "curThread (init_paging pd kp up s) = curThread s"
    "shellStarted (init_paging pd kp up s) = shellStarted s" "length (page_directory (init_paging pd kp up s)) = length (page_directory s)"
    "screen_x (init_paging pd kp up s) = screen_x s" "screen_y (init_paging pd kp up s) = screen_y s"
    "master_mask (init_paging pd kp up s) = master_mask s" "slave_mask (init_paging pd kp up s) = slave_mask s"
  by (simp_all add: init_paging_def Let_def loadPageDirectory_def enableMixedSizes_def clearTLB_def enablePaging_def)

lemmas kernel_start_defs = terminalOpen_def initialize_PCB_pointers_def initialize_fops_def sti_def

definition image_ready :: "exec_locals \<Rightarrow> byte list \<Rightarrow> sys \<Rightarrow> bool" where
  "image_ready loc prog k \<longleftrightarrow> image_placed k \<and> kernel_local (testBuffer_at loc) 4 k \<and> kernel_local (program_eip_at loc) 4 k
     \<and> has_program shell_name prog (memory k) (bootMemAddr k)"

lemma image_ready_same:
  assumes "image_ready loc prog k" "bootMemAddr k' = bootMemAddr k" "same_image (bootMemAddr k) (memory k) (memory k')"
  shows "image_ready loc prog k'"
proof -
  have a: "image_placed k" "kernel_local (testBuffer_at loc) 4 k" "kernel_local (program_eip_at loc) 4 k"
      "has_program shell_name prog (memory k) (bootMemAddr k)"
    using assms(1) by (simp_all add: image_ready_def)
  note si = assms(3)
  have p: "image_ok (memory k) (bootMemAddr k)" "numDirectories (memory k) (bootMemAddr k) \<le> 63" using a(1) by (simp_all add: image_placed_def)
  have "image_placed k'" using a(1) same_image_ok [OF si] same_image_header [OF si] assms(2) by (simp add: image_placed_def)
  then show ?thesis
    using kernel_local_same [OF a(2) si assms(2) refl] kernel_local_same [OF a(3) si assms(2) refl] has_program_same [OF a(4) si p] assms(2)
    by (simp add: image_ready_def)
qed

lemma image_ready_high:
  assumes "image_ready loc prog k" "bootMemAddr k' = bootMemAddr k"
    and "\<And>a. 0x400000 \<le> unat a \<Longrightarrow> unat a < 0x800000 \<Longrightarrow> memory k' a = memory k a"
  shows "image_ready loc prog k'"
proof (rule image_ready_same [OF assms(1,2)])
  have "image_placed k" using assms(1) by (simp add: image_ready_def)
  then show "same_image (bootMemAddr k) (memory k) (memory k')" using assms(3) by (rule same_image_high)
qed

lemma clear_outside: "\<not> in_video a \<Longrightarrow> memory (clear k) a = memory k a"
  by (simp add: clear_def set_cursor_def outb_def Let_def clear_loop_outside)

text \<open>Initialised, the kernel is in the state that the scheduler's first tick expects.\<close>

lemma init_kernel_fresh:
  assumes "console_wf (kern s)" "length (page_directory (kern s)) = NUM_PAGE_TABLES" "length (PCB_at (kern s)) = MAX_PROCESSES"
    and "length (ESPstore s) = NUM_THREADS" "length (EBPstore s) = NUM_THREADS" "length (PIDstore s) = NUM_THREADS"
    and "image_ready loc prog (kern s)"
  shows "fresh loc prog (s\<lparr>kern := init_kernel lm (kern s)\<rparr>) \<and> if_flag (init_kernel lm (kern s))"
proof -
  let ?k = "kern s" and ?k' = "init_kernel lm (kern s)"
  have cl: "console_wf (clear ?k)" using assms(1) by (rule clear_wf)
  obtain m' log' d' x y where c: "clear ?k = ?k\<lparr>memory := m', io_out := log', df_flag := d', screen_x := x, screen_y := y\<rparr>"
    by (rule out_onlyE [OF out_only_clear [of "kern s"]])
  have f: "memory ?k' = memory (clear ?k)" "bootMemAddr ?k' = bootMemAddr ?k" "PCB_at ?k' = PCB_at ?k" "PCB_ptrs ?k' = replicate 6 None"
    "curThread ?k' = 0" "shellStarted ?k' = replicate 3 False" "if_flag ?k'" "length (page_directory ?k') = 1024"
    using assms(2) by (simp_all add: init_kernel_devices kernel_start_defs init_paging_sel devices_started_sel) (simp_all add: c)
  have "fops_ready ?k'" by (simp add: init_kernel_devices kernel_start_defs fops_ready_def)
  then have pi: "proc_inv ?k'" using assms(3) f by (simp add: proc_inv_def proc_wf_def)
  have tw: "term_wf ?k'" using cl by (simp add: init_kernel_devices kernel_start_defs init_paging_sel devices_started_sel term_wf_def console_wf_def)
  have "image_ready loc prog ?k'" by (rule image_ready_high [OF assms(7) f(2)]) (simp add: f(1) clear_outside not_in_video_high)
  then have "system_ready loc prog ?k'" using pi tw by (simp add: image_ready_def system_ready_def)
  then show ?thesis using f assms(4-6) by (simp add: fresh_def)
qed

lemma init_kernel_irqs:
  assumes "n < 16"
  shows "\<not> irq_masked (init_kernel lm s) n \<longleftrightarrow> n \<in> {0, 1, 2, 8}"
proof -
  have "irq_masked (init_kernel lm s) n = irq_masked (devices_started s) n"
    by (rule irq_masked_cong) (simp_all add: init_kernel_devices kernel_start_defs init_paging_sel)
  then show ?thesis using devices_started_irqs [OF assms] by simp
qed

lemma init_kernel_space:
  fixes s :: sys
  assumes "paging_wf s" "take_bit 12 (kernel_page_table_at lm) = 0" "take_bit 12 (user_page_table_at lm) = 0"
    and "kernel_page_table_at lm \<noteq> user_page_table_at lm"
  shows "mmu (kernel_page_table_at lm) (user_page_table_at lm) (tlb_dir (init_kernel lm s)) (tlb_kernel (init_kernel lm s))
     (tlb_user (init_kernel lm s)) v = boot_space v"
proof -
  have "paging_wf (devices_started s)"
    using assms(1) out_only_fields(6-8) [OF out_only_clear [of s]] by (simp add: paging_wf_def devices_started_sel)
  from init_paging_space [OF this assms(2-4), of "page_directory_at lm" v]
  show ?thesis by (simp add: init_kernel_devices kernel_start_defs)
qed

section \<open>Segments\<close>

text \<open>The base and the limit the processor reads from a descriptor.\<close>

definition seg_base :: "seg_desc_t \<Rightarrow> u32" where
  "seg_base d = push_bit 24 (ucast (base_31_24 d)) OR push_bit 16 (ucast (base_23_16 d)) OR ucast (base_15_00 d)"

definition seg_limit :: "seg_desc_t \<Rightarrow> u32" where
  "seg_limit d = push_bit 16 (ucast (seg_lim_19_16 d)) OR ucast (seg_lim_15_00 d)"

lemma bit_byte_masks:
  "bit (0xFF000000 :: u32) k \<longleftrightarrow> 24 \<le> k \<and> k < 32" "bit (0x00FF0000 :: u32) k \<longleftrightarrow> 16 \<le> k \<and> k < 24" "bit (0xFFFF :: u32) k \<longleftrightarrow> k < 16"
  "bit (0xFFFF :: u16) k \<longleftrightarrow> k < 16" "bit (0xFFFF :: int) k \<longleftrightarrow> k < 16" "bit (0xFF :: byte) k \<longleftrightarrow> k < 8" "bit (0xFF :: u32) k \<longleftrightarrow> k < 8" "bit (0xFF :: int) k \<longleftrightarrow> k < 8"
proof -
  have a: "(0xFF000000 :: u32) = push_bit 24 (mask 8)" "(0x00FF0000 :: u32) = push_bit 16 (mask 8)" "(0xFFFF :: u32) = mask 16"
      "(0xFFFF :: u16) = mask 16" "(0xFFFF :: int) = mask 16" "(0xFF :: byte) = mask 8" "(0xFF :: u32) = mask 8" "(0xFF :: int) = mask 8"
    by (simp_all add: mask_eq_exp_minus_1)
  show "bit (0xFF000000 :: u32) k \<longleftrightarrow> 24 \<le> k \<and> k < 32" "bit (0x00FF0000 :: u32) k \<longleftrightarrow> 16 \<le> k \<and> k < 24" "bit (0xFFFF :: u32) k \<longleftrightarrow> k < 16"
    "bit (0xFFFF :: u16) k \<longleftrightarrow> k < 16" "bit (0xFFFF :: int) k \<longleftrightarrow> k < 16" "bit (0xFF :: byte) k \<longleftrightarrow> k < 8" "bit (0xFF :: u32) k \<longleftrightarrow> k < 8" "bit (0xFF :: int) k \<longleftrightarrow> k < 8"
    unfolding a by (auto simp: bit_mask_iff bit_push_bit_iff)
qed

lemma seg_base_SET: "seg_base (SET_LDT_PARAMS at lim d) = at" "seg_base (SET_TSS_PARAMS at lim d) = at"
proof -
  show *: "seg_base (SET_LDT_PARAMS at lim d) = at"
  proof (rule bit_word_eqI)
    fix n assume "n < LENGTH(32)"
    then have "n < 32" by simp
    moreover have "24 + (n - 24) = n" if "\<not> n < 24" using that by simp
    ultimately show "bit (seg_base (SET_LDT_PARAMS at lim d)) n = bit at n"
      by (cases "n < 24") (auto simp: seg_base_def SET_LDT_PARAMS_def bit_or_iff bit_push_bit_iff bit_ucast_iff bit_drop_bit_eq bit_and_iff bit_byte_masks)
  qed
  then show "seg_base (SET_TSS_PARAMS at lim d) = at" by (simp add: SET_TSS_PARAMS_def SET_LDT_PARAMS_def)
qed

lemma segments_ready:
  "seg_base (ldt_desc_ptr (init_segments lm d b)) = ldt_at lm" "seg_limit (ldt_desc_ptr (init_segments lm d b)) = 31"
  "seg_base (tss_desc_ptr (init_segments lm d b)) = tss_at lm" "seg_limit (tss_desc_ptr (init_segments lm d b)) = 103"
  by (simp_all add: init_segments_def the_ldt_desc_def the_tss_desc_def seg_base_SET)
     (simp_all add: seg_limit_def SET_LDT_PARAMS_def SET_TSS_PARAMS_def)

section \<open>Properties\<close>

text \<open>What a boot loader has to provide: information that the messages do not overwrite and a file system with a shell.\<close>

definition bootable :: "link_map \<Rightarrow> exec_locals \<Rightarrow> byte list \<Rightarrow> u32 \<Rightarrow> boot_state \<Rightarrow> bool" where
  "bootable lm loc prog mbi b \<longleftrightarrow> info_ok lm mbi (kern (threads b))
     \<and> image_ready loc prog ((kern (threads b))\<lparr>bootMemAddr := found_fs mbi (kern (threads b))\<rparr>)"

text \<open>
  What the messages need: the byte where the null pointer's \<^verbatim>\<open>parent_terminal\<close> lies is the number of a terminal,
  \<^verbatim>\<open>printf\<close>'s buffer is in the kernel's 4MB and outside the file system, and the literals are in memory,
  neither in that buffer nor in video memory.
\<close>

definition messages_ready :: "link_map \<Rightarrow> u32 \<Rightarrow> boot_state \<Rightarrow> bool" where
  "messages_ready lm mbi b \<longleftrightarrow> (let k = kern (threads b) in unat (memory k 21) < NUM_TERMINALS
     \<and> kernel_local (conv_buf_at lm) 64 (k\<lparr>bootMemAddr := found_fs mbi k\<rparr>)
     \<and> (\<forall>f \<in> set boot_literals. placed (conv_buf_at lm) (chars f) (literal_at lm f) k))"

text \<open>What the linker guarantees of the page tables.\<close>

definition aligned_tables :: "link_map \<Rightarrow> bool" where
  "aligned_tables lm \<longleftrightarrow> take_bit 12 (kernel_page_table_at lm) = 0 \<and> take_bit 12 (user_page_table_at lm) = 0
     \<and> kernel_page_table_at lm \<noteq> user_page_table_at lm"

lemma clear_output: "only_output conv k (clear k)"
  by (simp add: only_output_def overwritten_def out_only_clear clear_wf clear_outside)

lemma kernel_local_apart:
  assumes "kernel_local p 64 s"
  shows "\<not> in_region p 64 21" "j < 64 \<Longrightarrow> \<not> in_video (p + of_nat j)"
    "d < image_size (memory s) (bootMemAddr s) \<Longrightarrow> image_size (memory s) (bootMemAddr s) \<le> 2 ^ 32 \<Longrightarrow> \<not> in_region p 64 (bootMemAddr s + of_nat d)"
proof -
  have r: "0x400000 \<le> unat p" "unat p + 64 \<le> 0x800000" using assms by (simp_all add: kernel_local_def word_le_nat_alt)
  have u: "unat (p + of_nat j) = unat p + j" if "j < 64" for j
    using r that by (simp add: unat_word_ariths unat_of_nat_32)
  show "\<not> in_region p 64 21" using r by (simp add: in_region_def unat_sub_if_size size_word_def)
  show "\<not> in_video (p + of_nat j)" if "j < 64" using u [OF that] r that by (intro not_in_video_high) simp_all
  show "\<not> in_region p 64 (bootMemAddr s + of_nat d)"
    if "d < image_size (memory s) (bootMemAddr s)" "image_size (memory s) (bootMemAddr s) \<le> 2 ^ 32"
    using assms that by (intro disjoint_not_in_region) (simp_all add: kernel_local_def)
qed

lemma messages_can_report:
  assumes "cold b" "messages_ready lm mbi b"
  shows "can_report lm (kern (threads b))"
proof -
  let ?k = "kern (threads b)"
  have c: "console_wf ?k" "cur_pid ?k = 0" "PCB_ptrs ?k = replicate 6 None" "\<not> bit (cr0 ?k) 31"
    using assms(1) by (simp_all add: cold_def Let_def)
  have m: "unat (memory ?k 21) < 3" "kernel_local (conv_buf_at lm) 64 (?k\<lparr>bootMemAddr := found_fs mbi ?k\<rparr>)"
      "\<forall>f \<in> set boot_literals. placed (conv_buf_at lm) (chars f) (literal_at lm f) ?k"
    using assms(2) by (simp_all add: messages_ready_def Let_def)
  have "putc_terminal ?k = Some (unat (memory ?k 21))" using c
    by (simp add: putc_terminal_def process_terminal_def pcb_of_def pcb_place_def)
  then show ?thesis using c(1) m kernel_local_apart(1,2) [OF m(2)]
    by (auto simp: can_report_def can_print_def overwritten_def in_video_def in_region_def)
qed

lemma entry_done:
  assumes "cold b" "bootable lm loc prog addr b" "messages_ready lm addr b"
  defines "k \<equiv> kern (threads b)"
  shows "\<exists>s. entry lm d MULTIBOOT_BOOTLOADER_MAGIC addr b = Some (Idle (on_kern (init_kernel lm) (init_segments lm d
       (on_kern (\<lambda>_. s) (b\<lparr>tables := init_idt (handler_at lm) (idt_at lm) (tables b)\<rparr>)))))
     \<and> reported lm k s \<and> bootMemAddr s = found_fs addr k"
proof -
  have i: "info_ok lm addr (clear k)" "found_fs addr (clear k) = found_fs addr k"
    using info_ok_output [OF clear_output, of lm addr k] assms(2) by (simp_all add: bootable_def k_def)
  have "can_report lm (clear k)" using can_report_output [OF messages_can_report [OF assms(1,3)] clear_output] by (simp add: k_def)
  from boot_report_done [OF this i(1)]
  obtain s where s: "boot_report lm addr (clear k) = Some (Inr s)" "reported lm (clear k) s" "bootMemAddr s = found_fs addr k"
    using i(2) by (auto simp: runs_def)
  have "reported lm k s" using reported_output [OF clear_output] s(2) by (rule reported_trans)
  moreover have "on_kern (\<lambda>_. s) ((on_kern clear b)\<lparr>tables := t\<rparr>) = on_kern (\<lambda>_. s) (b\<lparr>tables := t\<rparr>)" for t
    by (simp add: on_kern_def)
  ultimately show ?thesis using s(1,3) by (intro exI [of _ s]) (simp add: entry_def Let_def on_kern_def k_def)
qed

lemma reported_image:
  assumes "image_ready loc prog (k\<lparr>bootMemAddr := boot\<rparr>)" "kernel_local (conv_buf_at lm) 64 (k\<lparr>bootMemAddr := boot\<rparr>)"
    and "reported lm k s" "bootMemAddr s = boot"
  shows "image_ready loc prog s"
proof (rule image_ready_same [OF assms(1)])
  have p: "image_placed (k\<lparr>bootMemAddr := boot\<rparr>)" using assms(1) by (simp add: image_ready_def)
  then have sz: "image_size (memory k) boot \<le> 2 ^ 32" "0x400000 \<le> unat boot" "unat boot + image_size (memory k) boot \<le> 0x800000"
    by (simp_all add: image_placed_def word_le_nat_alt)
  have "memory s (boot + of_nat d) = memory k (boot + of_nat d)" if d: "d < image_size (memory k) boot" for d
  proof (rule reported_memory [OF assms(3)])
    have "unat (boot + of_nat d) = unat boot + d" using sz d by (auto simp: unat_word_ariths unat_of_nat_32)
    then have "\<not> in_video (boot + of_nat d)" using sz d by (intro not_in_video_high) simp_all
    then show "\<not> overwritten (conv_buf_at lm) (boot + of_nat d)"
      using kernel_local_apart(3) [OF assms(2), of d] sz(1) d by (simp add: overwritten_def)
  qed
  then show "same_image (bootMemAddr (k\<lparr>bootMemAddr := boot\<rparr>)) (memory (k\<lparr>bootMemAddr := boot\<rparr>)) (memory s)"
    by (simp add: same_image_def)
qed (use assms(4) in simp)

lemma entry_state:
  assumes "cold b" "bootable lm loc prog addr b" "messages_ready lm addr b" "reported lm (kern (threads b)) s"
    and "bootMemAddr s = found_fs addr (kern (threads b))"
  defines "k \<equiv> s\<lparr>tss_esp0 := 0x800000\<rparr>"
  shows "fresh loc prog ((threads b)\<lparr>kern := init_kernel lm k\<rparr>)" "if_flag (init_kernel lm k)" "paging_wf k"
proof -
  let ?k = "kern (threads b)"
  have o: "only_output (conv_buf_at lm) (?k\<lparr>bootMemAddr := bootMemAddr s\<rparr>) s" using assms(4) by (simp add: reported_def)
  then have oo: "out_only (?k\<lparr>bootMemAddr := bootMemAddr s\<rparr>) s" by (simp add: only_output_def)
  note f = out_only_fields(6-8,12) [OF oo]
  have c: "console_wf ?k" "paging_wf ?k" "length (PCB_at ?k) = 6" "length (ESPstore (threads b)) = 3"
      "length (EBPstore (threads b)) = 3" "length (PIDstore (threads b)) = 3"
    using assms(1) by (simp_all add: cold_def Let_def)
  have "console_wf s" using o c(1) by (simp add: only_output_def console_wf_def)
  then have cw: "console_wf k" by (simp add: k_def console_wf_def)
  show "paging_wf k" using c(2) f by (simp add: k_def paging_wf_def)
  have "image_ready loc prog s"
    using assms(2,3) by (intro reported_image [OF _ _ assms(4,5)]) (simp_all add: bootable_def messages_ready_def Let_def)
  then have ir: "image_ready loc prog k" by (rule image_ready_same) (simp_all add: k_def)
  have l: "length (page_directory k) = 1024" "length (PCB_at k) = 6" using c(2,3) f by (simp_all add: k_def paging_wf_def)
  show "fresh loc prog ((threads b)\<lparr>kern := init_kernel lm k\<rparr>)" "if_flag (init_kernel lm k)"
    using init_kernel_fresh [of "(threads b)\<lparr>kern := k\<rparr>" loc prog lm] cw l c(4-6) ir by simp_all
qed

text \<open>
  C5: \<^verbatim>\<open>entry\<close> brings the machine up.  Called by a Multiboot loader that left a file system with a shell
  among its modules and readable information (\<open>bootable\<close>: flags 4 and 5 are not both set, the memory map
  ends, the messages overwrite none of it), with the globals as the loader clears them (\<open>cold\<close>) and
  with boot messages that \<^verbatim>\<open>printf\<close> can print (\<open>messages_ready\<close>: the byte at physical address 21, which \<^verbatim>\<open>putc\<close> takes for
  the terminal while there is no process, is below 3; the literals are in memory, and \<^verbatim>\<open>printf\<close>'s buffer
  lies in the kernel's 4MB outside the file system), it prints its report and
  reaches its idle loop with interrupts on, and then: the interrupt descriptor table is the
  one \<open>init_idt\<close> builds; exactly the lines of timer, keyboard, slave controller and
  clock are enabled; the descriptors of the LDT and of the TSS lead to them; the address space is
  \<open>boot_space\<close>; and process table, terminals and file system are as the first timer tick needs them (\<open>fresh\<close>).
  \<^verbatim>\<open>entry\<close> is one step here: no interrupt is served between its \<^verbatim>\<open>sti\<close> and its idle loop.
\<close>

theorem entry_boots:
  assumes "cold b" "bootable lm loc prog addr b" "messages_ready lm addr b" "aligned_tables lm" "n < 16"
  shows "\<exists>b'. entry lm d MULTIBOOT_BOOTLOADER_MAGIC addr b = Some (Idle b')
     \<and> fresh loc prog (threads b') \<and> if_flag (kern (threads b'))
     \<and> tables b' = init_idt (handler_at lm) (idt_at lm) (tables b)
     \<and> (\<not> irq_masked (kern (threads b')) n \<longleftrightarrow> n \<in> {0, 1, 2, 8})
     \<and> seg_base (ldt_desc_ptr b') = ldt_at lm \<and> seg_limit (ldt_desc_ptr b') = 31
     \<and> seg_base (tss_desc_ptr b') = tss_at lm \<and> seg_limit (tss_desc_ptr b') = 103
     \<and> mmu (kernel_page_table_at lm) (user_page_table_at lm) (tlb_dir (kern (threads b'))) (tlb_kernel (kern (threads b')))
         (tlb_user (kern (threads b'))) v = boot_space v"
proof -
  let ?k = "kern (threads b)"
  obtain s where s: "entry lm d MULTIBOOT_BOOTLOADER_MAGIC addr b = Some (Idle (on_kern (init_kernel lm) (init_segments lm d
       (on_kern (\<lambda>_. s) (b\<lparr>tables := init_idt (handler_at lm) (idt_at lm) (tables b)\<rparr>)))))" "reported lm ?k s" "bootMemAddr s = found_fs addr ?k"
    using entry_done [OF assms(1-3)] by blast
  define b1 where "b1 = on_kern (\<lambda>_. s) (b\<lparr>tables := init_idt (handler_at lm) (idt_at lm) (tables b)\<rparr>)"
  define b' where "b' = on_kern (init_kernel lm) (init_segments lm d b1)"
  have t: "threads b' = (threads b)\<lparr>kern := init_kernel lm (s\<lparr>tss_esp0 := 0x800000\<rparr>)\<rparr>"
      "tables b' = init_idt (handler_at lm) (idt_at lm) (tables b)"
      "ldt_desc_ptr b' = ldt_desc_ptr (init_segments lm d b1)" "tss_desc_ptr b' = tss_desc_ptr (init_segments lm d b1)"
    by (simp_all add: b'_def b1_def on_kern_def init_segments_def Let_def)
  note e = entry_state [OF assms(1-3) s(2,3)]
  have sp: "take_bit 12 (kernel_page_table_at lm) = 0" "take_bit 12 (user_page_table_at lm) = 0" "kernel_page_table_at lm \<noteq> user_page_table_at lm"
    using assms(4) by (simp_all add: aligned_tables_def)
  note m = init_kernel_space [OF e(3) sp, of v]
  have "entry lm d MULTIBOOT_BOOTLOADER_MAGIC addr b = Some (Idle b')" using s(1) by (simp add: b'_def b1_def)
  then show ?thesis
    using e(1,2) init_kernel_irqs [OF assms(5)] m t segments_ready [of lm d b1] by (intro exI [of _ b']) simp
qed

text \<open>
  C4: from power on to a safe system.  Started by a loader with a file system that holds a shell (\<open>cold\<close>, \<open>bootable\<close>, \<open>messages_ready\<close>; the
  byte at physical address 21, the terminal \<^verbatim>\<open>putc\<close> uses before the first process, below 3), \<^verbatim>\<open>entry\<close> reaches its
  idle loop, and three timer ticks then start the three shells.  From there every sequence of timer,
  keyboard and clock interrupts, system calls, exceptions and user instructions that keep to \<open>allowed\<close>
  (buffers and strings in the program's page, no descriptor 8, no Enter on a full line, no exception in a base shell), each run to
  its end before the next, is gone through without a fault, and after it the invariant of the kernel holds
  and the files are still the same.
\<close>

theorem power_on_safe:
  assumes "cold b" "bootable lm loc prog addr b" "messages_ready lm addr b"
  shows "\<exists>b' s1 s2 s3 eip. entry lm d MULTIBOOT_BOOTLOADER_MAGIC addr b = Some (Idle b')
     \<and> PIThandler loc (threads b') = Some (Pit_enter eip s1) \<and> PIThandler loc s1 = Some (Pit_enter eip s2)
     \<and> PIThandler loc s2 = Some (Pit_enter eip s3)
     \<and> (\<forall>es. behaved loc es s3 \<longrightarrow> (\<exists>s'. run loc es s3 = Some s' \<and> kernel_ok loc prog s' \<and> same_files (kern s3) (kern s')))"
proof -
  let ?k = "kern (threads b)"
  obtain s where s: "entry lm d MULTIBOOT_BOOTLOADER_MAGIC addr b = Some (Idle (on_kern (init_kernel lm) (init_segments lm d
       (on_kern (\<lambda>_. s) (b\<lparr>tables := init_idt (handler_at lm) (idt_at lm) (tables b)\<rparr>)))))" "reported lm ?k s" "bootMemAddr s = found_fs addr ?k"
    using entry_done [OF assms] by blast
  have t: "threads (on_kern (init_kernel lm) (init_segments lm d (on_kern (\<lambda>_. s) (b\<lparr>tables := x\<rparr>))))
      = (threads b)\<lparr>kern := init_kernel lm (s\<lparr>tss_esp0 := 0x800000\<rparr>)\<rparr>" for x
    by (simp add: on_kern_def init_segments_def Let_def)
  from boot_ticks [OF entry_state(1) [OF assms s(2,3)]]
  obtain s1 s2 s3 where p: "PIThandler loc ((threads b)\<lparr>kern := init_kernel lm (s\<lparr>tss_esp0 := 0x800000\<rparr>)\<rparr>) = Some (Pit_enter (ld32 (\<lambda>a. prog ! unat a) 24) s1)"
      "PIThandler loc s1 = Some (Pit_enter (ld32 (\<lambda>a. prog ! unat a) 24) s2)" "PIThandler loc s2 = Some (Pit_enter (ld32 (\<lambda>a. prog ! unat a) 24) s3)"
      "kernel_ok loc prog s3"
    by blast
  have "\<forall>es. behaved loc es s3 \<longrightarrow> (\<exists>s'. run loc es s3 = Some s' \<and> kernel_ok loc prog s' \<and> same_files (kern s3) (kern s'))"
    using run_ok [OF p(4)] by blast
  with s(1) p(1-3) t show ?thesis by (intro exI conjI) (assumption | simp)+
qed

section \<open>A machine to boot\<close>

text \<open>
  Information at 0x9000 with flag 3, one module listed at 0x9100 with the file system's mark and the
  image of the shell at 0x500000.  The literals are at 0x30000, 128 bytes each, and the buffer of \<^verbatim>\<open>printf\<close> is
  near the top of the kernel's stack.
\<close>

definition demo_literal :: "nat \<Rightarrow> byte" where
  "demo_literal k = (let cs = chars (boot_literals ! (k div 128)) in if k mod 128 < length cs then cs ! (k mod 128) else 0)"

definition boot_memory :: mem where
  "boot_memory = (\<lambda>a. if in_region 0x30000 0x700 a then demo_literal (unat (a - 0x30000))
     else (shell_image(0x9000 := 8, 0x9014 := 1, 0x9019 := 0x91, 0x9102 := 0x50, 0x9108 := 9, 0x9109 := 0x20)) a)"

definition zero_seg :: seg_desc_t where
  "zero_seg = \<lparr>seg_lim_15_00 = 0, base_15_00 = 0, base_23_16 = 0, seg_type = 0, seg_sys = False, seg_dpl = 0, seg_present = False,
     seg_lim_19_16 = 0, seg_avail = False, seg_reserved = False, seg_opsize = False, seg_granularity = False, base_31_24 = 0\<rparr>"

definition cold_demo :: boot_state where
  "cold_demo = \<lparr>tables = zero_idt, ldt_desc_ptr = zero_seg, tss_desc_ptr = zero_seg, tss_ldt_segment_selector = 0, tss_ss0 = 0,
     ldtr = 0, task_register = 0, threads = boot_demo\<lparr>kern := (kern boot_demo)\<lparr>memory := boot_memory, bootMemAddr := 0,
       page_directory := page_directory zero_paging, kernel_page_table := kernel_page_table zero_paging,
       user_page_table := user_page_table zero_paging, cr0 := 0, cur_pid := 0\<rparr>\<rparr>\<rparr>"

definition demo_links :: link_map where
  "demo_links = \<lparr>handler_at = (\<lambda>_. 0x400000), idt_at = 0x410000, ldt_at = 0x411000, tss_at = 0x412000,
     page_directory_at = 0x413000, kernel_page_table_at = 0x414000, user_page_table_at = 0x415000,
     literal_at = (\<lambda>f. 0x30000 + of_nat (128 * length (takeWhile (\<lambda>g. g \<noteq> f) boot_literals))), conv_buf_at = 0x7FFF00\<rparr>"

lemma boot_memory_high: "0x50000 \<le> a \<Longrightarrow> boot_memory a = shell_image a"
  by (auto simp: boot_memory_def in_region_def unat_sub_if_size size_word_def word_le_nat_alt)

lemma demo_info:
  assumes "memory s = boot_memory"
  shows "field 0x9000 mbi_flags s = 8" "field 0x9000 mbi_mods_count s = 1" "field 0x9000 mbi_mods_addr s = 0x9100"
    "field 0x9100 8 s = FILE_SYSTEM_STRING" "field 0x9100 0 s = 0x500000"
  using assms by (simp_all add: field_def ld32_def boot_memory_def in_region_def shell_image_byte exec_image_byte demo_image_def)

lemma in_video_low: "unat a < 0xB8000 \<Longrightarrow> \<not> in_video a"
  by (simp add: in_video_def in_region_def unat_sub_if_size size_word_def)

lemma demo_low: "unat a < 0xB8000 \<Longrightarrow> \<not> overwritten (conv_buf_at demo_links) a"
  by (simp add: overwritten_def in_video_low demo_links_def in_region_def unat_sub_if_size size_word_def)

lemma demo_cold: "cold cold_demo"
proof -
  have "length (page_directory zero_paging) = 1024" "length (kernel_page_table zero_paging) = 1024" "length (user_page_table zero_paging) = 1024"
    by (simp_all add: zero_paging_def)
  moreover have "term_wf (kern boot_demo)" using boot_demo_fresh by (simp add: fresh_def system_ready_def)
  ultimately show ?thesis
    by (simp add: cold_def cold_demo_def paging_wf_def term_wf_def console_wf_def) (simp add: boot_demo_def demo_sys_sel)
qed

lemma demo_found: "found_fs 0x9000 (kern (threads cold_demo)) = 0x500000"
proof -
  have m: "memory (kern (threads cold_demo)) = boot_memory" by (simp add: cold_demo_def)
  show ?thesis using demo_info [OF m] by (simp add: found_fs_def fs_start_def module_at_def)
qed

lemma demo_image_ready: "image_ready demo_locals demo_program ((kern (threads cold_demo))\<lparr>bootMemAddr := 0x500000\<rparr>)"
proof -
  let ?k = "kern (threads cold_demo)"
  have m: "memory ?k = boot_memory" by (simp add: cold_demo_def)
  have r: "image_ready demo_locals demo_program (kern boot_demo)"
    using boot_demo_fresh by (simp add: fresh_def system_ready_def image_ready_def)
  show ?thesis
  proof (rule image_ready_high [OF r])
    show "bootMemAddr (?k\<lparr>bootMemAddr := 0x500000\<rparr>) = bootMemAddr (kern boot_demo)" by (simp add: boot_demo_def demo_sys_sel)
    show "memory (?k\<lparr>bootMemAddr := 0x500000\<rparr>) a = memory (kern boot_demo) a" if "0x400000 \<le> unat a" for a
    proof -
      have "(0x50000 :: u32) \<le> a" using that by (simp add: word_le_nat_alt)
      from boot_memory_high [OF this] show ?thesis using m by (simp add: boot_demo_def)
    qed
  qed
qed

lemma demo_bootable: "bootable demo_links demo_locals demo_program 0x9000 cold_demo"
proof -
  let ?k = "kern (threads cold_demo)"
  have m: "memory ?k = boot_memory" by (simp add: cold_demo_def)
  note i = demo_info [OF m]
  have v: "outside demo_links p n" if "unat p + n \<le> 0xB8000" for p n
    unfolding outside_def using that by (auto intro!: demo_low simp: unat_word_ariths unat_of_nat_32)
  have f: "CHECK_FLAG 8 3" "\<not> CHECK_FLAG 8 4" "\<not> CHECK_FLAG 8 6" "\<not> CHECK_FLAG 8 2" by (simp_all add: CHECK_FLAG_def)
  have "info_ok demo_links 0x9000 ?k" using f i v by (simp add: info_ok_def module_at_def)
  then show ?thesis using demo_image_ready by (simp add: bootable_def demo_found)
qed

lemma demo_literal_sizes: "distinct boot_literals" "length boot_literals = 14" "\<forall>f \<in> set boot_literals. length f < 128"
  by code_simp+

lemma demo_placed:
  assumes "f \<in> set boot_literals"
  shows "placed (conv_buf_at demo_links) (chars f) (literal_at demo_links f) (kern (threads cold_demo))"
proof -
  obtain k where k: "k < 14" "f = boot_literals ! k" using assms demo_literal_sizes(2) by (auto simp: in_set_conv_nth)
  have "takeWhile (\<lambda>g. g \<noteq> f) boot_literals = take k boot_literals"
  proof (rule takeWhile_eq_take_P_nth)
    fix i assume "i < k" "i < length boot_literals"
    then show "boot_literals ! i \<noteq> f" using k demo_literal_sizes(1,2) by (simp add: nth_eq_iff_index_eq)
  qed (use k in simp)
  then have at: "literal_at demo_links f = 0x30000 + of_nat (128 * k)" using k demo_literal_sizes(2) by (simp add: demo_links_def)
  have l: "length f < 128" using assms demo_literal_sizes(3) by blast
  have "boot_memory (0x30000 + of_nat (128 * k) + of_nat j) = (chars f @ [0]) ! j
      \<and> \<not> overwritten (conv_buf_at demo_links) (0x30000 + of_nat (128 * k) + of_nat j)" if j: "j \<le> length f" for j
  proof -
    have a: "0x30000 + of_nat (128 * k) + of_nat j - 0x30000 = (of_nat (128 * k + j) :: u32)" by simp
    have b: "128 * k + j < 0x700" "(128 * k + j) div 128 = k" "(128 * k + j) mod 128 = j" using j l k(1) by simp_all
    have u: "unat (of_nat (128 * k + j) :: u32) = 128 * k + j" using b(1) by (intro unat_of_nat_32) simp
    have "unat (0x30000 + of_nat (128 * k + j) :: u32) = 0x30000 + (128 * k + j)" using b(1) u by (simp add: unat_word_ariths del: of_nat_add)
    then have "\<not> overwritten (conv_buf_at demo_links) (0x30000 + of_nat (128 * k + j))" using b(1) by (intro demo_low) simp
    moreover have "boot_memory (0x30000 + of_nat (128 * k) + of_nat j) = demo_literal (128 * k + j)"
      using b(1) u unfolding boot_memory_def in_region_def a by simp
    moreover have "demo_literal (128 * k + j) = (chars f @ [0]) ! j"
      unfolding demo_literal_def Let_def b k(2) [symmetric] using j by (simp add: nth_append chars_def)
    ultimately show ?thesis by (simp add: add.assoc)
  qed
  then show ?thesis unfolding placed_def at view_def by (simp add: cold_demo_def chars_def)
qed

lemma demo_messages: "messages_ready demo_links 0x9000 cold_demo"
proof -
  have m: "memory (kern (threads cold_demo)) = boot_memory" by (simp add: cold_demo_def)
  have "memory (kern (threads cold_demo)) 21 = 0"
    by (simp add: m boot_memory_def in_region_def shell_image_byte exec_image_byte demo_image_def)
  moreover have "image_size boot_memory 0x500000 = 3 * 4096"
  proof -
    have "boot_memory a = shell_image a" if "0x50000 \<le> a" for a using boot_memory_high [OF that] .
    then have "numDirectories boot_memory 0x500000 = 1" "numInodes boot_memory 0x500000 = 1" "numDataBlocks boot_memory 0x500000 = 1"
      using shell_header by (simp_all add: numDirectories_def numInodes_def numDataBlocks_def ld32_def)
    then show ?thesis by (simp add: image_size_def)
  qed
  then have "kernel_local (conv_buf_at demo_links) 64 ((kern (threads cold_demo))\<lparr>bootMemAddr := 0x500000\<rparr>)"
    by (simp add: kernel_local_def m demo_links_def disjoint_regions_def)
  ultimately show ?thesis using demo_placed by (simp add: messages_ready_def demo_found)
qed

theorem entry_boots_witness:
  "\<exists>b'. entry demo_links zero_seg 0x2BADB002 0x9000 cold_demo = Some (Idle b')
     \<and> PCB_ptrs (kern (threads b')) = replicate 6 None \<and> if_flag (kern (threads b'))
     \<and> \<not> irq_masked (kern (threads b')) 8 \<and> seg_base (tss_desc_ptr b') = 0x412000"
proof -
  have "take_bit 12 (0x414000 :: u32) = 0" "take_bit 12 (0x415000 :: u32) = 0" by code_simp+
  then have "aligned_tables demo_links" by (simp add: aligned_tables_def demo_links_def)
  from entry_boots [OF demo_cold demo_bootable demo_messages this, of 8 zero_seg 0]
  show ?thesis by (auto simp: fresh_def demo_links_def)
qed

theorem power_on_safe_witness:
  "\<exists>b' s1 s2 s3 s'. entry demo_links zero_seg 0x2BADB002 0x9000 cold_demo = Some (Idle b')
     \<and> (\<exists>eip. PIThandler demo_locals (threads b') = Some (Pit_enter eip s1) \<and> PIThandler demo_locals s1 = Some (Pit_enter eip s2)
          \<and> PIThandler demo_locals s2 = Some (Pit_enter eip s3))
     \<and> run demo_locals [Clock, Tick] s3 = Some s' \<and> kernel_ok demo_locals demo_program s'"
proof -
  obtain b' s1 s2 s3 eip where b: "entry demo_links zero_seg 0x2BADB002 0x9000 cold_demo = Some (Idle b')"
      "PIThandler demo_locals (threads b') = Some (Pit_enter eip s1)" "PIThandler demo_locals s1 = Some (Pit_enter eip s2)"
      "PIThandler demo_locals s2 = Some (Pit_enter eip s3)"
      "\<forall>es. behaved demo_locals es s3 \<longrightarrow> (\<exists>s'. run demo_locals es s3 = Some s' \<and> kernel_ok demo_locals demo_program s' \<and> same_files (kern s3) (kern s'))"
    using power_on_safe [OF demo_cold demo_bootable demo_messages, of zero_seg] by blast
  have "behaved demo_locals [Clock, Tick] s3" by (simp split: option.splits)
  with b show ?thesis by blast
qed

end
