(* ===== verification/User_Library.thy ===== *)
theory User_Library
  imports Kernel
begin

unbundle bit_operations_syntax

text \<open>
  What user programs are built from: the system call wrappers of \<^verbatim>\<open>syscalls/ece391syscall.S\<close> and the
  library \<^verbatim>\<open>syscalls/ece391support.c\<close> (the fish program has a copy of its first part).

  A program is a function on the state of the whole kernel, taken while the program's process runs.
  Its variables and string constants are bytes of its page, at addresses that the compiler
  chooses (\<open>lit\<close> for constants, parameters for local arrays); reaching outside the page is a
  fault (None).  A system call enters the kernel model; what happens until a call that does not
  return at once (a wait for a line or a clock tick, the run of another program) ends is a
  parameter (\<open>resume\<close>).  Nothing else runs between the calls of a program.
\<close>

section \<open>System calls\<close>

record user_env =
  user_locals :: exec_locals
  resume :: "sys sysret \<Rightarrow> (int \<times> sys) option"
  lit :: "string \<Rightarrow> u32"

text \<open>The body of \<^verbatim>\<open>DO_CALL\<close>: number and arguments into registers, \<^verbatim>\<open>int $0x80\<close>.\<close>

definition DO_CALL :: "user_env \<Rightarrow> u32 \<Rightarrow> u32 \<Rightarrow> u32 \<Rightarrow> u32 \<Rightarrow> sys \<Rightarrow> (int \<times> sys) option" where
  "DO_CALL E number a b c s = do {
     r \<leftarrow> syscall (user_locals E) number a b c s;
     (case r of Ret v s \<Rightarrow> Some (v, s) | _ \<Rightarrow> resume E r)
   }"

definition ece391_execute :: "user_env \<Rightarrow> u32 \<Rightarrow> sys \<Rightarrow> (int \<times> sys) option" where
  "ece391_execute E command = DO_CALL E 2 command 0 0"

definition ece391_read :: "user_env \<Rightarrow> int \<Rightarrow> u32 \<Rightarrow> int \<Rightarrow> sys \<Rightarrow> (int \<times> sys) option" where
  "ece391_read E fd buf nbytes = DO_CALL E 3 (of_int fd) buf (of_int nbytes)"

definition ece391_write :: "user_env \<Rightarrow> int \<Rightarrow> u32 \<Rightarrow> int \<Rightarrow> sys \<Rightarrow> (int \<times> sys) option" where
  "ece391_write E fd buf nbytes = DO_CALL E 4 (of_int fd) buf (of_int nbytes)"

definition ece391_open :: "user_env \<Rightarrow> u32 \<Rightarrow> sys \<Rightarrow> (int \<times> sys) option" where
  "ece391_open E filename = DO_CALL E 5 filename 0 0"

definition ece391_close :: "user_env \<Rightarrow> int \<Rightarrow> sys \<Rightarrow> (int \<times> sys) option" where
  "ece391_close E fd = DO_CALL E 6 (of_int fd) 0 0"

definition ece391_getargs :: "user_env \<Rightarrow> u32 \<Rightarrow> int \<Rightarrow> sys \<Rightarrow> (int \<times> sys) option" where
  "ece391_getargs E buf nbytes = DO_CALL E 7 buf (of_int nbytes) 0"

definition ece391_vidmap :: "user_env \<Rightarrow> u32 \<Rightarrow> sys \<Rightarrow> (int \<times> sys) option" where
  "ece391_vidmap E screen_start = DO_CALL E 8 screen_start 0 0"

definition ece391_set_handler :: "user_env \<Rightarrow> int \<Rightarrow> u32 \<Rightarrow> sys \<Rightarrow> (int \<times> sys) option" where
  "ece391_set_handler E signum handler = DO_CALL E 9 (of_int signum) handler 0"

text \<open>\<^verbatim>\<open>_start\<close>: run \<^verbatim>\<open>main\<close>, halt with its result.\<close>

definition start_program :: "user_env \<Rightarrow> (sys \<Rightarrow> (int \<times> sys) option) \<Rightarrow> sys \<Rightarrow> sys sysret option" where
  "start_program E main s = do {
     (eax, s) \<leftarrow> main s;
     syscall (user_locals E) 1 (of_int eax) 0 0 s
   }"

section \<open>Memory of the program\<close>

definition uget :: "u32 \<Rightarrow> sys \<Rightarrow> byte option" where
  "uget v s = map_option (memory s) (user_ptr v 1 s)"

definition uput :: "u32 \<Rightarrow> byte \<Rightarrow> sys \<Rightarrow> sys option" where
  "uput v b s = map_option (\<lambda>p. with_memory ((memory s)(p := b)) s) (user_ptr v 1 s)"

section \<open>The library\<close>

text \<open>The loops of \<^verbatim>\<open>ece391_strlen\<close> and \<^verbatim>\<open>ece391_itoa\<close> are those of the kernel's \<^verbatim>\<open>strlen\<close> and \<^verbatim>\<open>itoa\<close>.\<close>

definition ece391_strlen :: "u32 \<Rightarrow> sys \<Rightarrow> nat option" where
  "ece391_strlen v s = do { str \<leftarrow> user_str v s; strlen str }"

definition ece391_strcpy :: "u32 \<Rightarrow> u32 \<Rightarrow> sys \<Rightarrow> sys option" where
  "ece391_strcpy dst src s = do {
     n \<leftarrow> ece391_strlen src s;
     p \<leftarrow> user_ptr dst (n + 1) s;
     q \<leftarrow> user_ptr src (n + 1) s;
     m \<leftarrow> strcpy (memory s) p q;
     Some (with_memory m s)
   }"

definition ece391_fdputs :: "user_env \<Rightarrow> int \<Rightarrow> u32 \<Rightarrow> sys \<Rightarrow> sys option" where
  "ece391_fdputs E fd v s = do {
     n \<leftarrow> ece391_strlen v s;
     (r, s) \<leftarrow> ece391_write E fd v (int n) s;
     Some s
   }"

text \<open>The comparisons are of unsigned bytes.\<close>

partial_function (option) ece391_strcmp_loop :: "(nat \<Rightarrow> byte) \<Rightarrow> (nat \<Rightarrow> byte) \<Rightarrow> nat \<Rightarrow> int option" where
  "ece391_strcmp_loop s1 s2 i =
    (if s1 i = s2 i then if s1 i = 0 then Some 0 else ece391_strcmp_loop s1 s2 (Suc i)
     else Some (uint (s1 i) - uint (s2 i)))"

definition ece391_strcmp :: "u32 \<Rightarrow> u32 \<Rightarrow> sys \<Rightarrow> int option" where
  "ece391_strcmp v1 v2 s = do { s1 \<leftarrow> user_str v1 s; s2 \<leftarrow> user_str v2 s; ece391_strcmp_loop s1 s2 0 }"

fun ece391_strncmp_loop :: "(nat \<Rightarrow> byte) \<Rightarrow> (nat \<Rightarrow> byte) \<Rightarrow> nat \<Rightarrow> nat \<Rightarrow> int" where
  "ece391_strncmp_loop s1 s2 i 0 = 0"
| "ece391_strncmp_loop s1 s2 i (Suc n) =
    (if s1 i = s2 i then if s1 i = 0 \<or> n = 0 then 0 else ece391_strncmp_loop s1 s2 (Suc i) n
     else uint (s1 i) - uint (s2 i))"

definition ece391_strncmp :: "u32 \<Rightarrow> u32 \<Rightarrow> nat \<Rightarrow> sys \<Rightarrow> int option" where
  "ece391_strncmp v1 v2 n s =
    (if n = 0 then Some 0
     else do { s1 \<leftarrow> user_str v1 s; s2 \<leftarrow> user_str v2 s; Some (ece391_strncmp_loop s1 s2 0 n) })"

definition ece391_strrev :: "mem \<Rightarrow> u32 \<Rightarrow> mem option" where
  "ece391_strrev m s = do {
     len \<leftarrow> strlen (view m s);
     let end_at = int len - 1;
     if end_at \<le> 0 then Some m else Some (strrev_loop m s 0 end_at)
   }"

text \<open>33 bytes are room for every radix from 2 on.\<close>

definition ece391_itoa :: "u32 \<Rightarrow> u32 \<Rightarrow> u32 \<Rightarrow> sys \<Rightarrow> sys option" where
  "ece391_itoa val buf radix s = do {
     p \<leftarrow> user_ptr buf 33 s;
     if val = 0 then Some (with_memory ((memory s)(p := 48, p + 1 := 0)) s)
     else do {
       (m, newbuf) \<leftarrow> itoa_loop (memory s) p val radix;
       m \<leftarrow> ece391_strrev (m(newbuf := 0)) p;
       Some (with_memory m s)
     }
   }"

section \<open>Strings of the program\<close>

lemma rd_bytes_take: "k \<le> n \<Longrightarrow> rd_bytes m p k = take k (rd_bytes m p n)"
  by (simp add: rd_bytes_def take_map)

definition user_phys :: "u32 \<Rightarrow> sys \<Rightarrow> u32" where
  "user_phys v s = user_frame s + (v - 0x08000000)"

definition cstr_at :: "u32 \<Rightarrow> byte list \<Rightarrow> sys \<Rightarrow> bool" where
  "cstr_at v bs s \<longleftrightarrow> user_buffer v (length bs + 1) \<and> 0 \<notin> set bs
     \<and> rd_bytes (memory s) (user_phys v s) (length bs + 1) = bs @ [0]"

lemma user_ptr_phys: "sys_ok s \<Longrightarrow> user_buffer v n \<Longrightarrow> user_ptr v n s = Some (user_phys v s)"
  by (simp add: user_ptr_ok user_buffer_def user_phys_def)

lemma user_phys_range:
  assumes "sys_ok s" "user_buffer v n" "i < n"
  shows "0x800000 \<le> unat (user_phys v s + of_nat i)" "unat (user_phys v s + of_nat i) = unat (user_phys v s) + i"
proof -
  have r: "0x800000 \<le> unat (user_phys v s)" "unat (user_phys v s) + n \<le> 0x2000000"
    using user_addr_range [OF assms(1)] assms(2) by (auto simp: user_buffer_def user_phys_def)
  then show "unat (user_phys v s + of_nat i) = unat (user_phys v s) + i"
    using assms(3) by (simp add: unat_word_ariths unat_of_nat_32)
  with r show "0x800000 \<le> unat (user_phys v s + of_nat i)" by simp
qed

lemma user_not_video: "sys_ok s \<Longrightarrow> user_buffer v n \<Longrightarrow> i < n \<Longrightarrow> \<not> in_video (user_phys v s + of_nat i)"
  using user_phys_range(1) by (intro not_in_video_high) fastforce

lemma user_buffer_less: "user_buffer v n \<Longrightarrow> k \<le> n \<Longrightarrow> user_buffer v k"
  by (auto simp: user_buffer_def)

lemma cstr_at_view:
  assumes "cstr_at v bs s"
  shows "i < length bs \<Longrightarrow> view (memory s) (user_phys v s) i = bs ! i" "view (memory s) (user_phys v s) (length bs) = 0"
proof -
  have e: "rd_bytes (memory s) (user_phys v s) (length bs + 1) ! i = (bs @ [0]) ! i" for i
    using assms by (simp add: cstr_at_def)
  show "i < length bs \<Longrightarrow> view (memory s) (user_phys v s) i = bs ! i" using e [of i] by (simp add: view_def nth_append)
  show "view (memory s) (user_phys v s) (length bs) = 0" using e [of "length bs"] by (simp add: view_def)
qed

lemma cstr_n_view:
  assumes "cstr_at v bs s" "length bs \<le> n"
  shows "cstr_n (view (memory s) (user_phys v s)) n = bs"
proof -
  let ?f = "view (memory s) (user_phys v s)"
  have nz: "bs ! i \<noteq> 0" if "i < length bs" for i using assms(1) that nth_mem by (force simp: cstr_at_def)
  have b: "map ?f [0..<length bs] = bs" using cstr_at_view(1) [OF assms(1)] by (intro nth_equalityI) simp_all
  have "map ?f [0..<n] = bs @ map ?f [length bs..<n]"
    using assms(2) upt_add_eq_append [of 0 "length bs" "n - length bs"] b by simp
  moreover have "takeWhile (\<lambda>b. b \<noteq> 0) (map ?f [length bs..<n]) = []"
    using cstr_at_view(2) [OF assms(1)] by (cases "length bs < n") (simp_all add: upt_conv_Cons)
  moreover have "0 \<notin> set bs" using assms(1) by (simp add: cstr_at_def)
  then have "takeWhile (\<lambda>b. b \<noteq> 0) bs = bs" by (auto simp: takeWhile_eq_all_conv)
  ultimately show ?thesis unfolding cstr_n_def by (simp add: takeWhile_append)
qed

lemma cstr_at_str:
  assumes "sys_ok s" "cstr_at v bs s"
  shows "user_str v s = Some (view (memory s) (user_phys v s))" "strlen (view (memory s) (user_phys v s)) = Some (length bs)"
    "ece391_strlen v s = Some (length bs)"
proof -
  let ?f = "view (memory s) (user_phys v s)"
  have ub: "user_buffer v (length bs + 1)" using assms(2) by (simp add: cstr_at_def)
  then have p: "user_ptr v 1 s = Some (user_phys v s)" using assms(1) user_buffer_less user_ptr_phys by fastforce
  have n: "length bs < 0x08400000 - unat v" using ub unfolding user_buffer_def by linarith
  have "strlenFile ?f (0x08400000 - unat v) = length bs"
    using strlenFile_loop_eq [of 0 ?f "0x08400000 - unat v"] cstr_n_view [OF assms(2) less_imp_le [OF n]] by (simp add: strlenFile_def)
  then show u: "user_str v s = Some ?f" using p n by (simp add: user_str_def)
  have nz: "bs ! i \<noteq> 0" if "i < length bs" for i using assms(2) that nth_mem by (force simp: cstr_at_def)
  show "strlen ?f = Some (length bs)" using cstr_at_view [OF assms(2)] nz by (intro strlenI) auto
  then show "ece391_strlen v s = Some (length bs)" by (simp add: ece391_strlen_def u)
qed

lemma process_terminal_with_memory [simp]: "process_terminal (with_memory m s) = process_terminal s"
  by (rule process_terminal_cong) (simp_all add: with_memory_def)

section \<open>What a program prints\<close>

text \<open>
  \<open>prints t bs\<close>: the bytes have been written on terminal \<open>t\<close> and nothing else has changed but
  video memory and the port log.
\<close>

definition prints :: "nat \<Rightarrow> byte list \<Rightarrow> sys \<Rightarrow> sys \<Rightarrow> bool" where
  "prints t bs s s' \<longleftrightarrow> out_only s s' \<and> (term_wf s \<longrightarrow> term_wf s') \<and> (\<forall>a. \<not> in_video a \<longrightarrow> memory s' a = memory s a)
     \<and> (\<forall>u < NUM_TERMINALS. vterm_of u s' = (if u = t then fold vt_put bs (vterm_of u s) else vterm_of u s))"

lemma prints_refl [simp]: "prints t [] s s"
  by (simp add: prints_def)

lemma prints_trans: "prints t as s s1 \<Longrightarrow> prints t bs s1 s2 \<Longrightarrow> prints t (as @ bs) s s2"
  by (auto simp: prints_def intro: out_only_trans)

lemma prints_same: "prints t bs s s' \<Longrightarrow> proc_same s s'"
  by (simp add: prints_def proc_same_out_only)

lemma prints_terminal: "prints t bs s s' \<Longrightarrow> process_terminal s' = process_terminal s"
  unfolding prints_def using out_only_fields(17) by blast

lemma prints_phys: "prints t bs s s' \<Longrightarrow> user_phys v s' = user_phys v s"
  using prints_same by (auto simp: user_phys_def user_frame_def proc_same_def)

lemma prints_bytes:
  assumes "prints t bs s s'" "sys_ok s" "user_buffer v n"
  shows "rd_bytes (memory s') (user_phys v s) n = rd_bytes (memory s) (user_phys v s) n"
  using assms user_not_video by (intro rd_bytes_cong) (auto simp: prints_def)

lemma prints_cstr: "prints t bs s s' \<Longrightarrow> sys_ok s \<Longrightarrow> cstr_at v x s \<Longrightarrow> cstr_at v x s'"
  using prints_bytes [of t bs s s' v "length x + 1"] prints_phys [of t bs s s' v] by (simp add: cstr_at_def)

text \<open>A program that runs: its process is the running one, on terminal \<open>t\<close>.\<close>

definition user_ok :: "nat \<Rightarrow> sys \<Rightarrow> bool" where
  "user_ok t s \<longleftrightarrow> sys_ok s \<and> term_wf s \<and> process_terminal s = Some t"

lemma user_ok_terminal: "user_ok t s \<Longrightarrow> t < 3"
  unfolding user_ok_def using sys_okD by (metis option.inject)

lemma prints_user_ok: "user_ok t s \<Longrightarrow> prints t bs s s' \<Longrightarrow> user_ok t s'"
  using proc_same_ok [OF prints_same, of t bs s s'] prints_terminal [of t bs s s'] by (simp add: user_ok_def) (simp add: prints_def)

lemma write_prints:
  assumes "user_ok t s" "user_buffer v n"
  shows "\<exists>s'. sys_write 1 v (int n) s = Some (int n, s') \<and> prints t (rd_bytes (memory s) (user_phys v s) n) s s'"
proof -
  let ?bs = "rd_bytes (memory s) (user_phys v s) n" and ?c = "s\<lparr>if_flag := False\<rparr>"
  have a: "sys_ok s" "term_wf s" "process_terminal s = Some t" "t < 3" using assms(1) user_ok_terminal by (auto simp: user_ok_def)
  obtain k where k: "k < 6" "cur_pid s = int k" "fdt s = Some k" "fdt_wf (process_fdt (PCB_at s ! k))"
    using sys_okD [OF a(1)] by metis
  have e: "fdt_get k 1 s = Some (process_fdt (PCB_at s ! k) ! 1)" using k by (simp add: fdt_get_wf)
  have f: "fd_flags (process_fdt (PCB_at s ! k) ! 1) = 2 \<and> fops_pointer (process_fdt (PCB_at s ! k) ! 1) = Some Stdout_fops"
    using k(4) by (simp add: fdt_wf_def fd_ok_def)
  have w: "fn_write (stdout_fops s) = Fn_terminalWrite" using a(1) by (simp add: sys_ok_def proc_inv_def fops_ready_def)
  have v0: "v \<noteq> 0" using assms(2) by (auto simp: user_buffer_def)
  have sw: "sys_write 1 v (int n) s = terminalWrite (user_phys v s) (int n) s"
    using k e f w v0 user_ptr_phys [OF a(1) assms(2)] by (simp add: sys_write_def fops_of_def call_write_def)
  have "process_terminal ?c = process_terminal s" by (rule process_terminal_cong) simp_all
  then have c: "console_wf ?c" "process_terminal ?c = Some t" "vterm_of u ?c = vterm_of u s" for u
    using a(2,3) by (simp_all add: term_wf_def console_wf_def vterm_of_def home_page_def)
  let ?r = "putc_list t ?bs ?c"
  have "terminalWrite_loop (user_phys v s) 0 n ?c = Some ?r"
    using terminalWrite_loop_prints [OF c(1,2) a(4), of n "user_phys v s" 0] user_not_video [OF a(1) assms(2)] by simp
  then have r: "terminalWrite (user_phys v s) (int n) s = Some (int n, ?r\<lparr>if_flag := if_flag s, df_flag := df_flag s\<rparr>)" (is "_ = Some (_, ?s)")
    by (simp add: terminalWrite_def cli_and_save_def restore_flags_def)
  obtain m l d x y where o: "?r = ?c\<lparr>memory := m, io_out := l, df_flag := d, screen_x := x, screen_y := y\<rparr>"
    by (rule out_onlyE [OF out_only_putc_list])
  have wf: "console_wf ?r" by (rule putc_list_wf [OF c(1) a(4)])
  have "out_only s ?s" unfolding o out_only_def out_update_def by simp
  moreover have "term_wf ?s" using a(2) wf unfolding o by (simp add: term_wf_def console_wf_def)
  moreover have "vterm_of u ?s = (if u = t then fold vt_put ?bs (vterm_of u s) else vterm_of u s)" if "u < 3" for u
    using putc_list_vterm [OF c(1) a(4) that, of ?bs] c(3) [of u] by (simp add: vterm_of_def home_page_def)
  moreover have "memory ?s a = memory s a" if "\<not> in_video a" for a
    using putc_list_outside [OF c(1) a(4) that] by simp
  ultimately have "prints t ?bs s ?s" by (simp add: prints_def)
  with sw r show ?thesis by auto
qed

lemma of_int_round: "- 2147483648 \<le> i \<Longrightarrow> i \<le> 2147483647 \<Longrightarrow> sint (of_int i :: u32) = i"
  by (simp add: signed_of_int signed_take_bit_int_eq_self)

lemma ret_of_call: "ret_of x \<bind> (\<lambda>r. case r of Ret v s \<Rightarrow> Some (v, s) | _ \<Rightarrow> resume E r) = x"
  by (cases x) (auto simp: ret_of_def)

text \<open>The wrappers, on arguments that fit their registers.\<close>

lemma ece391_write_sys:
  assumes "- 2147483648 \<le> fd" "fd \<le> 2147483647" "- 2147483648 \<le> n" "n \<le> 2147483647"
  shows "ece391_write E fd v n s = sys_write fd v n s"
  using assms by (simp add: ece391_write_def DO_CALL_def syscall_def ret_of_call of_int_round)

lemma ece391_close_sys: "- 2147483648 \<le> fd \<Longrightarrow> fd \<le> 2147483647 \<Longrightarrow> ece391_close E fd s = sys_close fd s"
  by (simp add: ece391_close_def DO_CALL_def syscall_def ret_of_call of_int_round)

lemma ece391_getargs_sys: "- 2147483648 \<le> n \<Longrightarrow> n \<le> 2147483647 \<Longrightarrow> ece391_getargs E v n s = sys_getargs v n s"
  by (simp add: ece391_getargs_def DO_CALL_def syscall_def ret_of_call of_int_round)

lemma ece391_vidmap_sys: "ece391_vidmap E v s = sys_vidmap v s"
  by (simp add: ece391_vidmap_def DO_CALL_def syscall_def ret_of_call)

lemma ece391_open_sys:
  "ece391_open E v s = do { c \<leftarrow> str_arg v s; sys_open (dentry_init (user_locals E)) c s }"
  by (cases "str_arg v s") (simp_all add: ece391_open_def DO_CALL_def syscall_def ret_of_call)

lemma ece391_read_sys:
  assumes "- 2147483648 \<le> fd" "fd \<le> 2147483647" "- 2147483648 \<le> n" "n \<le> 2147483647"
  shows "ece391_read E fd v n s = do {
     r \<leftarrow> sys_read (dentry_init (user_locals E)) fd v n s;
     (case r of Ret v s \<Rightarrow> Some (v, s) | _ \<Rightarrow> resume E r)
   }"
  using assms by (simp add: ece391_read_def DO_CALL_def syscall_def of_int_round)

lemmas user_call_simps = ece391_write_sys ece391_close_sys ece391_getargs_sys ece391_vidmap_sys ece391_open_sys ece391_read_sys

lemma fdputs_prints:
  assumes "user_ok t s" "cstr_at v bs s"
  shows "\<exists>s'. ece391_fdputs E 1 v s = Some s' \<and> prints t bs s s'"
proof -
  have ub: "user_buffer v (length bs)" "length bs \<le> 0x400000"
    using assms(2) by (auto simp: cstr_at_def user_buffer_def word_le_nat_alt)
  have ok: "sys_ok s" using assms(1) by (simp add: user_ok_def)
  have r: "rd_bytes (memory s) (user_phys v s) (length bs) = bs"
    using assms(2) rd_bytes_add [of "memory s" "user_phys v s" "length bs" 1] by (simp add: cstr_at_def)
  obtain s' where "sys_write 1 v (int (length bs)) s = Some (int (length bs), s')" "prints t bs s s'"
    using write_prints [OF assms(1) ub(1)] r by auto
  then show ?thesis using cstr_at_str(3) [OF ok assms(2)] ub(2)
    by (simp add: ece391_fdputs_def ece391_write_sys)
qed

end
