(* ===== verification/User_Files.thy ===== *)
theory User_Files
  imports User_Library
begin

unbundle bit_operations_syntax

text \<open>
  The programs that copy files and the directory to the terminal, \<^verbatim>\<open>ece391cat.c\<close> and
  \<^verbatim>\<open>ece391ls.c\<close>, as clients of the \<open>copier\<close> interface.
\<close>

section \<open>cat\<close>

partial_function (option) cat_loop :: "user_env \<Rightarrow> int \<Rightarrow> u32 \<Rightarrow> sys \<Rightarrow> (int \<times> sys) option" where
  "cat_loop E fd buf s = do {
     (cnt, s) \<leftarrow> ece391_read E fd buf 1024 s;
     if cnt = 0 then Some (0, s)
     else if cnt = -1 then do {
       s \<leftarrow> ece391_fdputs E 1 (lit E (ln ''file read failed'')) s;
       Some (3, s)
     } else do {
       (r, s) \<leftarrow> ece391_write E 1 buf cnt s;
       if r = -1 then Some (3, s) else cat_loop E fd buf s
     }
   }"

definition cat_main :: "user_env \<Rightarrow> u32 \<Rightarrow> sys \<Rightarrow> (int \<times> sys) option" where
  "cat_main E buf s = do {
     (r, s) \<leftarrow> ece391_getargs E buf 1024 s;
     if r \<noteq> 0 then do {
       s \<leftarrow> ece391_fdputs E 1 (lit E (ln ''could not read arguments'')) s;
       Some (3, s)
     } else do {
       (fd, s) \<leftarrow> ece391_open E buf s;
       if fd = -1 then do {
         s \<leftarrow> ece391_fdputs E 1 (lit E (ln ''file not found'')) s;
         Some (2, s)
       } else cat_loop E fd buf s
     }
   }"

section \<open>ls\<close>

partial_function (option) ls_loop :: "user_env \<Rightarrow> int \<Rightarrow> u32 \<Rightarrow> sys \<Rightarrow> (int \<times> sys) option" where
  "ls_loop E fd buf s = do {
     (cnt, s) \<leftarrow> ece391_read E fd buf 32 s;
     if cnt = 0 then Some (0, s)
     else if cnt = -1 then do {
       s \<leftarrow> ece391_fdputs E 1 (lit E (ln ''directory entry read failed'')) s;
       Some (3, s)
     } else do {
       s \<leftarrow> uput (buf + of_int cnt) 10 s;
       (r, s) \<leftarrow> ece391_write E 1 buf (cnt + 1) s;
       if r = -1 then Some (3, s) else ls_loop E fd buf s
     }
   }"

definition ls_main :: "user_env \<Rightarrow> u32 \<Rightarrow> sys \<Rightarrow> (int \<times> sys) option" where
  "ls_main E buf s = do {
     (fd, s) \<leftarrow> ece391_open E (lit E ''.'') s;
     if fd = -1 then do {
       s \<leftarrow> ece391_fdputs E 1 (lit E (ln ''directory open failed'')) s;
       Some (2, s)
     } else ls_loop E fd buf s
   }"

section \<open>Output and reading\<close>

lemma prints_image:
  assumes "prints t bs s s'" "image_placed s"
  shows "same_image (bootMemAddr s) (memory s) (memory s')"
  using assms(2) by (rule same_image_video) (use assms(1) in \<open>simp add: prints_def\<close>)

text \<open>Reading depends on the process tables and the file system image only.\<close>

lemma image_placed_same:
  assumes "proc_same s s'" "same_image (bootMemAddr s) (memory s) (memory s')" "image_placed s"
  shows "image_placed s'" "bootMemAddr s' = bootMemAddr s"
  using assms same_image_ok [OF assms(2)] same_image_header [OF assms(2)] by (simp_all add: image_placed_def proc_same_def)

lemma file_reading_same:
  assumes "proc_same s s'" "same_image (bootMemAddr s) (memory s) (memory s')" "file_reading fd buf n s"
  shows "file_reading fd buf n s'" "file_rest fd s' = file_rest fd s"
proof -
  have a: "image_placed s" "fd_inodeNum (fd_entry fd s) < numInodes (memory s) (bootMemAddr s)"
    using assms(3) by (simp_all add: file_reading_def)
  note i = image_placed_same [OF assms(1,2) a(1)]
  have f: "file_data (memory s') (bootMemAddr s) (fd_inodeNum (fd_entry fd s)) = file_data (memory s) (bootMemAddr s) (fd_inodeNum (fd_entry fd s))"
    using a by (intro same_image_file [OF assms(2)]) (simp_all add: image_placed_def)
  show "file_reading fd buf n s'" "file_rest fd s' = file_rest fd s"
    using assms(3) fd_entry_same [OF assms(1)] i f same_image_header [OF assms(2)] proc_same_ok [OF assms(1)]
    by (simp_all add: file_reading_def file_rest_def)
qed

lemma dir_reading_same:
  assumes "proc_same s s'" "same_image (bootMemAddr s) (memory s) (memory s')" "dir_reading fd buf n s"
  shows "dir_reading fd buf n s'" "dir_rest fd s' = dir_rest fd s"
proof -
  have a: "image_placed s" using assms(3) by (simp add: dir_reading_def)
  note i = image_placed_same [OF assms(1,2) a]
  have d: "directory (memory s') (bootMemAddr s) = directory (memory s) (bootMemAddr s)"
    using a by (intro same_image_directory [OF assms(2)]) (simp add: image_placed_def)
  show "dir_reading fd buf n s'" "dir_rest fd s' = dir_rest fd s"
    using assms(3) fd_entry_same [OF assms(1)] i d proc_same_ok [OF assms(1)] by (simp_all add: dir_reading_def dir_rest_def)
qed

text \<open>Bytes written into the program's page do not show on a terminal.\<close>

lemma vterm_of_same:
  assumes "u < 3" "screen_x s' = screen_x s" "screen_y s' = screen_y s" "currentTerminal s' = currentTerminal s"
    and "\<And>a. in_video a \<Longrightarrow> memory s' a = memory s a"
  shows "vterm_of u s' = vterm_of u s"
proof -
  have "page_cells (memory s') k = page_cells (memory s) k" if "k \<le> 3" for k
    using assms(5) in_video_page [OF that] unfolding page_cells_def by (auto simp: rd_bytes_def view_def)
  then show ?thesis using assms(1-4) by (simp add: vterm_of_def home_page_def)
qed

lemma user_write_video:
  assumes "sys_ok s" "user_buffer v (length bs)" "in_video a"
  shows "wr_bytes (memory s) (user_phys v s) bs a = memory s a"
proof -
  have "\<not> in_region (user_phys v s) (length bs) a"
    using user_not_video [OF assms(1,2)] assms(3) by (blast elim: in_regionE)
  then show ?thesis by (simp add: wr_bytes_def in_region_def)
qed

text \<open>A program's store into its own page.\<close>

lemma user_store:
  assumes "user_ok t s" "image_placed s" "user_buffer v (length bs)"
  defines "s' \<equiv> with_memory (wr_bytes (memory s) (user_phys v s) bs) s"
  shows "user_ok t s'" "proc_same s s'" "same_image (bootMemAddr s) (memory s) (memory s')" "user_phys w s' = user_phys w s"
    "u < 3 \<Longrightarrow> vterm_of u s' = vterm_of u s"
proof -
  have ok: "sys_ok s" using assms(1) by (simp add: user_ok_def)
  show ps: "proc_same s s'" by (simp add: s'_def)
  show "user_ok t s'" using assms(1) proc_same_ok [OF ps]
    by (simp add: user_ok_def s'_def) (simp add: with_memory_def term_wf_def console_wf_def)
  show "same_image (bootMemAddr s) (memory s) (memory s')"
    using same_image_user [OF ok assms(2) user_ptr_phys [OF ok assms(3)], of bs] by (simp add: s'_def)
  show "user_phys w s' = user_phys w s" by (simp add: s'_def user_phys_def user_frame_def)
  show "vterm_of u s' = vterm_of u s" if "u < 3"
    by (rule vterm_of_same [OF that]) (simp_all add: s'_def with_memory_def user_write_video [OF ok assms(3)])
qed

lemma user_ok_after_read:
  fixes pos :: u32
  assumes "user_ok t s" "image_placed s" "fd < 8" "user_buffer buf (length data)"
  defines "s' \<equiv> after_read fd (user_phys buf s) data pos s"
  shows "user_ok t s'" "u < 3 \<Longrightarrow> vterm_of u s' = vterm_of u s"
proof -
  have ok: "sys_ok s" using assms(1) by (simp add: user_ok_def)
  have len: "nat (cur_pid s) < length (PCB_at s)" using ok by (auto simp: sys_ok_def proc_inv_def proc_wf_def running_def)
  have "process_terminal s' = process_terminal s"
    using len by (simp add: s'_def after_read_def)
  moreover have "term_wf s'" using assms(1) by (simp add: s'_def after_read_def user_ok_def) (simp add: with_memory_def term_wf_def console_wf_def)
  moreover have "sys_ok s'" using after_read_facts(1) [OF ok assms(2-4)] by (simp add: s'_def user_phys_def)
  ultimately show "user_ok t s'" using assms(1) by (simp add: user_ok_def)
  show "vterm_of u s' = vterm_of u s" if "u < 3"
    by (rule vterm_of_same [OF that]) (simp_all add: s'_def after_read_def with_memory_def fdt_put_def user_write_video [OF ok assms(4)])
qed

section \<open>cat as a copier\<close>

definition cat_out :: "u32 \<Rightarrow> byte list \<Rightarrow> sys \<Rightarrow> sys option" where
  "cat_out buf d s = do {
     (r, s) \<leftarrow> sys_write 1 buf (int (length d)) s;
     if r = -1 then None else Some s
   }"

definition cat_good :: "int \<Rightarrow> nat \<Rightarrow> nat \<Rightarrow> u32 \<Rightarrow> nat \<Rightarrow> sys \<Rightarrow> bool" where
  "cat_good n t fd buf u s \<longleftrightarrow> file_reading fd buf (nat n) s \<and> user_ok t s \<and> u < 3"

definition put_on :: "nat \<Rightarrow> nat \<Rightarrow> byte \<Rightarrow> vterm \<Rightarrow> vterm" where
  "put_on t u c v = (if u = t then vt_put c v else v)"

lemma fold_put_on: "fold (put_on t u) bs v = (if u = t then fold vt_put bs v else v)"
  by (induction bs arbitrary: v) (auto simp: put_on_def)

lemma cat_step:
  assumes "cat_good n t fd buf u s"
  defines "data \<equiv> take (nat n) (file_rest fd s)"
  shows "\<exists>s'. read_step d0 fd buf (nat n) s = Some (data, s') \<and> file_rest fd s = data @ file_rest fd s' \<and> cat_good n t fd buf u s'
     \<and> vterm_of u s' = vterm_of u s \<and> user_buffer buf (length data) \<and> rd_bytes (memory s') (user_phys buf s') (length data) = data"
proof -
  let ?s = "after_read fd (user_phys buf s) data (file_position (fd_entry fd s) + of_nat (length data)) s"
  have g: "file_reading fd buf (nat n) s" "user_ok t s" "u < 3" using assms(1) by (simp_all add: cat_good_def)
  have a: "sys_ok s" "image_placed s" "fd < 8" "user_buffer buf (length data)"
    using g(1) by (auto simp: file_reading_def data_def user_buffer_def)
  note r = read_step_file [OF g(1), folded data_def, folded user_phys_def]
  note f = after_read_facts(7,8) [OF a, of "file_position (fd_entry fd s) + of_nat (length data)", folded user_phys_def]
  have "user_phys buf ?s = user_phys buf s" using f(1) by (simp add: user_phys_def)
  then show ?thesis
    using r f(2) user_ok_after_read [OF g(2) a(2-4)] g(3) a(4) by (intro exI [of _ ?s]) (simp add: cat_good_def)
qed

interpretation cat: copier "read_step d0 fd buf (nat n)" "file_rest fd" "cat_good n t fd buf u" "cat_out buf" "vterm_of u" "put_on t u"
  for d0 fd buf n t u
proof
  fix s :: sys assume g: "cat_good n t fd buf u s"
  have n: "0 < nat n" using g by (simp add: cat_good_def file_reading_def)
  obtain s1 where s1: "read_step d0 fd buf (nat n) s = Some (take (nat n) (file_rest fd s), s1)"
      "file_rest fd s = take (nat n) (file_rest fd s) @ file_rest fd s1" "cat_good n t fd buf u s1" "vterm_of u s1 = vterm_of u s"
    using cat_step [OF g, of d0] by blast
  {
    assume "file_rest fd s \<noteq> []"
    then have "take (nat n) (file_rest fd s) \<noteq> []" using n by simp
    with s1 show "\<exists>d s'. read_step d0 fd buf (nat n) s = Some (d, s') \<and> d \<noteq> [] \<and> file_rest fd s = d @ file_rest fd s' \<and> cat_good n t fd buf u s'"
      by blast
  }
  {
    assume "file_rest fd s = []"
    with s1 show "\<exists>s'. read_step d0 fd buf (nat n) s = Some ([], s') \<and> cat_good n t fd buf u s'" by auto
  }
  show "vterm_of u s' = vterm_of u s" if "read_step d0 fd buf (nat n) s = Some (d, s')" for d s' using s1 that by simp
next
  fix s s0 :: sys and d
  assume g: "cat_good n t fd buf u s" "read_step d0 fd buf (nat n) s0 = Some (d, s)" "cat_good n t fd buf u s0"
  have d: "user_buffer buf (length d)" "rd_bytes (memory s) (user_phys buf s) (length d) = d"
    using cat_step [OF g(3), of d0] g(2) by auto
  have a: "file_reading fd buf (nat n) s" "user_ok t s" "u < 3" using g(1) by (simp_all add: cat_good_def)
  obtain s' where s': "sys_write 1 buf (int (length d)) s = Some (int (length d), s')" "prints t d s s'"
    using write_prints [OF a(2) d(1)] d(2) by auto
  have im: "same_image (bootMemAddr s) (memory s) (memory s')"
    using a(1) by (intro prints_image [OF s'(2)]) (simp add: file_reading_def)
  have "cat_out buf d s = Some s'" using s'(1) by (simp add: cat_out_def)
  moreover have "cat_good n t fd buf u s'"
    using file_reading_same(1) [OF prints_same [OF s'(2)] im a(1)] prints_user_ok [OF a(2) s'(2)] a(3) by (simp add: cat_good_def)
  moreover have "vterm_of u s' = fold (put_on t u) d (vterm_of u s)" using s'(2) a(3) by (simp add: prints_def fold_put_on)
  ultimately show "\<exists>s'. cat_out buf d s = Some s' \<and> file_rest fd s' = file_rest fd s
      \<and> vterm_of u s' = fold (put_on t u) d (vterm_of u s) \<and> cat_good n t fd buf u s'"
    using file_reading_same(2) [OF prints_same [OF s'(2)] im a(1)] by blast
qed

text \<open>What a successful \<open>read_step\<close> says about the call.\<close>

lemma read_stepD:
  assumes "read_step (dentry_init (user_locals E)) fd buf n s = Some (d, s')" "fd < 8" "n \<le> 1024"
  shows "ece391_read E (int fd) buf (int n) s = Some (int (length d), s')" "length d \<le> 0x8400000"
proof -
  obtain r p where r: "sys_read (dentry_init (user_locals E)) (int fd) buf (int n) s = Some (Ret r s')" "0 \<le> r"
      "user_ptr buf (nat r) s' = Some p" "d = rd_bytes (memory s') p (nat r)"
    using assms(1) by (auto simp: read_step_def split: option.splits sysret.splits if_splits)
  have "int (length d) = r" using r by simp
  with r(1) show "ece391_read E (int fd) buf (int n) s = Some (int (length d), s')"
    using assms(2,3) by (simp add: ece391_read_sys)
  show "length d \<le> 0x8400000" using r(3,4) by (auto simp: user_ptr_def Let_def split: if_splits)
qed

lemma cat_loop_pump:
  assumes "fd < 8"
  shows "pump (read_step (dentry_init (user_locals E)) fd buf 1024) (cat_out buf) n s = Some s' \<Longrightarrow> cat_loop E (int fd) buf s = Some (0, s')"
proof (induction n arbitrary: s)
  case (Suc n)
  then obtain d s1 where d: "read_step (dentry_init (user_locals E)) fd buf 1024 s = Some (d, s1)"
      "(if d = [] then Some s1 else do { s \<leftarrow> cat_out buf d s1; pump (read_step (dentry_init (user_locals E)) fd buf 1024) (cat_out buf) n s }) = Some s'"
    by (auto simp: Option.bind_eq_Some_conv)
  note r = read_stepD [OF d(1) assms, simplified]
  show ?case
  proof (cases "d = []")
    case True
    then show ?thesis using r(1) d(2) by (subst cat_loop.simps) simp
  next
    case False
    then obtain s2 where s2: "cat_out buf d s1 = Some s2" "pump (read_step (dentry_init (user_locals E)) fd buf 1024) (cat_out buf) n s2 = Some s'"
      using d(2) by (auto simp: Option.bind_eq_Some_conv)
    then obtain v where v: "sys_write 1 buf (int (length d)) s1 = Some (v, s2)" "v \<noteq> -1"
      by (auto simp: cat_out_def Option.bind_eq_Some_conv split: if_splits)
    have "ece391_write E 1 buf (int (length d)) s1 = Some (v, s2)" using v(1) r(2) by (simp add: ece391_write_sys)
    with r(1) False v(2) Suc.IH [OF s2(2)] show ?thesis by (subst cat_loop.simps) simp
  qed
qed simp

text \<open>From a descriptor to the end of the file.\<close>

lemma cat_loop_prints:
  assumes "file_reading fd buf 1024 s" "user_ok t s"
  shows "\<exists>s'. cat_loop E (int fd) buf s = Some (0, s')
     \<and> (\<forall>u < 3. vterm_of u s' = (if u = t then fold vt_put (file_rest fd s) (vterm_of u s) else vterm_of u s))"
proof -
  let ?d = "dentry_init (user_locals E)" and ?n = "Suc (length (file_rest fd s))"
  have g: "cat_good 1024 t fd buf u s" if "u < 3" for u using assms that by (simp add: cat_good_def)
  have fd: "fd < 8" using assms(1) by (simp add: file_reading_def)
  have p: "\<exists>s'. pump (read_step ?d fd buf 1024) (cat_out buf) ?n s = Some s' \<and> vterm_of u s' = fold (put_on t u) (file_rest fd s) (vterm_of u s)"
    if "u < 3" for u
    using cat.pump_copies_all [OF g [OF that], of ?n ?d] by auto
  obtain s' where s': "pump (read_step ?d fd buf 1024) (cat_out buf) ?n s = Some s'" using p [of 0] by auto
  then show ?thesis using p cat_loop_pump [OF fd s'] by (auto simp: fold_put_on)
qed

section \<open>Arguments and names\<close>

text \<open>The arguments \<open>name\<close> of a process, as \<open>sys_execute\<close> stores them.\<close>

definition has_args :: "byte list \<Rightarrow> sys \<Rightarrow> bool" where
  "has_args name s \<longleftrightarrow> 0 \<notin> set name \<and> length name < ARG_SIZE
     \<and> arg_ptr (PCB_at s ! nat (cur_pid s)) = name @ replicate (ARG_SIZE - length name) 0"

lemma getargs_store:
  assumes "user_ok t s" "user_buffer buf 1024" "has_args name s"
  shows "ece391_getargs E buf 1024 s = Some (0, with_memory (wr_bytes (memory s) (user_phys buf s) (name @ replicate (128 - length name) 0)) s)"
proof -
  let ?a = "name @ replicate (128 - length name) 0" and ?p = "user_phys buf s"
  have n: "0 \<notin> set name" "length name < 128" "arg_ptr (PCB_at s ! nat (cur_pid s)) = ?a" using assms(3) by (simp_all add: has_args_def)
  have ok: "sys_ok s" using assms(1) by (simp add: user_ok_def)
  obtain k where k: "cur_pid s = int k" "pcb_place (cur_pid s) s = Some k" using sys_okD [OF ok] by metis
  have ub: "user_buffer buf 128" using assms(2) by (simp add: user_buffer_def)
  have nz: "name ! i \<noteq> 0" if "i \<le> j" "j < length name" for i j using n(1) that nth_mem [of i name] by fastforce
  have c: "strncpy_spec ((!) ?a) 128 = ?a"
    using n(2) nz by (intro strncpy_spec_list) (auto simp: nth_append split: if_splits)
  have l: "length ?a = 128" using n(2) by simp
  have z: "wr_bytes (memory s) ?p ?a (?p + of_nat 127) = 0" using wr_bytes_at [of 127 ?a "memory s" ?p] n(2) l by (simp add: nth_append)
  have "buf \<noteq> 0" using ub by (auto simp: user_buffer_def)
  then show ?thesis
    using user_ptr_phys [OF ok ub] k n(3) c z by (simp add: ece391_getargs_sys sys_getargs_def pcb_of_def view_def)
qed

lemma getargs_string:
  assumes "user_ok t s" "image_placed s" "user_buffer buf 1024" "has_args name s"
  shows "\<exists>s'. ece391_getargs E buf 1024 s = Some (0, s') \<and> user_ok t s' \<and> cstr_at buf name s' \<and> image_placed s'
     \<and> same_image (bootMemAddr s) (memory s) (memory s') \<and> bootMemAddr s' = bootMemAddr s \<and> proc_same s s'
     \<and> (\<forall>u < 3. vterm_of u s' = vterm_of u s)"
proof -
  let ?a = "name @ replicate (128 - length name) 0" and ?p = "user_phys buf s"
  let ?s = "with_memory (wr_bytes (memory s) ?p ?a) s"
  have n: "0 \<notin> set name" "length name < 128" using assms(4) by (simp_all add: has_args_def)
  have l: "length ?a = 128" using n(2) by simp
  have ub: "user_buffer buf (length ?a)" using assms(3) l by (simp add: user_buffer_def)
  note st = user_store [OF assms(1,2) ub]
  have "rd_bytes (memory ?s) ?p 128 = ?a" using rd_wr_bytes [of ?a "memory s" ?p] l by simp
  then have "rd_bytes (memory ?s) ?p (length name + 1) = take (length name + 1) ?a"
    using rd_bytes_take [of "length name + 1" 128 "memory ?s" ?p] n(2) by simp
  then have "cstr_at buf name ?s"
    using n ub st(4) by (auto simp: cstr_at_def user_buffer_def take_append)
  moreover have "image_placed ?s" by (rule image_placed_same [OF st(2,3) assms(2)])
  ultimately show ?thesis using getargs_store [OF assms(1,3,4), of E] st(1,2,3,5) by (intro exI [of _ ?s]) simp
qed

text \<open>Opening an object by a name in the program's memory.\<close>

definition plain_name :: "byte list \<Rightarrow> bool" where
  "plain_name name \<longleftrightarrow> length name \<le> 32 \<and> take 5 name \<noteq> chars ''stdin'' \<and> take 6 name \<noteq> chars ''stdout''"

definition find_file :: "byte list \<Rightarrow> sys \<Rightarrow> dentry option" where
  "find_file name s = find (\<lambda>d. name_of d = name) (directory (memory s) (bootMemAddr s))"

definition fd_free :: "sys \<Rightarrow> bool" where
  "fd_free s \<longleftrightarrow> (\<exists>i \<in> {2..<8}. fd_flags (fd_entry i s) = UNUSED_FLAG)"

lemma cstr_n_take: "k \<le> n \<Longrightarrow> cstr_n f k = take k (cstr_n f n)"
proof (induction k arbitrary: f n)
  case (Suc k)
  then show ?case by (cases n) (simp_all add: cstr_n_Suc)
qed simp

lemma plain_not_special:
  assumes "cstr_n f 33 = name" "plain_name name"
  shows "\<not> special_name f" "cstr_n f 32 = name"
proof -
  have t: "cstr_n f k = take k name" if "k \<le> 33" for k using cstr_n_take [OF that, of f] assms(1) by simp
  have "cstr_n (str_view ''stdin'') 5 = chars ''stdin''" "cstr_n (str_view ''stdout'') 6 = chars ''stdout''"
    by (simp_all add: cstr_n_def upt_rec str_view_def chars_def)
  then show "\<not> special_name f" using assms(2) t by (simp add: special_name_def strncmp_eq_0_iff plain_name_def)
  show "cstr_n f 32 = name" using t [of 32] assms(2) by (simp add: plain_name_def)
qed

lemma open_named:
  assumes "user_ok t s" "cstr_at v name s" "plain_name name" "find_file name s = Some d" "0 < fileType d" "fileType d \<le> 2" "fd_free s"
  shows "\<exists>i s'. ece391_open E v s = Some (int i, s') \<and> 2 \<le> i \<and> i < 8 \<and> s' = fdt_put (nat (cur_pid s)) i (opened_fd d) s
     \<and> fd_entry i s' = opened_fd d \<and> user_ok t s' \<and> memory s' = memory s
     \<and> fd_flags (fd_entry i s) = UNUSED_FLAG \<and> (\<forall>j \<in> {2..<i}. fd_flags (fd_entry j s) \<noteq> UNUSED_FLAG)
     \<and> (\<forall>j. j \<noteq> i \<longrightarrow> fd_entry j s' = fd_entry j s)"
proof -
  have ok: "sys_ok s" using assms(1) by (simp add: user_ok_def)
  obtain k where k: "k < 6" "cur_pid s = int k" using sys_okD [OF ok] by metis
  let ?f = "view (memory s) (user_phys v s)"
  have c: "cstr_n ?f 33 = name" using cstr_n_view [OF assms(2)] assms(3) by (simp add: plain_name_def)
  note p = plain_not_special [OF c assms(3)]
  have lk: "lookup ?f s = Some d" using assms(4) p(2) by (simp add: lookup_def find_file_def)
  define i where "i = free_fd (process_fdt (PCB_at s ! k)) 2"
  have i: "2 \<le> i" "i \<le> 8" "\<forall>j \<in> {2..<i}. fd_flags (fd_entry j s) \<noteq> UNUSED_FLAG" "i < 8 \<Longrightarrow> fd_flags (fd_entry i s) = UNUSED_FLAG"
    using free_fd_spec [of 2 "process_fdt (PCB_at s ! k)"] k(2) by (auto simp: i_def fd_entry_def)
  have nt: "fileType d \<noteq> 0" using assms(5) by simp
  have i8: "i < 8" using i(1-3) assms(7) by (cases "i = 8") (auto simp: fd_free_def)
  obtain s' where s': "sys_open (dentry_init (user_locals E)) (Some ?f) s = Some (int i, s')" "s' = fdt_put k i (opened_fd d) s"
    using sys_open_cases(5) [OF ok k(2) p(1) i8 [unfolded i_def] lk assms(6)] nt unfolding i_def by blast
  have "v \<noteq> 0" using assms(2) by (auto simp: cstr_at_def user_buffer_def)
  then have "ece391_open E v s = Some (int i, s')"
    using s'(1) cstr_at_str(1) [OF ok assms(2)] by (simp add: ece391_open_sys str_arg_def)
  moreover have "sys_ok s'" by (rule sys_open_inv [OF ok s'(1)])
  moreover have "fd_entry j s' = (if j = i then opened_fd d else fd_entry j s)" for j using fd_entry_put [OF ok k(2) i8] s'(2) by simp
  moreover have "k < length (PCB_at s)" using ok k(1) by (simp add: sys_ok_def proc_inv_def proc_wf_def)
  ultimately show ?thesis using i(1,3) i(4) [OF i8] i8 s'(2) k(2) assms(1) by (intro exI [of _ i] exI [of _ s']) (simp add: user_ok_def)
qed

text \<open>An open descriptor does not show on a terminal.\<close>

lemma vterm_fdt_put [simp]: "vterm_of u (fdt_put k i e s) = vterm_of u s"
  by (simp add: vterm_of_def home_page_def fdt_put_def)

section \<open>ls as a copier\<close>

text \<open>The objects copied are names; each is printed on a line of its own.\<close>

definition ls_out :: "u32 \<Rightarrow> byte list list \<Rightarrow> sys \<Rightarrow> sys option" where
  "ls_out buf ds s = do {
     s \<leftarrow> uput (buf + of_nat (length (concat ds))) 10 s;
     (r, s) \<leftarrow> sys_write 1 buf (int (length (concat ds)) + 1) s;
     if r = -1 then None else Some s
   }"

definition ls_good :: "nat \<Rightarrow> nat \<Rightarrow> u32 \<Rightarrow> nat \<Rightarrow> sys \<Rightarrow> bool" where
  "ls_good t fd buf u s \<longleftrightarrow> dir_reading fd buf 32 s \<and> user_ok t s \<and> user_buffer buf 33 \<and> u < 3"

definition line_on :: "nat \<Rightarrow> nat \<Rightarrow> byte list \<Rightarrow> vterm \<Rightarrow> vterm" where
  "line_on t u name v = (if u = t then fold vt_put (name @ [10]) v else v)"

lemma fold_line_on: "fold (line_on t u) names v = (if u = t then fold vt_put (concat (map (\<lambda>n. n @ [10]) names)) v else v)"
  by (induction names arbitrary: v) (auto simp: line_on_def)

lemma ls_step_facts:
  assumes "ls_good t fd buf u s" "dir_step d0 fd buf 32 s = Some (ds, s')"
  shows "ls_good t fd buf u s'" "vterm_of u s' = vterm_of u s" "length ds \<le> 1" "length (concat ds) \<le> 32"
    "rd_bytes (memory s') (user_phys buf s') (length (concat ds)) = concat ds"
    "dir_rest fd s \<noteq> [] \<Longrightarrow> ds \<noteq> [] \<and> dir_rest fd s = ds @ dir_rest fd s'" "dir_rest fd s = [] \<Longrightarrow> ds = []"
proof -
  let ?i = "unat (file_position (fd_entry fd s))" and ?dir = "directory (memory s) (bootMemAddr s)" and ?p = "user_phys buf s"
  have g: "dir_reading fd buf 32 s" "user_ok t s" "user_buffer buf 33" "u < 3" using assms(1) by (simp_all add: ls_good_def)
  define nm where "nm = (if ?i < length ?dir then name_of (?dir ! ?i) else [])"
  define pos where "pos = (if ?i < length ?dir then file_position (fd_entry fd s) + 1 else 0)"
  note r = read_step_dir [OF g(1), folded user_phys_def]
  have st: "read_step d0 fd buf 32 s = Some (nm, after_read fd ?p nm pos s)"
    using r(1) [of d0] by (simp add: nm_def pos_def)
  then have s': "s' = after_read fd ?p nm pos s" and ds: "ds = (if nm = [] then [] else [nm])" using assms(2) by (auto simp: dir_step_def)
  have a: "sys_ok s" "image_placed s" "fd < 8" "?i \<le> length ?dir" "[] \<notin> name_of ` set ?dir" using g(1) by (auto simp: dir_reading_def)
  have "length (name_of d) \<le> 32" if "d \<in> set ?dir" for d
    using that by (auto simp: directory_def name_of_ld_dentry length_cstr_n)
  then have n32: "length nm \<le> 32" by (simp add: nm_def)
  then have ub: "user_buffer buf (length nm)" using g(3) by (auto simp: user_buffer_def)
  note f = after_read_facts [OF a(1-3) ub, of pos, folded user_phys_def s']
  note u = user_ok_after_read [OF g(2) a(2,3) ub, where pos = pos, folded s']
  show "ls_good t fd buf u s'" using r(2) u(1) g(3,4) s' unfolding ls_good_def nm_def pos_def by (simp split: if_splits)
  show "vterm_of u s' = vterm_of u s" by (rule u(2) [OF g(4)])
  show "length ds \<le> 1" "length (concat ds) \<le> 32" using n32 by (simp_all add: ds)
  have "user_phys buf s' = ?p" using f(7) by (simp add: user_phys_def)
  then show "rd_bytes (memory s') (user_phys buf s') (length (concat ds)) = concat ds" using f(8) by (simp add: ds)
  have ne: "nm \<noteq> []" if "?i < length ?dir"
  proof -
    have "name_of (?dir ! ?i) \<in> name_of ` set ?dir" using that by (intro imageI nth_mem)
    with a(5) have "name_of (?dir ! ?i) \<noteq> []" by metis
    then show ?thesis using that by (simp add: nm_def)
  qed
  show "ds \<noteq> [] \<and> dir_rest fd s = ds @ dir_rest fd s'" if "dir_rest fd s \<noteq> []"
  proof -
    have i: "?i < length ?dir" using that by (simp add: dir_rest_def)
    then show ?thesis using r(3) ne ds s' by (simp add: nm_def pos_def)
  qed
  show "ds = []" if "dir_rest fd s = []"
  proof -
    have "\<not> ?i < length ?dir" using that by (simp add: dir_rest_def)
    then show ?thesis using ds by (simp add: nm_def)
  qed
qed

lemma uput_store:
  assumes "sys_ok s" "user_buffer v n" "i < n"
  shows "uput (v + of_nat i) b s = Some (with_memory (wr_bytes (memory s) (user_phys v s + of_nat i) [b]) s)"
    "user_phys (v + of_nat i) s = user_phys v s + of_nat i" "user_buffer (v + of_nat i) 1"
proof -
  have v: "0x08000000 \<le> unat v" "unat v + n \<le> 0x08400000" using assms(2) by (simp_all add: user_buffer_def word_le_nat_alt)
  have "unat (v + of_nat i) = unat v + i" using v assms(3) by (simp add: unat_word_ariths unat_of_nat_32)
  then show ub: "user_buffer (v + of_nat i) 1" using v assms(3) by (simp add: user_buffer_def word_le_nat_alt)
  show p: "user_phys (v + of_nat i) s = user_phys v s + of_nat i" by (simp add: user_phys_def)
  have "(memory s)(q := b) = wr_bytes (memory s) q [b]" for q by (auto simp: wr_bytes_def fun_eq_iff unat_eq_0)
  then show "uput (v + of_nat i) b s = Some (with_memory (wr_bytes (memory s) (user_phys v s + of_nat i) [b]) s)"
    using user_ptr_phys [OF assms(1) ub] p by (simp add: uput_def)
qed

lemma ls_out_prints:
  assumes "user_ok t s" "image_placed s" "user_buffer buf 33" "length d \<le> 32" "rd_bytes (memory s) (user_phys buf s) (length d) = d"
  shows "\<exists>s1 s'. uput (buf + of_nat (length d)) 10 s = Some s1 \<and> sys_write 1 buf (int (length d) + 1) s1 = Some (int (length d) + 1, s')
     \<and> prints t (d @ [10]) s1 s' \<and> user_ok t s1 \<and> proc_same s s1 \<and> same_image (bootMemAddr s) (memory s) (memory s1)
     \<and> (\<forall>u < 3. vterm_of u s1 = vterm_of u s)"
proof -
  let ?i = "length d" and ?p = "user_phys buf s"
  have ok: "sys_ok s" using assms(1) by (simp add: user_ok_def)
  have i: "?i < 33" using assms(4) by simp
  note u = uput_store(1) [OF ok assms(3) i, of 10] uput_store(2,3) [OF ok assms(3) i]
  define s1 where "s1 = with_memory (wr_bytes (memory s) (?p + of_nat ?i) [10]) s"
  have st: "user_ok t s1" "proc_same s s1" "same_image (bootMemAddr s) (memory s) (memory s1)" "user_phys buf s1 = ?p"
      "\<forall>u < 3. vterm_of u s1 = vterm_of u s"
    using user_store [OF assms(1,2), of "buf + of_nat ?i" "[10]"] u(2,3) by (simp_all add: s1_def)
  have ub: "user_buffer buf (?i + 1)" using assms(3,4) by (auto simp: user_buffer_def)
  have "rd_bytes (memory s1) ?p (?i + 1) = d @ [10]"
  proof (rule nth_equalityI)
    fix j assume "j < length (rd_bytes (memory s1) ?p (?i + 1))"
    then have j: "j < ?i + 1" by simp
    have "?p + of_nat j - (?p + of_nat ?i) = (of_nat j - of_nat ?i :: u32)" by simp
    moreover have "(of_nat j :: u32) = of_nat ?i \<longleftrightarrow> j = ?i"
      using j i by (intro of_nat_inj_32) simp_all
    ultimately have "unat (?p + of_nat j - (?p + of_nat ?i)) < 1 \<longleftrightarrow> j = ?i" by (simp add: unat_eq_0)
    then show "rd_bytes (memory s1) ?p (?i + 1) ! j = (d @ [10]) ! j"
      using j assms(5) nth_rd_bytes [of j ?i "memory s" ?p] by (auto simp: s1_def wr_bytes_def nth_append)
  qed simp
  then obtain s' where "sys_write 1 buf (int ?i + 1) s1 = Some (int ?i + 1, s')" "prints t (d @ [10]) s1 s'"
    using write_prints [OF st(1) ub] st(4) by (auto simp: add.commute)
  moreover note u(1) [folded s1_def]
  ultimately show ?thesis using st(1-3,5) by blast
qed

interpretation ls: copier "dir_step d0 fd buf 32" "dir_rest fd" "ls_good t fd buf u" "ls_out buf" "vterm_of u" "line_on t u"
  for d0 fd buf t u
proof
  fix s :: sys assume g: "ls_good t fd buf u s"
  have "dir_reading fd buf 32 s" using g by (simp add: ls_good_def)
  then obtain d s1 where s1: "dir_step d0 fd buf 32 s = Some (d, s1)"
    using dir_reader.step_delivers dir_reader.step_ends by (cases "dir_rest fd s = []") blast+
  note f = ls_step_facts [OF g s1]
  show "\<exists>d s'. dir_step d0 fd buf 32 s = Some (d, s') \<and> d \<noteq> [] \<and> dir_rest fd s = d @ dir_rest fd s' \<and> ls_good t fd buf u s'"
    if "dir_rest fd s \<noteq> []" using that s1 f by blast
  show "\<exists>s'. dir_step d0 fd buf 32 s = Some ([], s') \<and> ls_good t fd buf u s'" if "dir_rest fd s = []" using that s1 f by auto
  show "vterm_of u s' = vterm_of u s" if "dir_step d0 fd buf 32 s = Some (d, s')" for d s' using ls_step_facts(2) [OF g that] .
next
  fix s s0 :: sys and d
  assume g: "ls_good t fd buf u s" "dir_step d0 fd buf 32 s0 = Some (d, s)" "ls_good t fd buf u s0" "d \<noteq> []"
  note f = ls_step_facts(3-5) [OF g(3,2)]
  have a: "dir_reading fd buf 32 s" "user_ok t s" "user_buffer buf 33" "u < 3" "image_placed s" using g(1) by (auto simp: ls_good_def dir_reading_def)
  obtain x where x: "d = [x]" using f(1) g(4) by (cases d) auto
  obtain s1 s' where w: "uput (buf + of_nat (length x)) 10 s = Some s1" "sys_write 1 buf (int (length x) + 1) s1 = Some (int (length x) + 1, s')"
      "prints t (x @ [10]) s1 s'" "user_ok t s1" "proc_same s s1" "same_image (bootMemAddr s) (memory s) (memory s1)" "\<forall>u < 3. vterm_of u s1 = vterm_of u s"
    using ls_out_prints [OF a(2,5,3), of x] f(2,3) x by auto
  have o: "ls_out buf d s = Some s'" using w(1,2) x by (simp add: ls_out_def)
  note r1 = dir_reading_same [OF w(5,6) a(1)]
  have im: "image_placed s1" by (rule image_placed_same [OF w(5,6) a(5)])
  note r2 = dir_reading_same [OF prints_same [OF w(3)] prints_image [OF w(3) im] r1(1)]
  have "ls_good t fd buf u s'" using r2(1) prints_user_ok [OF w(4,3)] a(3,4) by (simp add: ls_good_def)
  moreover have "vterm_of u s' = fold (line_on t u) d (vterm_of u s)" using w(3,7) a(4) by (simp add: prints_def x line_on_def)
  ultimately show "\<exists>s'. ls_out buf d s = Some s' \<and> dir_rest fd s' = dir_rest fd s \<and> vterm_of u s' = fold (line_on t u) d (vterm_of u s) \<and> ls_good t fd buf u s'"
    using o r1(2) r2(2) by auto
qed

lemma ls_loop_pump:
  assumes "fd < 8"
  shows "pump (dir_step (dentry_init (user_locals E)) fd buf 32) (ls_out buf) n s = Some s' \<Longrightarrow> ls_loop E (int fd) buf s = Some (0, s')"
proof (induction n arbitrary: s)
  case (Suc n)
  let ?step = "dir_step (dentry_init (user_locals E)) fd buf 32"
  obtain ds s1 where d: "?step s = Some (ds, s1)"
      "(if ds = [] then Some s1 else do { s \<leftarrow> ls_out buf ds s1; pump ?step (ls_out buf) n s }) = Some s'"
    using Suc.prems by (auto simp: Option.bind_eq_Some_conv)
  then obtain x where x: "read_step (dentry_init (user_locals E)) fd buf 32 s = Some (x, s1)" "ds = (if x = [] then [] else [x])"
    by (auto simp: dir_step_def)
  note r = read_stepD [OF x(1) assms, simplified]
  show ?case
  proof (cases "x = []")
    case True
    then show ?thesis using r(1) d(2) x(2) by (subst ls_loop.simps) simp
  next
    case False
    then obtain s2 where s2: "ls_out buf [x] s1 = Some s2" "pump ?step (ls_out buf) n s2 = Some s'"
      using d(2) x(2) by (auto simp: Option.bind_eq_Some_conv)
    then obtain a v where v: "uput (buf + of_nat (length x)) 10 s1 = Some a" "sys_write 1 buf (int (length x) + 1) a = Some (v, s2)" "v \<noteq> -1"
      by (auto simp: ls_out_def Option.bind_eq_Some_conv split: if_splits)
    have "ece391_write E 1 buf (int (length x) + 1) a = Some (v, s2)" using v(2) r(2) by (simp add: ece391_write_sys)
    with r(1) False v(1,3) Suc.IH [OF s2(2)] show ?thesis by (subst ls_loop.simps) simp
  qed
qed simp

lemma ls_loop_prints:
  assumes "dir_reading fd buf 32 s" "user_ok t s" "user_buffer buf 33"
  shows "\<exists>s'. ls_loop E (int fd) buf s = Some (0, s')
     \<and> (\<forall>u < 3. vterm_of u s' = (if u = t then fold vt_put (concat (map (\<lambda>n. n @ [10]) (dir_rest fd s))) (vterm_of u s) else vterm_of u s))"
proof -
  let ?d = "dentry_init (user_locals E)" and ?n = "Suc (length (dir_rest fd s))"
  have g: "ls_good t fd buf u s" if "u < 3" for u using assms that by (simp add: ls_good_def)
  have fd: "fd < 8" using assms(1) by (simp add: dir_reading_def)
  have p: "\<exists>s'. pump (dir_step ?d fd buf 32) (ls_out buf) ?n s = Some s' \<and> vterm_of u s' = fold (line_on t u) (dir_rest fd s) (vterm_of u s)"
    if "u < 3" for u
    using ls.pump_copies_all [OF g [OF that], of ?n ?d] by auto
  obtain s' where s': "pump (dir_step ?d fd buf 32) (ls_out buf) ?n s = Some s'" using p [of 0] by auto
  then show ?thesis using p ls_loop_pump [OF fd s'] by (auto simp: fold_line_on)
qed

section \<open>Properties\<close>

text \<open>
  C11: \<^verbatim>\<open>cat\<close> prints the file it is asked for.  Run with a free descriptor and, as its argument, the name
  of a regular file that starts neither with stdin nor with stdout (the kernel answers 0 or 1 when such
  a name is opened), it ends with status 0, and its terminal has received exactly the bytes of the
  file, in order; the other terminals show what they showed.
\<close>

theorem cat_prints_file:
  assumes "user_ok t s" "image_placed s" "user_buffer buf 1024" "has_args name s" "plain_name name" "fd_free s"
    and "find_file name s = Some d" "fileType d = 2" "inodeNum d < numInodes (memory s) (bootMemAddr s)"
  shows "\<exists>s'. cat_main E buf s = Some (0, s')
     \<and> (\<forall>u < NUM_TERMINALS. vterm_of u s' = (if u = t then fold vt_put (file_data (memory s) (bootMemAddr s) (inodeNum d)) (vterm_of u s) else vterm_of u s))"
proof -
  obtain s1 where s1: "ece391_getargs E buf 1024 s = Some (0, s1)" "user_ok t s1" "cstr_at buf name s1" "image_placed s1"
      "same_image (bootMemAddr s) (memory s) (memory s1)" "bootMemAddr s1 = bootMemAddr s" "proc_same s s1"
      "\<forall>u < 3. vterm_of u s1 = vterm_of u s"
    using getargs_string [OF assms(1-4)] by blast
  have p: "image_ok (memory s) (bootMemAddr s)" "numDirectories (memory s) (bootMemAddr s) \<le> 63"
    using assms(2) by (simp_all add: image_placed_def)
  have ff: "find_file name s1 = Some d"
    using same_image_directory [OF s1(5) p(2)] s1(6) assms(7) by (simp add: find_file_def)
  have fr: "fd_free s1" using assms(6) fd_entry_same [OF s1(7)] by (simp add: fd_free_def)
  have ty: "0 < fileType d" "fileType d \<le> 2" using assms(8) by simp_all
  obtain i s2 where s2: "ece391_open E buf s1 = Some (int i, s2)" "2 \<le> i" "i < 8"
      "s2 = fdt_put (nat (cur_pid s1)) i (opened_fd d) s1" "fd_entry i s2 = opened_fd d" "user_ok t s2" "memory s2 = memory s1"
    using open_named [OF s1(2,3) assms(5) ff ty fr, of E] by blast
  have f: "file_data (memory s2) (bootMemAddr s) (inodeNum d) = file_data (memory s) (bootMemAddr s) (inodeNum d)"
    unfolding s2(7) by (rule same_image_file [OF s1(5) p(1) assms(9)])
  have b: "bootMemAddr s2 = bootMemAddr s" using s1(6) by (simp add: s2(4))
  have e: "opened_fd d = \<lparr>fops_pointer = Some Regfile_fops, fd_inodeNum = inodeNum d, file_position = 0, fd_flags = REGFILE_FLAG\<rparr>"
    using assms(8) by (simp add: opened_fd_def)
  have "image_placed s2" using s1(4) by (simp add: s2(4) image_placed_def)
  moreover have "sys_ok s2" using s2(6) by (simp add: user_ok_def)
  ultimately have r: "file_reading i buf 1024 s2"
    using assms(3,9) s2(2,3) same_image_header(2) [OF s1(5)] by (simp add: file_reading_def s2(5,7) e b)
  have "file_rest i s2 = file_data (memory s) (bootMemAddr s) (inodeNum d)" using f by (simp add: file_rest_def s2(5) e b)
  then obtain s' where "cat_loop E (int i) buf s2 = Some (0, s')"
      "\<forall>u < 3. vterm_of u s' = (if u = t then fold vt_put (file_data (memory s) (bootMemAddr s) (inodeNum d)) (vterm_of u s2) else vterm_of u s2)"
    using cat_loop_prints [OF r s2(6), of E] by auto
  then show ?thesis using s1(1,8) s2(1,2) by (auto simp: cat_main_def s2(4))
qed

text \<open>
  C12: \<^verbatim>\<open>ls\<close> lists the directory.  When the file system has its entry \<^verbatim>\<open>.\<close>, no empty name, and a descriptor is
  free, \<^verbatim>\<open>ls\<close> ends with status 0 and its terminal has received the names of all directory entries in
  the order of the directory, each on a line of its own; the other terminals are unchanged.
\<close>

theorem ls_prints_directory:
  assumes "user_ok t s" "image_placed s" "user_buffer buf 33" "cstr_at (lit E ''.'') [46] s" "fd_free s"
    and "find_file [46] s = Some d" "fileType d = 1" "[] \<notin> name_of ` set (directory (memory s) (bootMemAddr s))"
  shows "\<exists>s'. ls_main E buf s = Some (0, s')
     \<and> (\<forall>u < NUM_TERMINALS. vterm_of u s' =
          (if u = t then fold vt_put (concat (map (\<lambda>d. name_of d @ [10]) (directory (memory s) (bootMemAddr s)))) (vterm_of u s) else vterm_of u s))"
proof -
  have pn: "plain_name [46]" by (simp add: plain_name_def chars_def)
  have ty: "0 < fileType d" "fileType d \<le> 2" using assms(7) by simp_all
  obtain i s2 where s2: "ece391_open E (lit E ''.'') s = Some (int i, s2)" "2 \<le> i" "i < 8"
      "s2 = fdt_put (nat (cur_pid s)) i (opened_fd d) s" "fd_entry i s2 = opened_fd d" "user_ok t s2" "memory s2 = memory s"
    using open_named [OF assms(1,4) pn assms(6) ty assms(5), of E] by blast
  have b: "bootMemAddr s2 = bootMemAddr s" by (simp add: s2(4))
  have e: "opened_fd d = \<lparr>fops_pointer = Some Directory_fops, fd_inodeNum = 0, file_position = 0, fd_flags = DIRECTORY_FLAG\<rparr>"
    using assms(7) by (simp add: opened_fd_def)
  have "image_placed s2" using assms(2) by (simp add: s2(4) image_placed_def)
  moreover have "sys_ok s2" using s2(6) by (simp add: user_ok_def)
  moreover have "user_buffer buf 32" using assms(3) by (simp add: user_buffer_def)
  ultimately have r: "dir_reading i buf 32 s2" using assms(8) s2(2,3) by (simp add: dir_reading_def s2(5,7) e b)
  have "dir_rest i s2 = map name_of (directory (memory s) (bootMemAddr s))" by (simp add: dir_rest_def s2(5,7) e b)
  then obtain s' where "ls_loop E (int i) buf s2 = Some (0, s')"
      "\<forall>u < 3. vterm_of u s' = (if u = t then fold vt_put (concat (map (\<lambda>d. name_of d @ [10]) (directory (memory s) (bootMemAddr s)))) (vterm_of u s2) else vterm_of u s2)"
    using ls_loop_prints [OF r s2(6) assms(3), of E] by (auto simp: comp_def)
  then show ?thesis using s2(1,2) by (auto simp: ls_main_def s2(4))
qed

section \<open>Programs to run\<close>

text \<open>
  Process 0 on terminal 1, with the argument abc; the image holds the file abc.  For \<^verbatim>\<open>ls\<close> the only
  entry is the directory itself and the constant of the program lies at 0x08300000.
\<close>

definition demo_env :: user_env where
  "demo_env = \<lparr>user_locals = demo_locals, resume = (\<lambda>_. None), lit = (\<lambda>_. 0x08300000)\<rparr>"

definition cat_demo :: sys where
  "cat_demo = demo_sys\<lparr>PCB_at := replicate 6 (demo_proc\<lparr>arg_ptr := [97, 98, 99] @ replicate 125 0\<rparr>)\<rparr>"

definition ls_memory :: mem where
  "ls_memory = demo_image(0x500040 := 46, 0x500041 := 0, 0x500042 := 0, 0x500060 := 1, 0xB00000 := 46)"

definition ls_demo :: sys where
  "ls_demo = demo_sys\<lparr>memory := ls_memory\<rparr>"

lemma demo_user_ok: "user_ok 1 demo_sys"
proof -
  have "process_terminal demo_sys = Some 1" by (simp add: process_terminal_def pcb_of_def pcb_place_def demo_sys_sel)
  moreover have "term_wf demo_sys" by (simp add: term_wf_def console_wf_def all_less_3 demo_sys_simps)
  ultimately show ?thesis using demo_sys_ok by (simp add: user_ok_def)
qed

lemma sys_ok_arg_ptr:
  assumes "sys_ok s" "PCB_at s' = map (\<lambda>b. b\<lparr>arg_ptr := a\<rparr>) (PCB_at s)" "s' = s\<lparr>PCB_at := PCB_at s'\<rparr>"
  shows "sys_ok s'"
proof -
  have n: "PCB_at s' ! p = (PCB_at s ! p)\<lparr>arg_ptr := a\<rparr>" if "p < 6" for p
    using assms(1,2) that by (simp add: sys_ok_def proc_inv_def proc_wf_def)
  have f: "PCB_ptrs s' = PCB_ptrs s" "cur_pid s' = cur_pid s" "fdt s' = fdt s" "page_directory s' = page_directory s"
      "tlb_dir s' = tlb_dir s" "tss_esp0 s' = tss_esp0 s" "fops_ready s' = fops_ready s"
    by (subst assms(3), simp add: fops_ready_def)+
  have p: "pcb_ok q s'" if "pcb_ok q s" "q < 6" for q
    using that n by (auto simp: pcb_ok_def Let_def f nat_less_iff)
  have i: "is_parent q s' = is_parent q s" for q by (auto simp: is_parent_def f n)
  show ?thesis
    using assms(1) p n by (auto simp: sys_ok_def proc_inv_def proc_wf_def running_def f i assms(2))
qed

lemma cat_demo_ok: "user_ok 1 cat_demo" "image_placed cat_demo"
proof -
  have "sys_ok cat_demo" by (rule sys_ok_arg_ptr [OF demo_sys_ok]) (simp_all add: cat_demo_def demo_sys_sel)
  moreover have "process_terminal cat_demo = Some 1" by (simp add: process_terminal_def pcb_of_def pcb_place_def cat_demo_def demo_sys_sel)
  moreover have "term_wf cat_demo" using demo_user_ok by (simp add: user_ok_def cat_demo_def term_wf_def console_wf_def)
  ultimately show "user_ok 1 cat_demo" by (simp add: user_ok_def)
  show "image_placed cat_demo" using demo_sys_image by (simp add: cat_demo_def image_placed_def)
qed

theorem cat_prints_file_witness:
  "\<exists>s'. cat_main demo_env 0x08100000 cat_demo = Some (0, s')
     \<and> vterm_of 1 s' = fold vt_put [104, 101, 108, 108, 111] (vterm_of 1 cat_demo) \<and> vterm_of 2 s' = vterm_of 2 cat_demo"
proof -
  have m: "memory cat_demo = demo_image" "bootMemAddr cat_demo = 0x500000" by (simp_all add: cat_demo_def demo_sys_sel)
  have a: "user_buffer 0x08100000 1024" "has_args [97, 98, 99] cat_demo" "plain_name [97, 98, 99]"
    by (simp_all add: user_buffer_def has_args_def cat_demo_def demo_sys_sel plain_name_def chars_def)
  have fr: "fd_free cat_demo"
    unfolding fd_free_def by (rule bexI [of _ 4]) (simp_all add: fd_entry_def cat_demo_def demo_sys_sel demo_proc_def initial_fdt_def empty_fd_def)
  have "name_of (ld_dentry demo_image 0x500040) = [97, 98, 99]"
    by (simp add: name_of_ld_dentry cstr_n_def upt_rec view_def demo_image_def)
  then have ff: "find_file [97, 98, 99] cat_demo = Some (ld_dentry demo_image 0x500040)"
    by (simp add: find_file_def m directory_def demo_counts dentry_addr_def)
  have d: "fileType (ld_dentry demo_image 0x500040) = 2" "inodeNum (ld_dentry demo_image 0x500040) = 0"
    by (simp_all add: ld_dentry_def ld32_def demo_image_def)
  then have "inodeNum (ld_dentry demo_image 0x500040) < numInodes (memory cat_demo) (bootMemAddr cat_demo)" by (simp add: m demo_counts)
  from cat_prints_file [OF cat_demo_ok a fr ff d(1) this, of demo_env] show ?thesis by (auto simp: m d(2) demo_file)
qed

lemma ls_memory_byte: "a \<notin> {0x500040, 0x500041, 0x500042, 0x500060, 0xB00000} \<Longrightarrow> ls_memory a = demo_image a"
  by (simp add: ls_memory_def)

lemma ls_memory_range: "0x501000 \<le> unat a \<Longrightarrow> unat a < 0xB00000 \<Longrightarrow> ls_memory a = demo_image a"
  by (rule ls_memory_byte) auto

lemma ls_header:
  "numDirectories ls_memory 0x500000 = 1" "numInodes ls_memory 0x500000 = 1" "numDataBlocks ls_memory 0x500000 = 1"
  using demo_counts by (simp_all add: numDirectories_def numInodes_def numDataBlocks_def ld32_def ls_memory_byte)

lemma ls_inode: "inode_at ls_memory 0x500000 0 = inode_at demo_image 0x500000 0"
proof -
  have "ld32 ls_memory (0x501000 + of_nat j) = ld32 demo_image (0x501000 + of_nat j)" if "j < 4096" for j
  proof (rule ld32_cong)
    fix i :: nat assume "i < 4"
    then have "unat (0x501000 + of_nat (j + i) :: u32) = 0x501000 + (j + i)" using that by (simp add: unat_word_ariths unat_of_nat_32)
    then have u: "unat (0x501000 + of_nat j + of_nat i :: u32) = 0x501000 + (j + i)" by (simp add: add.assoc)
    show "ls_memory (0x501000 + of_nat j + of_nat i) = demo_image (0x501000 + of_nat j + of_nat i)"
      by (rule ls_memory_range) (use u \<open>i < 4\<close> that in simp_all)
  qed
  from this [of 0] this [of "4 + 4 * k" for k] show ?thesis by (simp add: inode_at_def ld_inode_def add.assoc)
qed

lemma ls_demo_ok: "user_ok 1 ls_demo" "image_placed ls_demo"
proof -
  have w: "ls_demo = with_memory ls_memory demo_sys" by (simp add: ls_demo_def with_memory_def)
  show "user_ok 1 ls_demo" using demo_user_ok proc_same_ok [OF proc_same_with_memory, of ls_memory demo_sys]
    by (simp add: w user_ok_def) (simp add: with_memory_def term_wf_def console_wf_def)
  have "image_ok ls_memory 0x500000"
    using demo_image_ok by (simp add: image_ok_def image_size_def ls_header demo_counts inode_ok_def ls_inode)
  then show "image_placed ls_demo" by (simp add: image_placed_def ls_demo_def demo_sys_sel ls_header image_size_def)
qed

theorem ls_prints_directory_witness:
  "\<exists>s'. ls_main demo_env 0x08100000 ls_demo = Some (0, s') \<and> vterm_of 1 s' = fold vt_put [46, 10] (vterm_of 1 ls_demo)"
proof -
  have m: "memory ls_demo = ls_memory" "bootMemAddr ls_demo = 0x500000" "cur_pid ls_demo = 0" by (simp_all add: ls_demo_def demo_sys_sel)
  have n: "name_of (ld_dentry ls_memory 0x500040) = [46]"
    by (simp add: name_of_ld_dentry cstr_n_def upt_rec view_def ls_memory_def demo_image_def)
  have dir: "directory ls_memory 0x500000 = [ld_dentry ls_memory 0x500040]" by (simp add: directory_def ls_header dentry_addr_def)
  have c: "user_buffer 0x08100000 33" "cstr_at (lit demo_env ''.'') [46] ls_demo"
    by (simp_all add: user_buffer_def cstr_at_def demo_env_def user_phys_def user_frame_def m rd_bytes_def view_def upt_rec)
       (simp add: ls_memory_def demo_image_def)
  have fr: "fd_free ls_demo"
    unfolding fd_free_def by (rule bexI [of _ 4]) (simp_all add: fd_entry_def ls_demo_def demo_sys_sel demo_proc_def initial_fdt_def empty_fd_def)
  have ff: "find_file [46] ls_demo = Some (ld_dentry ls_memory 0x500040)" using n by (simp add: find_file_def m dir)
  have d: "fileType (ld_dentry ls_memory 0x500040) = 1" by (simp add: ld_dentry_def ld32_def ls_memory_def demo_image_def)
  have e: "[] \<notin> name_of ` set (directory (memory ls_demo) (bootMemAddr ls_demo))" using n by (simp add: m dir)
  show ?thesis using ls_prints_directory [OF ls_demo_ok c fr ff d e] by (auto simp: m dir n)
qed

end
