(* ===== verification/User_Tests.thy ===== *)
theory User_Tests
  imports User_Files
begin

unbundle bit_operations_syntax

text \<open>
  The test program \<^verbatim>\<open>ece391syserr.c\<close>: eight tests that call the system with wrong arguments and expect
  the answer -1.
\<close>

section \<open>The tests\<close>

abbreviation (input) NEG_FD :: int where "NEG_FD \<equiv> -1073741823"
abbreviation (input) BIG_FD :: int where "BIG_FD \<equiv> 1073741823"
abbreviation (input) BIG_NUM :: int where "BIG_NUM \<equiv> 1073741823"
abbreviation (input) NEG_NUM :: int where "NEG_NUM \<equiv> -1073741823"

text \<open>The registers \<^verbatim>\<open>call_sys\<close> does not set are those of its caller (\<open>ebx\<close>, \<open>ecx\<close>, \<open>edx\<close>).\<close>

definition call_sys :: "user_env \<Rightarrow> u32 \<times> u32 \<times> u32 \<Rightarrow> int \<Rightarrow> sys \<Rightarrow> (int \<times> sys) option" where
  "call_sys E regs num = (case regs of (ebx, ecx, edx) \<Rightarrow> DO_CALL E (of_int num) ebx ecx edx)"

text \<open>\<^verbatim>\<open>if (-1 != call) { fail = 2; ece391_fdputs (1, message); }\<close>\<close>

definition expect_error :: "user_env \<Rightarrow> string \<Rightarrow> (sys \<Rightarrow> (int \<times> sys) option) \<Rightarrow> int \<times> sys \<Rightarrow> (int \<times> sys) option" where
  "expect_error E message call = (\<lambda>(fail, s). do {
     (r, s) \<leftarrow> call s;
     if r \<noteq> -1 then do {
       s \<leftarrow> ece391_fdputs E 1 (lit E message) s;
       Some (2, s)
     } else Some (fail, s)
   })"

fun expect_errors :: "user_env \<Rightarrow> string \<Rightarrow> (int \<Rightarrow> sys \<Rightarrow> (int \<times> sys) option) \<Rightarrow> int list \<Rightarrow> int \<times> sys \<Rightarrow> (int \<times> sys) option" where
  "expect_errors E message call [] x = Some x"
| "expect_errors E message call (i # is) x = do { x \<leftarrow> expect_error E message (call i) x; expect_errors E message call is x }"

definition report :: "user_env \<Rightarrow> string \<Rightarrow> int \<times> sys \<Rightarrow> (int \<times> sys) option" where
  "report E test = (\<lambda>(fail, s). do {
     s \<leftarrow> ece391_fdputs E 1 (lit E (ln (test @ (if fail \<noteq> 0 then '': FAIL'' else '': PASS'')))) s;
     Some (fail, s)
   })"

definition err_neg_fd :: "user_env \<Rightarrow> u32 \<Rightarrow> sys \<Rightarrow> (int \<times> sys) option" where
  "err_neg_fd E buf s = do {
     x \<leftarrow> expect_error E (ln ''read fail'') (ece391_read E NEG_FD buf 31) (0, s);
     x \<leftarrow> expect_error E (ln ''write fail'') (ece391_write E NEG_FD buf 31) x;
     x \<leftarrow> expect_error E (ln ''close fail'') (ece391_close E NEG_FD) x;
     report E ''err_neg_fd'' x
   }"

definition err_big_fd :: "user_env \<Rightarrow> u32 \<Rightarrow> sys \<Rightarrow> (int \<times> sys) option" where
  "err_big_fd E buf s = do {
     x \<leftarrow> expect_error E (ln ''read fail'') (ece391_read E BIG_FD buf 31) (0, s);
     x \<leftarrow> expect_error E (ln ''write fail'') (ece391_write E BIG_FD buf 31) x;
     x \<leftarrow> expect_error E (ln ''close fail'') (ece391_close E BIG_FD) x;
     report E ''err_big_fd'' x
   }"

text \<open>The two loops of \<^verbatim>\<open>err_open_lots\<close>.\<close>

fun open_times :: "user_env \<Rightarrow> nat \<Rightarrow> int \<Rightarrow> sys \<Rightarrow> (int \<times> sys) option" where
  "open_times E 0 cnt s = Some (cnt, s)"
| "open_times E (Suc n) cnt s = do {
     (r, s) \<leftarrow> ece391_open E (lit E ''.'') s;
     open_times E n (if r = -1 then cnt + 1 else cnt) s
   }"

fun close_all :: "user_env \<Rightarrow> int list \<Rightarrow> sys \<Rightarrow> sys option" where
  "close_all E [] s = Some s"
| "close_all E (i # is) s = do { (r, s) \<leftarrow> ece391_close E i s; close_all E is s }"

definition err_open_lots :: "user_env \<Rightarrow> sys \<Rightarrow> (int \<times> sys) option" where
  "err_open_lots E s = do {
     (cnt, s) \<leftarrow> open_times E 7 0 s;
     s \<leftarrow> close_all E [2, 3, 4, 5, 6, 7] s;
     if cnt = 1 then do {
       s \<leftarrow> ece391_fdputs E 1 (lit E (ln ''err_open_lots: PASS'')) s;
       Some (0, s)
     } else do {
       s \<leftarrow> ece391_fdputs E 1 (lit E (ln ''err_open_lots: FAIL'')) s;
       Some (2, s)
     }
   }"

definition err_open :: "user_env \<Rightarrow> sys \<Rightarrow> (int \<times> sys) option" where
  "err_open E s = do {
     x \<leftarrow> expect_error E (ln (CHR 0x27 # ''helloo'' @ CHR 0x27 # '' fail'')) (ece391_open E (lit E ''helloo'')) (0, s);
     x \<leftarrow> expect_error E (ln (CHR 0x27 # ''shel'' @ CHR 0x27 # '' fail'')) (ece391_open E (lit E ''shel'')) x;
     x \<leftarrow> expect_error E (ln ''empty string fail'') (ece391_open E (lit E [])) x;
     report E ''err_open'' x
   }"

definition err_unopened :: "user_env \<Rightarrow> u32 \<Rightarrow> sys \<Rightarrow> (int \<times> sys) option" where
  "err_unopened E buf s = do {
     x \<leftarrow> expect_errors E (ln ''close unopened or invalid fd fail'') (ece391_close E) [0, 1, 2, 3, 4, 5, 6, 7] (0, s);
     x \<leftarrow> expect_errors E (ln ''read from unopened fd fail'') (\<lambda>i. ece391_read E i buf 31) [2, 3, 4, 5, 6, 7] x;
     x \<leftarrow> expect_errors E (ln ''write to unopened fd fail'') (\<lambda>i. ece391_write E i buf 31) [2, 3, 4, 5, 6, 7] x;
     report E ''err_unopened'' x
   }"

definition err_vidmap :: "user_env \<Rightarrow> sys \<Rightarrow> (int \<times> sys) option" where
  "err_vidmap E s = do {
     x \<leftarrow> expect_error E (ln ''Null pointer fail'') (ece391_vidmap E 0) (0, s);
     x \<leftarrow> expect_error E (ln ''Kernel pointer fail fail'') (ece391_vidmap E 0x400000) x;
     report E ''err_vidmap'' x
   }"

definition err_stdin_out :: "user_env \<Rightarrow> u32 \<Rightarrow> sys \<Rightarrow> (int \<times> sys) option" where
  "err_stdin_out E buf s = do {
     x \<leftarrow> expect_error E (ln ''write to stdin fail'') (ece391_write E 0 buf 31) (0, s);
     x \<leftarrow> expect_error E (ln ''read from stdout fail'') (ece391_read E 1 buf 31) x;
     report E ''err_stdin_out'' x
   }"

definition err_syscall_num :: "user_env \<Rightarrow> u32 \<times> u32 \<times> u32 \<Rightarrow> sys \<Rightarrow> (int \<times> sys) option" where
  "err_syscall_num E regs s = do {
     x \<leftarrow> expect_error E (ln ''syscall 0 fail'') (call_sys E regs BIG_NUM) (0, s);
     x \<leftarrow> expect_error E (ln ''big num syscall fail'') (call_sys E regs NEG_NUM) x;
     x \<leftarrow> expect_error E (ln ''neg num syscall fail'') (call_sys E regs 0) x;
     report E ''err_syscall_num'' x
   }"

text \<open>The switch of \<^verbatim>\<open>main\<close>; the local arrays of the tests are at \<open>buf\<close>.\<close>

definition all_tests :: "user_env \<Rightarrow> u32 \<Rightarrow> u32 \<times> u32 \<times> u32 \<Rightarrow> (sys \<Rightarrow> (int \<times> sys) option) list" where
  "all_tests E buf regs = [err_neg_fd E buf, err_big_fd E buf, err_open_lots E, err_open E, err_unopened E buf, err_vidmap E,
     err_stdin_out E buf, err_syscall_num E regs]"

fun run_tests :: "(sys \<Rightarrow> (int \<times> sys) option) list \<Rightarrow> int \<Rightarrow> sys \<Rightarrow> (int \<times> sys) option" where
  "run_tests [] fail s = Some (fail, s)"
| "run_tests (f # fs) fail s = do { (r, s) \<leftarrow> f s; run_tests fs (fail + r) s }"

definition syserr_select :: "user_env \<Rightarrow> u32 \<Rightarrow> u32 \<times> u32 \<times> u32 \<Rightarrow> int \<Rightarrow> sys \<Rightarrow> (int \<times> sys) option" where
  "syserr_select E buf regs select s =
    (if select = 0 then do {
       (fail, s) \<leftarrow> run_tests (all_tests E buf regs) 0 s;
       s \<leftarrow> ece391_fdputs E 1 (lit E (CHR 0x0A # ln (''Overall Tests: '' @ (if fail \<noteq> 0 then ''FAIL'' else ''PASS'')))) s;
       Some (fail, s)
     } else if 1 \<le> select \<and> select \<le> 8 then (all_tests E buf regs ! nat (select - 1)) s
     else do {
       s \<leftarrow> ece391_fdputs E 1 (lit E ''Invalid test number. Choose from tests 1-8 or 0'') s;
       Some (0, s)
     })"

definition syserr_main :: "user_env \<Rightarrow> u32 \<Rightarrow> u32 \<Rightarrow> u32 \<times> u32 \<times> u32 \<Rightarrow> sys \<Rightarrow> (int \<times> sys) option" where
  "syserr_main E buf test_buf regs s = do {
     s \<leftarrow> ece391_fdputs E 1 (lit E ''Choose from tests 1-8. 0 to run all: '') s;
     (cnt, s) \<leftarrow> ece391_read E 0 buf 127 s;
     if cnt = -1 then do {
       s \<leftarrow> ece391_fdputs E 1 (lit E (ln (''Can'' @ CHR 0x27 # ''t read test #''))) s;
       Some (2, s)
     } else do {
       b \<leftarrow> uget buf s;
       syserr_select E test_buf regs (uint b - 48) s
     }
   }"

section \<open>The tests on this kernel\<close>

text \<open>What the tests rely on: a file system with the directory and without the three wrong names, no
  open descriptor, and their constants in memory.\<close>

definition test_names :: "string list" where
  "test_names = [''err_neg_fd'', ''err_big_fd'', ''err_open_lots'', ''err_open'', ''err_unopened'', ''err_vidmap'', ''err_stdin_out'',
     ''err_syscall_num'']"

definition pass_line :: "string \<Rightarrow> string" where
  "pass_line test = ln (test @ '': PASS'')"

definition overall_line :: string where
  "overall_line = CHR 0x0A # ln (''Overall Tests: PASS'')"

definition test_strings :: "string list" where
  "test_strings = map pass_line test_names @ [overall_line, ''.'', ''helloo'', ''shel'', []]"

definition test_files :: "sys \<Rightarrow> bool" where
  "test_files s \<longleftrightarrow> (case find_file [46] s of Some d \<Rightarrow> fileType d = 1 | None \<Rightarrow> False)
     \<and> find_file (chars ''helloo'') s = None \<and> find_file (chars ''shel'') s = None \<and> find_file [] s = None"

definition none_open :: "sys \<Rightarrow> bool" where
  "none_open s \<longleftrightarrow> (\<forall>i \<in> {2..<8}. fd_flags (fd_entry i s) = UNUSED_FLAG)"

definition test_ready :: "user_env \<Rightarrow> nat \<Rightarrow> sys \<Rightarrow> bool" where
  "test_ready E t s \<longleftrightarrow> user_ok t s \<and> image_placed s \<and> none_open s \<and> test_files s
     \<and> (\<forall>m \<in> set test_strings. cstr_at (lit E m) (chars m) s)"

definition displays :: "nat \<Rightarrow> byte list \<Rightarrow> sys \<Rightarrow> sys \<Rightarrow> bool" where
  "displays t bs s s' \<longleftrightarrow> (\<forall>u < NUM_TERMINALS. vterm_of u s' = (if u = t then fold vt_put bs (vterm_of u s) else vterm_of u s))"

lemma displays_refl [simp]: "displays t [] s s"
  by (simp add: displays_def)

lemma displays_trans: "displays t as s s1 \<Longrightarrow> displays t bs s1 s2 \<Longrightarrow> displays t (as @ bs) s s2"
  by (simp add: displays_def)

lemma prints_displays: "prints t bs s s' \<Longrightarrow> displays t bs s s'"
  by (simp add: prints_def displays_def)

text \<open>Only the descriptors and video memory matter.\<close>

lemma test_ready_same:
  assumes "test_ready E t s" "user_ok t s'" "cur_pid s' = cur_pid s" "bootMemAddr s' = bootMemAddr s"
    and "\<And>a. \<not> in_video a \<Longrightarrow> memory s' a = memory s a" "none_open s'"
  shows "test_ready E t s'"
proof -
  have r: "user_ok t s" "image_placed s" "test_files s" using assms(1) by (simp_all add: test_ready_def)
  have ok: "sys_ok s" using r(1) by (simp add: user_ok_def)
  have si: "same_image (bootMemAddr s) (memory s) (memory s')" by (rule same_image_video [OF r(2) assms(5)])
  have "directory (memory s') (bootMemAddr s) = directory (memory s) (bootMemAddr s)"
    using r(2) by (intro same_image_directory [OF si]) (simp add: image_placed_def)
  then have f: "find_file name s' = find_file name s" for name by (simp add: find_file_def assms(4))
  have "image_placed s'" using r(2) same_image_ok [OF si] same_image_header [OF si] assms(4) by (simp add: image_placed_def)
  moreover have "cstr_at v bs s'" if "cstr_at v bs s" for v bs
  proof -
    have ub: "user_buffer v (length bs + 1)" using that by (simp add: cstr_at_def)
    have "user_phys v s' = user_phys v s" using assms(3) by (simp add: user_phys_def user_frame_def)
    moreover have "rd_bytes (memory s') (user_phys v s) (length bs + 1) = rd_bytes (memory s) (user_phys v s) (length bs + 1)"
      using user_not_video [OF ok ub] by (intro rd_bytes_cong assms(5)) simp
    ultimately show ?thesis using that by (simp add: cstr_at_def)
  qed
  ultimately show ?thesis using assms(1,2,6) r(3) f by (simp add: test_ready_def test_files_def)
qed

lemma test_ready_prints:
  assumes "test_ready E t s" "prints t bs s s'"
  shows "test_ready E t s'"
proof (rule test_ready_same [OF assms(1)])
  show "user_ok t s'" using assms(1) prints_user_ok [OF _ assms(2)] by (simp add: test_ready_def)
  show "cur_pid s' = cur_pid s" "bootMemAddr s' = bootMemAddr s" using prints_same [OF assms(2)] by (simp_all add: proc_same_def)
  show "memory s' a = memory s a" if "\<not> in_video a" for a using assms(2) that by (simp add: prints_def)
  show "none_open s'" using assms(1) fd_entry_same [OF prints_same [OF assms(2)]] by (simp add: test_ready_def none_open_def)
qed

lemma test_puts:
  assumes "test_ready E t s" "m \<in> set test_strings"
  shows "\<exists>s'. ece391_fdputs E 1 (lit E m) s = Some s' \<and> test_ready E t s' \<and> displays t (chars m) s s'"
proof -
  have "user_ok t s" "cstr_at (lit E m) (chars m) s" using assms by (simp_all add: test_ready_def)
  then show ?thesis using fdputs_prints test_ready_prints [OF assms(1)] prints_displays by blast
qed

lemma expect_error_met: "call s = Some (-1, s') \<Longrightarrow> expect_error E message call (fail, s) = Some (fail, s')"
  by (simp add: expect_error_def)

lemma expect_errors_met: "(\<And>i. i \<in> set is \<Longrightarrow> call i s = Some (-1, s)) \<Longrightarrow> expect_errors E message call is (fail, s) = Some (fail, s)"
  by (induction "is") (simp_all add: expect_error_met)

lemma report_pass:
  assumes "test_ready E t s" "test \<in> set test_names"
  shows "\<exists>s'. report E test (0, s) = Some (0, s') \<and> test_ready E t s' \<and> displays t (chars (pass_line test)) s s'"
  using test_puts [OF assms(1), of "pass_line test"] assms(2) by (auto simp: report_def pass_line_def test_strings_def)

section \<open>The calls that fail\<close>

lemma read_fails:
  assumes "user_ok t s" "- 2147483648 \<le> fd" "fd \<le> 2147483647"
    and "fd < 0 \<or> fd = 1 \<or> fd > 8 \<or> (2 \<le> fd \<and> fd < 8 \<and> fd_flags (fd_entry (nat fd) s) = UNUSED_FLAG)"
  shows "ece391_read E fd buf 31 s = Some (-1, s)"
proof -
  have "sys_ok s" using assms(1) by (simp add: user_ok_def)
  then obtain k where k: "cur_pid s = int k" "fdt s = Some k" "fdt_wf (process_fdt (PCB_at s ! k))" using sys_okD by metis
  have "sys_read d0 fd buf 31 s = Some (Ret (-1) s)" for d0
  proof (cases "fd < 0 \<or> fd = 1 \<or> fd > 8")
    case False
    then have "nat fd < 8" "fd_flags (process_fdt (PCB_at s ! k) ! nat fd) = 0" using assms(4) k(1) by (auto simp: fd_entry_def)
    with False k(2,3) show ?thesis by (simp add: sys_read_def fdt_get_wf)
  qed (auto simp: sys_read_def)
  then show ?thesis using assms(2,3) by (simp add: ece391_read_sys)
qed

lemma write_fails:
  assumes "user_ok t s" "- 2147483648 \<le> fd" "fd \<le> 2147483647"
    and "fd \<le> 0 \<or> fd > 8 \<or> (2 \<le> fd \<and> fd < 8 \<and> fd_flags (fd_entry (nat fd) s) = UNUSED_FLAG)"
  shows "ece391_write E fd buf 31 s = Some (-1, s)"
proof -
  have "sys_ok s" using assms(1) by (simp add: user_ok_def)
  then obtain k where k: "cur_pid s = int k" "fdt s = Some k" "fdt_wf (process_fdt (PCB_at s ! k))" using sys_okD by metis
  have "sys_write fd buf 31 s = Some (-1, s)"
  proof (cases "fd \<le> 0 \<or> fd > 8")
    case False
    then have "nat fd < 8" "fd_flags (process_fdt (PCB_at s ! k) ! nat fd) = 0" using assms(4) k(1) by (auto simp: fd_entry_def)
    with False k(2,3) show ?thesis by (simp add: sys_write_def fdt_get_wf)
  qed (auto simp: sys_write_def)
  then show ?thesis using assms(2,3) by (simp add: ece391_write_sys)
qed

lemma close_fails:
  assumes "user_ok t s" "- 2147483648 \<le> fd" "fd \<le> 2147483647"
    and "fd < 2 \<or> fd > 8 \<or> (2 \<le> fd \<and> fd < 8 \<and> fd_flags (fd_entry (nat fd) s) = UNUSED_FLAG)"
  shows "ece391_close E fd s = Some (-1, s)"
proof -
  have ok: "sys_ok s" using assms(1) by (simp add: user_ok_def)
  then obtain k where k: "cur_pid s = int k" using sys_okD by metis
  show ?thesis using assms(2-4) k by (auto simp: ece391_close_sys sys_close_result [OF ok k] fd_entry_def)
qed

lemma open_fails:
  assumes "user_ok t s" "cstr_at v name s" "plain_name name" "find_file name s = None"
  shows "ece391_open E v s = Some (-1, s)"
proof -
  have ok: "sys_ok s" using assms(1) by (simp add: user_ok_def)
  then obtain k where k: "cur_pid s = int k" using sys_okD by metis
  let ?f = "view (memory s) (user_phys v s)"
  have c: "cstr_n ?f 33 = name" using cstr_n_view [OF assms(2)] assms(3) by (simp add: plain_name_def)
  note p = plain_not_special [OF c assms(3)]
  have "lookup ?f s = None" using assms(4) p(2) by (simp add: lookup_def find_file_def)
  moreover have "v \<noteq> 0" using assms(2) by (auto simp: cstr_at_def user_buffer_def)
  ultimately show ?thesis
    using sys_open_cases(4) [OF ok k p(1)] cstr_at_str(1) [OF ok assms(2)] by (simp add: ece391_open_sys str_arg_def)
qed

section \<open>Opening too many files\<close>

text \<open>The first \<open>j\<close> of the six free descriptors are in use, everything else is as in \<open>s0\<close>.\<close>

definition opened :: "nat \<Rightarrow> sys \<Rightarrow> sys \<Rightarrow> bool" where
  "opened j s0 s \<longleftrightarrow> (\<forall>i \<in> {2..<8}. fd_flags (fd_entry i s) = UNUSED_FLAG \<longleftrightarrow> j + 2 \<le> i)
     \<and> memory s = memory s0 \<and> cur_pid s = cur_pid s0 \<and> bootMemAddr s = bootMemAddr s0 \<and> (\<forall>u. vterm_of u s = vterm_of u s0)"

lemma opened_cstr: "opened j s0 s \<Longrightarrow> cstr_at v bs s = cstr_at v bs s0"
  by (simp add: opened_def cstr_at_def user_phys_def user_frame_def)

lemma opened_find: "opened j s0 s \<Longrightarrow> find_file name s = find_file name s0"
  by (simp add: opened_def find_file_def)

lemma open_one:
  assumes "opened j s0 s" "j < 6" "user_ok t s" "cstr_at v [46] s0" "find_file [46] s0 = Some d" "fileType d = 1"
  shows "\<exists>i s'. ece391_open E v s = Some (int i, s') \<and> opened (Suc j) s0 s' \<and> user_ok t s'"
proof -
  have f: "fd_flags (fd_entry i s) = UNUSED_FLAG \<longleftrightarrow> j + 2 \<le> i" if "2 \<le> i" "i < 8" for i using assms(1) that by (simp add: opened_def)
  have fr: "fd_free s" unfolding fd_free_def by (rule bexI [of _ "j + 2"]) (use f [of "j + 2"] assms(2) in simp_all)
  have pn: "plain_name [46]" by (simp add: plain_name_def chars_def)
  have ty: "0 < fileType d" "fileType d \<le> 2" using assms(6) by simp_all
  have c: "cstr_at v [46] s" "find_file [46] s = Some d" using assms(4,5) opened_cstr [OF assms(1)] opened_find [OF assms(1)] by simp_all
  obtain i s' where o: "ece391_open E v s = Some (int i, s')" "2 \<le> i" "i < 8" "s' = fdt_put (nat (cur_pid s)) i (opened_fd d) s"
      "fd_entry i s' = opened_fd d" "user_ok t s'" "memory s' = memory s" "fd_flags (fd_entry i s) = UNUSED_FLAG"
      "\<forall>j \<in> {2..<i}. fd_flags (fd_entry j s) \<noteq> UNUSED_FLAG" "\<forall>j. j \<noteq> i \<longrightarrow> fd_entry j s' = fd_entry j s"
    using open_named [OF assms(3) c(1) pn c(2) ty fr, of E] by blast
  have "j + 2 \<le> i" using f [OF o(2,3)] o(8) by simp
  moreover have "\<not> j + 2 < i" using o(9) f [of "j + 2"] assms(2) by auto
  ultimately have i: "i = j + 2" by simp
  have "fd_flags (fd_entry n s') = UNUSED_FLAG \<longleftrightarrow> Suc j + 2 \<le> n" if "2 \<le> n" "n < 8" for n
    using f [OF that] o(5,10) i by (cases "n = i") (auto simp: opened_fd_def assms(6))
  then have "opened (Suc j) s0 s'" using assms(1) by (simp add: opened_def o(4))
  with o(1,6) show ?thesis by blast
qed

lemma open_full:
  assumes "opened 6 s0 s" "user_ok t s" "cstr_at v [46] s0"
  shows "ece391_open E v s = Some (-1, s)"
proof -
  have ok: "sys_ok s" using assms(2) by (simp add: user_ok_def)
  then obtain k where k: "cur_pid s = int k" using sys_okD by metis
  let ?f = "view (memory s) (user_phys v s)" and ?i = "free_fd (process_fdt (PCB_at s ! k)) 2"
  have c: "cstr_at v [46] s" using assms(3) opened_cstr [OF assms(1)] by simp
  have "plain_name [46]" by (simp add: plain_name_def chars_def)
  then have p: "\<not> special_name ?f" using plain_not_special(1) [of ?f] cstr_n_view [OF c, of 33] by simp
  have "?i \<le> 8" "2 \<le> ?i" "?i < 8 \<Longrightarrow> fd_flags (fd_entry ?i s) = UNUSED_FLAG"
    using free_fd_spec [of 2 "process_fdt (PCB_at s ! k)"] k by (auto simp: fd_entry_def)
  then have "?i = 8" using assms(1) by (cases "?i < 8") (auto simp: opened_def)
  moreover have "v \<noteq> 0" using assms(3) by (auto simp: cstr_at_def user_buffer_def)
  ultimately show ?thesis
    using sys_open_cases(4) [OF ok k p] cstr_at_str(1) [OF ok c] by (simp add: ece391_open_sys str_arg_def)
qed

lemma open_times_six:
  assumes "cstr_at (lit E ''.'') [46] s0" "find_file [46] s0 = Some d" "fileType d = 1"
  shows "opened j s0 s \<Longrightarrow> user_ok t s \<Longrightarrow> j \<le> 6 \<Longrightarrow>
    \<exists>s'. open_times E (Suc (6 - j)) cnt s = Some (cnt + 1, s') \<and> opened 6 s0 s' \<and> user_ok t s'"
proof (induction "6 - j" arbitrary: j s)
  case 0
  then have "j = 6" by simp
  then show ?case using open_full [of s0 s t "lit E ''.''" E] 0 assms(1) by simp
next
  case (Suc n)
  then have j: "j < 6" "n = 6 - Suc j" "6 - j = Suc (6 - Suc j)" by auto
  obtain i s1 where s1: "ece391_open E (lit E ''.'') s = Some (int i, s1)" "opened (Suc j) s0 s1" "user_ok t s1"
    using open_one [OF Suc.prems(1) j(1) Suc.prems(2) assms, of E] by blast
  with Suc.hyps(1) [OF j(2) s1(2,3)] j show ?case by auto
qed

text \<open>Closing again: descriptors below \<open>n\<close> are closed.\<close>

lemma close_all_six:
  assumes "user_ok t s" "\<forall>i \<in> {2..<8}. fd_flags (fd_entry i s) \<noteq> UNUSED_FLAG \<longleftrightarrow> n \<le> i" "2 \<le> n" "n \<le> 8"
  shows "\<exists>s'. close_all E (map int [n..<8]) s = Some s' \<and> none_open s' \<and> user_ok t s' \<and> memory s' = memory s
     \<and> cur_pid s' = cur_pid s \<and> bootMemAddr s' = bootMemAddr s \<and> (\<forall>u. vterm_of u s' = vterm_of u s)"
  using assms
proof (induction "8 - n" arbitrary: n s)
  case 0
  then show ?case by (auto simp: none_open_def)
next
  case (Suc m)
  then have n: "n < 8" "m = 8 - Suc n" by auto
  have ok: "sys_ok s" using Suc.prems(1) by (simp add: user_ok_def)
  obtain k where k: "k < 6" "cur_pid s = int k" using sys_okD [OF ok] by metis
  let ?e = "(fd_entry n s)\<lparr>fd_flags := UNUSED_FLAG\<rparr>"
  let ?s = "fdt_put k n ?e s"
  have "fd_flags (fd_entry n s) \<noteq> UNUSED_FLAG" using Suc.prems(2,3) n(1) by auto
  then have c: "sys_close (int n) s = Some (0, ?s)" using n(1) Suc.prems(3) k(2) by (simp add: sys_close_result [OF ok k(2)] fd_entry_def)
  have f: "fd_entry i ?s = (if i = n then ?e else fd_entry i s)" for i by (rule fd_entry_put [OF ok k(2) n(1)])
  have u: "user_ok t ?s" using Suc.prems(1) sys_close_inv [OF ok c] k(1) ok
    by (simp add: user_ok_def sys_ok_def proc_inv_def proc_wf_def)
  have o: "\<forall>i \<in> {2..<8}. fd_flags (fd_entry i ?s) \<noteq> UNUSED_FLAG \<longleftrightarrow> Suc n \<le> i" using Suc.prems(2) f by auto
  obtain s' where "close_all E (map int [Suc n..<8]) ?s = Some s'" "none_open s'" "user_ok t s'" "memory s' = memory ?s"
      "cur_pid s' = cur_pid ?s" "bootMemAddr s' = bootMemAddr ?s" "\<forall>u. vterm_of u s' = vterm_of u ?s"
    using Suc.hyps(1) [OF n(2) u o] Suc.prems(3) n(1) by auto
  then show ?case using c n(1) by (simp add: upt_conv_Cons [OF n(1)] ece391_close_sys)
qed

section \<open>Every test passes\<close>

definition passes :: "user_env \<Rightarrow> nat \<Rightarrow> (sys \<Rightarrow> (int \<times> sys) option) \<Rightarrow> string \<Rightarrow> bool" where
  "passes E t f name \<longleftrightarrow> (\<forall>s. test_ready E t s \<longrightarrow>
     (\<exists>s'. f s = Some (0, s') \<and> test_ready E t s' \<and> displays t (chars (pass_line name)) s s'))"

lemma passesI:
  "(\<And>s. test_ready E t s \<Longrightarrow> f s = report E name (0, s)) \<Longrightarrow> name \<in> set test_names \<Longrightarrow> passes E t f name"
  using report_pass by (simp add: passes_def)

lemma err_neg_fd_passes: "passes E t (err_neg_fd E buf) ''err_neg_fd''"
proof (rule passesI)
  fix s assume "test_ready E t s"
  then have "user_ok t s" by (simp add: test_ready_def)
  then show "err_neg_fd E buf s = report E ''err_neg_fd'' (0, s)"
    by (simp add: err_neg_fd_def expect_error_met read_fails write_fails close_fails)
qed (simp add: test_names_def)

lemma err_big_fd_passes: "passes E t (err_big_fd E buf) ''err_big_fd''"
proof (rule passesI)
  fix s assume "test_ready E t s"
  then have "user_ok t s" by (simp add: test_ready_def)
  then show "err_big_fd E buf s = report E ''err_big_fd'' (0, s)"
    by (simp add: err_big_fd_def expect_error_met read_fails write_fails close_fails)
qed (simp add: test_names_def)

lemma err_open_lots_passes: "passes E t (err_open_lots E) ''err_open_lots''"
proof (unfold passes_def, intro allI impI)
  fix s assume r: "test_ready E t s"
  have u: "user_ok t s" "none_open s" "cstr_at (lit E ''.'') [46] s"
    using r by (auto simp: test_ready_def test_strings_def chars_def)
  obtain d where d: "find_file [46] s = Some d" "fileType d = 1"
    using r by (auto simp: test_ready_def test_files_def split: option.splits)
  have o0: "opened 0 s s" using u(2) by (auto simp: opened_def none_open_def)
  obtain s1 where s1: "open_times E 7 0 s = Some (1, s1)" "opened 6 s s1" "user_ok t s1"
    using open_times_six [OF u(3) d o0 u(1), of 0] by (auto simp: eval_nat_numeral)
  have "\<forall>i \<in> {2..<8}. fd_flags (fd_entry i s1) \<noteq> UNUSED_FLAG \<longleftrightarrow> 2 \<le> i" using s1(2) by (auto simp: opened_def)
  from close_all_six [OF s1(3) this, of E] obtain s2 where s2: "close_all E [2, 3, 4, 5, 6, 7] s1 = Some s2" "none_open s2" "user_ok t s2"
      "memory s2 = memory s1" "cur_pid s2 = cur_pid s1" "bootMemAddr s2 = bootMemAddr s1" "\<forall>u. vterm_of u s2 = vterm_of u s1"
    by (auto simp: upt_rec)
  have r2: "test_ready E t s2" using s1(2) s2 by (intro test_ready_same [OF r]) (simp_all add: opened_def)
  have "pass_line ''err_open_lots'' \<in> set test_strings" by (simp add: test_strings_def test_names_def)
  from test_puts [OF r2 this] obtain s3 where s3: "ece391_fdputs E 1 (lit E (pass_line ''err_open_lots'')) s2 = Some s3"
      "test_ready E t s3" "displays t (chars (pass_line ''err_open_lots'')) s2 s3" by blast
  have "displays t (chars (pass_line ''err_open_lots'')) s s3" using s3(3) s2(7) s1(2) by (simp add: displays_def opened_def)
  then show "\<exists>s'. err_open_lots E s = Some (0, s') \<and> test_ready E t s' \<and> displays t (chars (pass_line ''err_open_lots'')) s s'"
    using s1(1) s2(1) s3(1,2) by (simp add: err_open_lots_def pass_line_def del: close_all.simps)
qed

lemma err_open_passes: "passes E t (err_open E) ''err_open''"
proof (rule passesI)
  fix s assume r: "test_ready E t s"
  then have u: "user_ok t s" by (simp add: test_ready_def)
  have "ece391_open E (lit E m) s = Some (-1, s)" if "m \<in> {''helloo'', ''shel'', []}" for m
  proof (rule open_fails [OF u])
    show "cstr_at (lit E m) (chars m) s" using r that by (auto simp: test_ready_def test_strings_def)
    show "plain_name (chars m)" using that by (auto simp: plain_name_def chars_def)
    show "find_file (chars m) s = None" using r that by (auto simp: test_ready_def test_files_def chars_def)
  qed
  then show "err_open E s = report E ''err_open'' (0, s)" by (simp add: err_open_def expect_error_met)
qed (simp add: test_names_def)

lemma err_unopened_passes: "passes E t (err_unopened E buf) ''err_unopened''"
proof (rule passesI)
  fix s assume "test_ready E t s"
  then have u: "user_ok t s" "none_open s" by (simp_all add: test_ready_def)
  have f: "fd_flags (fd_entry (nat i) s) = UNUSED_FLAG" if "2 \<le> i" "i < 8" for i
    using u(2) that by (simp add: none_open_def nat_less_iff le_nat_iff)
  have cf: "ece391_close E i s = Some (-1, s)" if "0 \<le> i" "i < 8" for i
    using that f [of i] by (intro close_fails [OF u(1)]) linarith+
  have rf: "ece391_read E i buf 31 s = Some (-1, s)" if "2 \<le> i" "i < 8" for i
    using that f [of i] by (intro read_fails [OF u(1)]) simp_all
  have wf: "ece391_write E i buf 31 s = Some (-1, s)" if "2 \<le> i" "i < 8" for i
    using that f [of i] by (intro write_fails [OF u(1)]) simp_all
  have c: "expect_errors E m (ece391_close E) [0, 1, 2, 3, 4, 5, 6, 7] (0, s) = Some (0, s)" for m
    by (rule expect_errors_met, rule cf) auto
  have r: "expect_errors E m (\<lambda>i. ece391_read E i buf 31) [2, 3, 4, 5, 6, 7] (0, s) = Some (0, s)" for m
    by (rule expect_errors_met, rule rf) auto
  have "expect_errors E m (\<lambda>i. ece391_write E i buf 31) [2, 3, 4, 5, 6, 7] (0, s) = Some (0, s)" for m
    by (rule expect_errors_met, rule wf) auto
  with c r show "err_unopened E buf s = report E ''err_unopened'' (0, s)"
    unfolding err_unopened_def by (simp del: expect_errors.simps)
qed (simp add: test_names_def)

lemma err_vidmap_passes: "passes E t (err_vidmap E) ''err_vidmap''"
  by (rule passesI) (simp_all add: test_names_def err_vidmap_def expect_error_met ece391_vidmap_sys sys_vidmap_def)

lemma err_stdin_out_passes: "passes E t (err_stdin_out E buf) ''err_stdin_out''"
proof (rule passesI)
  fix s assume "test_ready E t s"
  then have "user_ok t s" by (simp add: test_ready_def)
  then show "err_stdin_out E buf s = report E ''err_stdin_out'' (0, s)"
    by (simp add: err_stdin_out_def expect_error_met read_fails write_fails)
qed (simp add: test_names_def)

lemma err_syscall_num_passes: "passes E t (err_syscall_num E regs) ''err_syscall_num''"
  by (rule passesI, cases regs)
     (simp_all add: test_names_def err_syscall_num_def expect_error_met call_sys_def DO_CALL_def syscall_def)

lemma all_tests_pass: "list_all2 (passes E t) (all_tests E buf regs) test_names"
  by (simp add: all_tests_def test_names_def err_neg_fd_passes err_big_fd_passes err_open_lots_passes err_open_passes
      err_unopened_passes err_vidmap_passes err_stdin_out_passes err_syscall_num_passes)

lemma run_tests_pass:
  assumes "list_all2 (passes E t) fs names" "test_ready E t s"
  shows "\<exists>s'. run_tests fs fail s = Some (fail, s') \<and> test_ready E t s' \<and> displays t (concat (map (\<lambda>name. chars (pass_line name)) names)) s s'"
  using assms
proof (induction fs names arbitrary: s rule: list_all2_induct)
  case (Cons f fs name names)
  obtain s1 where s1: "f s = Some (0, s1)" "test_ready E t s1" "displays t (chars (pass_line name)) s s1"
    using Cons.hyps(1) Cons.prems by (auto simp: passes_def)
  obtain s2 where "run_tests fs fail s1 = Some (fail, s2)" "test_ready E t s2" "displays t (concat (map (\<lambda>name. chars (pass_line name)) names)) s1 s2"
    using Cons.IH [OF s1(2)] by blast
  with s1 show ?case using displays_trans [OF s1(3)] by auto
qed simp

lemma select_one:
  assumes "test_ready E t s" "1 \<le> select" "select \<le> 8"
  shows "\<exists>s'. syserr_select E buf regs select s = Some (0, s') \<and> displays t (chars (pass_line (test_names ! nat (select - 1)))) s s'"
proof -
  have "nat (select - 1) < length (all_tests E buf regs)" using assms(2,3) by (simp add: all_tests_def)
  then have "passes E t (all_tests E buf regs ! nat (select - 1)) (test_names ! nat (select - 1))"
    by (rule list_all2_nthD [OF all_tests_pass])
  then show ?thesis using assms by (auto simp: syserr_select_def passes_def)
qed

lemma select_all:
  assumes "test_ready E t s"
  shows "\<exists>s'. syserr_select E buf regs 0 s = Some (0, s')
     \<and> displays t (concat (map (\<lambda>name. chars (pass_line name)) test_names) @ chars overall_line) s s'"
proof -
  obtain s1 where s1: "run_tests (all_tests E buf regs) 0 s = Some (0, s1)" "test_ready E t s1"
      "displays t (concat (map (\<lambda>name. chars (pass_line name)) test_names)) s s1"
    using run_tests_pass [OF all_tests_pass assms] by blast
  have "overall_line \<in> set test_strings" by (simp add: test_strings_def)
  from test_puts [OF s1(2) this] obtain s2 where s2: "ece391_fdputs E 1 (lit E overall_line) s1 = Some s2" "displays t (chars overall_line) s1 s2"
    by blast
  show ?thesis using s1(1) s2(1) displays_trans [OF s1(3) s2(2)] by (simp add: syserr_select_def overall_line_def)
qed

text \<open>
  C13: the kernel passes its own error tests.  When \<^verbatim>\<open>ece391syserr\<close> runs on a sound kernel, with no
  open descriptor, on a file system that holds the directory and not the misspelled files, then
  whichever test 1 to 8 the user chooses answers 0 and prints its PASS line on the terminal of the
  program and nothing else; choosing 0 prints the eight PASS lines and the overall PASS.  This
  holds whatever the test buffer and the left-over registers hold, and the other terminals do not
  change.
\<close>

theorem syserr_all_pass:
  assumes "test_ready E t s" "0 \<le> select" "select \<le> 8"
  shows "\<exists>s'. syserr_select E buf regs select s = Some (0, s')
     \<and> (\<forall>u < NUM_TERMINALS. vterm_of u s' =
          (if u = t then fold vt_put (if select = 0 then concat (map (\<lambda>name. chars (pass_line name)) test_names) @ chars overall_line
                                      else chars (pass_line (test_names ! nat (select - 1)))) (vterm_of u s)
           else vterm_of u s))"
  using select_all [OF assms(1), of buf regs] select_one [OF assms(1), of select buf regs] assms(2,3)
  by (cases "select = 0") (auto simp: displays_def)

section \<open>A kernel to test\<close>

text \<open>Process 0 of \<open>ls_demo\<close> with its files closed; constant number i lies at 0x08200000 + 256 i.\<close>

definition test_env :: user_env where
  "test_env = demo_env\<lparr>lit := \<lambda>m. 0x08200000 + of_nat (256 * length (takeWhile (\<lambda>x. x \<noteq> m) test_strings))\<rparr>"

definition test_memory :: mem where
  "test_memory a = (if 0xA00000 \<le> unat a \<and> unat a < 0xA00D00
     then (let i = (unat a - 0xA00000) div 256; j = (unat a - 0xA00000) mod 256
           in (chars (test_strings ! i) @ replicate 256 0) ! j)
     else ls_memory a)"

definition test_demo :: sys where
  "test_demo = fdt_put 0 2 empty_fd (fdt_put 0 3 empty_fd (with_memory test_memory ls_demo))"

lemma test_strings_length: "length test_strings = 13" "m \<in> set test_strings \<Longrightarrow> length m < 256 \<and> 0 \<notin> set (chars m)"
  by (auto simp: test_strings_def test_names_def pass_line_def overall_line_def ln_def chars_def)

lemma takeWhile_index:
  "m \<in> set xs \<Longrightarrow> length (takeWhile (\<lambda>x. x \<noteq> m) xs) < length xs \<and> xs ! length (takeWhile (\<lambda>x. x \<noteq> m) xs) = m"
  by (induction xs) auto

lemma test_memory_cstr:
  assumes "m \<in> set test_strings"
  shows "cstr_at (lit test_env m) (chars m) test_demo"
proof -
  define i where "i = length (takeWhile (\<lambda>x. x \<noteq> m) test_strings)"
  have i: "i < 13" "test_strings ! i = m"
    using takeWhile_index [OF assms] test_strings_length(1) by (simp_all add: i_def)
  have l: "lit test_env m = 0x08200000 + of_nat (256 * i)" by (simp add: test_env_def i_def)
  have p: "user_phys (lit test_env m) test_demo = 0xA00000 + of_nat (256 * i)"
    by (simp add: l user_phys_def user_frame_def test_demo_def ls_demo_def demo_sys_sel)
  have n: "length m < 256" "0 \<notin> set (chars m)" using test_strings_length(2) [OF assms] by simp_all
  have "test_memory (0xA00000 + of_nat (256 * i) + of_nat j) = (chars m @ [0]) ! j" if "j < length m + 1" for j
  proof -
    have "unat (0xA00000 + of_nat (256 * i + j) :: u32) = 0xA00000 + (256 * i + j)"
      using i(1) n(1) that by (simp add: unat_word_ariths unat_of_nat_32)
    then have "unat (0xA00000 + of_nat (256 * i) + of_nat j :: u32) = 0xA00000 + (256 * i + j)" by (simp add: add.assoc)
    with i n(1) that show ?thesis by (simp add: test_memory_def nth_append chars_def)
  qed
  then have "rd_bytes test_memory (0xA00000 + of_nat (256 * i)) (length m + 1) = chars m @ [0]"
    by (intro nth_equalityI) (simp_all add: rd_bytes_def view_def chars_def del: upt_Suc)
  moreover have "user_buffer (0x08200000 + of_nat (256 * i)) (length m + 1)"
    using i(1) n(1) by (simp add: user_buffer_def word_le_nat_alt unat_word_ariths unat_of_nat_32)
  moreover have "memory test_demo = test_memory" by (simp add: test_demo_def)
  ultimately show ?thesis using n(2) p l by (simp add: cstr_at_def chars_def)
qed

lemma test_demo_ready: "test_ready test_env 1 test_demo"
proof -
  let ?w = "with_memory test_memory ls_demo"
  have f: "memory test_demo = test_memory" "bootMemAddr test_demo = 0x500000" by (simp_all add: test_demo_def ls_demo_def demo_sys_sel)
  have "fd_ok 2 empty_fd" "fd_ok 3 empty_fd" by (simp_all add: fd_ok_def empty_fd_def)
  then have "sys_ok test_demo" unfolding test_demo_def
    using ls_demo_ok(1) proc_same_ok [OF proc_same_with_memory, of test_memory ls_demo]
    by (intro sys_ok_fdt_put) (simp_all add: user_ok_def)
  moreover have "process_terminal test_demo = Some 1"
    by (simp add: process_terminal_def pcb_of_def pcb_place_def test_demo_def ls_demo_def with_memory_def fdt_put_PCB_at demo_sys_sel)
  moreover have "term_wf test_demo" using ls_demo_ok(1) by (simp add: test_demo_def user_ok_def) (simp add: with_memory_def term_wf_def console_wf_def)
  ultimately have u: "user_ok 1 test_demo" by (simp add: user_ok_def)
  have il: "image_placed ls_demo" "memory ls_demo = ls_memory" "bootMemAddr ls_demo = 0x500000"
    using ls_demo_ok(2) by (simp_all add: ls_demo_def demo_sys_sel)
  have "image_size ls_memory 0x500000 \<le> 0x300000" using il by (simp add: image_placed_def)
  then have si: "same_image 0x500000 ls_memory test_memory"
    by (auto simp: same_image_def test_memory_def unat_word_ariths unat_of_nat_32)
  have d: "directory test_memory 0x500000 = directory ls_memory 0x500000"
    by (rule same_image_directory [OF si]) (simp add: ls_header)
  have ip: "image_placed test_demo" using il same_image_ok [OF si] same_image_header [OF si] by (simp add: image_placed_def f)
  have no: "none_open test_demo"
    by (auto simp: none_open_def fd_entry_def test_demo_def ls_demo_def demo_sys_sel fdt_put_PCB_at demo_proc_def initial_fdt_def empty_fd_def nth_list_update)
  have n: "name_of (ld_dentry ls_memory 0x500040) = [46]" "fileType (ld_dentry ls_memory 0x500040) = 1"
    by (simp add: name_of_ld_dentry cstr_n_def upt_rec view_def ls_memory_def demo_image_def)
       (simp add: ld_dentry_def ld32_def ls_memory_def demo_image_def)
  have "directory ls_memory 0x500000 = [ld_dentry ls_memory 0x500040]" by (simp add: directory_def ls_header dentry_addr_def)
  then have "test_files test_demo" using n by (simp add: test_files_def find_file_def f d chars_def)
  with u ip no test_memory_cstr show ?thesis by (simp add: test_ready_def)
qed

theorem syserr_all_pass_witness:
  "\<exists>s'. syserr_select test_env 0x08100000 (1, 2, 3) 8 test_demo = Some (0, s')
     \<and> vterm_of 1 s' = fold vt_put (chars (ln ''err_syscall_num: PASS'')) (vterm_of 1 test_demo) \<and> vterm_of 0 s' = vterm_of 0 test_demo"
  using syserr_all_pass [OF test_demo_ready, of 8 "0x08100000" "(1, 2, 3)"] by (auto simp: test_names_def pass_line_def)

end
