(* ===== verification/User_Shell.thy ===== *)
theory User_Shell
  imports User_Tests
begin

unbundle bit_operations_syntax

text \<open>
  Programs that talk to the user: the shell (\<^verbatim>\<open>ece391shell.c\<close>), \<^verbatim>\<open>ece391hello.c\<close>, \<^verbatim>\<open>ece391testprint.c\<close> and
  \<^verbatim>\<open>ece391counter.c\<close>.
\<close>

section \<open>The programs\<close>

text \<open>
  The shell's loop: one turn prompts and reads a line, \<open>shell_command\<close> is what follows the read.  A
  turn answers None to go on or the value \<^verbatim>\<open>main\<close> returns.
\<close>

definition shell_command :: "user_env \<Rightarrow> u32 \<Rightarrow> int \<Rightarrow> sys \<Rightarrow> (int option \<times> sys) option" where
  "shell_command E buf cnt s = do {
     b \<leftarrow> (if cnt > 0 then uget (buf + of_int (cnt - 1)) s else Some 0);
     let cnt = (if cnt > 0 \<and> b = 10 then cnt - 1 else cnt);
     s \<leftarrow> uput (buf + of_int cnt) 0 s;
     c \<leftarrow> ece391_strcmp buf (lit E ''exit'') s;
     if c = 0 then Some (Some 0, s)
     else do {
       b \<leftarrow> uget buf s;
       if b = 0 then Some (None, s)
       else do {
         (rval, s) \<leftarrow> ece391_execute E buf s;
         s \<leftarrow> (if rval = -1 then ece391_fdputs E 1 (lit E (ln ''no such command'')) s
               else if rval = 256 then ece391_fdputs E 1 (lit E (ln ''program terminated by exception'')) s
               else if rval \<noteq> 0 then ece391_fdputs E 1 (lit E (ln ''program terminated abnormally'')) s
               else Some s);
         Some (None, s)
       }
     }
   }"

definition shell_turn :: "user_env \<Rightarrow> u32 \<Rightarrow> sys \<Rightarrow> (int option \<times> sys) option" where
  "shell_turn E buf s = do {
     s \<leftarrow> ece391_fdputs E 1 (lit E ''391OS> '') s;
     (cnt, s) \<leftarrow> ece391_read E 0 buf 1023 s;
     if cnt = -1 then do {
       s \<leftarrow> ece391_fdputs E 1 (lit E (ln ''read from keyboard failed'')) s;
       Some (Some 3, s)
     } else shell_command E buf cnt s
   }"

partial_function (option) shell_loop :: "user_env \<Rightarrow> u32 \<Rightarrow> sys \<Rightarrow> (int \<times> sys) option" where
  "shell_loop E buf s = do {
     (r, s) \<leftarrow> shell_turn E buf s;
     case r of Some v \<Rightarrow> Some (v, s) | None \<Rightarrow> shell_loop E buf s
   }"

definition shell_main :: "user_env \<Rightarrow> u32 \<Rightarrow> sys \<Rightarrow> (int \<times> sys) option" where
  "shell_main E buf s = do {
     s \<leftarrow> ece391_fdputs E 1 (lit E (ln ''Starting 391 Shell'')) s;
     shell_loop E buf s
   }"

definition hello_main :: "user_env \<Rightarrow> u32 \<Rightarrow> sys \<Rightarrow> (int \<times> sys) option" where
  "hello_main E buf s = do {
     s \<leftarrow> ece391_fdputs E 1 (lit E (''Hi, what'' @ CHR 0x27 # ''s your name? '')) s;
     (cnt, s) \<leftarrow> ece391_read E 0 buf 1023 s;
     if cnt = -1 then do {
       s \<leftarrow> ece391_fdputs E 1 (lit E (ln (''Can'' @ CHR 0x27 # ''t read name from keyboard.''))) s;
       Some (3, s)
     } else do {
       s \<leftarrow> uput (buf + of_int cnt) 0 s;
       s \<leftarrow> ece391_fdputs E 1 (lit E ''Hello, '') s;
       s \<leftarrow> ece391_fdputs E 1 buf s;
       Some (0, s)
     }
   }"

definition testprint_main :: "user_env \<Rightarrow> sys \<Rightarrow> (int \<times> sys) option" where
  "testprint_main E s = do {
     s \<leftarrow> ece391_fdputs E 1 (lit E (ln ''Hello, if this ran, the program was correct. Yay!'')) s;
     Some (0, s)
   }"

text \<open>\<^verbatim>\<open>for (i = 0; i < max; i++)\<close>, with \<open>n\<close> turns left.\<close>

fun counter_loop :: "user_env \<Rightarrow> u32 \<Rightarrow> nat \<Rightarrow> u32 \<Rightarrow> sys \<Rightarrow> sys option" where
  "counter_loop E buf 0 i s = Some s"
| "counter_loop E buf (Suc n) i s = do {
     s \<leftarrow> ece391_itoa (i + 1) buf 10 s;
     s \<leftarrow> ece391_fdputs E 1 buf s;
     s \<leftarrow> ece391_fdputs E 1 (lit E (ln [])) s;
     counter_loop E buf n (i + 1) s
   }"

definition counter_max :: "byte \<Rightarrow> nat" where
  "counter_max b = (if b = 48 then 100 else if b = 49 then 10000 else if b = 50 then 100000 else 0)"

definition counter_main :: "user_env \<Rightarrow> u32 \<Rightarrow> sys \<Rightarrow> (int \<times> sys) option" where
  "counter_main E buf s = do {
     s \<leftarrow> ece391_fdputs E 1 (lit E (ln ''Enter the Test Number: (0): 100, (1): 10000, (2): 100000'')) s;
     (cnt, s) \<leftarrow> ece391_read E 0 buf 1023 s;
     if cnt = -1 then do {
       s \<leftarrow> ece391_fdputs E 1 (lit E (ln (''Can'' @ CHR 0x27 # ''t read the number from keyboard.''))) s;
       Some (3, s)
     } else do {
       s \<leftarrow> uput (buf + of_int cnt) 0 s;
       len \<leftarrow> ece391_strlen buf s;
       b \<leftarrow> uget buf s;
       if len > 2 \<or> (len = 2 \<and> (b < 48 \<or> b > 50)) then do {
         s \<leftarrow> ece391_fdputs E 1 (lit E (ln ''Wrong Choice!'')) s;
         Some (0, s)
       } else do {
         s \<leftarrow> counter_loop E buf (counter_max b) 0 s;
         Some (0, s)
       }
     }
   }"

section \<open>Comparing strings\<close>

lemma strcmp_loop_zero:
  assumes "\<forall>i < length xs. f (k + i) = xs ! i" "f (k + length xs) = 0" "0 \<notin> set xs"
    and "\<forall>i < length ys. g (k + i) = ys ! i" "g (k + length ys) = 0" "0 \<notin> set ys"
  shows "\<exists>r. ece391_strcmp_loop f g k = Some r \<and> (r = 0 \<longleftrightarrow> xs = ys)"
  using assms
proof (induction xs arbitrary: ys k)
  case Nil
  then show ?case
  proof (cases ys)
    case (Cons y zs)
    then have "f k = 0" "g k = y" "y \<noteq> 0" using Nil(2,6) Nil(4) [rule_format, of 0] by auto
    then show ?thesis using Cons by (subst ece391_strcmp_loop.simps) (auto simp: word_uint_eq_iff)
  qed (subst ece391_strcmp_loop.simps, simp)
next
  case (Cons x xs)
  have x: "f k = x" "x \<noteq> 0" using Cons.prems(1) [rule_format, of 0] Cons.prems(3) by auto
  show ?case
  proof (cases ys)
    case Nil
    then show ?thesis using x Cons.prems(5) by (subst ece391_strcmp_loop.simps) (auto simp: word_uint_eq_iff)
  next
    case (Cons y zs)
    note ys = this
    have y: "g k = y" using Cons.prems(4) [rule_format, of 0] ys by auto
    show ?thesis
    proof (cases "x = y")
      case True
      have "\<exists>r. ece391_strcmp_loop f g (Suc k) = Some r \<and> (r = 0 \<longleftrightarrow> xs = zs)"
        using Cons.prems ys by (intro Cons.IH) (auto simp: nth_Cons')
      with True x y ys show ?thesis by (subst ece391_strcmp_loop.simps) auto
    next
      case False
      with x y ys show ?thesis by (subst ece391_strcmp_loop.simps) (auto simp: word_uint_eq_iff)
    qed
  qed
qed

lemma strcmp_cstr:
  assumes "sys_ok s" "cstr_at v xs s" "cstr_at w ys s"
  shows "\<exists>r. ece391_strcmp v w s = Some r \<and> (r = 0 \<longleftrightarrow> xs = ys)"
  using strcmp_loop_zero [of xs "view (memory s) (user_phys v s)" 0 ys "view (memory s) (user_phys w s)"]
    cstr_at_view [OF assms(2)] cstr_at_view [OF assms(3)] assms(2,3)
    cstr_at_str(1) [OF assms(1,2)] cstr_at_str(1) [OF assms(1,3)]
  by (simp add: ece391_strcmp_def cstr_at_def)

section \<open>Storing a byte\<close>

lemma wr_byte: "wr_bytes m p [c] = m(p := c)"
  by (rule ext) (simp add: wr_bytes_def unat_eq_0 less_Suc0)

lemma user_phys_inj: "user_phys a s = user_phys b s \<longleftrightarrow> a = b"
  by (simp add: user_phys_def)

lemma uput_facts:
  fixes c :: byte
  assumes "user_ok t s" "image_placed s" "user_buffer a 1"
  defines "s' \<equiv> with_memory ((memory s)(user_phys a s := c)) s"
  shows "uput a c s = Some s'" "user_ok t s'" "image_placed s'" "proc_same s s'" "same_image (bootMemAddr s) (memory s) (memory s')"
    "user_phys b s' = user_phys b s" "u < 3 \<Longrightarrow> vterm_of u s' = vterm_of u s" "find_file name s' = find_file name s"
    "cstr_at v bs s \<Longrightarrow> \<not> in_region v (length bs + 1) a \<Longrightarrow> cstr_at v bs s'"
proof -
  have w: "s' = with_memory (wr_bytes (memory s) (user_phys a s) [c]) s" by (simp add: s'_def wr_byte)
  have u: "user_buffer a (length [c])" using assms(3) by simp
  note st = user_store [OF assms(1,2) u, folded w]
  show "uput a c s = Some s'" using assms(1,3) by (simp add: uput_def user_ptr_phys user_ok_def s'_def)
  show "user_ok t s'" "proc_same s s'" and si: "same_image (bootMemAddr s) (memory s) (memory s')"
    and ph: "user_phys b s' = user_phys b s" "u < 3 \<Longrightarrow> vterm_of u s' = vterm_of u s" for b
    using st by simp_all
  show "image_placed s'" by (rule image_placed_same(1) [OF st(2,3) assms(2)])
  have "directory (memory s') (bootMemAddr s) = directory (memory s) (bootMemAddr s)"
    using assms(2) by (intro same_image_directory [OF si]) (simp add: image_placed_def)
  then show "find_file name s' = find_file name s" by (simp add: find_file_def s'_def)
  assume c: "cstr_at v bs s" "\<not> in_region v (length bs + 1) a"
  have p: "user_phys v s + of_nat i \<noteq> user_phys a s" if "i < length bs + 1" for i
  proof
    assume "user_phys v s + of_nat i = user_phys a s"
    then have "a = v + of_nat i" by (simp add: user_phys_def algebra_simps)
    moreover have "length bs + 1 \<le> 2 ^ 32" using c(1) by (auto simp: cstr_at_def user_buffer_def)
    ultimately show False using c(2) that by (simp add: in_region_def unat_of_nat_32)
  qed
  have "rd_bytes (memory s') (user_phys v s) (length bs + 1) = rd_bytes (memory s) (user_phys v s) (length bs + 1)"
    by (rule rd_bytes_cong) (simp add: s'_def p)
  then show "cstr_at v bs s'" using c(1) ph(1) [of v] by (simp add: cstr_at_def)
qed

section \<open>What the shell answers\<close>

lemma takeWhile_twice: "takeWhile P (takeWhile Q xs) = takeWhile (\<lambda>x. Q x \<and> P x) xs"
  by (induction xs) simp_all

lemma command_name_cstr:
  assumes "cstr_at v bs s"
  shows "command_name (view (memory s) (user_phys v s)) = takeWhile (\<lambda>b. b \<noteq> 32) (take 32 bs)"
proof -
  let ?f = "view (memory s) (user_phys v s)"
  have "cstr_n ?f 32 = take 32 bs"
    using cstr_n_take [of 32 "max 32 (length bs)" ?f] cstr_n_view [OF assms, of "max 32 (length bs)"] by simp
  moreover have "command_name ?f = takeWhile (\<lambda>b. b \<noteq> 32) (cstr_n ?f 32)"
    by (simp add: command_name_def cstr_n_def takeWhile_twice)
  ultimately show ?thesis by simp
qed

lemma execute_unknown:
  assumes "user_ok t s" "cstr_at v bs s" "find_file (takeWhile (\<lambda>b. b \<noteq> 32) (take 32 bs)) s = None"
  shows "ece391_execute E v s = Some (-1, s)"
proof -
  let ?f = "view (memory s) (user_phys v s)"
  have ok: "sys_ok s" using assms(1) by (simp add: user_ok_def)
  have v: "v \<noteq> 0" using assms(2) by (auto simp: cstr_at_def user_buffer_def)
  have "strlen ?f \<noteq> None" using cstr_at_str(2) [OF ok assms(2)] by simp
  then obtain j where j: "skip_spaces ?f (length (command_name ?f)) = Some j" by (rule exec_args_start)
  have "sys_execute (user_locals E) (Some ?f) s = Some (Ret (-1) s)"
    using assms(3) j unfolding command_name_cstr [OF assms(2), symmetric]
    by (simp add: sys_execute_def parse_fname_eq read_dentry_by_name_find parsed_name find_file_def Let_def)
  then show ?thesis using v cstr_at_str(1) [OF ok assms(2)] by (simp add: ece391_execute_def DO_CALL_def syscall_def str_arg_def)
qed

text \<open>
  A line has been read into the buffer, and a constant of the program lies elsewhere; the constant
  stays what it is when the line is terminated.
\<close>

definition line_in :: "u32 \<Rightarrow> byte list \<Rightarrow> sys \<Rightarrow> bool" where
  "line_in buf line s \<longleftrightarrow> user_buffer buf 1024 \<and> length line < 1023 \<and> 0 \<notin> set line
     \<and> rd_bytes (memory s) (user_phys buf s) (length line + 1) = line @ [10]"

definition safe_literal :: "user_env \<Rightarrow> string \<Rightarrow> u32 \<Rightarrow> nat \<Rightarrow> sys \<Rightarrow> bool" where
  "safe_literal E m buf n s \<longleftrightarrow> cstr_at (lit E m) (chars m) s \<and> \<not> in_region (lit E m) (length (chars m) + 1) (buf + of_nat n)"

lemma end_line:
  assumes "user_ok t s" "image_placed s" "line_in buf line s"
  shows "\<exists>s'. uput (buf + of_nat (length line)) 0 s = Some s' \<and> uget (buf + of_nat (length line)) s = Some 10
     \<and> user_ok t s' \<and> image_placed s' \<and> cstr_at buf line s' \<and> (\<forall>u < 3. vterm_of u s' = vterm_of u s) \<and> (\<forall>name. find_file name s' = find_file name s)
     \<and> (\<forall>m. safe_literal E m buf (length line) s \<longrightarrow> cstr_at (lit E m) (chars m) s')"
proof -
  let ?a = "buf + of_nat (length line)" and ?p = "user_phys buf s"
  let ?s = "with_memory ((memory s)(user_phys ?a s := 0)) s"
  have l: "user_buffer buf 1024" "length line < 1023" "0 \<notin> set line" "rd_bytes (memory s) ?p (length line + 1) = line @ [10]"
    using assms(3) by (simp_all add: line_in_def)
  have "unat ?a = unat buf + length line"
    using l(1,2) by (simp add: user_buffer_def unat_word_ariths unat_of_nat_32)
  then have b: "user_buffer ?a 1" using l(1,2) by (auto simp: user_buffer_def word_le_nat_alt)
  have a: "user_phys ?a s = ?p + of_nat (length line)" by (simp add: user_phys_def)
  have n: "(line @ [10]) ! i = memory s (?p + of_nat i)" if "i < length line + 1" for i
    using nth_rd_bytes [OF that, of "memory s" ?p] l(4) by simp
  have g: "uget ?a s = Some 10"
    using assms(1) b n [of "length line"] a by (simp add: uget_def user_ptr_phys user_ok_def nth_append)
  note st = uput_facts [OF assms(1,2) b, where c = 0]
  have "rd_bytes (memory ?s) ?p (length line + 1) = line @ [0]"
  proof (rule nth_equalityI)
    fix i assume "i < length (rd_bytes (memory ?s) ?p (length line + 1))"
    then have i: "i < length line + 1" by simp
    moreover have "?p + of_nat i = ?p + of_nat (length line) \<longleftrightarrow> i = length line"
      using i l(2) of_nat_inj_32 [of i "length line"] by simp
    ultimately show "rd_bytes (memory ?s) ?p (length line + 1) ! i = (line @ [0]) ! i"
      using n [OF i] by (simp add: a nth_append split: if_splits)
  qed simp
  then have "cstr_at buf line ?s"
    using l(1,2,3) st(6) [of buf] by (simp add: cstr_at_def user_buffer_def)
  then show ?thesis using st(1,2,3,7,8,9) g by (intro exI [of _ ?s]) (simp add: safe_literal_def)
qed

text \<open>
  C19: what the shell answers.  When a line has been typed, the shell ends with status 0 if the line
  is "exit"; it prompts again without a word if the line is empty; and if the
  first word of the line is not the name of a file (nor the line "exit"), it prints "no such
  command" on its terminal and nothing anywhere else, and goes on.
\<close>

theorem shell_answers:
  assumes "user_ok t s" "image_placed s" "line_in buf line s"
    and "safe_literal E ''exit'' buf (length line) s" "safe_literal E (ln ''no such command'') buf (length line) s"
    and "line = chars ''exit'' \<or> line = [] \<or> find_file (takeWhile (\<lambda>b. b \<noteq> 32) (take 32 line)) s = None"
  shows "\<exists>s'. shell_command E buf (int (length line) + 1) s = Some (if line = chars ''exit'' then Some 0 else None, s')
     \<and> (\<forall>u < NUM_TERMINALS. vterm_of u s' =
          (if u = t \<and> line \<noteq> chars ''exit'' \<and> line \<noteq> [] then fold vt_put (chars (ln ''no such command'')) (vterm_of u s) else vterm_of u s))"
proof -
  obtain s1 where s1: "uput (buf + of_nat (length line)) 0 s = Some s1" "uget (buf + of_nat (length line)) s = Some 10" "user_ok t s1"
      "image_placed s1" "cstr_at buf line s1" "\<forall>u < 3. vterm_of u s1 = vterm_of u s" "\<forall>name. find_file name s1 = find_file name s"
      "cstr_at (lit E ''exit'') (chars ''exit'') s1" "cstr_at (lit E (ln ''no such command'')) (chars (ln ''no such command'')) s1"
    using end_line [OF assms(1-3), of E] assms(4,5) by blast
  have ok: "sys_ok s1" using s1(3) by (simp add: user_ok_def)
  obtain r where r: "ece391_strcmp buf (lit E ''exit'') s1 = Some r" "r = 0 \<longleftrightarrow> line = chars ''exit''"
    using strcmp_cstr [OF ok s1(5,8)] by blast
  have "user_buffer buf 1" using assms(3) by (simp add: line_in_def user_buffer_def)
  then have u: "uget buf s1 = Some ((line @ [0]) ! 0)"
    using ok s1(5) nth_rd_bytes [of 0 "length line + 1" "memory s1" "user_phys buf s1"]
    by (simp add: uget_def user_ptr_phys cstr_at_def del: nth_rd_bytes)
  have start: "shell_command E buf (int (length line) + 1) s =
      (if r = 0 then Some (Some 0, s1) else if (line @ [0]) ! 0 = 0 then Some (None, s1)
       else do { (rval, s) \<leftarrow> ece391_execute E buf s1;
         s \<leftarrow> (if rval = -1 then ece391_fdputs E 1 (lit E (ln ''no such command'')) s
               else if rval = 256 then ece391_fdputs E 1 (lit E (ln ''program terminated by exception'')) s
               else if rval \<noteq> 0 then ece391_fdputs E 1 (lit E (ln ''program terminated abnormally'')) s else Some s);
         Some (None, s) })"
    by (simp add: shell_command_def s1(1,2) r(1) u)
  show ?thesis
  proof (cases "line = chars ''exit'' \<or> line = []")
    case True
    then show ?thesis using s1(6) r(2) by (auto simp: start)
  next
    case False
    then have "line ! 0 \<noteq> 0" using s1(5) by (cases line) (auto simp: cstr_at_def)
    moreover have "ece391_execute E buf s1 = Some (-1, s1)"
      using assms(6) False s1(7) by (intro execute_unknown [OF s1(3,5)]) auto
    moreover obtain s2 where "ece391_fdputs E 1 (lit E (ln ''no such command'')) s1 = Some s2" "prints t (chars (ln ''no such command'')) s1 s2"
      using fdputs_prints [OF s1(3,9)] by blast
    ultimately show ?thesis using False s1(6) r(2) by (simp add: start nth_append prints_def)
  qed
qed

section \<open>Counting\<close>

lemma ece391_strrev_eq: "ece391_strrev m p = strrev m p"
proof -
  have "strrev_loop m p 0 e = m" if "e \<le> 0" for e using that by (subst strrev_loop.simps) simp
  then show ?thesis by (cases "strlen (view m p)") (auto simp: ece391_strrev_def strrev_def Let_def)
qed

lemma itoa_spec_10: "length (itoa_spec 10 v) \<le> 32" "0 \<notin> set (itoa_spec 10 v)" if "v < 2 ^ 32"
proof -
  have l: "length (digits_le 10 v) \<le> 32" using that by (intro digits_le_bound) simp_all
  then show "length (itoa_spec 10 v) \<le> 32" by (simp add: itoa_spec_def)
  have "itoa_lookup ! d \<noteq> 0" if "d \<in> set (digits_le 10 v)" for d
    using digits_le_less [of 10 d v] that itoa_lookup_digit by simp
  then show "0 \<notin> set (itoa_spec 10 v)" by (auto simp: itoa_spec_def)
qed

lemma ece391_itoa_store:
  assumes "user_ok t s" "user_buffer buf 33"
  shows "ece391_itoa v buf 10 s = Some (with_memory (wr_bytes (memory s) (user_phys buf s) (itoa_spec 10 (unat v) @ [0])) s)"
proof -
  have "user_ptr buf 33 s = Some (user_phys buf s)" using assms by (simp add: user_ptr_phys user_ok_def)
  moreover have "itoa (memory s) v (user_phys buf s) 10 = Some (wr_bytes (memory s) (user_phys buf s) (itoa_spec 10 (unat v) @ [0]))"
    using itoa_eq [of 10 "memory s" v "user_phys buf s"] by simp
  ultimately show ?thesis
    by (auto simp: ece391_itoa_def itoa_def ece391_strrev_eq Option.bind_eq_Some_conv split: if_splits)
qed

lemma counter_line:
  assumes "user_ok t s" "image_placed s" "user_buffer buf 33" "cstr_at w [10] s" "disjoint_regions buf 33 w 2"
  shows "\<exists>s1 s2 s3. ece391_itoa v buf 10 s = Some s1 \<and> ece391_fdputs E 1 buf s1 = Some s2 \<and> ece391_fdputs E 1 w s2 = Some s3
     \<and> user_ok t s3 \<and> image_placed s3 \<and> cstr_at w [10] s3 \<and> displays t (itoa_spec 10 (unat v) @ [10]) s s3"
proof -
  let ?d = "itoa_spec 10 (unat v)" and ?p = "user_phys buf s"
  let ?s = "with_memory (wr_bytes (memory s) ?p (?d @ [0])) s"
  note d = itoa_spec_10 [OF unat_lt_2p32, of v]
  have ub: "user_buffer buf (length (?d @ [0]))" using d(1) assms(3) by (auto simp: user_buffer_def)
  note st = user_store [OF assms(1,2) ub]
  have rb: "rd_bytes (memory ?s) ?p (length ?d + 1) = ?d @ [0]"
    using rd_wr_bytes [of "?d @ [0]" "memory s" ?p] d(1) by simp
  have c: "cstr_at buf ?d ?s" using ub d(2) st(4) [of buf] rb by (simp add: cstr_at_def)
  have "disjoint_regions ?p (length (?d @ [0])) (user_phys w s) 2"
    using assms(5) d(1) by (auto simp: disjoint_regions_def user_phys_def)
  then have "rd_bytes (memory ?s) (user_phys w s) 2 = rd_bytes (memory s) (user_phys w s) 2"
    using rd_wr_disjoint [of ?p "?d @ [0]" "user_phys w s" 2 "memory s"] d(1) by simp
  then have w: "cstr_at w [10] ?s" using assms(4) st(4) [of w] by (simp add: cstr_at_def numeral_2_eq_2)
  obtain s2 where s2: "ece391_fdputs E 1 buf ?s = Some s2" "prints t ?d ?s s2" using fdputs_prints [OF st(1) c] by blast
  have ok: "sys_ok ?s" using st(1) by (simp add: user_ok_def)
  have i1: "image_placed ?s" by (rule image_placed_same(1) [OF st(2,3) assms(2)])
  have u2: "user_ok t s2" "image_placed s2" "cstr_at w [10] s2"
    using prints_user_ok [OF st(1) s2(2)] image_placed_same(1) [OF prints_same [OF s2(2)] prints_image [OF s2(2) i1] i1]
      prints_cstr [OF s2(2) ok w] by simp_all
  obtain s3 where s3: "ece391_fdputs E 1 w s2 = Some s3" "prints t [10] s2 s3" using fdputs_prints [OF u2(1,3)] by blast
  have ok2: "sys_ok s2" using u2(1) by (simp add: user_ok_def)
  have "user_ok t s3" "image_placed s3" "cstr_at w [10] s3"
    using prints_user_ok [OF u2(1) s3(2)] image_placed_same(1) [OF prints_same [OF s3(2)] prints_image [OF s3(2) u2(2)] u2(2)]
      prints_cstr [OF s3(2) ok2 u2(3)] by simp_all
  moreover have "displays t [] s ?s" using st(5) by (simp add: displays_def)
  then have "displays t (?d @ [10]) s s3"
    using displays_trans [OF displays_trans [OF _ prints_displays [OF s2(2)]] prints_displays [OF s3(2)], of "[]" s] by simp
  ultimately show ?thesis using ece391_itoa_store [OF assms(1,3), of v] s2(1) s3(1) by blast
qed

lemma counter_loop_prints:
  assumes "user_buffer buf 33" "disjoint_regions buf 33 (lit E (ln [])) 2"
  shows "user_ok t s \<Longrightarrow> image_placed s \<Longrightarrow> cstr_at (lit E (ln [])) [10] s \<Longrightarrow> unat i + n < 2 ^ 32 \<Longrightarrow>
    \<exists>s'. counter_loop E buf n i s = Some s' \<and> displays t (concat (map (\<lambda>k. itoa_spec 10 k @ [10]) [Suc (unat i)..<Suc (unat i + n)])) s s'"
proof (induction n arbitrary: i s)
  case (Suc n)
  have i: "unat (i + 1) = Suc (unat i)" using Suc.prems(4) by (simp add: unat_word_ariths)
  obtain s1 s2 s3 where h: "ece391_itoa (i + 1) buf 10 s = Some s1" "ece391_fdputs E 1 buf s1 = Some s2" "ece391_fdputs E 1 (lit E (ln [])) s2 = Some s3"
      "user_ok t s3" "image_placed s3" "cstr_at (lit E (ln [])) [10] s3" "displays t (itoa_spec 10 (unat (i + 1)) @ [10]) s s3"
    using counter_line [OF Suc.prems(1,2) assms(1) Suc.prems(3) assms(2), of "i + 1" E] by blast
  have "unat (i + 1) + n < 2 ^ 32" using i Suc.prems(4) by simp
  from Suc.IH [OF h(4-6) this] obtain s' where s': "counter_loop E buf n (i + 1) s3 = Some s'"
      "displays t (concat (map (\<lambda>k. itoa_spec 10 k @ [10]) [Suc (unat (i + 1))..<Suc (unat (i + 1) + n)])) s3 s'" by blast
  have "[Suc (unat i)..<Suc (unat i + Suc n)] = Suc (unat i) # [Suc (Suc (unat i))..<Suc (Suc (unat i) + n)]" by (simp add: upt_conv_Cons)
  then show ?case using h(1-3) s'(1) displays_trans [OF h(7) s'(2)] by (simp add: i del: upt_Suc)
qed simp

section \<open>A shell to run\<close>

text \<open>The demonstration system with other contents above 8 MB, where the user pages are.\<close>

lemma demo_with_memory:
  assumes "\<And>a. unat a < 0x800000 \<Longrightarrow> m a = demo_image a"
  shows "same_image 0x500000 demo_image m" "user_ok 1 (with_memory m demo_sys)" "image_placed (with_memory m demo_sys)"
proof -
  have "image_size demo_image 0x500000 \<le> 0x300000" using demo_sys_image by (simp add: image_placed_def demo_sys_sel)
  then show si: "same_image 0x500000 demo_image m"
    unfolding same_image_def by (intro allI impI assms) (simp add: unat_word_ariths unat_of_nat_32)
  show "user_ok 1 (with_memory m demo_sys)" using demo_user_ok proc_same_ok [OF proc_same_with_memory, of m demo_sys]
    by (simp add: user_ok_def) (simp add: with_memory_def term_wf_def console_wf_def)
  show "image_placed (with_memory m demo_sys)" using demo_sys_image same_image_ok [OF si] same_image_header [OF si]
    by (simp add: image_placed_def demo_sys_sel)
qed

text \<open>Process 0 on terminal 1; the line "hi" has been typed into the buffer at 0x08100000, the two constants lie
  at 0x08200000 and 0x08200100.\<close>

definition shell_memory :: mem where
  "shell_memory = demo_image(0x900000 := 104, 0x900001 := 105, 0x900002 := 10, 0xA00000 := 101, 0xA00001 := 120, 0xA00002 := 105, 0xA00003 := 116, 0xA00100 := 110,
     0xA00101 := 111, 0xA00102 := 32, 0xA00103 := 115, 0xA00104 := 117, 0xA00105 := 99, 0xA00106 := 104, 0xA00107 := 32, 0xA00108 := 99,
     0xA00109 := 111, 0xA0010A := 109, 0xA0010B := 109, 0xA0010C := 97, 0xA0010D := 110, 0xA0010E := 100, 0xA0010F := 10)"

definition shell_env :: user_env where
  "shell_env = demo_env\<lparr>lit := \<lambda>m. if m = ''exit'' then 0x08200000 else 0x08200100\<rparr>"

lemma shell_memory_low: "unat a < 0x800000 \<Longrightarrow> shell_memory a = demo_image a"
  unfolding shell_memory_def by (simp add: word_unat_eq_iff)

lemma shell_demo_ok:
  "same_image 0x500000 demo_image shell_memory" "user_ok 1 (with_memory shell_memory demo_sys)" "image_placed (with_memory shell_memory demo_sys)"
  by (rule demo_with_memory, erule shell_memory_low)+

lemma shell_demo_line: "line_in 0x08100000 [104, 105] (with_memory shell_memory demo_sys)"
  by (simp add: line_in_def user_buffer_def user_phys_def user_frame_def demo_sys_sel rd_bytes_def view_def upt_rec)
     (simp add: shell_memory_def)

lemma shell_demo_literals:
  "safe_literal shell_env ''exit'' 0x08100000 (length [104, 105 :: byte]) (with_memory shell_memory demo_sys)"
  "safe_literal shell_env (ln ''no such command'') 0x08100000 (length [104, 105 :: byte]) (with_memory shell_memory demo_sys)"
  by (simp_all add: safe_literal_def cstr_at_def shell_env_def user_buffer_def user_phys_def user_frame_def demo_sys_sel
      rd_bytes_def view_def upt_rec chars_def ln_def in_region_def)
     (simp_all add: shell_memory_def demo_image_def)

theorem shell_answers_witness:
  "\<exists>s'. shell_command shell_env 0x08100000 3 (with_memory shell_memory demo_sys) = Some (None, s')
     \<and> vterm_of 1 s' = fold vt_put (chars (ln ''no such command'')) (vterm_of 1 (with_memory shell_memory demo_sys))"
proof -
  have n: "name_of (ld_dentry demo_image 0x500040) = [97, 98, 99]"
    by (simp add: name_of_ld_dentry cstr_n_def upt_rec view_def demo_image_def)
  have "directory shell_memory 0x500000 = directory demo_image 0x500000"
    by (rule same_image_directory [OF shell_demo_ok(1)]) (simp add: demo_counts)
  then have f: "find_file [104, 105] (with_memory shell_memory demo_sys) = None"
    using n by (simp add: find_file_def demo_sys_sel directory_def demo_counts dentry_addr_def)
  have "\<exists>s'. shell_command shell_env 0x08100000 (int (length [104, 105 :: byte]) + 1) (with_memory shell_memory demo_sys)
        = Some (if [104, 105] = chars ''exit'' then Some 0 else None, s')
     \<and> (\<forall>u < NUM_TERMINALS. vterm_of u s' =
          (if u = 1 \<and> [104, 105] \<noteq> chars ''exit'' \<and> [104, 105 :: byte] \<noteq> [] then fold vt_put (chars (ln ''no such command'')) (vterm_of u (with_memory shell_memory demo_sys))
           else vterm_of u (with_memory shell_memory demo_sys)))"
    by (rule shell_answers [OF shell_demo_ok(2,3) shell_demo_line]) (use shell_demo_literals f in simp_all)
  moreover have "chars ''exit'' = [101, 120, 105, 116]" by (simp add: chars_def)
  ultimately show ?thesis by auto
qed

end
