(* ===== verification/Blink.thy ===== *)
theory Blink
  imports Marvel_Prelude
begin

unbundle bit_operations_syntax

text \<open>
  The animation engine of the fish program (\<^verbatim>\<open>fish/blink.S\<close>, \<^verbatim>\<open>fish/blink.h\<close> and the allocator of
  \<^verbatim>\<open>fish/fish.c\<close>): a singly linked list of blinking characters.

  The structures live in the static array \<^verbatim>\<open>blink_array\<close>; a pointer to one is its index, NULL is
  None.  A structure on the stack is a record.  What is written through \<^verbatim>\<open>vmem_base_addr\<close> is the
  function \<open>vmem\<close> of the offset.  The loops over the list end only when the list does: a call that
  does not return, follows a bad pointer or jumps through a bad table entry is None.
\<close>

section \<open>Data\<close>

record mp1_blink_struct =
  location :: u16
  on_char :: byte
  off_char :: byte
  on_length :: u16
  off_length :: u16
  countdown :: u16
  status :: u16
  nxt :: "nat option"

record fish =
  blink_array :: "mp1_blink_struct list"
  mp1_list_head :: "nat option"
  vmem :: "nat \<Rightarrow> byte"

abbreviation (input) BLINK_MAX :: nat where "BLINK_MAX \<equiv> 2000"

definition blank_blink :: mp1_blink_struct where
  "blank_blink = \<lparr>location = 0, on_char = 0, off_char = 0, on_length = 0, off_length = 0, countdown = 0, status = 0, nxt = None\<rparr>"

section \<open>Operations\<close>

text \<open>\<^verbatim>\<open>mp1_malloc\<close> takes the first structure with location 0, \<^verbatim>\<open>mp1_free\<close> clears all its bytes.\<close>

fun malloc_loop :: "mp1_blink_struct list \<Rightarrow> nat \<Rightarrow> nat option" where
  "malloc_loop [] i = None"
| "malloc_loop (b # bs) i = (if location b = 0 then Some i else malloc_loop bs (Suc i))"

definition mp1_malloc :: "fish \<Rightarrow> nat option" where
  "mp1_malloc f = malloc_loop (take BLINK_MAX (blink_array f)) 0"

definition put_blink :: "nat \<Rightarrow> mp1_blink_struct \<Rightarrow> fish \<Rightarrow> fish" where
  "put_blink p b f = f\<lparr>blink_array := (blink_array f)[p := b]\<rparr>"

definition mp1_free :: "nat \<Rightarrow> fish \<Rightarrow> fish" where
  "mp1_free p f = put_blink p blank_blink f"

definition mp1_poke :: "byte \<Rightarrow> nat \<Rightarrow> fish \<Rightarrow> fish" where
  "mp1_poke cl eax f = f\<lparr>vmem := (vmem f)(eax := cl)\<rparr>"

text \<open>\<^verbatim>\<open>decw\<close> wraps, the test that follows it is signed.\<close>

definition tasklet_item :: "nat \<Rightarrow> fish \<Rightarrow> fish" where
  "tasklet_item p f =
    (let b = blink_array f ! p; b = b\<lparr>countdown := countdown b - 1\<rparr>; f = put_blink p b f
     in if 0 <s countdown b then f
        else let eax = 2 * unat (location b);
                 (cl, dx) = (if status b AND 1 \<noteq> 0 then (off_char b, off_length b) else (on_char b, on_length b));
                 f = mp1_poke cl eax f
             in put_blink p (b\<lparr>countdown := dx, status := status b XOR 1\<rparr>) f)"

partial_function (option) tasklet_loop :: "nat option \<Rightarrow> fish \<Rightarrow> fish option" where
  "tasklet_loop ebx f = (case ebx of None \<Rightarrow> Some f
     | Some p \<Rightarrow> let f = tasklet_item p f in tasklet_loop (nxt (blink_array f ! p)) f)"

definition mp1_rtc_tasklet :: "fish \<Rightarrow> fish option" where
  "mp1_rtc_tasklet f = tasklet_loop (mp1_list_head f) f"

definition mp1_ioctl_add :: "mp1_blink_struct \<Rightarrow> fish \<Rightarrow> int \<times> fish" where
  "mp1_ioctl_add user f =
    (if location user \<ge> 80 * 25 then (-1, f)
     else let b = user\<lparr>status := 1, countdown := on_length user\<rparr>
          in case mp1_malloc f of None \<Rightarrow> (-1, f)
             | Some p \<Rightarrow> let f = put_blink p (b\<lparr>nxt := mp1_list_head f\<rparr>) f;
                           f = f\<lparr>mp1_list_head := Some p\<rparr>
                       in (0, mp1_poke (on_char b) (2 * unat (location b)) f))"

partial_function (option) find_loop :: "u16 \<Rightarrow> nat option \<Rightarrow> fish \<Rightarrow> nat option option" where
  "find_loop ax ebx f = (case ebx of None \<Rightarrow> Some None
     | Some p \<Rightarrow> if location (blink_array f ! p) = ax then Some (Some p) else find_loop ax (nxt (blink_array f ! p)) f)"

definition mp1_find_helper :: "u32 \<Rightarrow> fish \<Rightarrow> nat option option" where
  "mp1_find_helper arg f = find_loop (ucast arg) (mp1_list_head f) f"

text \<open>A place that holds a pointer: the list head or the next field of a structure.\<close>

datatype link = Head | Next_of nat

fun deref :: "link \<Rightarrow> fish \<Rightarrow> nat option" where
  "deref Head f = mp1_list_head f"
| "deref (Next_of p) f = nxt (blink_array f ! p)"

fun set_link :: "link \<Rightarrow> nat option \<Rightarrow> fish \<Rightarrow> fish" where
  "set_link Head v f = f\<lparr>mp1_list_head := v\<rparr>"
| "set_link (Next_of p) v f = put_blink p ((blink_array f ! p)\<lparr>nxt := v\<rparr>) f"

partial_function (option) find_prev :: "nat \<Rightarrow> link \<Rightarrow> fish \<Rightarrow> link option" where
  "find_prev eax edx f = (if deref edx f = Some eax then Some edx
     else case deref edx f of None \<Rightarrow> None | Some q \<Rightarrow> find_prev eax (Next_of q) f)"

definition mp1_ioctl_remove :: "u32 \<Rightarrow> fish \<Rightarrow> (int \<times> fish) option" where
  "mp1_ioctl_remove arg f = do {
     eax \<leftarrow> mp1_find_helper arg f;
     case eax of None \<Rightarrow> Some (-1, f)
     | Some p \<Rightarrow> do {
         edx \<leftarrow> find_prev p Head f;
         Some (0, mp1_free p (set_link edx (nxt (blink_array f ! p)) f))
       }
   }"

text \<open>\<^verbatim>\<open>cmovl\<close> after \<^verbatim>\<open>testb\<close>: the overflow flag is clear, so the move happens when the sign bit of the
  byte that was tested is set.\<close>

definition sync_char :: "mp1_blink_struct \<Rightarrow> byte" where
  "sync_char b = (let ecx = off_char b; ebx = on_char b; flags = ucast (status b) AND (1 :: byte)
     in if bit flags 7 then ebx else ecx)"

definition mp1_ioctl_sync :: "u32 \<Rightarrow> fish \<Rightarrow> (int \<times> fish) option" where
  "mp1_ioctl_sync arg f = do {
     esi \<leftarrow> mp1_find_helper (drop_bit 16 arg) f;
     case esi of None \<Rightarrow> Some (-1, f)
     | Some q \<Rightarrow> do {
         edi \<leftarrow> mp1_find_helper (arg AND 0xFFFF) f;
         case edi of None \<Rightarrow> Some (-1, f)
         | Some p \<Rightarrow>
             let a = blink_array f ! q;
                 b = (blink_array f ! p)\<lparr>on_length := on_length a, off_length := off_length a, countdown := countdown a, status := status a\<rparr>;
                 f = put_blink p b f
             in Some (0, mp1_poke (sync_char b) (2 * unat (location b)) f)
       }
   }"

text \<open>\<^verbatim>\<open>mp1_ioctl_find\<close> reads the location of the caller's structure and overwrites the structure.\<close>

definition mp1_ioctl_find :: "mp1_blink_struct \<Rightarrow> fish \<Rightarrow> (int \<times> mp1_blink_struct) option" where
  "mp1_ioctl_find user f = do {
     eax \<leftarrow> mp1_find_helper (ucast (location user)) f;
     case eax of None \<Rightarrow> Some (-1, user) | Some p \<Rightarrow> Some (0, blink_array f ! p)
   }"

text \<open>The argument is a number (\<open>arg\<close>) or the address of a structure (which holds \<open>user\<close>); there is
  no check of the command.\<close>

definition mp1_ioctl :: "u32 \<Rightarrow> mp1_blink_struct \<Rightarrow> u32 \<Rightarrow> fish \<Rightarrow> (int \<times> mp1_blink_struct \<times> fish) option" where
  "mp1_ioctl arg user cmd f =
    (if cmd = 0 then case mp1_ioctl_add user f of (r, f) \<Rightarrow> Some (r, user, f)
     else if cmd = 1 then do { (r, f) \<leftarrow> mp1_ioctl_remove arg f; Some (r, user, f) }
     else if cmd = 2 then do { (r, user) \<leftarrow> mp1_ioctl_find user f; Some (r, user, f) }
     else if cmd = 3 then do { (r, f) \<leftarrow> mp1_ioctl_sync arg f; Some (r, user, f) }
     else None)"

text \<open>\<^verbatim>\<open>main\<close> clears the array first; the list head is statically NULL.\<close>

definition fish_start :: "(nat \<Rightarrow> byte) \<Rightarrow> fish" where
  "fish_start v = \<lparr>blink_array = replicate BLINK_MAX blank_blink, mp1_list_head = None, vmem = v\<rparr>"

section \<open>The list in the array\<close>

primrec chain :: "mp1_blink_struct list \<Rightarrow> nat option \<Rightarrow> nat list \<Rightarrow> nat option \<Rightarrow> bool" where
  "chain a x [] y \<longleftrightarrow> x = y"
| "chain a x (p # ps) y \<longleftrightarrow> x = Some p \<and> chain a (nxt (a ! p)) ps y"

lemma chain_append: "chain a x (ps @ qs) y \<longleftrightarrow> (\<exists>z. chain a x ps z \<and> chain a z qs y)"
  by (induction ps arbitrary: x) auto

lemma chain_cong: "(\<And>p. p \<in> set ps \<Longrightarrow> nxt (a' ! p) = nxt (a ! p)) \<Longrightarrow> chain a' x ps y = chain a x ps y"
  by (induction ps arbitrary: x) auto

lemma chain_None [simp]: "chain a None ps None \<longleftrightarrow> ps = []"
  by (cases ps) auto

lemma chain_unique: "chain a x ps None \<Longrightarrow> chain a x qs None \<Longrightarrow> ps = qs"
proof (induction ps arbitrary: x qs)
  case (Cons p ps)
  then show ?case by (cases qs) auto
qed simp

text \<open>
  The representation invariant: the list passes through distinct structures of the array and ends,
  and these are the structures with a location other than 0, which is what the allocator takes
  for free.
\<close>

definition blink_rep :: "fish \<Rightarrow> nat list \<Rightarrow> bool" where
  "blink_rep f ps \<longleftrightarrow> length (blink_array f) = BLINK_MAX \<and> chain (blink_array f) (mp1_list_head f) ps None \<and> distinct ps
     \<and> (\<forall>p < BLINK_MAX. location (blink_array f ! p) \<noteq> 0 \<longleftrightarrow> p \<in> set ps)
     \<and> (\<forall>p \<in> set ps. p < BLINK_MAX \<and> location (blink_array f ! p) < 2000)"

text \<open>What the list holds: the structures without their links, newest first.\<close>

definition item :: "mp1_blink_struct \<Rightarrow> mp1_blink_struct" where
  "item b = b\<lparr>nxt := None\<rparr>"

definition items :: "fish \<Rightarrow> nat list \<Rightarrow> mp1_blink_struct list" where
  "items f ps = map (\<lambda>p. item (blink_array f ! p)) ps"

lemma item_sel [simp]:
  "location (item b) = location b" "on_char (item b) = on_char b" "off_char (item b) = off_char b" "on_length (item b) = on_length b"
  "off_length (item b) = off_length b" "countdown (item b) = countdown b" "status (item b) = status b" "nxt (item b) = None"
  by (simp_all add: item_def)

lemma put_blink_sel [simp]:
  "blink_array (put_blink p b f) = (blink_array f)[p := b]" "mp1_list_head (put_blink p b f) = mp1_list_head f"
  "vmem (put_blink p b f) = vmem f"
  by (simp_all add: put_blink_def)

lemma mp1_poke_sel [simp]:
  "blink_array (mp1_poke c i f) = blink_array f" "mp1_list_head (mp1_poke c i f) = mp1_list_head f"
  "vmem (mp1_poke c i f) = (vmem f)(i := c)"
  by (simp_all add: mp1_poke_def)

lemma poke_rep [simp]: "blink_rep (mp1_poke c i f) ps = blink_rep f ps" "items (mp1_poke c i f) ps = items f ps"
  by (simp_all add: blink_rep_def items_def)

lemma fish_start_rep: "blink_rep (fish_start v) []"
  by (simp add: blink_rep_def fish_start_def blank_blink_def)

section \<open>Allocation and adding\<close>

lemma malloc_loop_Some: "malloc_loop bs i = Some p \<Longrightarrow> i \<le> p \<and> p < i + length bs \<and> location (bs ! (p - i)) = 0"
proof (induction bs i rule: malloc_loop.induct)
  case (2 b bs i)
  then show ?case by (cases "location b = 0") (auto simp: nth_Cons' le_Suc_eq)
qed simp

lemma malloc_loop_None: "malloc_loop bs i = None \<longleftrightarrow> (\<forall>b \<in> set bs. location b \<noteq> 0)"
  by (induction bs i rule: malloc_loop.induct) auto

lemma rep_length: "blink_rep f ps \<Longrightarrow> length ps \<le> BLINK_MAX"
  using distinct_card [of ps] card_mono [of "{..<BLINK_MAX}" "set ps"] by (auto simp: blink_rep_def subset_iff)

lemma malloc_full:
  assumes "blink_rep f ps"
  shows "mp1_malloc f = None \<longleftrightarrow> length ps = BLINK_MAX"
proof -
  have l: "length (blink_array f) = BLINK_MAX" "distinct ps" "set ps \<subseteq> {..<BLINK_MAX}"
    "\<And>p. p < BLINK_MAX \<Longrightarrow> location (blink_array f ! p) \<noteq> 0 \<longleftrightarrow> p \<in> set ps"
    using assms by (auto simp: blink_rep_def)
  have "mp1_malloc f = None \<longleftrightarrow> (\<forall>p < BLINK_MAX. p \<in> set ps)"
    using l(1,4) by (simp add: mp1_malloc_def malloc_loop_None all_set_conv_all_nth)
  also have "\<dots> \<longleftrightarrow> set ps = {..<BLINK_MAX}" using l(3) by auto
  also have "\<dots> \<longleftrightarrow> length ps = BLINK_MAX"
    by (metis distinct_card [OF l(2)] card_subset_eq [OF finite_lessThan l(3)] card_lessThan)
  finally show ?thesis .
qed

lemma malloc_free:
  assumes "blink_rep f ps" "mp1_malloc f = Some p"
  shows "p < BLINK_MAX" "p \<notin> set ps"
  using malloc_loop_Some [of "take BLINK_MAX (blink_array f)" 0 p] assms by (auto simp: mp1_malloc_def blink_rep_def)

definition added :: "mp1_blink_struct \<Rightarrow> mp1_blink_struct" where
  "added b = b\<lparr>status := 1, countdown := on_length b, nxt := None\<rparr>"

lemma nth_update_notin: "q \<in> set ps \<Longrightarrow> p \<notin> set ps \<Longrightarrow> a[p := b] ! q = a ! q"
  by (metis nth_list_update_neq)

lemma items_put: "p \<notin> set ps \<Longrightarrow> items (put_blink p b f) ps = items f ps"
  by (simp add: items_def nth_update_notin)

lemma add_refused: "location b \<ge> 2000 \<or> (blink_rep f ps \<and> length ps = BLINK_MAX) \<Longrightarrow> mp1_ioctl_add b f = (-1, f)"
  using malloc_full [of f ps] by (auto simp: mp1_ioctl_add_def Let_def split: option.split)

lemma add_accepted:
  assumes "blink_rep f ps" "location b \<noteq> 0" "location b < 2000" "length ps \<noteq> BLINK_MAX"
  shows "\<exists>p f'. mp1_ioctl_add b f = (0, f') \<and> blink_rep f' (p # ps) \<and> items f' (p # ps) = added b # items f ps
     \<and> vmem f' = (vmem f)(2 * unat (location b) := on_char b)"
proof -
  obtain p where p: "mp1_malloc f = Some p" using assms(1,4) malloc_full by blast
  note q = malloc_free [OF assms(1) p]
  let ?b = "b\<lparr>status := 1, countdown := on_length b, nxt := mp1_list_head f\<rparr>"
  define f' where "f' = mp1_poke (on_char b) (2 * unat (location b)) ((put_blink p ?b f)\<lparr>mp1_list_head := Some p\<rparr>)"
  have e: "mp1_ioctl_add b f = (0, f')" using assms(3) p by (simp add: mp1_ioctl_add_def f'_def Let_def not_le)
  have a: "blink_array f' = (blink_array f)[p := ?b]" "mp1_list_head f' = Some p" "length (blink_array f) = BLINK_MAX"
      "vmem f' = (vmem f)(2 * unat (location b) := on_char b)"
    using assms(1) by (simp_all add: f'_def blink_rep_def mp1_poke_def)
  have "chain (blink_array f') (mp1_list_head f) ps None"
    using assms(1) q(2) chain_cong [of ps "blink_array f'" "blink_array f"] by (simp add: a blink_rep_def nth_update_notin)
  then have c: "chain (blink_array f') (mp1_list_head f') (p # ps) None" using q(1) by (simp add: a)
  have "location (blink_array f' ! r) \<noteq> 0 \<longleftrightarrow> r \<in> set (p # ps)" if "r < BLINK_MAX" for r
    using assms(1,2) q that by (cases "r = p") (simp_all add: a blink_rep_def)
  moreover have "r < BLINK_MAX \<and> location (blink_array f' ! r) < 2000" if "r \<in> set (p # ps)" for r
    using assms(1,3) q that by (cases "r = p") (simp_all add: a blink_rep_def)
  ultimately have "blink_rep f' (p # ps)" using c assms(1) q(2) unfolding blink_rep_def by (simp add: a(1))
  moreover have "items f' (p # ps) = added b # items f ps"
    using q a by (simp add: items_def item_def added_def nth_update_notin)
  ultimately show ?thesis using e a(4) by blast
qed

section \<open>Searching, removing, synchronising\<close>

lemma find_loop_chain: "chain (blink_array f) x ps None \<Longrightarrow> find_loop ax x f = Some (find (\<lambda>p. location (blink_array f ! p) = ax) ps)"
proof (induction ps arbitrary: x)
  case (Cons p ps)
  then show ?case by (subst find_loop.simps) auto
qed (subst find_loop.simps, simp)

lemma find_helper_rep:
  "blink_rep f ps \<Longrightarrow> mp1_find_helper arg f = Some (find (\<lambda>p. location (blink_array f ! p) = ucast arg) ps)"
  by (simp add: mp1_find_helper_def find_loop_chain blink_rep_def)

lemma find_prev_chain:
  assumes "chain (blink_array f) (deref l f) (qs @ p # rs) None" "p \<notin> set qs"
  shows "find_prev p l f = Some (if qs = [] then l else Next_of (last qs))"
  using assms
proof (induction qs arbitrary: l)
  case Nil
  then show ?case by (subst find_prev.simps) simp
next
  case (Cons q qs)
  then have "deref l f = Some q" "q \<noteq> p" "chain (blink_array f) (deref (Next_of q) f) (qs @ p # rs) None" by auto
  with Cons show ?case by (subst find_prev.simps) auto
qed

text \<open>Linking a structure out of the list: its predecessor takes its next field.\<close>

lemma unlink_chain:
  assumes "chain a x (qs @ p # rs) None" "distinct (qs @ p # rs)" "\<forall>q \<in> set qs. q < length a" "qs \<noteq> []"
  shows "chain (a[last qs := (a ! last qs)\<lparr>nxt := nxt (a ! p)\<rparr>, p := b]) x (qs @ rs) None"
proof -
  let ?a = "a[last qs := (a ! last qs)\<lparr>nxt := nxt (a ! p)\<rparr>, p := b]"
  obtain ks q where qs: "qs = ks @ [q]" using assms(4) by (cases qs rule: rev_cases) auto
  have c: "chain a x ks (Some q)" "nxt (a ! q) = Some p" "chain a (nxt (a ! p)) rs None" using assms(1) qs by (auto simp: chain_append)
  have d: "q \<notin> set ks" "p \<notin> set ks" "q \<notin> set rs" "p \<notin> set rs" "q \<noteq> p" "q < length a" using assms(2,3) qs by auto
  have "nxt (?a ! r) = nxt (a ! r)" if "r \<in> set ks \<or> r \<in> set rs" for r using that d qs by (auto simp: nth_update_notin)
  then have "chain ?a x ks (Some q)" "chain ?a (nxt (a ! p)) rs None"
    using c(1,3) chain_cong [of ks ?a a x "Some q"] chain_cong [of rs ?a a "nxt (a ! p)" None] by auto
  moreover have "nxt (?a ! q) = nxt (a ! p)" using d qs by simp
  ultimately show ?thesis using qs by (auto simp: chain_append)
qed

definition drop_first :: "('a \<Rightarrow> bool) \<Rightarrow> 'a list \<Rightarrow> 'a list" where
  "drop_first P xs = takeWhile (\<lambda>x. \<not> P x) xs @ tl (dropWhile (\<lambda>x. \<not> P x) xs)"

lemma drop_first_split: "\<forall>x \<in> set qs. \<not> P x \<Longrightarrow> P p \<Longrightarrow> drop_first P (qs @ p # rs) = qs @ rs"
  by (simp add: drop_first_def takeWhile_append2 dropWhile_append2)

lemma drop_first_none: "\<forall>x \<in> set xs. \<not> P x \<Longrightarrow> drop_first P xs = xs"
  by (simp add: drop_first_def takeWhile_eq_all_conv [THEN iffD2] dropWhile_eq_Nil_conv [THEN iffD2])

lemma find_split: "find P xs = Some p \<Longrightarrow> \<exists>qs rs. xs = qs @ p # rs \<and> P p \<and> (\<forall>x \<in> set qs. \<not> P x)"
proof (induction xs)
  case (Cons x xs)
  show ?case
  proof (cases "P x")
    case True
    with Cons.prems show ?thesis by (intro exI [of _ "[]"] exI [of _ xs]) auto
  next
    case False
    with Cons obtain qs rs where "xs = qs @ p # rs" "P p" "\<forall>x \<in> set qs. \<not> P x" by auto
    with False show ?thesis by (intro exI [of _ "x # qs"] exI [of _ rs]) auto
  qed
qed simp

lemma items_drop_first:
  assumes "ps = qs @ p # rs" "location (blink_array f ! p) = l" "\<forall>q \<in> set qs. location (blink_array f ! q) \<noteq> l"
  shows "drop_first (\<lambda>b. location b = l) (items f ps) = items f (qs @ rs)"
  using assms drop_first_split [of "items f qs" "\<lambda>b. location b = l" "item (blink_array f ! p)" "items f rs"]
  by (auto simp: items_def)

lemma remove_found:
  assumes "blink_rep f (qs @ p # rs)" "find_prev p Head f = Some l" "l = (if qs = [] then Head else Next_of (last qs))"
  defines "f' \<equiv> mp1_free p (set_link l (nxt (blink_array f ! p)) f)"
  shows "blink_rep f' (qs @ rs)" "items f' (qs @ rs) = items f (qs @ rs)" "vmem f' = vmem f"
proof -
  let ?a = "blink_array f"
  have r: "length ?a = BLINK_MAX" "chain ?a (mp1_list_head f) (qs @ p # rs) None" "distinct (qs @ p # rs)"
      "\<And>r. r < BLINK_MAX \<Longrightarrow> location (?a ! r) \<noteq> 0 \<longleftrightarrow> r \<in> set (qs @ p # rs)"
      "\<And>r. r \<in> set (qs @ p # rs) \<Longrightarrow> r < BLINK_MAX \<and> location (?a ! r) < 2000"
    using assms(1) unfolding blink_rep_def by blast+
  have p: "p < BLINK_MAX" "p \<notin> set (qs @ rs)" using r(3,5) by auto
  have i: "item (blink_array f' ! r) = (if r = p then item blank_blink else item (?a ! r))" if "r < BLINK_MAX" for r
    using that r(1) p(1) by (cases "qs = []"; cases "r = p"; cases "r = last qs")
      (simp_all add: f'_def assms(3) mp1_free_def item_def)
  have b: "location (blink_array f' ! r) = (if r = p then 0 else location (?a ! r))" if "r < BLINK_MAX" for r
    using arg_cong [OF i [OF that], of location] by (simp add: blank_blink_def split: if_splits)
  have "chain (blink_array f') (mp1_list_head f') (qs @ rs) None"
  proof (cases "qs = []")
    case True
    then have "chain ?a (nxt (?a ! p)) rs None" using r(2) by simp
    with True show ?thesis
      using p(2) chain_cong [of rs "?a[p := blank_blink]" ?a] by (simp add: f'_def assms(3) mp1_free_def nth_update_notin)
  next
    case False
    have "\<forall>q \<in> set qs. q < length ?a" using r(1,5) by auto
    from unlink_chain [OF r(2,3) this False] False show ?thesis by (simp add: f'_def assms(3) mp1_free_def)
  qed
  moreover have "length (blink_array f') = BLINK_MAX" using r(1) by (cases "qs = []") (simp_all add: f'_def assms(3) mp1_free_def)
  ultimately show "blink_rep f' (qs @ rs)" using r(3,4,5) b p unfolding blink_rep_def by auto
  show "items f' (qs @ rs) = items f (qs @ rs)" unfolding items_def
  proof (rule map_cong [OF refl])
    fix q assume "q \<in> set (qs @ rs)"
    with r(5) [of q] p(2) i [of q] show "item (blink_array f' ! q) = item (?a ! q)" by auto
  qed
  show "vmem f' = vmem f" by (simp add: f'_def assms(3) mp1_free_def)
qed

lemma remove_rep:
  assumes "blink_rep f ps"
  shows "\<exists>r f' ps'. mp1_ioctl_remove arg f = Some (r, f') \<and> blink_rep f' ps' \<and> vmem f' = vmem f
     \<and> items f' ps' = drop_first (\<lambda>b. location b = ucast arg) (items f ps)
     \<and> r = (if \<exists>b \<in> set (items f ps). location b = ucast arg then 0 else -1)"
proof (cases "find (\<lambda>p. location (blink_array f ! p) = ucast arg) ps")
  case None
  then have n: "\<forall>p \<in> set ps. location (blink_array f ! p) \<noteq> ucast arg" by (simp add: find_None_iff)
  then have "drop_first (\<lambda>b. location b = ucast arg) (items f ps) = items f ps"
    by (intro drop_first_none) (auto simp: items_def)
  moreover have "mp1_ioctl_remove arg f = Some (-1, f)" by (simp add: mp1_ioctl_remove_def find_helper_rep [OF assms] None)
  ultimately show ?thesis using assms n by (auto simp: items_def)
next
  case (Some p)
  obtain qs rs where s: "ps = qs @ p # rs" "location (blink_array f ! p) = ucast arg" "\<forall>q \<in> set qs. location (blink_array f ! q) \<noteq> ucast arg"
    using find_split [OF Some] by auto
  let ?l = "if qs = [] then Head else Next_of (last qs)"
  have fp: "find_prev p Head f = Some ?l"
    using assms s(1) by (intro find_prev_chain) (auto simp: blink_rep_def)
  note r = remove_found [OF assms [unfolded s(1)] fp refl]
  have "mp1_ioctl_remove arg f = Some (0, mp1_free p (set_link ?l (nxt (blink_array f ! p)) f))"
    by (simp add: mp1_ioctl_remove_def find_helper_rep [OF assms] Some fp)
  moreover have "\<exists>b \<in> set (items f ps). location b = ucast arg" using s(1,2) by (auto simp: items_def)
  ultimately show ?thesis using r items_drop_first [OF s] by auto
qed

text \<open>Synchronising copies the lengths, the countdown and the state; the link and the place stay.\<close>

definition synced :: "mp1_blink_struct \<Rightarrow> mp1_blink_struct \<Rightarrow> mp1_blink_struct" where
  "synced a b = b\<lparr>on_length := on_length a, off_length := off_length a, countdown := countdown a, status := status a\<rparr>"

definition update_first :: "('a \<Rightarrow> bool) \<Rightarrow> ('a \<Rightarrow> 'a) \<Rightarrow> 'a list \<Rightarrow> 'a list" where
  "update_first P g xs = takeWhile (\<lambda>x. \<not> P x) xs @ (case dropWhile (\<lambda>x. \<not> P x) xs of [] \<Rightarrow> [] | x # ys \<Rightarrow> g x # ys)"

lemma update_first_split: "\<forall>x \<in> set qs. \<not> P x \<Longrightarrow> P p \<Longrightarrow> update_first P g (qs @ p # rs) = qs @ g p # rs"
  by (simp add: update_first_def takeWhile_append2 dropWhile_append2)

lemma sync_char_off: "sync_char b = off_char b"
  by (simp add: sync_char_def Let_def bit_simps)

lemma put_same_place:
  assumes "blink_rep f (qs @ p # rs)" "nxt b = nxt (blink_array f ! p)" "location b = location (blink_array f ! p)"
  shows "blink_rep (put_blink p b f) (qs @ p # rs)" "items (put_blink p b f) (qs @ p # rs) = items f qs @ item b # items f rs"
proof -
  let ?a = "blink_array f" and ?ps = "qs @ p # rs"
  have r: "length ?a = BLINK_MAX" "chain ?a (mp1_list_head f) ?ps None" "distinct ?ps" "p < BLINK_MAX"
    using assms(1) unfolding blink_rep_def by auto
  have e: "nxt (?a[p := b] ! q) = nxt (?a ! q)" "location (?a[p := b] ! q) = location (?a ! q)" for q
    using assms(2,3) r(1,4) by (cases "q = p"; simp)+
  then have "chain (?a[p := b]) (mp1_list_head f) ?ps None" using r(2) chain_cong [of ?ps "?a[p := b]" ?a] by simp
  then show "blink_rep (put_blink p b f) ?ps" using assms(1) e(2) by (simp add: blink_rep_def)
  have "p \<notin> set qs" "p \<notin> set rs" using r(3) by auto
  then show "items (put_blink p b f) ?ps = items f qs @ item b # items f rs"
    using items_put [of p qs b f] items_put [of p rs b f] r(1,4) by (simp add: items_def)
qed

lemma item_synced: "item (synced a b) = synced (item a) (item b)"
  by (simp add: synced_def item_def)

lemma find_items: "map_option (\<lambda>p. item (blink_array f ! p)) (find (\<lambda>p. location (blink_array f ! p) = l) ps) = find (\<lambda>b. location b = l) (items f ps)"
  by (induction ps) (simp_all add: items_def)

lemma sync_found:
  assumes "blink_rep f ps" "find (\<lambda>b. location b = ucast (drop_bit 16 arg)) (items f ps) = Some a"
    and "find (\<lambda>b. location b = ucast (arg AND 0xFFFF)) (items f ps) = Some b"
  shows "\<exists>f'. mp1_ioctl_sync arg f = Some (0, f') \<and> blink_rep f' ps \<and> vmem f' = (vmem f)(2 * unat (location b) := off_char b)
     \<and> items f' ps = update_first (\<lambda>b. location b = ucast (arg AND 0xFFFF)) (synced a) (items f ps)"
proof -
  let ?lo = "ucast (arg AND 0xFFFF) :: u16" and ?a = "blink_array f"
  obtain q where q: "find (\<lambda>p. location (?a ! p) = ucast (drop_bit 16 arg)) ps = Some q" "a = item (?a ! q)"
    using assms(2) by (auto simp: find_items [symmetric])
  obtain p where p: "find (\<lambda>p. location (?a ! p) = ?lo) ps = Some p" "b = item (?a ! p)"
    using assms(3) by (auto simp: find_items [symmetric])
  obtain qs rs where s: "ps = qs @ p # rs" "location (?a ! p) = ?lo" "\<forall>x \<in> set qs. location (?a ! x) \<noteq> ?lo"
    using find_split [OF p(1)] by auto
  let ?b = "synced (?a ! q) (?a ! p)"
  define f' where "f' = mp1_poke (off_char b) (2 * unat (location b)) (put_blink p ?b f)"
  have e: "mp1_ioctl_sync arg f = Some (0, f')"
    by (simp add: mp1_ioctl_sync_def find_helper_rep [OF assms(1)] q(1) p Let_def sync_char_off f'_def synced_def)
  have "nxt ?b = nxt (?a ! p)" "location ?b = location (?a ! p)" by (simp_all add: synced_def)
  note r = put_same_place [OF assms(1) [unfolded s(1)] this]
  have "update_first (\<lambda>b. location b = ?lo) (synced a) (items f qs @ item (?a ! p) # items f rs) = items f qs @ synced a (item (?a ! p)) # items f rs"
    using s(2,3) by (intro update_first_split) (auto simp: items_def)
  then have "items f' ps = update_first (\<lambda>b. location b = ?lo) (synced a) (items f ps)"
    using r(2) q(2) unfolding f'_def s(1) by (simp add: items_def item_synced)
  moreover have "blink_rep f' ps" using r(1) by (simp add: f'_def s(1))
  ultimately show ?thesis using e by (auto simp: f'_def)
qed

section \<open>The clock tick\<close>

text \<open>One tick of one blinking character, and what it writes on the screen.\<close>

definition tick :: "mp1_blink_struct \<Rightarrow> mp1_blink_struct" where
  "tick b = (if 0 <s countdown b - 1 then b\<lparr>countdown := countdown b - 1\<rparr>
     else b\<lparr>countdown := (if status b AND 1 \<noteq> 0 then off_length b else on_length b), status := status b XOR 1\<rparr>)"

definition tick_screen :: "mp1_blink_struct \<Rightarrow> (nat \<Rightarrow> byte) \<Rightarrow> nat \<Rightarrow> byte" where
  "tick_screen b v = (if 0 <s countdown b - 1 then v
     else v(2 * unat (location b) := if status b AND 1 \<noteq> 0 then off_char b else on_char b))"

lemma tick_sel [simp]:
  "location (tick b) = location b" "on_char (tick b) = on_char b" "off_char (tick b) = off_char b" "on_length (tick b) = on_length b"
  "off_length (tick b) = off_length b" "nxt (tick b) = nxt b"
  by (simp_all add: tick_def)

lemma item_tick: "item (tick b) = tick (item b)"
  by (simp add: item_def tick_def)

lemma tick_screen_item [simp]: "tick_screen (item b) = tick_screen b"
  by (simp add: tick_screen_def fun_eq_iff)

lemma tasklet_item_eq:
  assumes "p < length (blink_array f)"
  shows "blink_array (tasklet_item p f) = (blink_array f)[p := tick (blink_array f ! p)]"
    "mp1_list_head (tasklet_item p f) = mp1_list_head f" "vmem (tasklet_item p f) = tick_screen (blink_array f ! p) (vmem f)"
  using assms by (simp_all add: tasklet_item_def Let_def tick_def tick_screen_def split: if_splits)

lemma tasklet_loop_chain:
  assumes "chain (blink_array f) x ps None" "distinct ps" "\<forall>p \<in> set ps. p < length (blink_array f)"
  shows "\<exists>f'. tasklet_loop x f = Some f' \<and> length (blink_array f') = length (blink_array f) \<and> mp1_list_head f' = mp1_list_head f
     \<and> (\<forall>p. blink_array f' ! p = (if p \<in> set ps then tick (blink_array f ! p) else blink_array f ! p))
     \<and> vmem f' = fold tick_screen (items f ps) (vmem f)"
  using assms
proof (induction ps arbitrary: x f)
  case Nil
  then show ?case by (subst tasklet_loop.simps) (simp add: items_def)
next
  case (Cons p ps)
  let ?f = "tasklet_item p f"
  have p: "p < length (blink_array f)" "p \<notin> set ps" "x = Some p" using Cons.prems by auto
  note e = tasklet_item_eq [OF p(1)]
  have n: "nxt (blink_array ?f ! p) = nxt (blink_array f ! p)" using p(1) by (simp add: e)
  have "chain (blink_array ?f) (nxt (blink_array f ! p)) ps None"
    using Cons.prems(1) chain_cong [of ps "blink_array ?f" "blink_array f"] p(2) by (simp add: e nth_update_notin)
  moreover have "\<forall>q \<in> set ps. q < length (blink_array ?f)" using Cons.prems(3) by (simp add: e)
  moreover have "distinct ps" using Cons.prems(2) by simp
  ultimately obtain f' where f': "tasklet_loop (nxt (blink_array f ! p)) ?f = Some f'" "length (blink_array f') = length (blink_array ?f)"
      "mp1_list_head f' = mp1_list_head ?f" "\<forall>q. blink_array f' ! q = (if q \<in> set ps then tick (blink_array ?f ! q) else blink_array ?f ! q)"
      "vmem f' = fold tick_screen (items ?f ps) (vmem ?f)"
    using Cons.IH [of ?f "nxt (blink_array f ! p)"] by blast
  have "tasklet_loop x f = Some f'" using f'(1) n p(3) by (subst tasklet_loop.simps) (simp add: Let_def)
  moreover have "blink_array f' ! q = (if q \<in> set (p # ps) then tick (blink_array f ! q) else blink_array f ! q)" for q
    using f'(4) p by (cases "q = p") (simp_all add: e nth_update_notin)
  moreover have "items ?f ps = items f ps" using p(2) by (simp add: items_def e nth_update_notin)
  then have "vmem f' = fold tick_screen (items f (p # ps)) (vmem f)" using f'(5) by (simp only: e items_def list.map fold_simps tick_screen_item)
  ultimately show ?case using f'(2,3) by (auto simp: e)
qed

lemma tasklet_rep:
  assumes "blink_rep f ps"
  shows "\<exists>f'. mp1_rtc_tasklet f = Some f' \<and> blink_rep f' ps \<and> items f' ps = map tick (items f ps)
     \<and> vmem f' = fold tick_screen (items f ps) (vmem f)"
proof -
  let ?a = "blink_array f"
  have r: "length ?a = BLINK_MAX" "chain ?a (mp1_list_head f) ps None" "distinct ps" "\<forall>p \<in> set ps. p < length ?a"
    using assms unfolding blink_rep_def by auto
  obtain f' where f': "mp1_rtc_tasklet f = Some f'" "length (blink_array f') = length ?a" "mp1_list_head f' = mp1_list_head f"
      "\<forall>p. blink_array f' ! p = (if p \<in> set ps then tick (?a ! p) else ?a ! p)" "vmem f' = fold tick_screen (items f ps) (vmem f)"
    using tasklet_loop_chain [OF r(2-4)] by (auto simp: mp1_rtc_tasklet_def)
  have "chain (blink_array f') (mp1_list_head f') ps None"
    using r(2) chain_cong [of ps "blink_array f'" ?a] f'(3,4) by simp
  then have "blink_rep f' ps" using assms f'(2,4) unfolding blink_rep_def by auto
  moreover have "items f' ps = map tick (items f ps)" using f'(4) by (simp add: items_def item_tick)
  ultimately show ?thesis using f'(1,5) by blast
qed

section \<open>Blinking\<close>

fun repeat_opt :: "nat \<Rightarrow> ('f \<Rightarrow> 'f option) \<Rightarrow> 'f \<Rightarrow> 'f option" where
  "repeat_opt 0 step f = Some f"
| "repeat_opt (Suc n) step f = do { f \<leftarrow> repeat_opt n step f; step f }"

text \<open>The state of a character \<open>n\<close> ticks after it was added: where it is in its period.\<close>

definition phase :: "nat \<Rightarrow> mp1_blink_struct \<Rightarrow> mp1_blink_struct" where
  "phase n b = (let on = unat (on_length b); r = n mod (on + unat (off_length b))
     in if r < on then b\<lparr>status := 1, countdown := of_nat (on - r)\<rparr>
        else b\<lparr>status := 0, countdown := of_nat (on + unat (off_length b) - r)\<rparr>)"

definition shown :: "nat \<Rightarrow> mp1_blink_struct \<Rightarrow> byte" where
  "shown n b = (if n mod (unat (on_length b) + unat (off_length b)) < unat (on_length b) then on_char b else off_char b)"

lemma signed_pos_pred:
  assumes "1 \<le> k" "k < 32768"
  shows "0 <s (of_nat k - 1 :: u16) \<longleftrightarrow> 1 < k"
proof -
  obtain j where j: "k = Suc j" using assms(1) by (cases k) auto
  have "sint (of_nat j :: u16) = int j" using assms(2) j by (simp add: signed_of_nat signed_take_bit_int_eq_self)
  then show ?thesis by (simp add: word_sless_alt j)
qed

definition well_timed :: "mp1_blink_struct \<Rightarrow> bool" where
  "well_timed b \<longleftrightarrow> 0 < on_length b \<and> on_length b < 32768 \<and> 0 < off_length b \<and> off_length b < 32768"

lemma tick_phase:
  assumes "well_timed b"
  shows "tick (phase n b) = phase (Suc n) b"
    "v (2 * unat (location b)) = shown n b \<Longrightarrow> tick_screen (phase n b) v (2 * unat (location b)) = shown (Suc n) b"
proof -
  let ?on = "unat (on_length b)" and ?off = "unat (off_length b)"
  define r where "r = n mod (?on + ?off)"
  have l: "0 < ?on" "?on < 32768" "0 < ?off" "?off < 32768" using assms by (simp_all add: well_timed_def word_less_nat_alt unat_gt_0)
  have r: "r < ?on + ?off" using l by (simp add: r_def)
  have s: "Suc n mod (?on + ?off) = (if Suc r = ?on + ?off then 0 else Suc r)" by (simp add: r_def mod_Suc)
  consider (on) "Suc r < ?on" | (flip) "Suc r = ?on" | (off) "?on \<le> r" "Suc r < ?on + ?off" | (wrap) "Suc r = ?on + ?off"
    using r by linarith
  then have "tick (phase n b) = phase (Suc n) b \<and> (v (2 * unat (location b)) = shown n b \<longrightarrow>
      tick_screen (phase n b) v (2 * unat (location b)) = shown (Suc n) b)"
  proof cases
    case on
    then have "0 <s (of_nat (?on - r) - 1 :: u16)" "(of_nat (?on - r) - 1 :: u16) = of_nat (?on - Suc r)"
      using l signed_pos_pred [of "?on - r"] by (simp_all add: of_nat_diff)
    with on r show ?thesis by (simp add: phase_def shown_def tick_def tick_screen_def Let_def s flip: r_def)
  next
    case flip
    then have "?on - r = 1" by simp
    with flip l r show ?thesis by (simp add: phase_def shown_def tick_def tick_screen_def Let_def s flip: r_def)
  next
    case off
    then have "0 <s (of_nat (?on + ?off - r) - 1 :: u16)" "(of_nat (?on + ?off - r) - 1 :: u16) = of_nat (?on + ?off - Suc r)"
      using l signed_pos_pred [of "?on + ?off - r"] by (simp_all add: of_nat_diff)
    with off r show ?thesis by (simp add: phase_def shown_def tick_def tick_screen_def Let_def s flip: r_def)
  next
    case wrap
    then have "?on + ?off - r = 1" by simp
    with wrap l r show ?thesis by (simp add: phase_def shown_def tick_def tick_screen_def Let_def s flip: r_def)
  qed
  then show "tick (phase n b) = phase (Suc n) b"
    "v (2 * unat (location b)) = shown n b \<Longrightarrow> tick_screen (phase n b) v (2 * unat (location b)) = shown (Suc n) b" by simp_all
qed

lemma tick_screen_other: "i \<noteq> 2 * unat (location b) \<Longrightarrow> tick_screen b v i = v i"
  by (simp add: tick_screen_def)

lemma tick_screens_other: "\<forall>b \<in> set xs. i \<noteq> 2 * unat (location b) \<Longrightarrow> fold tick_screen xs v i = v i"
  by (induction xs arbitrary: v) (simp_all add: tick_screen_other)

lemma ticks_pow_sel [simp]: "location ((tick ^^ n) b) = location b"
  by (induction n) simp_all

text \<open>
  What the fish program relies on: the engine keeps the characters that were added, newest first,
  and a tick moves all of them on.
\<close>

locale blink_engine =
  fixes rep :: "'f \<Rightarrow> mp1_blink_struct list \<Rightarrow> bool"
    and add :: "mp1_blink_struct \<Rightarrow> 'f \<Rightarrow> int \<times> 'f"
    and step :: "'f \<Rightarrow> 'f option"
    and screen :: "'f \<Rightarrow> nat \<Rightarrow> byte"
  assumes add_law: "rep f xs \<Longrightarrow> location b \<noteq> 0 \<Longrightarrow> location b < 2000 \<Longrightarrow> length xs < 2000 \<Longrightarrow>
      \<exists>f'. add b f = (0, f') \<and> rep f' (added b # xs) \<and> screen f' = (screen f)(2 * unat (location b) := on_char b)"
    and step_law: "rep f xs \<Longrightarrow> \<exists>f'. step f = Some f' \<and> rep f' (map tick xs) \<and> screen f' = fold tick_screen xs (screen f)"
begin

lemma steps_return: "rep f xs \<Longrightarrow> \<exists>f'. repeat_opt n step f = Some f' \<and> rep f' (map (tick ^^ n) xs)"
proof (induction n)
  case (Suc n)
  then obtain g where "repeat_opt n step f = Some g" "rep g (map (tick ^^ n) xs)" by blast
  with step_law [of g] show ?case by (fastforce simp: comp_def)
qed simp

lemma steps_show:
  assumes "rep f (ys @ phase 0 b # zs)" "\<forall>c \<in> set (ys @ zs). location c \<noteq> location b" "screen f (2 * unat (location b)) = shown 0 b"
    and "well_timed b"
  shows "\<exists>f'. repeat_opt n step f = Some f' \<and> rep f' (map (tick ^^ n) ys @ phase n b # map (tick ^^ n) zs)
     \<and> screen f' (2 * unat (location b)) = shown n b"
proof (induction n)
  case 0
  show ?case using assms(1,3) by simp
next
  case (Suc n)
  let ?xs = "map (tick ^^ n) ys @ phase n b # map (tick ^^ n) zs" and ?i = "2 * unat (location b)"
  obtain g where g: "repeat_opt n step f = Some g" "rep g ?xs" "screen g ?i = shown n b" using Suc by blast
  note t = tick_phase [OF assms(4), where n = n]
  obtain f' where f': "step g = Some f'" "rep f' (map tick ?xs)" "screen f' = fold tick_screen ?xs (screen g)"
    using step_law [OF g(2)] by blast
  have "\<forall>c \<in> set (map (tick ^^ n) ys). ?i \<noteq> 2 * unat (location c)" "\<forall>c \<in> set (map (tick ^^ n) zs). ?i \<noteq> 2 * unat (location c)"
    using assms(2) by (auto simp: word_unat_eq_iff)
  note o = tick_screens_other [OF this(1)] tick_screens_other [OF this(2)]
  have "screen f' ?i = shown (Suc n) b" unfolding f'(3) using o t(2) [of "fold tick_screen (map (tick ^^ n) ys) (screen g)"] g(3) by simp
  with g(1) f'(1,2) t(1) show ?case by (auto simp: comp_def)
qed

lemma added_blinks:
  assumes "rep f xs" "length xs < 2000" "0 < location b" "location b < 2000" "\<forall>c \<in> set xs. location c \<noteq> location b"
    and "well_timed b"
  shows "\<exists>g f'. add b f = (0, g) \<and> repeat_opt n step g = Some f' \<and> screen f' (2 * unat (location b)) = shown n b"
proof -
  obtain g where g: "add b f = (0, g)" "rep g (added b # xs)" "screen g = (screen f)(2 * unat (location b) := on_char b)"
    using add_law [OF assms(1), of b] assms(2-4) by (auto simp: word_gt_0)
  let ?b = "b\<lparr>nxt := None\<rparr>"
  have z: "0 < unat (on_length b)" using assms(6) by (simp add: well_timed_def unat_gt_0 word_gt_0)
  then have "added b = phase 0 ?b" "on_char b = shown 0 ?b" by (simp_all add: added_def phase_def shown_def)
  with g(2,3) steps_show [of g "[]" ?b xs n] assms(5,6) obtain f' where "repeat_opt n step g = Some f'" "screen f' (2 * unat (location b)) = shown n ?b"
    by (auto simp: well_timed_def)
  with g(1) show ?thesis by (auto simp: shown_def)
qed

end

definition blinkers :: "fish \<Rightarrow> mp1_blink_struct list \<Rightarrow> bool" where
  "blinkers f xs \<longleftrightarrow> (\<exists>ps. blink_rep f ps \<and> items f ps = xs)"

interpretation blink: blink_engine blinkers mp1_ioctl_add mp1_rtc_tasklet vmem
proof unfold_locales
  fix f xs and b :: mp1_blink_struct assume r: "blinkers f xs" and l: "location b \<noteq> 0" "location b < 2000" "length xs < 2000"
  then obtain ps where ps: "blink_rep f ps" "items f ps = xs" by (auto simp: blinkers_def)
  moreover have "length ps \<noteq> BLINK_MAX" using ps(2) l(3) by (auto simp: items_def)
  ultimately show "\<exists>f'. mp1_ioctl_add b f = (0, f') \<and> blinkers f' (added b # xs) \<and> vmem f' = (vmem f)(2 * unat (location b) := on_char b)"
    using add_accepted [OF ps(1) l(1,2)] unfolding blinkers_def by metis
next
  fix f xs assume "blinkers f xs"
  then show "\<exists>f'. mp1_rtc_tasklet f = Some f' \<and> blinkers f' (map tick xs) \<and> vmem f' = fold tick_screen xs (vmem f)"
    unfolding blinkers_def using tasklet_rep by metis
qed

definition at_place :: "mp1_blink_struct list \<Rightarrow> u16 \<Rightarrow> mp1_blink_struct option" where
  "at_place xs l = find (\<lambda>x. location x = l) xs"

lemma blinkers_find:
  assumes "blinkers f xs"
  shows "\<exists>r. mp1_find_helper arg f = Some r \<and> at_place xs (ucast arg) = map_option (\<lambda>p. item (blink_array f ! p)) r"
  using assms find_items [symmetric] by (auto simp: blinkers_def find_helper_rep at_place_def)

lemma add_refines:
  assumes "blinkers f xs" "location b \<noteq> 0"
  shows "\<exists>r f'. mp1_ioctl_add b f = (r, f') \<and>
      (if location b < 2000 \<and> length xs < BLINK_MAX then r = 0 \<and> blinkers f' (added b # xs) else r = -1 \<and> f' = f)"
proof (cases "location b < 2000 \<and> length xs < BLINK_MAX")
  case True
  then show ?thesis using blink.add_law [OF assms] by fastforce
next
  case False
  obtain ps where ps: "blink_rep f ps" "items f ps = xs" using assms(1) by (auto simp: blinkers_def)
  have "length ps = length xs" "length xs \<le> BLINK_MAX" using ps rep_length [OF ps(1)] by (auto simp: items_def)
  then show ?thesis using add_refused [of b f ps] ps(1) False by (auto simp: not_less)
qed

lemma remove_refines:
  assumes "blinkers f xs"
  shows "\<exists>r f'. mp1_ioctl_remove arg f = Some (r, f') \<and> blinkers f' (drop_first (\<lambda>x. location x = ucast arg) xs) \<and> vmem f' = vmem f
      \<and> r = (if at_place xs (ucast arg) = None then -1 else 0)"
proof -
  obtain ps where ps: "blink_rep f ps" "items f ps = xs" using assms by (auto simp: blinkers_def)
  show ?thesis using remove_rep [OF ps(1), of arg] unfolding ps(2) blinkers_def at_place_def by (auto simp: find_None_iff)
qed

lemma find_refines:
  assumes "blinkers f xs"
  shows "\<exists>r b'. mp1_ioctl_find b f = Some (r, b') \<and>
      (case at_place xs (location b) of None \<Rightarrow> r = -1 \<and> b' = b | Some x \<Rightarrow> r = 0 \<and> item b' = x)"
proof -
  have u: "ucast (ucast (location b) :: u32) = location b" by (rule bit_word_eqI) (auto simp: bit_simps)
  show ?thesis using blinkers_find [OF assms, of "ucast (location b)"]
    by (auto simp: mp1_ioctl_find_def u split: option.splits)
qed

lemma sync_refines:
  assumes "blinkers f xs"
  shows "\<exists>r f'. mp1_ioctl_sync arg f = Some (r, f') \<and>
      (case (at_place xs (ucast (drop_bit 16 arg)), at_place xs (ucast (arg AND 0xFFFF))) of
         (Some x, Some y) \<Rightarrow> r = 0 \<and> blinkers f' (update_first (\<lambda>z. location z = ucast (arg AND 0xFFFF)) (synced x) xs)
       | _ \<Rightarrow> r = -1 \<and> f' = f)"
proof (cases "at_place xs (ucast (drop_bit 16 arg)) = None \<or> at_place xs (ucast (arg AND 0xFFFF)) = None")
  case True
  then show ?thesis using blinkers_find [OF assms, of "drop_bit 16 arg"] blinkers_find [OF assms, of "arg AND 0xFFFF"]
    by (auto simp: mp1_ioctl_sync_def split: option.splits)
next
  case False
  then obtain x y where "at_place xs (ucast (drop_bit 16 arg)) = Some x" "at_place xs (ucast (arg AND 0xFFFF)) = Some y" by auto
  moreover obtain ps where ps: "blink_rep f ps" "items f ps = xs" using assms by (auto simp: blinkers_def)
  ultimately show ?thesis using sync_found [OF ps(1), of arg x y] unfolding at_place_def ps(2) blinkers_def by auto
qed

text \<open>
  C23: the linked list is a list.  On a sound list of characters, adding (at a place other than 0)
  puts the character at the front or is refused, when the place is off the screen or all 2000
  structures are in use; removing takes out the first character at a place; finding returns the
  first character at a place; synchronising gives the first character at the second place the
  lengths and the state of the first at the first place; each operation returns 0 or, when the
  place does not occur, -1 without any change, and leaves a sound list.
\<close>

theorem blink_list_refines:
  assumes "blinkers f xs" "location b \<noteq> 0"
  shows "(\<exists>r f'. mp1_ioctl_add b f = (r, f') \<and>
      (if location b < 2000 \<and> length xs < BLINK_MAX then r = 0 \<and> blinkers f' (added b # xs) else r = -1 \<and> f' = f))
    \<and> (\<exists>r f'. mp1_ioctl_remove arg f = Some (r, f') \<and> blinkers f' (drop_first (\<lambda>x. location x = ucast arg) xs) \<and> vmem f' = vmem f
      \<and> r = (if at_place xs (ucast arg) = None then -1 else 0))
    \<and> (\<exists>r b'. mp1_ioctl_find b f = Some (r, b') \<and>
      (case at_place xs (location b) of None \<Rightarrow> r = -1 \<and> b' = b | Some x \<Rightarrow> r = 0 \<and> item b' = x))
    \<and> (\<exists>r f'. mp1_ioctl_sync arg f = Some (r, f') \<and>
      (case (at_place xs (ucast (drop_bit 16 arg)), at_place xs (ucast (arg AND 0xFFFF))) of
         (Some x, Some y) \<Rightarrow> r = 0 \<and> blinkers f' (update_first (\<lambda>z. location z = ucast (arg AND 0xFFFF)) (synced x) xs)
       | _ \<Rightarrow> r = -1 \<and> f' = f))"
  by (intro conjI add_refines remove_refines find_refines sync_refines assms)

text \<open>
  C24: characters blink.  A character added to a sound list, at a place on the screen other than
  the first and where no other character blinks, with lengths from 1 to 32767, is on the screen at once, and after any number of
  clock ticks the screen shows at its place the character for the "on" state during the first
  \<open>on_length\<close> ticks of each period and the one for the "off" state during the remaining
  \<open>off_length\<close>.  Each tick returns: the walk over the list ends.
\<close>

theorem blinker_blinks:
  assumes "blinkers f xs" "length xs < BLINK_MAX" "0 < location b" "location b < 2000" "\<forall>c \<in> set xs. location c \<noteq> location b"
    and "well_timed b"
  shows "\<exists>f1 f2. mp1_ioctl_add b f = (0, f1) \<and> repeat_opt n mp1_rtc_tasklet f1 = Some f2
     \<and> vmem f2 (2 * unat (location b)) =
         (if n mod (unat (on_length b) + unat (off_length b)) < unat (on_length b) then on_char b else off_char b)"
  using blink.added_blinks [OF assms] by (simp add: shown_def)

section \<open>What goes wrong\<close>

text \<open>The walk over a list that comes back to itself does not end.\<close>

lemma tasklet_cycle:
  assumes "p < length (blink_array f)" "nxt (blink_array f ! p) = Some p"
  shows "tasklet_loop (Some p) f = None"
proof -
  let ?cyc = "\<lambda>x f. x = Some p \<and> p < length (blink_array f) \<and> nxt (blink_array f ! p) = Some p"
  have "\<not> ?cyc x f" if "tasklet_loop x f = Some f'" for x f f'
    using that
  proof (rule tasklet_loop.raw_induct [rotated])
    fix loop x f f'
    assume h: "\<And>x f f'. loop x f = Some f' \<Longrightarrow> \<not> ?cyc x f"
      and b: "(case x of None \<Rightarrow> Some f | Some p \<Rightarrow> let f = tasklet_item p f in loop (nxt (blink_array f ! p)) f) = Some f'"
    show "\<not> ?cyc x f"
    proof
      assume a: "?cyc x f"
      then have "loop (Some p) (tasklet_item p f) = Some f'" using b tasklet_item_eq [of p f] by (simp add: Let_def)
      from h [OF this] a show False using tasklet_item_eq [of p f] by simp
    qed
  qed
  with assms show ?thesis by (cases "tasklet_loop (Some p) f") auto
qed

lemma malloc_loop_again: "malloc_loop bs i = Some p \<Longrightarrow> location b = 0 \<Longrightarrow> malloc_loop (bs[p - i := b]) i = Some p"
proof (induction bs i rule: malloc_loop.induct)
  case (2 c bs i)
  then show ?case using malloc_loop_Some [of bs "Suc i" p] by (cases "location c = 0") (auto simp: Suc_diff_Suc [symmetric])
qed simp

text \<open>
  Location 0 breaks the list.  A character may be added at the first place of the screen, but
  the allocator takes location 0 for "not in use": the next character, wherever it is, gets the same
  structure and becomes its own successor, and the next clock tick never returns.
\<close>

theorem add_at_zero_hangs:
  assumes "blinkers f xs" "length xs < BLINK_MAX" "location b = 0" "location c < 2000"
  shows "\<exists>f1 f2. mp1_ioctl_add b f = (0, f1) \<and> mp1_ioctl_add c f1 = (0, f2) \<and> mp1_rtc_tasklet f2 = None"
proof -
  obtain ps where r: "blink_rep f ps" "items f ps = xs" using assms(1) by (auto simp: blinkers_def)
  then obtain p where p: "mp1_malloc f = Some p" using malloc_full [OF r(1)] assms(2) by (auto simp: items_def)
  note q = malloc_free [OF r(1) p]
  have l: "length (blink_array f) = BLINK_MAX" using r(1) by (simp add: blink_rep_def)
  let ?b = "b\<lparr>status := 1, countdown := on_length b, nxt := mp1_list_head f\<rparr>"
  define f1 where "f1 = mp1_poke (on_char b) (2 * unat (location b)) ((put_blink p ?b f)\<lparr>mp1_list_head := Some p\<rparr>)"
  have f1: "mp1_ioctl_add b f = (0, f1)" "blink_array f1 = (blink_array f)[p := ?b]" "mp1_list_head f1 = Some p"
    using assms(3) p by (simp_all add: mp1_ioctl_add_def f1_def Let_def)
  have m: "mp1_malloc f1 = Some p" using malloc_loop_again [of "blink_array f" 0 p ?b] p l assms(3) by (simp add: mp1_malloc_def f1(2))
  let ?c = "c\<lparr>status := 1, countdown := on_length c, nxt := Some p\<rparr>"
  define f2 where "f2 = mp1_poke (on_char c) (2 * unat (location c)) ((put_blink p ?c f1)\<lparr>mp1_list_head := Some p\<rparr>)"
  have f2: "mp1_ioctl_add c f1 = (0, f2)" "blink_array f2 = (blink_array f)[p := ?c]" "mp1_list_head f2 = Some p"
    using assms(4) m f1(2,3) by (simp_all add: mp1_ioctl_add_def f2_def Let_def not_le [symmetric])
  have "mp1_rtc_tasklet f2 = None" unfolding mp1_rtc_tasklet_def f2(3) by (rule tasklet_cycle) (use q l f2(2) in simp_all)
  with f1(1) f2(1) show ?thesis by blast
qed

section \<open>A list to run\<close>

definition demo_blink :: mp1_blink_struct where
  "demo_blink = \<lparr>location = 540, on_char = 73, off_char = 77, on_length = 7, off_length = 6, countdown = 0, status = 0, nxt = None\<rparr>"

lemma fish_start_blinkers: "blinkers (fish_start v) []"
  using fish_start_rep by (auto simp: blinkers_def items_def)

theorem blink_list_refines_witness:
  "\<exists>f'. mp1_ioctl_add demo_blink (fish_start (\<lambda>_. 0)) = (0, f') \<and> blinkers f' [added demo_blink]"
  using blink_list_refines [OF fish_start_blinkers, of demo_blink "\<lambda>_. 0" 0] by (auto simp: demo_blink_def)

theorem blinker_blinks_witness:
  "\<exists>f1 f2. mp1_ioctl_add demo_blink (fish_start (\<lambda>_. 0)) = (0, f1) \<and> repeat_opt 200 mp1_rtc_tasklet f1 = Some f2 \<and> vmem f2 1080 = 73"
  using blinker_blinks [OF fish_start_blinkers, of demo_blink "\<lambda>_. 0" 200] by (simp add: demo_blink_def well_timed_def)

theorem add_at_zero_hangs_witness:
  "\<exists>f1 f2. mp1_ioctl_add (demo_blink\<lparr>location := 0\<rparr>) (fish_start (\<lambda>_. 0)) = (0, f1) \<and> mp1_ioctl_add demo_blink f1 = (0, f2)
     \<and> mp1_rtc_tasklet f2 = None"
  using add_at_zero_hangs [OF fish_start_blinkers, of "demo_blink\<lparr>location := 0\<rparr>" demo_blink "\<lambda>_. 0"] by (simp add: demo_blink_def)

end
