(* ===== verification/User_Fish.thy ===== *)
theory User_Fish
  imports User_Shell Blink
begin

unbundle bit_operations_syntax

text \<open>
  The fish program (\<^verbatim>\<open>fish/fish.c\<close>): it reads two frames from files and lets them alternate on the
  screen.  The state is that of the animation engine and that of the kernel; variables whose
  address a system call gets are bytes of the program's page.
\<close>

section \<open>The program\<close>

record fish_vars =
  addr_c0 :: u32
  addr_c1 :: u32
  addr_ret_val :: u32
  addr_garbage :: u32
  addr_vmem_base :: u32
  addr_file0 :: u32
  addr_file1 :: u32
  struct_init :: mp1_blink_struct

text \<open>One of the two reads of \<^verbatim>\<open>add_frames\<close>: nothing once the line has ended.\<close>

definition read_char :: "user_env \<Rightarrow> int \<Rightarrow> u32 \<Rightarrow> bool \<Rightarrow> sys \<Rightarrow> (bool \<times> sys) option" where
  "read_char E fd a eof s = do {
     c \<leftarrow> uget a s;
     if c \<noteq> 10 then do {
       (num_bytes, s) \<leftarrow> ece391_read E fd a 1 s;
       if num_bytes = 0 then do { s \<leftarrow> uput a 10 s; Some (True, s) }
       else Some (eof, s)
     } else Some (eof, s)
   }"

text \<open>The body of the inner loop after the reads: the structure that is passed to \<^verbatim>\<open>mp1_ioctl\<close>.\<close>

definition frame_struct :: "fish_vars \<Rightarrow> int \<Rightarrow> byte \<Rightarrow> byte \<Rightarrow> mp1_blink_struct" where
  "frame_struct V place c0 c1 = (struct_init V)\<lparr>on_length := 15, off_length := 15,
     on_char := (if c0 = 10 then 32 else c0), off_char := (if c1 = 10 then 32 else c1), location := of_int place\<rparr>"

definition add_cell :: "fish_vars \<Rightarrow> int \<Rightarrow> byte \<Rightarrow> byte \<Rightarrow> fish \<Rightarrow> fish option" where
  "add_cell V place c0 c1 f =
    (if (c0 \<noteq> 32 \<and> c0 \<noteq> 10) \<or> (c1 \<noteq> 32 \<and> c1 \<noteq> 10)
     then map_option (\<lambda>(r, user, f). f) (mp1_ioctl 0 (frame_struct V place c0 c1) 0 f)
     else Some f)"

partial_function (option) frame_cols ::
  "user_env \<Rightarrow> fish_vars \<Rightarrow> int \<Rightarrow> int \<Rightarrow> int \<Rightarrow> int \<Rightarrow> bool \<Rightarrow> bool \<Rightarrow> fish \<Rightarrow> sys \<Rightarrow> (bool \<times> bool \<times> fish \<times> sys) option" where
  "frame_cols E V fd0 fd1 row col eof0 eof1 f s = do {
     (eof0, s) \<leftarrow> read_char E fd0 (addr_c0 V) eof0 s;
     (eof1, s) \<leftarrow> read_char E fd1 (addr_c1 V) eof1 s;
     c0 \<leftarrow> uget (addr_c0 V) s;
     c1 \<leftarrow> uget (addr_c1 V) s;
     if c0 = 10 \<and> c1 = 10 then Some (eof0, eof1, f, s)
     else do {
       f \<leftarrow> add_cell V (row * 80 + col + 40) c0 c1 f;
       frame_cols E V fd0 fd1 row (col + 1) eof0 eof1 f s
     }
   }"

definition end_row :: "user_env \<Rightarrow> int \<Rightarrow> u32 \<Rightarrow> bool \<Rightarrow> sys \<Rightarrow> sys option" where
  "end_row E fd a eof s =
    (if eof then do { s \<leftarrow> uput a 10 s; (r, s) \<leftarrow> ece391_close E fd s; Some s }
     else uput a 48 s)"

partial_function (option) frame_rows ::
  "user_env \<Rightarrow> fish_vars \<Rightarrow> int \<Rightarrow> int \<Rightarrow> int \<Rightarrow> bool \<Rightarrow> bool \<Rightarrow> fish \<Rightarrow> sys \<Rightarrow> (fish \<times> sys) option" where
  "frame_rows E V fd0 fd1 row eof0 eof1 f s =
    (if \<not> eof0 \<or> \<not> eof1 then do {
       (eof0, eof1, f, s) \<leftarrow> frame_cols E V fd0 fd1 row 0 eof0 eof1 f s;
       s \<leftarrow> end_row E fd0 (addr_c0 V) eof0 s;
       s \<leftarrow> end_row E fd1 (addr_c1 V) eof1 s;
       frame_rows E V fd0 fd1 (row + 1) eof0 eof1 f s
     } else Some (f, s))"

text \<open>\<^verbatim>\<open>ece391_halt\<close> is system call 1; it does not return when the call succeeds.\<close>

definition ece391_halt :: "user_env \<Rightarrow> int \<Rightarrow> sys \<Rightarrow> (int \<times> sys) option" where
  "ece391_halt E code = DO_CALL E 1 (of_int code) 0 0"

definition open_or_halt :: "user_env \<Rightarrow> u32 \<Rightarrow> sys \<Rightarrow> (int \<times> sys) option" where
  "open_or_halt E file s = do {
     (fd, s) \<leftarrow> ece391_open E file s;
     if fd < 0 then do { (r, s) \<leftarrow> ece391_halt E (-1) s; Some (fd, s) } else Some (fd, s)
   }"

definition add_frames :: "user_env \<Rightarrow> fish_vars \<Rightarrow> u32 \<Rightarrow> u32 \<Rightarrow> fish \<Rightarrow> sys \<Rightarrow> (fish \<times> sys) option" where
  "add_frames E V f0 f1 f s = do {
     s \<leftarrow> uput (addr_c0 V) 48 s;
     s \<leftarrow> uput (addr_c1 V) 48 s;
     (fd0, s) \<leftarrow> open_or_halt E f0 s;
     (fd1, s) \<leftarrow> open_or_halt E f1 s;
     frame_rows E V fd0 fd1 0 False False f s
   }"

definition mp1_set_video_mode :: "user_env \<Rightarrow> fish_vars \<Rightarrow> sys \<Rightarrow> (u32 \<times> sys) option" where
  "mp1_set_video_mode E V s = do {
     (r, s) \<leftarrow> ece391_vidmap E (addr_vmem_base V) s;
     if r = -1 then Some (0, s)
     else do { p \<leftarrow> user_ptr (addr_vmem_base V) 4 s; Some (ld32 (memory s) p, s) }
   }"

text \<open>\<^verbatim>\<open>for (i = 0; i < n; i++) { ece391_read (rtc_fd, &garbage, 4); mp1_rtc_tasklet (garbage); }\<close>\<close>

fun wait_ticks :: "user_env \<Rightarrow> fish_vars \<Rightarrow> int \<Rightarrow> nat \<Rightarrow> fish \<Rightarrow> sys \<Rightarrow> (fish \<times> sys) option" where
  "wait_ticks E V rtc_fd 0 f s = Some (f, s)"
| "wait_ticks E V rtc_fd (Suc n) f s = do {
     (r, s) \<leftarrow> ece391_read E rtc_fd (addr_garbage V) 4 s;
     f \<leftarrow> mp1_rtc_tasklet f;
     wait_ticks E V rtc_fd n f s
   }"

definition set_rate :: "user_env \<Rightarrow> fish_vars \<Rightarrow> int \<Rightarrow> sys \<Rightarrow> sys option" where
  "set_rate E V rtc_fd s = do {
     p \<leftarrow> user_ptr (addr_ret_val V) 4 s;
     (ret_val, s) \<leftarrow> ece391_write E rtc_fd (addr_ret_val V) 4 (with_memory (st32 (memory s) p 32) s);
     p \<leftarrow> user_ptr (addr_ret_val V) 4 s;
     Some (with_memory (st32 (memory s) p (of_int ret_val)) s)
   }"

definition fish_main :: "user_env \<Rightarrow> fish_vars \<Rightarrow> (nat \<Rightarrow> byte) \<Rightarrow> sys \<Rightarrow> (int \<times> fish \<times> sys) option" where
  "fish_main E V v s = do {
     let f = fish_start v;
     (base, s) \<leftarrow> mp1_set_video_mode E V s;
     if base = 0 then Some (-1, f, s)
     else do {
       (rtc_fd, s) \<leftarrow> ece391_open E (lit E ''rtc'') s;
       (f, s) \<leftarrow> add_frames E V (addr_file0 V) (addr_file1 V) f s;
       s \<leftarrow> set_rate E V rtc_fd s;
       (f, s) \<leftarrow> wait_ticks E V rtc_fd 200 f s;
       let b = (struct_init V)\<lparr>on_char := 73, off_char := 77, on_length := 7, off_length := 6, location := 6 * 80 + 60\<rparr>;
       (r, b, f) \<leftarrow> mp1_ioctl 0 b 0 f;
       (f, s) \<leftarrow> wait_ticks E V rtc_fd 200 f s;
       (r, b, f) \<leftarrow> mp1_ioctl (push_bit 16 40 OR (6 * 80 + 60)) b 3 f;
       (f, s) \<leftarrow> wait_ticks E V rtc_fd 200 f s;
       let b = b\<lparr>location := 60\<rparr>;
       (r, b, f) \<leftarrow> mp1_ioctl 200 b 1 f;
       (f, s) \<leftarrow> wait_ticks E V rtc_fd (80 * 25) f s;
       (r, s) \<leftarrow> ece391_close E rtc_fd s;
       Some (0, f, s)
     }
   }"

section \<open>What the frames say\<close>

fun lines_of :: "byte list \<Rightarrow> byte list list" where
  "lines_of [] = [[]]"
| "lines_of (x # xs) = (if x = 10 then [] # lines_of xs else (x # hd (lines_of xs)) # tl (lines_of xs))"

text \<open>The places that blink in a row, with the character of each frame; a frame without a character
  there shows a space.\<close>

function frame_cells :: "nat \<Rightarrow> byte list \<Rightarrow> byte list \<Rightarrow> (nat \<times> byte \<times> byte) list" where
  "frame_cells place xs ys =
    (if xs = [] \<and> ys = [] then []
     else let x = (if xs = [] then 32 else hd xs); y = (if ys = [] then 32 else hd ys)
          in (if x \<noteq> 32 \<or> y \<noteq> 32 then [(place, x, y)] else []) @ frame_cells (place + 1) (tl xs) (tl ys))"
  by auto
termination by (relation "measure (\<lambda>(place, xs, ys). length xs + length ys)") (auto simp: neq_Nil_conv)

declare frame_cells.simps [simp del]

function frame_list :: "nat \<Rightarrow> byte list list \<Rightarrow> byte list list \<Rightarrow> (nat \<times> byte \<times> byte) list" where
  "frame_list row xss yss =
    (if xss = [] \<and> yss = [] then []
     else frame_cells (row * 80 + 40) (if xss = [] then [] else hd xss) (if yss = [] then [] else hd yss) @ frame_list (row + 1) (tl xss) (tl yss))"
  by auto
termination by (relation "measure (\<lambda>(row, xss, yss). length xss + length yss)") (auto simp: neq_Nil_conv)

declare frame_list.simps [simp del]

definition cell_item :: "nat \<times> byte \<times> byte \<Rightarrow> mp1_blink_struct" where
  "cell_item = (\<lambda>(place, x, y). \<lparr>location = of_nat place, on_char = x, off_char = y, on_length = 15, off_length = 15,
     countdown = 15, status = 1, nxt = None\<rparr>)"

section \<open>Variables of the program\<close>

definition var :: "u32 \<Rightarrow> sys \<Rightarrow> byte" where
  "var a s = memory s (user_phys a s)"

lemma uget_var: "user_ok t s \<Longrightarrow> user_buffer a 1 \<Longrightarrow> uget a s = Some (var a s)"
  by (simp add: uget_def var_def user_ptr_phys user_ok_def)

text \<open>
  A step that concerns descriptor \<open>fd\<close> and the variable at \<open>a\<close>: the process goes on, the other
  variables keep their values, the other files can be read on.
\<close>

definition keeps :: "nat \<Rightarrow> nat \<Rightarrow> u32 \<Rightarrow> sys \<Rightarrow> sys \<Rightarrow> bool" where
  "keeps t fd a s s' \<longleftrightarrow> user_ok t s' \<and> image_placed s' \<and> (\<forall>b. b \<noteq> a \<longrightarrow> var b s' = var b s)
     \<and> (\<forall>i b. i \<noteq> fd \<longrightarrow> file_reading i b 1 s \<longrightarrow> file_reading i b 1 s' \<and> file_rest i s' = file_rest i s)"

lemma keeps_refl: "user_ok t s \<Longrightarrow> image_placed s \<Longrightarrow> keeps t fd a s s"
  by (simp add: keeps_def)

lemma keeps_trans: "keeps t fd a s s1 \<Longrightarrow> keeps t fd a s1 s2 \<Longrightarrow> keeps t fd a s s2"
  unfolding keeps_def by (metis (no_types))

lemma uput_var:
  assumes "user_ok t s" "image_placed s" "user_buffer a 1"
  shows "\<exists>s'. uput a c s = Some s' \<and> keeps t fd a s s' \<and> var a s' = c
     \<and> (\<forall>i b. file_reading i b 1 s \<longrightarrow> file_reading i b 1 s' \<and> file_rest i s' = file_rest i s)"
proof -
  let ?s = "with_memory ((memory s)(user_phys a s := c)) s"
  note st = uput_facts [OF assms, where c = c]
  have v: "var b ?s = (if b = a then c else var b s)" for b
    using st(6) [of b] user_phys_inj [of b s a] by (simp add: var_def)
  moreover have "file_reading i b 1 ?s \<and> file_rest i ?s = file_rest i s" if "file_reading i b 1 s" for i b
    using file_reading_same [OF st(4,5) that] by simp
  ultimately show ?thesis using st(1-3) by (auto simp: keeps_def)
qed

text \<open>Other descriptors do not notice a change of one.\<close>

lemma file_reading_put:
  assumes "sys_ok s" "sys_ok (fdt_put (nat (cur_pid s)) fd e s)" "i \<noteq> fd" "fd < 8" "file_reading i b n s"
  shows "file_reading i b n (fdt_put (nat (cur_pid s)) fd e s)" "file_rest i (fdt_put (nat (cur_pid s)) fd e s) = file_rest i s"
proof -
  obtain k where k: "cur_pid s = int k" using sys_okD [OF assms(1)] by metis
  have "fd_entry i (fdt_put (nat (cur_pid s)) fd e s) = fd_entry i s"
    using fd_entry_put [OF assms(1) k assms(4)] assms(3) k by simp
  then show "file_reading i b n (fdt_put (nat (cur_pid s)) fd e s)" "file_rest i (fdt_put (nat (cur_pid s)) fd e s) = file_rest i s"
    using assms(2,5) by (simp_all add: file_reading_def file_rest_def image_placed_def)
qed

lemma read_one:
  assumes "user_ok t s" "file_reading fd a 1 s"
  shows "\<exists>s'. ece391_read E (int fd) a 1 s = Some (if file_rest fd s = [] then 0 else 1, s') \<and> keeps t fd a s s'
     \<and> file_reading fd a 1 s' \<and> file_rest fd s' = tl (file_rest fd s)
     \<and> var a s' = (if file_rest fd s = [] then var a s else hd (file_rest fd s))"
proof -
  let ?d = "take 1 (file_rest fd s)" and ?pos = "file_position (fd_entry fd s) + of_nat (length (take 1 (file_rest fd s)))"
  let ?w = "with_memory (wr_bytes (memory s) (user_phys a s) ?d) s" and ?s = "after_read fd (user_phys a s) ?d ?pos s"
  have f: "sys_ok s" "image_placed s" "user_buffer a 1" "fd < 8" using assms(2) by (simp_all add: file_reading_def)
  have ub: "user_buffer a (length ?d)" using f(3) by (auto simp: user_buffer_def min_def)
  note r = read_step_file [OF assms(2), folded user_phys_def]
  note uo = user_ok_after_read [OF assms(1) f(2,4) ub]
  have af: "image_placed ?s" "sys_ok ?s" using r(3) by (simp_all add: file_reading_def)
  have rd: "ece391_read E (int fd) a 1 s = Some (int (length ?d), ?s)" using read_stepD(1) [OF r(1) f(4)] by simp
  have w: "wr_bytes (memory s) (user_phys a s) ?d = (if file_rest fd s = [] then memory s else (memory s)(user_phys a s := hd (file_rest fd s)))"
    by (cases "file_rest fd s") (simp_all add: wr_byte)
  have up: "user_phys b ?s = user_phys b s" "memory ?s = wr_bytes (memory s) (user_phys a s) ?d" for b
    by (simp_all add: user_phys_def user_frame_def after_read_def)
  have "var b ?s = (if b = a \<and> file_rest fd s \<noteq> [] then hd (file_rest fd s) else var b s)" for b
    unfolding var_def up w using user_phys_inj [of b s a] by auto
  moreover have "file_reading i b 1 ?s \<and> file_rest i ?s = file_rest i s" if "i \<noteq> fd" "file_reading i b 1 s" for i b
  proof -
    note st = user_store(2,3) [OF assms(1) f(2) ub]
    note fw = file_reading_same [OF st that(2)]
    have ok: "sys_ok ?w" using fw(1) by (simp add: file_reading_def)
    show ?thesis
      using file_reading_put [OF ok _ that(1) f(4) fw(1), of "(fd_entry fd s)\<lparr>file_position := ?pos\<rparr>"] af(2) fw(2) by (simp add: after_read_def)
  qed
  moreover have "file_rest fd ?s = tl (file_rest fd s)" using r(2) by (cases "file_rest fd s") auto
  ultimately show ?thesis using rd uo(1) af(1) r(3) by (cases "file_rest fd s") (auto simp: keeps_def)
qed

section \<open>Reading a frame\<close>

text \<open>
  A file that is read line by line through the variable at \<open>a\<close>: \<open>line\<close> is what is left of the current
  line, \<open>later\<close> are the lines after it.
\<close>

definition source :: "nat \<Rightarrow> u32 \<Rightarrow> byte list \<Rightarrow> byte list list \<Rightarrow> bool \<Rightarrow> sys \<Rightarrow> bool" where
  "source fd a line later eof s \<longleftrightarrow> user_buffer a 1 \<and> 2 \<le> fd \<and> fd < 8 \<and> (\<not> eof \<longrightarrow> file_reading fd a 1 s)
     \<and> (if var a s = 10 then line = [] \<and> later = (if eof then [] else lines_of (file_rest fd s))
        else \<not> eof \<and> line = hd (lines_of (file_rest fd s)) \<and> later = tl (lines_of (file_rest fd s)))"

lemma lines_of_not_Nil [simp]: "lines_of A \<noteq> []"
  by (cases A) auto

lemma lines_of_newline: "l \<in> set (lines_of A) \<Longrightarrow> 10 \<notin> set l"
proof (induction A arbitrary: l)
  case (Cons x xs)
  then show ?case using hd_in_set [OF lines_of_not_Nil, of xs] by (auto split: if_splits dest: list.set_sel(2) [OF lines_of_not_Nil])
qed simp

lemma source_keeps: "source i b line later eof s \<Longrightarrow> keeps t fd a s s' \<Longrightarrow> i \<noteq> fd \<Longrightarrow> b \<noteq> a \<Longrightarrow> source i b line later eof s'"
  unfolding source_def keeps_def by (cases eof) (auto split: if_splits)

lemma read_char_source:
  assumes "user_ok t s" "image_placed s" "source fd a line later eof s"
  shows "\<exists>eof' s'. read_char E (int fd) a eof s = Some (eof', s') \<and> keeps t fd a s s' \<and> source fd a (tl line) later eof' s'
     \<and> var a s' = (if line = [] then 10 else hd line) \<and> (line \<noteq> [] \<longrightarrow> hd line \<noteq> 10)"
proof -
  have b: "user_buffer a 1" "2 \<le> fd" "fd < 8" using assms(3) by (simp_all add: source_def)
  note g = uget_var [OF assms(1) b(1)]
  show ?thesis
  proof (cases "var a s = 10")
    case True
    then show ?thesis using assms g keeps_refl by (auto simp: read_char_def source_def)
  next
    case False
    then have l: "\<not> eof" "file_reading fd a 1 s" "line = hd (lines_of (file_rest fd s))" "later = tl (lines_of (file_rest fd s))"
      using assms(3) by (auto simp: source_def)
    obtain s1 where s1: "ece391_read E (int fd) a 1 s = Some (if file_rest fd s = [] then 0 else 1, s1)" "keeps t fd a s s1"
        "file_reading fd a 1 s1" "file_rest fd s1 = tl (file_rest fd s)" "var a s1 = (if file_rest fd s = [] then var a s else hd (file_rest fd s))"
      using read_one [OF assms(1) l(2), of E] by blast
    show ?thesis
    proof (cases "file_rest fd s")
      case Nil
      have u1: "user_ok t s1" "image_placed s1" using s1(2) by (simp_all add: keeps_def)
      obtain s2 where s2: "uput a 10 s1 = Some s2" "keeps t fd a s1 s2" "var a s2 = 10"
        using uput_var [OF u1 b(1), of 10 fd] by blast
      then have "read_char E (int fd) a eof s = Some (True, s2)" using False g s1(1) Nil by (simp add: read_char_def)
      moreover have "source fd a (tl line) later True s2" using b s2(3) l(3,4) Nil by (simp add: source_def)
      ultimately show ?thesis using keeps_trans [OF s1(2) s2(2)] s2(3) l(3) Nil by auto
    next
      case (Cons x xs)
      then have r: "read_char E (int fd) a eof s = Some (eof, s1)" using False g s1(1) by (simp add: read_char_def)
      have "source fd a (tl line) later eof s1" using b s1(3-5) l Cons by (simp add: source_def)
      moreover have "hd line \<noteq> 10" if "line \<noteq> []" using that l(3) Cons by (auto split: if_splits)
      ultimately show ?thesis using r s1(2,5) l(3) Cons by (auto split: if_splits)
    qed
  qed
qed

lemma close_source:
  assumes "user_ok t s" "image_placed s" "2 \<le> fd" "fd < 8"
  shows "\<exists>r s'. ece391_close E (int fd) s = Some (r, s') \<and> keeps t fd a s s' \<and> var a s' = var a s"
proof -
  have ok: "sys_ok s" using assms(1) by (simp add: user_ok_def)
  obtain k where k: "k < 6" "cur_pid s = int k" using sys_okD [OF ok] by metis
  let ?e = "(fd_entry fd s)\<lparr>fd_flags := UNUSED_FLAG\<rparr>"
  show ?thesis
  proof (cases "fd_flags (fd_entry fd s) = UNUSED_FLAG")
    case True
    then show ?thesis using close_fails [OF assms(1), of "int fd" E] assms keeps_refl by auto
  next
    case False
    let ?s = "fdt_put (nat (cur_pid s)) fd ?e s"
    have c: "sys_close (int fd) s = Some (0, ?s)" using False assms(3,4) k(2) by (simp add: sys_close_result [OF ok k(2)] fd_entry_def)
    note ok' = sys_close_inv [OF ok c]
    have "user_ok t ?s" using assms(1) ok' k ok by (simp add: user_ok_def sys_ok_def proc_inv_def proc_wf_def)
    moreover have "image_placed ?s" using assms(2) by (simp add: image_placed_def)
    moreover have "var b ?s = var b s" for b by (simp add: var_def user_phys_def user_frame_def)
    ultimately have "keeps t fd a s ?s" using file_reading_put [OF ok ok' _ assms(4)] by (auto simp: keeps_def)
    with c assms(4) show ?thesis by (simp add: ece391_close_sys var_def user_phys_def user_frame_def)
  qed
qed

lemma end_row_source:
  assumes "user_ok t s" "image_placed s" "source fd a [] later eof s" "var a s = 10"
  shows "eof \<longleftrightarrow> later = []" "\<exists>s'. end_row E (int fd) a eof s = Some s' \<and> keeps t fd a s s'
     \<and> source fd a (if later = [] then [] else hd later) (tl later) eof s'"
proof -
  have b: "user_buffer a 1" "2 \<le> fd" "fd < 8" "later = (if eof then [] else lines_of (file_rest fd s))" "\<not> eof \<Longrightarrow> file_reading fd a 1 s"
    using assms(3,4) by (auto simp: source_def)
  show "eof \<longleftrightarrow> later = []" using b(4) by simp
  show "\<exists>s'. end_row E (int fd) a eof s = Some s' \<and> keeps t fd a s s' \<and> source fd a (if later = [] then [] else hd later) (tl later) eof s'"
  proof (cases eof)
    case True
    obtain s1 where s1: "uput a 10 s = Some s1" "keeps t fd a s s1" "var a s1 = 10" using uput_var [OF assms(1,2) b(1), of 10 fd] by blast
    have "user_ok t s1" "image_placed s1" using s1(2) by (simp_all add: keeps_def)
    from close_source [OF this b(2,3)] obtain r s2 where "ece391_close E (int fd) s1 = Some (r, s2)" "keeps t fd a s1 s2" "var a s2 = 10"
      using s1(3) by metis
    with True s1(1) keeps_trans [OF s1(2)] b(1-4) show ?thesis by (auto simp: end_row_def source_def)
  next
    case False
    obtain s1 where "uput a 48 s = Some s1" "keeps t fd a s s1" "var a s1 = 48" "file_reading fd a 1 s1" "file_rest fd s1 = file_rest fd s"
      using uput_var [OF assms(1,2) b(1), of 48 fd] b(5) [OF False] by blast
    with False b(1-4) show ?thesis by (auto simp: end_row_def source_def)
  qed
qed

section \<open>Building the animation\<close>

text \<open>The characters of a list that are where they are on the screen.\<close>

definition unticked :: "fish \<Rightarrow> mp1_blink_struct list \<Rightarrow> bool" where
  "unticked f xs \<longleftrightarrow> blinkers f xs \<and> (distinct (map location xs) \<longrightarrow> (\<forall>b \<in> set xs. vmem f (2 * unat (location b)) = on_char b))"

lemma added_struct: "added (frame_struct V (int place) c0 c1) = cell_item (place, if c0 = 10 then 32 else c0, if c1 = 10 then 32 else c1)"
  by (cases "struct_init V") (simp add: frame_struct_def added_def cell_item_def)

lemma add_unticked:
  assumes "unticked f xs" "0 < place" "place < 2000" "length xs < 2000"
  shows "\<exists>f'. mp1_ioctl 0 (frame_struct V (int place) c0 c1) 0 f = Some (0, frame_struct V (int place) c0 c1, f')
     \<and> unticked f' (cell_item (place, if c0 = 10 then 32 else c0, if c1 = 10 then 32 else c1) # xs)"
proof -
  let ?b = "frame_struct V (int place) c0 c1" and ?c = "cell_item (place, if c0 = 10 then 32 else c0, if c1 = 10 then 32 else c1)"
  have u: "unat (of_nat place :: u16) = place" using assms(3) by (simp add: unat_of_nat take_bit_nat_eq_self)
  have l: "location ?b = of_nat place" "on_char ?b = on_char ?c" "location ?c = of_nat place"
    by (simp_all add: frame_struct_def cell_item_def)
  have "location ?b \<noteq> 0" "location ?b < 2000" using assms(2,3) u by (auto simp: l word_less_nat_alt unat_eq_0 [symmetric] simp del: of_nat_eq_0_iff)
  then obtain f' where f': "mp1_ioctl_add ?b f = (0, f')" "blinkers f' (added ?b # xs)" "vmem f' = (vmem f)(2 * unat (location ?b) := on_char ?b)"
    using blink.add_law [of f xs ?b] assms(1,4) by (auto simp: unticked_def)
  have "vmem f' (2 * unat (location b)) = on_char b" if "distinct (map location (?c # xs))" "b \<in> set (?c # xs)" for b
  proof (cases "b = ?c")
    case True
    then show ?thesis by (simp add: f'(3) l)
  next
    case False
    then have b: "b \<in> set xs" using that by auto
    then have "location b \<noteq> location ?c" using that(1) imageI [of b "set xs" location] by (metis distinct.simps(2) list.set_map list.simps(9))
    then have "location b \<noteq> location ?b" by (simp only: l not_False_eq_True)
    then have "unat (location b) \<noteq> unat (location ?b)" using word_unat_eq_iff by blast
    with b that(1) assms(1) show ?thesis by (simp add: f'(3) unticked_def)
  qed
  with f' show ?thesis by (simp add: mp1_ioctl_def unticked_def added_struct)
qed

lemma frame_cells_Nil [simp]: "frame_cells place [] [] = []"
  by (simp add: frame_cells.simps)

lemma frame_cells_step:
  assumes "xs \<noteq> [] \<or> ys \<noteq> []"
  defines "x \<equiv> if xs = [] then 32 else hd xs" and "y \<equiv> if ys = [] then 32 else hd ys"
  shows "frame_cells place xs ys = (if x \<noteq> 32 \<or> y \<noteq> 32 then [(place, x, y)] else []) @ frame_cells (place + 1) (tl xs) (tl ys)"
  using assms by (subst frame_cells.simps) (auto simp: Let_def)

lemma frame_cols_source:
  assumes "a0 = addr_c0 V" "a1 = addr_c1 V" "fd0 \<noteq> fd1" "a0 \<noteq> a1"
  shows "user_ok t s \<Longrightarrow> image_placed s \<Longrightarrow> source fd0 a0 xs later0 eof0 s \<Longrightarrow> source fd1 a1 ys later1 eof1 s \<Longrightarrow> unticked f bs \<Longrightarrow>
    \<forall>(p, x, y) \<in> set (frame_cells (row * 80 + col + 40) xs ys). p < 2000 \<Longrightarrow> length bs + length (frame_cells (row * 80 + col + 40) xs ys) \<le> 2000 \<Longrightarrow>
    \<exists>e0 e1 f' s'. frame_cols E V (int fd0) (int fd1) (int row) (int col) eof0 eof1 f s = Some (e0, e1, f', s')
      \<and> user_ok t s' \<and> image_placed s' \<and> source fd0 a0 [] later0 e0 s' \<and> source fd1 a1 [] later1 e1 s' \<and> var a0 s' = 10 \<and> var a1 s' = 10
      \<and> unticked f' (rev (map cell_item (frame_cells (row * 80 + col + 40) xs ys)) @ bs)"
proof (induction "length xs + length ys" arbitrary: xs ys col eof0 eof1 f s bs rule: less_induct)
  case less
  let ?p = "row * 80 + col + 40"
  obtain e0 s1 where s1: "read_char E (int fd0) a0 eof0 s = Some (e0, s1)" "keeps t fd0 a0 s s1" "source fd0 a0 (tl xs) later0 e0 s1"
      "var a0 s1 = (if xs = [] then 10 else hd xs)" "xs \<noteq> [] \<longrightarrow> hd xs \<noteq> 10"
    using read_char_source [OF less.prems(1,2,3), of E] by blast
  have k1: "user_ok t s1" "image_placed s1" using s1(2) by (simp_all add: keeps_def)
  have "source fd1 a1 ys later1 eof1 s1" using source_keeps [OF less.prems(4) s1(2)] assms(3,4) by auto
  then obtain e1 s2 where s2: "read_char E (int fd1) a1 eof1 s1 = Some (e1, s2)" "keeps t fd1 a1 s1 s2" "source fd1 a1 (tl ys) later1 e1 s2"
      "var a1 s2 = (if ys = [] then 10 else hd ys)" "ys \<noteq> [] \<longrightarrow> hd ys \<noteq> 10"
    using read_char_source [OF k1, of fd1 a1 ys later1 eof1 E] by blast
  have k2: "user_ok t s2" "image_placed s2" "var a0 s2 = var a0 s1" using s2(2) assms(4) by (simp_all add: keeps_def)
  have src: "source fd0 a0 (tl xs) later0 e0 s2" using source_keeps [OF s1(3) s2(2)] assms(3,4) by auto
  have g: "uget a0 s2 = Some (var a0 s1)" "uget a1 s2 = Some (var a1 s2)"
    using uget_var [OF k2(1)] src s2(3) k2(3) by (simp_all add: source_def)
  show ?case
  proof (cases "xs = [] \<and> ys = []")
    case True
    then show ?thesis using s1 s2 g src k2 less.prems(5) assms(1,2) by (subst frame_cols.simps) simp
  next
    case False
    let ?c0 = "var a0 s1" and ?c1 = "var a1 s2"
    let ?x = "if ?c0 = 10 then 32 else ?c0" and ?y = "if ?c1 = 10 then 32 else ?c1"
    let ?cell = "if ?x \<noteq> 32 \<or> ?y \<noteq> 32 then [(?p, ?x, ?y)] else []"
    have c: "frame_cells ?p xs ys = ?cell @ frame_cells (row * 80 + (col + 1) + 40) (tl xs) (tl ys)"
      using frame_cells_step [of xs ys ?p] False s1(4,5) s2(4,5) by (simp add: ac_simps)
    have m: "length (tl xs) + length (tl ys) < length xs + length ys" using False by (cases xs; cases ys) auto
    obtain f1 where f1: "add_cell V (int row * 80 + int col + 40) ?c0 ?c1 f = Some f1"
        "unticked f1 (map cell_item ?cell @ bs)"
    proof (cases "?x \<noteq> 32 \<or> ?y \<noteq> 32")
      case True
      then have "?p < 2000" "length bs < 2000" using less.prems(6,7) c by auto
      from add_unticked [OF less.prems(5) _ this, of V ?c0 ?c1] obtain f1 where
        "mp1_ioctl 0 (frame_struct V (int ?p) ?c0 ?c1) 0 f = Some (0, frame_struct V (int ?p) ?c0 ?c1, f1)" "unticked f1 (cell_item (?p, ?x, ?y) # bs)" by auto
      with True show ?thesis by (intro that [of f1]) (auto simp: add_cell_def split: if_splits)
    next
      case False
      then show ?thesis using less.prems(5) by (intro that [of f]) (auto simp: add_cell_def split: if_splits)
    qed
    have n: "\<not> (?c0 = 10 \<and> ?c1 = 10)" using False s1(4,5) s2(4,5) by auto
    have "\<exists>e0' e1' f' s'. frame_cols E V (int fd0) (int fd1) (int row) (int (col + 1)) e0 e1 f1 s2 = Some (e0', e1', f', s')
      \<and> user_ok t s' \<and> image_placed s' \<and> source fd0 a0 [] later0 e0' s' \<and> source fd1 a1 [] later1 e1' s' \<and> var a0 s' = 10 \<and> var a1 s' = 10
      \<and> unticked f' (rev (map cell_item (frame_cells (row * 80 + (col + 1) + 40) (tl xs) (tl ys))) @ map cell_item ?cell @ bs)"
      by (rule less.hyps [OF m k2(1,2) src s2(3) f1(2)]) (use less.prems(6,7) c in auto)
    then obtain e0' e1' f' s' where e: "frame_cols E V (int fd0) (int fd1) (int row) (int (col + 1)) e0 e1 f1 s2 = Some (e0', e1', f', s')"
      and h: "user_ok t s'" "image_placed s'" "source fd0 a0 [] later0 e0' s'" "source fd1 a1 [] later1 e1' s'" "var a0 s' = 10" "var a1 s' = 10"
      "unticked f' (rev (map cell_item (frame_cells (row * 80 + (col + 1) + 40) (tl xs) (tl ys))) @ map cell_item ?cell @ bs)" by blast
    have e1: "frame_cols E V (int fd0) (int fd1) (int row) (int col + 1) e0 e1 f1 s2 = Some (e0', e1', f', s')" using e by (simp add: add.commute)
    have r: "rev (map cell_item (frame_cells ?p xs ys)) @ bs
        = rev (map cell_item (frame_cells (row * 80 + (col + 1) + 40) (tl xs) (tl ys))) @ map cell_item ?cell @ bs" unfolding c by simp
    have "frame_cols E V (int fd0) (int fd1) (int row) (int col) eof0 eof1 f s = Some (e0', e1', f', s')"
      using s1(1) s2(1) g f1(1) e1 by (subst frame_cols.simps) (simp add: n flip: assms(1,2))
    with h show ?thesis unfolding r by blast
  qed
qed

lemma frame_list_Nil [simp]: "frame_list row [] [] = []"
  by (simp add: frame_list.simps)

text \<open>One row: both files move on to their next line, or are closed.\<close>

lemma end_rows_source:
  assumes "fd0 \<noteq> fd1" "a0 \<noteq> a1" "user_ok t s" "image_placed s" "source fd0 a0 [] xss e0 s" "source fd1 a1 [] yss e1 s" "var a0 s = 10" "var a1 s = 10"
  shows "e0 = (xss = [])" "e1 = (yss = [])" "\<exists>s1 s2. end_row E (int fd0) a0 e0 s = Some s1 \<and> end_row E (int fd1) a1 e1 s1 = Some s2
     \<and> user_ok t s2 \<and> image_placed s2 \<and> source fd0 a0 (if xss = [] then [] else hd xss) (tl xss) e0 s2
     \<and> source fd1 a1 (if yss = [] then [] else hd yss) (tl yss) e1 s2"
proof -
  show e0: "e0 = (xss = [])" by (rule end_row_source(1) [OF assms(3,4,5,7)])
  obtain s1 where s1: "end_row E (int fd0) a0 e0 s = Some s1" "keeps t fd0 a0 s s1" "source fd0 a0 (if xss = [] then [] else hd xss) (tl xss) e0 s1"
    using end_row_source(2) [OF assms(3,4,5,7), of E] by blast
  have k1: "user_ok t s1" "image_placed s1" "var a1 s1 = 10" using s1(2) assms(2,8) by (auto simp: keeps_def)
  have y1: "source fd1 a1 [] yss e1 s1" using source_keeps [OF assms(6) s1(2)] assms(1,2) by auto
  show "e1 = (yss = [])" by (rule end_row_source(1) [OF k1(1,2) y1 k1(3)])
  obtain s2 where s2: "end_row E (int fd1) a1 e1 s1 = Some s2" "keeps t fd1 a1 s1 s2" "source fd1 a1 (if yss = [] then [] else hd yss) (tl yss) e1 s2"
    using end_row_source(2) [OF k1(1,2) y1 k1(3), of E] by blast
  have "user_ok t s2" "image_placed s2" using s2(2) by (simp_all add: keeps_def)
  moreover have "source fd0 a0 (if xss = [] then [] else hd xss) (tl xss) e0 s2" using source_keeps [OF s1(3) s2(2)] assms(1,2) by auto
  ultimately show "\<exists>s1 s2. end_row E (int fd0) a0 e0 s = Some s1 \<and> end_row E (int fd1) a1 e1 s1 = Some s2
     \<and> user_ok t s2 \<and> image_placed s2 \<and> source fd0 a0 (if xss = [] then [] else hd xss) (tl xss) e0 s2
     \<and> source fd1 a1 (if yss = [] then [] else hd yss) (tl yss) e1 s2"
    using s1(1) s2(1,3) by blast
qed

lemma frame_rows_source:
  assumes "a0 = addr_c0 V" "a1 = addr_c1 V" "fd0 \<noteq> fd1" "a0 \<noteq> a1"
  shows "user_ok t s \<Longrightarrow> image_placed s \<Longrightarrow> source fd0 a0 (if xss = [] then [] else hd xss) (tl xss) eof0 s \<Longrightarrow>
    source fd1 a1 (if yss = [] then [] else hd yss) (tl yss) eof1 s \<Longrightarrow> eof0 = (xss = []) \<Longrightarrow> eof1 = (yss = []) \<Longrightarrow> unticked f bs \<Longrightarrow>
    \<forall>(p, x, y) \<in> set (frame_list row xss yss). p < 2000 \<Longrightarrow> length bs + length (frame_list row xss yss) \<le> 2000 \<Longrightarrow>
    \<exists>f' s'. frame_rows E V (int fd0) (int fd1) (int row) eof0 eof1 f s = Some (f', s') \<and> user_ok t s' \<and> image_placed s'
      \<and> unticked f' (rev (map cell_item (frame_list row xss yss)) @ bs)"
proof (induction "length xss + length yss" arbitrary: xss yss row eof0 eof1 f s bs rule: less_induct)
  case less
  let ?xs = "if xss = [] then [] else hd xss" and ?ys = "if yss = [] then [] else hd yss"
  show ?case
  proof (cases "xss = [] \<and> yss = []")
    case True
    then show ?thesis using less.prems by (subst frame_rows.simps) simp
  next
    case False
    let ?cs = "frame_cells (row * 80 + 0 + 40) ?xs ?ys" and ?rest = "frame_list (row + 1) (tl xss) (tl yss)"
    have c: "frame_list row xss yss = ?cs @ ?rest" using False by (subst frame_list.simps) simp
    have m: "length (tl xss) + length (tl yss) < length xss + length yss" using False by (cases xss; cases yss) auto
    have b: "\<forall>(p, x, y) \<in> set ?cs. p < 2000" "length bs + length ?cs \<le> 2000" "\<forall>(p, x, y) \<in> set ?rest. p < 2000"
        "length (rev (map cell_item ?cs) @ bs) + length ?rest \<le> 2000"
      using less.prems(8,9) c by auto
    obtain e0 e1 f1 s1 where s1: "frame_cols E V (int fd0) (int fd1) (int row) (int 0) eof0 eof1 f s = Some (e0, e1, f1, s1)"
        "user_ok t s1" "image_placed s1" "source fd0 a0 [] (tl xss) e0 s1" "source fd1 a1 [] (tl yss) e1 s1" "var a0 s1 = 10" "var a1 s1 = 10"
        "unticked f1 (rev (map cell_item ?cs) @ bs)"
      using frame_cols_source [OF assms less.prems(1-4,7) b(1,2), of E] by blast
    note r = end_rows_source [OF assms(3,4) s1(2-7)]
    obtain s2 s3 where s3: "end_row E (int fd0) a0 e0 s1 = Some s2" "end_row E (int fd1) a1 e1 s2 = Some s3" "user_ok t s3" "image_placed s3"
        "source fd0 a0 (if tl xss = [] then [] else hd (tl xss)) (tl (tl xss)) e0 s3"
        "source fd1 a1 (if tl yss = [] then [] else hd (tl yss)) (tl (tl yss)) e1 s3"
      using r(3) [of E] by blast
    obtain f' s' where h: "frame_rows E V (int fd0) (int fd1) (int (row + 1)) e0 e1 f1 s3 = Some (f', s')" "user_ok t s'" "image_placed s'"
        "unticked f' (rev (map cell_item ?rest) @ rev (map cell_item ?cs) @ bs)"
      using less.hyps [OF m s3(3-6) r(1,2) s1(8) b(3,4)] by blast
    have "\<not> eof0 \<or> \<not> eof1" using False less.prems(5,6) by simp
    then have "frame_rows E V (int fd0) (int fd1) (int row) eof0 eof1 f s = Some (f', s')"
      using s1(1) s3(1,2) h(1) by (subst frame_rows.simps) (simp add: add.commute flip: assms(1,2))
    with h(2-4) show ?thesis unfolding c by simp
  qed
qed

section \<open>The whole of add\_frames\<close>

text \<open>A constant of the program that names a regular file with the contents \<open>A\<close>.\<close>

definition frame_file :: "u32 \<Rightarrow> byte list \<Rightarrow> byte list \<Rightarrow> sys \<Rightarrow> bool" where
  "frame_file v name A s \<longleftrightarrow> cstr_at v name s \<and> plain_name name
     \<and> (case find_file name s of None \<Rightarrow> False
        | Some d \<Rightarrow> fileType d = 2 \<and> inodeNum d < numInodes (memory s) (bootMemAddr s) \<and> A = file_data (memory s) (bootMemAddr s) (inodeNum d))"

definition two_free :: "sys \<Rightarrow> bool" where
  "two_free s \<longleftrightarrow> (\<exists>i \<in> {2..<8}. \<exists>j \<in> {2..<8}. i \<noteq> j \<and> fd_flags (fd_entry i s) = UNUSED_FLAG \<and> fd_flags (fd_entry j s) = UNUSED_FLAG)"

lemma frame_file_store:
  assumes "user_ok t s" "image_placed s" "user_buffer a 1" "frame_file v name A s" "\<not> in_region v (length name + 1) a"
  shows "\<exists>s'. uput a c s = Some s' \<and> user_ok t s' \<and> image_placed s' \<and> frame_file v name A s' \<and> proc_same s s' \<and> var a s' = c
     \<and> (\<forall>b. b \<noteq> a \<longrightarrow> var b s' = var b s)"
proof -
  let ?s = "with_memory ((memory s)(user_phys a s := c)) s" and ?m = "memory s" and ?b = "bootMemAddr s"
  note st = uput_facts [OF assms(1-3), where c = c]
  have "file_data (memory ?s) ?b n = file_data ?m ?b n" if "n < numInodes ?m ?b" for n
    using assms(2) that by (intro same_image_file [OF st(5)]) (simp_all add: image_placed_def)
  moreover have "numInodes (memory ?s) ?b = numInodes ?m ?b" using same_image_header(2) [OF st(5)] .
  ultimately have "frame_file v name A ?s"
    using assms(4) st(9) [OF _ assms(5)] st(8) [of name] by (auto simp: frame_file_def split: option.splits)
  moreover have "var b ?s = (if b = a then c else var b s)" for b
    using st(6) [of b] user_phys_inj [of b s a] by (simp add: var_def)
  ultimately show ?thesis using st(1-4) by auto
qed

lemma open_frame:
  assumes "user_ok t s" "image_placed s" "frame_file v name A s" "fd_free s" "user_buffer a 1"
  shows "\<exists>i s'. open_or_halt E v s = Some (int i, s') \<and> 2 \<le> i \<and> i < 8 \<and> fd_flags (fd_entry i s) = UNUSED_FLAG
     \<and> user_ok t s' \<and> image_placed s' \<and> file_reading i a 1 s' \<and> file_rest i s' = A \<and> (\<forall>b. var b s' = var b s)
     \<and> (\<forall>w n B. frame_file w n B s \<longrightarrow> frame_file w n B s') \<and> (\<forall>j. j \<noteq> i \<longrightarrow> fd_entry j s' = fd_entry j s)
     \<and> (\<forall>j b. file_reading j b 1 s \<longrightarrow> j \<noteq> i \<and> file_reading j b 1 s' \<and> file_rest j s' = file_rest j s)"
proof -
  obtain d where d: "find_file name s = Some d" "fileType d = 2" "inodeNum d < numInodes (memory s) (bootMemAddr s)"
      "A = file_data (memory s) (bootMemAddr s) (inodeNum d)"
    using assms(3) by (auto simp: frame_file_def split: option.splits)
  have c: "cstr_at v name s" "plain_name name" "0 < fileType d" "fileType d \<le> 2" using assms(3) d(2) by (simp_all add: frame_file_def)
  obtain i s' where o: "ece391_open E v s = Some (int i, s')" "2 \<le> i" "i < 8" "s' = fdt_put (nat (cur_pid s)) i (opened_fd d) s"
      "fd_entry i s' = opened_fd d" "user_ok t s'" "memory s' = memory s" "fd_flags (fd_entry i s) = UNUSED_FLAG"
      "\<forall>j. j \<noteq> i \<longrightarrow> fd_entry j s' = fd_entry j s"
    using open_named [OF assms(1) c(1,2) d(1) c(3,4) assms(4), of E] by blast
  have f: "bootMemAddr s' = bootMemAddr s" "cur_pid s' = cur_pid s" by (simp_all add: o(4))
  have ok: "sys_ok s" "sys_ok s'" using assms(1) o(6) by (simp_all add: user_ok_def)
  have ip: "image_placed s'" using assms(2) by (simp add: image_placed_def o(7) f)
  have "file_reading i a 1 s'" "file_rest i s' = A"
    using o(2,3) d ok ip assms(5) by (simp_all add: file_reading_def file_rest_def o(5,7) f opened_fd_def)
  moreover have "frame_file w n B s'" if "frame_file w n B s" for w n B
    using that by (auto simp: frame_file_def cstr_at_def user_phys_def user_frame_def find_file_def o(7) f split: option.splits)
  moreover have "j \<noteq> i \<and> file_reading j b 1 s' \<and> file_rest j s' = file_rest j s" if "file_reading j b 1 s" for j b
  proof -
    have "j \<noteq> i" using that o(8) by (auto simp: file_reading_def)
    then show ?thesis using file_reading_put [OF ok(1) _ _ o(3) that] ok(2) unfolding o(4) by blast
  qed
  moreover have "var b s' = var b s" for b by (simp add: var_def user_phys_def user_frame_def o(7) f)
  ultimately show ?thesis using o(1-3,6,8,9) ip by (intro exI [of _ i] exI [of _ s']) (simp add: open_or_halt_def)
qed

lemma add_frames_unticked:
  assumes "user_ok t s" "image_placed s" "frame_file v0 name0 A s" "frame_file v1 name1 B s" "two_free s" "unticked f bs"
    and "a0 = addr_c0 V" "a1 = addr_c1 V" "user_buffer a0 1" "user_buffer a1 1" "a0 \<noteq> a1"
    and "\<forall>a \<in> {a0, a1}. \<not> in_region v0 (length name0 + 1) a \<and> \<not> in_region v1 (length name1 + 1) a"
    and "\<forall>(p, x, y) \<in> set (frame_list 0 (lines_of A) (lines_of B)). p < 2000"
    and "length bs + length (frame_list 0 (lines_of A) (lines_of B)) \<le> 2000"
  shows "\<exists>f' s'. add_frames E V v0 v1 f s = Some (f', s') \<and> user_ok t s' \<and> image_placed s'
     \<and> unticked f' (rev (map cell_item (frame_list 0 (lines_of A) (lines_of B))) @ bs)"
proof -
  have st: "\<exists>s'. uput a c s = Some s' \<and> user_ok t s' \<and> image_placed s' \<and> frame_file v0 name0 A s' \<and> frame_file v1 name1 B s' \<and> proc_same s s'
      \<and> var a s' = c \<and> (\<forall>b. b \<noteq> a \<longrightarrow> var b s' = var b s)"
    if "a \<in> {a0, a1}" "user_ok t s" "image_placed s" "frame_file v0 name0 A s" "frame_file v1 name1 B s" for a c s
  proof -
    have a: "user_buffer a 1" "\<not> in_region v0 (length name0 + 1) a" "\<not> in_region v1 (length name1 + 1) a" using that(1) assms(9,10,12) by auto
    show ?thesis using frame_file_store [OF that(2,3) a(1) that(4) a(2), of c] frame_file_store [OF that(2,3) a(1) that(5) a(3), of c] by auto
  qed
  obtain s1 where s1: "uput a0 48 s = Some s1" "user_ok t s1" "image_placed s1" "frame_file v0 name0 A s1" "frame_file v1 name1 B s1"
      "proc_same s s1" "var a0 s1 = 48"
    using st [of a0 s 48] assms(1-4) by auto
  obtain s2 where s2: "uput a1 48 s1 = Some s2" "user_ok t s2" "image_placed s2" "frame_file v0 name0 A s2" "frame_file v1 name1 B s2"
      "proc_same s1 s2" "var a1 s2 = 48" "var a0 s2 = 48"
    using st [of a1 s1 48] s1(2-5,7) assms(11) by auto
  have e: "fd_entry i s2 = fd_entry i s" for i using fd_entry_same [OF s2(6)] fd_entry_same [OF s1(6)] by simp
  have fr: "fd_free s2" using assms(5) by (auto simp: fd_free_def two_free_def e)
  obtain i s3 where s3: "open_or_halt E v0 s2 = Some (int i, s3)" "2 \<le> i" "i < 8" "fd_flags (fd_entry i s2) = UNUSED_FLAG" "user_ok t s3"
      "image_placed s3" "file_reading i a0 1 s3" "file_rest i s3 = A" "\<forall>b. var b s3 = var b s2" "frame_file v1 name1 B s3"
      "\<forall>j. j \<noteq> i \<longrightarrow> fd_entry j s3 = fd_entry j s2"
    using open_frame [OF s2(2,3,4) fr assms(9), of E] s2(5) by blast
  have fr3: "fd_free s3" using assms(5) s3(11) unfolding fd_free_def two_free_def e by metis
  obtain j s4 where s4: "open_or_halt E v1 s3 = Some (int j, s4)" "2 \<le> j" "j < 8" "user_ok t s4" "image_placed s4"
      "file_reading j a1 1 s4" "file_rest j s4 = B" "\<forall>b. var b s4 = var b s3" "i \<noteq> j" "file_reading i a0 1 s4" "file_rest i s4 = A"
    using open_frame [OF s3(5,6,10) fr3 assms(10), of E] s3(7,8) by metis
  have v: "var a0 s4 = 48" "var a1 s4 = 48" using s4(8) s3(9) s2(7,8) by simp_all
  have src: "source i a0 (if lines_of A = [] then [] else hd (lines_of A)) (tl (lines_of A)) False s4"
      "source j a1 (if lines_of B = [] then [] else hd (lines_of B)) (tl (lines_of B)) False s4"
    using assms(9,10) s3(2,3) s4 v by (simp_all add: source_def)
  obtain f' s' where "frame_rows E V (int i) (int j) (int 0) False False f s4 = Some (f', s')" "user_ok t s'" "image_placed s'"
      "unticked f' (rev (map cell_item (frame_list 0 (lines_of A) (lines_of B))) @ bs)"
    using frame_rows_source [OF assms(7,8) s4(9) assms(11) s4(4,5) src _ _ assms(6,13,14), of E] by auto
  then show ?thesis using s1(1) s2(1) s3(1) s4(1) by (simp add: add_frames_def flip: assms(7,8))
qed

text \<open>
  C18: the fish moves.  When the two frame files are regular files, their
  characters fit on the screen, each at a place of its own, and two descriptors are free, then
  \<^verbatim>\<open>add_frames\<close> reads both files to the end and returns, and after any number of clock ticks the
  screen shows, at every place where one of the frames has a character other than a space, the
  character of the first frame during the first fifteen ticks of each thirty and that of the
  second frame (a space where it has none) during the other fifteen.
\<close>

theorem fish_frames_alternate:
  assumes "user_ok t s" "image_placed s" "frame_file v0 name0 A s" "frame_file v1 name1 B s" "two_free s"
    and "a0 = addr_c0 V" "a1 = addr_c1 V" "user_buffer a0 1" "user_buffer a1 1" "a0 \<noteq> a1"
    and "\<forall>a \<in> {a0, a1}. \<not> in_region v0 (length name0 + 1) a \<and> \<not> in_region v1 (length name1 + 1) a"
    and "cs = frame_list 0 (lines_of A) (lines_of B)" "\<forall>(p, x, y) \<in> set cs. p < 2000" "distinct (map fst cs)"
  shows "\<exists>f1 s1 f2. add_frames E V v0 v1 (fish_start v) s = Some (f1, s1) \<and> repeat_opt n mp1_rtc_tasklet f1 = Some f2
     \<and> (\<forall>(p, x, y) \<in> set cs. vmem f2 (2 * p) = (if n mod 30 < 15 then x else y))"
proof -
  have "set (map fst cs) \<subseteq> {..<2000}" using assms(13) by auto
  then have len: "length cs \<le> 2000" using distinct_card [OF assms(14)] card_mono [of "{..<2000 :: nat}" "set (map fst cs)"] by simp
  have un: "unticked (fish_start v) []" by (simp add: unticked_def fish_start_blinkers)
  obtain f1 s1 where f1: "add_frames E V v0 v1 (fish_start v) s = Some (f1, s1)" "unticked f1 (rev (map cell_item cs))"
    using add_frames_unticked [OF assms(1-5) un assms(6-11), of E] assms(12,13) len by auto
  have u: "unat (location (cell_item c)) = fst c" if "c \<in> set cs" for c
    using that assms(13) by (auto simp: cell_item_def unat_of_nat take_bit_nat_eq_self split: prod.splits)
  have "distinct (map (unat \<circ> location \<circ> cell_item) cs)" using assms(14) u by (simp cong: map_cong)
  then have dl: "distinct (map location (rev (map cell_item cs)))" by (simp add: rev_map [symmetric] distinct_map inj_on_def)
  have un1: "blinkers f1 (rev (map cell_item cs))" using f1(2) by (simp add: unticked_def)
  then obtain f2 where f2: "repeat_opt n mp1_rtc_tasklet f1 = Some f2" using blink.steps_return by blast
  have "vmem f2 (2 * p) = (if n mod 30 < 15 then x else y)" if c: "(p, x, y) \<in> set cs" for p x y
  proof -
    let ?b = "cell_item (p, x, y)"
    have b: "phase 0 ?b = ?b" "well_timed ?b" "unat (location ?b) = p" using u [OF c] by (simp_all add: cell_item_def phase_def well_timed_def)
    have "?b \<in> set (rev (map cell_item cs))" using c by simp
    then obtain ys zs where s: "rev (map cell_item cs) = ys @ ?b # zs" by (blast dest: split_list)
    have o: "\<forall>c \<in> set (ys @ zs). location c \<noteq> location ?b" using dl unfolding s by (fastforce simp: image_iff)
    have "vmem f1 (2 * unat (location ?b)) = shown 0 ?b" using f1(2) dl unfolding unticked_def s by (simp add: shown_def cell_item_def)
    from blink.steps_show [of f1 ys ?b zs, OF _ o this b(2), of n] un1 f2 have "vmem f2 (2 * unat (location ?b)) = shown n ?b"
      unfolding s by (auto simp: b(1))
    then show ?thesis by (simp add: b(3)) (simp add: shown_def cell_item_def)
  qed
  with f1(1) f2 show ?thesis by blast
qed

section \<open>A fish to run\<close>

text \<open>Process 0 on terminal 1; the constant "abc", the name of the file in the image, lies at 0x08300000
  and is used for both frames.\<close>

definition fish_memory :: mem where
  "fish_memory = demo_image(0xB00000 := 97, 0xB00001 := 98, 0xB00002 := 99)"

definition fish_demo :: sys where
  "fish_demo = with_memory fish_memory demo_sys"

definition demo_vars :: fish_vars where
  "demo_vars = \<lparr>addr_c0 = 0x08100000, addr_c1 = 0x08100001, addr_ret_val = 0x08100004, addr_garbage = 0x08100008,
     addr_vmem_base = 0x0810000C, addr_file0 = 0x08300000, addr_file1 = 0x08300000, struct_init = blank_blink\<rparr>"

lemma fish_memory_low: "unat a < 0x800000 \<Longrightarrow> fish_memory a = demo_image a"
  unfolding fish_memory_def by (simp add: word_unat_eq_iff)

lemma fish_demo_image: "same_image 0x500000 demo_image fish_memory"
  by (rule demo_with_memory, erule fish_memory_low)

lemma fish_demo_ok: "user_ok 1 fish_demo" "image_placed fish_demo"
  unfolding fish_demo_def by (rule demo_with_memory, erule fish_memory_low)+

lemma fish_demo_file: "frame_file 0x08300000 [97, 98, 99] [104, 101, 108, 108, 111] fish_demo"
proof -
  have m: "memory fish_demo = fish_memory" "bootMemAddr fish_demo = 0x500000" "cur_pid fish_demo = 0" by (simp_all add: fish_demo_def demo_sys_sel)
  have c: "cstr_at 0x08300000 [97, 98, 99] fish_demo"
    by (simp add: user_buffer_def cstr_at_def user_phys_def user_frame_def m rd_bytes_def view_def upt_rec) (simp add: fish_memory_def demo_image_def)
  have "directory fish_memory 0x500000 = directory demo_image 0x500000"
    by (rule same_image_directory [OF fish_demo_image]) (simp add: demo_counts)
  moreover have "name_of (ld_dentry demo_image 0x500040) = [97, 98, 99]"
    by (simp add: name_of_ld_dentry cstr_n_def upt_rec view_def demo_image_def)
  ultimately have ff: "find_file [97, 98, 99] fish_demo = Some (ld_dentry demo_image 0x500040)"
    by (simp add: find_file_def m directory_def demo_counts dentry_addr_def)
  have d: "fileType (ld_dentry demo_image 0x500040) = 2" "inodeNum (ld_dentry demo_image 0x500040) = 0"
    by (simp_all add: ld_dentry_def ld32_def demo_image_def)
  have "file_data fish_memory 0x500000 0 = [104, 101, 108, 108, 111]"
    using same_image_file [OF fish_demo_image demo_image_ok, of 0] demo_file by (simp add: demo_counts)
  then show ?thesis using c ff d same_image_header(2) [OF fish_demo_image] by (simp add: frame_file_def m plain_name_def chars_def demo_counts)
qed

lemma demo_frames: "frame_list 0 (lines_of [104, 101, 108, 108, 111]) (lines_of [104, 101, 108, 108, 111])
    = [(40, 104, 104), (41, 101, 101), (42, 108, 108), (43, 108, 108), (44, 111, 111)]"
  by (simp add: frame_list.simps frame_cells.simps)

theorem fish_frames_alternate_witness:
  "\<exists>f1 s1 f2. add_frames demo_env demo_vars 0x08300000 0x08300000 (fish_start (\<lambda>_. 0)) fish_demo = Some (f1, s1)
     \<and> repeat_opt 44 mp1_rtc_tasklet f1 = Some f2 \<and> vmem f2 88 = 111"
proof -
  have fr: "two_free fish_demo"
    unfolding two_free_def by (rule bexI [of _ 4], rule bexI [of _ 5])
      (simp_all add: fd_entry_def fish_demo_def demo_sys_sel demo_proc_def initial_fdt_def empty_fd_def)
  have a: "user_buffer 0x08100000 1" "user_buffer 0x08100001 1" "(0x08100000 :: u32) \<noteq> 0x08100001"
    "\<forall>a \<in> {0x08100000, 0x08100001}. \<not> in_region 0x08300000 (length [97, 98, 99 :: byte] + 1) a \<and> \<not> in_region 0x08300000 (length [97, 98, 99 :: byte] + 1) a"
    by (simp_all add: user_buffer_def in_region_def)
  have v: "0x08100000 = addr_c0 demo_vars" "0x08100001 = addr_c1 demo_vars" by (simp_all add: demo_vars_def)
  show ?thesis using fish_frames_alternate [OF fish_demo_ok fish_demo_file fish_demo_file fr v a demo_frames [symmetric], of demo_env "\<lambda>_. 0" 44]
    by auto
qed

end
