(* ===== verification/User_Buffers.thy ===== *)
theory User_Buffers
  imports User_Fish
begin

unbundle bit_operations_syntax

text \<open>
  Arrays of a program: what a store, an output, a copy of a string or a read does to an array in the
  program's page, and what such a step leaves alone.  The programs that edit an array in place
  (\<^verbatim>\<open>ece391grep.c\<close>, \<^verbatim>\<open>ece391pingpong.c\<close>) use these facts only.
\<close>

section \<open>Steps of a program\<close>

text \<open>
  \<open>goes t F A bs s s'\<close>: the program has printed \<open>bs\<close> on its terminal \<open>t\<close>, has changed at most the
  descriptors \<open>F\<close> and the bytes at the addresses \<open>A\<close>, and can go on.
\<close>

definition goes :: "nat \<Rightarrow> nat set \<Rightarrow> u32 set \<Rightarrow> byte list \<Rightarrow> sys \<Rightarrow> sys \<Rightarrow> bool" where
  "goes t F A bs s s' \<longleftrightarrow> user_ok t s' \<and> image_placed s' \<and> bootMemAddr s' = bootMemAddr s
     \<and> same_image (bootMemAddr s) (memory s) (memory s') \<and> displays t bs s s'
     \<and> (\<forall>j. j \<notin> F \<longrightarrow> fd_entry j s' = fd_entry j s) \<and> (\<forall>v. user_buffer v 1 \<and> v \<notin> A \<longrightarrow> var v s' = var v s)"

lemma goes_refl: "user_ok t s \<Longrightarrow> image_placed s \<Longrightarrow> goes t F A [] s s"
  by (simp add: goes_def)

lemma goes_ok: "goes t F A bs s s' \<Longrightarrow> user_ok t s'" "goes t F A bs s s' \<Longrightarrow> image_placed s'"
  by (simp_all add: goes_def)

lemma goes_displays: "goes t F A bs s s' \<Longrightarrow> displays t bs s s'"
  by (simp add: goes_def)

lemma goes_trans: "goes t F A bs s s1 \<Longrightarrow> goes t F A cs s1 s2 \<Longrightarrow> goes t F A (bs @ cs) s s2"
  unfolding goes_def by (auto intro: displays_trans same_image_trans)

lemma goes_mono: "goes t F A bs s s' \<Longrightarrow> F \<subseteq> G \<Longrightarrow> A \<subseteq> B \<Longrightarrow> goes t G B bs s s'"
  by (auto simp: goes_def)

lemma goes_silent: "goes t F A [] s s1 \<Longrightarrow> goes t F A bs s1 s2 \<Longrightarrow> goes t F A bs s s2"
  using goes_trans [of t F A "[]"] by simp

lemma prints_goes:
  assumes "user_ok t s" "image_placed s" "prints t bs s s'"
  shows "goes t F A bs s s'"
proof -
  have ok: "sys_ok s" using assms(1) by (simp add: user_ok_def)
  note p = prints_same [OF assms(3)] prints_image [OF assms(3,2)]
  have "var v s' = var v s" if "user_buffer v 1" for v
    using user_not_video [OF ok that, of 0] assms(3) prints_phys [OF assms(3), of v] by (simp add: var_def prints_def)
  then show ?thesis
    using prints_user_ok [OF assms(1,3)] image_placed_same [OF p assms(2)] p(2) prints_displays [OF assms(3)] fd_entry_same [OF p(1)]
    by (simp add: goes_def)
qed

section \<open>What a step leaves alone\<close>

definition apart :: "u32 set \<Rightarrow> u32 \<Rightarrow> nat \<Rightarrow> bool" where
  "apart A v n \<longleftrightarrow> (\<forall>i < n. v + of_nat i \<notin> A)"

lemma apart_empty [simp]: "apart {} v n"
  by (simp add: apart_def)

lemma apart_mono: "apart B v n \<Longrightarrow> A \<subseteq> B \<Longrightarrow> apart A v n"
  by (auto simp: apart_def)

lemma user_buffer_part:
  assumes "user_buffer v n" "i + k \<le> n"
  shows "user_buffer (v + of_nat i) k"
proof -
  have "unat v + n \<le> 0x08400000" "0x08000000 \<le> unat v" using assms(1) by (simp_all add: user_buffer_def word_le_nat_alt)
  moreover from this have "unat (v + of_nat i) = unat v + i" using assms(2) by (simp add: unat_word_ariths unat_of_nat_32)
  ultimately show ?thesis using assms(2) by (simp add: user_buffer_def word_le_nat_alt)
qed

lemma user_phys_add: "user_phys (v + x) s = user_phys v s + x"
  by (simp add: user_phys_def)

lemma user_phys_with_memory [simp]: "user_phys v (with_memory m s) = user_phys v s"
  by (simp add: user_phys_def user_frame_def)

text \<open>An array of the program with its contents.\<close>

definition held :: "u32 \<Rightarrow> byte list \<Rightarrow> sys \<Rightarrow> bool" where
  "held v bs s \<longleftrightarrow> user_buffer v (length bs) \<and> (\<forall>i < length bs. var (v + of_nat i) s = bs ! i)"

lemma held_bytes: "held v bs s \<longleftrightarrow> user_buffer v (length bs) \<and> rd_bytes (memory s) (user_phys v s) (length bs) = bs"
  by (auto simp: held_def list_eq_iff_nth_eq var_def user_phys_add)

lemma cstr_held: "cstr_at v bs s \<longleftrightarrow> held v (bs @ [0]) s \<and> 0 \<notin> set bs"
  by (auto simp: cstr_at_def held_bytes)

lemma held_goes:
  assumes "held v bs s" "goes t F A cs s s'" "apart A v (length bs)"
  shows "held v bs s'"
proof -
  have "user_buffer (v + of_nat i) 1" if "i < length bs" for i
    using assms(1) that by (intro user_buffer_part) (auto simp: held_def)
  then show ?thesis using assms by (simp add: held_def goes_def apart_def)
qed

lemma cstr_goes: "cstr_at v bs s \<Longrightarrow> goes t F A cs s s' \<Longrightarrow> apart A v (length bs + 1) \<Longrightarrow> cstr_at v bs s'"
  using held_goes [of v "bs @ [0]" s t F A cs s'] by (simp add: cstr_held)

lemma held_part:
  assumes "held v bs s" "i + n \<le> length bs"
  shows "held (v + of_nat i) (take n (drop i bs)) s"
  using assms user_buffer_part [of v "length bs" i n] by (auto simp: held_def add.assoc simp flip: of_nat_add)

lemma held_cstr:
  assumes "held v bs s" "i \<le> k" "k < length bs" "bs ! k = 0" "0 \<notin> set (take (k - i) (drop i bs))"
  shows "cstr_at (v + of_nat i) (take (k - i) (drop i bs)) s"
proof -
  have "take (k - i + 1) (drop i bs) = take (k - i) (drop i bs) @ [0]"
    using assms(2-4) by (simp add: take_Suc_conv_app_nth)
  then show ?thesis using held_part [OF assms(1), of i "k - i + 1"] assms(2,3,5) by (simp add: cstr_held)
qed

lemma file_reading_goes:
  assumes "file_reading fd buf n s" "goes t F A bs s s'" "fd \<notin> F" "user_buffer w m" "0 < m"
  shows "file_reading fd w m s'" "file_rest fd s' = file_rest fd s"
proof -
  have g: "sys_ok s'" "image_placed s'" "bootMemAddr s' = bootMemAddr s" "same_image (bootMemAddr s) (memory s) (memory s')"
      "fd_entry fd s' = fd_entry fd s"
    using assms(2,3) by (simp_all add: goes_def user_ok_def)
  have a: "image_placed s" "fd_inodeNum (fd_entry fd s) < numInodes (memory s) (bootMemAddr s)" using assms(1) by (simp_all add: file_reading_def)
  have "file_data (memory s') (bootMemAddr s) (fd_inodeNum (fd_entry fd s)) = file_data (memory s) (bootMemAddr s) (fd_inodeNum (fd_entry fd s))"
    using a by (intro same_image_file [OF g(4)]) (simp_all add: image_placed_def)
  then show "file_reading fd w m s'" "file_rest fd s' = file_rest fd s"
    using assms(1,4,5) g same_image_header [OF g(4)] by (simp_all add: file_reading_def file_rest_def)
qed

lemma directory_goes:
  assumes "goes t F A bs s s'" "image_placed s"
  shows "directory (memory s') (bootMemAddr s') = directory (memory s) (bootMemAddr s)" "find_file name s' = find_file name s"
proof -
  have g: "bootMemAddr s' = bootMemAddr s" "same_image (bootMemAddr s) (memory s) (memory s')" using assms(1) by (simp_all add: goes_def)
  then show "directory (memory s') (bootMemAddr s') = directory (memory s) (bootMemAddr s)"
    using assms(2) same_image_directory [OF g(2)] by (simp add: image_placed_def)
  then show "find_file name s' = find_file name s" by (simp add: find_file_def)
qed

lemma dir_reading_goes:
  assumes "dir_reading fd buf n s" "goes t F A bs s s'" "fd \<notin> F"
  shows "dir_reading fd buf n s'" "dir_rest fd s' = dir_rest fd s"
proof -
  have g: "sys_ok s'" "image_placed s'" "fd_entry fd s' = fd_entry fd s" using assms(2,3) by (simp_all add: goes_def user_ok_def)
  have "directory (memory s') (bootMemAddr s') = directory (memory s) (bootMemAddr s)"
    using assms(1) by (intro directory_goes(1) [OF assms(2)]) (simp add: dir_reading_def)
  then show "dir_reading fd buf n s'" "dir_rest fd s' = dir_rest fd s"
    using assms(1) g by (simp_all add: dir_reading_def dir_rest_def)
qed

section \<open>Stores, outputs, copies, reads\<close>

abbreviation (input) region :: "u32 \<Rightarrow> nat \<Rightarrow> u32 set" where
  "region v n \<equiv> {a. in_region v n a}"

lemma uget_held: "user_ok t s \<Longrightarrow> held v bs s \<Longrightarrow> i < length bs \<Longrightarrow> uget (v + of_nat i) s = Some (bs ! i)"
  using user_buffer_part [of v "length bs" i 1] uget_var [of t s "v + of_nat i"] by (simp add: held_def)

text \<open>A block of bytes stored in an array.\<close>

lemma store_goes:
  assumes "user_ok t s" "image_placed s" "user_buffer v (length bs)"
  defines "s' \<equiv> with_memory (wr_bytes (memory s) (user_phys v s) bs) s"
  shows "goes t F (region v (length bs)) [] s s'"
proof -
  note st = user_store [OF assms(1-3), folded s'_def]
  have "var w s' = var w s" if "\<not> in_region v (length bs) w" for w
  proof -
    have "\<not> in_region (user_phys v s) (length bs) (user_phys w s)" using that by (simp add: in_region_def user_phys_def)
    then show ?thesis using st(4) [of w] by (simp add: var_def s'_def wr_bytes_outside)
  qed
  then show ?thesis
    using st(1,3,5) image_placed_same [OF st(2,3) assms(2)] fd_entry_same [OF st(2)] by (simp add: goes_def displays_def)
qed

lemma held_store:
  assumes "held v bs s" "i + length cs \<le> length bs"
  shows "held v (take i bs @ cs @ drop (i + length cs) bs) (with_memory (wr_bytes (memory s) (user_phys (v + of_nat i) s) cs) s)" (is "held v ?bs ?s")
proof -
  have len: "length bs \<le> 0x400000" using assms(1) by (auto simp: held_def user_buffer_def word_le_nat_alt)
  have "var (v + of_nat j) ?s = ?bs ! j" if "j < length bs" for j
  proof -
    let ?d = "user_phys (v + of_nat j) s - user_phys (v + of_nat i) s"
    have d: "?d = of_nat j - of_nat i" by (simp add: user_phys_def)
    have u: "unat ?d = (if i \<le> j then j - i else j + 2 ^ 32 - i)"
      unfolding d using that assms(2) len by (simp add: unat_sub_if' unat_of_nat_32 word_le_nat_alt)
    have p: "user_phys (v + of_nat j) ?s = user_phys (v + of_nat j) s" by (simp add: user_phys_def user_frame_def)
    have "memory s (user_phys (v + of_nat j) s) = bs ! j" using assms(1) that by (simp add: held_def var_def)
    then show ?thesis using that assms(2) len u unfolding var_def p by (auto simp: wr_bytes_def nth_append)
  qed
  then show ?thesis using assms by (simp add: held_def)
qed

lemma region_part:
  assumes "i + k \<le> n" "n \<le> 2 ^ 32"
  shows "region (v + of_nat i) k \<subseteq> region v n"
proof
  fix a assume "a \<in> region (v + of_nat i) k"
  then obtain j where "j < k" "a = v + of_nat i + of_nat j" by (auto elim: in_regionE)
  then have "a - v = of_nat (i + j)" "i + j < n" "i + j < 2 ^ 32" using assms by simp_all
  then show "a \<in> region v n" by (simp add: in_region_def unat_of_nat_32 del: of_nat_add)
qed

lemma held_length: "held v bs s \<Longrightarrow> length bs \<le> 2 ^ 32"
  by (auto simp: held_def user_buffer_def word_le_nat_alt)

lemma uput_held:
  assumes "user_ok t s" "image_placed s" "held v bs s" "i < length bs"
  shows "\<exists>s'. uput (v + of_nat i) c s = Some s' \<and> held v (bs[i := c]) s' \<and> goes t F (region v (length bs)) [] s s'"
proof -
  let ?s = "with_memory (wr_bytes (memory s) (user_phys (v + of_nat i) s) [c]) s"
  have ub: "user_buffer v (length bs)" "user_buffer (v + of_nat i) (length [c])"
    using assms(3,4) user_buffer_part [of v "length bs" i 1] by (simp_all add: held_def)
  have ok: "sys_ok s" using assms(1) by (simp add: user_ok_def)
  have "uput (v + of_nat i) c s = Some ?s" using uput_store(1,2) [OF ok ub(1) assms(4)] by simp
  moreover have "held v (bs[i := c]) ?s" using held_store [OF assms(3), of i "[c]"] assms(4) by (simp add: upd_conv_take_nth_drop)
  moreover have "goes t F (region v (length bs)) [] s ?s"
    by (rule goes_mono [OF store_goes [OF assms(1,2) ub(2)] subset_refl region_part]) (use assms(4) held_length [OF assms(3)] in simp_all)
  ultimately show ?thesis by blast
qed

lemma fdputs_goes:
  assumes "user_ok t s" "image_placed s" "cstr_at v bs s"
  shows "\<exists>s'. ece391_fdputs E 1 v s = Some s' \<and> goes t F A bs s s'"
  using fdputs_prints [OF assms(1,3), of E] prints_goes [OF assms(1,2)] by blast


lemma strcpy_held:
  assumes "user_ok t s" "image_placed s" "held v bs s" "i \<le> k" "k < length bs" "bs ! k = 0" "0 \<notin> set (take (k - i) (drop i bs))"
  shows "\<exists>s'. ece391_strcpy v (v + of_nat i) s = Some s' \<and> held v (take (k - i) (drop i bs) @ 0 # drop (Suc (k - i)) bs) s'
     \<and> goes t F (region v (length bs)) [] s s'"
proof -
  let ?c = "take (k - i) (drop i bs)" and ?p = "user_phys v s"
  let ?s = "with_memory (wr_bytes (memory s) ?p (?c @ [0])) s"
  have ok: "sys_ok s" using assms(1) by (simp add: user_ok_def)
  have c: "cstr_at (v + of_nat i) ?c s" by (rule held_cstr) (use assms in simp_all)
  note cs = cstr_at_str [OF ok c]
  have n: "length ?c = k - i" using assms(4,5) by simp
  have ub: "user_buffer v (length bs)" "user_buffer v (Suc (k - i))" "user_buffer (v + of_nat i) (Suc (k - i))"
    using assms(3-5) user_buffer_part [of v "length bs" i "Suc (k - i)"] by (auto simp: held_def user_buffer_def)
  have sl: "strlen (view (memory s) (?p + of_nat i)) = Some (k - i)" using cs(2) n by (simp add: user_phys_add)
  have rb: "rd_bytes (memory s) (?p + of_nat i) (Suc (k - i)) = ?c @ [0]"
    using c n by (simp add: cstr_at_def user_phys_add)
  have le: "i + Suc (k - i) \<le> 2 ^ 32" using assms(4,5) held_length [OF assms(3)] by simp
  have "ece391_strcpy v (v + of_nat i) s = Some ?s"
    using cs(3) n user_ptr_phys [OF ok ub(2)] user_ptr_phys [OF ok ub(3)] strcpy_down [OF sl le] rb
    by (simp add: ece391_strcpy_def user_phys_add)
  moreover have "held v (?c @ 0 # drop (Suc (k - i)) bs) ?s" using held_store [OF assms(3), of 0 "?c @ [0]"] assms(4,5) by simp
  moreover have "goes t F (region v (length bs)) [] s ?s"
    using goes_mono [OF store_goes [OF assms(1,2), of v "?c @ [0]"] subset_refl region_part [of 0 _ "length bs" v, simplified]]
      ub(2) n assms(5) held_length [OF assms(3)] by simp
  ultimately show ?thesis by blast
qed

text \<open>What a read of a file or of the directory does: the bytes and the new position.\<close>

lemma after_read_goes:
  fixes pos :: u32
  assumes "user_ok t s" "image_placed s" "fd < 8" "user_buffer v (length d)"
  defines "s' \<equiv> after_read fd (user_phys v s) d pos s"
  shows "goes t {fd} (region v (length d)) [] s s'" "var x s' = var x (with_memory (wr_bytes (memory s) (user_phys v s) d) s)"
proof -
  let ?w = "with_memory (wr_bytes (memory s) (user_phys v s) d) s"
  have s': "s' = fdt_put (nat (cur_pid s)) fd ((fd_entry fd s)\<lparr>file_position := pos\<rparr>) ?w" by (simp add: s'_def after_read_def)
  have ok: "sys_ok s" using assms(1) by (simp add: user_ok_def)
  note u = user_ok_after_read [OF assms(1-4), where pos = pos, folded s'_def]
  have m: "memory s' = memory ?w" "bootMemAddr s' = bootMemAddr s" "user_phys x s' = user_phys x ?w" for x
    by (simp_all add: s' user_phys_def user_frame_def)
  show v: "var x s' = var x ?w" for x by (simp add: var_def m)
  note g = store_goes [OF assms(1,2,4), of "{fd}"]
  obtain k where k: "cur_pid s = int k" using sys_okD [OF ok] by metis
  have "sys_ok ?w" using g by (simp add: goes_def user_ok_def)
  then have e: "fd_entry j s' = fd_entry j ?w" if "j \<noteq> fd" for j
    using fd_entry_put [of ?w k fd j] k assms(3) that by (simp add: s')
  have "image_placed s'" using after_read_facts(2) [OF ok assms(2-4), of pos] by (simp add: s'_def user_phys_def)
  then show "goes t {fd} (region v (length d)) [] s s'" using g u e by (simp add: goes_def m v displays_def)
qed

text \<open>A read from a file into a part of an array.\<close>

lemma read_held:
  assumes "user_ok t s" "held v bs s" "i + n \<le> length bs" "file_reading fd (v + of_nat i) n s" "n \<le> 1024"
  defines "d \<equiv> take n (file_rest fd s)"
  shows "\<exists>s'. ece391_read E (int fd) (v + of_nat i) (int n) s = Some (int (length d), s')
     \<and> held v (take i bs @ d @ drop (i + length d) bs) s' \<and> goes t {fd} (region v (length bs)) [] s s'
     \<and> file_reading fd (v + of_nat i) n s' \<and> file_rest fd s = d @ file_rest fd s'"
proof -
  let ?pos = "file_position (fd_entry fd s) + of_nat (length d)"
  define s' where "s' = after_read fd (user_phys (v + of_nat i) s) d ?pos s"
  have f: "image_placed s" "fd < 8" "user_buffer (v + of_nat i) n" using assms(4) by (simp_all add: file_reading_def)
  have ub: "user_buffer (v + of_nat i) (length d)" using f(3) by (auto simp: user_buffer_def d_def)
  note r = read_step_file [OF assms(4), folded user_phys_def d_def, folded s'_def]
  note a = after_read_goes [OF assms(1) f(1,2) ub, where pos = ?pos, folded s'_def]
  have rd: "ece391_read E (int fd) (v + of_nat i) (int n) s = Some (int (length d), s')" by (rule read_stepD(1) [OF r(1) f(2) assms(5)])
  have len: "i + length d \<le> length bs" using assms(3) by (simp add: d_def)
  have "held v (take i bs @ d @ drop (i + length d) bs) s'" using held_store [OF assms(2) len] by (simp add: held_def a(2))
  moreover have "goes t {fd} (region v (length bs)) [] s s'"
    by (rule goes_mono [OF a(1) subset_refl region_part]) (use len held_length [OF assms(2)] in simp_all)
  ultimately show ?thesis using rd r(2,3) by blast
qed

text \<open>A read from the directory.\<close>

lemma read_entry:
  assumes "user_ok t s" "dir_reading fd buf 32 s"
  defines "nm \<equiv> (if dir_rest fd s = [] then [] else hd (dir_rest fd s))"
  shows "\<exists>s'. ece391_read E (int fd) buf 32 s = Some (int (length nm), s') \<and> held buf nm s' \<and> length nm \<le> 32
     \<and> goes t {fd} (region buf (length nm)) [] s s' \<and> dir_reading fd buf 32 s'
     \<and> (dir_rest fd s \<noteq> [] \<longrightarrow> nm \<noteq> [] \<and> 0 \<notin> set nm \<and> dir_rest fd s' = tl (dir_rest fd s))"
proof -
  let ?i = "unat (file_position (fd_entry fd s))" and ?dir = "directory (memory s) (bootMemAddr s)" and ?p = "user_phys buf s"
  have a: "image_placed s" "fd < 8" "user_buffer buf 32" "?i \<le> length ?dir" "[] \<notin> name_of ` set ?dir" using assms(2) by (auto simp: dir_reading_def)
  have dr: "dir_rest fd s = map name_of (drop ?i ?dir)" by (simp add: dir_rest_def drop_map)
  have nm: "nm = (if ?i < length ?dir then name_of (?dir ! ?i) else [])" using a(4) by (auto simp: nm_def dr hd_map hd_drop_conv_nth)
  define pos where "pos = (if ?i < length ?dir then file_position (fd_entry fd s) + 1 else 0)"
  define s' where "s' = after_read fd ?p nm pos s"
  note r = read_step_dir [OF assms(2), folded user_phys_def]
  have rs: "read_step d0 fd buf 32 s = Some (nm, s')" "dir_reading fd buf 32 s'" for d0
    using r(1) [of d0] r(2) by (simp_all add: nm pos_def s'_def split: if_splits)
  have n: "length (name_of d) \<le> 32" "0 \<notin> set (name_of d)" if "d \<in> set ?dir" for d
    using that by (auto simp: directory_def name_of_ld_dentry length_cstr_n) (auto simp: cstr_n_def dest: set_takeWhileD)
  have n32: "length nm \<le> 32" using n(1) by (simp add: nm)
  have ub: "user_buffer buf (length nm)" using a(3) n32 by (auto simp: user_buffer_def)
  note g = after_read_goes [OF assms(1) a(1,2) ub, where pos = pos, folded s'_def]
  have "var (buf + of_nat j) s' = nm ! j" if "j < length nm" for j
    using that n32 wr_bytes_at [of j nm "memory s" ?p] unfolding g(2) by (simp add: var_def user_phys_add)
  then have h: "held buf nm s'" using ub by (simp add: held_def)
  have "nm \<noteq> [] \<and> 0 \<notin> set nm \<and> dir_rest fd s' = tl (dir_rest fd s)" if "dir_rest fd s \<noteq> []"
  proof -
    have i: "?i < length ?dir" using that by (simp add: dr)
    then have "name_of (?dir ! ?i) \<in> name_of ` set ?dir" by (intro imageI nth_mem)
    with a(5) have "name_of (?dir ! ?i) \<noteq> []" by metis
    moreover have "dir_rest fd s' = tl (dir_rest fd s)" using r(3) i by (simp add: s'_def nm pos_def)
    ultimately show ?thesis using n(2) i by (simp add: nm)
  qed
  moreover have "ece391_read E (int fd) buf 32 s = Some (int (length nm), s')" using read_stepD(1) [OF rs(1) a(2)] by simp
  ultimately show ?thesis using h n32 g(1) rs(2) by blast
qed

section \<open>Opening and closing\<close>

lemma fdt_put_goes:
  assumes "user_ok t s" "image_placed s" "sys_ok (fdt_put (nat (cur_pid s)) i e s)" "i < 8"
  shows "goes t {i} A [] s (fdt_put (nat (cur_pid s)) i e s)" "fd_entry i (fdt_put (nat (cur_pid s)) i e s) = e"
proof -
  let ?s = "fdt_put (nat (cur_pid s)) i e s"
  have ok: "sys_ok s" using assms(1) by (simp add: user_ok_def)
  obtain k where k: "k < 6" "cur_pid s = int k" using sys_okD [OF ok] by metis
  have len: "nat (cur_pid s) < length (PCB_at s)" using ok k by (simp add: sys_ok_def proc_inv_def proc_wf_def)
  have en: "fd_entry j ?s = (if j = i then e else fd_entry j s)" for j using fd_entry_put [OF ok k(2) assms(4)] k by simp
  then show "fd_entry i ?s = e" by simp
  have "user_ok t ?s" using assms(1,3) len by (simp add: user_ok_def)
  then show "goes t {i} A [] s ?s"
    using en assms(2) by (simp add: goes_def image_placed_def displays_def var_def user_phys_def user_frame_def)
qed

text \<open>Port traffic and the flags of the clock concern no program.\<close>

lemma port_goes:
  assumes "user_ok t s" "image_placed s" "s' = s\<lparr>RTC_read_flag := f, io_pos := x, io_out := y\<rparr>"
  shows "goes t F A [] s s'"
proof -
  have ps: "proc_same s s'" by (simp add: assms(3) proc_same_def)
  have "user_ok t s'" using assms(1) proc_same_ok [OF ps] process_terminal_cong [of s' s]
    by (simp add: user_ok_def) (simp add: assms(3) term_wf_def console_wf_def)
  moreover have "vterm_of u s' = vterm_of u s" "var v s' = var v s" "image_placed s'" for u v
    using assms(2) by (simp_all add: assms(3) vterm_of_def home_page_def var_def user_phys_def user_frame_def image_placed_def)
  ultimately show ?thesis using fd_entry_same [OF ps] by (simp add: goes_def displays_def) (simp add: assms(3))
qed

lemma RTCOpen_port:
  assumes "RTCOpen s = Some (r, s')"
  obtains f x y where "s' = s\<lparr>RTC_read_flag := f, io_pos := x, io_out := y\<rparr>"
proof -
  obtain f where "s' = snd (RTCWrite_freq 2 (s\<lparr>RTC_read_flag := f\<rparr>))"
    using assms by (auto simp: RTCOpen_def Option.bind_eq_Some_conv split: if_splits) (metis snd_conv)
  then show thesis using RTCWrite_freq_port [of 2 "s\<lparr>RTC_read_flag := f\<rparr>"] that by auto
qed

lemma open_goes:
  assumes "user_ok t s" "image_placed s" "cstr_at v name s" "plain_name name" "find_file name s = Some d" "fileType d \<le> 2" "fd_free s"
  shows "\<exists>i s'. ece391_open E v s = Some (int i, s') \<and> 2 \<le> i \<and> i < 8 \<and> fd_flags (fd_entry i s) = UNUSED_FLAG
     \<and> goes t {i} A [] s s' \<and> fd_entry i s' = opened_fd d"
proof -
  have ok: "sys_ok s" using assms(1) by (simp add: user_ok_def)
  obtain k where k: "k < 6" "cur_pid s = int k" "fdt s = Some k" "pcb_place (cur_pid s) s = Some k" using sys_okD [OF ok] by metis
  let ?f = "view (memory s) (user_phys v s)"
  have "cstr_n ?f 33 = name" using cstr_n_view [OF assms(3)] assms(4) by (simp add: plain_name_def)
  note p = plain_not_special [OF this assms(4)]
  have lk: "lookup ?f s = Some d" using assms(5) p(2) by (simp add: lookup_def find_file_def)
  define i where "i = free_fd (process_fdt (PCB_at s ! k)) 2"
  have i: "2 \<le> i" "i \<le> 8" "\<forall>j \<in> {2..<i}. fd_flags (fd_entry j s) \<noteq> UNUSED_FLAG" "i < 8 \<Longrightarrow> fd_flags (fd_entry i s) = UNUSED_FLAG"
    using free_fd_spec [of 2 "process_fdt (PCB_at s ! k)"] k(2) by (auto simp: i_def fd_entry_def)
  have i8: "i < 8" using i(1-3) assms(7) by (cases "i = 8") (auto simp: fd_free_def)
  obtain s' where s': "sys_open (dentry_init (user_locals E)) (Some ?f) s = Some (int i, s')" "proc_same (fdt_put k i (opened_fd d) s) s'"
    using sys_open_cases(5) [OF ok k(2) p(1) i8 [unfolded i_def] lk assms(6)] unfolding i_def by blast
  have "v \<noteq> 0" using assms(3) by (auto simp: cstr_at_def user_buffer_def)
  then have op: "ece391_open E v s = Some (int i, s')" using s'(1) cstr_at_str(1) [OF ok assms(3)] by (simp add: ece391_open_sys str_arg_def)
  have en: "fd_entry j s' = (if j = i then opened_fd d else fd_entry j s)" for j
    using fd_entry_same [OF s'(2)] fd_entry_put [OF ok k(2) i8] by simp
  have sh: "s' = s \<or> (\<exists>i e. s' = fdt_put k i e s \<or> (\<exists>v. RTCOpen (fdt_put k i e s) = Some (v, s')))"
    using sys_open_shape [OF s'(1) _ k(4,3)] ok by (simp add: sys_ok_def proc_inv_def)
  have m: "memory s' = memory s" "bootMemAddr s' = bootMemAddr s" "user_phys w s' = user_phys w s" "vterm_of u s' = vterm_of u s" for u w
    using sh by (auto elim!: RTCOpen_port simp: user_phys_def user_frame_def) (simp_all add: vterm_of_def home_page_def fdt_put_def)
  have q: "quiet s s'" using assms(1) by (intro sys_open_quiet [OF ok _ s'(1)]) (simp add: user_ok_def)
  have len: "k < length (PCB_at s)" using ok k(1) by (simp add: sys_ok_def proc_inv_def proc_wf_def)
  have "process_terminal s' = process_terminal (fdt_put k i (opened_fd d) s)" using s'(2) by (intro process_terminal_cong) (simp_all add: proc_same_def)
  then have "user_ok t s'" using assms(1) q sys_open_inv [OF ok s'(1)] len by (simp add: user_ok_def quiet_def)
  then have "goes t {i} A [] s s'" using en m assms(2) by (simp add: goes_def displays_def image_placed_def var_def)
  with op i(1,4) i8 en show ?thesis by (metis (full_types))
qed

text \<open>A regular file of the file system with its contents.\<close>

definition has_file :: "byte list \<Rightarrow> byte list \<Rightarrow> sys \<Rightarrow> bool" where
  "has_file name content s \<longleftrightarrow> plain_name name \<and> (case find_file name s of None \<Rightarrow> False
     | Some d \<Rightarrow> fileType d = 2 \<and> inodeNum d < numInodes (memory s) (bootMemAddr s)
        \<and> content = file_data (memory s) (bootMemAddr s) (inodeNum d))"

lemma has_file_goes:
  assumes "has_file name content s" "goes t F A bs s s'" "image_placed s"
  shows "has_file name content s'"
proof -
  have g: "bootMemAddr s' = bootMemAddr s" "same_image (bootMemAddr s) (memory s) (memory s')" using assms(2) by (simp_all add: goes_def)
  have "file_data (memory s') (bootMemAddr s) n = file_data (memory s) (bootMemAddr s) n" if "n < numInodes (memory s) (bootMemAddr s)" for n
    using that assms(3) by (intro same_image_file [OF g(2)]) (simp_all add: image_placed_def)
  then show ?thesis using assms(1) directory_goes(2) [OF assms(2,3)] g same_image_header [OF g(2)]
    by (auto simp: has_file_def split: option.splits)
qed

lemma open_file:
  assumes "user_ok t s" "image_placed s" "cstr_at v name s" "has_file name content s" "fd_free s"
  shows "\<exists>i s'. ece391_open E v s = Some (int i, s') \<and> 2 \<le> i \<and> i < 8 \<and> fd_flags (fd_entry i s) = UNUSED_FLAG
     \<and> goes t {i} A [] s s' \<and> file_rest i s' = content \<and> (\<forall>w m. user_buffer w m \<longrightarrow> 0 < m \<longrightarrow> file_reading i w m s')"
proof -
  obtain d where d: "plain_name name" "find_file name s = Some d" "fileType d = 2" "inodeNum d < numInodes (memory s) (bootMemAddr s)"
      "content = file_data (memory s) (bootMemAddr s) (inodeNum d)"
    using assms(4) by (auto simp: has_file_def split: option.splits)
  obtain i s' where o: "ece391_open E v s = Some (int i, s')" "2 \<le> i" "i < 8" "fd_flags (fd_entry i s) = UNUSED_FLAG"
      "goes t {i} A [] s s'" "fd_entry i s' = opened_fd d"
    using open_goes [OF assms(1-3) d(1,2) _ assms(5), of E A] d(3) by auto
  have g: "sys_ok s'" "image_placed s'" "bootMemAddr s' = bootMemAddr s" "same_image (bootMemAddr s) (memory s) (memory s')"
    using o(5) by (simp_all add: goes_def user_ok_def)
  have "file_data (memory s') (bootMemAddr s) (inodeNum d) = content"
    using d(4,5) assms(2) by (simp add: same_image_file [OF g(4)] image_placed_def)
  then have "file_rest i s' = content" "\<forall>w m. user_buffer w m \<longrightarrow> 0 < m \<longrightarrow> file_reading i w m s'"
    using o(2,3,6) g d same_image_header [OF g(4)] by (simp_all add: file_rest_def file_reading_def opened_fd_def)
  then show ?thesis using o by blast
qed

lemma close_goes:
  assumes "user_ok t s" "image_placed s" "2 \<le> fd" "fd < 8" "fd_flags (fd_entry fd s) \<noteq> UNUSED_FLAG"
  shows "\<exists>s'. ece391_close E (int fd) s = Some (0, s') \<and> goes t {fd} A [] s s' \<and> fd_flags (fd_entry fd s') = UNUSED_FLAG"
proof -
  have ok: "sys_ok s" using assms(1) by (simp add: user_ok_def)
  obtain k where k: "k < 6" "cur_pid s = int k" using sys_okD [OF ok] by metis
  let ?e = "(fd_entry fd s)\<lparr>fd_flags := UNUSED_FLAG\<rparr>"
  let ?s = "fdt_put (nat (cur_pid s)) fd ?e s"
  have c: "sys_close (int fd) s = Some (0, ?s)" using assms(3-5) k(2) by (simp add: sys_close_result [OF ok k(2)] fd_entry_def)
  note g = fdt_put_goes [OF assms(1,2) sys_close_inv [OF ok c] assms(4)]
  have "ece391_close E (int fd) s = Some (0, ?s)" using c assms(4) by (simp add: ece391_close_sys)
  then show ?thesis using g(1) [of A] g(2) by (intro exI [of _ ?s]) simp
qed

section \<open>The clock\<close>

definition clock_fd :: "nat \<Rightarrow> sys \<Rightarrow> bool" where
  "clock_fd fd s \<longleftrightarrow> 2 \<le> fd \<and> fd < 8 \<and> fd_flags (fd_entry fd s) = RTC_FLAG \<and> fops_pointer (fd_entry fd s) = Some Rtc_fops"

lemma clock_fd_goes: "clock_fd fd s \<Longrightarrow> goes t F A bs s s' \<Longrightarrow> fd \<notin> F \<Longrightarrow> clock_fd fd s'"
  by (simp add: clock_fd_def goes_def)

text \<open>
  A wait for the clock ends with 0, the value \<^verbatim>\<open>RTCRead\<close> returns, and what runs until then leaves the
  program and what the terminals show alone.
\<close>

definition clock_runs :: "user_env \<Rightarrow> nat \<Rightarrow> bool" where
  "clock_runs E t \<longleftrightarrow> (\<forall>s. user_ok t s \<and> image_placed s \<longrightarrow> (\<exists>s'. resume E (RtcWait s) = Some (0, s') \<and> goes t {} {} [] s s'))"

lemma clock_call:
  assumes "user_ok t s" "clock_fd fd s"
  obtains k where "fdt s = Some k" "fdt_get k fd s = Some (fd_entry fd s)" "fops_of Rtc_fops s = RTC_fops s" "fn_read (RTC_fops s) = Fn_RTCRead"
    "fn_write (RTC_fops s) = Fn_RTCWrite"
proof -
  have ok: "sys_ok s" "fd < 8" using assms by (simp_all add: user_ok_def clock_fd_def)
  obtain k where k: "cur_pid s = int k" "fdt s = Some k" "fdt_wf (process_fdt (PCB_at s ! k))" using sys_okD [OF ok(1)] by metis
  moreover have "fdt_get k fd s = Some (fd_entry fd s)" using k ok(2) by (simp add: fdt_get_wf fd_entry_def)
  moreover have "fops_ready s" using ok(1) by (simp add: sys_ok_def proc_inv_def)
  ultimately show thesis by (intro that) (simp_all add: fops_of_def fops_ready_def)
qed

lemma clock_read:
  assumes "user_ok t s" "image_placed s" "clock_fd fd s" "clock_runs E t" "user_buffer v m" "0 \<le> n" "n \<le> 1024"
  shows "\<exists>s'. ece391_read E (int fd) v n s = Some (0, s') \<and> goes t F A [] s s'"
proof -
  obtain k where k: "fdt s = Some k" "fdt_get k fd s = Some (fd_entry fd s)" "fops_of Rtc_fops s = RTC_fops s" "fn_read (RTC_fops s) = Fn_RTCRead"
    by (rule clock_call [OF assms(1,3)])
  let ?s = "s\<lparr>RTC_read_flag := (RTC_read_flag s)[t := True]\<rparr>"
  have t: "process_terminal s = Some t" "t < 3" using assms(1) user_ok_terminal by (auto simp: user_ok_def)
  have g: "goes t {} {} [] s ?s" by (rule port_goes [OF assms(1,2), where x = "io_pos s" and y = "io_out s"]) simp
  obtain s' where s': "resume E (RtcWait ?s) = Some (0, s')" "goes t {} {} [] ?s s'"
    using assms(4) goes_ok [OF g] unfolding clock_runs_def by blast
  have fd: "2 \<le> fd" "fd < 8" "v \<noteq> 0" using assms(3,5) by (auto simp: clock_fd_def user_buffer_def)
  have "sys_read (dentry_init (user_locals E)) (int fd) v n s = Some (RtcWait ?s)"
    using k fd assms(3,6) t by (simp add: sys_read_def call_read_def RTCRead_start_def clock_fd_def)
  then have "ece391_read E (int fd) v n s = Some (0, s')" using fd s'(1) assms(6,7) by (simp add: ece391_read_sys)
  moreover have "goes t F A [] s s'" by (rule goes_mono [OF goes_silent [OF g s'(2)]]) simp_all
  ultimately show ?thesis by blast
qed

lemma clock_write:
  assumes "user_ok t s" "image_placed s" "clock_fd fd s" "user_buffer v 4"
  shows "\<exists>r s'. ece391_write E (int fd) v 4 s = Some (r, s') \<and> goes t F A [] s s'"
proof -
  obtain k where k: "fdt s = Some k" "fdt_get k fd s = Some (fd_entry fd s)" "fops_of Rtc_fops s = RTC_fops s" "fn_write (RTC_fops s) = Fn_RTCWrite"
    by (rule clock_call [OF assms(1,3)])
  have ok: "sys_ok s" using assms(1) by (simp add: user_ok_def)
  have fd: "2 \<le> fd" "fd < 8" "v \<noteq> 0" using assms(3,4) by (auto simp: clock_fd_def user_buffer_def)
  let ?r = "RTCWrite (user_phys v s) s"
  have "sys_write (int fd) v 4 s = Some (fst ?r, snd ?r)"
    using k fd assms(3) user_ptr_phys [OF ok assms(4)] by (simp add: sys_write_def call_write_def clock_fd_def)
  then have "ece391_write E (int fd) v 4 s = Some (fst ?r, snd ?r)" using fd by (simp add: ece391_write_sys)
  moreover obtain x y where "snd ?r = s\<lparr>RTC_read_flag := RTC_read_flag s, io_pos := x, io_out := y\<rparr>"
    using RTCWrite_freq_port [of "ld32 (memory s) (user_phys v s)" s] by (auto simp: RTCWrite_def)
  from port_goes [OF assms(1,2) this] have "goes t F A [] s (snd ?r)" .
  ultimately show ?thesis by blast
qed

lemma open_clock:
  assumes "user_ok t s" "image_placed s" "cstr_at v name s" "plain_name name" "find_file name s = Some d" "fileType d = 0" "fd_free s"
  shows "\<exists>i s'. ece391_open E v s = Some (int i, s') \<and> fd_flags (fd_entry i s) = UNUSED_FLAG \<and> goes t {i} A [] s s' \<and> clock_fd i s'"
proof -
  obtain i s' where o: "ece391_open E v s = Some (int i, s')" "2 \<le> i" "i < 8" "fd_flags (fd_entry i s) = UNUSED_FLAG"
      "goes t {i} A [] s s'" "fd_entry i s' = opened_fd d"
    using open_goes [OF assms(1-5) _ assms(7), of E A] assms(6) by auto
  then have "clock_fd i s'" using assms(6) by (simp add: clock_fd_def opened_fd_def)
  with o show ?thesis by blast
qed

text \<open>An environment in which the clock ticks at once: the wait ends with the kernel's own handler.\<close>

definition ticking :: "user_env \<Rightarrow> user_env" where
  "ticking E = E\<lparr>resume := \<lambda>r. case r of RtcWait s \<Rightarrow> Some (0, RTChandler s) | _ \<Rightarrow> None\<rparr>"

lemma ticking_runs: "clock_runs (ticking E) t"
proof -
  have "goes t {} {} [] s (RTChandler s)" if "user_ok t s" "image_placed s" for s
  proof -
    have q: "quiet s (RTChandler s)" "proc_same s (RTChandler s)" using that(1) by (simp_all add: RTChandler_quiet user_ok_def)
    have t: "process_terminal (RTChandler s) = process_terminal s" using q(2) by (intro process_terminal_cong) (simp_all add: proc_same_def)
    have m: "memory (RTChandler s) = memory s" "vterm_of u (RTChandler s) = vterm_of u s" for u
      by (simp_all add: RTChandler_def vterm_of_def home_page_def outb_def inb_def send_eoi_def Let_def)
    then have "var v (RTChandler s) = var v s" for v using q(2) by (simp add: var_def user_phys_def user_frame_def proc_same_def)
    then show ?thesis
      using that q t m fd_entry_same [OF q(2)] proc_same_ok [OF q(2)] image_placed_same [OF q(2) _ that(2)]
      by (simp add: goes_def user_ok_def quiet_def displays_def)
  qed
  then show ?thesis by (auto simp: clock_runs_def ticking_def)
qed

section \<open>Arguments\<close>

lemma held_ex: "user_buffer v n \<Longrightarrow> \<exists>bs. length bs = n \<and> held v bs s"
  by (intro exI [of _ "rd_bytes (memory s) (user_phys v s) n"]) (simp add: held_bytes)

lemma held_wr:
  assumes "user_buffer v (length bs)"
  shows "held v bs (with_memory (wr_bytes (memory s) (user_phys v s) bs) s)"
proof -
  obtain cs where "length cs = length bs" "held v cs s" using held_ex [OF assms] by blast
  then show ?thesis using held_store [of v cs s 0 bs] by simp
qed

lemma getargs_goes:
  assumes "user_ok t s" "image_placed s" "user_buffer buf 1024" "has_args name s"
  shows "\<exists>s'. ece391_getargs E buf 1024 s = Some (0, s') \<and> goes t F (region buf 1024) [] s s' \<and> cstr_at buf name s'"
proof -
  let ?a = "name @ replicate (128 - length name) 0"
  let ?s = "with_memory (wr_bytes (memory s) (user_phys buf s) ?a) s"
  have n: "0 \<notin> set name" "length name < 128" using assms(4) by (simp_all add: has_args_def)
  have ub: "user_buffer buf (length ?a)" using assms(3) n(2) by (simp add: user_buffer_def)
  have "goes t F (region buf 1024) [] s ?s"
    using goes_mono [OF store_goes [OF assms(1,2) ub] subset_refl region_part [of 0 _ 1024 buf, simplified]] n(2) by simp
  moreover have "cstr_at buf name ?s"
    using held_cstr [OF held_wr [OF ub], of 0 "length name"] n by (simp add: nth_append)
  ultimately show ?thesis using getargs_store [OF assms(1,3,4), of E] by blast
qed

lemma apart_disjoint:
  assumes "disjoint_regions v n w m" "n \<le> 2 ^ 32" "m \<le> 2 ^ 32" "k \<le> m"
  shows "apart (region v n) w k"
  using disjoint_not_in_region [OF assms(1) _ assms(2,3)] assms(4) by (simp add: apart_def)

end
