(* ===== verification/User_Grep.thy ===== *)
theory User_Grep
  imports User_Buffers "HOL-Library.Sublist"
begin

unbundle bit_operations_syntax

text \<open>
  The search program \<^verbatim>\<open>ece391grep.c\<close>: it reads every file of the directory through a buffer of 1024 bytes and
  prints the lines that contain its argument.
\<close>

section \<open>The program\<close>

text \<open>The scan for the end of a line.\<close>

function find_line_end :: "u32 \<Rightarrow> int \<Rightarrow> int \<Rightarrow> sys \<Rightarrow> int option" where
  "find_line_end data last_at line_end s =
    (if line_end < last_at then do {
       b \<leftarrow> uget (data + of_int line_end) s;
       if b \<noteq> 10 then find_line_end data last_at (line_end + 1) s else Some line_end
     } else Some line_end)"
  by auto
termination by (relation "measure (\<lambda>(data, last_at, line_end, s). nat (last_at - line_end))") auto

text \<open>
  The search in a line, with the output of a line that matches.  \<^verbatim>\<open>s[0] == data[check]\<close> compares a (signed)
  \<^verbatim>\<open>char\<close> with a \<^verbatim>\<open>uint8_t\<close>: both are promoted to \<^verbatim>\<open>int\<close> first.
\<close>

function search_line :: "user_env \<Rightarrow> u32 \<Rightarrow> nat \<Rightarrow> u32 \<Rightarrow> u32 \<Rightarrow> int \<Rightarrow> int \<Rightarrow> int \<Rightarrow> sys \<Rightarrow> sys option" where
  "search_line E str s_len fname data line_start line_end check s =
    (if check < line_end then do {
       a \<leftarrow> uget str s;
       b \<leftarrow> uget (data + of_int check) s;
       hit \<leftarrow> (if sint a = uint b then map_option (\<lambda>r. r = 0) (ece391_strncmp (data + of_int check) str s_len s) else Some False);
       if hit then do {
         s \<leftarrow> ece391_fdputs E 1 fname s;
         s \<leftarrow> ece391_fdputs E 1 (lit E '':'') s;
         s \<leftarrow> ece391_fdputs E 1 (data + of_int line_start) s;
         ece391_fdputs E 1 (lit E (ln [])) s
       } else search_line E str s_len fname data line_start line_end (check + 1) s
     } else Some s)"
  by auto
termination by (relation "measure (\<lambda>(E, str, s_len, fname, data, line_start, line_end, check, s). nat (line_end - check))") auto

declare find_line_end.simps [simp del] search_line.simps [simp del]

text \<open>The inner loop over the lines in the buffer; the result is the new value of \<^verbatim>\<open>last\<close>.\<close>

partial_function (option) buffer_lines ::
  "user_env \<Rightarrow> u32 \<Rightarrow> nat \<Rightarrow> u32 \<Rightarrow> u32 \<Rightarrow> int \<Rightarrow> int \<Rightarrow> int \<Rightarrow> sys \<Rightarrow> (int \<times> sys) option" where
  "buffer_lines E str s_len fname data cnt last_at line_start s = do {
     line_end \<leftarrow> find_line_end data last_at line_start s;
     b \<leftarrow> uget (data + of_int line_end) s;
     if b \<noteq> 10 \<and> cnt \<noteq> 0 \<and> line_start \<noteq> 0 then do {
       s \<leftarrow> uput (data + of_int line_end) 0 s;
       s \<leftarrow> ece391_strcpy data (data + of_int line_start) s;
       Some (last_at - line_start, s)
     } else do {
       s \<leftarrow> uput (data + of_int line_end) 0 s;
       s \<leftarrow> search_line E str s_len fname data line_start line_end line_start s;
       if line_end + 1 \<ge> last_at then Some (0, s)
       else buffer_lines E str s_len fname data cnt last_at (line_end + 1) s
     }
   }"

partial_function (option) file_lines ::
  "user_env \<Rightarrow> u32 \<Rightarrow> nat \<Rightarrow> u32 \<Rightarrow> u32 \<Rightarrow> int \<Rightarrow> int \<Rightarrow> sys \<Rightarrow> (int \<times> sys) option" where
  "file_lines E str s_len fname data fd last_at s = do {
     (cnt, s) \<leftarrow> ece391_read E fd (data + of_int last_at) (1024 - last_at) s;
     if cnt = -1 then do {
       s \<leftarrow> ece391_fdputs E 1 (lit E (ln ''file read failed'')) s;
       Some (-1, s)
     } else do {
       (last_at, s) \<leftarrow> buffer_lines E str s_len fname data cnt (last_at + cnt) 0 s;
       if cnt = 0 then do {
         (r, s) \<leftarrow> ece391_close E fd s;
         if r = -1 then do {
           s \<leftarrow> ece391_fdputs E 1 (lit E (ln ''file close failed'')) s;
           Some (-1, s)
         } else Some (0, s)
       } else file_lines E str s_len fname data fd last_at s
     }
   }"

definition do_one_file :: "user_env \<Rightarrow> u32 \<Rightarrow> u32 \<Rightarrow> u32 \<Rightarrow> sys \<Rightarrow> (int \<times> sys) option" where
  "do_one_file E data str fname s = do {
     s_len \<leftarrow> ece391_strlen str s;
     (fd, s) \<leftarrow> ece391_open E fname s;
     if fd = -1 then do {
       s \<leftarrow> ece391_fdputs E 1 (lit E (ln ''file open failed'')) s;
       Some (-1, s)
     } else file_lines E str s_len fname data fd 0 s
   }"

text \<open>\<^verbatim>\<open>main\<close>; the arrays \<open>buf\<close>, \<open>search\<close> and that of \<^verbatim>\<open>do_one_file\<close> are on the stack.\<close>

partial_function (option) grep_loop :: "user_env \<Rightarrow> u32 \<Rightarrow> u32 \<Rightarrow> u32 \<Rightarrow> int \<Rightarrow> sys \<Rightarrow> (int \<times> sys) option" where
  "grep_loop E data search buf fd s = do {
     (cnt, s) \<leftarrow> ece391_read E fd buf 32 s;
     if cnt = 0 then Some (0, s)
     else if cnt = -1 then do {
       s \<leftarrow> ece391_fdputs E 1 (lit E (ln ''directory entry read failed'')) s;
       Some (3, s)
     } else do {
       b \<leftarrow> uget buf s;
       if b = 46 then grep_loop E data search buf fd s
       else do {
         s \<leftarrow> uput (buf + of_int cnt) 0 s;
         (r, s) \<leftarrow> do_one_file E data search buf s;
         if r \<noteq> 0 then Some (3, s) else grep_loop E data search buf fd s
       }
     }
   }"

definition grep_main :: "user_env \<Rightarrow> u32 \<Rightarrow> u32 \<Rightarrow> u32 \<Rightarrow> sys \<Rightarrow> (int \<times> sys) option" where
  "grep_main E data search buf s = do {
     (r, s) \<leftarrow> ece391_getargs E search 1024 s;
     if r \<noteq> 0 then do {
       s \<leftarrow> ece391_fdputs E 1 (lit E (ln ''could not read argument'')) s;
       Some (3, s)
     } else do {
       (fd, s) \<leftarrow> ece391_open E (lit E ''.'') s;
       if fd = -1 then do {
         s \<leftarrow> ece391_fdputs E 1 (lit E (ln ''directory open failed'')) s;
         Some (2, s)
       } else grep_loop E data search buf fd s
     }
   }"

section \<open>What is to be printed\<close>

text \<open>A string can be found when it is not empty and its first byte, as a \<^verbatim>\<open>char\<close>, is not negative.\<close>

definition searchable :: "byte list \<Rightarrow> bool" where
  "searchable pat \<longleftrightarrow> pat \<noteq> [] \<and> hd pat < 0x80"

definition hits :: "byte list \<Rightarrow> byte list \<Rightarrow> bool" where
  "hits pat line \<longleftrightarrow> searchable pat \<and> sublist pat line"

lemma char_eq_uint8: "sint (a :: byte) = uint (b :: byte) \<longleftrightarrow> a = b \<and> a < 0x80"
proof (cases "a < 0x80")
  case True
  then have "uint a < 128" by (simp add: word_less_def)
  then have "sint a = uint a" by (simp add: sint_uint signed_take_bit_int_eq_self_iff order_trans [OF _ uint_ge_0])
  then show ?thesis using True by (auto simp: word_uint_eq_iff)
next
  case False
  then have "128 \<le> uint a" by (simp add: word_less_def)
  moreover have "uint a < 256" using uint_bounded [of a] by simp
  ultimately have "(uint a + 128) mod 256 = uint a - 128" using mod_add_self2 [of "uint a - 128" 256] by (simp add: add.commute)
  with \<open>uint a < 256\<close> have "sint a < 0" by (simp add: sint_uint signed_take_bit_eq_take_bit_shift take_bit_eq_mod)
  moreover have "0 \<le> uint b" by simp
  ultimately show ?thesis using False by linarith
qed

definition grep_output :: "byte list \<Rightarrow> byte list \<Rightarrow> byte list list \<Rightarrow> byte list" where
  "grep_output pat name ls = concat (map (\<lambda>l. name @ [58] @ l @ [10]) (filter (hits pat) ls))"

lemma hits_Nil [simp]: "\<not> hits pat []"
  by (auto simp: hits_def searchable_def)

lemma grep_output_simps [simp]:
  "grep_output pat name [] = []" "grep_output pat name (xs @ ys) = grep_output pat name xs @ grep_output pat name ys"
  "grep_output pat name [[]] = []"
  by (simp_all add: grep_output_def)

lemma grep_output_Cons: "grep_output pat name (l # ls) = (if hits pat l then name @ [58] @ l @ [10] else []) @ grep_output pat name ls"
  by (simp add: grep_output_def)

lemma hits_iff: "hits pat line \<longleftrightarrow> searchable pat \<and> (\<exists>j < length line. prefix pat (drop j line))"
proof -
  have "\<exists>j < length line. prefix pat (drop j line)" if "sublist pat line" "pat \<noteq> []"
  proof -
    obtain ps ss where "line = ps @ pat @ ss" using \<open>sublist pat line\<close> by (auto simp: sublist_def)
    then show ?thesis using that(2) by (intro exI [of _ "length ps"]) auto
  qed
  moreover have "sublist pat line" if "prefix pat (drop j line)" for j
    using that by (metis prefix_imp_sublist sublist_drop sublist_order.order_trans)
  ultimately show ?thesis by (auto simp: hits_def searchable_def)
qed

text \<open>Lines.\<close>

lemma lines_of_line: "10 \<notin> set xs \<Longrightarrow> lines_of xs = [xs]"
  by (induction xs) auto

lemma lines_of_step: "10 \<notin> set xs \<Longrightarrow> lines_of (xs @ 10 # ys) = xs # lines_of ys"
  by (induction xs) auto

lemma lines_of_ne [simp]: "lines_of xs \<noteq> []"
  by (cases xs) auto

lemma lines_of_append: "lines_of (xs @ ys) = butlast (lines_of xs) @ lines_of (last (lines_of xs) @ ys)"
proof (induction xs)
  case (Cons x xs)
  obtain l ls where l: "lines_of xs = l # ls" using lines_of_ne [of xs] by (cases "lines_of xs") blast+
  show ?case using Cons l by (cases ls) auto
qed simp

lemma lines_of_Cons_cases:
  obtains (newline) "x = 10" "lines_of (x # xs) = [] # lines_of xs"
  | (char) l ls where "x \<noteq> 10" "lines_of xs = l # ls" "lines_of (x # xs) = (x # l) # ls"
  using lines_of_ne [of xs] by (cases "lines_of xs"; cases "x = 10") auto

lemma last_line_no_newline: "10 \<notin> set (last (lines_of xs))"
proof (induction xs)
  case (Cons x xs)
  then show ?case by (cases x xs rule: lines_of_Cons_cases) auto
qed simp

lemma set_lines_of: "l \<in> set (lines_of xs) \<Longrightarrow> set l \<subseteq> set xs"
proof (induction xs arbitrary: l)
  case (Cons x xs)
  show ?case
  proof (cases x xs rule: lines_of_Cons_cases)
    case newline
    then show ?thesis using Cons by auto
  next
    case (char k ks)
    then have "l = x # k \<or> l \<in> set ks" using Cons.prems by simp
    moreover have "set m \<subseteq> set xs" if "m = k \<or> m \<in> set ks" for m using Cons.IH [of m] that char(2) by auto
    then have "set k \<subseteq> set xs" "l \<in> set ks \<Longrightarrow> set l \<subseteq> set xs" by blast+
    ultimately show ?thesis by auto
  qed
qed simp

section \<open>Searching a line\<close>

lemma strncmp_loop_prefix:
  assumes "\<forall>i < length xs. f (k + i) = xs ! i" "f (k + length xs) = 0" "\<forall>i < length ys. g (k + i) = ys ! i" "0 \<notin> set xs" "0 \<notin> set ys"
  shows "ece391_strncmp_loop f g k (length ys) = 0 \<longleftrightarrow> prefix ys xs"
  using assms
proof (induction ys arbitrary: xs k)
  case (Cons y ys)
  have g: "g k = y" "y \<noteq> 0" using Cons.prems(3) [rule_format, of 0] Cons.prems(5) by auto
  show ?case
  proof (cases xs)
    case Nil
    then show ?thesis using g Cons.prems(2) by (simp add: word_uint_eq_iff)
  next
    case xs: (Cons x zs)
    have f: "f k = x" using Cons.prems(1) [rule_format, of 0] xs by simp
    have "ece391_strncmp_loop f g (Suc k) (length ys) = 0 \<longleftrightarrow> prefix ys zs"
      using Cons.prems xs by (intro Cons.IH) auto
    then show ?thesis using f g xs by (cases "ys = []") (auto simp: word_uint_eq_iff)
  qed
qed simp

lemma strncmp_cstr:
  assumes "sys_ok s" "cstr_at v xs s" "cstr_at w ys s"
  shows "\<exists>r. ece391_strncmp v w (length ys) s = Some r \<and> (r = 0 \<longleftrightarrow> prefix ys xs)"
  using strncmp_loop_prefix [of xs "view (memory s) (user_phys v s)" 0 ys "view (memory s) (user_phys w s)"]
    cstr_at_view [OF assms(2)] cstr_at_view [OF assms(3)] assms(2,3)
    cstr_at_str(1) [OF assms(1,2)] cstr_at_str(1) [OF assms(1,3)]
  by (simp add: ece391_strncmp_def cstr_at_def)

text \<open>
  The constants the search uses: the argument, the name of the file, the two literals, all apart from
  the buffer \<open>data\<close> of 1025 bytes, which holds \<open>D\<close>.
\<close>

definition grep_ready :: "user_env \<Rightarrow> nat \<Rightarrow> u32 \<Rightarrow> u32 \<Rightarrow> byte list \<Rightarrow> u32 \<Rightarrow> byte list \<Rightarrow> byte list \<Rightarrow> sys \<Rightarrow> bool" where
  "grep_ready E t data str pat fname name D s \<longleftrightarrow> user_ok t s \<and> image_placed s \<and> held data D s \<and> length D = 1025
     \<and> (\<forall>(v, bs) \<in> {(str, pat), (fname, name), (lit E '':'', [58]), (lit E (ln []), [10])}.
          cstr_at v bs s \<and> apart (region data 1025) v (length bs + 1))"

lemma grep_readyD:
  assumes "grep_ready E t data str pat fname name D s"
  shows "user_ok t s" "sys_ok s" "image_placed s" "held data D s" "length D = 1025"
    "cstr_at str pat s" "cstr_at fname name s" "cstr_at (lit E '':'') [58] s" "cstr_at (lit E (ln [])) [10] s"
  using assms by (simp_all add: grep_ready_def user_ok_def)

lemma grep_ready_goes:
  assumes "grep_ready E t data str pat fname name D s" "goes t F (region data 1025) bs s s'" "held data D' s'" "length D' = 1025"
  shows "grep_ready E t data str pat fname name D' s'"
  using assms cstr_goes [OF _ assms(2)] goes_ok [OF assms(2)] by (simp add: grep_ready_def)

lemma grep_ready_puts:
  assumes "grep_ready E t data str pat fname name D s" "cstr_at v bs s"
  shows "\<exists>s'. ece391_fdputs E 1 v s = Some s' \<and> goes t {} {} bs s s' \<and> grep_ready E t data str pat fname name D s'"
proof -
  note g = grep_readyD [OF assms(1)]
  obtain s' where s': "ece391_fdputs E 1 v s = Some s'" "goes t {} {} bs s s'" using fdputs_goes [OF g(1,3) assms(2)] by blast
  have "goes t {} (region data 1025) bs s s'" by (rule goes_mono [OF s'(2)]) simp_all
  from grep_ready_goes [OF assms(1) this held_goes [OF g(4) s'(2)] g(5)] s' show ?thesis by simp
qed

text \<open>The four outputs for a line.\<close>

lemma show_line:
  assumes "grep_ready E t data str pat fname name D s" "cstr_at v line s" "v = data + of_nat i"
  shows "\<exists>s1 s2 s3 s4. ece391_fdputs E 1 fname s = Some s1 \<and> ece391_fdputs E 1 (lit E '':'') s1 = Some s2
     \<and> ece391_fdputs E 1 v s2 = Some s3 \<and> ece391_fdputs E 1 (lit E (ln [])) s3 = Some s4
     \<and> goes t {} {} (name @ [58] @ line @ [10]) s s4 \<and> grep_ready E t data str pat fname name D s4"
proof -
  obtain s1 where s1: "ece391_fdputs E 1 fname s = Some s1" "goes t {} {} name s s1" "grep_ready E t data str pat fname name D s1"
    using grep_ready_puts [OF assms(1) grep_readyD(7) [OF assms(1)]] by blast
  obtain s2 where s2: "ece391_fdputs E 1 (lit E '':'') s1 = Some s2" "goes t {} {} [58] s1 s2" "grep_ready E t data str pat fname name D s2"
    using grep_ready_puts [OF s1(3) grep_readyD(8) [OF s1(3)]] by blast
  have "cstr_at v line s2" using cstr_goes [OF cstr_goes [OF assms(2) s1(2)] s2(2)] by simp
  then obtain s3 where s3: "ece391_fdputs E 1 v s2 = Some s3" "goes t {} {} line s2 s3" "grep_ready E t data str pat fname name D s3"
    using grep_ready_puts [OF s2(3)] by blast
  obtain s4 where s4: "ece391_fdputs E 1 (lit E (ln [])) s3 = Some s4" "goes t {} {} [10] s3 s4" "grep_ready E t data str pat fname name D s4"
    using grep_ready_puts [OF s3(3) grep_readyD(9) [OF s3(3)]] by blast
  have "goes t {} {} (name @ [58] @ line @ [10]) s s4"
    by (rule goes_trans [OF s1(2) goes_trans [OF s2(2) goes_trans [OF s3(2) s4(2)]]])
  with s1(1) s2(1) s3(1) s4(1,3) show ?thesis by blast
qed

lemma uget_cstr: "user_ok t s \<Longrightarrow> cstr_at v bs s \<Longrightarrow> uget v s = Some ((bs @ [0]) ! 0)"
  using uget_held [of t s v "bs @ [0]" 0] by (simp add: cstr_held)

lemma search_line_prints:
  assumes "grep_ready E t data str pat fname name D s" "ls \<le> le" "le < 1025" "D ! le = 0" "0 \<notin> set (take (le - ls) (drop ls D))"
  shows "ls \<le> c \<Longrightarrow> c \<le> le \<Longrightarrow> \<exists>s'. search_line E str (length pat) fname data (int ls) (int le) (int c) s = Some s'
     \<and> goes t {} {} (if searchable pat \<and> (\<exists>j. c \<le> j \<and> j < le \<and> prefix pat (take (le - j) (drop j D)))
          then name @ [58] @ take (le - ls) (drop ls D) @ [10] else []) s s'
     \<and> grep_ready E t data str pat fname name D s'"
proof (induction "le - c" arbitrary: c)
  case 0
  then have "\<not> (\<exists>j. c \<le> j \<and> j < le \<and> prefix pat (take (le - j) (drop j D)))" by auto
  with 0 assms(1) goes_refl [OF grep_readyD(1,3) [OF assms(1)]] show ?case by (auto simp: search_line.simps)
next
  case (Suc n)
  note g = grep_readyD [OF assms(1)]
  have c: "c < le" "n = le - Suc c" using Suc.hyps(2) by simp_all
  let ?x = "take (le - c) (drop c D)"
  have x: "?x \<noteq> []" "hd ?x = D ! c" using c(1) assms(3) g(5) by (simp_all add: hd_drop_conv_nth)
  have "take (le - ls) (drop ls D) = take (c - ls) (drop ls D) @ ?x"
    using c(1) Suc.prems(1) take_add [of "c - ls" "le - c" "drop ls D"] by simp
  then have nz: "0 \<notin> set ?x" using assms(5) by simp
  have cs: "cstr_at (data + of_nat c) ?x s" by (rule held_cstr [OF g(4)]) (use c(1) assms(3,4) g(5) nz in simp_all)
  have dc: "D ! c \<noteq> 0" using nz x hd_in_set [OF x(1)] by metis
  have u: "uget str s = Some ((pat @ [0]) ! 0)" "uget (data + of_nat c) s = Some (D ! c)"
    using uget_cstr [OF g(1,6)] uget_held [OF g(1,4), of c] c(1) assms(3) g(5) by simp_all
  obtain r where r: "ece391_strncmp (data + of_nat c) str (length pat) s = Some r" "r = 0 \<longleftrightarrow> prefix pat ?x"
    using strncmp_cstr [OF g(2) cs g(6)] by blast
  have hd: "sint ((pat @ [0]) ! 0) = uint (D ! c)" if "prefix pat ?x" "searchable pat"
    using that x(2) by (cases pat) (auto simp: prefix_def searchable_def char_eq_uint8)
  have emp: "sint ((pat @ [0]) ! 0) \<noteq> uint (D ! c)" if "\<not> searchable pat"
    using that dc by (cases pat) (auto simp: searchable_def char_eq_uint8 uint_0_iff)
  have line: "cstr_at (data + of_nat ls) (take (le - ls) (drop ls D)) s"
    by (rule held_cstr [OF g(4)]) (use assms(2-5) g(5) in simp_all)
  show ?case
  proof (cases "searchable pat \<and> prefix pat ?x")
    case True
    then have "\<exists>j. c \<le> j \<and> j < le \<and> prefix pat (take (le - j) (drop j D))" using c(1) by blast
    with True u r hd c(1) show_line [OF assms(1) line refl] show ?thesis
      by (subst search_line.simps) auto
  next
    case False
    have "(\<exists>j. c \<le> j \<and> j < le \<and> prefix pat (take (le - j) (drop j D))) \<longleftrightarrow> (\<exists>j. Suc c \<le> j \<and> j < le \<and> prefix pat (take (le - j) (drop j D)))"
      if "searchable pat" using False that by (metis Suc_leI Suc_leD le_neq_implies_less)
    moreover have "search_line E str (length pat) fname data (int ls) (int le) (int c) s
        = search_line E str (length pat) fname data (int ls) (int le) (int (Suc c)) s"
      using False u r emp c(1) by (subst search_line.simps) (auto simp: add.commute)
    ultimately show ?thesis using Suc.hyps(1) [OF c(2)] Suc.prems(1) c(1) by (cases "searchable pat") auto
  qed
qed

lemma search_line_output:
  assumes "grep_ready E t data str pat fname name D s" "ls \<le> le" "le < 1025" "D ! le = 0" "0 \<notin> set (take (le - ls) (drop ls D))"
  shows "\<exists>s'. search_line E str (length pat) fname data (int ls) (int le) (int ls) s = Some s'
     \<and> goes t {} {} (grep_output pat name [take (le - ls) (drop ls D)]) s s' \<and> grep_ready E t data str pat fname name D s'"
proof -
  let ?l = "take (le - ls) (drop ls D)"
  have len: "length ?l = le - ls" using assms(3) grep_readyD(5) [OF assms(1)] by simp
  have d: "drop j ?l = take (le - (ls + j)) (drop (ls + j) D)" for j by (simp add: drop_take add.commute)
  have "(\<exists>j. ls \<le> j \<and> j < le \<and> prefix pat (take (le - j) (drop j D))) \<longleftrightarrow> (\<exists>j < length ?l. prefix pat (drop j ?l))"
    unfolding len d by (metis add_diff_inverse_nat le_add1 less_diff_conv2 assms(2) add.commute not_less nat_add_left_cancel_less)
  then show ?thesis using search_line_prints [OF assms order_refl assms(2)] by (simp add: grep_output_Cons hits_iff)
qed

section \<open>The lines of the buffer\<close>

lemma find_line_end_eq:
  assumes "user_ok t s" "held data D s" "m < length D"
  shows "i \<le> m \<Longrightarrow> find_line_end data (int m) (int i) s = Some (int (i + length (takeWhile (\<lambda>b. b \<noteq> 10) (take (m - i) (drop i D)))))"
proof (induction "m - i" arbitrary: i)
  case 0
  then show ?case by (simp add: find_line_end.simps)
next
  case (Suc n)
  then have i: "i < m" "n = m - Suc i" by simp_all
  have "take (m - i) (drop i D) = D ! i # take (m - Suc i) (drop (Suc i) D)"
    using i(1) assms(3) by (simp add: take_Cons' flip: Cons_nth_drop_Suc)
  moreover have "uget (data + of_nat i) s = Some (D ! i)" using uget_held [OF assms(1,2), of i] i(1) assms(3) by simp
  moreover have "find_line_end data (int m) (int i + 1) s = Some (int (Suc i + length (takeWhile (\<lambda>b. b \<noteq> 10) (take (m - Suc i) (drop (Suc i) D)))))"
    using Suc.hyps(1) [OF i(2)] i(1) by (simp add: add.commute)
  ultimately show ?case using i(1) by (subst find_line_end.simps) simp
qed

text \<open>A line that is searched, up to the loop's test.\<close>

lemma grep_ready_put:
  assumes "grep_ready E t data str pat fname name D s" "i < 1025"
  shows "\<exists>s'. uput (data + of_nat i) c s = Some s' \<and> goes t {} (region data 1025) [] s s' \<and> grep_ready E t data str pat fname name (D[i := c]) s'"
proof -
  note g = grep_readyD [OF assms(1)]
  obtain s' where s': "uput (data + of_nat i) c s = Some s'" "held data (D[i := c]) s'" "goes t {} (region data 1025) [] s s'"
    using uput_held [OF g(1,3,4), of i c "{}"] assms(2) g(5) by auto
  with grep_ready_goes [OF assms(1) s'(3,2)] g(5) show ?thesis by auto
qed

lemma take_drop_upd: "k \<le> i \<Longrightarrow> take (k - j) (drop j (xs[i := c])) = take (k - j) (drop j xs)"
  by (rule nth_equalityI) auto

lemma search_piece:
  assumes "grep_ready E t data str pat fname name D s" "ls \<le> le" "le < 1025" "0 \<notin> set (take (le - ls) (drop ls D))"
  shows "\<exists>s1 s2. uput (data + of_nat le) 0 s = Some s1
     \<and> search_line E str (length pat) fname data (int ls) (int le) (int ls) s1 = Some s2
     \<and> goes t {} (region data 1025) (grep_output pat name [take (le - ls) (drop ls D)]) s s2
     \<and> grep_ready E t data str pat fname name (D[le := 0]) s2"
proof -
  obtain s1 where s1: "uput (data + of_nat le) 0 s = Some s1" "goes t {} (region data 1025) [] s s1" "grep_ready E t data str pat fname name (D[le := 0]) s1"
    using grep_ready_put [OF assms(1,3), of 0] by blast
  have l: "take (le - ls) (drop ls (D[le := 0])) = take (le - ls) (drop ls D)" by (rule take_drop_upd) simp
  have z: "D[le := 0] ! le = 0" using assms(3) grep_readyD(5) [OF assms(1)] by simp
  obtain s2 where s2: "search_line E str (length pat) fname data (int ls) (int le) (int ls) s1 = Some s2"
      "goes t {} {} (grep_output pat name [take (le - ls) (drop ls D)]) s1 s2" "grep_ready E t data str pat fname name (D[le := 0]) s2"
    using search_line_output [OF s1(3) assms(2,3) z] assms(4) l by auto
  have "goes t {} (region data 1025) (grep_output pat name [take (le - ls) (drop ls D)]) s1 s2" by (rule goes_mono [OF s2(2)]) simp_all
  from goes_silent [OF s1(2) this] s1(1) s2(1,3) show ?thesis by blast
qed

text \<open>
  What the inner loop makes of the bytes \<open>X\<close> from \<open>line_start\<close> on: it prints the matching lines, of the
  complete ones only when the rest is kept at the start of the buffer for the next read.
\<close>

definition lines_done :: "user_env \<Rightarrow> nat \<Rightarrow> u32 \<Rightarrow> u32 \<Rightarrow> byte list \<Rightarrow> u32 \<Rightarrow> byte list \<Rightarrow> bool \<Rightarrow> byte list \<Rightarrow> nat \<Rightarrow> sys \<Rightarrow> sys \<Rightarrow> bool" where
  "lines_done E t data str pat fname name all_done X n s s' \<longleftrightarrow>
     (\<exists>D. grep_ready E t data str pat fname name D s' \<and> D ! 1024 \<noteq> 10 \<and> n < 1024
        \<and> take n D = (if all_done then [] else last (lines_of X))
        \<and> goes t {} (region data 1025) (grep_output pat name (if all_done then lines_of X else butlast (lines_of X))) s s')"

lemma keep_piece:
  assumes "grep_ready E t data str pat fname name D s" "0 < ls" "ls \<le> m" "m \<le> 1024" "D ! 1024 \<noteq> 10"
    "0 \<notin> set (take (m - ls) (drop ls D))" "10 \<notin> set (take (m - ls) (drop ls D))"
  shows "\<exists>s1 s2. uput (data + of_nat m) 0 s = Some s1 \<and> ece391_strcpy data (data + of_nat ls) s1 = Some s2
     \<and> lines_done E t data str pat fname name False (take (m - ls) (drop ls D)) (m - ls) s s2"
proof -
  let ?X = "take (m - ls) (drop ls D)" and ?D = "D[m := 0]"
  let ?D' = "?X @ 0 # drop (Suc (m - ls)) ?D"
  have "m < 1025" using assms(4) by simp
  then obtain s1 where s1: "uput (data + of_nat m) 0 s = Some s1" "goes t {} (region data 1025) [] s s1" "grep_ready E t data str pat fname name ?D s1"
    using grep_ready_put [OF assms(1), of m 0] by blast
  note g = grep_readyD [OF s1(3)]
  have l: "length D = 1025" "take (m - ls) (drop ls ?D) = ?X" using g(5) by (simp, intro take_drop_upd order_refl)
  obtain s2 where s2: "ece391_strcpy data (data + of_nat ls) s1 = Some s2" "held data ?D' s2" "goes t {} (region data 1025) [] s1 s2"
    using strcpy_held [OF g(1,3,4) assms(3), of "{}"] assms(4,6) l by auto
  have "length ?D' = 1025" using l(1) assms(2-4) by simp
  then have "grep_ready E t data str pat fname name ?D' s2" by (rule grep_ready_goes [OF s1(3) s2(3,2)])
  moreover have "?D' ! 1024 \<noteq> 10" using l(1) assms(2-5) by (auto simp: nth_append nth_Cons' nth_list_update)
  moreover have "take (m - ls) ?D' = ?X" "m - ls < 1024" using l(1) assms(2-4) by simp_all
  moreover have "lines_of ?X = [?X]" using assms(7) by (rule lines_of_line)
  ultimately have "lines_done E t data str pat fname name False ?X (m - ls) s s2"
    unfolding lines_done_def using goes_silent [OF s1(2) s2(3)] by (intro exI [of _ ?D']) simp
  with s1(1) s2(1) show ?thesis by blast
qed

text \<open>The first line of a part of the buffer.\<close>

lemma first_line:
  fixes D :: "byte list"
  assumes "m < length D" "ls \<le> m"
  defines "X \<equiv> take (m - ls) (drop ls D)"
  defines "L \<equiv> takeWhile (\<lambda>b. b \<noteq> 10) X"
  defines "le \<equiv> ls + length L"
  shows "le \<le> m" "L = take (le - ls) (drop ls D)" "10 \<notin> set L" "le = m \<Longrightarrow> X = L" "le < m \<Longrightarrow> D ! le = 10"
    "le < m \<Longrightarrow> X = L @ 10 # take (m - Suc le) (drop (Suc le) D)"
proof -
  have X: "length X = m - ls" "length L \<le> length X" using assms(1,2) length_takeWhile_le [of "\<lambda>b. b \<noteq> 10" X] by (simp_all add: X_def L_def)
  then show le: "le \<le> m" using assms(2) by (simp add: le_def)
  have tk: "L = take (length L) X" by (simp add: L_def takeWhile_eq_take [symmetric])
  then show t: "L = take (le - ls) (drop ls D)" using X by (simp add: le_def X_def min_absorb1 del: length_take length_drop)
  show "10 \<notin> set L" by (auto simp: L_def dest: set_takeWhileD)
  show "X = L" if "le = m" using that t by (simp add: X_def)
  assume lt: "le < m"
  then have "X ! length L = 10" using X nth_length_takeWhile [of "\<lambda>b. b \<noteq> 10" X] by (simp add: L_def [symmetric] le_def)
  then show ten: "D ! le = 10" using lt assms(1) by (simp add: X_def le_def)
  have "X = take (le - ls) (drop ls D) @ take (m - le) (drop le D)"
    using lt take_add [of "le - ls" "m - le" "drop ls D"] by (simp add: X_def le_def add.commute)
  moreover have "take (m - le) (drop le D) = 10 # take (m - Suc le) (drop (Suc le) D)"
    using lt ten assms(1) by (simp add: take_Cons' flip: Cons_nth_drop_Suc)
  ultimately show "X = L @ 10 # take (m - Suc le) (drop (Suc le) D)" using t by simp
qed

lemma buffer_lines_prints:
  assumes "grep_ready E t data str pat fname name D s" "m \<le> 1024" "ls \<le> m" "0 \<notin> set (take (m - ls) (drop ls D))"
    and "D ! 1024 \<noteq> 10" "ls = 0 \<Longrightarrow> cnt \<noteq> 0 \<Longrightarrow> m = 1024 \<Longrightarrow> 10 \<in> set (take (m - ls) (drop ls D))"
  shows "\<exists>all_done n s'. buffer_lines E str (length pat) fname data (int cnt) (int m) (int ls) s = Some (int n, s')
     \<and> lines_done E t data str pat fname name all_done (take (m - ls) (drop ls D)) n s s'
     \<and> (cnt = 0 \<longrightarrow> all_done) \<and> (all_done \<longrightarrow> cnt = 0 \<or> m < 1024)"
  using assms
proof (induction "m - ls" arbitrary: ls D s rule: less_induct)
  case less
  note g = grep_readyD [OF less.prems(1)]
  define X where "X = take (m - ls) (drop ls D)"
  define L where "L = takeWhile (\<lambda>b. b \<noteq> 10) X"
  define le where "le = ls + length L"
  have mD: "m < length D" using g(5) less.prems(2) by simp
  note fst = first_line [OF mD less.prems(3), folded X_def, folded L_def, folded le_def]
  have le: "ls \<le> le" "le < 1025" using fst(1) less.prems(2) by (simp_all add: le_def)
  have nL: "0 \<notin> set L" using less.prems(4) by (auto simp: L_def X_def dest: set_takeWhileD)
  have fl: "find_line_end data (int m) (int ls) s = Some (int le)"
    using find_line_end_eq [OF g(1,4), of m ls] less.prems(2,3) g(5) by (simp add: le_def L_def X_def)
  have b: "uget (data + of_nat le) s = Some (D ! le)" using uget_held [OF g(1,4)] le g(5) by simp
  obtain s1 s2 where p: "uput (data + of_nat le) 0 s = Some s1" "search_line E str (length pat) fname data (int ls) (int le) (int ls) s1 = Some s2"
      "goes t {} (region data 1025) (grep_output pat name [L]) s s2" "grep_ready E t data str pat fname name (D[le := 0]) s2"
    using search_piece [OF less.prems(1) le] fst(2) nL by auto
  have z: "D[le := 0] ! 1024 \<noteq> 10" using less.prems(5) by (cases "le = 1024") (simp_all add: g(5))
  let ?go = "buffer_lines E str (length pat) fname data (int cnt) (int m)" and ?done = "lines_done E t data str pat fname name"
  have step: "?go (int ls) s = (if le + 1 \<ge> m then Some (0, s2) else ?go (int (Suc le)) s2)" if "D ! le = 10 \<or> cnt = 0 \<or> ls = 0"
    using that fl b p(1,2) by (subst buffer_lines.simps) (auto simp: add.commute)
  show ?case
  proof (cases "le = m")
    case True
    note eq = fst(4) [OF True]
    show ?thesis
    proof (cases "D ! le = 10 \<or> cnt = 0 \<or> ls = 0")
      case c: True
      have "?done True X 0 s s2" using p(3,4) z fst(3) eq by (auto simp: lines_done_def lines_of_line intro!: exI [of _ "D[le := 0]"])
      moreover have "cnt = 0 \<or> m < 1024" using c True less.prems(2,5,6) fst(3) eq unfolding X_def by (cases "m = 1024"; cases "cnt = 0") auto
      ultimately show ?thesis using step [OF c] True unfolding X_def by (intro exI [of _ True] exI [of _ "0 :: nat"] exI [of _ s2]) simp
    next
      case c: False
      obtain s3 s4 where k: "uput (data + of_nat m) 0 s = Some s3" "ece391_strcpy data (data + of_nat ls) s3 = Some s4" "?done False X (m - ls) s s4"
        using keep_piece [OF less.prems(1) _ less.prems(3,2,5,4)] c fst(3) eq unfolding X_def by auto
      have "?go (int ls) s = Some (int (m - ls), s4)" using c fl b k(1,2) True less.prems(3) by (subst buffer_lines.simps) (simp add: of_nat_diff)
      then show ?thesis using k(3) c unfolding X_def by blast
    qed
  next
    case False
    then have lt: "le < m" using fst(1) by simp
    define Y where "Y = take (m - Suc le) (drop (Suc le) D)"
    note XY = fst(5,6) [OF lt, folded Y_def]
    then have ln: "lines_of X = L # lines_of Y" using fst(3) by (simp add: lines_of_step)
    show ?thesis
    proof (cases "Suc le = m")
      case True
      then have "Y = []" by (simp add: Y_def)
      then have "?done (cnt = 0 \<or> m < 1024) X 0 s s2"
        using p(3,4) z ln by (auto simp: lines_done_def grep_output_Cons intro!: exI [of _ "D[le := 0]"])
      then show ?thesis using step XY(1) True unfolding X_def by (intro exI [of _ "cnt = 0 \<or> m < 1024"] exI [of _ "0 :: nat"] exI [of _ s2]) simp
    next
      case f: False
      have Y': "take (m - Suc le) (drop (Suc le) (D[le := 0])) = Y" by (simp add: Y_def)
      have nY: "0 \<notin> set Y" using less.prems(4) XY(2) unfolding X_def [symmetric] by simp
      obtain d n s' where r: "?go (int (Suc le)) s2 = Some (int n, s')" "?done d Y n s2 s'" "cnt = 0 \<longrightarrow> d" "d \<longrightarrow> cnt = 0 \<or> m < 1024"
        using less.hyps [of "Suc le" "D[le := 0]" s2, OF _ p(4)] lt le(1) less.prems(2) nY z unfolding Y' by (auto simp: diff_less_mono2)
      have "?done d X n s s'" using r(2) p(3) goes_trans [OF p(3)] unfolding lines_done_def ln by (fastforce simp: grep_output_Cons)
      then show ?thesis using step XY(1) f lt r unfolding X_def by (intro exI [of _ d] exI [of _ n] exI [of _ s']) simp
    qed
  qed
qed

section \<open>The file\<close>

lemma hd_lines_append: "10 \<notin> set xs \<Longrightarrow> hd (lines_of (xs @ ys)) = xs @ hd (lines_of ys)"
  by (induction xs) auto

text \<open>One turn of the outer loop, with \<open>P\<close> kept from the turn before.\<close>

lemma file_lines_turn:
  assumes "grep_ready E t data str pat fname name D s" "D ! 1024 \<noteq> 10" "n < 1024" "take n D = P" "file_reading fd data 1 s"
    and "0 \<notin> set P" "0 \<notin> set (file_rest fd s)" "\<forall>l \<in> set (lines_of (P @ file_rest fd s)). length l \<le> 1023"
  defines "d \<equiv> take (1024 - n) (file_rest fd s)"
  shows "\<exists>s1 s2 all_done k rest. ece391_read E (int fd) (data + of_nat n) (1024 - int n) s = Some (int (length d), s1)
     \<and> buffer_lines E str (length pat) fname data (int (length d)) (int n + int (length d)) 0 s1 = Some (int k, s2)
     \<and> lines_done E t data str pat fname name all_done (P @ d) k s1 s2 \<and> goes t {fd} (region data 1025) [] s s1
     \<and> file_reading fd data 1 s2 \<and> file_rest fd s = d @ rest \<and> file_rest fd s2 = rest
     \<and> (d = [] \<longrightarrow> all_done) \<and> (all_done \<longrightarrow> rest = [])"
proof -
  note g = grep_readyD [OF assms(1)]
  have ub: "user_buffer data 1025" "user_buffer (data + of_nat n) (1024 - n)" "user_buffer data 1"
    using g(4,5) assms(3) user_buffer_part [of data 1025 n "1024 - n"] by (auto simp: held_def user_buffer_def)
  have fr: "file_reading fd (data + of_nat n) (1024 - n) s" using file_reading_goes(1) [OF assms(5) goes_refl [OF g(1,3)], of "{}"] ub(2) assms(3) by simp
  have n: "n + (1024 - n) \<le> length D" "1024 - n \<le> 1024" using assms(3) g(5) by simp_all
  define D1 where "D1 = take n D @ d @ drop (n + length d) D"
  obtain s1 where s1: "ece391_read E (int fd) (data + of_nat n) (int (1024 - n)) s = Some (int (length d), s1)"
      "held data D1 s1" "goes t {fd} (region data 1025) [] s s1"
      "file_reading fd (data + of_nat n) (1024 - n) s1" "file_rest fd s = d @ file_rest fd s1"
    using read_held [OF g(1,4) n(1) fr n(2), folded d_def, folded D1_def] g(5) by auto
  let ?m = "n + length d"
  have ld: "length d \<le> 1024 - n" by (simp add: d_def)
  have D: "length D1 = 1025" "take ?m D1 = P @ d" "D1 ! 1024 = D ! 1024" using g(5) assms(3,4) ld by (auto simp: D1_def nth_append)
  have gr: "grep_ready E t data str pat fname name D1 s1" by (rule grep_ready_goes [OF assms(1) s1(3,2) D(1)])
  have ten: "10 \<in> set (P @ d)" if "?m = 1024"
  proof (rule ccontr)
    assume "10 \<notin> set (P @ d)"
    then have "hd (lines_of (P @ file_rest fd s)) = P @ d @ hd (lines_of (file_rest fd s1))"
      using hd_lines_append [of "P @ d"] s1(5) by simp
    moreover have "length P = n" using assms(3,4) g(5) by auto
    moreover have "hd (lines_of (P @ file_rest fd s)) \<in> set (lines_of (P @ file_rest fd s))" by simp
    ultimately show False using assms(8) that by fastforce
  qed
  have z: "0 \<notin> set (take (?m - 0) (drop 0 D1))" using D(2) assms(6,7) set_take_subset [of "1024 - n" "file_rest fd s"] by (auto simp: d_def)
  obtain a k s2 where b: "buffer_lines E str (length pat) fname data (int (length d)) (int ?m) (int 0) s1 = Some (int k, s2)"
      "lines_done E t data str pat fname name a (P @ d) k s1 s2" "length d = 0 \<longrightarrow> a" "a \<longrightarrow> length d = 0 \<or> ?m < 1024"
  proof -
    have "10 \<in> set (take (?m - 0) (drop 0 D1))" if "?m = 1024" using D(2) ten [OF that] by simp
    moreover have "?m \<le> 1024" "D1 ! 1024 \<noteq> 10" using ld assms(2,3) D(3) by simp_all
    ultimately show thesis using buffer_lines_prints [OF gr _ _ z, of "length d"] D(2) that by (metis diff_zero drop0 le0)
  qed
  obtain bs where "goes t {} (region data 1025) bs s1 s2" using b(2) by (auto simp: lines_done_def)
  note f = file_reading_goes [OF s1(4) this _ ub(3)]
  have "file_rest fd s1 = []" if a
  proof -
    have "length d < 1024 - n" using b(4) that assms(3) by auto
    then have "d = file_rest fd s" by (simp add: d_def)
    with s1(5) show ?thesis by simp
  qed
  moreover have "ece391_read E (int fd) (data + of_nat n) (1024 - int n) s = Some (int (length d), s1)" using s1(1) assms(3) by (simp add: of_nat_diff)
  moreover have "buffer_lines E str (length pat) fname data (int (length d)) (int n + int (length d)) 0 s1 = Some (int k, s2)" using b(1) by simp
  moreover have "file_reading fd data 1 s2" "file_rest fd s2 = file_rest fd s1" "d = [] \<longrightarrow> a" using f b(3) by simp_all
  ultimately show ?thesis using s1(3,5) b(2) by blast
qed

lemma file_lines_prints:
  assumes "grep_ready E t data str pat fname name D s" "D ! 1024 \<noteq> 10" "n < 1024" "take n D = P" "file_reading fd data 1 s"
    and "0 \<notin> set P" "0 \<notin> set (file_rest fd s)" "\<forall>l \<in> set (lines_of (P @ file_rest fd s)). length l \<le> 1023"
  shows "\<exists>s' D'. file_lines E str (length pat) fname data (int fd) (int n) s = Some (0, s')
     \<and> goes t {fd} (region data 1025) (grep_output pat name (lines_of (P @ file_rest fd s))) s s'
     \<and> fd_flags (fd_entry fd s') = UNUSED_FLAG \<and> grep_ready E t data str pat fname name D' s' \<and> D' ! 1024 \<noteq> 10"
  using assms
proof (induction "length (file_rest fd s)" arbitrary: s D P n rule: less_induct)
  case less
  define d where "d = take (1024 - n) (file_rest fd s)"
  obtain s1 s2 a k rest where h: "ece391_read E (int fd) (data + of_nat n) (1024 - int n) s = Some (int (length d), s1)"
      "buffer_lines E str (length pat) fname data (int (length d)) (int n + int (length d)) 0 s1 = Some (int k, s2)"
      "lines_done E t data str pat fname name a (P @ d) k s1 s2" "goes t {fd} (region data 1025) [] s s1"
      "file_reading fd data 1 s2" "file_rest fd s = d @ rest" "file_rest fd s2 = rest" "d = [] \<longrightarrow> a" "a \<longrightarrow> rest = []"
    using file_lines_turn [OF less.prems, folded d_def] by blast
  obtain D2 where D2: "grep_ready E t data str pat fname name D2 s2" "D2 ! 1024 \<noteq> 10" "k < 1024"
      "take k D2 = (if a then [] else last (lines_of (P @ d)))"
      "goes t {} (region data 1025) (grep_output pat name (if a then lines_of (P @ d) else butlast (lines_of (P @ d)))) s1 s2"
    using h(3) by (auto simp: lines_done_def)
  note g = grep_readyD [OF D2(1)]
  have go: "goes t {fd} (region data 1025) (grep_output pat name (if a then lines_of (P @ d) else butlast (lines_of (P @ d)))) s s2"
    by (rule goes_silent [OF h(4) goes_mono [OF D2(5)]]) simp_all
  show ?case
  proof (cases "d = []")
    case True
    have fl: "2 \<le> fd" "fd < 8" "fd_flags (fd_entry fd s2) \<noteq> UNUSED_FLAG" using h(5) by (simp_all add: file_reading_def)
    obtain s3 where s3: "ece391_close E (int fd) s2 = Some (0, s3)" "goes t {fd} {} [] s2 s3" "fd_flags (fd_entry fd s3) = UNUSED_FLAG"
      using close_goes [OF g(1,3) fl] by blast
    have g3: "goes t {fd} (region data 1025) [] s2 s3" by (rule goes_mono [OF s3(2)]) simp_all
    have "grep_ready E t data str pat fname name D2 s3" by (rule grep_ready_goes [OF D2(1) g3 held_goes [OF g(4) s3(2)] g(5)]) simp
    moreover have "goes t {fd} (region data 1025) (grep_output pat name (lines_of (P @ file_rest fd s))) s s3"
      using goes_trans [OF go g3] h(6,8,9) True by simp
    ultimately show ?thesis using h(1,2) True s3(1,3) D2(2) by (subst file_lines.simps) auto
  next
    case False
    let ?P = "take k D2"
    have less': "length (file_rest fd s2) < length (file_rest fd s)" using False h(6,7) by simp
    have out: "grep_output pat name (lines_of (P @ file_rest fd s))
        = grep_output pat name (if a then lines_of (P @ d) else butlast (lines_of (P @ d))) @ grep_output pat name (lines_of (?P @ file_rest fd s2))"
      using D2(4) h(6,7,9) lines_of_append [of "P @ d" rest] by (cases a) (simp_all del: take_eq_Nil)
    have sub: "set ?P \<subseteq> set (P @ d)" using D2(4) set_lines_of [of "last (lines_of (P @ d))" "P @ d"] by (auto split: if_splits)
    have "set (lines_of (?P @ file_rest fd s2)) \<subseteq> insert [] (set (lines_of (P @ file_rest fd s)))"
      using D2(4) h(6,7,9) lines_of_append [of "P @ d" rest] by auto
    then have "\<forall>l \<in> set (lines_of (?P @ file_rest fd s2)). length l \<le> 1023" using less.prems(8) by fastforce
    moreover have "0 \<notin> set ?P" "0 \<notin> set (file_rest fd s2)" using sub less.prems(6,7) h(6,7) by auto
    ultimately obtain s' D' where r: "file_lines E str (length pat) fname data (int fd) (int k) s2 = Some (0, s')"
        "goes t {fd} (region data 1025) (grep_output pat name (lines_of (?P @ file_rest fd s2))) s2 s'"
        "fd_flags (fd_entry fd s') = UNUSED_FLAG" "grep_ready E t data str pat fname name D' s'" "D' ! 1024 \<noteq> 10"
      using less.hyps [OF less' D2(1-3) refl h(5)] by blast
    show ?thesis using h(1,2) False r goes_trans [OF go r(2)] out by (subst file_lines.simps) auto
  qed
qed

lemma do_one_file_prints:
  assumes "grep_ready E t data str pat fname name D s" "D ! 1024 \<noteq> 10" "has_file name content s" "fd_free s"
    and "0 \<notin> set content" "\<forall>l \<in> set (lines_of content). length l \<le> 1023"
  shows "\<exists>i s' D'. do_one_file E data str fname s = Some (0, s') \<and> 2 \<le> i \<and> i < 8 \<and> fd_flags (fd_entry i s) = UNUSED_FLAG
     \<and> fd_flags (fd_entry i s') = UNUSED_FLAG \<and> goes t {i} (region data 1025) (grep_output pat name (lines_of content)) s s'
     \<and> grep_ready E t data str pat fname name D' s' \<and> D' ! 1024 \<noteq> 10"
proof -
  note g = grep_readyD [OF assms(1)]
  obtain i s1 where o: "ece391_open E fname s = Some (int i, s1)" "2 \<le> i" "i < 8" "fd_flags (fd_entry i s) = UNUSED_FLAG"
      "goes t {i} {} [] s s1" "file_rest i s1 = content" "\<forall>w m. user_buffer w m \<longrightarrow> 0 < m \<longrightarrow> file_reading i w m s1"
    using open_file [OF g(1,3,7) assms(3,4), of E "{}"] by blast
  have g1: "goes t {i} (region data 1025) [] s s1" by (rule goes_mono [OF o(5)]) simp_all
  have gr: "grep_ready E t data str pat fname name D s1" by (rule grep_ready_goes [OF assms(1) g1 held_goes [OF g(4) o(5)] g(5)]) simp
  have fr: "file_reading i data 1 s1" using o(7) g(4,5) by (simp add: held_def user_buffer_def)
  obtain s' D' where r: "file_lines E str (length pat) fname data (int i) (int 0) s1 = Some (0, s')"
      "goes t {i} (region data 1025) (grep_output pat name (lines_of content)) s1 s'"
      "fd_flags (fd_entry i s') = UNUSED_FLAG" "grep_ready E t data str pat fname name D' s'" "D' ! 1024 \<noteq> 10"
    using file_lines_prints [OF gr assms(2), of 0 "[]" i] fr assms(5,6) o(6) by auto
  have "do_one_file E data str fname s = Some (0, s')" using cstr_at_str(3) [OF g(2,6)] o(1) r(1) by (simp add: do_one_file_def)
  with o(2-4) r(3-5) goes_silent [OF g1 r(2)] show ?thesis by blast
qed

section \<open>The directory\<close>

text \<open>What the search sees of an entry: the bytes of a regular file, nothing of the clock.\<close>

definition file_text :: "byte list \<Rightarrow> sys \<Rightarrow> byte list" where
  "file_text name s = (case find_file name s of None \<Rightarrow> []
     | Some d \<Rightarrow> if fileType d = 2 then file_data (memory s) (bootMemAddr s) (inodeNum d) else [])"

definition text_entry :: "byte list \<Rightarrow> sys \<Rightarrow> bool" where
  "text_entry name s \<longleftrightarrow> plain_name name
     \<and> (case find_file name s of None \<Rightarrow> False
        | Some d \<Rightarrow> fileType d = 0 \<or> fileType d = 2 \<and> inodeNum d < numInodes (memory s) (bootMemAddr s))
     \<and> 0 \<notin> set (file_text name s) \<and> (\<forall>l \<in> set (lines_of (file_text name s)). length l \<le> 1023)"

lemma text_entry_file:
  assumes "text_entry name s" "find_file name s = Some d" "fileType d = 2"
  shows "has_file name (file_text name s) s"
  using assms by (simp add: text_entry_def has_file_def file_text_def)

lemma text_entry_goes:
  assumes "text_entry name s" "goes t F A bs s s'" "image_placed s"
  shows "text_entry name s'" "file_text name s' = file_text name s"
proof -
  have g: "bootMemAddr s' = bootMemAddr s" "same_image (bootMemAddr s) (memory s) (memory s')" using assms(2) by (simp_all add: goes_def)
  note ff = directory_goes(2) [OF assms(2,3)]
  have "file_data (memory s') (bootMemAddr s) n = file_data (memory s) (bootMemAddr s) n" if "n < numInodes (memory s) (bootMemAddr s)" for n
    using that assms(3) by (intro same_image_file [OF g(2)]) (simp_all add: image_placed_def)
  then show ft: "file_text name s' = file_text name s" using assms(1) by (auto simp: file_text_def text_entry_def ff g(1) split: option.splits)
  show "text_entry name s'" using assms(1) same_image_header [OF g(2)] by (auto simp: text_entry_def ft ff g(1) split: option.splits)
qed

lemma file_lines_clock:
  assumes "grep_ready E t data str pat fname name D s" "D ! 1024 \<noteq> 10" "clock_fd i s" "clock_runs E t"
  shows "\<exists>s' D'. file_lines E str (length pat) fname data (int i) 0 s = Some (0, s') \<and> goes t {i} (region data 1025) [] s s'
     \<and> fd_flags (fd_entry i s') = UNUSED_FLAG \<and> grep_ready E t data str pat fname name D' s' \<and> D' ! 1024 \<noteq> 10"
proof -
  note g = grep_readyD [OF assms(1)]
  have ub: "user_buffer data 1025" using g(4,5) by (simp add: held_def)
  obtain s1 where s1: "ece391_read E (int i) data 1024 s = Some (0, s1)" "goes t {} {} [] s s1"
    using clock_read [OF g(1,3) assms(3,4) ub, of 1024 "{}" "{}"] by auto
  have g1: "goes t {} (region data 1025) [] s s1" by (rule goes_mono [OF s1(2)]) simp_all
  have gr: "grep_ready E t data str pat fname name D s1" by (rule grep_ready_goes [OF assms(1) g1 held_goes [OF g(4) s1(2)] g(5)]) simp
  obtain a k s2 where b: "buffer_lines E str (length pat) fname data 0 0 0 s1 = Some (int k, s2)"
      "lines_done E t data str pat fname name a [] k s1 s2" a
    using buffer_lines_prints [OF gr, of 0 0 0] assms(2) by auto
  then obtain D2 where D2: "grep_ready E t data str pat fname name D2 s2" "D2 ! 1024 \<noteq> 10" "goes t {} (region data 1025) [] s1 s2"
    by (auto simp: lines_done_def)
  note g2 = grep_readyD [OF D2(1)]
  note s2 = goes_silent [OF g1 D2(3)]
  have "clock_fd i s2" by (rule clock_fd_goes [OF assms(3) s2]) simp
  then have c: "2 \<le> i" "i < 8" "fd_flags (fd_entry i s2) \<noteq> UNUSED_FLAG" by (simp_all add: clock_fd_def)
  obtain s3 where s3: "ece391_close E (int i) s2 = Some (0, s3)" "goes t {i} {} [] s2 s3" "fd_flags (fd_entry i s3) = UNUSED_FLAG"
    using close_goes [OF g2(1,3) c] by blast
  have g3: "goes t {i} (region data 1025) [] s2 s3" by (rule goes_mono [OF s3(2)]) simp_all
  have "grep_ready E t data str pat fname name D2 s3" by (rule grep_ready_goes [OF D2(1) g3 held_goes [OF g2(4) s3(2)] g2(5)]) simp
  moreover have "goes t {i} (region data 1025) [] s s3" by (rule goes_silent [OF goes_mono [OF s2] g3]) simp_all
  moreover have "file_lines E str (length pat) fname data (int i) 0 s = Some (0, s3)"
    using s1(1) b(1) s3(1) by (subst file_lines.simps) simp
  ultimately show ?thesis using s3(3) D2(2) by blast
qed

lemma do_one_file_entry:
  assumes "grep_ready E t data str pat fname name D s" "D ! 1024 \<noteq> 10" "text_entry name s" "fd_free s" "clock_runs E t"
  shows "\<exists>i s' D'. do_one_file E data str fname s = Some (0, s') \<and> 2 \<le> i \<and> i < 8 \<and> fd_flags (fd_entry i s) = UNUSED_FLAG
     \<and> fd_flags (fd_entry i s') = UNUSED_FLAG \<and> goes t {i} (region data 1025) (grep_output pat name (lines_of (file_text name s))) s s'
     \<and> grep_ready E t data str pat fname name D' s' \<and> D' ! 1024 \<noteq> 10"
proof -
  note g = grep_readyD [OF assms(1)]
  obtain d where d: "find_file name s = Some d" "plain_name name" "fileType d = 0 \<or> fileType d = 2" "0 \<notin> set (file_text name s)"
      "\<forall>l \<in> set (lines_of (file_text name s)). length l \<le> 1023"
    using assms(3) by (auto simp: text_entry_def split: option.splits)
  show ?thesis
  proof (cases "fileType d = 2")
    case True
    show ?thesis by (rule do_one_file_prints [OF assms(1,2) text_entry_file [OF assms(3) d(1) True] assms(4) d(4,5)])
  next
    case False
    then have ty: "fileType d = 0" "file_text name s = []" using d(1,3) by (simp_all add: file_text_def)
    obtain i s1 where o: "ece391_open E fname s = Some (int i, s1)" "fd_flags (fd_entry i s) = UNUSED_FLAG" "goes t {i} {} [] s s1" "clock_fd i s1"
      using open_clock [OF g(1,3,7) d(2,1) ty(1) assms(4), of E "{}"] by blast
    have g1: "goes t {i} (region data 1025) [] s s1" by (rule goes_mono [OF o(3)]) simp_all
    have gr: "grep_ready E t data str pat fname name D s1" by (rule grep_ready_goes [OF assms(1) g1 held_goes [OF g(4) o(3)] g(5)]) simp
    obtain s2 D2 where r: "file_lines E str (length pat) fname data (int i) 0 s1 = Some (0, s2)" "goes t {i} (region data 1025) [] s1 s2"
        "fd_flags (fd_entry i s2) = UNUSED_FLAG" "grep_ready E t data str pat fname name D2 s2" "D2 ! 1024 \<noteq> 10"
      using file_lines_clock [OF gr assms(2) o(4) assms(5)] by blast
    have "do_one_file E data str fname s = Some (0, s2)" using cstr_at_str(3) [OF g(2,6)] o(1) r(1) by (simp add: do_one_file_def)
    moreover have "2 \<le> i" "i < 8" using o(4) by (simp_all add: clock_fd_def)
    ultimately show ?thesis using o(2) r(3-5) goes_silent [OF g1 r(2)] ty(2) by fastforce
  qed
qed

text \<open>
  Where the compiler puts things: the three arrays do not overlap each other and no constant.
\<close>

definition grep_arrays :: "u32 \<Rightarrow> u32 \<Rightarrow> u32 \<Rightarrow> (u32 \<times> nat) list" where
  "grep_arrays data search buf = [(data, 1025), (search, 1024), (buf, 33)]"

definition grep_layout :: "user_env \<Rightarrow> u32 \<Rightarrow> u32 \<Rightarrow> u32 \<Rightarrow> bool" where
  "grep_layout E data search buf \<longleftrightarrow> (\<forall>(v, n) \<in> set (grep_arrays data search buf). user_buffer v n
     \<and> (\<forall>(w, m) \<in> set (grep_arrays data search buf @ [(lit E ''.'', 2), (lit E '':'', 2), (lit E (ln []), 2)]).
          (v, n) = (w, m) \<or> disjoint_regions v n w m))"

lemma grep_layoutD:
  assumes "grep_layout E data search buf"
  shows "user_buffer data 1025" "user_buffer search 1024" "user_buffer buf 33"
    "k \<le> 33 \<Longrightarrow> apart (region data 1025) buf k" "apart (region buf 33) data 1025" "apart (region search 1024) data 1025"
    "k \<le> 1024 \<Longrightarrow> apart (region data 1025) search k" "k \<le> 1024 \<Longrightarrow> apart (region buf 33) search k"
    "(v, n) \<in> set (grep_arrays data search buf) \<Longrightarrow> m \<in> {''.'', '':'', ln []} \<Longrightarrow> apart (region v n) (lit E m) (Suc (Suc 0))"
  using assms by (auto simp: grep_layout_def grep_arrays_def intro!: apart_disjoint)

text \<open>Between two files.\<close>

definition grep_between :: "user_env \<Rightarrow> nat \<Rightarrow> u32 \<Rightarrow> u32 \<Rightarrow> byte list \<Rightarrow> nat \<Rightarrow> u32 \<Rightarrow> sys \<Rightarrow> bool" where
  "grep_between E t data search pat fd buf s \<longleftrightarrow> user_ok t s \<and> image_placed s \<and> var (data + 1024) s \<noteq> 10
     \<and> cstr_at search pat s \<and> length pat < 1024 \<and> cstr_at (lit E '':'') [58] s \<and> cstr_at (lit E (ln [])) [10] s
     \<and> dir_reading fd buf 32 s \<and> fd_free s"

lemma lit_goes:
  assumes "cstr_at (lit E m) [c] s" "goes t F (region v n) bs s s'" "grep_layout E data search buf"
    and "(v, n) \<in> set (grep_arrays data search buf)" "m \<in> {''.'', '':'', ln []}"
  shows "cstr_at (lit E m) [c] s'"
  using cstr_goes [OF assms(1,2)] grep_layoutD(9) [OF assms(3-5)] by simp

lemma held_1024: "held data D s \<Longrightarrow> length D = 1025 \<Longrightarrow> var (data + 1024) s = D ! 1024"
  by (auto simp: held_def dest: spec [of _ 1024])

text \<open>A step that changes no array but the name's keeps it so.\<close>

lemma grep_between_goes:
  assumes "grep_between E t data search pat fd buf s" "goes t F (region buf 33) bs s s'" "grep_layout E data search buf"
    and "dir_reading fd buf 32 s'" "fd_free s'"
  shows "grep_between E t data search pat fd buf s'"
proof -
  note b = assms(1) [unfolded grep_between_def] and l = grep_layoutD [OF assms(3)]
  have "cstr_at (lit E '':'') [58] s'" "cstr_at (lit E (ln [])) [10] s'"
    using b lit_goes [OF _ assms(2,3)] by (simp_all add: grep_arrays_def)
  moreover have "cstr_at search pat s'" using b cstr_goes [OF _ assms(2)] l(8) by simp
  moreover have "var (data + 1024) s' = var (data + 1024) s"
    using assms(2) l(5) [unfolded apart_def, rule_format, of 1024] user_buffer_part [OF l(1), of 1024 1] by (simp add: goes_def)
  ultimately show ?thesis using b assms(4,5) goes_ok [OF assms(2)] by (simp add: grep_between_def)
qed

lemma fd_free_goes: "fd_free s \<Longrightarrow> goes t {fd} A bs s s' \<Longrightarrow> fd_flags (fd_entry fd s) \<noteq> UNUSED_FLAG \<Longrightarrow> fd_free s'"
  unfolding fd_free_def goes_def by (metis singletonD)

text \<open>The name that has been read is terminated, and the file is searched.\<close>

lemma grep_file:
  assumes "grep_between E t data search pat fd buf s" "grep_layout E data search buf" "clock_runs E t"
    and "held buf nm s" "length nm \<le> 32" "0 \<notin> set nm" "text_entry nm s"
  shows "\<exists>s1 s2. uput (buf + of_nat (length nm)) 0 s = Some s1 \<and> do_one_file E data search buf s1 = Some (0, s2)
     \<and> (\<exists>F A. goes t F A (grep_output pat nm (lines_of (file_text nm s))) s s2)
     \<and> grep_between E t data search pat fd buf s2 \<and> dir_rest fd s2 = dir_rest fd s"
proof -
  note b = assms(1) [unfolded grep_between_def] and l = grep_layoutD [OF assms(2)]
  obtain B where B: "length B = 33" "held buf B s" using held_ex [OF l(3)] by blast
  have tk: "take (length nm) B = nm"
    using assms(4,5) B by (intro nth_equalityI) (auto simp: held_def)
  obtain s1 where s1: "uput (buf + of_nat (length nm)) 0 s = Some s1" "held buf (B[length nm := 0]) s1" "goes t {} (region buf 33) [] s s1"
    using uput_held [of t s buf B "length nm" 0 "{}"] b B assms(5) by auto
  have nm: "cstr_at buf nm s1" using held_cstr [OF s1(2), of 0 "length nm"] B(1) assms(5,6) tk by simp
  note d1 = dir_reading_goes [OF _ s1(3), of fd buf 32]
  have "fd_free s1" using b s1(3) by (auto simp: fd_free_def goes_def)
  then have b1: "grep_between E t data search pat fd buf s1"
    using b d1 by (intro grep_between_goes [OF assms(1) s1(3) assms(2)]) simp_all
  obtain D where D: "length D = 1025" "held data D s1" using held_ex [OF l(1)] by blast
  then have D10: "D ! 1024 \<noteq> 10" using b1 held_1024 by (simp add: grep_between_def)
  have gr: "grep_ready E t data search pat buf nm D s1"
    using b1 D nm assms(5) l(4,7) l(9) [of data 1025] by (simp add: grep_ready_def grep_between_def grep_arrays_def)
  note te = text_entry_goes [OF assms(7) s1(3)]
  obtain i s2 D2 where r: "do_one_file E data search buf s1 = Some (0, s2)" "2 \<le> i" "i < 8" "fd_flags (fd_entry i s1) = UNUSED_FLAG"
      "fd_flags (fd_entry i s2) = UNUSED_FLAG" "goes t {i} (region data 1025) (grep_output pat nm (lines_of (file_text nm s1))) s1 s2"
      "grep_ready E t data search pat buf nm D2 s2" "D2 ! 1024 \<noteq> 10"
    using do_one_file_entry [OF gr D10 _ \<open>fd_free s1\<close> assms(3)] te b by blast
  note g2 = grep_readyD [OF r(7)]
  have "i \<noteq> fd" using r(4) b1 by (auto simp: grep_between_def dir_reading_def)
  then have d2: "dir_reading fd buf 32 s2" "dir_rest fd s2 = dir_rest fd s1"
    using dir_reading_goes [OF _ r(6), of fd buf 32] b1 by (simp_all add: grep_between_def)
  have "var (data + 1024) s2 \<noteq> 10" using g2(4,5) r(8) held_1024 by simp
  moreover have "fd_free s2" using r(2,3,5) by (auto simp: fd_free_def)
  ultimately have "grep_between E t data search pat fd buf s2" using g2 d2(1) b by (simp add: grep_between_def)
  moreover have "goes t {i} (region buf 33 \<union> region data 1025) (grep_output pat nm (lines_of (file_text nm s))) s s2"
    using goes_silent [OF goes_mono [OF s1(3)] goes_mono [OF r(6)], of "{i}" "region buf 33 \<union> region data 1025"] te(2) b by simp
  ultimately show ?thesis using s1(1) r(1) d2(2) d1(2) b by auto
qed

definition entry_output :: "byte list \<Rightarrow> sys \<Rightarrow> byte list \<Rightarrow> byte list" where
  "entry_output pat s nm = (if hd nm = 46 then [] else grep_output pat nm (lines_of (file_text nm s)))"

lemma grep_loop_prints:
  assumes "grep_layout E data search buf" "clock_runs E t"
  shows "grep_between E t data search pat fd buf s \<Longrightarrow> \<forall>n \<in> set (dir_rest fd s). hd n = 46 \<or> text_entry n s \<Longrightarrow>
    \<exists>s'. grep_loop E data search buf (int fd) s = Some (0, s') \<and> displays t (concat (map (entry_output pat s) (dir_rest fd s))) s s'"
proof (induction "dir_rest fd s" arbitrary: s)
  case Nil
  then have b: "user_ok t s" "dir_reading fd buf 32 s" by (simp_all add: grep_between_def)
  obtain s' where "ece391_read E (int fd) buf 32 s = Some (0, s')" "goes t {fd} (region buf 0) [] s s'"
    using read_entry [OF b, of E] Nil.hyps by auto
  then show ?case using Nil.hyps by (subst grep_loop.simps) (auto simp: goes_def)
next
  case (Cons nm names)
  note b = Cons.prems(1) [unfolded grep_between_def] and l = grep_layoutD [OF assms(1)]
  have dr: "dir_rest fd s = nm # names" using Cons.hyps(2) by simp
  obtain s1 where s1: "ece391_read E (int fd) buf 32 s = Some (int (length nm), s1)" "held buf nm s1" "length nm \<le> 32"
      "goes t {fd} (region buf (length nm)) [] s s1" "dir_reading fd buf 32 s1" "nm \<noteq> []" "0 \<notin> set nm" "dir_rest fd s1 = names"
    using read_entry [of t s fd buf E] b dr by auto
  have sub: "region buf (length nm) \<subseteq> region buf 33" using region_part [of 0 "length nm" 33 buf] s1(3) by simp
  note g1 = goes_mono [OF s1(4) subset_refl sub]
  have "fd_free s1" using b by (intro fd_free_goes [OF _ s1(4)]) (simp_all add: dir_reading_def)
  then have b1: "grep_between E t data search pat fd buf s1" by (rule grep_between_goes [OF Cons.prems(1) g1 assms(1) s1(5)])
  have same: "n \<in> set names \<Longrightarrow> hd n = 46 \<or> text_entry n s'" "n \<in> set names \<Longrightarrow> entry_output pat s' n = entry_output pat s n"
    if "goes t F A bs s s'" for n F A bs s'
    using Cons.prems(2) text_entry_goes [OF _ that, of n] b by (auto simp: dr entry_output_def)
  have h: "uget buf s1 = Some (hd nm)" using uget_held [OF goes_ok(1) [OF g1] s1(2), of 0] s1(6) by (simp add: hd_conv_nth)
  show ?case
  proof (cases "hd nm = 46")
    case True
    obtain s' where s': "grep_loop E data search buf (int fd) s1 = Some (0, s')" "displays t (concat (map (entry_output pat s1) names)) s1 s'"
      using Cons.hyps(1) [of s1] b1 s1(8) same(1) [OF g1] by auto
    have "displays t ([] @ concat (map (entry_output pat s1) names)) s s'" using g1 by (intro displays_trans [OF _ s'(2)]) (simp add: goes_def)
    moreover have "map (entry_output pat s1) names = map (entry_output pat s) names" using same(2) [OF g1] by simp
    ultimately show ?thesis using s1(1,6) h True s'(1) by (subst grep_loop.simps) (simp add: dr entry_output_def [of pat s nm])
  next
    case False
    then have te: "text_entry nm s1" "file_text nm s1 = file_text nm s" using Cons.prems(2) text_entry_goes [OF _ g1, of nm] b dr by auto
    obtain s2 s3 F A where r: "uput (buf + of_nat (length nm)) 0 s1 = Some s2" "do_one_file E data search buf s2 = Some (0, s3)"
        "goes t F A (entry_output pat s nm) s1 s3" "grep_between E t data search pat fd buf s3" "dir_rest fd s3 = names"
      using grep_file [OF b1 assms s1(2,3,7) te(1)] te(2) s1(8) False by (auto simp: entry_output_def)
    have g3: "goes t (F \<union> {fd}) (A \<union> region buf 33) (entry_output pat s nm) s s3"
      by (rule goes_silent [OF goes_mono [OF g1] goes_mono [OF r(3)]]) auto
    obtain s' where s': "grep_loop E data search buf (int fd) s3 = Some (0, s')" "displays t (concat (map (entry_output pat s3) names)) s3 s'"
      using Cons.hyps(1) [of s3] r(4,5) same(1) [OF g3] by auto
    have "displays t (entry_output pat s nm @ concat (map (entry_output pat s3) names)) s s'" using g3 by (intro displays_trans [OF _ s'(2)]) (simp add: goes_def)
    moreover have "map (entry_output pat s3) names = map (entry_output pat s) names" using same(2) [OF g3] by simp
    ultimately show ?thesis using s1(1,6) h False r(1,2) s'(1) by (subst grep_loop.simps) (simp add: dr)
  qed
qed

section \<open>Property\<close>

text \<open>
  C20: \<^verbatim>\<open>grep\<close> prints the lines that contain its argument.  The hypotheses: every entry of the directory that
  does not start with a dot is the clock or a regular file without NUL bytes and without a line of
  more than 1023 characters, and its name starts neither with stdin nor with stdout (the kernel answers
  0 or 1 when such a name is opened); no entry has an empty name; two descriptors are free; a wait for
  the clock ends; and the byte behind the buffer, which the program reads before it writes it, is no
  newline.  Then \<^verbatim>\<open>grep\<close> ends with status 0, and its terminal has received, for each file in the order of
  the directory and for each line of the file in order, the name, a colon and the line when the
  argument occurs in the line, and nothing else; also when a line lies across two reads of the buffer,
  and for a last line without newline.  An argument that is empty or starts with a byte of 128 or more
  (negative as a char) matches nothing.  The other terminals are unchanged.
\<close>

theorem grep_prints_matches:
  assumes "user_ok t s" "image_placed s" "grep_layout E data search buf" "clock_runs E t"
    and "cstr_at (lit E ''.'') [46] s" "cstr_at (lit E '':'') [58] s" "cstr_at (lit E (ln [])) [10] s"
    and "has_args pat s" "two_free s" "var (data + 1024) s \<noteq> 10"
    and "find_file [46] s = Some d" "fileType d = 1" "[] \<notin> name_of ` set (directory (memory s) (bootMemAddr s))"
    and "\<forall>n \<in> name_of ` set (directory (memory s) (bootMemAddr s)). hd n = 46 \<or> text_entry n s"
  shows "\<exists>s'. grep_main E data search buf s = Some (0, s')
     \<and> displays t (concat (map (\<lambda>n. if hd n = 46 then [] else grep_output pat n (lines_of (file_text n s)))
          (map name_of (directory (memory s) (bootMemAddr s))))) s s'"
proof -
  note l = grep_layoutD [OF assms(3)]
  obtain s1 where s1: "ece391_getargs E search 1024 s = Some (0, s1)" "goes t {} (region search 1024) [] s s1" "cstr_at search pat s1"
    using getargs_goes [OF assms(1,2) l(2) assms(8)] by blast
  have lits: "cstr_at (lit E ''.'') [46] s1" "cstr_at (lit E '':'') [58] s1" "cstr_at (lit E (ln [])) [10] s1"
    using lit_goes [OF _ s1(2) assms(3)] assms(5-7) by (simp_all add: grep_arrays_def)
  have v1: "var (data + 1024) s1 \<noteq> 10"
    using s1(2) l(6) [unfolded apart_def, rule_format, of 1024] user_buffer_part [OF l(1), of 1024 1] assms(10) by (simp add: goes_def)
  note ok1 = goes_ok [OF s1(2)]
  have en: "fd_entry j s1 = fd_entry j s" for j using s1(2) by (simp add: goes_def)
  have fr: "fd_free s1" using assms(9) by (auto simp: fd_free_def two_free_def en)
  have ff: "find_file [46] s1 = Some d" using directory_goes(2) [OF s1(2) assms(2)] assms(11) by simp
  have pn: "plain_name [46]" by (simp add: plain_name_def chars_def)
  obtain i s2 where s2: "ece391_open E (lit E ''.'') s1 = Some (int i, s2)" "2 \<le> i" "i < 8" "fd_flags (fd_entry i s1) = UNUSED_FLAG"
      "goes t {i} {} [] s1 s2" "fd_entry i s2 = opened_fd d"
    using open_goes [OF ok1 lits(1) pn ff _ fr, of E "{}"] assms(12) by auto
  have g: "goes t {i} (region search 1024) [] s s2" by (rule goes_silent [OF goes_mono [OF s1(2)] goes_mono [OF s2(5)]]) simp_all
  note ok2 = goes_ok [OF g] and dir = directory_goes(1) [OF g assms(2)]
  have ub: "user_buffer buf 32" using l(3) by (simp add: user_buffer_def)
  have dr: "dir_reading i buf 32 s2" "dir_rest i s2 = map name_of (directory (memory s) (bootMemAddr s))"
    using ok2 ub s2(2,3,6) assms(12,13) by (simp_all add: dir_reading_def dir_rest_def dir opened_fd_def user_ok_def)
  have "fd_free s2" using assms(9) s2(5) unfolding fd_free_def two_free_def goes_def en by (metis singletonD)
  moreover have "length pat < 1024" using assms(8) by (simp add: has_args_def)
  moreover have "var (data + 1024) s2 = var (data + 1024) s1" using s2(5) user_buffer_part [OF l(1), of 1024 1] by (simp add: goes_def)
  ultimately have b: "grep_between E t data search pat i buf s2"
    using ok2 v1 dr(1) cstr_goes [OF s1(3) s2(5)] cstr_goes [OF lits(2) s2(5)] cstr_goes [OF lits(3) s2(5)] by (simp add: grep_between_def)
  have te: "hd n = 46 \<or> text_entry n s2" "entry_output pat s2 n = entry_output pat s n" if "n \<in> set (dir_rest i s2)" for n
    using assms(14) that text_entry_goes [OF _ g assms(2), of n] by (auto simp: dr(2) entry_output_def)
  obtain s' where s': "grep_loop E data search buf (int i) s2 = Some (0, s')" "displays t (concat (map (entry_output pat s2) (dir_rest i s2))) s2 s'"
    using grep_loop_prints [OF assms(3,4) b] te(1) by blast
  have "map (entry_output pat s2) (dir_rest i s2) = map (entry_output pat s) (dir_rest i s2)" using te(2) by simp
  then have "displays t ([] @ concat (map (entry_output pat s) (dir_rest i s2))) s s'"
    using s'(2) g by (intro displays_trans [of t "[]" s s2]) (simp add: goes_def, metis)
  then show ?thesis using s1(1) s2(1,2) s'(1) by (simp add: grep_main_def dr(2) entry_output_def [abs_def])
qed

section \<open>A search to run\<close>

text \<open>Process 0 on terminal 1 with the argument "ell"; the directory has the entries "." and "abc", a file that holds
  "hello".\<close>

definition grep_memory :: mem where
  "grep_memory = demo_image(0x500000 := 2, 0x500040 := 46, 0x500041 := 0, 0x500042 := 0, 0x500060 := 1, 0x500080 := 97, 0x500081 := 98,
     0x500082 := 99, 0x5000A0 := 2, 0xB00000 := 46, 0xB00010 := 58, 0xB00020 := 10)"

definition grep_env :: user_env where
  "grep_env = ticking (demo_env\<lparr>lit := \<lambda>m. if m = ''.'' then 0x08300000 else if m = '':'' then 0x08300010 else 0x08300020\<rparr>)"

definition grep_args :: sys where
  "grep_args = demo_sys\<lparr>PCB_at := replicate 6 (demo_proc\<lparr>arg_ptr := [101, 108, 108] @ replicate 125 0\<rparr>)\<rparr>"

definition grep_demo :: sys where
  "grep_demo = with_memory grep_memory grep_args"

lemma grep_demo_sel: "memory grep_demo = grep_memory" "bootMemAddr grep_demo = 0x500000" "cur_pid grep_demo = 0"
  "PCB_at grep_demo = replicate 6 (demo_proc\<lparr>arg_ptr := [101, 108, 108] @ replicate 125 0\<rparr>)"
  by (simp_all add: grep_demo_def grep_args_def demo_sys_sel)

lemma grep_header: "numDirectories grep_memory 0x500000 = 2" "numInodes grep_memory 0x500000 = 1" "numDataBlocks grep_memory 0x500000 = 1"
  by (simp_all add: numDirectories_def numInodes_def numDataBlocks_def ld32_def grep_memory_def demo_image_def)

lemma grep_inode: "inode_length (inode_at grep_memory 0x500000 0) = 5" "dataBlocks (inode_at grep_memory 0x500000 0) ! 0 = 0"
  by (simp_all add: inode_at_def ld_inode_def ld32_def grep_memory_def demo_image_def)

lemma grep_text: "file_data grep_memory 0x500000 0 = [104, 101, 108, 108, 111]"
  by (simp add: file_data_def Let_def grep_inode upt_rec file_byte_def grep_header) (simp add: grep_memory_def demo_image_def)

lemma grep_demo_ok: "user_ok 1 grep_demo" "image_placed grep_demo"
proof -
  have "sys_ok grep_args" by (rule sys_ok_arg_ptr [OF demo_sys_ok]) (simp_all add: grep_args_def demo_sys_sel)
  then have "sys_ok grep_demo" using proc_same_ok [OF proc_same_with_memory, of grep_memory grep_args] by (simp add: grep_demo_def)
  moreover have "process_terminal grep_args = Some 1" by (simp add: process_terminal_def pcb_of_def pcb_place_def grep_args_def demo_sys_sel)
  then have "process_terminal grep_demo = Some 1" by (simp add: grep_demo_def)
  moreover have "term_wf grep_demo" using demo_user_ok by (simp add: user_ok_def) (simp add: grep_demo_def grep_args_def with_memory_def term_wf_def console_wf_def)
  ultimately show "user_ok 1 grep_demo" by (simp add: user_ok_def)
  have "dataBlocks (inode_at grep_memory 0x500000 0) ! k = 0" if "4096 * k < (5 :: nat)" for k
    using that grep_inode(2) by (cases k) simp_all
  then have "image_ok grep_memory 0x500000" using grep_inode by (auto simp: image_ok_def image_size_def grep_header inode_ok_def)
  then show "image_placed grep_demo" by (simp add: image_placed_def grep_demo_sel grep_header image_size_def)
qed

lemma grep_demo_directory:
  "directory grep_memory 0x500000 = [ld_dentry grep_memory 0x500040, ld_dentry grep_memory 0x500080]"
  "name_of (ld_dentry grep_memory 0x500040) = [46]" "name_of (ld_dentry grep_memory 0x500080) = [97, 98, 99]"
  "fileType (ld_dentry grep_memory 0x500040) = 1" "fileType (ld_dentry grep_memory 0x500080) = 2" "inodeNum (ld_dentry grep_memory 0x500080) = 0"
proof -
  have "[0..<2] = [0, 1 :: nat]" by (simp add: upt_rec)
  then show "directory grep_memory 0x500000 = [ld_dentry grep_memory 0x500040, ld_dentry grep_memory 0x500080]"
    by (simp add: directory_def grep_header dentry_addr_def)
  show "name_of (ld_dentry grep_memory 0x500040) = [46]" "name_of (ld_dentry grep_memory 0x500080) = [97, 98, 99]"
    by (simp_all add: name_of_ld_dentry cstr_n_def upt_rec view_def) (simp_all add: grep_memory_def demo_image_def)
  show "fileType (ld_dentry grep_memory 0x500040) = 1" "fileType (ld_dentry grep_memory 0x500080) = 2" "inodeNum (ld_dentry grep_memory 0x500080) = 0"
    by (simp_all add: ld_dentry_def ld32_def) (simp_all add: grep_memory_def demo_image_def)
qed

lemma grep_demo_entries: "find_file [46] grep_demo = Some (ld_dentry grep_memory 0x500040)" "text_entry [97, 98, 99] grep_demo"
  "file_text [97, 98, 99] grep_demo = [104, 101, 108, 108, 111]"
proof -
  have ff: "find_file n grep_demo = find (\<lambda>d. name_of d = n) [ld_dentry grep_memory 0x500040, ld_dentry grep_memory 0x500080]" for n
    by (simp only: find_file_def grep_demo_sel grep_demo_directory(1))
  show "find_file [46] grep_demo = Some (ld_dentry grep_memory 0x500040)" by (simp add: ff grep_demo_directory)
  have f: "find_file [97, 98, 99] grep_demo = Some (ld_dentry grep_memory 0x500080)" by (simp add: ff grep_demo_directory)
  then show t: "file_text [97, 98, 99] grep_demo = [104, 101, 108, 108, 111]"
    by (simp add: file_text_def grep_demo_directory grep_demo_sel grep_text)
  show "text_entry [97, 98, 99] grep_demo"
    using f t by (simp add: text_entry_def plain_name_def chars_def grep_demo_directory grep_demo_sel grep_header)
qed

lemma grep_lits: "lit grep_env ''.'' = 0x08300000" "lit grep_env '':'' = 0x08300010" "lit grep_env (ln []) = 0x08300020"
  by (simp_all add: grep_env_def ticking_def ln_def)

lemma grep_demo_layout: "grep_layout grep_env 0x08100000 0x08110000 0x08120000"
  by (simp add: grep_layout_def grep_arrays_def user_buffer_def disjoint_regions_def grep_lits)

lemma grep_demo_literals: "cstr_at (lit grep_env ''.'') [46] grep_demo" "cstr_at (lit grep_env '':'') [58] grep_demo"
  "cstr_at (lit grep_env (ln [])) [10] grep_demo"
  by (simp_all add: grep_lits cstr_at_def user_buffer_def user_phys_def user_frame_def grep_demo_sel rd_bytes_def view_def upt_rec)
     (simp_all add: grep_memory_def demo_image_def)

theorem grep_prints_matches_witness:
  "\<exists>s'. grep_main grep_env 0x08100000 0x08110000 0x08120000 grep_demo = Some (0, s')
     \<and> displays 1 [97, 98, 99, 58, 104, 101, 108, 108, 111, 10] grep_demo s'"
proof -
  have fr: "two_free grep_demo"
    unfolding two_free_def by (rule bexI [of _ 4], rule bexI [of _ 5])
      (simp_all add: fd_entry_def grep_demo_sel demo_proc_def initial_fdt_def empty_fd_def)
  have a: "has_args [101, 108, 108] grep_demo" "var (0x08100000 + 1024) grep_demo \<noteq> 10"
    by (simp_all add: has_args_def grep_demo_sel var_def user_phys_def user_frame_def) (simp add: grep_memory_def demo_image_def)
  have ne: "[] \<notin> name_of ` set (directory (memory grep_demo) (bootMemAddr grep_demo))"
    by (simp add: grep_demo_sel grep_demo_directory)
  have te: "\<forall>n \<in> name_of ` set (directory (memory grep_demo) (bootMemAddr grep_demo)). hd n = 46 \<or> text_entry n grep_demo"
    using grep_demo_entries(2) by (simp add: grep_demo_sel grep_demo_directory)
  have "sublist [101, 108, 108] [104, 101, 108, 108, 111 :: byte]" unfolding sublist_def by (intro exI [of _ "[104]"] exI [of _ "[111]"]) simp
  then have o: "grep_output [101, 108, 108] [97, 98, 99] [[104, 101, 108, 108, 111]] = [97, 98, 99, 58, 104, 101, 108, 108, 111, 10]"
    by (simp add: grep_output_def hits_def searchable_def)
  from grep_prints_matches [OF grep_demo_ok grep_demo_layout _ grep_demo_literals a(1) fr a(2) grep_demo_entries(1) grep_demo_directory(4) ne te]
  show ?thesis using ticking_runs by (simp add: grep_demo_sel grep_demo_directory grep_demo_entries(3) o grep_env_def)
qed

end
