(* ===== verification/User_Demos.thy ===== *)
theory User_Demos
  imports User_Buffers
begin

unbundle bit_operations_syntax

text \<open>
  Two more programs: \<^verbatim>\<open>ece391pingpong.c\<close>, which draws a letter that bounces between two walls, and
  \<^verbatim>\<open>ece391sigtest.c\<close>, which tests signals.
\<close>

section \<open>pingpong\<close>

text \<open>The array and the two integers of \<^verbatim>\<open>main\<close> whose addresses are used.\<close>

record pingpong_vars =
  pp_buf :: u32
  pp_ret_val :: u32
  pp_garbage :: u32

text \<open>\<^verbatim>\<open>for (; i < n; i++) buf[i] = ' ';\<close>\<close>

function put_spaces :: "u32 \<Rightarrow> nat \<Rightarrow> nat \<Rightarrow> sys \<Rightarrow> sys option" where
  "put_spaces buf i n s = (if i < n then do { s \<leftarrow> uput (buf + of_nat i) 32 s; put_spaces buf (Suc i) n s } else Some s)"
  by auto
termination by (relation "measure (\<lambda>(buf, i, n, s). n - i)") auto

declare put_spaces.simps [simp del]

text \<open>The body of the two loops over the columns.\<close>

definition draw :: "user_env \<Rightarrow> pingpong_vars \<Rightarrow> int \<Rightarrow> byte \<Rightarrow> int \<Rightarrow> sys \<Rightarrow> sys option" where
  "draw E V rtc_fd curchar j s = do {
     s \<leftarrow> put_spaces (pp_buf V) 2 78 s;
     s \<leftarrow> uput (pp_buf V + of_int j) curchar s;
     s \<leftarrow> ece391_fdputs E 1 (pp_buf V) s;
     (r, s) \<leftarrow> ece391_read E rtc_fd (pp_garbage V) 4 s;
     Some s
   }"

function move_out :: "user_env \<Rightarrow> pingpong_vars \<Rightarrow> int \<Rightarrow> byte \<Rightarrow> int \<Rightarrow> sys \<Rightarrow> sys option" where
  "move_out E V rtc_fd curchar j s =
    (if j < 78 then do { s \<leftarrow> draw E V rtc_fd curchar j s; move_out E V rtc_fd curchar (j + 1) s } else Some s)"
  by auto
termination by (relation "measure (\<lambda>(E, V, rtc_fd, curchar, j, s). nat (78 - j))") auto

function bounce_back :: "user_env \<Rightarrow> pingpong_vars \<Rightarrow> int \<Rightarrow> byte \<Rightarrow> int \<Rightarrow> sys \<Rightarrow> sys option" where
  "bounce_back E V rtc_fd curchar j s =
    (if j \<ge> 2 then do { s \<leftarrow> draw E V rtc_fd curchar j s; bounce_back E V rtc_fd curchar (j - 1) s } else Some s)"
  by auto
termination by (relation "measure (\<lambda>(E, V, rtc_fd, curchar, j, s). nat (j - 1))") auto

declare move_out.simps [simp del] bounce_back.simps [simp del]

text \<open>
  The endless loop: \<open>pingpong_turns n\<close> is its state after \<open>n\<close> turns, with the letter.
\<close>

fun pingpong_turns :: "user_env \<Rightarrow> pingpong_vars \<Rightarrow> int \<Rightarrow> nat \<Rightarrow> byte \<Rightarrow> sys \<Rightarrow> (byte \<times> sys) option" where
  "pingpong_turns E V rtc_fd 0 curchar s = Some (curchar, s)"
| "pingpong_turns E V rtc_fd (Suc n) curchar s = do {
     s \<leftarrow> move_out E V rtc_fd curchar 2 s;
     s \<leftarrow> bounce_back E V rtc_fd curchar 77 s;
     pingpong_turns E V rtc_fd n (if curchar = 90 then 65 else curchar + 1) s
   }"

definition pingpong_main :: "user_env \<Rightarrow> pingpong_vars \<Rightarrow> nat \<Rightarrow> sys \<Rightarrow> (byte \<times> sys) option" where
  "pingpong_main E V n s = do {
     s \<leftarrow> put_spaces (pp_buf V) 0 81 s;
     s \<leftarrow> uput (pp_buf V + 80) 0 s;
     s \<leftarrow> uput (pp_buf V + 79) 10 s;
     s \<leftarrow> uput (pp_buf V + 78) 124 s;
     s \<leftarrow> uput (pp_buf V + 1) 124 s;
     (rtc_fd, s) \<leftarrow> ece391_open E (lit E ''rtc'') s;
     p \<leftarrow> user_ptr (pp_ret_val V) 4 s;
     (ret_val, s) \<leftarrow> ece391_write E rtc_fd (pp_ret_val V) 4 (with_memory (st32 (memory s) p 32) s);
     p \<leftarrow> user_ptr (pp_ret_val V) 4 s;
     pingpong_turns E V rtc_fd n 65 (with_memory (st32 (memory s) p (of_int ret_val)) s)
   }"

section \<open>sigtest\<close>

text \<open>
  The statics \<^verbatim>\<open>charbuf\<close> and \<^verbatim>\<open>badbuf\<close>, the array of \<^verbatim>\<open>main\<close>, the addresses of the two handlers, and in a handler
  its local \<^verbatim>\<open>buf\<close> and the address of its argument.
\<close>

record sigtest_vars =
  st_charbuf :: u32
  st_badbuf :: u32
  st_buf :: u32
  st_segfault :: u32
  st_alarm :: u32
  st_local :: u32
  st_signum :: u32

definition uget32 :: "u32 \<Rightarrow> sys \<Rightarrow> u32 option" where
  "uget32 v s = map_option (ld32 (memory s)) (user_ptr v 4 s)"

definition uput32 :: "u32 \<Rightarrow> u32 \<Rightarrow> sys \<Rightarrow> sys option" where
  "uput32 v x s = map_option (\<lambda>p. with_memory (st32 (memory s) p x) s) (user_ptr v 4 s)"

text \<open>What follows the read: the store through \<^verbatim>\<open>badbuf\<close> comes first.\<close>

definition sigtest_greet :: "user_env \<Rightarrow> sigtest_vars \<Rightarrow> int \<Rightarrow> sys \<Rightarrow> (int \<times> sys) option" where
  "sigtest_greet E V cnt s = do {
     badbuf \<leftarrow> uget32 (st_badbuf V) s;
     s \<leftarrow> uput badbuf 1 s;
     s \<leftarrow> uput (st_buf V + of_int cnt) 0 s;
     s \<leftarrow> ece391_fdputs E 1 (lit E ''Hello, '') s;
     s \<leftarrow> ece391_fdputs E 1 (st_buf V) s;
     c \<leftarrow> uget (st_charbuf V) s;
     s \<leftarrow> ece391_fdputs E 1 (lit E (ln (if c = 1 then ''success'' else ''failure''))) s;
     Some (0, s)
   }"

definition install_handlers :: "user_env \<Rightarrow> sigtest_vars \<Rightarrow> sys \<Rightarrow> sys option" where
  "install_handlers E V s = do {
     s \<leftarrow> ece391_fdputs E 1 (lit E (ln ''Installing signal handlers'')) s;
     (r, s) \<leftarrow> ece391_set_handler E 1 (st_segfault V) s;
     (r, s) \<leftarrow> ece391_set_handler E 3 (st_alarm V) s;
     Some s
   }"

definition sigtest_main :: "user_env \<Rightarrow> sigtest_vars \<Rightarrow> sys \<Rightarrow> (int \<times> sys) option" where
  "sigtest_main E V s = do {
     (r, s) \<leftarrow> ece391_getargs E (st_buf V) 1024 s;
     if r \<noteq> 0 then do {
       s \<leftarrow> ece391_fdputs E 1 (lit E (ln ''could not read argument'')) s;
       Some (3, s)
     } else do {
       b \<leftarrow> uget (st_buf V) s;
       s \<leftarrow> (if b = 49 then install_handlers E V s else Some s);
       s \<leftarrow> ece391_fdputs E 1 (lit E (''Hi, what'' @ CHR 0x27 # ''s your name? '')) s;
       (cnt, s) \<leftarrow> ece391_read E 0 (st_buf V) 1023 s;
       if cnt = -1 then do {
         s \<leftarrow> ece391_fdputs E 1 (lit E (ln (''Can'' @ CHR 0x27 # ''t read name from keyboard.''))) s;
         Some (3, s)
       } else sigtest_greet E V cnt s
     }
   }"

definition print_signum :: "user_env \<Rightarrow> int \<Rightarrow> sys \<Rightarrow> sys option" where
  "print_signum E signum s = ece391_fdputs E 1 (lit E (ln (
     if signum = 0 then ''0'' else if signum = 1 then ''1'' else if signum = 2 then ''2'' else if signum = 3 then ''3'' else ''invalid''))) s"

definition segfault_sighandler :: "user_env \<Rightarrow> sigtest_vars \<Rightarrow> int \<Rightarrow> sys \<Rightarrow> sys option" where
  "segfault_sighandler E V signum s = do {
     s \<leftarrow> ece391_fdputs E 1 (lit E ''Segfault signal handler called, signum: '') s;
     s \<leftarrow> print_signum E signum s;
     s \<leftarrow> ece391_fdputs E 1 (lit E (ln ''Press enter to continue...'')) s;
     (r, s) \<leftarrow> ece391_read E 0 (st_local V) 1 s;
     s \<leftarrow> uput32 (st_badbuf V) (st_charbuf V) s;
     s \<leftarrow> uput32 (st_signum V + 28) (st_charbuf V) s;
     ece391_fdputs E 1 (lit E (ln ''Signal handler returning'')) s
   }"

definition alarm_sighandler :: "user_env \<Rightarrow> int \<Rightarrow> sys \<Rightarrow> sys option" where
  "alarm_sighandler E signum s = do {
     s \<leftarrow> ece391_fdputs E 1 (lit E ''Alarm signal handler called, signum: '') s;
     print_signum E signum s
   }"

section \<open>What pingpong draws\<close>

definition court :: "byte list" where
  "court = [32, 124] @ replicate 76 32 @ [124, 10]"

definition pp_row :: "byte \<Rightarrow> nat \<Rightarrow> byte list" where
  "pp_row c j = court[j := c]"

text \<open>The columns of a turn, and the letter of turn \<open>k\<close>.\<close>

definition pp_columns :: "nat list" where
  "pp_columns = [2..<78] @ rev [2..<78]"

definition pp_letter :: "nat \<Rightarrow> byte" where
  "pp_letter k = of_nat (65 + k mod 26)"

lemma length_court [simp]: "length court = 80"
  by (simp add: court_def)

lemma put_spaces_held:
  assumes "n \<le> length bs"
  shows "user_ok t s \<Longrightarrow> image_placed s \<Longrightarrow> held v bs s \<Longrightarrow> i \<le> n \<Longrightarrow>
    \<exists>s'. put_spaces v i n s = Some s' \<and> held v (take i bs @ replicate (n - i) 32 @ drop n bs) s' \<and> goes t F (region v (length bs)) [] s s'"
  using assms
proof (induction "n - i" arbitrary: i bs s)
  case 0
  then show ?case using goes_refl by (subst put_spaces.simps) simp
next
  case (Suc k)
  then have i: "i < n" "k = n - Suc i" by simp_all
  obtain s1 where s1: "uput (v + of_nat i) 32 s = Some s1" "held v (bs[i := 32]) s1" "goes t F (region v (length bs)) [] s s1"
    using uput_held [OF Suc.prems(1-3), of i 32 F] i(1) Suc.prems(5) by auto
  obtain s2 where s2: "put_spaces v (Suc i) n s1 = Some s2" "goes t F (region v (length bs)) [] s1 s2"
      "held v (take (Suc i) (bs[i := 32]) @ replicate (n - Suc i) 32 @ drop n (bs[i := 32])) s2"
    using Suc.hyps(1) [OF i(2) goes_ok [OF s1(3)] s1(2)] i(1) Suc.prems(5) by auto
  have e: "take (Suc i) (bs[i := 32]) @ replicate (n - Suc i) 32 @ drop n (bs[i := 32]) = take i bs @ replicate (n - i) 32 @ drop n bs"
    using i Suc.prems(5) by (simp add: take_Suc_conv_app_nth Suc.hyps(2) [symmetric])
  show ?case using s1(1) s2(1) s2(3) [unfolded e] goes_silent [OF s1(3) s2(2)] i(1) by (subst put_spaces.simps) simp
qed

text \<open>The program between two rows.\<close>

definition pp_ready :: "user_env \<Rightarrow> nat \<Rightarrow> pingpong_vars \<Rightarrow> nat \<Rightarrow> sys \<Rightarrow> bool" where
  "pp_ready E t V fd s \<longleftrightarrow> user_ok t s \<and> image_placed s \<and> clock_runs E t \<and> clock_fd fd s \<and> user_buffer (pp_garbage V) 4
     \<and> (\<exists>bs. held (pp_buf V) bs s \<and> length bs = 81 \<and> (\<forall>i \<in> {0, 1, 78, 79, 80}. bs ! i = (court @ [0]) ! i))"

lemma court_borders:
  assumes "length bs = 81" "\<forall>i \<in> {0, 1, 78, 79, 80}. bs ! i = (court @ [0]) ! i"
  shows "take 2 bs @ replicate 76 32 @ drop 78 bs = court @ [0]"
proof -
  have "(take 2 bs @ replicate 76 32 @ drop 78 bs) ! i = (court @ [0]) ! i" if "i < 81" for i
  proof -
    consider "i \<in> {0, 1, 78, 79, 80}" | "2 \<le> i" "i < 78" using \<open>i < 81\<close> by fastforce
    then show ?thesis using assms by cases (auto simp: court_def nth_append)
  qed
  then show ?thesis using assms(1) by (intro nth_equalityI) simp_all
qed

lemma pp_row_cstr:
  assumes "held v ((court @ [0])[j := c]) s" "2 \<le> j" "j < 78" "c \<noteq> 0"
  shows "cstr_at v (pp_row c j) s"
proof -
  have "(court @ [0])[j := c] = pp_row c j @ [0]" using assms(3) by (simp add: pp_row_def list_update_append)
  moreover have "0 \<notin> set (pp_row c j)"
    using assms(4) set_update_subset_insert [of court j c] by (auto simp: pp_row_def court_def)
  ultimately show ?thesis using assms(1) by (simp add: cstr_held)
qed

lemma draw_prints:
  assumes "pp_ready E t V fd s" "2 \<le> j" "j < 78" "c \<noteq> 0"
  shows "\<exists>s'. draw E V (int fd) c (int j) s = Some s' \<and> pp_ready E t V fd s' \<and> goes t {} (region (pp_buf V) 81) (pp_row c j) s s'"
proof -
  obtain bs where b: "held (pp_buf V) bs s" "length bs = 81" "\<forall>i \<in> {0, 1, 78, 79, 80}. bs ! i = (court @ [0]) ! i"
    and r: "user_ok t s" "image_placed s" "clock_runs E t" "clock_fd fd s" "user_buffer (pp_garbage V) 4"
    using assms(1) by (auto simp: pp_ready_def)
  obtain s1 where s1: "put_spaces (pp_buf V) 2 78 s = Some s1" "held (pp_buf V) (court @ [0]) s1" "goes t {} (region (pp_buf V) 81) [] s s1"
    using put_spaces_held [OF _ r(1,2) b(1), of 78 2 "{}"] b(2) court_borders [OF b(2,3)] by auto
  let ?bs = "(court @ [0])[j := c]"
  obtain s2 where s2: "uput (pp_buf V + of_nat j) c s1 = Some s2" "held (pp_buf V) ?bs s2" "goes t {} (region (pp_buf V) 81) [] s1 s2"
    using uput_held [OF goes_ok [OF s1(3)] s1(2), of j c "{}"] assms(3) by auto
  obtain s3 where s3: "ece391_fdputs E 1 (pp_buf V) s2 = Some s3" "goes t {} {} (pp_row c j) s2 s3"
    using fdputs_goes [OF goes_ok [OF s2(3)] pp_row_cstr [OF s2(2) assms(2-4)]] by blast
  have "clock_fd fd s3" using clock_fd_goes [OF clock_fd_goes [OF clock_fd_goes [OF r(4) s1(3)] s2(3)] s3(2)] by simp
  then obtain s4 where s4: "ece391_read E (int fd) (pp_garbage V) 4 s3 = Some (0, s4)" "goes t {} {} [] s3 s4" "clock_fd fd s4"
    using clock_read [OF goes_ok [OF s3(2)] _ r(3,5), of fd 4 "{}" "{}"] clock_fd_goes by fastforce
  have g: "goes t {} (region (pp_buf V) 81) (pp_row c j) s s4"
    using goes_silent [OF goes_silent [OF s1(3) s2(3)] goes_mono [OF goes_trans [OF s3(2) s4(2)]]] by simp
  have h: "held (pp_buf V) ?bs s4" using held_goes [OF held_goes [OF s2(2) s3(2)] s4(2)] by simp
  have "\<forall>i \<in> {0, 1, 78, 79, 80}. ?bs ! i = (court @ [0]) ! i" using assms(2,3) by (simp add: nth_list_update)
  then have "pp_ready E t V fd s4" using h goes_ok [OF g] r(3,5) s4(3) by (auto simp: pp_ready_def)
  then show ?thesis using s1(1) s2(1) s3(1) s4(1) g by (auto simp: draw_def)
qed

lemma move_out_prints:
  assumes "c \<noteq> 0"
  shows "pp_ready E t V fd s \<Longrightarrow> 2 \<le> j \<Longrightarrow> j \<le> 78 \<Longrightarrow> \<exists>s'. move_out E V (int fd) c (int j) s = Some s' \<and> pp_ready E t V fd s'
     \<and> goes t {} (region (pp_buf V) 81) (concat (map (pp_row c) [j..<78])) s s'"
proof (induction "78 - j" arbitrary: j s)
  case 0
  then have "user_ok t s" "image_placed s" by (simp_all add: pp_ready_def)
  then show ?case using 0 goes_refl by (subst move_out.simps) simp
next
  case (Suc n)
  then have j: "j < 78" "n = 78 - Suc j" by simp_all
  obtain s1 where s1: "draw E V (int fd) c (int j) s = Some s1" "pp_ready E t V fd s1" "goes t {} (region (pp_buf V) 81) (pp_row c j) s s1"
    using draw_prints [OF Suc.prems(1,2) j(1) assms] by blast
  obtain s2 where s2: "move_out E V (int fd) c (int (Suc j)) s1 = Some s2" "pp_ready E t V fd s2"
      "goes t {} (region (pp_buf V) 81) (concat (map (pp_row c) [Suc j..<78])) s1 s2"
    using Suc.hyps(1) [OF j(2) s1(2)] j(1) Suc.prems(2) by auto
  have "[j..<78] = j # [Suc j..<78]" using j(1) by (rule upt_conv_Cons)
  then show ?case using s1(1) s2(1,2) goes_trans [OF s1(3) s2(3)] j(1) by (subst move_out.simps) (auto simp: add.commute)
qed

lemma bounce_back_prints:
  assumes "c \<noteq> 0"
  shows "pp_ready E t V fd s \<Longrightarrow> j < 78 \<Longrightarrow> 1 \<le> j \<Longrightarrow> \<exists>s'. bounce_back E V (int fd) c (int j) s = Some s' \<and> pp_ready E t V fd s'
     \<and> goes t {} (region (pp_buf V) 81) (concat (map (pp_row c) (rev [2..<Suc j]))) s s'"
proof (induction j arbitrary: s)
  case (Suc j)
  show ?case
  proof (cases "j = 0")
    case True
    have "user_ok t s" "image_placed s" using Suc.prems(1) by (simp_all add: pp_ready_def)
    then show ?thesis using Suc.prems(1) True goes_refl by (subst bounce_back.simps) simp
  next
    case False
    obtain s1 where s1: "draw E V (int fd) c (int (Suc j)) s = Some s1" "pp_ready E t V fd s1" "goes t {} (region (pp_buf V) 81) (pp_row c (Suc j)) s s1"
      using draw_prints [OF Suc.prems(1) _ Suc.prems(2) assms] False by auto
    obtain s2 where s2: "bounce_back E V (int fd) c (int j) s1 = Some s2" "pp_ready E t V fd s2"
        "goes t {} (region (pp_buf V) 81) (concat (map (pp_row c) (rev [2..<Suc j]))) s1 s2"
      using Suc.IH [OF s1(2)] False Suc.prems(2) by auto
    have "rev [2..<Suc (Suc j)] = Suc j # rev [2..<Suc j]" using False by simp
    then show ?thesis using s1(1) s2(1,2) goes_trans [OF s1(3) s2(3)] False
      by (subst bounce_back.simps) (auto simp: add.commute)
  qed
qed simp

lemma pp_letter_nat: "unat (pp_letter k) = 65 + k mod 26"
proof -
  have "k mod 26 < 26" by simp
  then have "65 + k mod 26 < 2 ^ 8" by simp
  then show ?thesis by (simp add: pp_letter_def unat_of_nat take_bit_nat_eq_self del: of_nat_add)
qed

lemma pp_letter_next: "(if pp_letter k = 90 then 65 else pp_letter k + 1) = pp_letter (Suc k)" "pp_letter 0 = 65" "pp_letter k \<noteq> 0"
proof -
  have "pp_letter k = 90 \<longleftrightarrow> k mod 26 = 25" using pp_letter_nat [of k] by (simp add: word_unat_eq_iff)
  then show "(if pp_letter k = 90 then 65 else pp_letter k + 1) = pp_letter (Suc k)"
    by (simp add: pp_letter_def mod_Suc)
  show "pp_letter 0 = 65" by (simp add: pp_letter_def)
  show "pp_letter k \<noteq> 0" using pp_letter_nat [of k] by (metis add_is_0 unat_0 zero_neq_numeral)
qed

definition pp_turn :: "nat \<Rightarrow> byte list" where
  "pp_turn k = concat (map (pp_row (pp_letter k)) pp_columns)"

lemma pingpong_turns_print:
  "pp_ready E t V fd s \<Longrightarrow> \<exists>s'. pingpong_turns E V (int fd) n (pp_letter k) s = Some (pp_letter (k + n), s') \<and> pp_ready E t V fd s'
     \<and> goes t {} (region (pp_buf V) 81) (concat (map pp_turn [k..<k + n])) s s'"
proof (induction n arbitrary: k s)
  case 0
  then have "user_ok t s" "image_placed s" by (simp_all add: pp_ready_def)
  then show ?case using 0 goes_refl by simp
next
  case (Suc n)
  let ?c = "pp_letter k"
  obtain s1 where s1: "move_out E V (int fd) ?c 2 s = Some s1" "pp_ready E t V fd s1"
      "goes t {} (region (pp_buf V) 81) (concat (map (pp_row ?c) [2..<78])) s s1"
    using move_out_prints [OF pp_letter_next(3) Suc.prems, of 2 k] by auto
  obtain s2 where s2: "bounce_back E V (int fd) ?c 77 s1 = Some s2" "pp_ready E t V fd s2"
      "goes t {} (region (pp_buf V) 81) (concat (map (pp_row ?c) (rev [2..<Suc 77]))) s1 s2"
    using bounce_back_prints [OF pp_letter_next(3) s1(2), of 77 k] by auto
  have "Suc 77 = (78 :: nat)" by simp
  then have g: "goes t {} (region (pp_buf V) 81) (pp_turn k) s s2"
    using goes_trans [OF s1(3) s2(3)] unfolding pp_turn_def pp_columns_def by simp
  obtain s' where s': "pingpong_turns E V (int fd) n (pp_letter (Suc k)) s2 = Some (pp_letter (Suc k + n), s')" "pp_ready E t V fd s'"
      "goes t {} (region (pp_buf V) 81) (concat (map pp_turn [Suc k..<Suc k + n])) s2 s'"
    using Suc.IH [OF s2(2)] by blast
  have "[k..<k + Suc n] = k # [Suc k..<Suc k + n]" by (simp add: upt_conv_Cons)
  then show ?case using s1(1) s2(1) s'(1,2) goes_trans [OF g s'(3)] pp_letter_next(1) [of k] by auto
qed

lemma st32_goes:
  assumes "user_ok t s" "image_placed s" "user_buffer v 4"
  shows "\<exists>p. user_ptr v 4 s = Some p \<and> goes t F (region v 4) [] s (with_memory (st32 (memory s) p x) s)"
proof -
  let ?bs = "[ucast x, ucast (drop_bit 8 x), ucast (drop_bit 16 x), ucast (drop_bit 24 x) :: byte]"
  have "length ?bs = 4" by simp
  from store_goes [OF assms(1,2), of v ?bs F, unfolded this, OF assms(3)] assms show ?thesis
    by (simp add: st32_bytes user_ptr_phys user_ok_def)
qed

text \<open>The walls are drawn.\<close>

lemma draw_court:
  assumes "user_ok t s" "image_placed s" "user_buffer v 81"
  shows "\<exists>s1 s2 s3 s4 s5 bs. put_spaces v 0 81 s = Some s1 \<and> uput (v + 80) 0 s1 = Some s2 \<and> uput (v + 79) 10 s2 = Some s3
     \<and> uput (v + 78) 124 s3 = Some s4 \<and> uput (v + 1) 124 s4 = Some s5 \<and> goes t {} (region v 81) [] s s5
     \<and> held v bs s5 \<and> length bs = 81 \<and> (\<forall>i \<in> {0, 1, 78, 79, 80}. bs ! i = (court @ [0]) ! i)"
proof -
  obtain b0 where b0: "length b0 = 81" "held v b0 s" using held_ex [OF assms(3)] by blast
  obtain s1 where s1: "put_spaces v 0 81 s = Some s1" "held v (replicate 81 32) s1" "goes t {} (region v 81) [] s s1"
    using put_spaces_held [OF _ assms(1,2) b0(2), of 81 0 "{}"] b0(1) by auto
  have put: "\<exists>s''. uput (v + of_nat i) c s' = Some s'' \<and> held v (bs[i := c]) s'' \<and> goes t {} (region v 81) [] s s''"
    if "goes t {} (region v 81) [] s s'" "held v bs s'" "length bs = 81" "i < 81" for i c s' bs
    using uput_held [OF goes_ok [OF that(1)] that(2), of i c "{}"] that(3,4) goes_silent [OF that(1)] by metis
  obtain s2 where s2: "uput (v + 80) 0 s1 = Some s2" "held v ((replicate 81 32)[80 := 0]) s2" "goes t {} (region v 81) [] s s2"
    using put [OF s1(3,2), of 80 0] by auto
  obtain s3 where s3: "uput (v + 79) 10 s2 = Some s3" "held v ((replicate 81 32)[80 := 0, 79 := 10]) s3" "goes t {} (region v 81) [] s s3"
    using put [OF s2(3,2), of 79 10] by auto
  obtain s4 where s4: "uput (v + 78) 124 s3 = Some s4" "held v ((replicate 81 32)[80 := 0, 79 := 10, 78 := 124]) s4" "goes t {} (region v 81) [] s s4"
    using put [OF s3(3,2), of 78 124] by auto
  obtain s5 where s5: "uput (v + 1) 124 s4 = Some s5" "held v ((replicate 81 32)[80 := 0, 79 := 10, 78 := 124, 1 := 124]) s5" "goes t {} (region v 81) [] s s5"
    using put [OF s4(3,2), of 1 124] by auto
  have "\<forall>i \<in> {0, 1, 78, 79, 80}. ((replicate 81 32)[80 := 0, 79 := 10, 78 := 124, 1 := 124]) ! i = (court @ [0]) ! i"
    by (simp add: court_def nth_append nth_list_update)
  with s1(1) s2(1) s3(1) s4(1) s5 show ?thesis by (intro exI conjI) (assumption | simp)+
qed

section \<open>Properties\<close>

text \<open>
  C22: the letter of \<^verbatim>\<open>pingpong\<close> bounces.  When the clock can be opened under its name and its waits end, each
  turn of the program's endless loop returns, and after any number of turns the terminal has
  received, for each turn, the rows in which the letter stands in column 2, 3, \<dots>, 77 and then 77, \<dots>, 2
  between the walls in columns 1 and 78; the letter of turn \<open>k\<close> (from 0) is the one at place \<open>k\<close> mod 26 of
  the alphabet.  The other terminals are unchanged.
\<close>

theorem pingpong_bounces:
  assumes "user_ok t s" "image_placed s" "clock_runs E t" "fd_free s" "find_file (chars ''rtc'') s = Some d" "fileType d = 0"
    and "user_buffer (pp_buf V) 81" "user_buffer (pp_ret_val V) 4" "user_buffer (pp_garbage V) 4" "disjoint_regions (pp_ret_val V) 4 (pp_buf V) 81"
    and "cstr_at (lit E ''rtc'') (chars ''rtc'') s" "disjoint_regions (pp_buf V) 81 (lit E ''rtc'') 4"
  shows "\<exists>c s'. pingpong_main E V n s = Some (c, s')
     \<and> displays t (concat (map (\<lambda>k. concat (map (\<lambda>j. ([32, 124] @ replicate 76 32 @ [124, 10])[j := of_nat (65 + k mod 26)]) ([2..<78] @ rev [2..<78]))) [0..<n])) s s'"
proof -
  obtain s1 s2 s3 s4 s5 bs where a: "put_spaces (pp_buf V) 0 81 s = Some s1" "uput (pp_buf V + 80) 0 s1 = Some s2"
      "uput (pp_buf V + 79) 10 s2 = Some s3" "uput (pp_buf V + 78) 124 s3 = Some s4" "uput (pp_buf V + 1) 124 s4 = Some s5"
      "goes t {} (region (pp_buf V) 81) [] s s5" "held (pp_buf V) bs s5" "length bs = 81" "\<forall>i \<in> {0, 1, 78, 79, 80}. bs ! i = (court @ [0]) ! i"
    using draw_court [OF assms(1,2,7)] by blast
  have rtc: "cstr_at (lit E ''rtc'') (chars ''rtc'') s5"
    using apart_disjoint [OF assms(12)] by (intro cstr_goes [OF assms(11) a(6)]) (simp add: chars_def)
  have en: "fd_entry j s5 = fd_entry j s" for j using a(6) by (simp add: goes_def)
  have fr: "fd_free s5" "plain_name (chars ''rtc'')" using assms(4) by (simp_all add: fd_free_def en plain_name_def chars_def)
  have ff: "find_file (chars ''rtc'') s5 = Some d" using directory_goes(2) [OF a(6) assms(2)] assms(5) by simp
  obtain i s6 where o: "ece391_open E (lit E ''rtc'') s5 = Some (int i, s6)" "goes t {i} {} [] s5 s6" "clock_fd i s6"
    using open_clock [OF goes_ok [OF a(6)] rtc fr(2) ff assms(6) fr(1), of E "{}"] by blast
  obtain p where p: "user_ptr (pp_ret_val V) 4 s6 = Some p" "goes t {} (region (pp_ret_val V) 4) [] s6 (with_memory (st32 (memory s6) p 32) s6)"
    using st32_goes [OF goes_ok [OF o(2)] assms(8)] by blast
  let ?s7 = "with_memory (st32 (memory s6) p 32) s6"
  have c7: "clock_fd i ?s7" by (rule clock_fd_goes [OF o(3) p(2)]) simp
  obtain r s8 where w: "ece391_write E (int i) (pp_ret_val V) 4 ?s7 = Some (r, s8)" "goes t {} (region (pp_ret_val V) 4) [] ?s7 s8"
    using clock_write [OF goes_ok [OF p(2)] c7 assms(8)] by blast
  obtain q where q: "user_ptr (pp_ret_val V) 4 s8 = Some q"
      "goes t {} (region (pp_ret_val V) 4) [] s8 (with_memory (st32 (memory s8) q (of_int r)) s8)"
    using st32_goes [OF goes_ok [OF w(2)] assms(8)] by blast
  let ?s9 = "with_memory (st32 (memory s8) q (of_int r)) s8"
  note g9 = goes_silent [OF goes_silent [OF p(2) w(2)] q(2)]
  have h: "held (pp_buf V) bs ?s9"
    using held_goes [OF held_goes [OF a(7) o(2)] g9] apart_disjoint [OF assms(10)] a(8) by simp
  have "pp_ready E t V i ?s9"
    using goes_ok [OF g9] assms(3,9) clock_fd_goes [OF o(3) g9] h a(8,9) by (auto simp: pp_ready_def)
  then obtain s' where s': "pingpong_turns E V (int i) n (pp_letter 0) ?s9 = Some (pp_letter n, s')"
      "goes t {} (region (pp_buf V) 81) (concat (map pp_turn [0..<n])) ?s9 s'"
    using pingpong_turns_print [of E t V i ?s9 n 0] by auto
  have "displays t ([] @ [] @ [] @ concat (map pp_turn [0..<n])) s s'"
    by (rule displays_trans [OF goes_displays [OF a(6)] displays_trans [OF goes_displays [OF o(2)]
          displays_trans [OF goes_displays [OF g9] goes_displays [OF s'(2)]]]])
  moreover have "pingpong_main E V n s = Some (pp_letter n, s')"
    using a(1-5) o(1) p(1) w(1) q(1) s'(1) by (simp add: pingpong_main_def pp_letter_next(2))
  ultimately show ?thesis
    unfolding pp_turn_def pp_columns_def pp_row_def court_def pp_letter_def by auto
qed

section \<open>A game to run\<close>

text \<open>Process 0 on terminal 1; the only entry of the directory is the clock, its name is also the constant at
  0x08300000.\<close>

definition pp_memory :: mem where
  "pp_memory = demo_image(0x500040 := 114, 0x500041 := 116, 0x500042 := 99, 0x500060 := 0, 0xB00000 := 114, 0xB00001 := 116, 0xB00002 := 99)"

definition pp_demo :: sys where
  "pp_demo = with_memory pp_memory demo_sys"

definition pp_vars :: pingpong_vars where
  "pp_vars = \<lparr>pp_buf = 0x08100000, pp_ret_val = 0x08110000, pp_garbage = 0x08120000\<rparr>"

lemma pp_demo_sel: "memory pp_demo = pp_memory" "bootMemAddr pp_demo = 0x500000" "cur_pid pp_demo = 0" "PCB_at pp_demo = PCB_at demo_sys"
  by (simp_all add: pp_demo_def demo_sys_sel)

lemma pp_header: "numDirectories pp_memory 0x500000 = 1" "numInodes pp_memory 0x500000 = 1" "numDataBlocks pp_memory 0x500000 = 1"
  by (simp_all add: numDirectories_def numInodes_def numDataBlocks_def ld32_def pp_memory_def demo_image_def)

lemma pp_demo_ok: "user_ok 1 pp_demo" "image_placed pp_demo"
proof -
  show "user_ok 1 pp_demo" using demo_user_ok proc_same_ok [OF proc_same_with_memory, of pp_memory demo_sys]
    by (simp add: pp_demo_def user_ok_def) (simp add: with_memory_def term_wf_def console_wf_def)
  have i: "inode_length (inode_at pp_memory 0x500000 0) = 5" "dataBlocks (inode_at pp_memory 0x500000 0) ! 0 = 0"
    by (simp_all add: inode_at_def ld_inode_def ld32_def pp_memory_def demo_image_def)
  then have "dataBlocks (inode_at pp_memory 0x500000 0) ! k = 0" if "4096 * k < (5 :: nat)" for k using that by (cases k) simp_all
  then have "image_ok pp_memory 0x500000" using i by (auto simp: image_ok_def image_size_def pp_header inode_ok_def)
  then show "image_placed pp_demo" by (simp add: image_placed_def pp_demo_sel pp_header image_size_def)
qed

lemma pp_demo_clock: "find_file (chars ''rtc'') pp_demo = Some (ld_dentry pp_memory 0x500040)" "fileType (ld_dentry pp_memory 0x500040) = 0"
  "cstr_at 0x08300000 (chars ''rtc'') pp_demo" "fd_free pp_demo"
proof -
  have "name_of (ld_dentry pp_memory 0x500040) = [114, 116, 99]"
    by (simp add: name_of_ld_dentry cstr_n_def upt_rec view_def) (simp add: pp_memory_def demo_image_def)
  then show "find_file (chars ''rtc'') pp_demo = Some (ld_dentry pp_memory 0x500040)"
    by (simp add: find_file_def directory_def pp_demo_sel pp_header dentry_addr_def chars_def)
  show "fileType (ld_dentry pp_memory 0x500040) = 0" by (simp add: ld_dentry_def ld32_def) (simp add: pp_memory_def demo_image_def)
  show "cstr_at 0x08300000 (chars ''rtc'') pp_demo"
    by (simp add: cstr_at_def user_buffer_def user_phys_def user_frame_def pp_demo_sel chars_def rd_bytes_def view_def upt_rec)
       (simp add: pp_memory_def demo_image_def)
  show "fd_free pp_demo"
    unfolding fd_free_def by (rule bexI [of _ 4]) (simp_all add: fd_entry_def pp_demo_sel demo_sys_sel demo_proc_def initial_fdt_def empty_fd_def)
qed

theorem pingpong_bounces_witness:
  "\<exists>c s'. pingpong_main (ticking demo_env) pp_vars 1 pp_demo = Some (c, s')
     \<and> displays 1 (concat (map (\<lambda>j. ([32, 124] @ replicate 76 32 @ [124, 10])[j := 65]) ([2..<78] @ rev [2..<78]))) pp_demo s'"
proof -
  have l: "lit (ticking demo_env) ''rtc'' = 0x08300000" by (simp add: ticking_def demo_env_def)
  have v: "user_buffer (pp_buf pp_vars) 81" "user_buffer (pp_ret_val pp_vars) 4" "user_buffer (pp_garbage pp_vars) 4"
      "disjoint_regions (pp_ret_val pp_vars) 4 (pp_buf pp_vars) 81" "disjoint_regions (pp_buf pp_vars) 81 (lit (ticking demo_env) ''rtc'') 4"
    by (simp_all add: pp_vars_def user_buffer_def disjoint_regions_def l)
  from pingpong_bounces [OF pp_demo_ok ticking_runs pp_demo_clock(4,1,2) v(1-4) _ v(5), of 1] pp_demo_clock(3)
  show ?thesis by (simp add: l)
qed

section \<open>Signals\<close>

text \<open>
  The kernel refuses every handler, so the pointer stays null, and the program never gets past the
  store through it.
\<close>

lemma set_handler_refused: "ece391_set_handler E signum handler s = Some (-1, s)"
  by (simp add: ece391_set_handler_def DO_CALL_def syscall_def ret_of_call sys_sethandler_def)

lemma install_handlers_prints:
  assumes "user_ok t s" "image_placed s" "cstr_at (lit E (ln ''Installing signal handlers'')) bs s"
  shows "\<exists>s'. install_handlers E V s = Some s' \<and> goes t {} {} bs s s'"
  using fdputs_goes [OF assms, of E "{}" "{}"] by (auto simp: install_handlers_def set_handler_refused)

lemma sigtest_store_faults:
  assumes "uget32 (st_badbuf V) s = Some 0"
  shows "sigtest_greet E V cnt s = None"
  using assms by (simp add: sigtest_greet_def uput_def user_ptr_def)

end
