(* ===== verification/Host_Emulation.thy ===== *)
theory Host_Emulation
  imports Lib_Strings
begin

unbundle bit_operations_syntax

text \<open>
  The emulation of the system calls on a host system, \<^verbatim>\<open>syscalls/ece391emulate.c\<close>: programs linked with
  it run on Linux.  The calls of the host (its kernel, \<^verbatim>\<open>execv\<close>, the directory functions, \<^verbatim>\<open>mmap\<close>) are
  parameters; what the file itself computes, the parsing of a command, the argument string, the
  directory names and the routing of descriptors, is modelled.
\<close>

section \<open>The host\<close>

datatype wait_status = Exited int | Signaled int

record ('d, 'h) host_calls =
  int80 :: "u32 \<Rightarrow> u32 \<Rightarrow> u32 \<Rightarrow> u32 \<Rightarrow> mem \<Rightarrow> 'h \<Rightarrow> u32 \<times> mem \<times> 'h"
  execv :: "byte list \<Rightarrow> byte list list \<Rightarrow> 'h \<Rightarrow> wait_status option \<times> 'h"
  opendir :: "'h \<Rightarrow> 'd option \<times> 'h"
  readdir :: "'d \<Rightarrow> 'h \<Rightarrow> byte list option \<times> 'h"
  closedir :: "'d \<Rightarrow> 'h \<Rightarrow> 'h"
  open_path :: "string \<Rightarrow> 'h \<Rightarrow> int \<times> 'h"
  close_fd :: "int \<Rightarrow> 'h \<Rightarrow> 'h"
  mmap_low :: "int \<Rightarrow> 'h \<Rightarrow> u32 option \<times> 'h"

text \<open>The statics of the file with the memory of the program and the state of the host.\<close>

record ('d, 'h) emu =
  dir :: "'d option"
  dir_fd :: int
  mem_fd :: int
  emem :: mem
  ehost :: 'h

section \<open>Calls that are passed on\<close>

text \<open>\<^verbatim>\<open>DO_CALL\<close>: results above 0xFFFFC000 are errors.\<close>

definition emu_call :: "('d, 'h) host_calls \<Rightarrow> u32 \<Rightarrow> u32 \<Rightarrow> u32 \<Rightarrow> u32 \<Rightarrow> ('d, 'h) emu \<Rightarrow> int \<times> ('d, 'h) emu" where
  "emu_call H number a b c s =
    (case int80 H number a b c (emem s) (ehost s) of
       (eax, m, h) \<Rightarrow> (sint (if eax \<le> 0xFFFFC000 then eax else - 1), s\<lparr>emem := m, ehost := h\<rparr>))"

definition emu_write :: "('d, 'h) host_calls \<Rightarrow> int \<Rightarrow> u32 \<Rightarrow> int \<Rightarrow> ('d, 'h) emu \<Rightarrow> int \<times> ('d, 'h) emu" where
  "emu_write H fd buf nbytes s =
    (if dir s = None \<or> dir_fd s \<noteq> fd then emu_call H 4 (of_int fd) buf (of_int nbytes) s else (-1, s))"

definition emu_close :: "('d, 'h) host_calls \<Rightarrow> int \<Rightarrow> ('d, 'h) emu \<Rightarrow> int \<times> ('d, 'h) emu" where
  "emu_close H fd s = (case dir s of
     Some d \<Rightarrow> if dir_fd s \<noteq> fd then emu_call H 6 (of_int fd) 0 0 s
       else (0, s\<lparr>dir := None, dir_fd := -1, ehost := close_fd H (dir_fd s) (closedir H d (ehost s))\<rparr>)
   | None \<Rightarrow> emu_call H 6 (of_int fd) 0 0 s)"

text \<open>\<^verbatim>\<open>ece391_strcmp (filename, ".")\<close> is zero for exactly this string.\<close>

definition is_dot :: "mem \<Rightarrow> u32 \<Rightarrow> bool" where
  "is_dot m filename \<longleftrightarrow> m filename = 46 \<and> m (filename + 1) = 0"

definition emu_open :: "('d, 'h) host_calls \<Rightarrow> u32 \<Rightarrow> ('d, 'h) emu \<Rightarrow> int \<times> ('d, 'h) emu" where
  "emu_open H filename s =
    (if is_dot (emem s) filename then
       case opendir H (ehost s) of (d, h) \<Rightarrow>
       case open_path H ''/dev/null'' h of (fd, h) \<Rightarrow>
         (fd, s\<lparr>dir := d, dir_fd := fd, ehost := h\<rparr>)
     else case int80 H 5 filename 0 0 (emem s) (ehost s) of
       (rval, m, h) \<Rightarrow> (if rval > 0xFFFFC000 then -1 else sint rval, s\<lparr>emem := m, ehost := h\<rparr>))"

definition emu_vidmap :: "('d, 'h) host_calls \<Rightarrow> u32 \<Rightarrow> ('d, 'h) emu \<Rightarrow> int \<times> ('d, 'h) emu" where
  "emu_vidmap H screen_start s =
    (case (if mem_fd s = -1 then open_path H ''/dev/mem'' (ehost s) else (mem_fd s, ehost s)) of (fd, h) \<Rightarrow>
     case mmap_low H fd h of (img, h) \<Rightarrow>
     case img of
       None \<Rightarrow> (-1, s\<lparr>mem_fd := fd, ehost := h\<rparr>)
     | Some p \<Rightarrow> (0, s\<lparr>mem_fd := fd, ehost := h, emem := st32 (emem s) screen_start (p + 0xB8000)\<rparr>))"

section \<open>Directory entries\<close>

text \<open>The two loops of \<^verbatim>\<open>ece391_read\<close>: \<open>Inl\<close> is an early return.\<close>

fun copy_name :: "byte list \<Rightarrow> u32 \<Rightarrow> int \<Rightarrow> int \<Rightarrow> mem \<Rightarrow> (int + int \<times> u32) \<times> mem" where
  "copy_name [] to copied nbytes m = (Inr (copied, to), m)"
| "copy_name (c # from) to copied nbytes m =
    (if copied + 1 = nbytes then (Inl nbytes, m(to := c))
     else if copied + 1 = 32 then (Inl 32, m(to := c))
     else copy_name from (to + 1) (copied + 1) nbytes (m(to := c)))"

function pad_name :: "u32 \<Rightarrow> int \<Rightarrow> int \<Rightarrow> mem \<Rightarrow> int \<times> mem" where
  "pad_name to copied nbytes m =
    (if nbytes > copied \<and> 32 > copied then pad_name (to + 1) (copied + 1) nbytes (m(to := 0)) else (copied, m))"
  by auto
termination by (relation "measure (\<lambda>(to, copied, nbytes, m). nat (32 - copied))") auto

declare pad_name.simps [simp del]

definition emu_read :: "('d, 'h) host_calls \<Rightarrow> int \<Rightarrow> u32 \<Rightarrow> int \<Rightarrow> ('d, 'h) emu \<Rightarrow> int \<times> ('d, 'h) emu" where
  "emu_read H fd buf nbytes s = (case dir s of
     Some d \<Rightarrow>
       if dir_fd s \<noteq> fd then emu_call H 3 (of_int fd) buf (of_int nbytes) s
       else (case readdir H d (ehost s) of
           (None, h) \<Rightarrow> (0, s\<lparr>ehost := h\<rparr>)
         | (Some d_name, h) \<Rightarrow>
             (case copy_name d_name buf 0 nbytes (emem s) of
                (Inl r, m) \<Rightarrow> (r, s\<lparr>ehost := h, emem := m\<rparr>)
              | (Inr (copied, to), m) \<Rightarrow>
                  (case pad_name to copied nbytes m of (r, m) \<Rightarrow> (r, s\<lparr>ehost := h, emem := m\<rparr>))))
   | None \<Rightarrow> emu_call H 3 (of_int fd) buf (of_int nbytes) s)"

section \<open>Running a program\<close>

text \<open>Arrays of \<^verbatim>\<open>ece391_execute\<close>: None is an access outside.\<close>

definition arr_get :: "'a list \<Rightarrow> nat \<Rightarrow> 'a option" where
  "arr_get xs i = (if i < length xs then Some (xs ! i) else None)"

definition arr_put :: "'a list \<Rightarrow> nat \<Rightarrow> 'a \<Rightarrow> 'a list option" where
  "arr_put xs i x = (if i < length xs then Some (xs[i := x]) else None)"

definition word_end :: "byte \<Rightarrow> bool" where
  "word_end c \<longleftrightarrow> c = 0 \<or> c = 32 \<or> c = 10"

function scan_word :: "byte list \<Rightarrow> nat \<Rightarrow> nat option" where
  "scan_word buf scan = do { c \<leftarrow> arr_get buf scan; if \<not> word_end c then scan_word buf (Suc scan) else Some scan }"
  by auto
termination by (relation "measure (\<lambda>(buf, scan). length buf - scan)") (auto simp: arr_get_def split: if_splits)

function scan_spaces :: "byte list \<Rightarrow> nat \<Rightarrow> nat option" where
  "scan_spaces buf scan = do { c \<leftarrow> arr_get buf scan; if c = 32 then scan_spaces buf (Suc scan) else Some scan }"
  by auto
termination by (relation "measure (\<lambda>(buf, scan). length buf - scan)") (auto simp: arr_get_def split: if_splits)

declare scan_word.simps [simp del] scan_spaces.simps [simp del]

text \<open>The loop over the arguments; \<open>args\<close> are the pointers stored so far, as places in \<^verbatim>\<open>buf\<close>.\<close>

partial_function (option) parse_args :: "byte list \<Rightarrow> nat \<Rightarrow> nat list \<Rightarrow> (byte list \<times> nat list) option" where
  "parse_args buf scan args = do {
     scan \<leftarrow> scan_spaces buf scan;
     c \<leftarrow> arr_get buf scan;
     if c = 0 \<or> c = 10 then do { buf \<leftarrow> arr_put buf scan 0; Some (buf, args) }
     else if length args < 1024 then do {
       stop \<leftarrow> scan_word buf scan;
       c \<leftarrow> arr_get buf stop;
       if c \<noteq> 0 then do { buf \<leftarrow> arr_put buf stop 0; parse_args buf (Suc stop) (args @ [scan]) }
       else parse_args buf stop (args @ [scan])
     } else None
   }"

definition arr_str :: "byte list \<Rightarrow> nat \<Rightarrow> byte list" where
  "arr_str buf i = takeWhile (\<lambda>c. c \<noteq> 0) (drop i buf)"

text \<open>
  The parsing: the strings \<^verbatim>\<open>args\<close> points to when \<^verbatim>\<open>execv\<close> is called, \<open>init\<close> being what is in \<^verbatim>\<open>buf\<close> before and
  \<open>n\<close> the length of the command.
\<close>

definition emu_parse :: "byte list \<Rightarrow> (nat \<Rightarrow> byte) \<Rightarrow> nat \<Rightarrow> byte list list option" where
  "emu_parse init command n = do {
     let buf = [46, 47] @ map command [0..<n] @ [0] @ drop (n + 3) init;
     scan \<leftarrow> scan_word buf 2;
     c \<leftarrow> arr_get buf scan;
     (buf, args) \<leftarrow> (if c \<noteq> 0 then do { buf \<leftarrow> arr_put buf scan 0; parse_args buf (Suc scan) [0] } else Some (buf, [0]));
     if length args < 1024 then Some (map (arr_str buf) args) else None
   }"

definition emu_execute :: "('d, 'h) host_calls \<Rightarrow> byte list \<Rightarrow> u32 \<Rightarrow> ('d, 'h) emu \<Rightarrow> (int \<times> ('d, 'h) emu) option" where
  "emu_execute H init command s = do {
     n \<leftarrow> strlen (view (emem s) command);
     if 1023 < n then Some (-1, s)
     else do {
       argv \<leftarrow> emu_parse init (view (emem s) command) n;
       case execv H (hd argv) argv (ehost s) of (st, h) \<Rightarrow>
         Some (case (case st of Some st \<Rightarrow> st | None \<Rightarrow> Signaled 9) of
                 Exited v \<Rightarrow> v | Signaled v \<Rightarrow> if v = 9 then -1 else 256, s\<lparr>ehost := h\<rparr>)
     }
   }"

section \<open>Arguments\<close>

text \<open>The loop of \<^verbatim>\<open>ece391_getargs\<close> over the strings from \<^verbatim>\<open>argv[idx]\<close> on.\<close>

fun join_args :: "byte list list \<Rightarrow> u32 \<Rightarrow> int \<Rightarrow> mem \<Rightarrow> (int + u32 \<times> int) \<times> mem" where
  "join_args [] buf nbytes m = (Inr (buf, nbytes), m)"
| "join_args (arg # args) buf nbytes m =
    (if int (length arg) > nbytes then (Inl (-1), m)
     else let m = wr_bytes m buf (arg @ [0]);
              buf = buf + of_nat (length arg);
              nbytes = nbytes - int (length arg)
          in if args = [] then (Inr (buf, nbytes), m)
             else if nbytes < 1 then (Inl (-1), m)
             else join_args args (buf + 1) (nbytes - 1) (m(buf := 32)))"

definition emu_getargs :: "byte list list \<Rightarrow> u32 \<Rightarrow> int \<Rightarrow> mem \<Rightarrow> int \<times> mem" where
  "emu_getargs argv buf nbytes m =
    (case join_args (drop 1 argv) buf nbytes m of
       (Inl r, m) \<Rightarrow> (r, m)
     | (Inr (buf, nbytes), m) \<Rightarrow> if nbytes < 1 then (-1, m) else (0, m(buf := 0)))"

section \<open>What they compute\<close>

function words :: "byte list \<Rightarrow> byte list list" where
  "words [] = []"
| "words (x # xs) = (if x = 32 then words xs else (x # takeWhile (\<lambda>c. c \<noteq> 32) xs) # words (dropWhile (\<lambda>c. c \<noteq> 32) xs))"
  by pat_completeness auto
termination by (relation "measure length") (simp_all add: less_Suc_eq_le length_dropWhile_le)

fun unwords :: "byte list list \<Rightarrow> byte list" where
  "unwords [] = []"
| "unwords [w] = w"
| "unwords (w # ws) = w @ 32 # unwords ws"

lemma words_spaces: "words (dropWhile (\<lambda>c. c = 32) xs) = words xs"
  by (induction xs) auto

lemma words_word: "w \<noteq> [] \<Longrightarrow> 32 \<notin> set w \<Longrightarrow> words w = [w]" "w \<noteq> [] \<Longrightarrow> 32 \<notin> set w \<Longrightarrow> words (w @ 32 # xs) = w # words xs"
proof -
  assume w: "w \<noteq> []" "32 \<notin> set w"
  then obtain x v where v: "w = x # v" "x \<noteq> 32" "32 \<notin> set v" by (cases w) auto
  then have "takeWhile (\<lambda>c. c \<noteq> 32) v = v" "dropWhile (\<lambda>c. c \<noteq> 32) v = []"
      "takeWhile (\<lambda>c. c \<noteq> 32) (v @ 32 # xs) = v" "dropWhile (\<lambda>c. c \<noteq> 32) (v @ 32 # xs) = 32 # xs"
    by (auto simp: takeWhile_eq_all_conv takeWhile_append dropWhile_append)
  then show "words w = [w]" "words (w @ 32 # xs) = w # words xs" using v by (simp_all del: dropWhile_eq_Nil_conv)
qed

lemma words_length: "2 * length (words xs) \<le> length xs + 1"
proof (induction xs rule: length_induct)
  case (1 xs)
  show ?case
  proof (cases xs)
    case (Cons x zs)
    let ?d = "dropWhile (\<lambda>c. c \<noteq> 32) zs"
    have d: "length ?d \<le> length zs" by (rule length_dropWhile_le)
    consider "x = 32" | "x \<noteq> 32" "?d = []" | ys where "x \<noteq> 32" "?d = 32 # ys" by (metis (mono_tags, lifting) hd_Cons_tl hd_dropWhile)
    then show ?thesis
    proof cases
      case 3
      then have "2 * length (words ys) \<le> length ys + 1" using 1 d Cons by simp
      then show ?thesis using 3 d Cons by simp
    next
      case 2
      then show ?thesis using Cons by (simp del: dropWhile_eq_Nil_conv)
    qed (use 1 Cons in auto)
  qed simp
qed

section \<open>Parsing\<close>

lemma drop_ConsD: "drop i xs = y # ys \<Longrightarrow> i < length xs \<and> xs ! i = y \<and> drop (Suc i) xs = ys"
  by (cases "i < length xs") (simp_all add: Cons_nth_drop_Suc [symmetric])

text \<open>The scans stop at the first byte that ends a word, or that is no space.\<close>

lemma scan_word_end:
  assumes "drop i buf = w @ c # ys" "\<forall>x \<in> set w. \<not> word_end x" "word_end c"
  shows "scan_word buf i = Some (i + length w)"
  using assms
proof (induction w arbitrary: i)
  case Nil
  then show ?case using drop_ConsD [of i buf c ys] by (subst scan_word.simps) (simp add: arr_get_def)
next
  case (Cons x w)
  note b = drop_ConsD [of i buf x "w @ c # ys"]
  have "scan_word buf (Suc i) = Some (Suc i + length w)" using b Cons by simp
  then show ?case using b Cons.prems by (subst scan_word.simps) (simp add: arr_get_def)
qed

lemma scan_spaces_end:
  assumes "drop i buf = w @ c # ys" "\<forall>x \<in> set w. x = 32" "c \<noteq> 32"
  shows "scan_spaces buf i = Some (i + length w)"
  using assms
proof (induction w arbitrary: i)
  case Nil
  then show ?case using drop_ConsD [of i buf c ys] by (subst scan_spaces.simps) (simp add: arr_get_def)
next
  case (Cons x w)
  note b = drop_ConsD [of i buf x "w @ c # ys"]
  have "scan_spaces buf (Suc i) = Some (Suc i + length w)" using b Cons by simp
  then show ?case using b Cons.prems by (subst scan_spaces.simps) (simp add: arr_get_def)
qed

lemma drop_prefix: "drop i xs = w @ zs \<Longrightarrow> drop (i + length w) xs = zs"
  by (metis add.commute append_eq_conv_conj drop_drop)

lemma parse_args_stop:
  assumes "drop scan buf = w @ c # ys" "\<forall>x \<in> set w. x = 32" "c = 0 \<or> c = 10"
  shows "parse_args buf scan args = Some (buf[scan + length w := 0], args)"
proof -
  have "drop (scan + length w) buf = c # ys" by (rule drop_prefix [OF assms(1)])
  note d = drop_ConsD [OF this]
  have "scan_spaces buf scan = Some (scan + length w)" using assms(2,3) by (intro scan_spaces_end [OF assms(1)]) auto
  then show ?thesis using d assms(3) by (subst parse_args.simps) (simp add: arr_get_def arr_put_def)
qed

text \<open>One argument: spaces, a word, and the byte behind it.\<close>

lemma parse_args_word:
  assumes "drop scan buf = sp @ w @ c # ys" "\<forall>x \<in> set sp. x = 32" "w \<noteq> []" "\<forall>x \<in> set w. \<not> word_end x" "word_end c" "length args < 1024"
  shows "parse_args buf scan args =
    (if c \<noteq> 0 then parse_args (buf[scan + length sp + length w := 0]) (scan + length sp + length w + 1) (args @ [scan + length sp])
     else parse_args buf (scan + length sp + length w) (args @ [scan + length sp]))"
proof -
  have d: "drop (scan + length sp) buf = w @ c # ys" by (rule drop_prefix [OF assms(1)])
  then have e: "drop (scan + length sp + length w) buf = c # ys" by (rule drop_prefix)
  note g = drop_ConsD [OF e]
  obtain x v where x: "w = x # v" using assms(3) by (cases w) auto
  have h: "scan + length sp < length buf" "buf ! (scan + length sp) = x" using drop_ConsD [of "scan + length sp" buf x "v @ c # ys"] d x by simp_all
  have nx: "x \<noteq> 32" "x \<noteq> 0" "x \<noteq> 10" using assms(4) x by (auto simp: word_end_def)
  have "scan_spaces buf scan = Some (scan + length sp)" using assms(1) x nx(1) by (intro scan_spaces_end [OF _ assms(2)]) auto
  moreover have "scan_word buf (scan + length sp) = Some (scan + length sp + length w)" by (rule scan_word_end [OF d assms(4,5)])
  ultimately show ?thesis using g h nx assms(6) by (subst parse_args.simps) (simp add: arr_get_def arr_put_def)
qed

lemma arr_str_word:
  assumes "drop i buf = w @ 0 # ys" "0 \<notin> set w"
  shows "arr_str buf i = w"
  using assms by (auto simp: arr_str_def takeWhile_append)

lemma arr_str_take:
  assumes "drop i (take n buf) = w @ [0]" "0 \<notin> set w"
  shows "arr_str buf i = w"
proof -
  have "drop i buf = drop i (take n buf) @ drop (i - length (take n buf)) (drop n buf)"
    using drop_append [of i "take n buf" "drop n buf"] by simp
  then show ?thesis using assms arr_str_word [of i buf w] by simp
qed

text \<open>The word that has just been ended is a string of the final array.\<close>

lemma ended_word:
  assumes "drop i buf = w @ c # ys" "0 \<notin> set w" "take (i + length w + 1) buf' = take (i + length w + 1) (buf[i + length w := 0])"
  shows "arr_str buf' i = w"
proof (rule arr_str_take [OF _ assms(2)])
  have "i + length w < length buf" using drop_ConsD [OF drop_prefix [OF assms(1)]] by simp
  moreover from this have "drop i (buf[i + length w := 0]) = w @ 0 # ys" using assms(1) by (simp add: drop_update_swap)
  then have "drop i (take (i + length w + 1) (buf[i + length w := 0])) = w @ [0]" by (simp add: drop_take)
  ultimately show "drop i (take (i + length w + 1) buf') = w @ [0]" using assms(3) by simp
qed

lemma parse_args_words:
  assumes "drop scan buf = R @ 0 # ys" "R = T \<or> R = T @ [10]" "0 \<notin> set T" "10 \<notin> set T" "length args + length (words T) < 1024"
  shows "\<exists>buf' ps. parse_args buf scan args = Some (buf', args @ ps) \<and> take scan buf' = take scan buf \<and> map (arr_str buf') ps = words T"
  using assms
proof (induction "length T" arbitrary: buf scan args R T ys rule: less_induct)
  case less
  define sp where "sp = takeWhile (\<lambda>c. c = 32) T"
  define T1 where "T1 = dropWhile (\<lambda>c. c = 32) T"
  define w where "w = takeWhile (\<lambda>c. c \<noteq> 32) T1"
  define T2 where "T2 = dropWhile (\<lambda>c. c \<noteq> 32) T1"
  have T: "T = sp @ T1" "T1 = w @ T2" "words T = words T1" and sp: "\<forall>x \<in> set sp. x = 32"
    by (simp_all add: sp_def T1_def w_def T2_def words_spaces) (auto dest: set_takeWhileD)
  have sub: "set w \<subseteq> set T" "set T2 \<subseteq> set T" by (subst T(1), subst T(2), auto)+
  have w2: "32 \<notin> set w" by (auto simp: w_def dest: set_takeWhileD)
  have w: "\<forall>x \<in> set w. \<not> word_end x" "32 \<notin> set w" "0 \<notin> set w" using less.prems(3,4) sub(1) w2 unfolding word_end_def by blast+
  obtain nl where nl: "R = T @ nl" "nl = [] \<or> nl = [10]" using less.prems(2) by auto
  show ?case
  proof (cases "T1 = []")
    case True
    obtain c zs where c: "nl @ 0 # ys = c # zs" "c = 0 \<or> c = 10" using nl(2) by auto
    then have "drop scan buf = sp @ c # zs" using less.prems(1) nl(1) T True by simp
    from parse_args_stop [OF this sp c(2)] show ?thesis using T True by (intro exI [of _ "buf[scan + length sp := 0]"] exI [of _ "[]"]) simp
  next
    case False
    have "hd T1 \<noteq> 32" using hd_dropWhile [of "\<lambda>c. c = 32" T] False by (simp add: T1_def)
    then have wn: "w \<noteq> []" using False by (cases T1) (simp_all add: w_def)
    note nz = w(3)
    let ?i = "scan + length sp" and ?stop = "scan + length sp + length w"
    show ?thesis
    proof (cases "T2 = [] \<and> nl = []")
      case True
      then have d: "drop scan buf = sp @ w @ 0 # ys" "words T = [w]" using less.prems(1) nl(1) T words_word(1) [OF wn w(2)] by simp_all
      have s: "drop ?i buf = w @ 0 # ys" by (rule drop_prefix [OF d(1)])
      have e: "drop ?stop buf = [] @ 0 # ys" using drop_prefix [OF s] by simp
      have "parse_args buf scan args = Some (buf[?stop := 0], args @ [?i])"
        using parse_args_word [OF d(1) sp wn w(1)] parse_args_stop [OF e] less.prems(5) d(2) by (simp add: word_end_def)
      moreover have "arr_str (buf[?stop := 0]) ?i = w" by (rule ended_word [OF s nz refl])
      ultimately show ?thesis using d(2) by (intro exI [of _ "buf[?stop := 0]"] exI [of _ "[?i]"]) simp
    next
      case False
      obtain c T3 R3 where c: "T2 @ nl @ 0 # ys = c # R3 @ 0 # ys" "c = 32 \<or> c = 10" "R3 = T3 \<or> R3 = T3 @ [10]" "set T3 \<subseteq> set T2"
          "length T3 < length T" "words T = w # words T3"
      proof (cases T2)
        case Nil
        then show thesis using that [of 10 "[]" "[]"] False nl(2) wn T words_word(1) [OF wn w(2)] by (cases w) auto
      next
        case (Cons y zs)
        then have "y = 32" using hd_dropWhile [of "\<lambda>c. c \<noteq> 32" T1] by (simp add: T2_def)
        then show thesis using that [of 32 "zs @ nl" zs] Cons nl(2) T words_word(2) [OF wn w(2), of zs] by (cases w) auto
      qed
      have d: "drop scan buf = sp @ w @ c # R3 @ 0 # ys" using less.prems(1) nl(1) T c(1) by simp
      have s: "drop ?i buf = w @ c # R3 @ 0 # ys" by (rule drop_prefix [OF d])
      note e = drop_ConsD [OF drop_prefix [OF s]]
      let ?b = "buf[?stop := 0]"
      have s3: "drop (?stop + 1) ?b = R3 @ 0 # ys" using e by simp
      have n3: "0 \<notin> set T3" "10 \<notin> set T3" "length (args @ [?i]) + length (words T3) < 1024" using less.prems(3-5) c(4,6) sub(2) by auto
      obtain buf' ps where r: "parse_args ?b (?stop + 1) (args @ [?i]) = Some (buf', (args @ [?i]) @ ps)"
          "take (?stop + 1) buf' = take (?stop + 1) ?b" "map (arr_str buf') ps = words T3"
        using less.hyps [OF c(5) s3 c(3) n3] by blast
      have "parse_args buf scan args = Some (buf', args @ ?i # ps)"
        using parse_args_word [OF d sp wn w(1)] r(1) c(2) less.prems(5) c(6) by (auto simp: word_end_def)
      moreover have "take scan buf' = take scan buf" using arg_cong [OF r(2), of "take scan"] by (simp add: min_def)
      moreover have "arr_str buf' ?i = w" by (rule ended_word [OF s nz r(2)])
      ultimately show ?thesis using r(3) c(6) by (intro exI [of _ buf'] exI [of _ "?i # ps"]) simp
    qed
  qed
qed

lemma emu_parse_words:
  assumes "map command [0..<n] = R" "R = T \<or> R = T @ [10]" "0 \<notin> set T" "10 \<notin> set T" "n \<le> 1023"
  shows "emu_parse init command n = Some (([46, 47] @ takeWhile (\<lambda>c. c \<noteq> 32) T) # words (dropWhile (\<lambda>c. c \<noteq> 32) T))"
proof -
  define w where "w = takeWhile (\<lambda>c. c \<noteq> 32) T"
  define T2 where "T2 = dropWhile (\<lambda>c. c \<noteq> 32) T"
  define ys where "ys = drop (n + 3) init"
  define buf where "buf = [46, 47] @ R @ [0] @ ys"
  have T: "T = w @ T2" by (simp add: w_def T2_def)
  have w: "\<forall>x \<in> set w. \<not> word_end x" "0 \<notin> set w" using assms(3,4) by (auto simp: w_def word_end_def dest: set_takeWhileD)
  have nz: "0 \<notin> set ([46, 47] @ w)" using w(2) by simp
  obtain nl where nl: "R = T @ nl" "nl = [] \<or> nl = [10]" using assms(2) by auto
  have e: "emu_parse init command n = do {
     scan \<leftarrow> scan_word buf 2;
     c \<leftarrow> arr_get buf scan;
     (buf, args) \<leftarrow> (if c \<noteq> 0 then do { buf \<leftarrow> arr_put buf scan 0; parse_args buf (Suc scan) [0] } else Some (buf, [0]));
     if length args < 1024 then Some (map (arr_str buf) args) else None }"
    unfolding emu_parse_def Let_def assms(1) buf_def ys_def ..
  show ?thesis
  proof (cases "T2 = [] \<and> nl = []")
    case True
    then have R: "R = w" using nl T by simp
    have "scan_word buf 2 = Some (2 + length w)" by (rule scan_word_end [OF _ w(1), of _ _ 0 ys]) (simp_all add: buf_def R word_end_def)
    moreover have "arr_get buf (2 + length w) = Some 0" by (simp add: arr_get_def buf_def R nth_append)
    moreover have "arr_str buf 0 = [46, 47] @ w" by (rule arr_str_word [OF _ nz, of _ _ ys]) (simp add: buf_def R)
    ultimately show ?thesis using True by (simp add: e flip: w_def T2_def)
  next
    case False
    obtain c R3 T3 where c: "T2 @ nl = c # R3" "c = 32 \<or> c = 10" "R3 = T3 \<or> R3 = T3 @ [10]" "set T3 \<subseteq> set T2" "words T3 = words T2" "length T3 \<le> length R"
    proof (cases T2)
      case Nil
      then show thesis using that [of 10 "[]" "[]"] False nl(2) by auto
    next
      case (Cons y zs)
      then have "y = 32" using hd_dropWhile [of "\<lambda>c. c \<noteq> 32" T] by (simp add: T2_def)
      then show thesis using that [of 32 "zs @ nl" zs] Cons nl T by auto
    qed
    have R: "R = w @ c # R3" using nl(1) T c(1) by simp
    let ?stop = "2 + length w"
    have d: "drop 0 buf = ([46, 47] @ w) @ c # R3 @ 0 # ys" by (simp add: buf_def R)
    have s: "scan_word buf 2 = Some ?stop" using c(2) by (intro scan_word_end [OF _ w(1), of _ _ c "R3 @ 0 # ys"]) (auto simp: buf_def R word_end_def)
    have g: "arr_get buf ?stop = Some c" "arr_put buf ?stop 0 = Some (buf[?stop := 0])" by (simp_all add: arr_get_def arr_put_def buf_def R nth_append)
    have d3: "drop (Suc ?stop) (buf[?stop := 0]) = R3 @ 0 # ys" by (simp add: buf_def R)
    have "length R = n" using assms(1) by auto
    then have "2 * length (words T3) \<le> 1024" using words_length [of T3] c(6) assms(5) by simp
    then have n3: "0 \<notin> set T3" "10 \<notin> set T3" "length [0 :: nat] + length (words T3) < 1024" using c(4) T assms(3,4) by auto
    obtain buf' ps where r: "parse_args (buf[?stop := 0]) (Suc ?stop) [0] = Some (buf', [0] @ ps)"
        "take (Suc ?stop) buf' = take (Suc ?stop) (buf[?stop := 0])" "map (arr_str buf') ps = words T3"
      using parse_args_words [OF d3 c(3) n3] by blast
    have "arr_str buf' 0 = [46, 47] @ w" using ended_word [OF d nz, of buf'] r(2) by simp
    moreover have "length ps = length (words T3)" using arg_cong [OF r(3), of length] by simp
    ultimately show ?thesis using s g c(2,5) r(1,3) n3(3) by (auto simp: e w_def [symmetric] T2_def [symmetric])
  qed
qed

section \<open>The argument string\<close>

lemma wr_last: "length xs < 2 ^ 32 \<Longrightarrow> (wr_bytes m p (xs @ [b]))(p + of_nat (length xs) := c) = wr_bytes m p (xs @ [c])"
  using wr_bytes_snoc [of xs m p c] wr_bytes_snoc [of xs m p b] by (simp add: fun_upd_def fun_eq_iff) metis

lemma join_args_unwords:
  assumes "args \<noteq> []" "int (length (unwords args)) \<le> nbytes" "nbytes < 2 ^ 31"
  shows "join_args args buf nbytes m = (Inr (buf + of_nat (length (unwords args)), nbytes - int (length (unwords args))), wr_bytes m buf (unwords args @ [0]))"
  using assms
proof (induction args arbitrary: buf nbytes m rule: unwords.induct)
  case (3 w v vs)
  let ?u = "unwords (v # vs)"
  have l: "int (length w) + 1 + int (length ?u) \<le> nbytes" using 3(3) by simp
  then have "length w + 2 + length ?u < 2 ^ 32" using 3(4) by simp
  then have a: "wr_bytes (wr_bytes m buf (w @ [32])) (buf + of_nat (length w) + 1) (?u @ [0]) = wr_bytes m buf (w @ 32 # ?u @ [0])"
    using wr_bytes_append [of "w @ [32]" "?u @ [0]" m buf] by (simp add: ac_simps)
  have b: "(wr_bytes m buf (w @ [0]))(buf + of_nat (length w) := 32) = wr_bytes m buf (w @ [32])"
    using l 3(4) by (intro wr_last) simp
  have "join_args (v # vs) (buf + of_nat (length w) + 1) (nbytes - int (length w) - 1) (wr_bytes m buf (w @ [32]))
      = (Inr (buf + of_nat (length w) + 1 + of_nat (length ?u), nbytes - int (length w) - 1 - int (length ?u)), wr_bytes m buf (w @ 32 # ?u @ [0]))"
    using 3(1) [of "nbytes - int (length w) - 1"] l 3(4) by (simp add: a del: join_args.simps)
  then show ?case using l by (simp add: Let_def b algebra_simps del: join_args.simps(2) add: join_args.simps(2) [of w "v # vs"])
qed (simp_all add: Let_def)

lemma emu_getargs_string:
  assumes "int (length (unwords args)) < nbytes" "nbytes < 2 ^ 31"
  shows "emu_getargs (path # args) buf nbytes m = (0, wr_bytes m buf (unwords args @ [0]))"
proof (cases "args = []")
  case True
  then show ?thesis using assms wr_bytes_snoc [of "[]" m buf 0] by (simp add: emu_getargs_def)
next
  case False
  have "length (unwords args) < 2 ^ 32" using assms by simp
  then have "(wr_bytes m buf (unwords args @ [0]))(buf + of_nat (length (unwords args)) := 0) = wr_bytes m buf (unwords args @ [0])" by (rule wr_last)
  then show ?thesis using join_args_unwords [OF False, of nbytes buf m] assms by (simp add: emu_getargs_def)
qed

text \<open>Arguments as long as the buffer: the answer is -1, but the terminator is stored behind the buffer first.\<close>

lemma emu_getargs_overflow:
  assumes "args \<noteq> []" "int (length (unwords args)) = nbytes" "nbytes < 2 ^ 31"
  shows "emu_getargs (path # args) buf nbytes m = (-1, wr_bytes m buf (unwords args @ [0]))"
  using join_args_unwords [OF assms(1) eq_refl [OF assms(2)] assms(3), of buf m] assms(2) by (simp add: emu_getargs_def)

section \<open>Directory names\<close>

text \<open>An entry: the name, cut or filled with NULs to 32 bytes, or to the size of the buffer when that is less.\<close>

lemma pad_name_fill:
  assumes "int k = min 32 nbytes" "c \<le> k"
  shows "pad_name to (int c) nbytes m = (int k, wr_bytes m to (replicate (k - c) 0))"
  using assms(2)
proof (induction "k - c" arbitrary: c to m)
  case 0
  then have "c = k" "\<not> (nbytes > int c \<and> 32 > int c)" using assms(1) by auto
  then show ?case by (subst pad_name.simps) auto
next
  case (Suc n)
  then have c: "c < k" "n = k - Suc c" by simp_all
  have "k \<le> 32" using assms(1) by linarith
  then have "wr_bytes (m(to := 0)) (to + 1) (replicate n 0) = wr_bytes m to (replicate (Suc n) 0)"
    using wr_bytes_Cons [of "replicate n 0" m to 0] c by simp
  moreover have "pad_name (to + 1) (int (Suc c)) nbytes (m(to := 0)) = (int k, wr_bytes (m(to := 0)) (to + 1) (replicate n 0))"
    using Suc.hyps(1) [OF c(2)] c by simp
  moreover have "int c < nbytes" "int c < 32" using c(1) assms(1) by linarith+
  ultimately show ?case by (subst pad_name.simps) (simp add: add.commute Suc.hyps(2) [symmetric])
qed

lemma copy_name_copies:
  assumes "int k = min 32 nbytes" "c < k"
  shows "copy_name name to (int c) nbytes m =
    (if length name < k - c then (Inr (int (c + length name), to + of_nat (length name)), wr_bytes m to name)
     else (Inl (int k), wr_bytes m to (take (k - c) name)))"
  using assms(2)
proof (induction name arbitrary: c to m)
  case (Cons x name)
  have k: "k \<le> 32" using assms(1) by linarith
  have w: "wr_bytes (m(to := x)) (to + 1) ys = wr_bytes m to (x # ys)" if "length ys \<le> 32" for ys
    using that by (intro wr_bytes_Cons) simp
  show ?case
  proof (cases "Suc c = k")
    case True
    then have "int c + 1 = int k" by simp
    then show ?thesis using True assms(1) w [of "[]"] by (auto simp: min_def split: if_splits)
  next
    case False
    then have c: "Suc c < k" using Cons.prems by simp
    then have "int c + 1 \<noteq> nbytes" "int c + 1 \<noteq> 32" using assms(1) by linarith+
    then have step: "copy_name (x # name) to (int c) nbytes m = copy_name name (to + 1) (int (Suc c)) nbytes (m(to := x))" by (simp add: add.commute)
    have tk: "take (k - c) (x # name) = x # take (k - Suc c) name" using c by (simp add: take_Cons')
    show ?thesis
    proof (cases "length name < k - Suc c")
      case True
      then show ?thesis unfolding step Cons.IH [OF c] using w [of name] k by simp
    next
      case False
      then show ?thesis unfolding step Cons.IH [OF c] tk using w [of "take (k - Suc c) name"] k by auto
    qed
  qed
qed simp

lemma emu_read_name:
  assumes "dir s = Some d" "dir_fd s = fd" "readdir H d (ehost s) = (Some name, h)" "int k = min 32 nbytes" "0 < k"
  shows "emu_read H fd buf nbytes s = (int k, s\<lparr>ehost := h, emem := wr_bytes (emem s) buf (take k (name @ replicate k 0))\<rparr>)"
proof (cases "length name < k")
  case True
  have "k \<le> 32" using assms(4) by linarith
  then have "wr_bytes (wr_bytes (emem s) buf name) (buf + of_nat (length name)) (replicate (k - length name) 0) = wr_bytes (emem s) buf (name @ replicate (k - length name) 0)"
    using True by (intro wr_bytes_append) simp
  moreover have "take k (name @ replicate k 0) = name @ replicate (k - length name) 0" using True by simp
  ultimately show ?thesis
    using copy_name_copies [OF assms(4,5), of name buf "emem s"] pad_name_fill [OF assms(4), of "length name"] True assms(1-3) by (simp add: emu_read_def)
next
  case False
  then show ?thesis using copy_name_copies [OF assms(4,5), of name buf "emem s"] assms(1-3) by (simp add: emu_read_def)
qed

section \<open>Properties\<close>

text \<open>
  C21: a command line reaches an emulated program.  For a command of at most 1023 characters (without
  NUL, a newline only at its end) the emulation runs the program named by the first word, with
  the other words as its arguments, and the emulated \<^verbatim>\<open>getargs\<close> of that program answers 0 and stores those words,
  with one space between two, as a terminated string, when they fit the buffer.
\<close>

theorem emulated_arguments:
  assumes "map (view (emem s) command) [0..<n] = R" "view (emem s) command n = 0" "R = T \<or> R = T @ [10]" "0 \<notin> set T" "10 \<notin> set T" "n \<le> 1023"
    and "argv = ([46, 47] @ takeWhile (\<lambda>c. c \<noteq> 32) T) # words (dropWhile (\<lambda>c. c \<noteq> 32) T)"
    and "int (length (unwords (tl argv))) < nbytes" "nbytes < 2 ^ 31"
  shows "emu_execute H init command s = (case execv H (hd argv) argv (ehost s) of
       (st, h) \<Rightarrow> Some (case st of Some (Exited v) \<Rightarrow> v | Some (Signaled v) \<Rightarrow> if v = 9 then -1 else 256 | None \<Rightarrow> -1, s\<lparr>ehost := h\<rparr>))
     \<and> emu_getargs argv buf nbytes m = (0, wr_bytes m buf (unwords (tl argv) @ [0]))"
proof
  have "0 \<notin> set R" using assms(3,4) by auto
  then have "\<forall>i < n. view (emem s) command i \<noteq> 0" using assms(1) by (auto simp: in_set_conv_nth)
  then have "strlen (view (emem s) command) = Some n" using assms(2) by (intro strlenI) auto
  then show "emu_execute H init command s = (case execv H (hd argv) argv (ehost s) of
       (st, h) \<Rightarrow> Some (case st of Some (Exited v) \<Rightarrow> v | Some (Signaled v) \<Rightarrow> if v = 9 then -1 else 256 | None \<Rightarrow> -1, s\<lparr>ehost := h\<rparr>))"
    using emu_parse_words [OF assms(1,3,4,5,6), of init] assms(6,7)
    by (simp add: emu_execute_def split: prod.splits option.splits wait_status.splits)
  show "emu_getargs argv buf nbytes m = (0, wr_bytes m buf (unwords (tl argv) @ [0]))"
    using emu_getargs_string [of "tl argv" nbytes "hd argv" buf m] assms(7-9) by simp
qed

text \<open>A host that runs every program with result 7, and a command at address 64.\<close>

definition demo_host :: "(unit, unit) host_calls" where
  "demo_host = \<lparr>int80 = \<lambda>n a b c m h. (0, m, h), execv = \<lambda>path argv h. (Some (Exited 7), h), opendir = \<lambda>h. (Some (), h),
     readdir = \<lambda>d h. (None, h), closedir = \<lambda>d h. h, open_path = \<lambda>p h. (3, h), close_fd = \<lambda>fd h. h, mmap_low = \<lambda>fd h. (None, h)\<rparr>"

definition demo_emu :: "(unit, unit) emu" where
  "demo_emu = \<lparr>dir = None, dir_fd = -1, mem_fd = -1, emem = wr_bytes (\<lambda>_. 0) 64 [99, 97, 116, 32, 32, 97, 32, 98, 10], ehost = ()\<rparr>"

theorem emulated_arguments_witness:
  "emu_execute demo_host [] 64 demo_emu = Some (7, demo_emu)
     \<and> emu_getargs [[46, 47, 99, 97, 116], [97], [98]] 0 100 (\<lambda>_. 9) = (0, wr_bytes (\<lambda>_. 9) 0 [97, 32, 98, 0])"
proof -
  let ?T = "[99, 97, 116, 32, 32, 97, 32, 98 :: byte]"
  have c: "map (view (emem demo_emu) 64) [0..<9] = ?T @ [10]" "view (emem demo_emu) 64 9 = 0"
    by (simp_all add: demo_emu_def view_def wr_bytes_def upt_rec)
  have a: "[[46, 47, 99, 97, 116], [97], [98]] = ([46, 47] @ takeWhile (\<lambda>c. c \<noteq> 32) ?T) # words (dropWhile (\<lambda>c. c \<noteq> 32) ?T)" by simp
  from emulated_arguments [OF c disjI2 [OF refl] _ _ _ a, of 100 demo_host "[]" 0 "\<lambda>_. 9"] show ?thesis by (simp add: demo_host_def)
qed

end
