(* ===== verification/Spec2Isabelle.thy ===== *)
theory Spec2Isabelle
  imports Kernel Boot User_Grep User_Demos Host_Emulation
begin

text \<open>
  Verification of MarvelOS, a small 32-bit x86 operating system in C and assembly
  (\<^verbatim>\<open>src/student-distrib\<close>) with its user programs (\<^verbatim>\<open>src/syscalls\<close>, \<^verbatim>\<open>src/fish\<close>).

  \<^bold>\<open>The program.\<close>  The boot loader jumps to \<^verbatim>\<open>entry\<close>, which fills in the descriptor tables, prints the
  loader's information, finds the file system image among the loaded modules, starts the interrupt
  controller, the clock, the timer and paging, and idles.  Timer ticks then start one shell on each
  of three terminals and switch between them; user programs call the kernel through
  \<^verbatim>\<open>int $0x80\<close>; the keyboard handler edits the line of the terminal on display and switches
  terminals.  Up to six processes exist; each has a 4 MB page of its own at 0x08000000.

  \<^bold>\<open>State.\<close>  The global variables of the kernel are the fields of one extensible record that grows
  from theory to theory in the order the files depend on each other: \<open>machine\<close> (memory, port log,
  interrupt flag), \<open>pic\<close>, \<open>paging\<close>, \<open>proc\<close>, \<open>console\<close>, \<open>fs\<close>, \<open>term_state\<close>, \<open>rtc\<close>, \<open>sys\<close>; the scheduler keeps such
  a state and what is saved for each thread (\<open>sched\<close>), boot adds the descriptor tables (\<open>boot_state\<close>).
  Raw memory is a function from 32-bit addresses to bytes: video memory, the file system image and
  the user pages are regions of it.  A C function is a HOL function from state to state; one that
  can fault, overrun or never return has an option result (None).  Fixed-width integers are words;
  \<^verbatim>\<open>int\<close> variables whose range is shown to be small are HOL integers.

  \<^bold>\<open>Theories and what they show.\<close>
  \<^item> \<open>Marvel_Prelude\<close>: machine types, memory, regions, little-endian loads and stores, and the shared lemmas.
  \<^item> \<open>Lib_Memory\<close>, \<open>Lib_Strings\<close> (\<^verbatim>\<open>lib.c\<close>): the assembly of \<open>memset\<close>, \<open>memcpy\<close>, \<open>memmove\<close> label by label
    equals the bulk write; the string functions and \<open>itoa\<close>, with its round trip.
  \<^item> \<open>Machine\<close>, \<open>I8259\<close> (\<^verbatim>\<open>lib.h\<close>, \<^verbatim>\<open>i8259.c\<close>): ports, the interrupt flag; masks of the interrupt
    controller as an interpretation of the contract \<open>irq_controller\<close>.
  \<^item> \<open>Paging\<close> (\<^verbatim>\<open>paging.c\<close>, \<^verbatim>\<open>paging_asm.S\<close>): directory, tables, cached translations; the address space \<open>init_paging\<close> builds.
  \<^item> \<open>Process\<close>, \<open>Console\<close>, \<open>Printf_Output\<close> (\<^verbatim>\<open>lib.h\<close>, \<^verbatim>\<open>lib.c\<close>): process control blocks; all screen output, refined to three
    independent virtual terminals (\<open>vterm\<close>); \<open>printf\<close> returns and changes only the screens and its buffer.
  \<^item> \<open>Filesystem\<close> (\<^verbatim>\<open>filesystem.c\<close>): directory lookup and \<open>read_data\<close> equal their specification on the image.
  \<^item> \<open>Terminal\<close>, \<open>RTC\<close> (\<^verbatim>\<open>terminal.c\<close>, \<^verbatim>\<open>RTC.c\<close>): the keyboard handler keeps its buffers, switching keeps the screens,
    what is typed is what is read; the clock's rates.
  \<^item> \<open>Reader\<close>: the interface of reading an object to its end and copying it (locales \<open>reader\<close>, \<open>copier\<close>).
  \<^item> \<open>Syscalls\<close>, \<open>File_Access\<close>, \<open>Process_Control\<close>, \<open>Process_Properties\<close>, \<open>Proper_Calls\<close> (\<^verbatim>\<open>systemcall.c\<close>, \<^verbatim>\<open>systemcall_asm.S\<close>): descriptors and
    the calls through their tables, execute, halt and the dispatcher; the invariant \<open>sys_ok\<close> of the
    process table, the round trips of execute and halt, open and close, execute and getargs; files
    and directories as interpretations of \<open>reader\<close>; every proper call is answered and keeps \<open>sys_ok\<close>.
  \<^item> \<open>Scheduler\<close>, \<open>Scheduler_Properties\<close> (\<^verbatim>\<open>pit.c\<close>): the timer handler; boot starts three shells, ticks go round.
  \<^item> \<open>IDT\<close> (\<^verbatim>\<open>idt_init.c\<close>): the gates and the exception handlers.
  \<^item> \<open>Kernel_Frames\<close>, \<open>Kernel\<close>: system calls, interrupts, exceptions and the instructions of programs as sequences of
    events (\<open>event\<close>, \<open>deliver\<close>, \<open>run\<close>).  The kernel gets through every sequence whose events keep the
    conditions below (\<open>behaved\<close>); then the invariant holds, threads are isolated, files are unchanged.
  \<^item> \<open>Boot\<close> (\<^verbatim>\<open>kernel.c\<close>, \<^verbatim>\<open>x86_desc.h\<close>, \<^verbatim>\<open>multiboot.h\<close>): \<^verbatim>\<open>entry\<close> prints its report and reaches its idle loop with everything
    set up, and from there the system is safe for events as above.
  \<^item> \<open>User_Library\<close> (\<^verbatim>\<open>ece391syscall.S\<close>, \<^verbatim>\<open>ece391support.c\<close>), \<open>User_Files\<close> (cat, ls as interpretations of \<open>copier\<close>), \<open>User_Tests\<close>
    (\<^verbatim>\<open>ece391syserr.c\<close>), \<open>User_Shell\<close> (shell, hello, testprint, counter): programs composed with the
    kernel's model; what they print is stated on the virtual terminals.
  \<^item> \<open>Blink\<close> (\<^verbatim>\<open>blink.S\<close> and the allocator of \<^verbatim>\<open>fish.c\<close>), \<open>User_Fish\<close> (\<^verbatim>\<open>fish.c\<close>): the linked list of blinking characters
    refines a list (locale \<open>blink_engine\<close>); the frames alternate on the screen.
  \<^item> \<open>User_Buffers\<close>: what stores, outputs, string copies and reads do to the arrays of a program, and what they
    leave alone (\<open>goes\<close>, \<open>held\<close>, \<open>apart\<close>); the opening and reading of files, the directory and the clock.
  \<^item> \<open>User_Grep\<close> (\<^verbatim>\<open>ece391grep.c\<close>): the search through its 1024-byte buffer prints exactly the lines of the files that
    contain the argument.  The files are texts: no NUL, lines of at most 1023 bytes, and the byte
    behind the buffer, which the program reads without having written it, is no newline.
  \<^item> \<open>User_Demos\<close> (\<^verbatim>\<open>ece391pingpong.c\<close>, \<^verbatim>\<open>ece391sigtest.c\<close>): the letter goes from wall to wall and back in every turn;
    sigtest is refused its handlers and ends by a fault.
  \<^item> \<open>Host_Emulation\<close> (\<^verbatim>\<open>ece391emulate.c\<close>): the system calls on a Linux host; the words of a command given to
    execute are what the program's getargs answers.

  \<^bold>\<open>What the kernel does not check.\<close>  The calls compare user pointers with NULL only.  \<open>user_ptr\<close> is the translation of
  an address through the process's page, and an access outside that page has no value in the model:
  on the machine \<^verbatim>\<open>read\<close> or \<^verbatim>\<open>getargs\<close> to such an address can overwrite the kernel's data and the file
  system, and \<^verbatim>\<open>write\<close> can print them.  Descriptor 8 passes the bounds check, Enter on a full line of 128
  characters stores behind the row, and an exception in a base shell has no parent to return to.  \<open>proper_call\<close>
  and \<open>allowed\<close> exclude these cases, each by a named condition, and the properties on whole runs
  hold for runs that keep them; that such runs get through is part of what is proved.

  \<^bold>\<open>Loops and bounds.\<close>  Loops with a bound are structural or have a measure; loops whose end depends on
  memory (strings, the memory map, spaces of a command, the lists of the fish, reading to the end of
  a file, the lines of a buffer) are partial functions with an option result, and that they return is proved where a
  property uses them.  \<open>drain\<close> and \<open>pump\<close> of \<open>Reader\<close> take a number of steps: one more than the length
  of what is left is enough, as the lemmas on them show.  The endless loop of pingpong takes the
  number of its turns (\<open>pingpong_turns\<close>), and its property holds for every number.

  \<^bold>\<open>Waiting.\<close>  A system call that waits (for a line, a clock tick, another program) answers what it
  waits for instead of a value (\<open>sysret\<close>); its loop's start, condition and end are separate
  definitions.  For user programs, what such a call finally returns is the parameter \<open>resume\<close>;
  grep and pingpong assume of it that a wait for the clock ends and leaves their arrays, their
  descriptors and the screens alone (\<open>clock_runs\<close>; shown of the kernel's own handler, \<open>ticking_runs\<close>).
  The kernel and the C library under the host emulation are the parameter \<open>host_calls\<close>.

  \<^bold>\<open>Not modelled.\<close>  Stacks and saved registers (only the stack pointers that the kernel stores are state), so
  also \<^verbatim>\<open>boot.S\<close> and the register saving of the interrupt wrappers; interleaving inside a system call,
  a handler or \<^verbatim>\<open>entry\<close>: each is one step, although their gates are trap gates and leave interrupts
  on, so that a tick inside \<^verbatim>\<open>execute\<close> or \<^verbatim>\<open>halt\<close> is outside the model; what other processes do between two
  calls of a user program; the contents of low memory, where \<^verbatim>\<open>putc\<close> follows a null pointer before the first process (the byte
  at address 21 is a hypothesis of the boot properties); the debug macros of \<^verbatim>\<open>debug.h\<close>, which no
  code uses; the port macros \<^verbatim>\<open>inw\<close>, \<^verbatim>\<open>inl\<close>, \<^verbatim>\<open>outw\<close>, \<^verbatim>\<open>outl\<close>, which have no caller;
  the delivery of signals, which this kernel does not have; the start code of the host emulation,
  which keeps the stack pointer where the arguments are found (its arguments are a list of strings).
\<close>

end
